(* ===== verification/Prelude.thy ===== *)
theory Prelude
  imports Main "HOL-Library.Word"
begin

text \<open>
  Shared vocabulary of the development: the machine integer types of the Rust sources, the
  operations of Rust's standard library that the sources use on byte strings
  (\<open>str::split\<close>, \<open>str::trim\<close>, \<open>eq_ignore_ascii_case\<close>, little-endian
  conversion), modifier masks as sets of bits, and the list and option lemmas that several
  components need.

  A Rust \<open>str\<close> is its UTF-8 byte sequence: a \<open>char\<close> of a \<open>string\<close> is one byte.
\<close>

unbundle bit_operations_syntax

named_theorems mask_simps \<open>reading single bits of modifier masks\<close>
named_theorems rust_std \<open>the modelled operations of the Rust standard library\<close>

type_synonym u8 = "8 word"
type_synonym u16 = "16 word"
type_synonym u32 = "32 word"
type_synonym bytes = "8 word list"

section \<open>Modifier masks\<close>

text \<open>\<open>1u8 << bit\<close>, for a bit position held in a \<open>u8\<close>.\<close>

definition bit_mask :: "u8 \<Rightarrow> u8" where
  "bit_mask b = push_bit (unat b) 1"

text \<open>The set view of a mask: the positions of its one-bits.\<close>

definition bits_of :: "u8 \<Rightarrow> nat set" where
  "bits_of m = {i. bit m i}"

lemma bits_of_iff [mask_simps]: "i \<in> bits_of m \<longleftrightarrow> bit m i"
  by (simp add: bits_of_def)

lemma bits_of_0 [simp]: "bits_of 0 = {}"
  by (simp add: bits_of_def)

lemma bits_of_or [simp]: "bits_of (a OR b) = bits_of a \<union> bits_of b"
  by (auto simp: bits_of_def bit_simps)

lemma bits_of_and [simp]: "bits_of (a AND b) = bits_of a \<inter> bits_of b"
  by (auto simp: bits_of_def bit_simps)

lemma bits_of_and_not [simp]: "bits_of (a AND NOT b) = bits_of a - bits_of b"
  by (auto simp: bits_of_def bit_simps dest: bit_imp_le_length)

lemma bits_of_inject: "bits_of a = bits_of b \<longleftrightarrow> a = b"
  by (metis bit_word_eqI bits_of_iff)

lemma bits_of_empty_iff: "bits_of a = {} \<longleftrightarrow> a = 0"
  by (metis bits_of_0 bits_of_inject)

lemma bits_of_bound: "i \<in> bits_of m \<Longrightarrow> i < 8"
  by (auto simp: bits_of_def dest: bit_imp_le_length)

lemma bits_of_bit_mask:
  assumes "unat b < 8" shows "bits_of (bit_mask b) = {unat b}"
  using assms by (auto simp: bits_of_def bit_mask_def bit_simps)

lemma bit_bit_mask [mask_simps]:
  "unat b < 8 \<Longrightarrow> bit (bit_mask b) i \<longleftrightarrow> i = unat b"
  using bits_of_bit_mask [of b] by (auto simp: bits_of_def)

text \<open>Rust's test \<open>mask & (1 << bit) != 0\<close>.\<close>

lemma mask_test_iff [mask_simps]:
  assumes "unat b < 8" shows "m AND bit_mask b \<noteq> 0 \<longleftrightarrow> bit m (unat b)"
  using bits_of_bit_mask [OF assms] by (auto simp flip: bits_of_empty_iff simp: bits_of_iff)

text \<open>The or of a list of masks.\<close>

definition or_list :: "u8 list \<Rightarrow> u8" where
  "or_list ms = foldr (OR) ms 0"

lemma or_list_simps [simp]:
  "or_list [] = 0" "or_list (m # ms) = m OR or_list ms"
  by (simp_all add: or_list_def)

lemma bits_of_or_list: "bits_of (or_list ms) = (\<Union>m \<in> set ms. bits_of m)"
  by (induction ms) auto

section \<open>Lists and options\<close>

text \<open>\<open>Iterator::find_map\<close>: the first defined image.\<close>

fun find_map :: "('a \<Rightarrow> 'b option) \<Rightarrow> 'a list \<Rightarrow> 'b option" where
  "find_map f [] = None"
| "find_map f (x # xs) = (case f x of Some y \<Rightarrow> Some y | None \<Rightarrow> find_map f xs)"

lemma find_map_append:
  "find_map f (xs @ ys) = (case find_map f xs of Some y \<Rightarrow> Some y | None \<Rightarrow> find_map f ys)"
  by (induction xs) (auto split: option.splits)

lemma find_map_None_iff: "find_map f xs = None \<longleftrightarrow> (\<forall>x \<in> set xs. f x = None)"
  by (induction xs) (auto split: option.splits)

lemma find_map_SomeD: "find_map f xs = Some y \<Longrightarrow> \<exists>x \<in> set xs. f x = Some y"
  by (induction xs) (auto split: option.splits)

lemma find_map_Some_iff:
  "find_map f xs = Some y \<longleftrightarrow>
     (\<exists>us x vs. xs = us @ x # vs \<and> f x = Some y \<and> (\<forall>u \<in> set us. f u = None))"
proof
  show "find_map f xs = Some y \<Longrightarrow>
    \<exists>us x vs. xs = us @ x # vs \<and> f x = Some y \<and> (\<forall>u \<in> set us. f u = None)"
  proof (induction xs)
    case (Cons a xs)
    show ?case
    proof (cases "f a")
      case None
      with Cons obtain us x vs
        where "xs = us @ x # vs" "f x = Some y" "\<forall>u \<in> set us. f u = None" by auto
      with None have "a # xs = (a # us) @ x # vs \<and> f x = Some y \<and> (\<forall>u \<in> set (a # us). f u = None)"
        by simp
      then show ?thesis by blast
    next
      case (Some b)
      with Cons.prems have "a # xs = [] @ a # xs \<and> f a = Some y \<and> (\<forall>u \<in> set []. f u = None)"
        by simp
      then show ?thesis by blast
    qed
  qed simp
next
  assume "\<exists>us x vs. xs = us @ x # vs \<and> f x = Some y \<and> (\<forall>u \<in> set us. f u = None)"
  then obtain us x vs where "xs = us @ x # vs" "f x = Some y" "find_map f us = None"
    by (auto simp: find_map_None_iff)
  then show "find_map f xs = Some y" by (simp add: find_map_append)
qed

lemma find_map_concat_map:
  "find_map f (concat (map g xs)) = find_map (\<lambda>x. find_map f (g x)) xs"
  by (induction xs) (auto simp: find_map_append split: option.splits)

lemma find_map_cong [fundef_cong]:
  "xs = ys \<Longrightarrow> (\<And>x. x \<in> set ys \<Longrightarrow> f x = g x) \<Longrightarrow> find_map f xs = find_map g ys"
  by (induction ys arbitrary: xs) (auto split: option.split)

text \<open>Mapping a fallible function over a list, stopping at the first error
  (\<open>collect::<Result<Vec<_>, _>>()\<close>).\<close>

fun try_map :: "('a \<Rightarrow> 'e + 'b) \<Rightarrow> 'a list \<Rightarrow> 'e + 'b list" where
  "try_map f [] = Inr []"
| "try_map f (x # xs) =
     (case f x of Inl e \<Rightarrow> Inl e
      | Inr y \<Rightarrow> (case try_map f xs of Inl e \<Rightarrow> Inl e | Inr ys \<Rightarrow> Inr (y # ys)))"

lemma try_map_Inr_iff: "try_map f xs = Inr ys \<longleftrightarrow> list_all2 (\<lambda>x y. f x = Inr y) xs ys"
proof (induction xs arbitrary: ys)
  case Nil
  then show ?case by auto
next
  case (Cons x xs)
  show ?case
  proof (cases "f x")
    case (Inr y)
    have "try_map f (x # xs) = Inr ys \<longleftrightarrow> (\<exists>zs. ys = y # zs \<and> try_map f xs = Inr zs)"
      by (cases "try_map f xs") (auto simp: Inr)
    then show ?thesis by (auto simp: Cons.IH list_all2_Cons1 Inr)
  qed (simp add: list_all2_Cons1)
qed

lemma try_map_InlD: "try_map f xs = Inl e \<Longrightarrow> \<exists>x \<in> set xs. f x = Inl e"
  by (induction xs) (auto split: sum.splits)

lemma try_map_map_Inr: "(\<And>x. x \<in> set xs \<Longrightarrow> f (g x) = Inr (h x)) \<Longrightarrow>
    try_map f (map g xs) = Inr (map h xs)"
  by (induction xs) auto

text \<open>\<open>Iterator::position\<close>.\<close>

fun position :: "('a \<Rightarrow> bool) \<Rightarrow> 'a list \<Rightarrow> nat option" where
  "position p [] = None"
| "position p (x # xs) = (if p x then Some 0 else map_option Suc (position p xs))"

lemma position_Some: "position p xs = Some i \<Longrightarrow> i < length xs \<and> p (xs ! i)"
  by (induction xs arbitrary: i) (auto split: if_splits)

lemma position_None: "position p xs = None \<longleftrightarrow> (\<forall>x \<in> set xs. \<not> p x)"
  by (induction xs) auto

lemma position_first: "position p xs = Some i \<Longrightarrow> j < i \<Longrightarrow> \<not> p (xs ! j)"
  by (induction xs arbitrary: i j) (auto split: if_splits simp: nth_Cons')

end
