(* ===== verification/Rust_Str.thy ===== *)
theory Rust_Str
  imports Prelude
begin

text \<open>
  The operations of \<open>str\<close> that the sources use, on UTF-8 byte strings: \<open>split\<close> at an
  ASCII character and \<open>join\<close>, \<open>trim\<close> (Unicode \<open>White_Space\<close>, by its UTF-8
  encodings), \<open>eq_ignore_ascii_case\<close>, \<open>to_lowercase\<close> and decimal formatting of
  unsigned integers.
\<close>

section \<open>Splitting and joining\<close>

fun split_on :: "char \<Rightarrow> string \<Rightarrow> string list" where
  "split_on c [] = [[]]"
| "split_on c (x # xs) =
     (if x = c then [] # split_on c xs
      else (case split_on c xs of [] \<Rightarrow> [[x]] | p # ps \<Rightarrow> (x # p) # ps))"

fun join :: "string \<Rightarrow> string list \<Rightarrow> string" where
  "join sep [] = []"
| "join sep [s] = s"
| "join sep (s # ss) = s @ sep @ join sep ss"

lemma split_on_nonempty [simp]: "split_on c s \<noteq> []"
  by (induction s) (auto split: list.split)

lemma split_on_parts: "p \<in> set (split_on c s) \<Longrightarrow> c \<notin> set p"
proof (induction s arbitrary: p)
  case (Cons x xs)
  then show ?case by (cases "split_on c xs") (auto split: if_splits)
qed simp

lemma split_on_no_sep: "c \<notin> set s \<Longrightarrow> split_on c s = [s]"
  by (induction s) auto

lemma split_on_append:
  "c \<notin> set p \<Longrightarrow> split_on c (p @ c # s) = p # split_on c s"
  by (induction p) auto

lemma split_on_join:
  "ps \<noteq> [] \<Longrightarrow> (\<And>p. p \<in> set ps \<Longrightarrow> c \<notin> set p) \<Longrightarrow> split_on c (join [c] ps) = ps"
  by (induction "[c]" ps rule: join.induct) (auto simp: split_on_no_sep split_on_append)

lemma join_split_on: "join [c] (split_on c s) = s"
proof (induction s)
  case (Cons x xs)
  then show ?case
    by (cases "split_on c xs"; cases "tl (split_on c xs)") (auto split: list.split)
qed simp

lemma join_Cons: "join sep (s # ss) = (if ss = [] then s else s @ sep @ join sep ss)"
  by (cases ss) auto

section \<open>Trimming white space\<close>

text \<open>The UTF-8 encodings of the characters of the Unicode property \<open>White_Space\<close>.\<close>

definition ws_encodings :: "string list" where
  "ws_encodings =
     [[CHR 0x09], [CHR 0x0A], [CHR 0x0B], [CHR 0x0C], [CHR 0x0D], [CHR 0x20],
      [CHR 0xC2, CHR 0x85], [CHR 0xC2, CHR 0xA0], [CHR 0xE1, CHR 0x9A, CHR 0x80],
      [CHR 0xE2, CHR 0x80, CHR 0x80], [CHR 0xE2, CHR 0x80, CHR 0x81],
      [CHR 0xE2, CHR 0x80, CHR 0x82], [CHR 0xE2, CHR 0x80, CHR 0x83],
      [CHR 0xE2, CHR 0x80, CHR 0x84], [CHR 0xE2, CHR 0x80, CHR 0x85],
      [CHR 0xE2, CHR 0x80, CHR 0x86], [CHR 0xE2, CHR 0x80, CHR 0x87],
      [CHR 0xE2, CHR 0x80, CHR 0x88], [CHR 0xE2, CHR 0x80, CHR 0x89],
      [CHR 0xE2, CHR 0x80, CHR 0x8A], [CHR 0xE2, CHR 0x80, CHR 0xA8],
      [CHR 0xE2, CHR 0x80, CHR 0xA9], [CHR 0xE2, CHR 0x80, CHR 0xAF],
      [CHR 0xE2, CHR 0x81, CHR 0x9F], [CHR 0xE3, CHR 0x80, CHR 0x80]]"

definition prefix_len :: "string list \<Rightarrow> string \<Rightarrow> nat" where
  "prefix_len encs s =
     (case find (\<lambda>w. take (length w) s = w) encs of Some w \<Rightarrow> length w | None \<Rightarrow> 0)"

lemma prefix_len_le: "prefix_len encs s \<le> length s"
proof (cases "find (\<lambda>w. take (length w) s = w) encs")
  case (Some w)
  then have "take (length w) s = w" by (auto simp: find_Some_iff)
  then have "length w \<le> length s" by (metis length_take min.absorb_iff2 min.commute)
  with Some show ?thesis by (simp add: prefix_len_def)
qed (simp add: prefix_len_def)

function strip_prefixes :: "string list \<Rightarrow> string \<Rightarrow> string" where
  "strip_prefixes encs s =
     (if prefix_len encs s = 0 then s
      else strip_prefixes encs (drop (prefix_len encs s) s))"
  by pat_completeness auto
termination
proof (relation "measure (\<lambda>(encs, s). length s)", goal_cases)
  case (2 encs s)
  then show ?case using prefix_len_le [of encs s] by auto
qed simp

declare strip_prefixes.simps [simp del]

definition trim_start :: "string \<Rightarrow> string" where
  "trim_start s = strip_prefixes ws_encodings s"

definition trim_end :: "string \<Rightarrow> string" where
  "trim_end s = rev (strip_prefixes (map rev ws_encodings) (rev s))"

definition trim :: "string \<Rightarrow> string" where
  "trim s = trim_end (trim_start s)"

lemma prefix_len_0:
  assumes "\<And>w. w \<in> set encs \<Longrightarrow> w \<noteq> [] \<and> (s = [] \<or> hd s \<noteq> hd w)"
  shows "prefix_len encs s = 0"
proof -
  have "find (\<lambda>w. take (length w) s = w) encs = None"
    unfolding find_None_iff
  proof (intro notI)
    assume "\<exists>w. w \<in> set encs \<and> take (length w) s = w"
    then obtain w where w: "w \<in> set encs" "take (length w) s = w" by blast
    then have "w \<noteq> []" "s = [] \<or> hd s \<noteq> hd w" using assms by auto
    with w show False by (metis hd_take length_greater_0_conv take_Nil)
  qed
  then show ?thesis by (simp add: prefix_len_def)
qed

text \<open>An ASCII letter, digit or underscore is neither a first nor a last byte of white space.\<close>

definition plain_char :: "char \<Rightarrow> bool" where
  "plain_char c \<longleftrightarrow> 33 \<le> (of_char c :: nat) \<and> (of_char c :: nat) < 127"

lemma trim_plain:
  assumes "s \<noteq> []" "plain_char (hd s)" "plain_char (last s)"
  shows "trim s = s"
proof -
  have "prefix_len ws_encodings s = 0"
    by (rule prefix_len_0) (use assms in \<open>auto simp: ws_encodings_def plain_char_def\<close>)
  then have 1: "trim_start s = s"
    by (simp add: trim_start_def strip_prefixes.simps)
  have "prefix_len (map rev ws_encodings) (rev s) = 0"
    by (rule prefix_len_0)
      (use assms in \<open>auto simp: ws_encodings_def plain_char_def hd_rev\<close>)
  then have "trim_end s = s"
    by (simp add: trim_end_def strip_prefixes.simps)
  with 1 show ?thesis by (simp add: trim_def)
qed

section \<open>ASCII case\<close>

definition ascii_lower :: "char \<Rightarrow> char" where
  "ascii_lower c =
     (if 65 \<le> (of_char c :: nat) \<and> (of_char c :: nat) \<le> 90
      then char_of ((of_char c :: nat) + 32) else c)"

definition eq_ignore_ascii_case :: "string \<Rightarrow> string \<Rightarrow> bool" where
  "eq_ignore_ascii_case a b \<longleftrightarrow> map ascii_lower a = map ascii_lower b"

lemma eq_ignore_ascii_case_refl [simp]: "eq_ignore_ascii_case a a"
  by (simp add: eq_ignore_ascii_case_def)

lemma eq_ignore_ascii_case_sym: "eq_ignore_ascii_case a b \<longleftrightarrow> eq_ignore_ascii_case b a"
  by (auto simp: eq_ignore_ascii_case_def)

lemma ascii_lower_idem: "ascii_lower (ascii_lower c) = ascii_lower c"
  by (auto simp: ascii_lower_def)

text \<open>
  \<open>str::to_lowercase\<close>: on an ASCII string every letter is folded on its own; the mapping of
  the other strings is the Unicode character database, a parameter \<open>uni\<close>.
\<close>

definition is_ascii :: "string \<Rightarrow> bool" where
  "is_ascii s \<longleftrightarrow> list_all (\<lambda>c. (of_char c :: nat) < 128) s"

definition str_to_lowercase :: "(string \<Rightarrow> string) \<Rightarrow> string \<Rightarrow> string" where
  "str_to_lowercase uni s = (if is_ascii s then map ascii_lower s else uni s)"

lemma str_to_lowercase_ascii:
  "is_ascii a \<Longrightarrow> is_ascii b \<Longrightarrow>
   str_to_lowercase uni a = str_to_lowercase uni b \<longleftrightarrow> eq_ignore_ascii_case a b"
  by (simp add: str_to_lowercase_def eq_ignore_ascii_case_def)

section \<open>Decimal numbers\<close>

fun show_nat :: "nat \<Rightarrow> string" where
  "show_nat n =
     (if n < 10 then [char_of (48 + n)] else show_nat (n div 10) @ [char_of (48 + n mod 10)])"

declare show_nat.simps [simp del]

end
