(* ===== verification/Hid_Usage.thy ===== *)
theory Hid_Usage
  imports Rust_Str
begin

text \<open>
  \<open>src/common/hid_usage.rs\<close> and \<open>src/common/modifier.rs\<close>: the key identities of the
  whole program and the layout of its 8-bit modifier masks.

  The Rust enum \<open>HidUsage\<close> is generated by a macro from one table of 115 lines. Here the
  variants are grouped by the sections of that table (a flat datatype of 115 constructors is
  out of reach of the datatype package); every variant is available under its source name by
  an abbreviation (single-letter keys as \<open>A_key\<close>). The table is \<open>hid_table\<close>, and the
  generated functions (\<open>from_code\<close>, \<open>as_str\<close>, \<open>ALL\<close>, \<open>TryFrom<&str>\<close>,
  the discriminants) are functions of it, as in the macro.
\<close>

section \<open>Modifier roles (modifier.rs)\<close>

datatype modifier_role =
    RoleLeftControl | RoleLeftShift | RoleLeftAlt | RoleLeftCommand
  | RoleRightControl | RoleRightShift | RoleRightAlt | RoleRightCommand

text \<open>The discriminant of a role: its bit position.\<close>

primrec role_bit :: "modifier_role \<Rightarrow> u8" where
  "role_bit RoleLeftControl = 0"
| "role_bit RoleLeftShift = 1"
| "role_bit RoleLeftAlt = 2"
| "role_bit RoleLeftCommand = 3"
| "role_bit RoleRightControl = 4"
| "role_bit RoleRightShift = 5"
| "role_bit RoleRightAlt = 6"
| "role_bit RoleRightCommand = 7"

definition role_mask :: "modifier_role \<Rightarrow> u8" where
  "role_mask r = push_bit (unat (role_bit r)) 1"

definition try_from_bit :: "u8 \<Rightarrow> modifier_role option" where
  "try_from_bit b =
     (if b = 0 then Some RoleLeftControl
      else if b = 1 then Some RoleLeftShift
      else if b = 2 then Some RoleLeftAlt
      else if b = 3 then Some RoleLeftCommand
      else if b = 4 then Some RoleRightControl
      else if b = 5 then Some RoleRightShift
      else if b = 6 then Some RoleRightAlt
      else if b = 7 then Some RoleRightCommand
      else None)"

definition role_hid_id :: "modifier_role \<Rightarrow> u16" where
  "role_hid_id r = 0xE0 + ucast (role_bit r)"

definition from_hid_id :: "u16 \<Rightarrow> modifier_role option" where
  "from_hid_id i = (if 0xE0 \<le> i \<and> i \<le> 0xE7 then try_from_bit (ucast i - 0xE0) else None)"

lemma role_bit_bound [simp]: "unat (role_bit r) < 8"
  by (cases r) simp_all

lemma try_from_bit_role_bit [simp]: "try_from_bit (role_bit r) = Some r"
  by (cases r) (simp_all add: try_from_bit_def)

lemma try_from_bit_SomeD: "try_from_bit b = Some r \<Longrightarrow> role_bit r = b"
  by (auto simp: try_from_bit_def split: if_splits)

lemma role_bit_inject [simp]: "role_bit r = role_bit r' \<longleftrightarrow> r = r'"
  by (metis option.inject try_from_bit_role_bit)

lemma from_hid_id_role [simp]: "from_hid_id (role_hid_id r) = Some r"
  by (cases r) (simp_all add: from_hid_id_def role_hid_id_def try_from_bit_def)

lemma role_of_bit: "b < 8 \<longleftrightarrow> (\<exists>r. role_bit r = b)"
proof
  assume "b < 8"
  then have "unat b < 8" by (simp add: word_less_nat_alt)
  then have "unat b = 0 \<or> unat b = 1 \<or> unat b = 2 \<or> unat b = 3 \<or> unat b = 4 \<or> unat b = 5
      \<or> unat b = 6 \<or> unat b = 7" by arith
  then have "b = 0 \<or> b = 1 \<or> b = 2 \<or> b = 3 \<or> b = 4 \<or> b = 5 \<or> b = 6 \<or> b = 7"
    by (simp add: word_unat_eq_iff)
  then have "try_from_bit b \<noteq> None" by (auto simp: try_from_bit_def)
  then show "\<exists>r. role_bit r = b" by (auto dest: try_from_bit_SomeD)
next
  show "\<exists>r. role_bit r = b \<Longrightarrow> b < 8"
    using role_bit_bound by (auto simp: word_less_nat_alt)
qed

lemma hid_id_range:
  assumes "0xE0 \<le> (i :: u16)" "i \<le> 0xE7"
  shows "\<exists>r. i = role_hid_id r"
proof -
  have "unat i = 224 \<or> unat i = 225 \<or> unat i = 226 \<or> unat i = 227 \<or> unat i = 228 \<or> unat i = 229
      \<or> unat i = 230 \<or> unat i = 231"
    using assms by (simp add: word_le_nat_alt) arith
  then have "i = 0xE0 \<or> i = 0xE1 \<or> i = 0xE2 \<or> i = 0xE3 \<or> i = 0xE4 \<or> i = 0xE5 \<or> i = 0xE6 \<or> i = 0xE7"
    by (simp add: word_unat_eq_iff)
  then have "i \<in> role_hid_id ` {RoleLeftControl, RoleLeftShift, RoleLeftAlt, RoleLeftCommand,
      RoleRightControl, RoleRightShift, RoleRightAlt, RoleRightCommand}"
    by (auto simp: role_hid_id_def)
  then show ?thesis by auto
qed

lemma role_hid_id_range [simp]: "0xE0 \<le> role_hid_id r" "role_hid_id r \<le> 0xE7"
  by (cases r; simp add: role_hid_id_def)+

lemma from_hid_id_iff: "from_hid_id i = Some r \<longleftrightarrow> i = role_hid_id r"
proof
  assume *: "from_hid_id i = Some r"
  then have "0xE0 \<le> i \<and> i \<le> 0xE7" by (simp add: from_hid_id_def split: if_splits)
  then obtain r' where "i = role_hid_id r'" using hid_id_range by blast
  with * show "i = role_hid_id r" by simp
qed simp

lemma from_hid_id_range: "from_hid_id i \<noteq> None \<longleftrightarrow> 0xE0 \<le> i \<and> i \<le> 0xE7"
  by (metis from_hid_id_iff hid_id_range not_None_eq role_hid_id_range)

section \<open>The enum\<close>

datatype modifier_usage =
    U_LeftControl | U_RightControl | U_LeftShift | U_RightShift | U_LeftAlt | U_RightAlt
  | U_LeftCommand | U_RightCommand

datatype caps_usage =
    U_CapsLock

datatype editor_usage =
    U_Tab | U_Space | U_Return | U_Backspace | U_Delete | U_Escape

datatype navigation_usage =
    U_UpArrow | U_DownArrow | U_LeftArrow | U_RightArrow | U_PageUp | U_PageDown
  | U_Home | U_End

datatype cluster_usage =
    U_PrintScreen | U_ScrollLock | U_Pause | U_Insert

datatype menu_usage =
    U_Menu

datatype function_usage =
    U_F1 | U_F2 | U_F3 | U_F4 | U_F5 | U_F6
  | U_F7 | U_F8 | U_F9 | U_F10 | U_F11 | U_F12

datatype letter_usage =
    U_A_key | U_B_key | U_C_key | U_D_key | U_E_key | U_F_key
  | U_G_key | U_H_key | U_I_key | U_J_key | U_K_key | U_L_key
  | U_M_key | U_N_key | U_O_key | U_P_key | U_Q_key | U_R_key
  | U_S_key | U_T_key | U_U_key | U_V_key | U_W_key | U_X_key
  | U_Y_key | U_Z_key

datatype number_usage =
    U_Number1 | U_Number2 | U_Number3 | U_Number4 | U_Number5 | U_Number6
  | U_Number7 | U_Number8 | U_Number9 | U_Number0

datatype numpad_usage =
    U_Numpad0 | U_Numpad1 | U_Numpad2 | U_Numpad3 | U_Numpad4 | U_Numpad5
  | U_Numpad6 | U_Numpad7 | U_Numpad8 | U_Numpad9 | U_NumpadDecimal | U_NumpadMultiply
  | U_NumpadPlus | U_NumpadDivide | U_NumpadEnter | U_NumpadMinus | U_NumLock | U_NumpadEqual

datatype punctuation_usage =
    U_Minus | U_Equal | U_BracketLeft | U_BracketRight | U_Backslash | U_Semicolon
  | U_Quote | U_Grave | U_Comma | U_Slash | U_Period | U_IsoExtra

datatype media_usage =
    U_PlayPause | U_VolumeUp | U_VolumeDown | U_Mute | U_NextTrack | U_PreviousTrack
  | U_Stop

datatype display_usage =
    U_BrightnessUp | U_BrightnessDown

datatype hid_usage =
    ModifierUsage modifier_usage
  | CapsUsage caps_usage
  | EditorUsage editor_usage
  | NavigationUsage navigation_usage
  | ClusterUsage cluster_usage
  | MenuUsage menu_usage
  | FunctionUsage function_usage
  | LetterUsage letter_usage
  | NumberUsage number_usage
  | NumpadUsage numpad_usage
  | PunctuationUsage punctuation_usage
  | MediaUsage media_usage
  | DisplayUsage display_usage

abbreviation LeftControl :: hid_usage where "LeftControl \<equiv> ModifierUsage U_LeftControl"
abbreviation RightControl :: hid_usage where "RightControl \<equiv> ModifierUsage U_RightControl"
abbreviation LeftShift :: hid_usage where "LeftShift \<equiv> ModifierUsage U_LeftShift"
abbreviation RightShift :: hid_usage where "RightShift \<equiv> ModifierUsage U_RightShift"
abbreviation LeftAlt :: hid_usage where "LeftAlt \<equiv> ModifierUsage U_LeftAlt"
abbreviation RightAlt :: hid_usage where "RightAlt \<equiv> ModifierUsage U_RightAlt"
abbreviation LeftCommand :: hid_usage where "LeftCommand \<equiv> ModifierUsage U_LeftCommand"
abbreviation RightCommand :: hid_usage where "RightCommand \<equiv> ModifierUsage U_RightCommand"
abbreviation CapsLock :: hid_usage where "CapsLock \<equiv> CapsUsage U_CapsLock"
abbreviation Tab :: hid_usage where "Tab \<equiv> EditorUsage U_Tab"
abbreviation Space :: hid_usage where "Space \<equiv> EditorUsage U_Space"
abbreviation Return :: hid_usage where "Return \<equiv> EditorUsage U_Return"
abbreviation Backspace :: hid_usage where "Backspace \<equiv> EditorUsage U_Backspace"
abbreviation Delete :: hid_usage where "Delete \<equiv> EditorUsage U_Delete"
abbreviation Escape :: hid_usage where "Escape \<equiv> EditorUsage U_Escape"
abbreviation UpArrow :: hid_usage where "UpArrow \<equiv> NavigationUsage U_UpArrow"
abbreviation DownArrow :: hid_usage where "DownArrow \<equiv> NavigationUsage U_DownArrow"
abbreviation LeftArrow :: hid_usage where "LeftArrow \<equiv> NavigationUsage U_LeftArrow"
abbreviation RightArrow :: hid_usage where "RightArrow \<equiv> NavigationUsage U_RightArrow"
abbreviation PageUp :: hid_usage where "PageUp \<equiv> NavigationUsage U_PageUp"
abbreviation PageDown :: hid_usage where "PageDown \<equiv> NavigationUsage U_PageDown"
abbreviation Home :: hid_usage where "Home \<equiv> NavigationUsage U_Home"
abbreviation End :: hid_usage where "End \<equiv> NavigationUsage U_End"
abbreviation PrintScreen :: hid_usage where "PrintScreen \<equiv> ClusterUsage U_PrintScreen"
abbreviation ScrollLock :: hid_usage where "ScrollLock \<equiv> ClusterUsage U_ScrollLock"
abbreviation Pause :: hid_usage where "Pause \<equiv> ClusterUsage U_Pause"
abbreviation Insert :: hid_usage where "Insert \<equiv> ClusterUsage U_Insert"
abbreviation Menu :: hid_usage where "Menu \<equiv> MenuUsage U_Menu"
abbreviation F1 :: hid_usage where "F1 \<equiv> FunctionUsage U_F1"
abbreviation F2 :: hid_usage where "F2 \<equiv> FunctionUsage U_F2"
abbreviation F3 :: hid_usage where "F3 \<equiv> FunctionUsage U_F3"
abbreviation F4 :: hid_usage where "F4 \<equiv> FunctionUsage U_F4"
abbreviation F5 :: hid_usage where "F5 \<equiv> FunctionUsage U_F5"
abbreviation F6 :: hid_usage where "F6 \<equiv> FunctionUsage U_F6"
abbreviation F7 :: hid_usage where "F7 \<equiv> FunctionUsage U_F7"
abbreviation F8 :: hid_usage where "F8 \<equiv> FunctionUsage U_F8"
abbreviation F9 :: hid_usage where "F9 \<equiv> FunctionUsage U_F9"
abbreviation F10 :: hid_usage where "F10 \<equiv> FunctionUsage U_F10"
abbreviation F11 :: hid_usage where "F11 \<equiv> FunctionUsage U_F11"
abbreviation F12 :: hid_usage where "F12 \<equiv> FunctionUsage U_F12"
abbreviation A_key :: hid_usage where "A_key \<equiv> LetterUsage U_A_key"
abbreviation B_key :: hid_usage where "B_key \<equiv> LetterUsage U_B_key"
abbreviation C_key :: hid_usage where "C_key \<equiv> LetterUsage U_C_key"
abbreviation D_key :: hid_usage where "D_key \<equiv> LetterUsage U_D_key"
abbreviation E_key :: hid_usage where "E_key \<equiv> LetterUsage U_E_key"
abbreviation F_key :: hid_usage where "F_key \<equiv> LetterUsage U_F_key"
abbreviation G_key :: hid_usage where "G_key \<equiv> LetterUsage U_G_key"
abbreviation H_key :: hid_usage where "H_key \<equiv> LetterUsage U_H_key"
abbreviation I_key :: hid_usage where "I_key \<equiv> LetterUsage U_I_key"
abbreviation J_key :: hid_usage where "J_key \<equiv> LetterUsage U_J_key"
abbreviation K_key :: hid_usage where "K_key \<equiv> LetterUsage U_K_key"
abbreviation L_key :: hid_usage where "L_key \<equiv> LetterUsage U_L_key"
abbreviation M_key :: hid_usage where "M_key \<equiv> LetterUsage U_M_key"
abbreviation N_key :: hid_usage where "N_key \<equiv> LetterUsage U_N_key"
abbreviation O_key :: hid_usage where "O_key \<equiv> LetterUsage U_O_key"
abbreviation P_key :: hid_usage where "P_key \<equiv> LetterUsage U_P_key"
abbreviation Q_key :: hid_usage where "Q_key \<equiv> LetterUsage U_Q_key"
abbreviation R_key :: hid_usage where "R_key \<equiv> LetterUsage U_R_key"
abbreviation S_key :: hid_usage where "S_key \<equiv> LetterUsage U_S_key"
abbreviation T_key :: hid_usage where "T_key \<equiv> LetterUsage U_T_key"
abbreviation U_key :: hid_usage where "U_key \<equiv> LetterUsage U_U_key"
abbreviation V_key :: hid_usage where "V_key \<equiv> LetterUsage U_V_key"
abbreviation W_key :: hid_usage where "W_key \<equiv> LetterUsage U_W_key"
abbreviation X_key :: hid_usage where "X_key \<equiv> LetterUsage U_X_key"
abbreviation Y_key :: hid_usage where "Y_key \<equiv> LetterUsage U_Y_key"
abbreviation Z_key :: hid_usage where "Z_key \<equiv> LetterUsage U_Z_key"
abbreviation Number1 :: hid_usage where "Number1 \<equiv> NumberUsage U_Number1"
abbreviation Number2 :: hid_usage where "Number2 \<equiv> NumberUsage U_Number2"
abbreviation Number3 :: hid_usage where "Number3 \<equiv> NumberUsage U_Number3"
abbreviation Number4 :: hid_usage where "Number4 \<equiv> NumberUsage U_Number4"
abbreviation Number5 :: hid_usage where "Number5 \<equiv> NumberUsage U_Number5"
abbreviation Number6 :: hid_usage where "Number6 \<equiv> NumberUsage U_Number6"
abbreviation Number7 :: hid_usage where "Number7 \<equiv> NumberUsage U_Number7"
abbreviation Number8 :: hid_usage where "Number8 \<equiv> NumberUsage U_Number8"
abbreviation Number9 :: hid_usage where "Number9 \<equiv> NumberUsage U_Number9"
abbreviation Number0 :: hid_usage where "Number0 \<equiv> NumberUsage U_Number0"
abbreviation Numpad0 :: hid_usage where "Numpad0 \<equiv> NumpadUsage U_Numpad0"
abbreviation Numpad1 :: hid_usage where "Numpad1 \<equiv> NumpadUsage U_Numpad1"
abbreviation Numpad2 :: hid_usage where "Numpad2 \<equiv> NumpadUsage U_Numpad2"
abbreviation Numpad3 :: hid_usage where "Numpad3 \<equiv> NumpadUsage U_Numpad3"
abbreviation Numpad4 :: hid_usage where "Numpad4 \<equiv> NumpadUsage U_Numpad4"
abbreviation Numpad5 :: hid_usage where "Numpad5 \<equiv> NumpadUsage U_Numpad5"
abbreviation Numpad6 :: hid_usage where "Numpad6 \<equiv> NumpadUsage U_Numpad6"
abbreviation Numpad7 :: hid_usage where "Numpad7 \<equiv> NumpadUsage U_Numpad7"
abbreviation Numpad8 :: hid_usage where "Numpad8 \<equiv> NumpadUsage U_Numpad8"
abbreviation Numpad9 :: hid_usage where "Numpad9 \<equiv> NumpadUsage U_Numpad9"
abbreviation NumpadDecimal :: hid_usage where "NumpadDecimal \<equiv> NumpadUsage U_NumpadDecimal"
abbreviation NumpadMultiply :: hid_usage where "NumpadMultiply \<equiv> NumpadUsage U_NumpadMultiply"
abbreviation NumpadPlus :: hid_usage where "NumpadPlus \<equiv> NumpadUsage U_NumpadPlus"
abbreviation NumpadDivide :: hid_usage where "NumpadDivide \<equiv> NumpadUsage U_NumpadDivide"
abbreviation NumpadEnter :: hid_usage where "NumpadEnter \<equiv> NumpadUsage U_NumpadEnter"
abbreviation NumpadMinus :: hid_usage where "NumpadMinus \<equiv> NumpadUsage U_NumpadMinus"
abbreviation NumLock :: hid_usage where "NumLock \<equiv> NumpadUsage U_NumLock"
abbreviation NumpadEqual :: hid_usage where "NumpadEqual \<equiv> NumpadUsage U_NumpadEqual"
abbreviation Minus :: hid_usage where "Minus \<equiv> PunctuationUsage U_Minus"
abbreviation Equal :: hid_usage where "Equal \<equiv> PunctuationUsage U_Equal"
abbreviation BracketLeft :: hid_usage where "BracketLeft \<equiv> PunctuationUsage U_BracketLeft"
abbreviation BracketRight :: hid_usage where "BracketRight \<equiv> PunctuationUsage U_BracketRight"
abbreviation Backslash :: hid_usage where "Backslash \<equiv> PunctuationUsage U_Backslash"
abbreviation Semicolon :: hid_usage where "Semicolon \<equiv> PunctuationUsage U_Semicolon"
abbreviation Quote :: hid_usage where "Quote \<equiv> PunctuationUsage U_Quote"
abbreviation Grave :: hid_usage where "Grave \<equiv> PunctuationUsage U_Grave"
abbreviation Comma :: hid_usage where "Comma \<equiv> PunctuationUsage U_Comma"
abbreviation Slash :: hid_usage where "Slash \<equiv> PunctuationUsage U_Slash"
abbreviation Period :: hid_usage where "Period \<equiv> PunctuationUsage U_Period"
abbreviation IsoExtra :: hid_usage where "IsoExtra \<equiv> PunctuationUsage U_IsoExtra"
abbreviation PlayPause :: hid_usage where "PlayPause \<equiv> MediaUsage U_PlayPause"
abbreviation VolumeUp :: hid_usage where "VolumeUp \<equiv> MediaUsage U_VolumeUp"
abbreviation VolumeDown :: hid_usage where "VolumeDown \<equiv> MediaUsage U_VolumeDown"
abbreviation Mute :: hid_usage where "Mute \<equiv> MediaUsage U_Mute"
abbreviation NextTrack :: hid_usage where "NextTrack \<equiv> MediaUsage U_NextTrack"
abbreviation PreviousTrack :: hid_usage where "PreviousTrack \<equiv> MediaUsage U_PreviousTrack"
abbreviation Stop :: hid_usage where "Stop \<equiv> MediaUsage U_Stop"
abbreviation BrightnessUp :: hid_usage where "BrightnessUp \<equiv> DisplayUsage U_BrightnessUp"
abbreviation BrightnessDown :: hid_usage where "BrightnessDown \<equiv> DisplayUsage U_BrightnessDown"

definition hid_table :: "(hid_usage \<times> u32 \<times> string \<times> string list) list" where
  "hid_table =
    [(LeftControl, 0x0700E0, ''LeftControl'', [''Ctrl'', ''LeftCtrl'']),
     (RightControl, 0x0700E4, ''RightControl'', [''RightCtrl'']),
     (LeftShift, 0x0700E1, ''LeftShift'', [''Shift'']),
     (RightShift, 0x0700E5, ''RightShift'', []),
     (LeftAlt, 0x0700E2, ''LeftAlt'', [''Alt'', ''Option'', ''LeftOption'']),
     (RightAlt, 0x0700E6, ''RightAlt'', [''RightOption'']),
     (LeftCommand, 0x0700E3, ''LeftCommand'', [''Command'', ''Cmd'', ''Super'', ''LeftCmd'']),
     (RightCommand, 0x0700E7, ''RightCommand'', [''RightCmd'']),
     (CapsLock, 0x070039, ''CapsLock'', [''Caps'']),
     (Tab, 0x07002B, ''Tab'', []),
     (Space, 0x07002C, ''Space'', []),
     (Return, 0x070028, ''Return'', [''Enter'']),
     (Backspace, 0x07002A, ''Backspace'', []),
     (Delete, 0x07004C, ''Delete'', []),
     (Escape, 0x070029, ''Escape'', [''Esc'']),
     (UpArrow, 0x070052, ''UpArrow'', [''Up'']),
     (DownArrow, 0x070051, ''DownArrow'', [''Down'']),
     (LeftArrow, 0x070050, ''LeftArrow'', [''Left'']),
     (RightArrow, 0x07004F, ''RightArrow'', [''Right'']),
     (PageUp, 0x07004B, ''PageUp'', [''PgUp'']),
     (PageDown, 0x07004E, ''PageDown'', [''PgDn'']),
     (Home, 0x07004A, ''Home'', []),
     (End, 0x07004D, ''End'', []),
     (PrintScreen, 0x070046, ''PrintScreen'', [''PrtSc'', ''SysRq'']),
     (ScrollLock, 0x070047, ''ScrollLock'', [''Scroll'']),
     (Pause, 0x070048, ''Pause'', [''Break'']),
     (Insert, 0x070049, ''Insert'', [''Ins'']),
     (Menu, 0x070065, ''Menu'', [''ContextMenu'', ''Application'']),
     (F1, 0x07003A, ''F1'', []),
     (F2, 0x07003B, ''F2'', []),
     (F3, 0x07003C, ''F3'', []),
     (F4, 0x07003D, ''F4'', []),
     (F5, 0x07003E, ''F5'', []),
     (F6, 0x07003F, ''F6'', []),
     (F7, 0x070040, ''F7'', []),
     (F8, 0x070041, ''F8'', []),
     (F9, 0x070042, ''F9'', []),
     (F10, 0x070043, ''F10'', []),
     (F11, 0x070044, ''F11'', []),
     (F12, 0x070045, ''F12'', []),
     (A_key, 0x070004, ''A'', []),
     (B_key, 0x070005, ''B'', []),
     (C_key, 0x070006, ''C'', []),
     (D_key, 0x070007, ''D'', []),
     (E_key, 0x070008, ''E'', []),
     (F_key, 0x070009, ''F'', []),
     (G_key, 0x07000A, ''G'', []),
     (H_key, 0x07000B, ''H'', []),
     (I_key, 0x07000C, ''I'', []),
     (J_key, 0x07000D, ''J'', []),
     (K_key, 0x07000E, ''K'', []),
     (L_key, 0x07000F, ''L'', []),
     (M_key, 0x070010, ''M'', []),
     (N_key, 0x070011, ''N'', []),
     (O_key, 0x070012, ''O'', []),
     (P_key, 0x070013, ''P'', []),
     (Q_key, 0x070014, ''Q'', []),
     (R_key, 0x070015, ''R'', []),
     (S_key, 0x070016, ''S'', []),
     (T_key, 0x070017, ''T'', []),
     (U_key, 0x070018, ''U'', []),
     (V_key, 0x070019, ''V'', []),
     (W_key, 0x07001A, ''W'', []),
     (X_key, 0x07001B, ''X'', []),
     (Y_key, 0x07001C, ''Y'', []),
     (Z_key, 0x07001D, ''Z'', []),
     (Number1, 0x07001E, ''1'', [''Number1'']),
     (Number2, 0x07001F, ''2'', [''Number2'']),
     (Number3, 0x070020, ''3'', [''Number3'']),
     (Number4, 0x070021, ''4'', [''Number4'']),
     (Number5, 0x070022, ''5'', [''Number5'']),
     (Number6, 0x070023, ''6'', [''Number6'']),
     (Number7, 0x070024, ''7'', [''Number7'']),
     (Number8, 0x070025, ''8'', [''Number8'']),
     (Number9, 0x070026, ''9'', [''Number9'']),
     (Number0, 0x070027, ''0'', [''Number0'']),
     (Numpad0, 0x070062, ''Numpad0'', []),
     (Numpad1, 0x070059, ''Numpad1'', []),
     (Numpad2, 0x07005A, ''Numpad2'', []),
     (Numpad3, 0x07005B, ''Numpad3'', []),
     (Numpad4, 0x07005C, ''Numpad4'', []),
     (Numpad5, 0x07005D, ''Numpad5'', []),
     (Numpad6, 0x07005E, ''Numpad6'', []),
     (Numpad7, 0x07005F, ''Numpad7'', []),
     (Numpad8, 0x070060, ''Numpad8'', []),
     (Numpad9, 0x070061, ''Numpad9'', []),
     (NumpadDecimal, 0x070063, ''NumpadDecimal'', []),
     (NumpadMultiply, 0x070055, ''NumpadMultiply'', [''KP_Multiply'']),
     (NumpadPlus, 0x070057, ''NumpadPlus'', [''KP_Add'']),
     (NumpadDivide, 0x070054, ''NumpadDivide'', [''KP_Divide'']),
     (NumpadEnter, 0x070058, ''NumpadEnter'', [''KP_Enter'']),
     (NumpadMinus, 0x070056, ''NumpadMinus'', [''KP_Subtract'']),
     (NumLock, 0x070053, ''NumLock'', [''NumpadClear'']),
     (NumpadEqual, 0x070067, ''NumpadEqual'', []),
     (Minus, 0x07002D, ''Minus'', []),
     (Equal, 0x07002E, ''Equal'', []),
     (BracketLeft, 0x07002F, ''BracketLeft'', []),
     (BracketRight, 0x070030, ''BracketRight'', []),
     (Backslash, 0x070031, ''Backslash'', []),
     (Semicolon, 0x070033, ''Semicolon'', []),
     (Quote, 0x070034, ''Quote'', []),
     (Grave, 0x070035, ''Grave'', []),
     (Comma, 0x070036, ''Comma'', []),
     (Slash, 0x070038, ''Slash'', []),
     (Period, 0x070037, ''Period'', []),
     (IsoExtra, 0x070064, ''IsoExtra'', [''NonUSBackslash'']),
     (PlayPause, 0x0C00CD, ''PlayPause'', [''Play'']),
     (VolumeUp, 0x0C00E9, ''VolumeUp'', [''VolUp'']),
     (VolumeDown, 0x0C00EA, ''VolumeDown'', [''VolDown'']),
     (Mute, 0x0C00E2, ''Mute'', [''VolMute'']),
     (NextTrack, 0x0C00B5, ''NextTrack'', [''ScanNext'']),
     (PreviousTrack, 0x0C00B6, ''PreviousTrack'', [''ScanPrev'']),
     (Stop, 0x0C00B7, ''Stop'', [''MediaStop'']),
     (BrightnessUp, 0x0C006F, ''BrightnessUp'', []),
     (BrightnessDown, 0x0C0070, ''BrightnessDown'', [])]"

section \<open>The functions generated from the table\<close>

definition hid_all :: "hid_usage list" where
  "hid_all = map fst hid_table"

definition hid_code :: "hid_usage \<Rightarrow> u32" where
  "hid_code u = fst (the (map_of hid_table u))"

definition as_str :: "hid_usage \<Rightarrow> string" where
  "as_str u = fst (snd (the (map_of hid_table u)))"

definition from_code :: "u32 \<Rightarrow> hid_usage option" where
  "from_code c = find_map (\<lambda>(u, c', _). if c = c' then Some u else None) hid_table"

text \<open>The parse error carries the offending token; its message is formatted from it.\<close>

datatype hid_usage_parse_error = HidUsageParseError string

definition try_from_str :: "string \<Rightarrow> hid_usage_parse_error + hid_usage" where
  "try_from_str s =
     (case find_map (\<lambda>(u, _, name, aliases). if s = name \<or> s \<in> set aliases then Some u else None)
        hid_table
      of Some u \<Rightarrow> Inr u | None \<Rightarrow> Inl (HidUsageParseError s))"

section \<open>Page, id and modifier bit\<close>

definition PAGE_KEYBOARD :: u16 where "PAGE_KEYBOARD = 0x07"

definition PAGE_CONSUMER :: u16 where "PAGE_CONSUMER = 0x0C"

definition hid_page :: "hid_usage \<Rightarrow> u16" where
  "hid_page u = ucast (drop_bit 16 (hid_code u))"

definition hid_id :: "hid_usage \<Rightarrow> u16" where
  "hid_id u = ucast (hid_code u AND 0xFFFF)"

definition hid_keyboard :: "u16 \<Rightarrow> hid_usage option" where
  "hid_keyboard i = from_code (push_bit 16 (ucast PAGE_KEYBOARD) OR ucast i)"

definition hid_consumer :: "u16 \<Rightarrow> hid_usage option" where
  "hid_consumer i = from_code (push_bit 16 (ucast PAGE_CONSUMER) OR ucast i)"

definition hid_usage_to_modifier_bit :: "hid_usage \<Rightarrow> u8 option" where
  "hid_usage_to_modifier_bit u =
     (if hid_page u \<noteq> PAGE_KEYBOARD then None
      else map_option role_bit (from_hid_id (hid_id u)))"

section \<open>The table is complete and unambiguous\<close>

lemma hid_all_eq:
  "hid_all =
    [LeftControl, RightControl, LeftShift, RightShift, LeftAlt, RightAlt, LeftCommand,
     RightCommand, CapsLock, Tab, Space, Return, Backspace, Delete,
     Escape, UpArrow, DownArrow, LeftArrow, RightArrow, PageUp, PageDown,
     Home, End, PrintScreen, ScrollLock, Pause, Insert, Menu,
     F1, F2, F3, F4, F5, F6, F7,
     F8, F9, F10, F11, F12, A_key, B_key,
     C_key, D_key, E_key, F_key, G_key, H_key, I_key,
     J_key, K_key, L_key, M_key, N_key, O_key, P_key,
     Q_key, R_key, S_key, T_key, U_key, V_key, W_key,
     X_key, Y_key, Z_key, Number1, Number2, Number3, Number4,
     Number5, Number6, Number7, Number8, Number9, Number0, Numpad0,
     Numpad1, Numpad2, Numpad3, Numpad4, Numpad5, Numpad6, Numpad7,
     Numpad8, Numpad9, NumpadDecimal, NumpadMultiply, NumpadPlus, NumpadDivide, NumpadEnter,
     NumpadMinus, NumLock, NumpadEqual, Minus, Equal, BracketLeft, BracketRight,
     Backslash, Semicolon, Quote, Grave, Comma, Slash, Period,
     IsoExtra, PlayPause, VolumeUp, VolumeDown, Mute, NextTrack, PreviousTrack,
     Stop, BrightnessUp, BrightnessDown]"
  by (simp add: hid_all_def hid_table_def)

lemma hid_all_complete [simp]: "u \<in> set hid_all"
  unfolding hid_all_eq by (cases u; rename_tac x; case_tac x; simp)

text \<open>Distinct discriminants, compared as natural numbers.\<close>

lemma hid_codes_eq:
  "map (\<lambda>(_, c, _). unat c) hid_table =
    [458976, 458980, 458977, 458981, 458978, 458982, 458979, 458983, 458809, 458795, 458796, 458792,
     458794, 458828, 458793, 458834, 458833, 458832, 458831, 458827, 458830, 458826, 458829, 458822,
     458823, 458824, 458825, 458853, 458810, 458811, 458812, 458813, 458814, 458815, 458816, 458817,
     458818, 458819, 458820, 458821, 458756, 458757, 458758, 458759, 458760, 458761, 458762, 458763,
     458764, 458765, 458766, 458767, 458768, 458769, 458770, 458771, 458772, 458773, 458774, 458775,
     458776, 458777, 458778, 458779, 458780, 458781, 458782, 458783, 458784, 458785, 458786, 458787,
     458788, 458789, 458790, 458791, 458850, 458841, 458842, 458843, 458844, 458845, 458846, 458847,
     458848, 458849, 458851, 458837, 458839, 458836, 458840, 458838, 458835, 458855, 458797, 458798,
     458799, 458800, 458801, 458803, 458804, 458805, 458806, 458808, 458807, 458852, 786637, 786665,
     786666, 786658, 786613, 786614, 786615, 786543, 786544]"
  by (simp add: hid_table_def)

lemma distinct_hid_codes: "distinct (map (\<lambda>(_, c, _). c) hid_table)"
proof -
  have "distinct (map (\<lambda>(_, c, _). unat c) hid_table)"
    unfolding hid_codes_eq by simp
  moreover have "map (\<lambda>(_, c, _). unat c) hid_table = map unat (map (\<lambda>(_, c, _). c) hid_table)"
    by auto
  ultimately show ?thesis by (simp only: distinct_map)
qed

text \<open>The rows are distinct in their keys because they are distinct in their codes.\<close>

lemma distinct_hid_all: "distinct hid_all"
  unfolding hid_all_eq by simp

lemma hid_usage_cases_all: "list_all P hid_all \<Longrightarrow> P u"
  by (metis hid_all_complete in_set_conv_nth list_all_length)

text \<open>No name or alias belongs to two rows.\<close>

definition row_names :: "hid_usage \<times> u32 \<times> string \<times> string list \<Rightarrow> string list" where
  "row_names r = fst (snd (snd r)) # snd (snd (snd r))"

lemma distinct_hid_names: "distinct (concat (map row_names hid_table))"
  by (simp add: hid_table_def row_names_def)

section \<open>Round trips\<close>

lemma find_map_key:
  assumes "distinct (map f xs)" "x \<in> set xs"
  shows "find_map (\<lambda>y. if f x = f y then Some (g y) else None) xs = Some (g x)"
  using assms
proof (induction xs)
  case (Cons a xs)
  show ?case
  proof (cases "x = a")
    case False
    with Cons.prems have "f x \<noteq> f a" by (metis distinct.simps(2) image_eqI list.simps(9) set_ConsD set_map)
    with Cons False show ?thesis by auto
  qed simp
qed simp

lemma hid_row:
  "\<exists>c n as. (u, c, n, as) \<in> set hid_table \<and> hid_code u = c \<and> as_str u = n"
proof -
  have "u \<in> fst ` set hid_table"
    using hid_all_complete [of u] unfolding hid_all_def by simp
  then obtain c n as where row: "(u, c, n, as) \<in> set hid_table" by force
  then have "map_of hid_table u = Some (c, n, as)"
    using distinct_hid_all by (simp add: hid_all_def)
  with row show ?thesis by (auto simp: hid_code_def as_str_def)
qed

lemma hid_row_unique:
  "(u, c, n, as) \<in> set hid_table \<Longrightarrow> hid_code u = c \<and> as_str u = n"
  using distinct_hid_all by (simp add: hid_code_def as_str_def hid_all_def)

lemma from_code_hid_code [simp]: "from_code (hid_code u) = Some u"
proof -
  obtain c n as where row: "(u, c, n, as) \<in> set hid_table" and c: "hid_code u = c"
    using hid_row by blast
  have "from_code c =
      find_map (\<lambda>y. if (\<lambda>(_, c, _). c) (u, c, n, as) = (\<lambda>(_, c, _). c) y then Some (fst y) else None) hid_table"
    by (simp add: from_code_def case_prod_beta')
  also have "\<dots> = Some (fst (u, c, n, as))"
    by (rule find_map_key [OF distinct_hid_codes row])
  finally show ?thesis using c by simp
qed

lemma from_code_SomeD: "from_code c = Some u \<Longrightarrow> hid_code u = c"
  unfolding from_code_def
  by (drule find_map_SomeD) (auto split: if_splits dest: hid_row_unique)

lemma hid_code_inject [simp]: "hid_code u = hid_code v \<longleftrightarrow> u = v"
  by (metis from_code_hid_code option.inject)

text \<open>Names and aliases: a row is found by any of its names.\<close>

lemma distinct_concat_find:
  assumes "distinct (concat (map ns xs))" "x \<in> set xs" "s \<in> set (ns x)"
  shows "find_map (\<lambda>y. if s \<in> set (ns y) then Some (g y) else None) xs = Some (g x)"
  using assms
proof (induction xs)
  case (Cons a xs)
  show ?case
  proof (cases "x = a")
    case False
    with Cons.prems have "s \<notin> set (ns a)" by auto
    with Cons False show ?thesis by auto
  qed (use Cons.prems in simp)
qed simp

lemma try_from_str_alt:
  "try_from_str s =
     (case find_map (\<lambda>r. if s \<in> set (row_names r) then Some (fst r) else None) hid_table
      of Some u \<Rightarrow> Inr u | None \<Rightarrow> Inl (HidUsageParseError s))"
proof -
  have "(\<lambda>(u :: hid_usage, _ :: u32, name, aliases). if s = name \<or> s \<in> set aliases then Some u else None)
      = (\<lambda>r. if s \<in> set (row_names r) then Some (fst r) else None)"
    by (auto simp: row_names_def fun_eq_iff)
  then show ?thesis by (simp only: try_from_str_def)
qed

lemma try_from_str_row:
  assumes "(u, c, n, as) \<in> set hid_table" "s = n \<or> s \<in> set as"
  shows "try_from_str s = Inr u"
proof -
  from assms(2) have s: "s \<in> set (row_names (u, c, n, as))" by (simp add: row_names_def)
  show ?thesis
    using distinct_concat_find [OF distinct_hid_names assms(1) s, of fst]
    by (simp add: try_from_str_alt)
qed

lemma try_from_str_as_str [simp]: "try_from_str (as_str u) = Inr u"
  using hid_row [of u] try_from_str_row by blast

lemma try_from_str_InrD:
  "try_from_str s = Inr u \<Longrightarrow> \<exists>c n as. (u, c, n, as) \<in> set hid_table \<and> (s = n \<or> s \<in> set as)"
  unfolding try_from_str_alt
  by (auto simp: row_names_def split: option.splits if_splits dest!: find_map_SomeD) blast+

lemma as_str_inject [simp]: "as_str u = as_str v \<longleftrightarrow> u = v"
  by (metis sum.inject(2) try_from_str_as_str)

text \<open>Canonical names are non-empty and plain: \<open>trim\<close> and \<open>split\<close> leave them alone.\<close>

definition plain_name :: "string \<Rightarrow> bool" where
  "plain_name s \<longleftrightarrow> s \<noteq> [] \<and> list_all plain_char s \<and> CHR ''+'' \<notin> set s"

lemma plain_names: "list_all (\<lambda>(_, _, n, _). plain_name n) hid_table"
  by (simp add: hid_table_def plain_name_def plain_char_def)

lemma plain_name_as_str [simp]: "plain_name (as_str u)"
  using hid_row [of u] plain_names by (fastforce simp: list_all_iff)

lemma trim_plain_name [simp]: "plain_name s \<Longrightarrow> trim s = s"
  by (rule trim_plain) (auto simp: plain_name_def list_all_iff)

section \<open>The modifier bit of a usage\<close>

text \<open>The eight modifier keys and their roles.\<close>

primrec mod_role :: "modifier_usage \<Rightarrow> modifier_role" where
  "mod_role U_LeftControl = RoleLeftControl"
| "mod_role U_RightControl = RoleRightControl"
| "mod_role U_LeftShift = RoleLeftShift"
| "mod_role U_RightShift = RoleRightShift"
| "mod_role U_LeftAlt = RoleLeftAlt"
| "mod_role U_RightAlt = RoleRightAlt"
| "mod_role U_LeftCommand = RoleLeftCommand"
| "mod_role U_RightCommand = RoleRightCommand"

definition usage_role :: "hid_usage \<Rightarrow> modifier_role option" where
  "usage_role u = (case u of ModifierUsage m \<Rightarrow> Some (mod_role m) | _ \<Rightarrow> None)"

lemma modifier_rows:
  "list_all (\<lambda>(u, c, _).
     (if ucast (drop_bit 16 c) \<noteq> PAGE_KEYBOARD then None
      else map_option role_bit (from_hid_id (ucast (c AND 0xFFFF))))
     = map_option role_bit (usage_role u)) hid_table"
  by (simp add: hid_table_def PAGE_KEYBOARD_def from_hid_id_def try_from_bit_def usage_role_def)

lemma modifier_bit_role:
  "hid_usage_to_modifier_bit u = map_option role_bit (usage_role u)"
proof -
  obtain c n as where "(u, c, n, as) \<in> set hid_table" "hid_code u = c"
    using hid_row by blast
  then show ?thesis
    using modifier_rows
    by (fastforce simp: list_all_iff hid_usage_to_modifier_bit_def hid_page_def hid_id_def)
qed

lemma modifier_bit_simps [simp]:
  "hid_usage_to_modifier_bit (ModifierUsage m) = Some (role_bit (mod_role m))"
  "hid_usage_to_modifier_bit (CapsUsage k1) = None"
  "hid_usage_to_modifier_bit (EditorUsage k2) = None"
  "hid_usage_to_modifier_bit (NavigationUsage k3) = None"
  "hid_usage_to_modifier_bit (ClusterUsage k4) = None"
  "hid_usage_to_modifier_bit (MenuUsage k5) = None"
  "hid_usage_to_modifier_bit (FunctionUsage k6) = None"
  "hid_usage_to_modifier_bit (LetterUsage k7) = None"
  "hid_usage_to_modifier_bit (NumberUsage k8) = None"
  "hid_usage_to_modifier_bit (NumpadUsage k9) = None"
  "hid_usage_to_modifier_bit (PunctuationUsage k10) = None"
  "hid_usage_to_modifier_bit (MediaUsage k11) = None"
  "hid_usage_to_modifier_bit (DisplayUsage k12) = None"
  by (simp_all add: modifier_bit_role usage_role_def)

lemma modifier_bit_bound: "hid_usage_to_modifier_bit u = Some b \<Longrightarrow> unat b < 8"
  by (auto simp: modifier_bit_role)

lemma mod_role_inject: "mod_role m = mod_role m' \<Longrightarrow> m = m'"
  by (cases m; cases m'; simp)

lemma usage_role_inject: "usage_role u = Some r \<Longrightarrow> usage_role v = Some r \<Longrightarrow> u = v"
  by (auto simp: usage_role_def split: hid_usage.splits dest: mod_role_inject)

lemma modifier_bit_inject:
  "hid_usage_to_modifier_bit u = Some b \<Longrightarrow> hid_usage_to_modifier_bit v = Some b \<Longrightarrow> u = v"
  by (auto simp: modifier_bit_role dest: usage_role_inject)

text \<open>The mask of a key: its own modifier bit, or nothing.\<close>

definition usage_mask :: "hid_usage \<Rightarrow> u8" where
  "usage_mask u = (case hid_usage_to_modifier_bit u of Some b \<Rightarrow> bit_mask b | None \<Rightarrow> 0)"

section \<open>The derived order: by discriminant\<close>

definition hid_usage_le :: "hid_usage \<Rightarrow> hid_usage \<Rightarrow> bool" where
  "hid_usage_le u v \<longleftrightarrow> hid_code u \<le> hid_code v"

definition hid_usage_lt :: "hid_usage \<Rightarrow> hid_usage \<Rightarrow> bool" where
  "hid_usage_lt u v \<longleftrightarrow> hid_code u < hid_code v"

instantiation hid_usage :: linorder
begin

definition less_eq_hid_usage :: "hid_usage \<Rightarrow> hid_usage \<Rightarrow> bool" where
  "less_eq_hid_usage = hid_usage_le"

definition less_hid_usage :: "hid_usage \<Rightarrow> hid_usage \<Rightarrow> bool" where
  "less_hid_usage = hid_usage_lt"

instance
  by standard (auto simp: less_eq_hid_usage_def less_hid_usage_def hid_usage_le_def
      hid_usage_lt_def order_less_le)

end

section \<open>Properties\<close>

text \<open>
  The combined HID code identifies a key: \<open>from_code\<close> is the exact inverse of
  \<open>code\<close> (a code is accepted precisely when it is the discriminant of the returned key), and
  the page and the id of a key put back together by \<open>keyboard\<close> or \<open>consumer\<close> give the
  key again.
\<close>
theorem hid_code_round_trip:
  "(from_code c = Some u) = (hid_code u = c)
   \<and> (if hid_page u = PAGE_KEYBOARD then hid_keyboard (hid_id u) = Some u
      else hid_page u = PAGE_CONSUMER \<and> hid_consumer (hid_id u) = Some u)"
proof
  show "(from_code c = Some u) = (hid_code u = c)"
    using from_code_SomeD by auto
  obtain c' n as where row: "(u, c', n, as) \<in> set hid_table" and c': "hid_code u = c'"
    using hid_row by blast
  have "list_all (\<lambda>(u, c, _).
      let p = (ucast (drop_bit 16 c) :: u16); i = (ucast (c AND 0xFFFF) :: u16)
      in (p = PAGE_KEYBOARD \<or> p = PAGE_CONSUMER) \<and> push_bit 16 (ucast p) OR ucast i = c) hid_table"
    by (simp add: hid_table_def PAGE_KEYBOARD_def PAGE_CONSUMER_def)
  with row c' have "hid_page u = PAGE_KEYBOARD \<or> hid_page u = PAGE_CONSUMER"
    and "push_bit 16 (ucast (hid_page u)) OR ucast (hid_id u) = hid_code u"
    by (fastforce simp: list_all_iff hid_page_def hid_id_def Let_def)+
  then show "if hid_page u = PAGE_KEYBOARD then hid_keyboard (hid_id u) = Some u
      else hid_page u = PAGE_CONSUMER \<and> hid_consumer (hid_id u) = Some u"
    by (auto simp: hid_keyboard_def hid_consumer_def)
qed

text \<open>
  The key-name parser: a string is accepted precisely when it is the canonical name or an
  alias of a row of the table, the accepted key is the one of that row, every key's canonical
  name is accepted as that key, and the only error is the unknown-key error carrying the
  offending token.
\<close>
theorem key_name_parser:
  "(try_from_str s = Inr u)
     = (\<exists>c n as. (u, c, n, as) \<in> set hid_table \<and> (s = n \<or> s \<in> set as))
   \<and> try_from_str (as_str u) = Inr u
   \<and> ((\<forall>v. try_from_str s \<noteq> Inr v) = (try_from_str s = Inl (HidUsageParseError s)))"
proof (intro conjI)
  show "(try_from_str s = Inr u) = (\<exists>c n as. (u, c, n, as) \<in> set hid_table \<and> (s = n \<or> s \<in> set as))"
    by (meson try_from_str_InrD try_from_str_row)
  show "(\<forall>v. try_from_str s \<noteq> Inr v) = (try_from_str s = Inl (HidUsageParseError s))"
    by (auto simp: try_from_str_alt split: option.splits)
qed simp

text \<open>
  The modifier layout: a key has a modifier bit precisely when it is a keyboard-page key with
  a usage id from 0xE0 to 0xE7; the bit is that id minus 0xE0, so it is below 8, and no two keys
  share a bit.
\<close>
theorem modifier_bit_layout:
  "(hid_usage_to_modifier_bit u = Some b)
     = (hid_page u = PAGE_KEYBOARD \<and> b < 8 \<and> hid_id u = 0xE0 + ucast b)
   \<and> (hid_usage_to_modifier_bit u \<noteq> None)
     = (hid_page u = PAGE_KEYBOARD \<and> 0xE0 \<le> hid_id u \<and> hid_id u \<le> 0xE7)
   \<and> \<not> (hid_usage_to_modifier_bit u = Some b \<and> hid_usage_to_modifier_bit v = Some b \<and> u \<noteq> v)"
proof (intro conjI)
  show "(hid_usage_to_modifier_bit u = Some b)
     = (hid_page u = PAGE_KEYBOARD \<and> b < 8 \<and> hid_id u = 0xE0 + ucast b)"
    by (auto simp: hid_usage_to_modifier_bit_def from_hid_id_iff role_hid_id_def role_of_bit)
  show "(hid_usage_to_modifier_bit u \<noteq> None)
     = (hid_page u = PAGE_KEYBOARD \<and> 0xE0 \<le> hid_id u \<and> hid_id u \<le> 0xE7)"
    using from_hid_id_range [of "hid_id u"] by (auto simp: hid_usage_to_modifier_bit_def)
  show "\<not> (hid_usage_to_modifier_bit u = Some b \<and> hid_usage_to_modifier_bit v = Some b \<and> u \<noteq> v)"
    by (auto dest: modifier_bit_inject)
qed

end
