(* ===== verification/Keyboard.thy ===== *)
theory Keyboard
  imports Rust_Str
begin

text \<open>
  \<open>src/common/keyboard.rs\<close>: the metadata of a discovered keyboard, the specifiers of the
  configuration's keyboard filters, and the two operations on them.
\<close>

record keyboard_info =
  ki_name :: string
  ki_vendor :: string
  ki_model :: string
  ki_device :: string
  ki_port :: "string option"

record keyboard_specifier =
  ks_name :: "string option"
  ks_vendor :: "string option"
  ks_model :: "string option"
  ks_port :: "string option"

definition spec_is_empty :: "keyboard_specifier \<Rightarrow> bool" where
  "spec_is_empty s \<longleftrightarrow>
     ks_name s = None \<and> ks_vendor s = None \<and> ks_model s = None \<and> ks_port s = None"

definition str_matches_ignore_case :: "string \<Rightarrow> string \<Rightarrow> bool" where
  "str_matches_ignore_case pattern v \<longleftrightarrow> eq_ignore_ascii_case pattern v"

text \<open>One \<open>if let Some(..) = .. && !str_matches_ignore_case(..) { return false }\<close>.\<close>

definition field_rejects :: "string option \<Rightarrow> string \<Rightarrow> bool" where
  "field_rejects f v = (case f of Some p \<Rightarrow> \<not> str_matches_ignore_case p v | None \<Rightarrow> False)"

definition spec_matches :: "keyboard_specifier \<Rightarrow> keyboard_info \<Rightarrow> bool" where
  "spec_matches s info =
     (if field_rejects (ks_name s) (ki_name info) then False
      else if field_rejects (ks_vendor s) (ki_vendor info) then False
      else if field_rejects (ks_model s) (ki_model info) then False
      else case ks_port s of
        Some p \<Rightarrow> (case ki_port info of
            Some device_port \<Rightarrow> (if \<not> str_matches_ignore_case p device_port then False else True)
          | None \<Rightarrow> False)
      | None \<Rightarrow> True)"

definition filter_keyboards_by_specifiers ::
  "keyboard_info list \<Rightarrow> keyboard_specifier list option \<Rightarrow> keyboard_info list" where
  "filter_keyboards_by_specifiers kbs flt =
     (case flt of
        None \<Rightarrow> kbs
      | Some specs \<Rightarrow>
          if specs = [] then kbs
          else filter (\<lambda>kb. list_ex (\<lambda>spec. spec_matches spec kb) specs) kbs)"

lemma field_rejects_iff:
  "field_rejects f v \<longleftrightarrow> \<not> (\<forall>p \<in> set_option f. eq_ignore_ascii_case p v)"
  by (cases f) (simp_all add: field_rejects_def str_matches_ignore_case_def)

lemma spec_matches_iff:
  "spec_matches s kb \<longleftrightarrow>
     (\<forall>p \<in> set_option (ks_name s). eq_ignore_ascii_case p (ki_name kb))
     \<and> (\<forall>p \<in> set_option (ks_vendor s). eq_ignore_ascii_case p (ki_vendor kb))
     \<and> (\<forall>p \<in> set_option (ks_model s). eq_ignore_ascii_case p (ki_model kb))
     \<and> (\<forall>p \<in> set_option (ks_port s). \<exists>q \<in> set_option (ki_port kb). eq_ignore_ascii_case p q)"
  unfolding spec_matches_def field_rejects_iff
  by (cases "ks_port s"; cases "ki_port kb") (simp_all add: str_matches_ignore_case_def)

lemma filter_keyboards_iff:
  "filter_keyboards_by_specifiers kbs flt =
     filter (\<lambda>kb. flt = None \<or> flt = Some [] \<or> (\<exists>s \<in> set (the flt). spec_matches s kb)) kbs"
proof (cases flt)
  case (Some specs)
  then show ?thesis
    by (cases "specs = []") (simp_all add: filter_keyboards_by_specifiers_def list_ex_iff)
qed (simp add: filter_keyboards_by_specifiers_def)

lemma spec_is_empty_matches: "spec_is_empty s \<Longrightarrow> spec_matches s kb"
  by (simp add: spec_is_empty_def spec_matches_def field_rejects_def)

text \<open>
  Keyboard filters: a specifier matches precisely when every field it sets equals the
  keyboard's field up to ASCII case (a set port never matches a keyboard without a port), so the
  specifier with no field set matches every keyboard; filtering keeps the keyboards, in order,
  that match at least one specifier, and a missing or empty filter keeps all of them.
\<close>
theorem keyboard_filter_semantics:
  "spec_matches s kb =
     ((\<forall>p \<in> set_option (ks_name s). eq_ignore_ascii_case p (ki_name kb))
      \<and> (\<forall>p \<in> set_option (ks_vendor s). eq_ignore_ascii_case p (ki_vendor kb))
      \<and> (\<forall>p \<in> set_option (ks_model s). eq_ignore_ascii_case p (ki_model kb))
      \<and> (\<forall>p \<in> set_option (ks_port s). \<exists>q \<in> set_option (ki_port kb). eq_ignore_ascii_case p q))
   \<and> filter_keyboards_by_specifiers kbs flt =
     filter (\<lambda>kb. flt = None \<or> flt = Some [] \<or> (\<exists>s \<in> set (the flt). spec_matches s kb)) kbs"
  unfolding spec_matches_iff [of s kb] filter_keyboards_iff by simp

lemma keyboard_filter_semantics_witness:
  "filter_keyboards_by_specifiers
     [\<lparr>ki_name = ''Kbd'', ki_vendor = ''V'', ki_model = ''M'', ki_device = ''d0'', ki_port = None\<rparr>,
      \<lparr>ki_name = ''kBD'', ki_vendor = ''v'', ki_model = ''N'', ki_device = ''d1'', ki_port = Some ''p1''\<rparr>]
     (Some [\<lparr>ks_name = Some ''KBD'', ks_vendor = Some ''V'', ks_model = None, ks_port = Some ''P1''\<rparr>])
   = [\<lparr>ki_name = ''kBD'', ki_vendor = ''v'', ki_model = ''N'', ki_device = ''d1'', ki_port = Some ''p1''\<rparr>]"
  by (subst keyboard_filter_semantics [THEN conjunct2],
      simp add: keyboard_filter_semantics [THEN conjunct1] eq_ignore_ascii_case_def ascii_lower_def)
    (simp add: char_of_def bit_0)

end
