(* ===== verification/Index_Map.thy ===== *)
theory Index_Map
  imports Prelude
begin

text \<open>
  \<open>indexmap::IndexMap\<close>, the ordered map the configuration and the compiled cache are built on,
  by its documented behaviour: the entries in insertion order; inserting under a present key
  replaces the value and keeps the entry's position. The contract the clients rely on is the
  locale \<open>insertion_map\<close>; maps to lists that only grow by \<open>entry(k).or_default().push(x)\<close>
  satisfy the contract \<open>push_map\<close>, whose lemmas say what a sequence of pushes leaves behind.
\<close>

section \<open>Contracts\<close>

locale insertion_map =
  fixes empty :: "'m"
    and insert :: "'k \<Rightarrow> 'v \<Rightarrow> 'm \<Rightarrow> 'm"
    and get :: "'m \<Rightarrow> 'k \<Rightarrow> 'v option"
    and keys :: "'m \<Rightarrow> 'k list"
  assumes get_empty: "get empty = (\<lambda>_. None)"
    and keys_empty: "keys empty = []"
    and get_insert: "get (insert k v m) = (get m)(k \<mapsto> v)"
    and keys_insert: "keys (insert k v m) = (if k \<in> set (keys m) then keys m else keys m @ [k])"
    and dom_get: "dom (get m) = set (keys m)"
begin

lemma get_insert_same [simp]: "get (insert k v m) k = Some v"
  by (simp add: get_insert)

lemma distinct_keys_insert: "distinct (keys m) \<Longrightarrow> distinct (keys (insert k v m))"
  by (simp add: keys_insert)

lemma set_keys_insert: "set (keys (insert k v m)) = Set.insert k (set (keys m))"
  by (auto simp: keys_insert)

lemma fold_insert_frame:
  "k \<notin> fst ` set ps \<Longrightarrow> get (fold (\<lambda>(k, v). insert k v) ps m) k = get m k"
  by (induction ps arbitrary: m) (auto simp: get_insert)

lemma fold_insert_get:
  "distinct (map fst ps) \<Longrightarrow> (k, v) \<in> set ps \<Longrightarrow>
   get (fold (\<lambda>(k, v). insert k v) ps m) k = Some v"
  by (induction ps arbitrary: m) (auto simp: fold_insert_frame)

end

locale push_map =
  fixes empty :: "'m"
    and push :: "'k \<Rightarrow> 'x \<Rightarrow> 'm \<Rightarrow> 'm"
    and get :: "'m \<Rightarrow> 'k \<Rightarrow> 'x list option"
    and keys :: "'m \<Rightarrow> 'k list"
  assumes get_none: "get empty = (\<lambda>_. None)"
    and keys_none: "keys empty = []"
    and get_push: "get (push k x m) = (get m)(k \<mapsto> case_option [] id (get m k) @ [x])"
    and keys_push: "keys (push k x m) = (if k \<in> set (keys m) then keys m else keys m @ [k])"
begin

lemma get_pushes_from:
  "get (fold (\<lambda>(k, x). push k x) ps m) k =
     (let xs = map snd (filter (\<lambda>p. fst p = k) ps)
      in if xs = [] then get m k else Some (case_option [] id (get m k) @ xs))"
  by (induction ps arbitrary: m) (auto simp: get_push Let_def)

text \<open>After a sequence of pushes a key maps to what was pushed under it, in order.\<close>

lemma get_pushes:
  "get (fold (\<lambda>(k, x). push k x) ps empty) k =
     (let xs = map snd (filter (\<lambda>p. fst p = k) ps) in if xs = [] then None else Some xs)"
  by (simp add: get_pushes_from get_none Let_def)

lemma keys_pushes_from:
  "set (keys (fold (\<lambda>(k, x). push k x) ps m)) = set (keys m) \<union> fst ` set ps"
  by (induction ps arbitrary: m) (auto simp: keys_push split: if_splits)

lemma keys_pushes: "set (keys (fold (\<lambda>(k, x). push k x) ps empty)) = fst ` set ps"
  by (simp add: keys_pushes_from keys_none)

lemma distinct_keys_push: "distinct (keys m) \<Longrightarrow> distinct (keys (push k x m))"
  by (simp add: keys_push)

lemma distinct_keys_pushes_from:
  "distinct (keys m) \<Longrightarrow> distinct (keys (fold (\<lambda>(k, x). push k x) ps m))"
  by (induction ps arbitrary: m) (auto simp: distinct_keys_push)

lemma distinct_keys_pushes: "distinct (keys (fold (\<lambda>(k, x). push k x) ps empty))"
  by (simp add: distinct_keys_pushes_from keys_none)

end

text \<open>A map to lists whose \<open>push\<close> is get, append, insert is a push map.\<close>

locale list_map =
  insertion_map empty insert get keys
  for empty :: "'m"
    and insert :: "'k \<Rightarrow> 'x list \<Rightarrow> 'm \<Rightarrow> 'm"
    and get :: "'m \<Rightarrow> 'k \<Rightarrow> 'x list option"
    and keys :: "'m \<Rightarrow> 'k list" +
  fixes push :: "'k \<Rightarrow> 'x \<Rightarrow> 'm \<Rightarrow> 'm"
  assumes push_insert: "push k x m = insert k (case_option [] id (get m k) @ [x]) m"

sublocale list_map \<subseteq> push_map empty push get keys
  by unfold_locales (simp_all add: push_insert get_empty keys_empty get_insert keys_insert)

section \<open>The ordered map as an association list\<close>

type_synonym ('k, 'v) index_map = "('k \<times> 'v) list"

fun im_insert :: "'k \<Rightarrow> 'v \<Rightarrow> ('k, 'v) index_map \<Rightarrow> ('k, 'v) index_map" where
  "im_insert k v [] = [(k, v)]"
| "im_insert k v ((k', v') # m) = (if k = k' then (k', v) # m else (k', v') # im_insert k v m)"

definition im_get :: "('k, 'v) index_map \<Rightarrow> 'k \<Rightarrow> 'v option" where
  "im_get m k = map_of m k"

definition im_keys :: "('k, 'v) index_map \<Rightarrow> 'k list" where
  "im_keys m = map fst m"

text \<open>\<open>map.entry(k).or_default().push(x)\<close>.\<close>

definition im_push :: "'k \<Rightarrow> 'x \<Rightarrow> ('k, 'x list) index_map \<Rightarrow> ('k, 'x list) index_map" where
  "im_push k x m = im_insert k (case_option [] id (im_get m k) @ [x]) m"

lemma im_insert_new: "k \<notin> set (im_keys m) \<Longrightarrow> im_insert k v m = m @ [(k, v)]"
  by (induction k v m rule: im_insert.induct) (auto simp: im_keys_def)

lemma im_get_insert: "im_get (im_insert k v m) = (im_get m)(k \<mapsto> v)"
  by (induction k v m rule: im_insert.induct) (auto simp: im_get_def fun_eq_iff)

lemma im_keys_insert:
  "im_keys (im_insert k v m) = (if k \<in> set (im_keys m) then im_keys m else im_keys m @ [k])"
  by (induction k v m rule: im_insert.induct) (auto simp: im_keys_def)

lemma im_empty: "im_get [] = (\<lambda>_. None)" "im_keys [] = []"
  by (simp_all add: im_get_def im_keys_def fun_eq_iff)

lemma dom_im_get: "dom (im_get m) = set (im_keys m)"
proof -
  have "im_get m = map_of m" by (simp add: im_get_def fun_eq_iff)
  then show ?thesis by (simp add: im_keys_def dom_map_of_conv_image_fst)
qed

interpretation im: insertion_map "[]" im_insert im_get im_keys
  by unfold_locales (simp_all add: im_get_insert im_keys_insert im_empty dom_im_get)

interpretation imp: list_map "[]" im_insert im_get im_keys im_push
  by unfold_locales (simp add: im_push_def)

lemma im_get_set: "distinct (im_keys m) \<Longrightarrow> im_get m k = Some v \<longleftrightarrow> (k, v) \<in> set m"
  by (simp add: im_get_def im_keys_def)

end
