(* ===== verification/Config.thy ===== *)
theory Config
  imports Hid_Usage Keyboard Index_Map "HOL-Library.List_Lexorder" "HOL-Library.Product_Lexorder"
begin

text \<open>
  \<open>src/common/config.rs\<close>: key events with their textual form, the ordered mapping table,
  rule groups, the configuration document and its diagnostics (\<open>AppConfig::check\<close>). The YAML
  layer (serde-saphyr and the \<open>Deserialize\<close> visitors over it) is not modelled: a
  configuration is the value it produces.
\<close>

section \<open>Key events\<close>

datatype key_event = KeyEvent (ke_modifiers: "hid_usage list") (ke_base: hid_usage)

text \<open>The derived order: the fields lexicographically, in declaration order.\<close>

definition key_event_le :: "key_event \<Rightarrow> key_event \<Rightarrow> bool" where
  "key_event_le e f \<longleftrightarrow> (ke_modifiers e, ke_base e) \<le> (ke_modifiers f, ke_base f)"

definition key_event_lt :: "key_event \<Rightarrow> key_event \<Rightarrow> bool" where
  "key_event_lt e f \<longleftrightarrow> (ke_modifiers e, ke_base e) < (ke_modifiers f, ke_base f)"

instantiation key_event :: linorder
begin

definition less_eq_key_event :: "key_event \<Rightarrow> key_event \<Rightarrow> bool" where
  "less_eq_key_event = key_event_le"

definition less_key_event :: "key_event \<Rightarrow> key_event \<Rightarrow> bool" where
  "less_key_event = key_event_lt"

lemmas key_event_order = less_eq_key_event_def less_key_event_def key_event_le_def key_event_lt_def

instance
proof
  fix e f g :: key_event
  show "(e < f) = (e \<le> f \<and> \<not> f \<le> e)"
    unfolding key_event_order by (rule less_le_not_le)
  show "e \<le> e" unfolding key_event_order by (rule order_refl)
  show "e \<le> f \<Longrightarrow> f \<le> g \<Longrightarrow> e \<le> g" unfolding key_event_order by (rule order_trans)
  show "e \<le> f \<Longrightarrow> f \<le> e \<Longrightarrow> e = f"
    unfolding key_event_order
    by (drule (1) order_antisym) (cases e; cases f; simp)
  show "e \<le> f \<or> f \<le> e" unfolding key_event_order by (rule linear)
qed

end

datatype key_event_parse_error =
    Empty
  | EmptyToken
  | UnknownKey hid_usage_parse_error
  | TooManyModifiers nat

subsection \<open>Parsing\<close>

definition parse_key :: "string \<Rightarrow> key_event_parse_error + hid_usage" where
  "parse_key token =
     (let trimmed = trim token in
      if trimmed = [] then Inl EmptyToken
      else (case try_from_str trimmed of Inl e \<Rightarrow> Inl (UnknownKey e) | Inr u \<Rightarrow> Inr u))"

definition ke_parse :: "string \<Rightarrow> key_event_parse_error + key_event" where
  "ke_parse s =
     (let parts = split_on (CHR ''+'') s in
      if parts = [] \<or> (length parts = 1 \<and> trim (parts ! 0) = []) then Inl Empty
      else if length parts > 9 then Inl (TooManyModifiers (length parts - 1))
      else if length parts = 1 then
        (case parse_key (parts ! 0) of Inl e \<Rightarrow> Inl e | Inr base \<Rightarrow> Inr (KeyEvent [] base))
      else
        (case parse_key (parts ! (length parts - 1)) of
           Inl e \<Rightarrow> Inl e
         | Inr base \<Rightarrow>
             (case try_map parse_key (take (length parts - 1) parts) of
                Inl e \<Rightarrow> Inl e
              | Inr mods \<Rightarrow> Inr (KeyEvent mods base))))"

subsection \<open>Display\<close>

fun display_modifiers :: "nat \<Rightarrow> hid_usage list \<Rightarrow> string" where
  "display_modifiers i [] = []"
| "display_modifiers i (m # ms) =
     (if i > 0 then ''+'' else []) @ as_str m @ display_modifiers (Suc i) ms"

definition ke_display :: "key_event \<Rightarrow> string" where
  "ke_display e =
     display_modifiers 0 (ke_modifiers e)
     @ (if ke_modifiers e \<noteq> [] then ''+'' else [])
     @ as_str (ke_base e)"

lemma display_modifiers_Suc:
  "display_modifiers (Suc i) ms = concat (map (\<lambda>m. ''+'' @ as_str m) ms)"
  by (induction ms arbitrary: i) auto

lemma join_map_plus:
  "join ''+'' (map as_str (m # ms)) = as_str m @ concat (map (\<lambda>m. ''+'' @ as_str m) ms)"
  by (induction ms arbitrary: m) (auto simp: join_Cons)

lemma ke_display_join:
  "ke_display e = join ''+'' (map as_str (ke_modifiers e @ [ke_base e]))"
proof (cases "ke_modifiers e")
  case (Cons m ms)
  then show ?thesis
    using join_map_plus [of m "ms @ [ke_base e]"]
    by (simp add: ke_display_def display_modifiers_Suc)
qed (simp add: ke_display_def)

lemma split_on_ke_display:
  "split_on (CHR ''+'') (ke_display e) = map as_str (ke_modifiers e @ [ke_base e])"
proof -
  have "CHR ''+'' \<notin> set (as_str u)" for u
    using plain_name_as_str [of u] by (simp add: plain_name_def)
  then show ?thesis unfolding ke_display_join by (intro split_on_join) auto
qed

lemma as_str_nonempty [simp]: "as_str u \<noteq> []"
  using plain_name_as_str [of u] by (simp add: plain_name_def)

lemma parse_key_as_str [simp]: "parse_key (as_str u) = Inr u"
  by (simp add: parse_key_def)

lemma ke_parse_InrD:
  assumes "ke_parse s = Inr e"
  shows "length (ke_modifiers e) \<le> 8"
proof -
  have "length (split_on CHR ''+'' s) \<le> 9" using assms
    by (auto simp: ke_parse_def Let_def split: if_splits)
  then show ?thesis using assms
    by (auto simp: ke_parse_def Let_def try_map_Inr_iff dest!: list_all2_lengthD
        split: if_splits sum.splits)
qed

lemma ke_parse_display_len:
  "ke_parse (ke_display e) =
     (if length (ke_modifiers e) \<le> 8 then Inr e
      else Inl (TooManyModifiers (length (ke_modifiers e))))"
proof (cases e)
  case (KeyEvent ms b)
  then show ?thesis
    using try_map_map_Inr [of ms parse_key as_str id]
    by (auto simp: ke_parse_def Let_def split_on_ke_display nth_append)
qed

text \<open>
  Key events print and parse back: re-parsing the displayed form of an event gives that
  event, unless it has more than eight modifiers, in which case the parser reports exactly their
  number; and whatever the parser accepts has at most eight modifiers, so it is parsed again from
  its displayed (alias-free) form.
\<close>
theorem key_event_round_trip:
  "ke_parse (ke_display e) =
     (if length (ke_modifiers e) \<le> 8 then Inr e
      else Inl (TooManyModifiers (length (ke_modifiers e))))
   \<and> \<not> (ke_parse s = Inr f \<and> ke_parse (ke_display f) \<noteq> Inr f)"
  by (auto simp: ke_parse_display_len dest: ke_parse_InrD)

section \<open>The mapping table\<close>

type_synonym mapping_table = "(key_event, key_event list) index_map"

definition mt_is_empty :: "mapping_table \<Rightarrow> bool" where
  "mt_is_empty m \<longleftrightarrow> m = []"

definition mt_insert :: "key_event \<Rightarrow> key_event list \<Rightarrow> mapping_table \<Rightarrow> mapping_table" where
  "mt_insert trigger outputs m = im_insert trigger outputs m"

definition mt_get :: "mapping_table \<Rightarrow> key_event \<Rightarrow> key_event list option" where
  "mt_get m trigger = im_get m trigger"

definition mt_contains_key :: "mapping_table \<Rightarrow> key_event \<Rightarrow> bool" where
  "mt_contains_key m trigger \<longleftrightarrow> trigger \<in> set (im_keys m)"

text \<open>A value of the YAML mapping: one event string, or a sequence of them.\<close>

datatype yaml_outputs = OutStr string | OutSeq "string list"

definition output_events :: "yaml_outputs \<Rightarrow> key_event_parse_error + key_event list" where
  "output_events v =
     (case v of
        OutStr s \<Rightarrow> (case ke_parse s of Inl e \<Rightarrow> Inl e | Inr ev \<Rightarrow> Inr [ev])
      | OutSeq ss \<Rightarrow> try_map ke_parse ss)"

text \<open>\<open>MappingTableVisitor::visit_map\<close> over the entries of the document, in order.\<close>

fun mt_visit_entries ::
  "(string \<times> yaml_outputs) list \<Rightarrow> mapping_table \<Rightarrow> key_event_parse_error + mapping_table" where
  "mt_visit_entries [] m = Inr m"
| "mt_visit_entries ((key_str, v) # es) m =
     (case output_events v of
        Inl e \<Rightarrow> Inl e
      | Inr outputs \<Rightarrow>
          (case ke_parse key_str of
             Inl e \<Rightarrow> Inl e
           | Inr trigger \<Rightarrow> mt_visit_entries es (im_insert trigger outputs m)))"

definition mt_visit_map :: "(string \<times> yaml_outputs) list \<Rightarrow> key_event_parse_error + mapping_table" where
  "mt_visit_map es = mt_visit_entries es []"

definition mt_serialize :: "mapping_table \<Rightarrow> (string \<times> yaml_outputs) list" where
  "mt_serialize m =
     map (\<lambda>(trigger, outputs).
            (ke_display trigger,
             if length outputs = 1 then OutStr (ke_display (outputs ! 0))
             else OutSeq (map ke_display outputs))) m"

lemma mt_visit_entries_distinct:
  "mt_visit_entries es m = Inr m' \<Longrightarrow> distinct (im_keys m) \<Longrightarrow> distinct (im_keys m')"
proof (induction es m rule: mt_visit_entries.induct)
  case (2 k v es m)
  from "2.prems"(1) obtain outputs trigger where o: "output_events v = Inr outputs"
    and t: "ke_parse k = Inr trigger"
    and r: "mt_visit_entries es (im_insert trigger outputs m) = Inr m'"
    by (auto split: sum.splits)
  from "2.IH" [OF o t r im.distinct_keys_insert [OF "2.prems"(2)]] show ?case .
qed simp

section \<open>Rule groups and the document\<close>

record rule_group =
  rg_name :: "string option"
  rg_apps :: "string list"
  rg_keyboards :: "keyboard_specifier list"
  rg_mappings :: mapping_table

record app_config =
  ac_keyboards :: "keyboard_specifier list option"
  ac_groups :: "rule_group list"

text \<open>
  The root of the document is a sequence of groups, or a mapping whose entries are visited in
  order: a repeated key overrides, an unknown key is an error.
\<close>

datatype root_entry =
    RootGroups "rule_group list"
  | RootKeyboards "keyboard_specifier list option"
  | RootOther string

datatype root_error = UnknownField string

definition ac_visit_seq :: "rule_group list \<Rightarrow> app_config" where
  "ac_visit_seq groups = \<lparr>ac_keyboards = None, ac_groups = groups\<rparr>"

fun ac_visit_entries :: "root_entry list \<Rightarrow> app_config \<Rightarrow> root_error + app_config" where
  "ac_visit_entries [] c = Inr c"
| "ac_visit_entries (RootGroups gs # es) c = ac_visit_entries es (c\<lparr>ac_groups := gs\<rparr>)"
| "ac_visit_entries (RootKeyboards kbs # es) c = ac_visit_entries es (c\<lparr>ac_keyboards := kbs\<rparr>)"
| "ac_visit_entries (RootOther k # es) c = Inl (UnknownField k)"

definition ac_visit_map :: "root_entry list \<Rightarrow> root_error + app_config" where
  "ac_visit_map es = ac_visit_entries es \<lparr>ac_keyboards = None, ac_groups = []\<rparr>"

definition ac_serialize :: "app_config \<Rightarrow> root_entry list" where
  "ac_serialize c =
     (case ac_keyboards c of
        Some kbs \<Rightarrow> if kbs \<noteq> [] then [RootKeyboards (Some kbs)] else []
      | None \<Rightarrow> [])
     @ [RootGroups (ac_groups c)]"

text \<open>The tables of a configuration have distinct triggers, as every \<open>IndexMap\<close> has.\<close>

definition config_wf :: "app_config \<Rightarrow> bool" where
  "config_wf c \<longleftrightarrow> list_all (\<lambda>g. distinct (im_keys (rg_mappings g))) (ac_groups c)"

section \<open>Diagnostics\<close>

datatype config_diagnostic =
    NoRuleGroups
  | EmptyGlobalKeyboardSpecifier nat
  | EmptyGroup string
  | EmptyGroupKeyboardSpecifier string nat
  | NoOpMapping string key_event
  | DuplicateTrigger key_event string
  | CircularPair key_event key_event

definition group_label :: "nat \<Rightarrow> rule_group \<Rightarrow> string" where
  "group_label group_idx g =
     (case rg_name g of Some s \<Rightarrow> s | None \<Rightarrow> ''group '' @ show_nat (group_idx + 1))"

fun check_specs ::
  "(nat \<Rightarrow> config_diagnostic) \<Rightarrow> nat \<Rightarrow> keyboard_specifier list \<Rightarrow> config_diagnostic list" where
  "check_specs d i [] = []"
| "check_specs d i (spec # specs) =
     (if spec_is_empty spec then [d i] else []) @ check_specs d (Suc i) specs"

type_synonym seen_triggers = "(key_event, (nat \<times> string) list) index_map"

fun scan_mappings ::
  "nat \<Rightarrow> string \<Rightarrow> mapping_table \<Rightarrow> seen_triggers \<times> config_diagnostic list
    \<Rightarrow> seen_triggers \<times> config_diagnostic list" where
  "scan_mappings group_idx label [] st = st"
| "scan_mappings group_idx label ((trigger, outputs) # ms) (seen, ds) =
     scan_mappings group_idx label ms
       (im_push trigger (group_idx, label) seen,
        ds @ (if length outputs = 1 \<and> outputs ! 0 = trigger then [NoOpMapping label trigger] else []))"

fun scan_groups ::
  "nat \<Rightarrow> rule_group list \<Rightarrow> seen_triggers \<times> config_diagnostic list
    \<Rightarrow> seen_triggers \<times> config_diagnostic list" where
  "scan_groups group_idx [] st = st"
| "scan_groups group_idx (g # gs) (seen, ds) =
     (let label = group_label group_idx g;
          ds1 = ds @ (if mt_is_empty (rg_mappings g) then [EmptyGroup label] else []);
          ds2 = ds1 @ check_specs (EmptyGroupKeyboardSpecifier label) 0 (rg_keyboards g)
      in scan_groups (Suc group_idx) gs (scan_mappings group_idx label (rg_mappings g) (seen, ds2)))"

fun duplicate_diagnostics :: "seen_triggers \<Rightarrow> config_diagnostic list" where
  "duplicate_diagnostics [] = []"
| "duplicate_diagnostics ((trigger, locations) # seen) =
     (if length locations > 1 then [DuplicateTrigger trigger (join '', '' (map snd locations))] else [])
     @ duplicate_diagnostics seen"

fun single_map_from ::
  "mapping_table \<Rightarrow> (key_event, key_event) index_map \<Rightarrow> (key_event, key_event) index_map" where
  "single_map_from [] sm = sm"
| "single_map_from ((trigger, outputs) # ms) sm =
     single_map_from ms (if length outputs = 1 then im_insert trigger (outputs ! 0) sm else sm)"

fun scan_pairs ::
  "(key_event, key_event) index_map \<Rightarrow> (key_event, key_event) index_map
    \<Rightarrow> (key_event \<times> key_event) list \<times> config_diagnostic list
    \<Rightarrow> (key_event \<times> key_event) list \<times> config_diagnostic list" where
  "scan_pairs sm [] st = st"
| "scan_pairs sm ((trigger, output) # es) (reported, ds) =
     scan_pairs sm es
       (if trigger = output then (reported, ds)
        else (case im_get sm output of
            Some back \<Rightarrow>
              (if back = trigger then
                 (let pair = (if trigger < output then (trigger, output) else (output, trigger)) in
                  if pair \<in> set reported then (reported, ds)
                  else (reported @ [pair], ds @ [CircularPair (fst pair) (snd pair)]))
               else (reported, ds))
          | None \<Rightarrow> (reported, ds)))"

fun scan_circular ::
  "rule_group list \<Rightarrow> (key_event \<times> key_event) list \<times> config_diagnostic list
    \<Rightarrow> (key_event \<times> key_event) list \<times> config_diagnostic list" where
  "scan_circular [] st = st"
| "scan_circular (g # gs) st =
     (let sm = single_map_from (rg_mappings g) [] in scan_circular gs (scan_pairs sm sm st))"

definition config_check :: "app_config \<Rightarrow> config_diagnostic list" where
  "config_check c =
     (let ds0 = (if ac_groups c = [] then [NoRuleGroups] else []);
          ds1 = ds0 @ (case ac_keyboards c of
                  Some kbs \<Rightarrow> check_specs EmptyGlobalKeyboardSpecifier 0 kbs | None \<Rightarrow> []);
          (seen, ds2) = scan_groups 0 (ac_groups c) ([], ds1);
          ds3 = ds2 @ duplicate_diagnostics seen
      in snd (scan_circular (ac_groups c) ([], ds3)))"

end
