(* ===== verification/Config_Check.thy ===== *)
theory Config_Check
  imports Config
begin

text \<open>
  What the diagnostics of \<open>AppConfig::check\<close> mean. The scans of the code are related to the
  configuration by three facts: the map of seen triggers is the sequence of pushes of every
  trigger with its group (\<open>push_map\<close> then gives its contents), the list of diagnostics only
  grows by the findings of each group, and a pair is reported at most once.
\<close>

section \<open>The scan of the groups\<close>

definition group_triggers :: "nat \<Rightarrow> rule_group \<Rightarrow> (key_event \<times> nat \<times> string) list" where
  "group_triggers gi g = map (\<lambda>(t, _). (t, gi, group_label gi g)) (rg_mappings g)"

definition group_findings :: "nat \<Rightarrow> rule_group \<Rightarrow> config_diagnostic list" where
  "group_findings gi g =
     (if mt_is_empty (rg_mappings g) then [EmptyGroup (group_label gi g)] else [])
     @ check_specs (EmptyGroupKeyboardSpecifier (group_label gi g)) 0 (rg_keyboards g)
     @ concat (map (\<lambda>(t, os). if length os = 1 \<and> os ! 0 = t then [NoOpMapping (group_label gi g) t] else [])
         (rg_mappings g))"

lemma scan_mappings_eq:
  "scan_mappings gi label ms (seen, ds) =
     (fold (\<lambda>(k, x). im_push k x) (map (\<lambda>(t, _). (t, gi, label)) ms) seen,
      ds @ concat (map (\<lambda>(t, os). if length os = 1 \<and> os ! 0 = t then [NoOpMapping label t] else []) ms))"
  by (induction gi label ms "(seen, ds)" arbitrary: seen ds rule: scan_mappings.induct) simp_all

lemma scan_groups_eq:
  "scan_groups i gs (seen, ds) =
     (fold (\<lambda>(k, x). im_push k x) (concat (map (\<lambda>(i, g). group_triggers i g) (enumerate i gs))) seen,
      ds @ concat (map (\<lambda>(i, g). group_findings i g) (enumerate i gs)))"
  by (induction gs arbitrary: i seen ds)
    (simp_all add: scan_mappings_eq Let_def group_triggers_def group_findings_def)

definition seen_triggers_of :: "app_config \<Rightarrow> seen_triggers" where
  "seen_triggers_of c =
     fold (\<lambda>(k, x). im_push k x)
       (concat (map (\<lambda>(i, g). group_triggers i g) (enumerate 0 (ac_groups c)))) []"

section \<open>Duplicate triggers\<close>

text \<open>The indices of the groups that define a trigger.\<close>

definition defining_groups :: "app_config \<Rightarrow> key_event \<Rightarrow> nat list" where
  "defining_groups c t =
     filter (\<lambda>i. mt_contains_key (rg_mappings (ac_groups c ! i)) t) [0..<length (ac_groups c)]"

lemma filter_key_distinct:
  "distinct (map fst m) \<Longrightarrow>
   filter (\<lambda>p. fst p = t) m = (case map_of m t of Some v \<Rightarrow> [(t, v)] | None \<Rightarrow> [])"
proof (induction m)
  case (Cons a m)
  show ?case
  proof (cases "fst a = t")
    case True
    with Cons.prems have "filter (\<lambda>p. fst p = t) m = []"
      by (auto simp: filter_empty_conv image_iff)
    with True show ?thesis by (cases a) auto
  next
    case False
    with Cons show ?thesis by (cases a) auto
  qed
qed simp

lemma group_triggers_filter:
  assumes "distinct (im_keys (rg_mappings g))"
  shows "map snd (filter (\<lambda>p. fst p = t) (group_triggers i g)) =
    (if mt_contains_key (rg_mappings g) t then [(i, group_label i g)] else [])"
proof -
  have "filter (\<lambda>p. fst p = t) (group_triggers i g) =
      map (\<lambda>(t, _). (t, i, group_label i g)) (filter (\<lambda>p. fst p = t) (rg_mappings g))"
    by (simp add: group_triggers_def filter_map comp_def case_prod_beta')
  moreover have "mt_contains_key (rg_mappings g) t \<longleftrightarrow> map_of (rg_mappings g) t \<noteq> None"
    by (simp add: mt_contains_key_def im_keys_def map_of_eq_None_iff)
  ultimately show ?thesis
    using assms
    by (cases "map_of (rg_mappings g) t") (simp_all add: filter_key_distinct im_keys_def)
qed

lemma enumerate_filter:
  assumes "\<forall>g \<in> set gs. distinct (im_keys (rg_mappings g))"
  shows "map snd (filter (\<lambda>p. fst p = t) (concat (map (\<lambda>(i, g). group_triggers i g) (enumerate n gs)))) =
    map (\<lambda>i. (i, group_label i (gs ! (i - n))))
      (filter (\<lambda>i. mt_contains_key (rg_mappings (gs ! (i - n))) t) [n..<n + length gs])"
  using assms
proof (induction gs arbitrary: n)
  case (Cons g gs)
  have split: "[n..<n + length (g # gs)] = n # [Suc n..<Suc n + length gs]"
    by (simp add: upt_conv_Cons del: upt_Suc)
  have shift: "(g # gs) ! (i - n) = gs ! (i - Suc n)" if "i \<in> set [Suc n..<Suc n + length gs]" for i
  proof -
    from that have "i - n = Suc (i - Suc n)" by (auto simp del: upt_Suc)
    then show ?thesis by simp
  qed
  have f: "filter (\<lambda>i. mt_contains_key (rg_mappings ((g # gs) ! (i - n))) t) [Suc n..<Suc n + length gs]
      = filter (\<lambda>i. mt_contains_key (rg_mappings (gs ! (i - Suc n))) t) [Suc n..<Suc n + length gs]"
    by (rule filter_cong [OF refl]) (simp only: shift)
  have rest: "map snd (filter (\<lambda>p. fst p = t) (concat (map (\<lambda>(i, g). group_triggers i g) (enumerate (Suc n) gs)))) =
    map (\<lambda>i. (i, group_label i ((g # gs) ! (i - n))))
      (filter (\<lambda>i. mt_contains_key (rg_mappings ((g # gs) ! (i - n))) t) [Suc n..<Suc n + length gs])"
    unfolding f using Cons.IH [of "Suc n"] Cons.prems shift
    by (auto simp del: upt_Suc)
  show ?case
    unfolding split enumerate_simps list.map concat.simps filter_append map_append prod.case rest
    using Cons.prems by (simp add: group_triggers_filter del: upt_Suc)
qed simp

lemma seen_triggers_get:
  assumes "config_wf c"
  shows "im_get (seen_triggers_of c) t =
    (if defining_groups c t = [] then None
     else Some (map (\<lambda>i. (i, group_label i (ac_groups c ! i))) (defining_groups c t)))"
  using assms enumerate_filter [of "ac_groups c" t 0]
  by (simp add: seen_triggers_of_def imp.get_pushes Let_def defining_groups_def config_wf_def list_all_iff)

lemma duplicate_diagnostics_set:
  "d \<in> set (duplicate_diagnostics seen) \<longleftrightarrow>
     (\<exists>t locs. (t, locs) \<in> set seen \<and> length locs > 1 \<and> d = DuplicateTrigger t (join '', '' (map snd locs)))"
  by (induction seen rule: duplicate_diagnostics.induct) auto

lemma duplicate_in_seen:
  assumes "config_wf c"
  shows "DuplicateTrigger t ns \<in> set (duplicate_diagnostics (seen_triggers_of c)) \<longleftrightarrow>
    length (defining_groups c t) > 1
    \<and> ns = join '', '' (map (\<lambda>i. group_label i (ac_groups c ! i)) (defining_groups c t))"
proof -
  have d: "distinct (im_keys (seen_triggers_of c))"
    unfolding seen_triggers_of_def by (rule imp.distinct_keys_pushes)
  have "DuplicateTrigger t ns \<in> set (duplicate_diagnostics (seen_triggers_of c)) \<longleftrightarrow>
     (\<exists>locs. im_get (seen_triggers_of c) t = Some locs \<and> length locs > 1
        \<and> ns = join '', '' (map snd locs))"
    using d by (auto simp: duplicate_diagnostics_set im_get_set)
  also have "\<dots> \<longleftrightarrow> length (defining_groups c t) > 1
    \<and> ns = join '', '' (map (\<lambda>i. group_label i (ac_groups c ! i)) (defining_groups c t))"
    using seen_triggers_get [OF assms, of t] by (auto simp: comp_def split: if_splits)
  finally show ?thesis .
qed

section \<open>Circular pairs\<close>

lemma single_map_from_get:
  "distinct (map fst ms) \<Longrightarrow>
   im_get (single_map_from ms sm) t =
     (case map_of ms t of
        Some os \<Rightarrow> (if length os = 1 then Some (os ! 0) else im_get sm t)
      | None \<Rightarrow> im_get sm t)"
proof (induction ms sm rule: single_map_from.induct)
  case (2 trigger outputs ms sm)
  then have "map_of ms trigger = None" by (simp add: map_of_eq_None_iff)
  with 2 show ?case by (cases "t = trigger") (auto simp: im_get_insert split: option.split)
qed simp

lemma single_map_from_distinct:
  "distinct (im_keys sm) \<Longrightarrow> distinct (im_keys (single_map_from ms sm))"
  by (induction ms sm rule: single_map_from.induct) (simp_all add: im.distinct_keys_insert)

definition single_map :: "rule_group \<Rightarrow> (key_event, key_event) index_map" where
  "single_map g = single_map_from (rg_mappings g) []"

lemma single_map_get:
  assumes "distinct (im_keys (rg_mappings g))"
  shows "im_get (single_map g) t = Some u \<longleftrightarrow> im_get (rg_mappings g) t = Some [u]"
proof -
  have one: "length os = Suc 0 \<longleftrightarrow> (\<exists>x. os = [x])" for os :: "key_event list"
    by (simp add: length_Suc_conv)
  show ?thesis
    using assms
    by (cases "map_of (rg_mappings g) t")
      (auto simp: single_map_def single_map_from_get im_keys_def im_empty one im_get_def [of "rg_mappings g"])
qed

text \<open>The pair a single-output entry and its way back make, smaller event first.\<close>

definition swap_pair :: "(key_event, key_event) index_map \<Rightarrow> key_event \<times> key_event \<Rightarrow> (key_event \<times> key_event) option" where
  "swap_pair sm e =
     (let (t, u) = e in
      if t \<noteq> u \<and> im_get sm u = Some t then Some (if t < u then (t, u) else (u, t)) else None)"

definition pair_diag :: "key_event \<times> key_event \<Rightarrow> config_diagnostic" where
  "pair_diag p = CircularPair (fst p) (snd p)"

definition report_pair ::
  "key_event \<times> key_event \<Rightarrow> (key_event \<times> key_event) list \<times> config_diagnostic list
    \<Rightarrow> (key_event \<times> key_event) list \<times> config_diagnostic list" where
  "report_pair p st =
     (if p \<in> set (fst st) then st else (fst st @ [p], snd st @ [pair_diag p]))"

lemma scan_pairs_report:
  "scan_pairs sm es st =
     fold (\<lambda>e st. case swap_pair sm e of Some p \<Rightarrow> report_pair p st | None \<Rightarrow> st) es st"
proof (induction sm es st rule: scan_pairs.induct)
  case (2 sm t u es reported ds)
  show ?case
    by (subst scan_pairs.simps, subst "2.IH")
      (simp add: swap_pair_def report_pair_def pair_diag_def Let_def split: option.split)
qed simp

text \<open>Reporting keeps the reported pairs distinct and in step with the diagnostics.\<close>

definition report_inv :: "config_diagnostic list \<Rightarrow> (key_event \<times> key_event) list \<times> config_diagnostic list \<Rightarrow> bool" where
  "report_inv ds0 st \<longleftrightarrow> distinct (fst st) \<and> snd st = ds0 @ map pair_diag (fst st)"

lemma report_pair_inv: "report_inv ds0 st \<Longrightarrow> report_inv ds0 (report_pair p st)"
  by (auto simp: report_inv_def report_pair_def)

lemma set_report_pair: "set (fst (report_pair p st)) = insert p (set (fst st))"
  by (auto simp: report_pair_def)

lemma scan_pairs_inv:
  "report_inv ds0 st \<Longrightarrow>
   report_inv ds0 (scan_pairs sm es st)
   \<and> set (fst (scan_pairs sm es st)) = set (fst st) \<union> {p. \<exists>e \<in> set es. swap_pair sm e = Some p}"
  unfolding scan_pairs_report
proof (induction es arbitrary: st)
  case (Cons e es)
  show ?case
  proof (cases "swap_pair sm e")
    case None
    with Cons show ?thesis by auto
  next
    case (Some p)
    with Cons.IH [OF report_pair_inv [OF Cons.prems, of p]] show ?thesis
      by (auto simp: set_report_pair)
  qed
qed simp

lemma scan_circular_inv:
  "report_inv ds0 st \<Longrightarrow>
   report_inv ds0 (scan_circular gs st)
   \<and> set (fst (scan_circular gs st)) =
     set (fst st) \<union> {p. \<exists>g \<in> set gs. \<exists>e \<in> set (single_map g). swap_pair (single_map g) e = Some p}"
proof (induction gs arbitrary: st)
  case (Cons g gs)
  have *: "report_inv ds0 (scan_pairs (single_map g) (single_map g) st)"
    and **: "set (fst (scan_pairs (single_map g) (single_map g) st)) =
      set (fst st) \<union> {p. \<exists>e \<in> set (single_map g). swap_pair (single_map g) e = Some p}"
    using scan_pairs_inv [OF Cons.prems] by auto
  from Cons.IH [OF *] ** show ?case
    by (auto simp: Let_def simp flip: single_map_def)
qed simp

lemma swap_pair_iff:
  assumes "distinct (im_keys (rg_mappings g))"
  shows "(\<exists>e \<in> set (single_map g). swap_pair (single_map g) e = Some (a, b)) \<longleftrightarrow>
    a < b \<and> im_get (rg_mappings g) a = Some [b] \<and> im_get (rg_mappings g) b = Some [a]"
proof -
  have d: "distinct (im_keys (single_map g))"
    unfolding single_map_def by (rule single_map_from_distinct) (simp add: im_keys_def)
  have "(\<exists>e \<in> set (single_map g). swap_pair (single_map g) e = Some (a, b)) \<longleftrightarrow>
    a < b \<and> im_get (single_map g) a = Some b \<and> im_get (single_map g) b = Some a"
  proof
    assume "\<exists>e \<in> set (single_map g). swap_pair (single_map g) e = Some (a, b)"
    then obtain t u where tu: "im_get (single_map g) t = Some u" "swap_pair (single_map g) (t, u) = Some (a, b)"
      using im_get_set [OF d] by auto
    then show "a < b \<and> im_get (single_map g) a = Some b \<and> im_get (single_map g) b = Some a"
      by (cases "t < u") (auto simp: swap_pair_def split: if_splits)
  next
    assume *: "a < b \<and> im_get (single_map g) a = Some b \<and> im_get (single_map g) b = Some a"
    then have "(a, b) \<in> set (single_map g)" using im_get_set [OF d] by auto
    moreover from * have "swap_pair (single_map g) (a, b) = Some (a, b)" by (auto simp: swap_pair_def)
    ultimately show "\<exists>e \<in> set (single_map g). swap_pair (single_map g) e = Some (a, b)" by blast
  qed
  then show ?thesis by (simp add: single_map_get [OF assms])
qed

section \<open>The findings of the whole check\<close>

lemma config_check_eq:
  "config_check c = snd (scan_circular (ac_groups c) ([],
      (if ac_groups c = [] then [NoRuleGroups] else [])
      @ (case ac_keyboards c of Some kbs \<Rightarrow> check_specs EmptyGlobalKeyboardSpecifier 0 kbs | None \<Rightarrow> [])
      @ concat (map (\<lambda>(i, g). group_findings i g) (enumerate 0 (ac_groups c)))
      @ duplicate_diagnostics (seen_triggers_of c)))"
  by (simp add: config_check_def scan_groups_eq seen_triggers_of_def Let_def)

definition circular_pairs :: "app_config \<Rightarrow> (key_event \<times> key_event) list" where
  "circular_pairs c = fst (scan_circular (ac_groups c) ([], []))"

lemma scan_pairs_fst:
  assumes "fst st = fst st'"
  shows "fst (scan_pairs sm es st) = fst (scan_pairs sm es st')"
  unfolding scan_pairs_report using assms
proof (induction es arbitrary: st st')
  case (Cons e es)
  have "fst (case swap_pair sm e of Some p \<Rightarrow> report_pair p st | None \<Rightarrow> st)
      = fst (case swap_pair sm e of Some p \<Rightarrow> report_pair p st' | None \<Rightarrow> st')"
    using Cons.prems by (cases "swap_pair sm e") (simp_all add: report_pair_def)
  from Cons.IH [OF this] show ?case by (simp only: fold_simps)
qed simp

lemma scan_circular_fst:
  assumes "fst st = fst st'"
  shows "fst (scan_circular gs st) = fst (scan_circular gs st')"
  using assms
proof (induction gs arbitrary: st st')
  case (Cons g gs)
  show ?case
    unfolding scan_circular.simps Let_def
    by (rule Cons.IH, rule scan_pairs_fst, rule Cons.prems)
qed simp

lemma config_check_parts:
  "config_check c =
      (if ac_groups c = [] then [NoRuleGroups] else [])
      @ (case ac_keyboards c of Some kbs \<Rightarrow> check_specs EmptyGlobalKeyboardSpecifier 0 kbs | None \<Rightarrow> [])
      @ concat (map (\<lambda>(i, g). group_findings i g) (enumerate 0 (ac_groups c)))
      @ duplicate_diagnostics (seen_triggers_of c)
      @ map pair_diag (circular_pairs c)"
proof -
  let ?ds = "(if ac_groups c = [] then [NoRuleGroups] else [])
      @ (case ac_keyboards c of Some kbs \<Rightarrow> check_specs EmptyGlobalKeyboardSpecifier 0 kbs | None \<Rightarrow> [])
      @ concat (map (\<lambda>(i, g). group_findings i g) (enumerate 0 (ac_groups c)))
      @ duplicate_diagnostics (seen_triggers_of c)"
  have "report_inv ?ds (scan_circular (ac_groups c) ([], ?ds))"
    by (rule scan_circular_inv [THEN conjunct1]) (simp add: report_inv_def)
  then have "snd (scan_circular (ac_groups c) ([], ?ds)) =
      ?ds @ map pair_diag (fst (scan_circular (ac_groups c) ([], ?ds)))"
    by (simp add: report_inv_def)
  moreover have "fst (scan_circular (ac_groups c) ([], ?ds)) = circular_pairs c"
    unfolding circular_pairs_def by (rule scan_circular_fst) simp
  ultimately show ?thesis unfolding config_check_eq by (simp only: append_assoc)
qed

lemma circular_pairs_distinct: "distinct (circular_pairs c)"
  using scan_circular_inv [of "[]" "([], [])" "ac_groups c"]
  by (simp add: circular_pairs_def report_inv_def)

lemma circular_pairs_set:
  assumes "config_wf c"
  shows "(a, b) \<in> set (circular_pairs c) \<longleftrightarrow>
    a < b \<and> (\<exists>g \<in> set (ac_groups c).
      im_get (rg_mappings g) a = Some [b] \<and> im_get (rg_mappings g) b = Some [a])"
  using scan_circular_inv [of "[]" "([], [])" "ac_groups c"] assms swap_pair_iff
  by (auto simp: circular_pairs_def report_inv_def config_wf_def list_all_iff)

lemma check_specs_set:
  "d \<in> set (check_specs k i specs) \<longleftrightarrow>
     (\<exists>j < length specs. d = k (i + j) \<and> spec_is_empty (specs ! j))"
  by (induction k i specs rule: check_specs.induct) (auto simp: less_Suc_eq_0_disj)

lemma check_specs_empty: "check_specs k i specs = [] \<longleftrightarrow> \<not> (\<exists>s \<in> set specs. spec_is_empty s)"
  by (induction k i specs rule: check_specs.induct) auto

text \<open>
  Duplicate triggers are reported exactly: the check reports a trigger as duplicate if and
  only if at least two rule groups define it, once, and the report lists the labels of exactly
  the groups that define it, in configuration order.
\<close>
theorem duplicate_triggers_reported:
  assumes "config_wf c"
  shows "DuplicateTrigger t ns \<in> set (config_check c) \<longleftrightarrow>
    length (defining_groups c t) > 1
    \<and> ns = join '', '' (map (\<lambda>i. group_label i (ac_groups c ! i)) (defining_groups c t))"
proof -
  have "DuplicateTrigger t ns \<notin> set (concat (map (\<lambda>(i, g). group_findings i g) (enumerate 0 (ac_groups c))))"
    by (auto simp: group_findings_def check_specs_set)
  then have "DuplicateTrigger t ns \<in> set (config_check c) \<longleftrightarrow>
      DuplicateTrigger t ns \<in> set (duplicate_diagnostics (seen_triggers_of c))"
    unfolding config_check_parts
    by (auto simp: pair_diag_def check_specs_set split: option.splits)
  then show ?thesis unfolding duplicate_in_seen [OF assms] .
qed

text \<open>A configuration with a trigger that two groups define and a circular pair.\<close>

definition sample_config :: app_config where
  "sample_config =
    \<lparr>ac_keyboards = None,
     ac_groups =
      [\<lparr>rg_name = Some ''one'', rg_apps = [], rg_keyboards = [],
        rg_mappings = [(KeyEvent [] F1, [KeyEvent [] F2]), (KeyEvent [] F2, [KeyEvent [] F1])]\<rparr>,
       \<lparr>rg_name = Some ''two'', rg_apps = [], rg_keyboards = [],
        rg_mappings = [(KeyEvent [] F1, [KeyEvent [] F3, KeyEvent [] F4])]\<rparr>]\<rparr>"

lemma sample_config_wf: "config_wf sample_config"
  by (simp add: config_wf_def sample_config_def im_keys_def)

lemma duplicate_triggers_reported_witness:
  "DuplicateTrigger (KeyEvent [] F1) ''one, two'' \<in> set (config_check sample_config)"
  unfolding duplicate_triggers_reported [OF sample_config_wf]
  by (simp add: sample_config_def defining_groups_def upt_rec mt_contains_key_def im_keys_def group_label_def)

lemma count_list_distinct: "distinct xs \<Longrightarrow> count_list xs x \<le> 1"
  by (induction xs) (auto simp: count_list_0_iff)

text \<open>
  Circular pairs are reported exactly: a pair of events is reported as circular if and only
  if some rule group maps each of the two, by single-output entries, to the other; the report
  names the smaller event first, and never twice.
\<close>
theorem circular_pairs_reported:
  assumes "config_wf c"
  shows "(CircularPair a b \<in> set (config_check c) \<longleftrightarrow>
    a < b \<and> (\<exists>g. g \<in> set (ac_groups c) \<and>
      mt_get (rg_mappings g) a = Some [b] \<and> mt_get (rg_mappings g) b = Some [a]))
    \<and> count_list (config_check c) (CircularPair a b) \<le> 1"
proof (intro conjI)
  have no: "CircularPair a b \<notin> set (concat (map (\<lambda>(i, g). group_findings i g) (enumerate 0 (ac_groups c))))"
    "CircularPair a b \<notin> set (duplicate_diagnostics (seen_triggers_of c))"
    by (auto simp: group_findings_def check_specs_set duplicate_diagnostics_set)
  have no': "CircularPair a b \<notin>
      set (case ac_keyboards c of Some kbs \<Rightarrow> check_specs EmptyGlobalKeyboardSpecifier 0 kbs | None \<Rightarrow> [])"
    by (auto simp: check_specs_set split: option.splits)
  have "CircularPair a b \<in> set (config_check c) \<longleftrightarrow> (a, b) \<in> set (circular_pairs c)"
  proof -
    have "CircularPair a b = pair_diag p \<longleftrightarrow> p = (a, b)" for p
      by (cases p) (auto simp: pair_diag_def)
    then have "CircularPair a b \<in> pair_diag ` set (circular_pairs c) \<longleftrightarrow> (a, b) \<in> set (circular_pairs c)"
      by (simp add: image_iff)
    then show ?thesis
      using no no' unfolding config_check_parts set_append set_map by auto
  qed
  then show "CircularPair a b \<in> set (config_check c) \<longleftrightarrow>
    a < b \<and> (\<exists>g. g \<in> set (ac_groups c) \<and>
      mt_get (rg_mappings g) a = Some [b] \<and> mt_get (rg_mappings g) b = Some [a])"
    by (auto simp: circular_pairs_set [OF assms] mt_get_def)
  have "count_list (config_check c) (CircularPair a b) =
      count_list (map pair_diag (circular_pairs c)) (CircularPair a b)"
    using no no' unfolding config_check_parts
    by (simp only: count_list_append) (simp add: count_notin)
  also have "\<dots> \<le> 1"
  proof -
    have "distinct (map pair_diag (circular_pairs c))"
      by (simp add: distinct_map circular_pairs_distinct inj_on_def pair_diag_def prod_eq_iff)
    then show ?thesis by (rule count_list_distinct)
  qed
  finally show "count_list (config_check c) (CircularPair a b) \<le> 1" .
qed

lemma circular_pairs_reported_witness:
  "CircularPair (KeyEvent [] F1) (KeyEvent [] F2) \<in> set (config_check sample_config)"
  unfolding circular_pairs_reported [OF sample_config_wf, THEN conjunct1]
  by (simp add: sample_config_def mt_get_def im_get_def less_key_event_def key_event_lt_def
      less_hid_usage_def hid_usage_lt_def hid_code_def hid_table_def conj_disj_distribR ex_disj_distrib)

section \<open>A clean configuration\<close>

definition clean_group :: "rule_group \<Rightarrow> bool" where
  "clean_group g \<longleftrightarrow>
     rg_mappings g \<noteq> [] \<and> \<not> list_ex spec_is_empty (rg_keyboards g)
     \<and> list_all (\<lambda>(t, os). os \<noteq> [t]) (rg_mappings g)"

lemma group_findings_empty: "group_findings i g = [] \<longleftrightarrow> clean_group g"
proof -
  have one: "length os = 1 \<and> os ! 0 = t \<longleftrightarrow> os = [t]" for os :: "key_event list" and t
    by (cases os) auto
  show ?thesis
    unfolding group_findings_def one clean_group_def mt_is_empty_def
    by (auto simp: check_specs_empty list_ex_iff list_all_iff split: if_splits)
qed

lemma duplicate_diagnostics_empty:
  assumes "config_wf c"
  shows "duplicate_diagnostics (seen_triggers_of c) = [] \<longleftrightarrow>
    \<not> (\<exists>t. length (defining_groups c t) > 1)"
proof -
  have "duplicate_diagnostics (seen_triggers_of c) = [] \<longleftrightarrow>
      \<not> (\<exists>t ns. DuplicateTrigger t ns \<in> set (duplicate_diagnostics (seen_triggers_of c)))"
    using duplicate_diagnostics_set [of _ "seen_triggers_of c"]
    by (cases "duplicate_diagnostics (seen_triggers_of c)") (auto, metis list.set_intros(1))
  then show ?thesis by (simp add: duplicate_in_seen [OF assms])
qed

text \<open>
  The check passes exactly the clean configurations: it reports nothing if and only if there
  is a rule group, no keyboard specifier (global or of a group) is empty, every group has
  mappings and none maps an event to itself alone, no two groups define the same trigger, and no
  group maps two different events to each other.
\<close>
theorem config_check_clean:
  assumes "config_wf c"
  shows "config_check c = [] \<longleftrightarrow>
    ac_groups c \<noteq> []
    \<and> \<not> list_ex spec_is_empty (case ac_keyboards c of Some kbs \<Rightarrow> kbs | None \<Rightarrow> [])
    \<and> list_all clean_group (ac_groups c)
    \<and> \<not> (\<exists>t. length (defining_groups c t) > 1)
    \<and> \<not> (\<exists>g a b. g \<in> set (ac_groups c) \<and> a \<noteq> b
          \<and> mt_get (rg_mappings g) a = Some [b] \<and> mt_get (rg_mappings g) b = Some [a])"
proof -
  have "(case ac_keyboards c of Some kbs \<Rightarrow> check_specs EmptyGlobalKeyboardSpecifier 0 kbs | None \<Rightarrow> []) = []
      \<longleftrightarrow> \<not> list_ex spec_is_empty (case ac_keyboards c of Some kbs \<Rightarrow> kbs | None \<Rightarrow> [])"
    by (auto simp: check_specs_empty list_ex_iff split: option.splits)
  moreover have "concat (map (\<lambda>(i, g). group_findings i g) (enumerate 0 (ac_groups c))) = []
      \<longleftrightarrow> list_all clean_group (ac_groups c)"
  proof -
    have "(\<forall>p \<in> set (enumerate 0 gs). (\<lambda>(i, g). group_findings i g) p = []) \<longleftrightarrow>
        (\<forall>g \<in> snd ` set (enumerate 0 gs). clean_group g)" for gs
      by (auto simp: group_findings_empty)
    moreover have "snd ` set (enumerate 0 gs) = set gs" for gs :: "rule_group list"
      by (metis map_snd_enumerate set_map)
    ultimately show ?thesis by (simp add: list_all_iff)
  qed
  moreover have "circular_pairs c = [] \<longleftrightarrow> \<not> (\<exists>g a b. g \<in> set (ac_groups c) \<and> a \<noteq> b
      \<and> mt_get (rg_mappings g) a = Some [b] \<and> mt_get (rg_mappings g) b = Some [a])"
    (is "_ \<longleftrightarrow> \<not> ?R")
  proof -
    have "circular_pairs c \<noteq> [] \<longleftrightarrow> (\<exists>a b. (a, b) \<in> set (circular_pairs c))"
      by (metis list.set_intros(1) list.set_cases surj_pair empty_iff empty_set neq_Nil_conv)
    also have "\<dots> \<longleftrightarrow> ?R"
      unfolding circular_pairs_set [OF assms] mt_get_def by (metis neq_iff)
    finally show ?thesis by blast
  qed
  ultimately show ?thesis
    unfolding config_check_parts
    by (simp add: duplicate_diagnostics_empty [OF assms])
qed

lemma config_check_clean_witness:
  "config_check \<lparr>ac_keyboards = None,
     ac_groups = [\<lparr>rg_name = None, rg_apps = [], rg_keyboards = [],
        rg_mappings = [(KeyEvent [] F1, [KeyEvent [] F2])]\<rparr>]\<rparr> = []"
  by (subst config_check_clean)
    (auto simp: config_wf_def im_keys_def clean_group_def defining_groups_def mt_get_def im_get_def)

section \<open>The textual form of a mapping table\<close>

definition short_event :: "key_event \<Rightarrow> bool" where
  "short_event e \<longleftrightarrow> length (ke_modifiers e) \<le> 8"

definition mt_printable :: "mapping_table \<Rightarrow> bool" where
  "mt_printable m \<longleftrightarrow> distinct (im_keys m)
     \<and> list_all (\<lambda>(t, os). short_event t \<and> list_all short_event os) m"

lemma ke_parse_display: "short_event e \<Longrightarrow> ke_parse (ke_display e) = Inr e"
  using ke_parse_display_len [of e] by (simp add: short_event_def)

lemma output_events_serialized:
  assumes "list_all short_event os"
  shows "output_events (if length os = 1 then OutStr (ke_display (os ! 0))
           else OutSeq (map ke_display os)) = Inr os"
  using assms try_map_map_Inr [of os ke_parse ke_display "\<lambda>x. x"]
  by (auto simp: output_events_def length_Suc_conv ke_parse_display list_all_iff)

lemma mt_visit_serialized:
  assumes "list_all (\<lambda>(t, os). short_event t \<and> list_all short_event os) m"
    and "distinct (im_keys (m0 @ m))"
  shows "mt_visit_entries (mt_serialize m) m0 = Inr (m0 @ m)"
  using assms
proof (induction m arbitrary: m0)
  case (Cons e m)
  obtain t os where e: "e = (t, os)" by force
  have new: "im_insert t os m0 = m0 @ [(t, os)]"
    using Cons.prems(2) by (intro im_insert_new) (auto simp: e im_keys_def)
  show ?case
    using Cons.prems Cons.IH [of "m0 @ [(t, os)]"]
    by (simp add: mt_serialize_def e output_events_serialized [simplified] ke_parse_display new del: length_0_conv)
qed (simp add: mt_serialize_def)

text \<open>
  A mapping table survives the trip through its serialized form: reading back the entries
  \<open>Serialize\<close> writes (a single output as a string, several as a sequence) gives the table itself,
  order included, when its triggers are distinct and its events have at most eight modifiers.
\<close>
theorem mapping_table_round_trip:
  assumes "mt_printable m"
  shows "mt_visit_map (mt_serialize m) = Inr m"
  using assms mt_visit_serialized [of m "[]"] by (simp add: mt_visit_map_def mt_printable_def)

lemma mapping_table_round_trip_witness:
  "mt_visit_map (mt_serialize [(KeyEvent [LeftControl] F1, [KeyEvent [] F2, KeyEvent [] F3]),
      (KeyEvent [] F4, [KeyEvent [LeftShift] F1])])
   = Inr [(KeyEvent [LeftControl] F1, [KeyEvent [] F2, KeyEvent [] F3]),
      (KeyEvent [] F4, [KeyEvent [LeftShift] F1])]"
  by (rule mapping_table_round_trip) (simp add: mt_printable_def short_event_def im_keys_def)

end
