(* ===== verification/Mapping_Cache.thy ===== *)
theory Mapping_Cache
  imports Config
begin

text \<open>
  \<open>src/keymap_core/mapping_cache.rs\<close>: compiling a configuration into the rule lists the
  decision engine looks keys up in. \<open>compile_groups\<close> is the body of
  \<open>compile_from_config\<close>, loop by loop; the lemmas describe the compiled lists as one list per
  scope in configuration order, and the lookup over them as a first-match search of the
  configuration itself. Unicode lower-casing is the parameter \<open>uni\<close> of
  \<open>str_to_lowercase\<close>; reading and parsing the file are parameters of \<open>compile_from_path\<close>.
\<close>

record native_key =
  nk_modifiers :: u8
  nk_usage :: hid_usage

record compiled_rule =
  cr_usage :: hid_usage
  cr_modifiers :: u8
  cr_outputs :: "native_key list"
  cr_keyboards :: "keyboard_specifier list option"

record runtime_lookup_cache =
  rlc_process_rules :: "(string, compiled_rule list) index_map"
  rlc_global_rules :: "compiled_rule list"
  rlc_global_keyboards :: "keyboard_specifier list option"

definition process_rules ::
  "(string \<Rightarrow> string) \<Rightarrow> runtime_lookup_cache \<Rightarrow> string \<Rightarrow> compiled_rule list option" where
  "process_rules uni cache app = im_get (rlc_process_rules cache) (str_to_lowercase uni app)"

definition global_rules :: "runtime_lookup_cache \<Rightarrow> compiled_rule list" where
  "global_rules cache = rlc_global_rules cache"

definition global_keyboards :: "runtime_lookup_cache \<Rightarrow> keyboard_specifier list option" where
  "global_keyboards cache = rlc_global_keyboards cache"

section \<open>Compiling modifiers and outputs\<close>

fun compile_modifier_bits_from :: "hid_usage list \<Rightarrow> u8 \<Rightarrow> u8" where
  "compile_modifier_bits_from [] bits = bits"
| "compile_modifier_bits_from (usage # us) bits =
     compile_modifier_bits_from us
       (case hid_usage_to_modifier_bit usage of Some b \<Rightarrow> bits OR bit_mask b | None \<Rightarrow> bits)"

definition compile_modifier_bits :: "hid_usage list \<Rightarrow> u8" where
  "compile_modifier_bits modifiers = compile_modifier_bits_from modifiers 0"

definition compile_outputs :: "key_event list \<Rightarrow> native_key list" where
  "compile_outputs events =
     map (\<lambda>event. \<lparr>nk_modifiers = compile_modifier_bits (ke_modifiers event),
                   nk_usage = ke_base event\<rparr>) events"

definition modifier_choice :: "hid_usage \<Rightarrow> u8 list" where
  "modifier_choice usage =
     (case hid_usage_to_modifier_bit usage of
        Some b \<Rightarrow> (if b \<le> 3 then [b, b + 4] else [b])
      | None \<Rightarrow> [0])"

text \<open>The loop over the choices; a \<open>HashSet<u8>\<close> is the set of its elements.\<close>

fun expand_choices :: "u8 list list \<Rightarrow> u8 set \<Rightarrow> u8 set" where
  "expand_choices [] results = results"
| "expand_choices (choice # choices) results =
     expand_choices choices (\<Union>acc \<in> results. (\<lambda>b. acc OR bit_mask b) ` set choice)"

definition expand_modifier_bits :: "hid_usage list \<Rightarrow> u8 list" where
  "expand_modifier_bits modifiers =
     (if modifiers = [] then [0]
      else sorted_list_of_set (expand_choices (map modifier_choice modifiers) {0}))"

section \<open>Compiling a configuration\<close>

fun push_apps ::
  "(string \<Rightarrow> string) \<Rightarrow> compiled_rule \<Rightarrow> string list
    \<Rightarrow> (string, compiled_rule list) index_map \<Rightarrow> (string, compiled_rule list) index_map" where
  "push_apps uni rule [] pr = pr"
| "push_apps uni rule (app # apps) pr =
     push_apps uni rule apps (im_push (str_to_lowercase uni app) rule pr)"

type_synonym rule_lists = "(string, compiled_rule list) index_map \<times> compiled_rule list"

fun compile_variants ::
  "(string \<Rightarrow> string) \<Rightarrow> rule_group \<Rightarrow> keyboard_specifier list option \<Rightarrow> key_event
    \<Rightarrow> native_key list \<Rightarrow> u8 list \<Rightarrow> rule_lists \<Rightarrow> rule_lists" where
  "compile_variants uni grp kbs trigger native_outputs [] rl = rl"
| "compile_variants uni grp kbs trigger native_outputs (mod_bits # variants) (pr, gr) =
     (let rule = \<lparr>cr_usage = ke_base trigger, cr_modifiers = mod_bits,
                  cr_outputs = native_outputs, cr_keyboards = kbs\<rparr>
      in compile_variants uni grp kbs trigger native_outputs variants
           (if rg_apps grp = [] then (pr, gr @ [rule])
            else (push_apps uni rule (rg_apps grp) pr, gr)))"

fun compile_mappings ::
  "(string \<Rightarrow> string) \<Rightarrow> rule_group \<Rightarrow> keyboard_specifier list option \<Rightarrow> mapping_table
    \<Rightarrow> rule_lists \<Rightarrow> rule_lists" where
  "compile_mappings uni grp kbs [] rl = rl"
| "compile_mappings uni grp kbs ((trigger, outputs) # ms) rl =
     compile_mappings uni grp kbs ms
       (compile_variants uni grp kbs trigger (compile_outputs outputs)
          (expand_modifier_bits (ke_modifiers trigger)) rl)"

definition group_keyboards :: "rule_group \<Rightarrow> keyboard_specifier list option" where
  "group_keyboards grp = (if rg_keyboards grp = [] then None else Some (rg_keyboards grp))"

fun compile_groups :: "(string \<Rightarrow> string) \<Rightarrow> rule_group list \<Rightarrow> rule_lists \<Rightarrow> rule_lists" where
  "compile_groups uni [] rl = rl"
| "compile_groups uni (grp # groups) rl =
     (if mt_is_empty (rg_mappings grp) then compile_groups uni groups rl
      else compile_groups uni groups
        (compile_mappings uni grp (group_keyboards grp) (rg_mappings grp) rl))"

definition compile_from_config :: "(string \<Rightarrow> string) \<Rightarrow> app_config \<Rightarrow> runtime_lookup_cache" where
  "compile_from_config uni app_config =
     (let gks = (case ac_keyboards app_config of
             Some kbs \<Rightarrow> if kbs \<noteq> [] then Some kbs else None | None \<Rightarrow> None);
          (pr, gr) = compile_groups uni (ac_groups app_config) ([], [])
      in \<lparr>rlc_process_rules = pr, rlc_global_rules = gr, rlc_global_keyboards = gks\<rparr>)"

datatype ('r, 'p) compile_error = ReadError 'r | ParseError 'p

text \<open>The result of \<open>compile_from_str\<close> comes with the diagnostics it logs.\<close>

definition compile_from_str ::
  "(string \<Rightarrow> string) \<Rightarrow> (string \<Rightarrow> 'p + app_config) \<Rightarrow> string
    \<Rightarrow> config_diagnostic list \<times> (('r, 'p) compile_error + runtime_lookup_cache)" where
  "compile_from_str uni load_from_str content =
     (case load_from_str content of
        Inl e \<Rightarrow> ([], Inl (ParseError e))
      | Inr parsed \<Rightarrow> (config_check parsed, Inr (compile_from_config uni parsed)))"

definition compile_from_path ::
  "(string \<Rightarrow> string) \<Rightarrow> ('path \<Rightarrow> 'r + string) \<Rightarrow> (string \<Rightarrow> 'p + app_config) \<Rightarrow> 'path
    \<Rightarrow> config_diagnostic list \<times> (('r, 'p) compile_error + runtime_lookup_cache)" where
  "compile_from_path uni read_config_content load_from_str path =
     (case read_config_content path of
        Inl e \<Rightarrow> ([], Inl (ReadError e))
      | Inr content \<Rightarrow> compile_from_str uni load_from_str content)"

section \<open>What an expansion contains\<close>

lemma compile_modifier_bits_from_or:
  "compile_modifier_bits_from us bits = bits OR or_list (map usage_mask us)"
  by (induction us arbitrary: bits) (simp_all add: usage_mask_def or.assoc split: option.split)

lemma compile_modifier_bits_or: "compile_modifier_bits us = or_list (map usage_mask us)"
  by (simp add: compile_modifier_bits_def compile_modifier_bits_from_or)

text \<open>A mask picks one choice per modifier.\<close>

definition picks :: "u8 list list \<Rightarrow> u8 \<Rightarrow> bool" where
  "picks choices msk \<longleftrightarrow>
     (\<exists>bs. list_all2 (\<lambda>b choice. b \<in> set choice) bs choices \<and> msk = or_list (map bit_mask bs))"

lemma picks_Nil: "picks [] msk \<longleftrightarrow> msk = 0"
  by (simp add: picks_def)

lemma picks_Cons:
  "picks (choice # choices) msk \<longleftrightarrow>
     (\<exists>b \<in> set choice. \<exists>m. picks choices m \<and> msk = bit_mask b OR m)"
  by (fastforce simp: picks_def list_all2_Cons2)

lemma expand_choices_picks:
  "x \<in> expand_choices choices results \<longleftrightarrow> (\<exists>acc \<in> results. \<exists>m. picks choices m \<and> x = acc OR m)"
proof (induction choices arbitrary: results)
  case (Cons choice choices)
  have "x \<in> expand_choices (choice # choices) results \<longleftrightarrow>
      (\<exists>acc \<in> results. \<exists>b \<in> set choice. \<exists>m. picks choices m \<and> x = (acc OR bit_mask b) OR m)"
    by (simp add: Cons.IH)
  also have "\<dots> \<longleftrightarrow> (\<exists>acc \<in> results. \<exists>m. picks (choice # choices) m \<and> x = acc OR m)"
    unfolding picks_Cons or.assoc by blast
  finally show ?case .
qed (simp add: picks_Nil)

lemma expand_modifier_bits_set:
  "msk \<in> set (expand_modifier_bits us) \<longleftrightarrow> picks (map modifier_choice us) msk"
  by (simp add: expand_modifier_bits_def expand_choices_picks picks_Nil)

lemma expand_modifier_bits_sorted:
  "sorted (expand_modifier_bits us)" "distinct (expand_modifier_bits us)"
  by (simp_all add: expand_modifier_bits_def)

lemma modifier_choice_nonempty [simp]: "modifier_choice u \<noteq> []"
  by (simp add: modifier_choice_def split: option.split)

lemma picks_exists: "(\<And>c. c \<in> set choices \<Longrightarrow> c \<noteq> []) \<Longrightarrow> \<exists>m. picks choices m"
proof (induction choices)
  case (Cons c cs)
  then obtain m where "picks cs m" by auto
  moreover from Cons.prems have "hd c \<in> set c" by simp
  ultimately show ?case unfolding picks_Cons by blast
qed (auto simp: picks_Nil)

lemma expand_modifier_bits_nonempty: "expand_modifier_bits us \<noteq> []"
proof -
  obtain m where "picks (map modifier_choice us) m" 
    using picks_exists [of "map modifier_choice us"] by (metis imageE list.set_map modifier_choice_nonempty)
  then show ?thesis using expand_modifier_bits_set [of m us] by auto
qed

lemma expand_modifier_bits_length: "length (expand_modifier_bits us) \<le> 256"
proof -
  have "length (expand_modifier_bits us) = card (set (expand_modifier_bits us))"
    by (simp add: distinct_card expand_modifier_bits_sorted)
  also have "\<dots> \<le> card (UNIV :: u8 set)" by (rule card_mono) simp_all
  finally show ?thesis by (simp add: card_word)
qed

section \<open>The compiled lists in configuration order\<close>

definition mapping_rules :: "rule_group \<Rightarrow> key_event \<times> key_event list \<Rightarrow> compiled_rule list" where
  "mapping_rules grp m =
     map (\<lambda>mod_bits. \<lparr>cr_usage = ke_base (fst m), cr_modifiers = mod_bits,
            cr_outputs = compile_outputs (snd m), cr_keyboards = group_keyboards grp\<rparr>)
       (expand_modifier_bits (ke_modifiers (fst m)))"

definition group_rules :: "rule_group \<Rightarrow> compiled_rule list" where
  "group_rules grp = concat (map (mapping_rules grp) (rg_mappings grp))"

definition app_pushes :: "(string \<Rightarrow> string) \<Rightarrow> rule_group \<Rightarrow> (string \<times> compiled_rule) list" where
  "app_pushes uni grp =
     concat (map (\<lambda>rule. map (\<lambda>app. (str_to_lowercase uni app, rule)) (rg_apps grp)) (group_rules grp))"

abbreviation pushes :: "('k \<times> 'x) list \<Rightarrow> ('k, 'x list) index_map \<Rightarrow> ('k, 'x list) index_map" where
  "pushes ps m \<equiv> fold (\<lambda>(k, x). im_push k x) ps m"

definition global_part :: "rule_group \<Rightarrow> compiled_rule list \<Rightarrow> compiled_rule list" where
  "global_part grp rules = (if rg_apps grp = [] then rules else [])"

lemma push_apps_pushes:
  "push_apps uni rule apps pr = pushes (map (\<lambda>app. (str_to_lowercase uni app, rule)) apps) pr"
  by (induction apps arbitrary: pr) simp_all

lemma compile_variants_eq:
  "compile_variants uni grp kbs t nat_os variants (pr, gr) =
    (let rules = map (\<lambda>b. \<lparr>cr_usage = ke_base t, cr_modifiers = b, cr_outputs = nat_os, cr_keyboards = kbs\<rparr>) variants
     in (pushes (concat (map (\<lambda>rule. map (\<lambda>app. (str_to_lowercase uni app, rule)) (rg_apps grp)) rules)) pr,
         gr @ global_part grp rules))"
proof (induction variants arbitrary: pr gr)
  case (Cons b variants)
  then show ?case
    by (cases "rg_apps grp = []")
      (simp_all add: Let_def push_apps_pushes global_part_def del: push_apps.simps)
qed (simp add: global_part_def)

lemma compile_mappings_eq:
  "compile_mappings uni grp (group_keyboards grp) ms (pr, gr) =
    (let rules = concat (map (mapping_rules grp) ms)
     in (pushes (concat (map (\<lambda>rule. map (\<lambda>app. (str_to_lowercase uni app, rule)) (rg_apps grp)) rules)) pr,
         gr @ global_part grp rules))"
proof (induction ms arbitrary: pr gr)
  case (Cons m ms)
  obtain t os where m: "m = (t, os)" by force
  show ?case
    by (simp add: m Let_def compile_variants_eq Cons.IH mapping_rules_def global_part_def)
qed (simp add: global_part_def)

lemma compile_groups_eq:
  "compile_groups uni groups (pr, gr) =
    (pushes (concat (map (app_pushes uni) groups)) pr,
     gr @ concat (map (\<lambda>grp. global_part grp (group_rules grp)) groups))"
proof (induction groups arbitrary: pr gr)
  case (Cons grp groups)
  then show ?case
    by (cases "rg_mappings grp = []")
      (simp_all add: mt_is_empty_def compile_mappings_eq Let_def app_pushes_def group_rules_def global_part_def)
qed simp

lemma compiled_global_rules:
  "global_rules (compile_from_config uni c) =
     concat (map (\<lambda>grp. global_part grp (group_rules grp)) (ac_groups c))"
  by (simp add: global_rules_def compile_from_config_def compile_groups_eq)

lemma compiled_process_rules:
  "process_rules uni (compile_from_config uni c) app =
    (let rules = map snd (filter (\<lambda>p. fst p = str_to_lowercase uni app)
           (concat (map (app_pushes uni) (ac_groups c))))
     in if rules = [] then None else Some rules)"
  by (simp add: process_rules_def compile_from_config_def compile_groups_eq imp.get_pushes)

lemma compiled_global_keyboards:
  "global_keyboards (compile_from_config uni c) =
    (if ac_keyboards c = Some [] then None else ac_keyboards c)"
  by (simp add: global_keyboards_def compile_from_config_def compile_groups_eq split: option.split)

section \<open>The sides a modifier of a trigger accepts\<close>

text \<open>A left modifier accepts either side, a right one its own; any other key the bit 0.\<close>

primrec role_sides :: "modifier_role \<Rightarrow> modifier_role set" where
  "role_sides RoleLeftControl = {RoleLeftControl, RoleRightControl}"
| "role_sides RoleLeftShift = {RoleLeftShift, RoleRightShift}"
| "role_sides RoleLeftAlt = {RoleLeftAlt, RoleRightAlt}"
| "role_sides RoleLeftCommand = {RoleLeftCommand, RoleRightCommand}"
| "role_sides RoleRightControl = {RoleRightControl}"
| "role_sides RoleRightShift = {RoleRightShift}"
| "role_sides RoleRightAlt = {RoleRightAlt}"
| "role_sides RoleRightCommand = {RoleRightCommand}"

definition accepted_roles :: "hid_usage \<Rightarrow> modifier_role set" where
  "accepted_roles u = (case usage_role u of Some r \<Rightarrow> role_sides r | None \<Rightarrow> {RoleLeftControl})"

lemma modifier_choice_roles: "set (modifier_choice u) = role_bit ` accepted_roles u"
proof (cases "usage_role u")
  case (Some r)
  then show ?thesis
    by (cases r) (auto simp: modifier_choice_def accepted_roles_def modifier_bit_role)
qed (simp add: modifier_choice_def accepted_roles_def modifier_bit_role)

lemma picks_roles:
  "picks (map modifier_choice us) m \<longleftrightarrow>
     (\<exists>rs. list_all2 (\<lambda>r u. r \<in> accepted_roles u) rs us
        \<and> bits_of m = (\<lambda>r. unat (role_bit r)) ` set rs)"
proof -
  have or_bits: "bits_of (or_list (map (\<lambda>r. bit_mask (role_bit r)) rs)) = (\<lambda>r. unat (role_bit r)) ` set rs"
    for rs by (auto simp: bits_of_or_list bits_of_bit_mask)
  have "picks (map modifier_choice us) m \<longleftrightarrow>
     (\<exists>rs. list_all2 (\<lambda>r u. r \<in> accepted_roles u) rs us
        \<and> m = or_list (map (\<lambda>r. bit_mask (role_bit r)) rs))"
  proof (induction us arbitrary: m)
    case (Cons u us)
    show ?case
      by (simp only: list.map picks_Cons modifier_choice_roles Cons.IH list_all2_Cons2) force
  qed (simp add: picks_Nil)
  then show ?thesis by (simp flip: or_bits add: bits_of_inject)
qed

text \<open>
  C11. Modifier expansion. The variants of a trigger's modifier list are exactly the masks whose
  set of bits consists of one accepted side per listed modifier (a left modifier accepts either
  side, a right one only its own, a key that is no modifier counts as left control); they are
  listed in ascending order without repetition, at least one and at most 256.
\<close>
theorem modifier_expansion:
  "(m \<in> set (expand_modifier_bits us)) =
     (\<exists>rs. list_all2 (\<lambda>r u. r \<in> accepted_roles u) rs us
        \<and> bits_of m = (\<lambda>r. unat (role_bit r)) ` set rs)
   \<and> sorted (expand_modifier_bits us) \<and> distinct (expand_modifier_bits us)
   \<and> 1 \<le> length (expand_modifier_bits us) \<and> length (expand_modifier_bits us) \<le> 256"
  using expand_modifier_bits_nonempty [of us]
  by (simp add: expand_modifier_bits_set picks_roles expand_modifier_bits_sorted
      expand_modifier_bits_length Suc_le_eq)

section \<open>Lookup in the compiled lists\<close>

text \<open>\<open>find_match\<close> of \<open>src/keymap_core/lookup.rs\<close>: the first rule that matches exactly.\<close>

definition find_match ::
  "compiled_rule list \<Rightarrow> hid_usage \<Rightarrow> u8 \<Rightarrow> (keyboard_specifier list option \<Rightarrow> bool)
    \<Rightarrow> native_key list option" where
  "find_match rules usage modifiers check_keyboard =
     find_map (\<lambda>rule.
       if cr_usage rule = usage \<and> cr_modifiers rule = modifiers \<and> check_keyboard (cr_keyboards rule)
       then Some (cr_outputs rule) else None) rules"

text \<open>The specification: the first mapping of the configuration, in definition order, whose
  group is in scope and accepts the keyboard, and whose trigger accepts key and mask.\<close>

definition trigger_accepts :: "key_event \<Rightarrow> hid_usage \<Rightarrow> u8 \<Rightarrow> bool" where
  "trigger_accepts t usage m \<longleftrightarrow> ke_base t = usage \<and> m \<in> set (expand_modifier_bits (ke_modifiers t))"

definition config_lookup ::
  "app_config \<Rightarrow> (rule_group \<Rightarrow> bool) \<Rightarrow> (keyboard_specifier list option \<Rightarrow> bool)
    \<Rightarrow> hid_usage \<Rightarrow> u8 \<Rightarrow> native_key list option" where
  "config_lookup c in_scope check usage m =
     find_map (\<lambda>g. if in_scope g \<and> check (group_keyboards g)
         then find_map (\<lambda>(t, os). if trigger_accepts t usage m then Some (compile_outputs os) else None)
                (rg_mappings g)
         else None) (ac_groups c)"

definition group_in_app :: "(string \<Rightarrow> string) \<Rightarrow> string \<Rightarrow> rule_group \<Rightarrow> bool" where
  "group_in_app uni app g \<longleftrightarrow> str_to_lowercase uni app \<in> str_to_lowercase uni ` set (rg_apps g)"

definition group_is_global :: "rule_group \<Rightarrow> bool" where
  "group_is_global g \<longleftrightarrow> rg_apps g = []"

lemma find_match_mapping_rules:
  "find_match (mapping_rules g (t, os)) usage m check =
     (if check (group_keyboards g) \<and> trigger_accepts t usage m then Some (compile_outputs os) else None)"
proof -
  have "find_match (map (\<lambda>b. \<lparr>cr_usage = ke_base t, cr_modifiers = b, cr_outputs = os',
            cr_keyboards = kbs\<rparr>) bs) usage m check =
      (if check kbs \<and> ke_base t = usage \<and> m \<in> set bs then Some os' else None)" for bs os' kbs
    by (induction bs) (auto simp: find_match_def)
  then show ?thesis by (simp add: mapping_rules_def trigger_accepts_def)
qed

lemma find_match_concat_map:
  "find_match (concat (map f xs)) usage m check = find_map (\<lambda>x. find_match (f x) usage m check) xs"
  by (simp add: find_match_def find_map_concat_map)

lemma find_match_group_rules:
  "find_match (group_rules g) usage m check =
     (if check (group_keyboards g)
      then find_map (\<lambda>(t, os). if trigger_accepts t usage m then Some (compile_outputs os) else None)
             (rg_mappings g)
      else None)"
  unfolding group_rules_def find_match_concat_map
  by (induction "rg_mappings g" arbitrary: g rule: list.induct)
    (auto simp: find_match_mapping_rules find_map_None_iff intro!: find_map_cong)

lemma find_match_Nil [simp]: "find_match [] usage m check = None"
  by (simp add: find_match_def)

lemma find_match_append:
  "find_match (xs @ ys) usage m check =
     (case find_match xs usage m check of Some y \<Rightarrow> Some y | None \<Rightarrow> find_match ys usage m check)"
  unfolding find_match_def by (rule find_map_append)

lemma find_match_copies:
  "find_match (map snd (filter (\<lambda>p. fst p = k) (map (\<lambda>app. (lc app, rule)) apps))) usage m check =
     (if k \<in> lc ` set apps then find_match [rule] usage m check else None)"
  by (induction apps) (auto simp: find_match_def)

lemma find_match_pushed:
  "find_match (map snd (filter (\<lambda>p. fst p = k)
       (concat (map (\<lambda>rule. map (\<lambda>app. (lc app, rule)) apps) rules)))) usage m check =
     (if k \<in> lc ` set apps then find_match rules usage m check else None)"
proof (induction rules)
  case (Cons rule rules)
  show ?case
    using find_match_append [of "[rule]" rules usage m check]
    by (simp add: find_match_append find_match_copies Cons.IH split: option.split)
qed simp

lemma find_match_app_rules:
  "find_match (map snd (filter (\<lambda>p. fst p = str_to_lowercase uni app)
       (concat (map (app_pushes uni) groups)))) usage m check =
   find_map (\<lambda>g. if group_in_app uni app g then find_match (group_rules g) usage m check else None) groups"
proof (induction groups)
  case (Cons g groups)
  have "find_match (map snd (filter (\<lambda>p. fst p = str_to_lowercase uni app) (app_pushes uni g))) usage m check
      = (if group_in_app uni app g then find_match (group_rules g) usage m check else None)"
    unfolding app_pushes_def find_match_pushed group_in_app_def by (rule refl)
  then show ?case
    unfolding list.map concat.simps filter_append map_append find_match_append Cons.IH find_map.simps
    by simp
qed simp

lemma compiled_refines:
  "find_match (global_rules (compile_from_config uni c)) usage m check =
     config_lookup c group_is_global check usage m
   \<and> (case process_rules uni (compile_from_config uni c) app of
        Some rules \<Rightarrow> find_match rules usage m check | None \<Rightarrow> None) =
     config_lookup c (group_in_app uni app) check usage m
   \<and> global_keyboards (compile_from_config uni c) =
     (if ac_keyboards c = Some [] then None else ac_keyboards c)"
proof (intro conjI)
  show "find_match (global_rules (compile_from_config uni c)) usage m check =
     config_lookup c group_is_global check usage m"
    unfolding compiled_global_rules config_lookup_def find_match_concat_map
    by (rule find_map_cong [OF refl])
      (simp add: global_part_def group_is_global_def find_match_group_rules)
  have "(case process_rules uni (compile_from_config uni c) app of
        Some rules \<Rightarrow> find_match rules usage m check | None \<Rightarrow> None) =
     find_match (map snd (filter (\<lambda>p. fst p = str_to_lowercase uni app)
       (concat (map (app_pushes uni) (ac_groups c))))) usage m check"
    unfolding compiled_process_rules Let_def by (simp add: filter_empty_conv)
  also have "\<dots> = config_lookup c (group_in_app uni app) check usage m"
    unfolding find_match_app_rules config_lookup_def
    by (rule find_map_cong [OF refl]) (simp add: find_match_group_rules)
  finally show "(case process_rules uni (compile_from_config uni c) app of
        Some rules \<Rightarrow> find_match rules usage m check | None \<Rightarrow> None) =
     config_lookup c (group_in_app uni app) check usage m" .
qed (rule compiled_global_keyboards)

text \<open>
  C10. The compiled cache refines the configuration. Looking a key up in the global rules of the
  cache compiled from a configuration, or in the rules it holds for an application, gives the
  outputs of the first mapping in definition order whose group is global, respectively names
  the application (letter case aside), accepts the keyboard, and whose trigger accepts the key
  with the held modifiers; the global keyboard filter is the configured one, an empty list
  counting as none.
\<close>
theorem compiled_lookup_refines:
  "find_match (global_rules (compile_from_config uni c)) usage m check =
     config_lookup c group_is_global check usage m
   \<and> (case process_rules uni (compile_from_config uni c) app of
        Some rules \<Rightarrow> find_match rules usage m check | None \<Rightarrow> None) =
     config_lookup c (group_in_app uni app) check usage m
   \<and> global_keyboards (compile_from_config uni c) =
     (if ac_keyboards c = Some [] then None else ac_keyboards c)"
  using compiled_refines [of uni c usage m check app] compiled_global_keyboards [of uni c] by simp

text \<open>Where a match comes from: a rule of the list, and the rules before it do not match.\<close>

lemma find_match_SomeD:
  "find_match rules usage m check = Some os \<Longrightarrow>
     \<exists>rule \<in> set rules. cr_usage rule = usage \<and> cr_modifiers rule = m
       \<and> check (cr_keyboards rule) \<and> cr_outputs rule = os"
  by (auto simp: find_match_def dest!: find_map_SomeD split: if_splits)

end
