(* ===== verification/Ttl_Cache.thy ===== *)
theory Ttl_Cache
  imports Prelude
begin

text \<open>
  \<open>src/common/ttl_value.rs\<close>: a cached value with a time-to-live and single-flight refresh, and
  \<open>src/daemon/focus.rs\<close>, its use for the focused application. \<open>get_with\<close> is the code as one
  caller runs it; \<open>ttl_step\<close> is the same code cut at its lock operations, so that any number
  of callers interleave. Time is a count of ticks of the monotonic clock.
\<close>

section \<open>One caller\<close>

record 'v ttl_value =
  tv_ttl :: nat
  te_value :: 'v
  te_expires_at :: nat

definition ttl_new :: "nat \<Rightarrow> nat \<Rightarrow> 'v \<Rightarrow> 'v ttl_value" where
  "ttl_new now ttl initial = \<lparr>tv_ttl = ttl, te_value = initial, te_expires_at = now + ttl\<rparr>"

text \<open>
  \<open>get_with\<close> when no other caller refreshes: \<open>now\<close> is the clock at the freshness test,
  \<open>later\<close> the clock when the result of the source is published. The last component says
  whether the source ran.
\<close>

definition get_with :: "nat \<Rightarrow> nat \<Rightarrow> 'v \<Rightarrow> 'v ttl_value \<Rightarrow> 'v \<times> 'v ttl_value \<times> bool" where
  "get_with now later source_value tv =
     (if now < te_expires_at tv then (te_value tv, tv, False)
      else (source_value,
            tv\<lparr>te_value := source_value, te_expires_at := later + tv_ttl tv\<rparr>, True))"

lemma get_with_fresh [simp]: "now < te_expires_at tv \<Longrightarrow> get_with now later v tv = (te_value tv, tv, False)"
  by (simp add: get_with_def)

lemma get_with_stale [simp]:
  "\<not> now < te_expires_at tv \<Longrightarrow>
   get_with now later v tv = (v, tv\<lparr>te_value := v, te_expires_at := later + tv_ttl tv\<rparr>, True)"
  by (simp add: get_with_def)

definition ACTIVE_APP_TTL :: nat where "ACTIVE_APP_TTL = 100"

type_synonym focus_tracker = "string ttl_value"

definition focus_new :: "nat \<Rightarrow> focus_tracker" where
  "focus_new now = ttl_new now ACTIVE_APP_TTL ''unknown''"

definition focus_get :: "nat \<Rightarrow> nat \<Rightarrow> string \<Rightarrow> focus_tracker \<Rightarrow> string \<times> focus_tracker" where
  "focus_get now later source_value ft =
     (let (v, ft', _) = get_with now later source_value ft in (v, ft'))"

section \<open>Any number of callers\<close>

text \<open>Where a caller is: between two lock operations, inside the source, or back.\<close>

datatype 'v caller =
    Idle
  | FoundStale
  | SlotTaken
  | InSource
  | Publishing 'v
  | Releasing 'v
  | Returned 'v
  | Panicked

record 'v ttl_sys =
  ts_cache :: "'v ttl_value"
  ts_clock :: nat
  ts_slot :: "nat option"
  ts_callers :: "nat \<Rightarrow> 'v caller"
  ts_fetched :: "'v set"

abbreviation at :: "nat \<Rightarrow> 'v caller \<Rightarrow> 'v ttl_sys \<Rightarrow> 'v ttl_sys" where
  "at t p s \<equiv> s\<lparr>ts_callers := (ts_callers s)(t := p)\<rparr>"

text \<open>
  A step of caller \<open>t\<close>: the freshness test under the entry lock; \<open>try_lock\<close> on the refresh
  slot; the read of the stale value; the source's return (or its panic, which drops the slot
  guard); the write of value and deadline under the entry lock; and the release of the slot.
\<close>

inductive ttl_step :: "nat \<Rightarrow> 'v ttl_sys \<Rightarrow> 'v ttl_sys \<Rightarrow> bool" where
  fresh: "ts_callers s t = Idle \<Longrightarrow> ts_clock s < te_expires_at (ts_cache s) \<Longrightarrow>
    ttl_step t s (at t (Returned (te_value (ts_cache s))) s)"
| stale: "ts_callers s t = Idle \<Longrightarrow> \<not> ts_clock s < te_expires_at (ts_cache s) \<Longrightarrow>
    ttl_step t s (at t FoundStale s)"
| claim: "ts_callers s t = FoundStale \<Longrightarrow> ts_slot s = None \<Longrightarrow>
    ttl_step t s (at t InSource (s\<lparr>ts_slot := Some t\<rparr>))"
| busy: "ts_callers s t = FoundStale \<Longrightarrow> ts_slot s \<noteq> None \<Longrightarrow>
    ttl_step t s (at t SlotTaken s)"
| serve_stale: "ts_callers s t = SlotTaken \<Longrightarrow>
    ttl_step t s (at t (Returned (te_value (ts_cache s))) s)"
| fetched: "ts_callers s t = InSource \<Longrightarrow>
    ttl_step t s (at t (Publishing v) (s\<lparr>ts_fetched := insert v (ts_fetched s)\<rparr>))"
| panicked: "ts_callers s t = InSource \<Longrightarrow>
    ttl_step t s (at t Panicked (s\<lparr>ts_slot := None\<rparr>))"
| publish: "ts_callers s t = Publishing v \<Longrightarrow>
    ttl_step t s (at t (Releasing v)
      (s\<lparr>ts_cache := (ts_cache s)\<lparr>te_value := v, te_expires_at := ts_clock s + tv_ttl (ts_cache s)\<rparr>\<rparr>))"
| release: "ts_callers s t = Releasing v \<Longrightarrow>
    ttl_step t s (at t (Returned v) (s\<lparr>ts_slot := None\<rparr>))"
| again: "ts_callers s t = Returned v \<Longrightarrow> ttl_step t s (at t Idle s)"

inductive_cases ttl_stepE: "ttl_step t s s'"

inductive ttl_reach :: "'v ttl_sys \<Rightarrow> 'v ttl_sys \<Rightarrow> bool" where
  reach_refl: "ttl_reach s s"
| reach_step: "ttl_reach s s' \<Longrightarrow> ttl_step t s' s'' \<Longrightarrow> ttl_reach s s''"
| reach_tick: "ttl_reach s s' \<Longrightarrow> ttl_reach s (s'\<lparr>ts_clock := ts_clock s' + n\<rparr>)"

definition ttl_start :: "nat \<Rightarrow> nat \<Rightarrow> 'v \<Rightarrow> 'v ttl_sys" where
  "ttl_start now ttl initial =
     \<lparr>ts_cache = ttl_new now ttl initial, ts_clock = now, ts_slot = None,
      ts_callers = (\<lambda>_. Idle), ts_fetched = {}\<rparr>"

text \<open>The callers between claiming the slot and releasing it.\<close>

primrec holds_slot :: "'v caller \<Rightarrow> bool" where
  "holds_slot Idle = False"
| "holds_slot FoundStale = False"
| "holds_slot SlotTaken = False"
| "holds_slot InSource = True"
| "holds_slot (Publishing v) = True"
| "holds_slot (Releasing v) = True"
| "holds_slot (Returned v) = False"
| "holds_slot Panicked = False"

primrec carried :: "'v caller \<Rightarrow> 'v set" where
  "carried Idle = {}"
| "carried FoundStale = {}"
| "carried SlotTaken = {}"
| "carried InSource = {}"
| "carried (Publishing v) = {v}"
| "carried (Releasing v) = {v}"
| "carried (Returned v) = {v}"
| "carried Panicked = {}"

definition slot_ok :: "nat option \<Rightarrow> (nat \<Rightarrow> 'v caller) \<Rightarrow> bool" where
  "slot_ok slot callers \<longleftrightarrow> (\<forall>t. holds_slot (callers t) \<longleftrightarrow> slot = Some t)"

definition slot_inv :: "'v ttl_sys \<Rightarrow> bool" where
  "slot_inv s \<longleftrightarrow> slot_ok (ts_slot s) (ts_callers s)"

definition value_inv :: "'v \<Rightarrow> 'v ttl_sys \<Rightarrow> bool" where
  "value_inv initial s \<longleftrightarrow>
     te_value (ts_cache s) \<in> insert initial (ts_fetched s)
     \<and> (\<forall>t. carried (ts_callers s t) \<subseteq> insert initial (ts_fetched s))"

lemma slot_inv_start: "slot_inv (ttl_start now ttl initial)"
  by (simp add: slot_inv_def slot_ok_def ttl_start_def)

lemma value_inv_start: "value_inv initial (ttl_start now ttl initial)"
  by (simp add: value_inv_def ttl_start_def ttl_new_def)

lemma slot_ok_at:
  "slot_ok slot cs \<Longrightarrow> holds_slot p = holds_slot (cs t) \<Longrightarrow> slot_ok slot (cs(t := p))"
  by (auto simp: slot_ok_def)

lemma slot_ok_drop:
  "slot_ok slot cs \<Longrightarrow> holds_slot (cs t) \<Longrightarrow> \<not> holds_slot p \<Longrightarrow> slot_ok None (cs(t := p))"
  by (auto simp: slot_ok_def)

lemma slot_ok_claim: "slot_ok None cs \<Longrightarrow> holds_slot p \<Longrightarrow> slot_ok (Some t) (cs(t := p))"
  by (auto simp: slot_ok_def)

lemma slot_inv_step: "ttl_step t s s' \<Longrightarrow> slot_inv s \<Longrightarrow> slot_inv s'"
  by (induction rule: ttl_step.induct)
    (auto simp: slot_inv_def intro: slot_ok_at slot_ok_drop slot_ok_claim)

lemma value_inv_step:
  assumes "ttl_step t s s'" "value_inv i s"
  shows "value_inv i s'"
proof -
  have c: "carried (ts_callers s t) \<subseteq> insert i (ts_fetched s)" using assms(2) by (simp add: value_inv_def)
  from assms(1) show ?thesis
    using assms(2) c by (induction rule: ttl_step.induct) (auto simp: value_inv_def)
qed

lemma ttl_inv_reach:
  "ttl_reach s s' \<Longrightarrow> slot_inv s \<and> value_inv i s \<Longrightarrow> slot_inv s' \<and> value_inv i s'"
proof (induction rule: ttl_reach.induct)
  case (reach_step s s' t s'')
  then show ?case by (blast intro: slot_inv_step value_inv_step)
qed (simp_all add: value_inv_def slot_inv_def)

text \<open>A caller outside the source is never kept waiting: some step of its own is enabled.\<close>

lemma ttl_enabled:
  assumes "ts_callers s t \<noteq> Panicked"
  shows "\<exists>s'. ttl_step t s s'"
proof (cases "ts_callers s t")
  case Idle
  then show ?thesis
    by (cases "ts_clock s < te_expires_at (ts_cache s)") (blast intro: ttl_step.intros)+
next
  case FoundStale
  then show ?thesis by (cases "ts_slot s") (blast intro: ttl_step.intros)+
next
  case (Returned v)
  then show ?thesis by (blast intro: ttl_step.again)
qed (use assms in \<open>blast intro: ttl_step.intros\<close>)+

text \<open>The number of its own steps a caller is away from its result, at most.\<close>

primrec caller_rank :: "'v caller \<Rightarrow> nat" where
  "caller_rank Idle = 5"
| "caller_rank FoundStale = 4"
| "caller_rank SlotTaken = 1"
| "caller_rank InSource = 3"
| "caller_rank (Publishing v) = 2"
| "caller_rank (Releasing v) = 1"
| "caller_rank (Returned v) = 0"
| "caller_rank Panicked = 0"

lemma caller_rank_0: "caller_rank p = 0 \<longleftrightarrow> p = Panicked \<or> (\<exists>v. p = Returned v)"
  by (cases p) auto

lemma ttl_step_rank:
  "ttl_step t s s' \<Longrightarrow> 0 < caller_rank (ts_callers s t) \<Longrightarrow>
   caller_rank (ts_callers s' t) < caller_rank (ts_callers s t)"
  by (induction rule: ttl_step.induct) auto

lemma ttl_step_other: "ttl_step u s s' \<Longrightarrow> u \<noteq> t \<Longrightarrow> ts_callers s' t = ts_callers s t"
  by (induction rule: ttl_step.induct) auto

text \<open>A caller running alone computes \<open>get_with\<close>.\<close>

lemma get_with_alone:
  assumes "ts_callers s t = Idle" "ts_slot s = None"
  shows "\<exists>s'. ttl_reach s s' \<and> ts_slot s' = None
    \<and> (ts_callers s' t, ts_cache s') =
      (Returned (fst (get_with (ts_clock s) (ts_clock s + d) v (ts_cache s))),
       fst (snd (get_with (ts_clock s) (ts_clock s + d) v (ts_cache s))))"
proof (cases "ts_clock s < te_expires_at (ts_cache s)")
  case True
  with assms have "ttl_step t s (at t (Returned (te_value (ts_cache s))) s)" by (blast intro: ttl_step.fresh)
  then have "ttl_reach s (at t (Returned (te_value (ts_cache s))) s)"
    by (blast intro: reach_refl reach_step)
  with True assms show ?thesis by (intro exI) (auto intro!: conjI)
next
  case False
  define s1 where "s1 = at t FoundStale s"
  define s2 where "s2 = at t InSource (s1\<lparr>ts_slot := Some t\<rparr>)"
  define s3 where "s3 = at t (Publishing v) (s2\<lparr>ts_fetched := insert v (ts_fetched s2)\<rparr>)"
  define s4 where "s4 = s3\<lparr>ts_clock := ts_clock s3 + d\<rparr>"
  define s5 where "s5 = at t (Releasing v)
      (s4\<lparr>ts_cache := (ts_cache s4)\<lparr>te_value := v, te_expires_at := ts_clock s4 + tv_ttl (ts_cache s4)\<rparr>\<rparr>)"
  define s6 where "s6 = at t (Returned v) (s5\<lparr>ts_slot := None\<rparr>)"
  note defs = s1_def s2_def s3_def s4_def s5_def s6_def
  have "ttl_step t s s1" unfolding s1_def using assms False by (intro ttl_step.stale) auto
  moreover have "ttl_step t s1 s2" unfolding s2_def
    by (intro ttl_step.claim) (simp_all add: s1_def assms)
  moreover have "ttl_step t s2 s3" unfolding s3_def by (intro ttl_step.fetched) (simp add: s2_def)
  moreover have "ttl_step t s4 s5" unfolding s5_def by (intro ttl_step.publish) (simp add: s4_def s3_def)
  moreover have "ttl_step t s5 s6" unfolding s6_def by (intro ttl_step.release) (simp add: s5_def)
  ultimately have "ttl_reach s s6"
    by (metis reach_refl reach_step reach_tick s4_def)
  moreover have "ts_callers s6 t = Returned v" "ts_slot s6 = None"
    "ts_cache s6 = (ts_cache s)\<lparr>te_value := v, te_expires_at := ts_clock s + d + tv_ttl (ts_cache s)\<rparr>"
    by (simp_all add: defs)
  ultimately show ?thesis using False by (intro exI [of _ s6]) simp
qed

text \<open>
  Single-flight refresh. In every state that any interleaving of callers and clock ticks
  reaches from a newly seeded cache, at most one caller is between claiming the refresh slot and
  releasing it (so the source never runs twice at a time), the slot is free exactly when there is
  none (also after a panic of the source), and every value the cache holds or a caller gets is
  the seed or a value the source returned.
\<close>
theorem ttl_single_flight:
  assumes "ttl_reach (ttl_start now ttl initial) s"
  shows "\<not> (holds_slot (ts_callers s t) \<and> holds_slot (ts_callers s u) \<and> t \<noteq> u)
    \<and> (ts_slot s = None) = (\<nexists>t. holds_slot (ts_callers s t))
    \<and> insert (te_value (ts_cache s)) (carried (ts_callers s t)) \<subseteq> insert initial (ts_fetched s)"
proof -
  have "slot_inv s" "value_inv initial s"
    using ttl_inv_reach [OF assms, of initial] by (simp_all add: slot_inv_start value_inv_start)
  then show ?thesis by (auto simp: slot_inv_def slot_ok_def value_inv_def)
qed

lemma ttl_single_flight_witness:
  "\<exists>s :: nat ttl_sys. ttl_reach (ttl_start 5 0 (7::nat)) s \<and> holds_slot (ts_callers s 1)
     \<and> \<not> (holds_slot (ts_callers s 1) \<and> holds_slot (ts_callers s 2) \<and> (1::nat) \<noteq> 2)"
proof -
  let ?s0 = "ttl_start 5 0 (7::nat)"
  let ?s1 = "at 1 FoundStale ?s0"
  let ?s2 = "at 1 InSource (?s1\<lparr>ts_slot := Some 1\<rparr>)"
  have "ttl_step 1 ?s0 ?s1" by (rule ttl_step.stale) (simp_all add: ttl_start_def ttl_new_def)
  moreover have "ttl_step 1 ?s1 ?s2" by (rule ttl_step.claim) (simp_all add: ttl_start_def)
  ultimately have r: "ttl_reach ?s0 ?s2" by (blast intro: reach_refl reach_step)
  from ttl_single_flight [OF r, of 1 2] r show ?thesis by (intro exI [of _ ?s2]) simp
qed

text \<open>
  No caller waits for another one's refresh: a caller that has no result yet always has an
  enabled step of its own, each of its own steps brings it strictly closer to its result (at most
  five of them), and no step of another caller moves it back.
\<close>
theorem ttl_wait_free:
  assumes "0 < caller_rank (ts_callers s t)"
  shows "(\<exists>s'. ttl_step t s s')
    \<and> \<not> (\<exists>s'. ttl_step t s s' \<and> caller_rank (ts_callers s t) \<le> caller_rank (ts_callers s' t))
    \<and> \<not> (\<exists>u s'. u \<noteq> t \<and> ttl_step u s s' \<and> ts_callers s' t \<noteq> ts_callers s t)
    \<and> caller_rank (ts_callers s t) \<le> 5"
proof -
  have "ts_callers s t \<noteq> Panicked" using assms by auto
  then have "\<exists>s'. ttl_step t s s'" by (rule ttl_enabled)
  moreover have "caller_rank p \<le> 5" for p :: "'a caller" by (cases p) auto
  ultimately show ?thesis
    using ttl_step_rank [OF _ assms] ttl_step_other [of _ s _ t] not_le by blast
qed

lemma ttl_wait_free_witness:
  "\<exists>s'. ttl_step 3 (ttl_start 5 0 (7::nat)) s'"
  using ttl_wait_free [of "ttl_start 5 0 (7::nat)" 3] by (simp add: ttl_start_def)

end
