(* ===== verification/Lookup_State.thy ===== *)
theory Lookup_State
  imports Mapping_Cache Ttl_Cache
begin

text \<open>
  \<open>src/keymap_core/lookup.rs\<close>: the \<open>Lookup\<close> trait as a record of operations over the state of
  its implementor, and the contract the decision engine relies on as the locale
  \<open>lookup_contract\<close>. \<open>src/daemon/state.rs\<close>: the live implementation \<open>RuntimeState\<close>, with
  its keyboard filters and the focused application behind the short-lived cache.
  \<open>src/keymap_core/test_lookup.rs\<close>: the in-process implementation. Both are interpretations of
  the contract.
\<close>

section \<open>The interface\<close>

record 's lookup =
  lk_for_app :: "'s \<Rightarrow> string \<Rightarrow> hid_usage \<Rightarrow> u8 \<Rightarrow> string option \<Rightarrow> native_key list option"
  lk_for_active_app :: "'s \<Rightarrow> hid_usage \<Rightarrow> u8 \<Rightarrow> string option \<Rightarrow> native_key list option \<times> 's"
  lk_global :: "'s \<Rightarrow> hid_usage \<Rightarrow> u8 \<Rightarrow> string option \<Rightarrow> native_key list option"

text \<open>
  The lookup of \<open>MappingEngine::decide_down\<close>: app-scoped rules first, then the global ones.
\<close>

definition resolve ::
  "'s lookup \<Rightarrow> 's \<Rightarrow> hid_usage \<Rightarrow> u8 \<Rightarrow> string option \<Rightarrow> native_key list option \<times> 's" where
  "resolve lk s usage modifiers device_id =
     (let (r, s') = lk_for_active_app lk s usage modifiers device_id
      in (case r of Some outputs \<Rightarrow> Some outputs | None \<Rightarrow> lk_global lk s' usage modifiers device_id, s'))"

definition rule_answers :: "compiled_rule list \<Rightarrow> hid_usage \<Rightarrow> u8 \<Rightarrow> native_key list \<Rightarrow> bool" where
  "rule_answers rules usage m outputs \<longleftrightarrow>
     (\<exists>r \<in> set rules. cr_usage r = usage \<and> cr_modifiers r = m \<and> cr_outputs r = outputs)"

text \<open>
  The contract: an answer is the output list of a rule for exactly the key and mask asked for,
  the active application's answer is the answer for some application, and asking changes no rule.
\<close>

locale lookup_contract =
  fixes lk :: "'s lookup"
    and app_rules :: "'s \<Rightarrow> string \<Rightarrow> compiled_rule list"
    and glob_rules :: "'s \<Rightarrow> compiled_rule list"
  assumes for_app_sound:
      "lk_for_app lk s app usage m d = Some os \<Longrightarrow> rule_answers (app_rules s app) usage m os"
    and global_sound: "lk_global lk s usage m d = Some os \<Longrightarrow> rule_answers (glob_rules s) usage m os"
    and active_is_app: "\<exists>app. fst (lk_for_active_app lk s usage m d) = lk_for_app lk s app usage m d"
    and active_app_rules: "app_rules (snd (lk_for_active_app lk s usage m d)) = app_rules s"
    and active_glob_rules: "glob_rules (snd (lk_for_active_app lk s usage m d)) = glob_rules s"
begin

lemma resolve_sound:
  assumes "resolve lk s usage m d = (Some os, s')"
  shows "(\<exists>app. rule_answers (app_rules s app) usage m os) \<or> rule_answers (glob_rules s) usage m os"
proof (cases "fst (lk_for_active_app lk s usage m d)")
  case (Some os')
  moreover obtain app where "fst (lk_for_active_app lk s usage m d) = lk_for_app lk s app usage m d"
    using active_is_app by blast
  ultimately show ?thesis
    using assms for_app_sound by (force simp: resolve_def split: prod.splits)
next
  case None
  with assms have "lk_global lk (snd (lk_for_active_app lk s usage m d)) usage m d = Some os"
    by (auto simp: resolve_def split: prod.splits)
  then show ?thesis using global_sound active_glob_rules by metis
qed

lemma resolve_rules:
  "app_rules (snd (resolve lk s usage m d)) = app_rules s"
  "glob_rules (snd (resolve lk s usage m d)) = glob_rules s"
  using active_app_rules [of s usage m d] active_glob_rules [of s usage m d]
  by (simp_all add: resolve_def case_prod_beta)

end

section \<open>The runtime state\<close>

text \<open>
  \<open>rs_reads\<close> counts the queries of the focused application; the environment \<open>env\<close> of the
  operations says what each of them finds: the clock at the freshness test and at the write, and
  what the platform source would answer.
\<close>

record runtime_state =
  rs_lookup_cache :: runtime_lookup_cache
  rs_keyboard_registry :: "string \<rightharpoonup> keyboard_info"
  rs_focus :: focus_tracker
  rs_reads :: nat

definition rs_new :: "nat \<Rightarrow> runtime_lookup_cache \<Rightarrow> keyboard_info list \<Rightarrow> runtime_state" where
  "rs_new now cache keyboards =
     \<lparr>rs_lookup_cache = cache,
      rs_keyboard_registry = fold (\<lambda>kb m. m(ki_device kb \<mapsto> kb)) keyboards Map.empty,
      rs_focus = focus_new now, rs_reads = 0\<rparr>"

definition resolve_keyboard :: "runtime_state \<Rightarrow> string \<Rightarrow> keyboard_info option" where
  "resolve_keyboard st device_id = rs_keyboard_registry st device_id"

definition check_global_keyboard_filter :: "runtime_state \<Rightarrow> string option \<Rightarrow> bool" where
  "check_global_keyboard_filter st device_id =
     (case global_keyboards (rs_lookup_cache st) of
        None \<Rightarrow> True
      | Some flt \<Rightarrow>
          (case device_id of
             None \<Rightarrow> True
           | Some i \<Rightarrow>
               (case resolve_keyboard st i of
                  None \<Rightarrow> True
                | Some kb_info \<Rightarrow> list_ex (\<lambda>spec. spec_matches spec kb_info) flt)))"

definition check_rule_keyboard_filter ::
  "runtime_state \<Rightarrow> keyboard_specifier list option \<Rightarrow> string option \<Rightarrow> bool" where
  "check_rule_keyboard_filter st rule_filter device_id =
     (case rule_filter of
        None \<Rightarrow> True
      | Some flt \<Rightarrow>
          (case device_id of
             None \<Rightarrow> True
           | Some i \<Rightarrow>
               (case resolve_keyboard st i of
                  None \<Rightarrow> True
                | Some kb_info \<Rightarrow> list_ex (\<lambda>spec. spec_matches spec kb_info) flt)))"

definition rs_for_app ::
  "(string \<Rightarrow> string) \<Rightarrow> runtime_state \<Rightarrow> string \<Rightarrow> hid_usage \<Rightarrow> u8 \<Rightarrow> string option
    \<Rightarrow> native_key list option" where
  "rs_for_app uni st app usage modifiers device_id =
     (if \<not> check_global_keyboard_filter st device_id then None
      else (case process_rules uni (rs_lookup_cache st) app of
          Some rules \<Rightarrow>
            find_match rules usage modifiers (\<lambda>flt. check_rule_keyboard_filter st flt device_id)
        | None \<Rightarrow> None))"

definition rs_global ::
  "runtime_state \<Rightarrow> hid_usage \<Rightarrow> u8 \<Rightarrow> string option \<Rightarrow> native_key list option" where
  "rs_global st usage modifiers device_id =
     (if \<not> check_global_keyboard_filter st device_id then None
      else find_match (global_rules (rs_lookup_cache st)) usage modifiers
             (\<lambda>flt. check_rule_keyboard_filter st flt device_id))"

type_synonym focus_env = "nat \<Rightarrow> nat \<times> nat \<times> string"

definition rs_active_app :: "focus_env \<Rightarrow> runtime_state \<Rightarrow> string \<times> runtime_state" where
  "rs_active_app env st =
     (let (now, later, source_value) = env (rs_reads st);
          (app, focus) = focus_get now later source_value (rs_focus st)
      in (app, st\<lparr>rs_focus := focus, rs_reads := rs_reads st + 1\<rparr>))"

definition rs_for_active_app ::
  "(string \<Rightarrow> string) \<Rightarrow> focus_env \<Rightarrow> runtime_state \<Rightarrow> hid_usage \<Rightarrow> u8 \<Rightarrow> string option
    \<Rightarrow> native_key list option \<times> runtime_state" where
  "rs_for_active_app uni env st usage modifiers device_id =
     (let (app, st') = rs_active_app env st
      in (rs_for_app uni st' app usage modifiers device_id, st'))"

definition set_lookup_cache :: "runtime_lookup_cache \<Rightarrow> runtime_state \<Rightarrow> runtime_state" where
  "set_lookup_cache cache st = st\<lparr>rs_lookup_cache := cache\<rparr>"

definition runtime_lookup :: "(string \<Rightarrow> string) \<Rightarrow> focus_env \<Rightarrow> runtime_state lookup" where
  "runtime_lookup uni env =
     \<lparr>lk_for_app = rs_for_app uni, lk_for_active_app = rs_for_active_app uni env,
      lk_global = rs_global\<rparr>"

section \<open>The in-process lookup of the tests\<close>

record test_lookup =
  tl_cache :: runtime_lookup_cache
  tl_app_name :: string

definition tl_from_config :: "(string \<Rightarrow> string) \<Rightarrow> app_config \<Rightarrow> test_lookup" where
  "tl_from_config uni config =
     \<lparr>tl_cache = compile_from_config uni config, tl_app_name = ''test_app''\<rparr>"

definition tl_for_app ::
  "(string \<Rightarrow> string) \<Rightarrow> test_lookup \<Rightarrow> string \<Rightarrow> hid_usage \<Rightarrow> u8 \<Rightarrow> string option
    \<Rightarrow> native_key list option" where
  "tl_for_app uni lu app usage modifiers kbd =
     (case process_rules uni (tl_cache lu) app of
        Some rules \<Rightarrow> find_match rules usage modifiers (\<lambda>_. True) | None \<Rightarrow> None)"

definition tl_global ::
  "test_lookup \<Rightarrow> hid_usage \<Rightarrow> u8 \<Rightarrow> string option \<Rightarrow> native_key list option" where
  "tl_global lu usage modifiers kbd = find_match (global_rules (tl_cache lu)) usage modifiers (\<lambda>_. True)"

definition tl_for_active_app ::
  "(string \<Rightarrow> string) \<Rightarrow> test_lookup \<Rightarrow> hid_usage \<Rightarrow> u8 \<Rightarrow> string option
    \<Rightarrow> native_key list option \<times> test_lookup" where
  "tl_for_active_app uni lu usage modifiers kbd =
     (tl_for_app uni lu (tl_app_name lu) usage modifiers kbd, lu)"

definition test_lookup_ops :: "(string \<Rightarrow> string) \<Rightarrow> test_lookup lookup" where
  "test_lookup_ops uni =
     \<lparr>lk_for_app = tl_for_app uni, lk_for_active_app = tl_for_active_app uni, lk_global = tl_global\<rparr>"

section \<open>Both implementations meet the contract\<close>

definition cache_app_rules :: "(string \<Rightarrow> string) \<Rightarrow> runtime_lookup_cache \<Rightarrow> string \<Rightarrow> compiled_rule list" where
  "cache_app_rules uni cache app =
     (case process_rules uni cache app of Some rules \<Rightarrow> rules | None \<Rightarrow> [])"

lemma find_match_answers: "find_match rules usage m check = Some os \<Longrightarrow> rule_answers rules usage m os"
  by (auto simp: rule_answers_def dest: find_match_SomeD)

lemma rs_active_app_state:
  "rs_lookup_cache (snd (rs_active_app env st)) = rs_lookup_cache st"
  "rs_keyboard_registry (snd (rs_active_app env st)) = rs_keyboard_registry st"
  by (simp_all add: rs_active_app_def split: prod.splits)

lemma rs_for_app_cong:
  assumes "rs_lookup_cache st' = rs_lookup_cache st" "rs_keyboard_registry st' = rs_keyboard_registry st"
  shows "rs_for_app uni st' = rs_for_app uni st" "rs_global st' = rs_global st"
proof -
  have "check_global_keyboard_filter st' = check_global_keyboard_filter st"
    "check_rule_keyboard_filter st' = check_rule_keyboard_filter st"
    using assms
    by (simp_all add: fun_eq_iff check_global_keyboard_filter_def check_rule_keyboard_filter_def
        resolve_keyboard_def cong: option.case_cong)
  note eqs = this assms
  show "rs_for_app uni st' = rs_for_app uni st" by (intro ext) (simp only: rs_for_app_def eqs)
  show "rs_global st' = rs_global st" by (intro ext) (simp only: rs_global_def eqs)
qed

lemma rs_for_active_app_eq:
  "rs_for_active_app uni env st usage m d =
     (rs_for_app uni st (fst (rs_active_app env st)) usage m d, snd (rs_active_app env st))"
  using rs_for_app_cong(1) [OF rs_active_app_state]
  by (simp add: rs_for_active_app_def case_prod_beta)

interpretation rl: lookup_contract "runtime_lookup uni env"
  "\<lambda>st. cache_app_rules uni (rs_lookup_cache st)" "\<lambda>st. global_rules (rs_lookup_cache st)"
proof unfold_locales
  fix st app usage m d os
  show "lk_for_app (runtime_lookup uni env) st app usage m d = Some os \<Longrightarrow>
      rule_answers (cache_app_rules uni (rs_lookup_cache st) app) usage m os"
    by (auto simp: runtime_lookup_def rs_for_app_def cache_app_rules_def
        intro: find_match_answers split: if_splits option.splits)
  show "lk_global (runtime_lookup uni env) st usage m d = Some os \<Longrightarrow>
      rule_answers (global_rules (rs_lookup_cache st)) usage m os"
    by (auto simp: runtime_lookup_def rs_global_def intro: find_match_answers split: if_splits)
  show "\<exists>app. fst (lk_for_active_app (runtime_lookup uni env) st usage m d) =
      lk_for_app (runtime_lookup uni env) st app usage m d"
    by (auto simp: runtime_lookup_def rs_for_active_app_eq)
qed (simp_all add: runtime_lookup_def rs_for_active_app_eq rs_active_app_state)

interpretation tl: lookup_contract "test_lookup_ops uni"
  "\<lambda>st. cache_app_rules uni (tl_cache st)" "\<lambda>st. global_rules (tl_cache st)"
proof unfold_locales
  fix st app usage m d os
  show "lk_for_app (test_lookup_ops uni) st app usage m d = Some os \<Longrightarrow>
      rule_answers (cache_app_rules uni (tl_cache st) app) usage m os"
    by (auto simp: test_lookup_ops_def tl_for_app_def cache_app_rules_def
        intro: find_match_answers split: option.splits)
  show "lk_global (test_lookup_ops uni) st usage m d = Some os \<Longrightarrow>
      rule_answers (global_rules (tl_cache st)) usage m os"
    by (auto simp: test_lookup_ops_def tl_global_def intro: find_match_answers)
  show "\<exists>app. fst (lk_for_active_app (test_lookup_ops uni) st usage m d) =
      lk_for_app (test_lookup_ops uni) st app usage m d"
    by (auto simp: test_lookup_ops_def tl_for_active_app_def)
qed (simp_all add: test_lookup_ops_def tl_for_active_app_def)

section \<open>What the runtime lookup answers, in terms of the configuration\<close>

text \<open>The last discovered keyboard with a device identifier.\<close>

definition known_keyboard :: "keyboard_info list \<Rightarrow> string \<Rightarrow> keyboard_info option" where
  "known_keyboard kbs device_id = find (\<lambda>kb. ki_device kb = device_id) (rev kbs)"

text \<open>A filter blocks an event only of an identified, known keyboard that matches no specifier.\<close>

definition keyboard_blocked ::
  "keyboard_info list \<Rightarrow> keyboard_specifier list option \<Rightarrow> string option \<Rightarrow> bool" where
  "keyboard_blocked kbs flt device_id \<longleftrightarrow>
     (\<exists>specs d kb. flt = Some specs \<and> device_id = Some d \<and> known_keyboard kbs d = Some kb
        \<and> \<not> (\<exists>s \<in> set specs. spec_matches s kb))"

lemma registry_from:
  "fold (\<lambda>kb m. m(ki_device kb \<mapsto> kb)) kbs m0 d =
     (case known_keyboard kbs d of Some kb \<Rightarrow> Some kb | None \<Rightarrow> m0 d)"
proof (induction kbs arbitrary: m0 rule: rev_induct)
  case (snoc kb kbs)
  then show ?case by (simp add: known_keyboard_def)
qed (simp add: known_keyboard_def)

lemma registry_known:
  "rs_keyboard_registry (rs_new now cache kbs) = known_keyboard kbs"
  by (rule ext) (simp add: rs_new_def registry_from split: option.split)

lemma check_filters_blocked:
  assumes "rs_keyboard_registry st = known_keyboard kbs"
  shows "check_global_keyboard_filter st d \<longleftrightarrow>
      \<not> keyboard_blocked kbs (global_keyboards (rs_lookup_cache st)) d"
    and "check_rule_keyboard_filter st flt d \<longleftrightarrow> \<not> keyboard_blocked kbs flt d"
  using assms
  by (auto simp: check_global_keyboard_filter_def check_rule_keyboard_filter_def resolve_keyboard_def
      keyboard_blocked_def list_ex_iff split: option.split)

definition config_answer ::
  "(string \<Rightarrow> string) \<Rightarrow> app_config \<Rightarrow> keyboard_info list \<Rightarrow> string \<Rightarrow> hid_usage \<Rightarrow> u8 \<Rightarrow> string option
    \<Rightarrow> native_key list option" where
  "config_answer uni c kbs app usage m d =
     (if ac_keyboards c \<noteq> Some [] \<and> keyboard_blocked kbs (ac_keyboards c) d then None
      else (case config_lookup c (group_in_app uni app) (\<lambda>flt. \<not> keyboard_blocked kbs flt d) usage m of
          Some outputs \<Rightarrow> Some outputs
        | None \<Rightarrow> config_lookup c group_is_global (\<lambda>flt. \<not> keyboard_blocked kbs flt d) usage m))"

text \<open>The runtime state of a configuration, for any contents of the focus cache.\<close>

definition runtime_of ::
  "(string \<Rightarrow> string) \<Rightarrow> app_config \<Rightarrow> keyboard_info list \<Rightarrow> focus_tracker \<Rightarrow> nat \<Rightarrow> runtime_state" where
  "runtime_of uni c kbs f n =
     (rs_new 0 (compile_from_config uni c) kbs)\<lparr>rs_focus := f, rs_reads := n\<rparr>"

lemma runtime_resolve:
  "(let st = runtime_of uni c kbs f n; (app, st') = rs_active_app env st
    in resolve (runtime_lookup uni env) st usage m d = (config_answer uni c kbs app usage m d, st')
       \<and> (\<exists>f' n'. st' = runtime_of uni c kbs f' n'))"
proof -
  define st where "st = runtime_of uni c kbs f n"
  let ?app = "fst (rs_active_app env st)"
  have cache: "rs_lookup_cache st = compile_from_config uni c" by (simp add: st_def runtime_of_def rs_new_def)
  have reg: "rs_keyboard_registry st = known_keyboard kbs"
    by (simp add: st_def runtime_of_def registry_known)
  have refine: "find_match (global_rules (compile_from_config uni c)) usage m chk =
      config_lookup c group_is_global chk usage m"
    "(case process_rules uni (compile_from_config uni c) app of
        Some rules \<Rightarrow> find_match rules usage m chk | None \<Rightarrow> None) =
      config_lookup c (group_in_app uni app) chk usage m" for chk app
    using compiled_refines by blast+
  have glob: "check_global_keyboard_filter st d \<longleftrightarrow>
      \<not> (ac_keyboards c \<noteq> Some [] \<and> keyboard_blocked kbs (ac_keyboards c) d)"
    using check_filters_blocked(1) [OF reg, of d]
    by (auto simp: cache compiled_global_keyboards keyboard_blocked_def)
  have app: "rs_for_app uni st app usage m d =
      (if check_global_keyboard_filter st d
       then config_lookup c (group_in_app uni app) (\<lambda>flt. \<not> keyboard_blocked kbs flt d) usage m
       else None)" for app
    by (simp add: rs_for_app_def cache check_filters_blocked(2) [OF reg] refine)
  have gl: "rs_global (snd (rs_active_app env st)) usage m d =
      (if check_global_keyboard_filter st d
       then config_lookup c group_is_global (\<lambda>flt. \<not> keyboard_blocked kbs flt d) usage m
       else None)"
    unfolding rs_for_app_cong(2) [OF rs_active_app_state]
    by (simp add: rs_global_def cache check_filters_blocked(2) [OF reg] refine)
  have "resolve (runtime_lookup uni env) st usage m d =
      (config_answer uni c kbs ?app usage m d, snd (rs_active_app env st))"
    by (simp add: resolve_def runtime_lookup_def rs_for_active_app_eq app gl glob config_answer_def split: option.split)
  moreover have "\<exists>f' n'. snd (rs_active_app env st) = runtime_of uni c kbs f' n'"
    by (auto simp: rs_active_app_def st_def runtime_of_def rs_new_def split: prod.splits)
  ultimately show ?thesis by (simp add: st_def case_prod_beta Let_def)
qed

text \<open>
  C9. The live lookup implements the configuration. For the runtime state of a configuration and
  a list of discovered keyboards, whatever its focus cache holds, the two-stage lookup of the
  engine answers: nothing if the (non-empty) global keyboard filter blocks the event's keyboard;
  else the outputs of the first mapping for the application the focus tracker reports; else of the
  first mapping of a global group, groups whose own filter blocks the keyboard being skipped. Only
  a keyboard that is identified, known and matched by no specifier is blocked, and the lookup
  leaves rules and registry alone.
\<close>
theorem runtime_lookup_refines:
  "(let st = runtime_of uni c kbs f n; (app, st') = rs_active_app env st
    in resolve (runtime_lookup uni env) st usage m d = (config_answer uni c kbs app usage m d, st')
       \<and> (\<exists>f' n'. st' = runtime_of uni c kbs f' n'))"
  by (rule runtime_resolve)

end
