(* ===== verification/Engine.thy ===== *)
theory Engine
  imports Lookup_State
begin

text \<open>
  \<open>src/keymap_core/engine.rs\<close>: the platform-independent mapping engine. The sets are the
  \<open>BTreeSet\<close>s of \<open>KeyTracker\<close>; the map of held output modifiers is an association list
  (the code only looks keys up in it and ors over all entries, so their order is immaterial).
  The shared lookup is the pair of its operations \<open>lk\<close> and its current state \<open>ls\<close>. Debug
  logging is left out.
\<close>

datatype decision =
    Pass
  | Emit (em_release: u8) (em_outputs: "native_key list")
  | SwallowD (sw_release: u8)
  | ConsumedRelease

datatype release_fate = FateSwallow u8 | FateConsumed

record 'k key_tracker =
  pressed_keys :: "'k set"
  swallowed_keys :: "'k set"
  held_output_modifiers :: "('k, u8) index_map"
  forwarded_modifiers :: u8
  consumed_modifiers :: u8
  stale_keys :: "'k set"

record 'k engine =
  modifier_state :: u8
  tracker :: "'k key_tracker"

definition tracker_default :: "'k key_tracker" where
  "tracker_default =
     \<lparr>pressed_keys = {}, swallowed_keys = {}, held_output_modifiers = [],
      forwarded_modifiers = 0, consumed_modifiers = 0, stale_keys = {}\<rparr>"

definition engine_new :: "'k engine" where
  "engine_new = \<lparr>modifier_state = 0, tracker = tracker_default\<rparr>"

section \<open>The key tracker\<close>

definition record_forwarded_down :: "u8 \<Rightarrow> 'k key_tracker \<Rightarrow> 'k key_tracker" where
  "record_forwarded_down b t =
     t\<lparr>forwarded_modifiers := forwarded_modifiers t OR bit_mask b,
       consumed_modifiers := consumed_modifiers t AND NOT (bit_mask b)\<rparr>"

text \<open>The \<open>retain\<close> loop: the entries kept, and the or of the bits taken out of them.\<close>

fun consume_held :: "u8 \<Rightarrow> ('k, u8) index_map \<Rightarrow> ('k, u8) index_map \<times> u8" where
  "consume_held modifiers [] = ([], 0)"
| "consume_held modifiers ((k, msk) # hs) =
     (let hit = msk AND modifiers;
          msk' = msk AND NOT hit;
          (hs', held) = consume_held modifiers hs
      in (if msk' \<noteq> 0 then (k, msk') # hs' else hs', hit OR held))"

definition consume_triggered :: "u8 \<Rightarrow> 'k key_tracker \<Rightarrow> (u8 \<times> u8) \<times> 'k key_tracker" where
  "consume_triggered modifiers t =
     (let forwarded = modifiers AND forwarded_modifiers t;
          (hs, held) = consume_held modifiers (held_output_modifiers t)
      in ((forwarded OR held, held),
          t\<lparr>forwarded_modifiers := forwarded_modifiers t AND NOT forwarded,
            consumed_modifiers := consumed_modifiers t OR forwarded,
            held_output_modifiers := hs\<rparr>))"

definition hold_output_modifiers :: "'k \<Rightarrow> u8 \<Rightarrow> 'k key_tracker \<Rightarrow> 'k key_tracker" where
  "hold_output_modifiers key msk t =
     (if msk \<noteq> 0 then
        t\<lparr>held_output_modifiers :=
            im_insert key
              (case im_get (held_output_modifiers t) key of Some m \<Rightarrow> m OR msk | None \<Rightarrow> msk)
              (held_output_modifiers t)\<rparr>
      else t)"

definition release :: "'k \<Rightarrow> hid_usage \<Rightarrow> 'k key_tracker \<Rightarrow> release_fate option \<times> 'k key_tracker" where
  "release key usage t =
     (if key \<in> swallowed_keys t then
        (Some (FateSwallow (case im_get (held_output_modifiers t) key of Some m \<Rightarrow> m | None \<Rightarrow> 0)),
         t\<lparr>swallowed_keys := swallowed_keys t - {key},
           held_output_modifiers := filter (\<lambda>p. fst p \<noteq> key) (held_output_modifiers t)\<rparr>)
      else
        (case hid_usage_to_modifier_bit usage of
           Some b \<Rightarrow>
             (if consumed_modifiers t AND bit_mask b \<noteq> 0 then
                (Some FateConsumed, t\<lparr>consumed_modifiers := consumed_modifiers t AND NOT (bit_mask b)\<rparr>)
              else (None, t\<lparr>forwarded_modifiers := forwarded_modifiers t AND NOT (bit_mask b)\<rparr>))
         | None \<Rightarrow> (None, t)))"

section \<open>Keys held before the stream\<close>

definition note_held_key :: "'k \<Rightarrow> hid_usage \<Rightarrow> 'k engine \<Rightarrow> 'k engine" where
  "note_held_key key usage e =
     (let t = (tracker e)\<lparr>pressed_keys := insert key (pressed_keys (tracker e))\<rparr>
      in case hid_usage_to_modifier_bit usage of
           Some b \<Rightarrow> e\<lparr>modifier_state := modifier_state e OR bit_mask b,
                       tracker := record_forwarded_down b t\<rparr>
         | None \<Rightarrow> e\<lparr>tracker := t\<lparr>stale_keys := insert key (stale_keys t)\<rparr>\<rparr>)"

definition note_stale_key :: "'k \<Rightarrow> 'k engine \<Rightarrow> 'k engine" where
  "note_stale_key key e =
     e\<lparr>tracker := (tracker e)\<lparr>stale_keys := insert key (stale_keys (tracker e))\<rparr>\<rparr>"

definition has_stale_key :: "'k \<Rightarrow> 'k engine \<Rightarrow> bool" where
  "has_stale_key key e \<longleftrightarrow> key \<in> stale_keys (tracker e)"

definition clear_stale_key :: "'k \<Rightarrow> 'k engine \<Rightarrow> 'k engine" where
  "clear_stale_key key e =
     e\<lparr>tracker := (tracker e)\<lparr>stale_keys := stale_keys (tracker e) - {key}\<rparr>\<rparr>"

definition unnote_held_key :: "'k \<Rightarrow> hid_usage \<Rightarrow> 'k engine \<Rightarrow> 'k engine" where
  "unnote_held_key key usage e =
     (let t = (tracker e)\<lparr>pressed_keys := pressed_keys (tracker e) - {key}\<rparr>
      in case hid_usage_to_modifier_bit usage of
           Some b \<Rightarrow> e\<lparr>modifier_state := modifier_state e AND NOT (bit_mask b),
                       tracker := t\<lparr>forwarded_modifiers := forwarded_modifiers t AND NOT (bit_mask b)\<rparr>\<rparr>
         | None \<Rightarrow> e\<lparr>tracker := t\<lparr>stale_keys := stale_keys t - {key}\<rparr>\<rparr>)"

definition held_modifier_forwarded :: "hid_usage \<Rightarrow> 'k engine \<Rightarrow> bool" where
  "held_modifier_forwarded usage e =
     (case hid_usage_to_modifier_bit usage of
        Some b \<Rightarrow> forwarded_modifiers (tracker e) AND bit_mask b \<noteq> 0
      | None \<Rightarrow> False)"

section \<open>Decisions\<close>

definition output_held_mask :: "native_key \<Rightarrow> u8 option" where
  "output_held_mask nk =
     (case hid_usage_to_modifier_bit (nk_usage nk) of
        Some b \<Rightarrow> Some (bit_mask b OR nk_modifiers nk) | None \<Rightarrow> None)"

text \<open>The loop over the outputs: the holds recorded, and the or of their masks.\<close>

fun hold_outputs :: "'k \<Rightarrow> native_key list \<Rightarrow> u8 \<Rightarrow> 'k key_tracker \<Rightarrow> u8 \<times> 'k key_tracker" where
  "hold_outputs key [] held_mask t = (held_mask, t)"
| "hold_outputs key (nk # nks) held_mask t =
     (case output_held_mask nk of
        Some msk \<Rightarrow> hold_outputs key nks (held_mask OR msk) (hold_output_modifiers key msk t)
      | None \<Rightarrow> hold_outputs key nks held_mask t)"

definition decide_mapped ::
  "'k \<Rightarrow> hid_usage \<Rightarrow> u8 \<Rightarrow> native_key list \<Rightarrow> 'k engine \<Rightarrow> decision \<times> 'k engine" where
  "decide_mapped key usage lookup_modifiers outputs e =
     (let t1 = (tracker e)\<lparr>swallowed_keys := insert key (swallowed_keys (tracker e))\<rparr>;
          ((consumed, held_consumed), t2) = consume_triggered lookup_modifiers t1;
          ms1 = modifier_state e AND NOT held_consumed;
          ms2 = (case hid_usage_to_modifier_bit usage of
                   Some b \<Rightarrow> ms1 AND NOT (bit_mask b) | None \<Rightarrow> ms1);
          (held_mask, t3) = hold_outputs key outputs 0 t2;
          ms3 = (if held_mask \<noteq> 0 then ms2 OR held_mask else ms2)
      in (Emit consumed outputs, e\<lparr>modifier_state := ms3, tracker := t3\<rparr>))"

definition decide_unmapped :: "hid_usage \<Rightarrow> 'k engine \<Rightarrow> decision \<times> 'k engine" where
  "decide_unmapped usage e =
     (Pass,
      case hid_usage_to_modifier_bit usage of
        Some b \<Rightarrow> e\<lparr>tracker := record_forwarded_down b (tracker e)\<rparr> | None \<Rightarrow> e)"

definition decide_down ::
  "'s lookup \<Rightarrow> 's \<Rightarrow> 'k \<Rightarrow> hid_usage \<Rightarrow> string option \<Rightarrow> bool \<Rightarrow> 'k engine
    \<Rightarrow> decision \<times> 'k engine \<times> 's" where
  "decide_down lk ls key usage device_id reachable e =
     (let t = tracker e in
      if key \<in> pressed_keys t then
        (if key \<in> swallowed_keys t \<or> key \<in> stale_keys t then SwallowD 0 else Pass, e, ls)
      else
        let e1 = e\<lparr>tracker := t\<lparr>pressed_keys := insert key (pressed_keys t)\<rparr>\<rparr>;
            lookup_modifiers = modifier_state e1;
            e2 = (case hid_usage_to_modifier_bit usage of
                    Some b \<Rightarrow> e1\<lparr>modifier_state := modifier_state e1 OR bit_mask b\<rparr> | None \<Rightarrow> e1)
        in if \<not> reachable then (Pass, e2, ls)
           else
             let (outputs, ls') = resolve lk ls usage lookup_modifiers device_id;
                 (d, e3) = (case outputs of
                     Some os \<Rightarrow> decide_mapped key usage lookup_modifiers os e2
                   | None \<Rightarrow> decide_unmapped usage e2)
             in (d, e3, ls'))"

definition decide_up :: "'k \<Rightarrow> hid_usage \<Rightarrow> 'k engine \<Rightarrow> decision \<times> 'k engine" where
  "decide_up key usage e =
     (let t = tracker e in
      if key \<notin> pressed_keys t then (Pass, e)
      else
        let t1 = t\<lparr>pressed_keys := pressed_keys t - {key}, stale_keys := stale_keys t - {key}\<rparr>;
            ms = (case hid_usage_to_modifier_bit usage of
                    Some b \<Rightarrow> modifier_state e AND NOT (bit_mask b) | None \<Rightarrow> modifier_state e);
            (fate, t2) = release key usage t1
        in case fate of
             Some (FateSwallow rel) \<Rightarrow>
               (SwallowD rel,
                e\<lparr>modifier_state := (if rel \<noteq> 0 then ms AND NOT rel else ms), tracker := t2\<rparr>)
           | Some FateConsumed \<Rightarrow> (ConsumedRelease, e\<lparr>modifier_state := ms, tracker := t2\<rparr>)
           | None \<Rightarrow> (Pass, e\<lparr>modifier_state := ms, tracker := t2\<rparr>))"

definition decide ::
  "'s lookup \<Rightarrow> 's \<Rightarrow> 'k \<Rightarrow> hid_usage \<Rightarrow> bool \<Rightarrow> string option \<Rightarrow> bool \<Rightarrow> 'k engine
    \<Rightarrow> decision \<times> 'k engine \<times> 's" where
  "decide lk ls key usage down device_id reachable e =
     (if down then decide_down lk ls key usage device_id reachable e
      else (let (d, e') = decide_up key usage e in (d, e', ls)))"

section \<open>What the operations do to the sets of bits\<close>

definition held_bits :: "('k, u8) index_map \<Rightarrow> nat set" where
  "held_bits hs = (\<Union>p \<in> set hs. bits_of (snd p))"

lemma held_bits_simps [simp]:
  "held_bits [] = {}" "held_bits (p # hs) = bits_of (snd p) \<union> held_bits hs"
  by (simp_all add: held_bits_def)

lemma consume_held_spec:
  "consume_held m hs = (hs', held) \<Longrightarrow>
     bits_of held = bits_of m \<inter> held_bits hs \<and> held_bits hs' = held_bits hs - bits_of m
     \<and> fst ` set hs' \<subseteq> fst ` set hs \<and> (distinct (map fst hs) \<longrightarrow> distinct (map fst hs'))
     \<and> list_all (\<lambda>p. snd p \<noteq> 0) hs'"
proof (induction m hs arbitrary: hs' held rule: consume_held.induct)
  case (2 m k msk hs)
  obtain hs1 held1 where r: "consume_held m hs = (hs1, held1)" by force
  note IH = "2.IH" [OF refl refl r]
  from "2.prems" r have held: "held = (msk AND m) OR held1"
    and hs': "hs' = (if msk AND NOT (msk AND m) \<noteq> 0 then (k, msk AND NOT (msk AND m)) # hs1 else hs1)"
    by (auto simp: Let_def split: if_splits)
  have z: "msk AND NOT (msk AND m) = 0 \<longleftrightarrow> bits_of msk \<subseteq> bits_of m"
    unfolding bits_of_empty_iff [symmetric] bits_of_and_not by auto
  have b: "bits_of (msk AND NOT (msk AND m)) = bits_of msk - bits_of m"
    unfolding bits_of_and_not by auto
  from IH z b show ?case unfolding held hs' by (auto simp del: bits_of_and_not)
qed simp

lemma held_bits_insert:
  "held_bits (im_insert k v hs) \<subseteq> bits_of v \<union> held_bits hs"
  by (induction k v hs rule: im_insert.induct) auto

lemma held_bits_insert_get:
  "held_bits (im_insert k (case im_get hs k of Some m \<Rightarrow> m OR v | None \<Rightarrow> v) hs) =
     bits_of v \<union> held_bits hs"
proof -
  have "held_bits (im_insert k w hs) = bits_of w \<union> held_bits hs"
    if "\<And>m. im_get hs k = Some m \<Longrightarrow> bits_of m \<subseteq> bits_of w" for w
    using that by (induction k w hs rule: im_insert.induct) (auto simp: im_get_def split: if_splits)
  then show ?thesis
  proof (cases "im_get hs k")
    case (Some m)
    then have "(k, m) \<in> set hs" by (simp add: im_get_def map_of_SomeD)
    then have "bits_of m \<subseteq> held_bits hs" by (force simp: held_bits_def)
    moreover have "held_bits (im_insert k (m OR v) hs) = bits_of (m OR v) \<union> held_bits hs"
      using Some \<open>\<And>w. (\<And>m. im_get hs k = Some m \<Longrightarrow> bits_of m \<subseteq> bits_of w) \<Longrightarrow> _\<close> by simp
    ultimately show ?thesis using Some by auto
  qed simp
qed

lemma im_insert_keys_set: "fst ` set (im_insert k v hs) = insert k (fst ` set hs)"
  using im.set_keys_insert [of k v hs] by (simp add: im_keys_def)

lemma im_insert_distinct: "distinct (map fst hs) \<Longrightarrow> distinct (map fst (im_insert k v hs))"
  using im.distinct_keys_insert [of hs k v] by (simp add: im_keys_def)

definition outputs_mask :: "native_key list \<Rightarrow> u8" where
  "outputs_mask nks = or_list (map (\<lambda>nk. case output_held_mask nk of Some m \<Rightarrow> m | None \<Rightarrow> 0) nks)"

lemma hold_output_modifiers_frame [simp]:
  "pressed_keys (hold_output_modifiers key msk t) = pressed_keys t"
  "swallowed_keys (hold_output_modifiers key msk t) = swallowed_keys t"
  "forwarded_modifiers (hold_output_modifiers key msk t) = forwarded_modifiers t"
  "consumed_modifiers (hold_output_modifiers key msk t) = consumed_modifiers t"
  "stale_keys (hold_output_modifiers key msk t) = stale_keys t"
  by (simp_all add: hold_output_modifiers_def)

lemma hold_output_modifiers_held:
  "held_bits (held_output_modifiers (hold_output_modifiers key msk t)) =
     held_bits (held_output_modifiers t) \<union> bits_of msk"
  "fst ` set (held_output_modifiers (hold_output_modifiers key msk t))
     \<subseteq> insert key (fst ` set (held_output_modifiers t))"
  "distinct (map fst (held_output_modifiers t)) \<Longrightarrow>
     distinct (map fst (held_output_modifiers (hold_output_modifiers key msk t)))"
  by (auto simp: hold_output_modifiers_def held_bits_insert_get im_insert_keys_set im_insert_distinct)

lemma hold_outputs_frame [simp]:
  "pressed_keys (snd (hold_outputs key nks hm t)) = pressed_keys t"
  "swallowed_keys (snd (hold_outputs key nks hm t)) = swallowed_keys t"
  "forwarded_modifiers (snd (hold_outputs key nks hm t)) = forwarded_modifiers t"
  "consumed_modifiers (snd (hold_outputs key nks hm t)) = consumed_modifiers t"
  "stale_keys (snd (hold_outputs key nks hm t)) = stale_keys t"
  by (induction key nks hm t rule: hold_outputs.induct) (simp_all split: option.split)

lemma hold_outputs_held:
  "hold_outputs key nks hm t = (hm', t') \<Longrightarrow>
     hm' = hm OR outputs_mask nks
     \<and> held_bits (held_output_modifiers t') = held_bits (held_output_modifiers t) \<union> bits_of (outputs_mask nks)
     \<and> fst ` set (held_output_modifiers t') \<subseteq> insert key (fst ` set (held_output_modifiers t))
     \<and> (distinct (map fst (held_output_modifiers t)) \<longrightarrow> distinct (map fst (held_output_modifiers t')))"
proof (induction key nks hm t arbitrary: hm' t' rule: hold_outputs.induct)
  case (2 key nk nks hm t)
  show ?case
  proof (cases "output_held_mask nk")
    case None
    with 2 show ?thesis by (simp add: outputs_mask_def)
  next
    case (Some msk)
    from "2.prems" Some have r: "hold_outputs key nks (hm OR msk) (hold_output_modifiers key msk t) = (hm', t')"
      by simp
    have om: "outputs_mask (nk # nks) = msk OR outputs_mask nks"
      by (simp add: outputs_mask_def Some)
    note IH = "2.IH"(2) [OF Some r]
    from IH hold_output_modifiers_held(2) [of key msk t]
    have "fst ` set (held_output_modifiers t') \<subseteq> insert key (fst ` set (held_output_modifiers t))" by blast
    with IH hold_output_modifiers_held(1,3) [where key = key and msk = msk and t = t] show ?thesis
      unfolding om by (simp add: or.assoc Un_assoc)
  qed
qed (auto simp: outputs_mask_def)

section \<open>The invariant\<close>

text \<open>
  \<open>U\<close> is the usage of each key. The modifier bits that keys \<open>ks\<close> account for:
\<close>

definition key_bits :: "('k \<Rightarrow> hid_usage) \<Rightarrow> 'k set \<Rightarrow> nat set" where
  "key_bits U ks = (\<Union>k \<in> ks. bits_of (usage_mask (U k)))"

lemma key_bits_simps [simp]:
  "key_bits U {} = {}" "key_bits U (insert k ks) = bits_of (usage_mask (U k)) \<union> key_bits U ks"
  by (auto simp: key_bits_def)

lemma key_bits_mono: "ks \<subseteq> ks' \<Longrightarrow> key_bits U ks \<subseteq> key_bits U ks'"
  by (auto simp: key_bits_def)

lemma key_bits_remove: "key_bits U ks - bits_of (usage_mask (U k)) \<subseteq> key_bits U (ks - {k})"
  by (auto simp: key_bits_def)

text \<open>
  Who accounts for what: a swallowed key is down; a key holding output modifiers is swallowed; a
  lookup bit belongs to a key that is down or to a held output; forwarded and consumed bits are
  disjoint and belong to keys that are down and not swallowed.
\<close>

definition tracker_ok :: "'k key_tracker \<Rightarrow> bool" where
  "tracker_ok t \<longleftrightarrow>
     swallowed_keys t \<subseteq> pressed_keys t
     \<and> fst ` set (held_output_modifiers t) \<subseteq> swallowed_keys t
     \<and> distinct (map fst (held_output_modifiers t))"

definition masks_ok :: "('k \<Rightarrow> hid_usage) \<Rightarrow> 'k key_tracker \<Rightarrow> bool" where
  "masks_ok U t \<longleftrightarrow>
     bits_of (forwarded_modifiers t) \<inter> bits_of (consumed_modifiers t) = {}
     \<and> bits_of (forwarded_modifiers t) \<union> bits_of (consumed_modifiers t)
         \<subseteq> key_bits U (pressed_keys t - swallowed_keys t)"

definition state_ok :: "('k \<Rightarrow> hid_usage) \<Rightarrow> 'k engine \<Rightarrow> bool" where
  "state_ok U e \<longleftrightarrow>
     bits_of (modifier_state e)
       \<subseteq> key_bits U (pressed_keys (tracker e)) \<union> held_bits (held_output_modifiers (tracker e))"

definition engine_ok :: "('k \<Rightarrow> hid_usage) \<Rightarrow> 'k engine \<Rightarrow> bool" where
  "engine_ok U e \<longleftrightarrow> tracker_ok (tracker e) \<and> masks_ok U (tracker e) \<and> state_ok U e"

lemma engine_ok_new: "engine_ok U engine_new"
  by (simp add: engine_ok_def tracker_ok_def masks_ok_def state_ok_def engine_new_def tracker_default_def)

lemma usage_mask_Some [simp]: "hid_usage_to_modifier_bit u = Some b \<Longrightarrow> usage_mask u = bit_mask b"
  by (simp add: usage_mask_def)

lemma usage_mask_None [simp]: "hid_usage_to_modifier_bit u = None \<Longrightarrow> usage_mask u = 0"
  by (simp add: usage_mask_def)

text \<open>The mask updates of the code, in terms of the key's own mask.\<close>

lemma set_own_bit:
  "(case hid_usage_to_modifier_bit u of
      Some b \<Rightarrow> e\<lparr>modifier_state := modifier_state e OR bit_mask b\<rparr> | None \<Rightarrow> e)
   = e\<lparr>modifier_state := modifier_state e OR usage_mask u\<rparr>"
  by (cases "hid_usage_to_modifier_bit u") simp_all

lemma clear_own_bit:
  "(case hid_usage_to_modifier_bit u of Some b \<Rightarrow> m AND NOT (bit_mask b) | None \<Rightarrow> m)
   = m AND NOT (usage_mask u)"
  by (cases "hid_usage_to_modifier_bit u") simp_all

lemma or_if_nonzero: "(if h \<noteq> 0 then m OR h else m) = m OR (h :: u8)"
  by simp

lemma and_not_if_nonzero: "(if r \<noteq> 0 then m AND NOT r else m) = m AND NOT (r :: u8)"
  by simp

lemma record_forwarded_fields [simp]:
  "pressed_keys (record_forwarded_down b t) = pressed_keys t"
  "swallowed_keys (record_forwarded_down b t) = swallowed_keys t"
  "held_output_modifiers (record_forwarded_down b t) = held_output_modifiers t"
  "stale_keys (record_forwarded_down b t) = stale_keys t"
  "forwarded_modifiers (record_forwarded_down b t) = forwarded_modifiers t OR bit_mask b"
  "consumed_modifiers (record_forwarded_down b t) = consumed_modifiers t AND NOT (bit_mask b)"
  by (simp_all add: record_forwarded_down_def)

lemma consume_triggered_spec:
  assumes "consume_triggered m t = ((consumed, held), t')"
  shows "bits_of consumed = bits_of m \<inter> (bits_of (forwarded_modifiers t) \<union> held_bits (held_output_modifiers t))"
    and "bits_of held = bits_of m \<inter> held_bits (held_output_modifiers t)"
    and "bits_of (forwarded_modifiers t') = bits_of (forwarded_modifiers t) - bits_of m"
    and "bits_of (consumed_modifiers t') =
      bits_of (consumed_modifiers t) \<union> (bits_of m \<inter> bits_of (forwarded_modifiers t))"
    and "held_bits (held_output_modifiers t') = held_bits (held_output_modifiers t) - bits_of m"
    and "fst ` set (held_output_modifiers t') \<subseteq> fst ` set (held_output_modifiers t)"
    and "distinct (map fst (held_output_modifiers t)) \<Longrightarrow> distinct (map fst (held_output_modifiers t'))"
    and "pressed_keys t' = pressed_keys t" and "swallowed_keys t' = swallowed_keys t"
    and "stale_keys t' = stale_keys t"
proof -
  obtain hs h where r: "consume_held m (held_output_modifiers t) = (hs, h)" by force
  note spec = consume_held_spec [OF r]
  have t': "t' = t\<lparr>forwarded_modifiers := forwarded_modifiers t AND NOT (m AND forwarded_modifiers t),
      consumed_modifiers := consumed_modifiers t OR (m AND forwarded_modifiers t),
      held_output_modifiers := hs\<rparr>"
    and c: "consumed = (m AND forwarded_modifiers t) OR held" and h: "held = h"
    using assms r by (auto simp: consume_triggered_def Let_def)
  have b: "bits_of (f AND NOT (m AND f)) = bits_of f - bits_of m" for f
    unfolding bits_of_and_not by auto
  show "bits_of consumed = bits_of m \<inter> (bits_of (forwarded_modifiers t) \<union> held_bits (held_output_modifiers t))"
    "bits_of held = bits_of m \<inter> held_bits (held_output_modifiers t)"
    using spec by (auto simp: c h)
  show "bits_of (forwarded_modifiers t') = bits_of (forwarded_modifiers t) - bits_of m"
    using b [of "forwarded_modifiers t"] by (simp add: t' del: bits_of_and bits_of_and_not)
  show "bits_of (consumed_modifiers t') =
      bits_of (consumed_modifiers t) \<union> (bits_of m \<inter> bits_of (forwarded_modifiers t))"
    by (simp add: t')
  show "held_bits (held_output_modifiers t') = held_bits (held_output_modifiers t) - bits_of m"
    "fst ` set (held_output_modifiers t') \<subseteq> fst ` set (held_output_modifiers t)"
    "distinct (map fst (held_output_modifiers t)) \<Longrightarrow> distinct (map fst (held_output_modifiers t'))"
    using spec by (simp_all add: t')
qed (use assms in \<open>auto simp: consume_triggered_def Let_def split: prod.splits\<close>)

lemma decide_mapped_spec:
  assumes "decide_mapped key u m os e = (d, e')"
  defines "t \<equiv> tracker e" and "t' \<equiv> tracker e'"
  shows "\<exists>c. d = Emit c os
      \<and> bits_of c = bits_of m \<inter> (bits_of (forwarded_modifiers t) \<union> held_bits (held_output_modifiers t))"
    and "bits_of (modifier_state e') =
      (bits_of (modifier_state e) - (bits_of m \<inter> held_bits (held_output_modifiers t)) - bits_of (usage_mask u))
      \<union> bits_of (outputs_mask os)"
    and "bits_of (forwarded_modifiers t') = bits_of (forwarded_modifiers t) - bits_of m"
    and "bits_of (consumed_modifiers t') =
      bits_of (consumed_modifiers t) \<union> (bits_of m \<inter> bits_of (forwarded_modifiers t))"
    and "held_bits (held_output_modifiers t') =
      (held_bits (held_output_modifiers t) - bits_of m) \<union> bits_of (outputs_mask os)"
    and "fst ` set (held_output_modifiers t') \<subseteq> insert key (fst ` set (held_output_modifiers t))"
    and "distinct (map fst (held_output_modifiers t)) \<Longrightarrow> distinct (map fst (held_output_modifiers t'))"
    and "pressed_keys t' = pressed_keys t" and "swallowed_keys t' = insert key (swallowed_keys t)"
    and "stale_keys t' = stale_keys t"
proof -
  define t1 where "t1 = t\<lparr>swallowed_keys := insert key (swallowed_keys t)\<rparr>"
  obtain c h t2 where ct: "consume_triggered m t1 = ((c, h), t2)" by (metis surj_pair)
  obtain hm t3 where ho: "hold_outputs key os 0 t2 = (hm, t3)" by force
  note spec = consume_triggered_spec [OF ct] and hold = hold_outputs_held [OF ho]
    and frame = hold_outputs_frame [of key os 0 t2, unfolded ho snd_conv]
  have d: "d = Emit c os"
    and e': "e' = e\<lparr>modifier_state := ((modifier_state e AND NOT h) AND NOT (usage_mask u)) OR hm, tracker := t3\<rparr>"
    using assms(1) ct ho
    by (simp_all add: decide_mapped_def t1_def t_def Let_def clear_own_bit or_if_nonzero)
  show "\<exists>c. d = Emit c os
      \<and> bits_of c = bits_of m \<inter> (bits_of (forwarded_modifiers t) \<union> held_bits (held_output_modifiers t))"
    using spec(1) by (simp add: d t1_def)
  show "bits_of (modifier_state e') =
      (bits_of (modifier_state e) - (bits_of m \<inter> held_bits (held_output_modifiers t)) - bits_of (usage_mask u))
      \<union> bits_of (outputs_mask os)"
    using spec(2) hold
    by (simp add: e' t1_def bits_of_and_not del: bits_of_and)
  show "bits_of (forwarded_modifiers t') = bits_of (forwarded_modifiers t) - bits_of m"
    "bits_of (consumed_modifiers t') =
      bits_of (consumed_modifiers t) \<union> (bits_of m \<inter> bits_of (forwarded_modifiers t))"
    "pressed_keys t' = pressed_keys t" "swallowed_keys t' = insert key (swallowed_keys t)"
    "stale_keys t' = stale_keys t"
    using spec frame by (simp_all add: t'_def e' t1_def)
  show "held_bits (held_output_modifiers t') =
      (held_bits (held_output_modifiers t) - bits_of m) \<union> bits_of (outputs_mask os)"
    using spec(5) hold by (simp add: t'_def e' t1_def)
  show "fst ` set (held_output_modifiers t') \<subseteq> insert key (fst ` set (held_output_modifiers t))"
  proof -
    have "fst ` set (held_output_modifiers t3) \<subseteq> insert key (fst ` set (held_output_modifiers t2))"
      using hold by simp
    also have "\<dots> \<subseteq> insert key (fst ` set (held_output_modifiers t))"
      using spec(6) by (intro insert_mono) (simp add: t1_def)
    finally show ?thesis by (simp add: t'_def e')
  qed
  show "distinct (map fst (held_output_modifiers t)) \<Longrightarrow> distinct (map fst (held_output_modifiers t'))"
    using spec(7) hold by (simp add: t'_def e' t1_def)
qed

text \<open>A fresh key-down: the key is noted, then the lookup decides.\<close>

definition mark_down :: "'k \<Rightarrow> hid_usage \<Rightarrow> 'k engine \<Rightarrow> 'k engine" where
  "mark_down key u e =
     e\<lparr>tracker := (tracker e)\<lparr>pressed_keys := insert key (pressed_keys (tracker e))\<rparr>,
       modifier_state := modifier_state e OR usage_mask u\<rparr>"

lemma decide_down_fresh:
  assumes "key \<notin> pressed_keys (tracker e)"
  shows "decide_down lk ls key u dev reachable e =
    (if \<not> reachable then (Pass, mark_down key u e, ls)
     else (case resolve lk ls u (modifier_state e) dev of
         (Some os, ls') \<Rightarrow> (let (d, e3) = decide_mapped key u (modifier_state e) os (mark_down key u e) in (d, e3, ls'))
       | (None, ls') \<Rightarrow> (let (d, e3) = decide_unmapped u (mark_down key u e) in (d, e3, ls'))))"
  using assms(1)
  by (simp add: decide_down_def Let_def set_own_bit mark_down_def case_prod_beta split: option.split)

lemma decide_unmapped_eq:
  "decide_unmapped u e =
     (Pass, e\<lparr>tracker := (tracker e)\<lparr>
        forwarded_modifiers := forwarded_modifiers (tracker e) OR usage_mask u,
        consumed_modifiers := consumed_modifiers (tracker e) AND NOT (usage_mask u)\<rparr>\<rparr>)"
  by (cases "hid_usage_to_modifier_bit u")
    (simp_all add: decide_unmapped_def record_forwarded_down_def)

lemma decide_mapped_ok:
  assumes ok: "engine_ok U e" and new: "key \<notin> pressed_keys (tracker e)"
    and m: "decide_mapped key (U key) (modifier_state e) os (mark_down key (U key) e) = (d, e')"
  shows "engine_ok U e'"
proof -
  note spec = decide_mapped_spec [OF m, unfolded mark_down_def, simplified]
  have t: "tracker_ok (tracker e)" and k: "masks_ok U (tracker e)" and s: "state_ok U e"
    using ok by (simp_all add: engine_ok_def)
  have "tracker_ok (tracker e')"
    using t spec(6-9) unfolding tracker_ok_def by (metis dual_order.trans insert_mono)
  moreover have "masks_ok U (tracker e')"
  proof -
    have "pressed_keys (tracker e) - swallowed_keys (tracker e)
        \<subseteq> pressed_keys (tracker e') - swallowed_keys (tracker e')"
      using new spec(8,9) by auto
    then have "key_bits U (pressed_keys (tracker e) - swallowed_keys (tracker e))
        \<subseteq> key_bits U (pressed_keys (tracker e') - swallowed_keys (tracker e'))"
      by (rule key_bits_mono)
    with k spec(3,4) show ?thesis unfolding masks_ok_def by blast
  qed
  moreover have "state_ok U e'"
    using s spec(2,5,8) unfolding state_ok_def by auto
  ultimately show ?thesis by (simp add: engine_ok_def)
qed

lemma decide_unmapped_ok:
  assumes ok: "engine_ok U e" and new: "key \<notin> pressed_keys (tracker e)"
  shows "engine_ok U (snd (decide_unmapped (U key) (mark_down key (U key) e)))"
proof -
  have "key \<notin> swallowed_keys (tracker e)" using ok new by (auto simp: engine_ok_def tracker_ok_def)
  then show ?thesis
    using ok
    by (auto simp: mark_down_def decide_unmapped_eq engine_ok_def tracker_ok_def masks_ok_def state_ok_def insert_Diff_if
        bits_of_and_not simp del: bits_of_and)
qed

lemma decide_down_ok:
  assumes ok: "engine_ok U e"
  shows "engine_ok U (fst (snd (decide_down lk ls key (U key) dev reachable e)))"
proof (cases "key \<in> pressed_keys (tracker e)")
  case True
  then show ?thesis using ok by (simp add: decide_down_def Let_def)
next
  case new: False
  let ?e2 = "mark_down key (U key) e"
  have sw: "key \<notin> swallowed_keys (tracker e)" using ok new by (auto simp: engine_ok_def tracker_ok_def)
  have "engine_ok U ?e2"
    using ok sw by (auto simp: mark_down_def engine_ok_def tracker_ok_def masks_ok_def state_ok_def insert_Diff_if)
  moreover have "engine_ok U (snd (decide_mapped key (U key) (modifier_state e) os ?e2))" for os
    using decide_mapped_ok [OF ok new, of os] by (metis prod.collapse)
  ultimately show ?thesis
    using decide_unmapped_ok [OF ok new]
    by (simp add: decide_down_fresh [OF new] case_prod_beta split: option.split)
qed

text \<open>A key-up, in closed form.\<close>

definition held_mask_of :: "'k \<Rightarrow> ('k, u8) index_map \<Rightarrow> u8" where
  "held_mask_of key hs = (case im_get hs key of Some m \<Rightarrow> m | None \<Rightarrow> 0)"

lemma decide_up_eq:
  "decide_up key u e =
    (let t = tracker e; um = usage_mask u;
         t1 = t\<lparr>pressed_keys := pressed_keys t - {key}, stale_keys := stale_keys t - {key}\<rparr>;
         rel = held_mask_of key (held_output_modifiers t)
     in if key \<notin> pressed_keys t then (Pass, e)
        else if key \<in> swallowed_keys t then
          (SwallowD rel, e\<lparr>modifier_state := (modifier_state e AND NOT um) AND NOT rel,
             tracker := t1\<lparr>swallowed_keys := swallowed_keys t - {key},
               held_output_modifiers := filter (\<lambda>p. fst p \<noteq> key) (held_output_modifiers t)\<rparr>\<rparr>)
        else if consumed_modifiers t AND um \<noteq> 0 then
          (ConsumedRelease, e\<lparr>modifier_state := modifier_state e AND NOT um,
             tracker := t1\<lparr>consumed_modifiers := consumed_modifiers t AND NOT um\<rparr>\<rparr>)
        else (Pass, e\<lparr>modifier_state := modifier_state e AND NOT um,
             tracker := t1\<lparr>forwarded_modifiers := forwarded_modifiers t AND NOT um\<rparr>\<rparr>))"
  by (cases "hid_usage_to_modifier_bit u")
    (simp_all add: decide_up_def release_def Let_def held_mask_of_def and_not_if_nonzero)

lemma held_bits_remove:
  "distinct (map fst hs) \<Longrightarrow>
   held_bits hs \<subseteq> bits_of (held_mask_of key hs) \<union> held_bits (filter (\<lambda>p. fst p \<noteq> key) hs)"
proof
  fix i assume d: "distinct (map fst hs)" and "i \<in> held_bits hs"
  then obtain k m where km: "(k, m) \<in> set hs" "i \<in> bits_of m" by (auto simp: held_bits_def)
  show "i \<in> bits_of (held_mask_of key hs) \<union> held_bits (filter (\<lambda>p. fst p \<noteq> key) hs)"
  proof (cases "k = key")
    case True
    with km d have "im_get hs key = Some m" by (simp add: im_get_def)
    then show ?thesis using km by (simp add: held_mask_of_def)
  next
    case False
    with km show ?thesis by (force simp: held_bits_def)
  qed
qed

lemma decide_up_ok:
  assumes ok: "engine_ok U e"
  shows "engine_ok U (snd (decide_up key (U key) e))"
proof -
  let ?t = "tracker e"
  let ?P = "pressed_keys ?t" and ?S = "swallowed_keys ?t"
  have t: "tracker_ok ?t" and k: "masks_ok U ?t" and s: "state_ok U e"
    using ok by (simp_all add: engine_ok_def)
  consider "key \<notin> ?P" | "key \<in> ?P" "key \<in> ?S" | "key \<in> ?P" "key \<notin> ?S" by blast
  then show ?thesis
  proof cases
    case 1
    then show ?thesis using ok by (simp add: decide_up_eq)
  next
    case 2
    let ?hs = "held_output_modifiers ?t"
    have eq: "(?P - {key}) - (?S - {key}) = ?P - ?S" using 2 by auto
    have d: "distinct (map fst ?hs)" using t by (simp add: tracker_ok_def)
    have st: "bits_of ((modifier_state e AND NOT (usage_mask (U key))) AND NOT (held_mask_of key ?hs))
        \<subseteq> key_bits U (?P - {key}) \<union> held_bits (filter (\<lambda>p. fst p \<noteq> key) ?hs)"
      using s held_bits_remove [OF d, of key] key_bits_remove [of U ?P key]
      unfolding bits_of_and_not state_ok_def by blast
    have tr: "tracker_ok (?t\<lparr>pressed_keys := ?P - {key}, stale_keys := stale_keys ?t - {key},
        swallowed_keys := ?S - {key}, held_output_modifiers := filter (\<lambda>p. fst p \<noteq> key) ?hs\<rparr>)"
      using t by (auto simp: tracker_ok_def distinct_map_filter)
    show ?thesis
      using 2 k st tr
      by (simp add: decide_up_eq Let_def engine_ok_def masks_ok_def state_ok_def eq
          del: bits_of_and bits_of_and_not)
  next
    case 3
    have e: "(?P - {key}) - ?S = (?P - ?S) - {key}" by auto
    have st: "bits_of (modifier_state e AND NOT (usage_mask (U key)))
        \<subseteq> key_bits U (?P - {key}) \<union> held_bits (held_output_modifiers ?t)"
      using s key_bits_remove [of U ?P key] by (auto simp: state_ok_def bits_of_and_not simp del: bits_of_and)
    have tr: "?S \<subseteq> ?P - {key}" using t 3 by (auto simp: tracker_ok_def)
    have b: "bits_of (usage_mask (U key)) \<subseteq> {i} \<or> bits_of (usage_mask (U key)) = {}"
      if "i \<in> bits_of (usage_mask (U key))" for i
      using that modifier_bit_bound
      by (cases "hid_usage_to_modifier_bit (U key)") (auto simp: bits_of_bit_mask)
    show ?thesis
    proof (cases "consumed_modifiers ?t AND usage_mask (U key) = 0")
      case False
      then obtain i where i: "i \<in> bits_of (consumed_modifiers ?t)" "i \<in> bits_of (usage_mask (U key))"
        by (metis IntE bits_of_and bits_of_empty_iff ex_in_conv)
      then have "bits_of (usage_mask (U key)) = {i}" using b by blast
      then have "bits_of (forwarded_modifiers ?t) \<inter> bits_of (usage_mask (U key)) = {}"
        using k i(1) by (auto simp: masks_ok_def)
      then show ?thesis
        using 3 False t k st tr key_bits_remove [of U "?P - ?S" key]
        by (auto simp: decide_up_eq Let_def engine_ok_def tracker_ok_def masks_ok_def state_ok_def e
            bits_of_and_not simp del: bits_of_and)
    next
      case True
      then have "bits_of (consumed_modifiers ?t) \<inter> bits_of (usage_mask (U key)) = {}"
        by (metis bits_of_0 bits_of_and)
      then show ?thesis
        using 3 True t k st tr key_bits_remove [of U "?P - ?S" key]
        by (auto simp: decide_up_eq Let_def engine_ok_def tracker_ok_def masks_ok_def state_ok_def e
            bits_of_and_not simp del: bits_of_and)
    qed
  qed
qed

lemma fresh_emit_release:
  assumes "fst (decide_mapped key u (modifier_state e) os (mark_down key u e)) = Emit r os'"
  shows "os' = os \<and> bits_of r = bits_of (modifier_state e)
    \<inter> (bits_of (forwarded_modifiers (tracker e)) \<union> held_bits (held_output_modifiers (tracker e)))"
  using decide_mapped_spec(1) [OF prod.collapse [symmetric], of key u "modifier_state e" os "mark_down key u e"]
    assms
  by (simp add: mark_down_def)

section \<open>Runs of the engine\<close>

text \<open>
  An input carries the state of the shared lookup it is decided under, so between two inputs the
  focus may change and the rules may be reloaded in any way. The usage of a key is \<open>U\<close> of it.
\<close>

record ('k, 's) key_input =
  in_key :: 'k
  in_down :: bool
  in_device :: "string option"
  in_reachable :: bool
  in_lookup :: 's

definition engine_step ::
  "'s lookup \<Rightarrow> ('k \<Rightarrow> hid_usage) \<Rightarrow> ('k, 's) key_input \<Rightarrow> 'k engine \<Rightarrow> decision \<times> 'k engine" where
  "engine_step lk U i e =
     (let (d, e', _) = decide lk (in_lookup i) (in_key i) (U (in_key i)) (in_down i) (in_device i)
                         (in_reachable i) e
      in (d, e'))"

fun engine_run ::
  "'s lookup \<Rightarrow> ('k \<Rightarrow> hid_usage) \<Rightarrow> ('k, 's) key_input list \<Rightarrow> 'k engine \<Rightarrow> decision list \<times> 'k engine" where
  "engine_run lk U [] e = ([], e)"
| "engine_run lk U (i # is) e =
     (let (d, e1) = engine_step lk U i e; (ds, e2) = engine_run lk U is e1 in (d # ds, e2))"

lemma engine_run_append:
  "engine_run lk U (is @ js) e =
     (let (ds, e1) = engine_run lk U is e; (ds', e2) = engine_run lk U js e1 in (ds @ ds', e2))"
  by (induction "is" arbitrary: e) (simp_all add: Let_def case_prod_beta)

lemma engine_run_length: "length (fst (engine_run lk U is e)) = length is"
  by (induction "is" arbitrary: e) (simp_all add: Let_def case_prod_beta)

lemma engine_step_simps:
  "engine_step lk U i e =
     (if in_down i then
        (fst (decide_down lk (in_lookup i) (in_key i) (U (in_key i)) (in_device i) (in_reachable i) e),
         fst (snd (decide_down lk (in_lookup i) (in_key i) (U (in_key i)) (in_device i) (in_reachable i) e)))
      else decide_up (in_key i) (U (in_key i)) e)"
  by (simp add: engine_step_def decide_def case_prod_beta Let_def)

lemma engine_step_ok: "engine_ok U e \<Longrightarrow> engine_ok U (snd (engine_step lk U i e))"
  by (simp add: engine_step_simps decide_down_ok decide_up_ok)

lemma engine_run_ok: "engine_ok U e \<Longrightarrow> engine_ok U (snd (engine_run lk U is e))"
  by (induction "is" arbitrary: e) (simp_all add: Let_def case_prod_beta engine_step_ok)

text \<open>The keys whose last input was a key-down.\<close>

definition step_down_keys :: "('k, 's) key_input \<Rightarrow> 'k set \<Rightarrow> 'k set" where
  "step_down_keys i ks = (if in_down i then insert (in_key i) ks else ks - {in_key i})"

definition down_keys :: "('k, 's) key_input list \<Rightarrow> 'k set" where
  "down_keys is = fold step_down_keys is {}"

lemma decide_mapped_frame [simp]:
  "pressed_keys (tracker (snd (decide_mapped key u m os e))) = pressed_keys (tracker e)"
  "swallowed_keys (tracker (snd (decide_mapped key u m os e))) = insert key (swallowed_keys (tracker e))"
  "stale_keys (tracker (snd (decide_mapped key u m os e))) = stale_keys (tracker e)"
  using decide_mapped_spec(8-10) [OF prod.collapse [symmetric], of key u m os e] by simp_all

lemma decide_unmapped_frame [simp]:
  "fst (decide_unmapped u e) = Pass"
  "pressed_keys (tracker (snd (decide_unmapped u e))) = pressed_keys (tracker e)"
  "swallowed_keys (tracker (snd (decide_unmapped u e))) = swallowed_keys (tracker e)"
  "stale_keys (tracker (snd (decide_unmapped u e))) = stale_keys (tracker e)"
  by (simp_all add: decide_unmapped_eq)

lemma mark_down_simps [simp]:
  "modifier_state (mark_down key u e) = modifier_state e OR usage_mask u"
  "pressed_keys (tracker (mark_down key u e)) = insert key (pressed_keys (tracker e))"
  "swallowed_keys (tracker (mark_down key u e)) = swallowed_keys (tracker e)"
  "held_output_modifiers (tracker (mark_down key u e)) = held_output_modifiers (tracker e)"
  "forwarded_modifiers (tracker (mark_down key u e)) = forwarded_modifiers (tracker e)"
  "consumed_modifiers (tracker (mark_down key u e)) = consumed_modifiers (tracker e)"
  "stale_keys (tracker (mark_down key u e)) = stale_keys (tracker e)"
  by (simp_all add: mark_down_def)

lemma engine_step_pressed:
  "pressed_keys (tracker (snd (engine_step lk U i e))) = step_down_keys i (pressed_keys (tracker e))"
proof (cases "in_down i \<and> in_key i \<notin> pressed_keys (tracker e)")
  case True
  then show ?thesis
    by (simp add: engine_step_simps step_down_keys_def decide_down_fresh case_prod_beta split: option.split)
next
  case False
  then show ?thesis
    by (auto simp: engine_step_simps step_down_keys_def decide_down_def decide_up_eq Let_def)
qed

lemma engine_run_pressed:
  "pressed_keys (tracker (snd (engine_run lk U is e))) = fold step_down_keys is (pressed_keys (tracker e))"
  by (induction "is" arbitrary: e) (simp_all add: Let_def case_prod_beta engine_step_pressed)

lemma engine_step_stale:
  "stale_keys (tracker (snd (engine_step lk U i e))) \<subseteq> stale_keys (tracker e)"
proof (cases "in_down i \<and> in_key i \<notin> pressed_keys (tracker e)")
  case True
  then show ?thesis
    by (simp add: engine_step_simps decide_down_fresh case_prod_beta split: option.split)
next
  case False
  then show ?thesis
    by (auto simp: engine_step_simps decide_down_def decide_up_eq Let_def)
qed

lemma engine_run_stale:
  "stale_keys (tracker (snd (engine_run lk U is e))) \<subseteq> stale_keys (tracker e)"
proof (induction "is" arbitrary: e)
  case (Cons i js)
  then show ?case
    by (simp add: Let_def case_prod_beta) (rule order_trans [OF Cons.IH engine_step_stale])
qed simp

lemma engine_ok_no_key_down:
  assumes "engine_ok U e" "pressed_keys (tracker e) = {}" "stale_keys (tracker e) = {}"
  shows "e = engine_new"
proof -
  have s: "swallowed_keys (tracker e) = {}" and h: "held_output_modifiers (tracker e) = []"
    using assms by (auto simp: engine_ok_def tracker_ok_def)
  have "modifier_state e = 0" "forwarded_modifiers (tracker e) = 0" "consumed_modifiers (tracker e) = 0"
    using assms s h by (auto simp: engine_ok_def masks_ok_def state_ok_def simp flip: bits_of_empty_iff)
  with s h assms show ?thesis by (simp add: engine_new_def tracker_default_def)
qed

text \<open>Whether a key that stays down is swallowed does not change.\<close>

lemma engine_step_swallowed:
  assumes "key \<in> pressed_keys (tracker e)" "in_key i = key \<longrightarrow> in_down i"
  shows "key \<in> pressed_keys (tracker (snd (engine_step lk U i e)))
    \<and> (key \<in> swallowed_keys (tracker (snd (engine_step lk U i e))) \<longleftrightarrow> key \<in> swallowed_keys (tracker e))"
proof (cases "in_down i \<and> in_key i \<notin> pressed_keys (tracker e)")
  case True
  then show ?thesis using assms
    by (auto simp: engine_step_simps decide_down_fresh case_prod_beta split: option.split)
next
  case False
  then show ?thesis using assms
    by (auto simp: engine_step_simps decide_down_def decide_up_eq Let_def)
qed

lemma engine_run_swallowed:
  assumes "key \<in> pressed_keys (tracker e)" "\<forall>i \<in> set is. in_key i = key \<longrightarrow> in_down i"
  shows "key \<in> pressed_keys (tracker (snd (engine_run lk U is e)))
    \<and> (key \<in> swallowed_keys (tracker (snd (engine_run lk U is e))) \<longleftrightarrow> key \<in> swallowed_keys (tracker e))"
  using assms
proof (induction "is" arbitrary: e)
  case (Cons i js)
  have "in_key i = key \<longrightarrow> in_down i" using Cons.prems(2) by simp
  note step = engine_step_swallowed [OF Cons.prems(1) this, of lk U]
  have "\<forall>i \<in> set js. in_key i = key \<longrightarrow> in_down i" using Cons.prems(2) by simp
  from Cons.IH [OF conjunct1 [OF step] this] step show ?case
    by (simp add: Let_def case_prod_beta)
qed simp

definition is_emit :: "decision \<Rightarrow> bool" where
  "is_emit d \<longleftrightarrow> (\<exists>r os. d = Emit r os)"

definition is_swallow :: "decision \<Rightarrow> bool" where
  "is_swallow d \<longleftrightarrow> (\<exists>r. d = SwallowD r)"

lemma is_emit_simps [simp]:
  "is_emit (Emit r os)" "\<not> is_emit Pass" "\<not> is_emit (SwallowD r)" "\<not> is_emit ConsumedRelease"
  "is_swallow (SwallowD r)" "\<not> is_swallow Pass" "\<not> is_swallow (Emit r os)" "\<not> is_swallow ConsumedRelease"
  by (simp_all add: is_emit_def is_swallow_def)

lemma decide_mapped_emit [simp]: "is_emit (fst (decide_mapped key u m os e))"
  using decide_mapped_spec(1) [OF prod.collapse [symmetric], of key u m os e] by (auto simp: is_emit_def)

lemma fresh_down_swallowed:
  assumes "engine_ok U e" "in_down i" "in_key i \<notin> pressed_keys (tracker e)"
  shows "in_key i \<in> pressed_keys (tracker (snd (engine_step lk U i e)))
    \<and> (in_key i \<in> swallowed_keys (tracker (snd (engine_step lk U i e))) \<longleftrightarrow>
       is_emit (fst (engine_step lk U i e)))"
proof -
  have "in_key i \<notin> swallowed_keys (tracker e)"
    using assms by (auto simp: engine_ok_def tracker_ok_def)
  then show ?thesis using assms(2,3)
    by (simp add: engine_step_simps decide_down_fresh case_prod_beta split: option.split)
qed

lemma up_fate:
  assumes "\<not> in_down i" "in_key i \<in> pressed_keys (tracker e)"
  shows "is_swallow (fst (engine_step lk U i e)) \<longleftrightarrow> in_key i \<in> swallowed_keys (tracker e)"
  using assms by (simp add: engine_step_simps decide_up_eq Let_def)

section \<open>Properties\<close>

text \<open>
  C1. No state outlives the keys: whatever the sequence of inputs, and however focus, rules and
  reachability change in between, once every key that went down has come up again the engine is
  back in its initial state: no lookup bit, no forwarded, consumed or held modifier and no
  swallowed key is left behind.
\<close>
theorem engine_returns_to_initial:
  assumes "down_keys is = {}"
  shows "snd (engine_run lk U is engine_new) = engine_new"
proof (rule engine_ok_no_key_down)
  show "engine_ok U (snd (engine_run lk U is engine_new))"
    by (rule engine_run_ok [OF engine_ok_new])
  show "pressed_keys (tracker (snd (engine_run lk U is engine_new))) = {}"
    using assms by (simp add: engine_run_pressed engine_new_def tracker_default_def down_keys_def)
  show "stale_keys (tracker (snd (engine_run lk U is engine_new))) = {}"
    using engine_run_stale [of lk U "is" engine_new] by (simp add: engine_new_def tracker_default_def)
qed

lemma engine_returns_to_initial_witness:
  "snd (engine_run (test_lookup_ops id) (\<lambda>k :: nat. if k = 1 then CapsLock else F1)
      [\<lparr>in_key = 1, in_down = True, in_device = None, in_reachable = True, in_lookup = tl_from_config id (ac_visit_seq [])\<rparr>,
       \<lparr>in_key = 2, in_down = True, in_device = None, in_reachable = True, in_lookup = tl_from_config id (ac_visit_seq [])\<rparr>,
       \<lparr>in_key = 1, in_down = False, in_device = None, in_reachable = True, in_lookup = tl_from_config id (ac_visit_seq [])\<rparr>,
       \<lparr>in_key = 2, in_down = False, in_device = None, in_reachable = True, in_lookup = tl_from_config id (ac_visit_seq [])\<rparr>] engine_new)
   = engine_new"
  by (rule engine_returns_to_initial) (auto simp: down_keys_def step_down_keys_def)

text \<open>
  C7. A key-up follows its key-down: after any history, for a key that goes down, then sees no
  key-up while any other inputs (and its own auto-repeats) pass, the final key-up is swallowed if
  and only if the key-down was mapped, whatever happened to modifiers, rules, focus and
  reachability in between.
\<close>
theorem key_up_follows_key_down:
  assumes "in_down dn" "\<not> in_down up" "in_key up = in_key dn"
    and "in_key dn \<notin> down_keys pre"
    and "\<forall>i \<in> set mid. in_key i = in_key dn \<longrightarrow> in_down i"
  shows "(let ds = fst (engine_run lk U (pre @ [dn] @ mid @ [up]) engine_new)
    in is_swallow (last ds) \<longleftrightarrow> is_emit (ds ! length pre))"
proof -
  define e0 where "e0 = snd (engine_run lk U pre engine_new)"
  define e1 where "e1 = snd (engine_step lk U dn e0)"
  define e2 where "e2 = snd (engine_run lk U mid e1)"
  have ok: "engine_ok U e0" unfolding e0_def by (rule engine_run_ok [OF engine_ok_new])
  have new: "in_key dn \<notin> pressed_keys (tracker e0)"
    using assms(4) by (simp add: e0_def engine_run_pressed engine_new_def tracker_default_def down_keys_def)
  note d = fresh_down_swallowed [OF ok assms(1) new, of lk, folded e1_def]
  note m = engine_run_swallowed [OF conjunct1 [OF d] assms(5), of lk U, folded e2_def]
  have u: "is_swallow (fst (engine_step lk U up e2)) \<longleftrightarrow> in_key dn \<in> swallowed_keys (tracker e2)"
    using up_fate [OF assms(2), of e2 lk U] m assms(3) by simp
  have run: "fst (engine_run lk U (pre @ [dn] @ mid @ [up]) engine_new) =
      fst (engine_run lk U pre engine_new) @ [fst (engine_step lk U dn e0)]
      @ fst (engine_run lk U mid e1) @ [fst (engine_step lk U up e2)]"
    by (simp add: engine_run_append Let_def case_prod_beta e0_def e1_def e2_def)
  show ?thesis
    unfolding run Let_def using u m d by (simp add: nth_append engine_run_length)
qed

lemma key_up_follows_key_down_witness:
  "(let i = \<lambda>k d. \<lparr>in_key = k, in_down = d, in_device = None, in_reachable = True, in_lookup = tl_from_config id (ac_visit_seq [])\<rparr>;
        ds = fst (engine_run (test_lookup_ops id) (\<lambda>k :: nat. if k = 1 then CapsLock else F1)
               ([i 2 True] @ [i 1 True] @ [i 1 True, i 2 False] @ [i 1 False]) engine_new)
    in is_swallow (last ds) \<longleftrightarrow> is_emit (ds ! length [i 2 True]))"
  unfolding Let_def
  by (rule key_up_follows_key_down [unfolded Let_def])
    (simp_all add: down_keys_def step_down_keys_def)

text \<open>
  C6. What a fresh key-down does, for the live lookup of a configuration: with the emitter
  unreachable it passes; otherwise the decision is to emit exactly the outputs the configuration
  gives for the focused application, the key and the modifiers that were down before it (the key's
  own bit excluded), and to release exactly those of these modifiers that are forwarded or held on
  the output device; and if the configuration gives nothing, the key passes and a modifier counts
  as forwarded from then on. An auto-repeat is swallowed if the key-down was (or if the key was
  down before the stream), else passes, and changes nothing.
\<close>
theorem fresh_key_down_decision:
  fixes e :: "'k engine"
  shows "(let st = runtime_of uni c kbs f n;
       app = fst (rs_active_app env st);
       (d, e', st') = decide (runtime_lookup uni env) st key u True dev reachable e
   in if key \<in> pressed_keys (tracker e) then
        d = (if key \<in> swallowed_keys (tracker e) \<or> key \<in> stale_keys (tracker e) then SwallowD 0 else Pass)
        \<and> e' = e \<and> st' = st
      else if \<not> reachable then d = Pass \<and> e' = mark_down key u e \<and> st' = st
      else (case config_answer uni c kbs app u (modifier_state e) dev of
          Some os \<Rightarrow>
            (\<exists>r. d = Emit r os \<and> bits_of r = bits_of (modifier_state e)
               \<inter> (bits_of (forwarded_modifiers (tracker e)) \<union> held_bits (held_output_modifiers (tracker e))))
        | None \<Rightarrow>
            d = Pass \<and> bits_of (forwarded_modifiers (tracker e')) =
               bits_of (forwarded_modifiers (tracker e)) \<union> bits_of (usage_mask u)))"
proof -
  define st where "st = runtime_of uni c kbs f n"
  have r: "resolve (runtime_lookup uni env) st u m dev =
      (config_answer uni c kbs (fst (rs_active_app env st)) u m dev, snd (rs_active_app env st))" for m
    using runtime_resolve [where uni = uni and c = c and kbs = kbs and f = f and n = n and env = env]
    unfolding st_def by (simp add: Let_def case_prod_beta)
  show ?thesis
  proof (cases "key \<in> pressed_keys (tracker e)")
    case True
    then show ?thesis by (simp add: decide_def decide_down_def Let_def)
  next
    case new: False
    have mapped: "\<exists>x. fst (decide_mapped key u (modifier_state e) os (mark_down key u e)) = Emit x os
        \<and> bits_of x = bits_of (modifier_state e)
          \<inter> (bits_of (forwarded_modifiers (tracker e)) \<union> held_bits (held_output_modifiers (tracker e)))" for os
      using decide_mapped_spec(1) [OF prod.collapse [symmetric], of key u "modifier_state e" os "mark_down key u e"]
      by simp
    show ?thesis
    proof (cases "config_answer uni c kbs (fst (rs_active_app env st)) u (modifier_state e) dev")
      case None
      then show ?thesis using new
        by (simp add: decide_def decide_down_fresh r [unfolded st_def] Let_def case_prod_beta st_def
            decide_unmapped_eq)
    next
      case (Some os)
      then show ?thesis using new mapped [of os]
        by (simp add: decide_def decide_down_fresh r [unfolded st_def] Let_def case_prod_beta st_def)
    qed
  qed
qed

text \<open>
  C12. Nothing is emitted without a rule: whenever a run over the live lookup decides to emit, the
  outputs are those of a rule in the cache of that moment, for exactly the key's usage and the
  lookup modifiers, listed for some application or among the global rules.
\<close>
theorem emitted_outputs_have_a_rule:
  assumes "fst (decide (runtime_lookup uni env) st key u down dev reachable e) = Emit r os"
  shows "down \<and> reachable \<and> key \<notin> pressed_keys (tracker e)
    \<and> ((\<exists>app. rule_answers (cache_app_rules uni (rs_lookup_cache st) app) u (modifier_state e) os)
       \<or> rule_answers (global_rules (rs_lookup_cache st)) u (modifier_state e) os)"
proof -
  have down: "down" and new: "key \<notin> pressed_keys (tracker e)"
    using assms
    by (auto simp: decide_def decide_up_eq decide_down_def Let_def case_prod_beta split: if_splits)
  with assms have reach: "reachable"
    by (auto simp: decide_def decide_down_fresh split: if_splits)
  obtain a st' where res: "resolve (runtime_lookup uni env) st u (modifier_state e) dev = (a, st')" by force
  have "a = Some os"
  proof (cases a)
    case None
    with assms down new reach res show ?thesis
      by (simp add: decide_def decide_down_fresh case_prod_beta)
  next
    case (Some os')
    with assms down new reach res
    have "fst (decide_mapped key u (modifier_state e) os' (mark_down key u e)) = Emit r os"
      by (simp add: decide_def decide_down_fresh case_prod_beta)
    then show ?thesis
      using decide_mapped_spec(1) [OF prod.collapse [symmetric], of key u "modifier_state e" os' "mark_down key u e"]
      by (auto simp: Some)
  qed
  with rl.resolve_sound [of uni env st u "modifier_state e" dev os st'] res down new reach
  show ?thesis by blast
qed

text \<open>A configuration that maps Caps Lock to Escape.\<close>

definition caps_config :: app_config where
  "caps_config =
    \<lparr>ac_keyboards = None,
     ac_groups = [\<lparr>rg_name = None, rg_apps = [], rg_keyboards = [],
        rg_mappings = [(KeyEvent [] CapsLock, [KeyEvent [] Escape])]\<rparr>]\<rparr>"

lemma caps_config_emits:
  "fst (decide (runtime_lookup id env) (runtime_of id caps_config [] f n) (1 :: nat) CapsLock True None True engine_new)
   = Emit 0 [\<lparr>nk_modifiers = 0, nk_usage = Escape\<rparr>]"
proof -
  let ?st = "runtime_of id caps_config [] f n"
  have a: "config_answer id caps_config [] app CapsLock 0 None = Some [\<lparr>nk_modifiers = 0, nk_usage = Escape\<rparr>]" for app
    by (simp add: config_answer_def caps_config_def config_lookup_def group_in_app_def group_is_global_def
        keyboard_blocked_def trigger_accepts_def expand_modifier_bits_def compile_outputs_def
        compile_modifier_bits_def)
  then have "resolve (runtime_lookup id env) ?st CapsLock 0 None =
      (Some [\<lparr>nk_modifiers = 0, nk_usage = Escape\<rparr>], snd (rs_active_app env ?st))"
    using runtime_resolve [where uni = id and c = caps_config and kbs = "[]" and f = f and n = n and env = env]
    by (simp add: Let_def case_prod_beta)
  then show ?thesis
    by (simp add: decide_def decide_down_def engine_new_def tracker_default_def decide_mapped_def
        consume_triggered_def output_held_mask_def Let_def)
qed

lemma emitted_outputs_have_a_rule_witness:
  "(\<exists>app. rule_answers (cache_app_rules id (rs_lookup_cache (runtime_of id caps_config [] (focus_new 0) 0)) app)
        CapsLock 0 [\<lparr>nk_modifiers = 0, nk_usage = Escape\<rparr>])
    \<or> rule_answers (global_rules (rs_lookup_cache (runtime_of id caps_config [] (focus_new 0) 0)))
        CapsLock 0 [\<lparr>nk_modifiers = 0, nk_usage = Escape\<rparr>]"
  using emitted_outputs_have_a_rule [OF caps_config_emits [of "\<lambda>_. (0, 0, [])" "focus_new 0" 0]]
  by (simp add: engine_new_def)

end
