(* ===== verification/Emission.thy ===== *)
theory Emission
  imports Engine
begin

text \<open>
  \<open>src/keymap_core/emission.rs\<close>: what the platform backends do with a decision, as an ordered
  list of actions and the fate of the input event. Over it, the modifiers a client sees pressed on
  an output device that carries the actions out faithfully, and the property the mapping engine
  exists for: no modifier stays pressed there when no key is down.
\<close>

datatype emit_action =
    ReleaseConsumed u8
  | Tap native_key
  | Hold native_key

datatype input_fate = InputForward | InputSwallow | InputSilent

datatype consumed_release_fate = CrSwallow | CrPassThrough

record emission_plan =
  ep_input :: input_fate
  ep_actions :: "emit_action list"

definition output_action :: "native_key \<Rightarrow> emit_action" where
  "output_action output = (if output_held_mask output \<noteq> None then Hold output else Tap output)"

definition plan_of :: "decision \<Rightarrow> consumed_release_fate \<Rightarrow> emission_plan" where
  "plan_of d consumed_release =
     (case d of
        Pass \<Rightarrow> \<lparr>ep_input = InputForward, ep_actions = []\<rparr>
      | Emit rel outputs \<Rightarrow>
          \<lparr>ep_input = InputSilent,
           ep_actions = (if rel \<noteq> 0 then [ReleaseConsumed rel] else []) @ map output_action outputs\<rparr>
      | SwallowD rel \<Rightarrow>
          \<lparr>ep_input = InputSwallow, ep_actions = (if rel \<noteq> 0 then [ReleaseConsumed rel] else [])\<rparr>
      | ConsumedRelease \<Rightarrow>
          \<lparr>ep_input = (case consumed_release of CrSwallow \<Rightarrow> InputSwallow | CrPassThrough \<Rightarrow> InputForward),
           ep_actions = []\<rparr>)"

section \<open>The modifiers pressed on the output device\<close>

text \<open>
  The bits a client sees pressed. A tap presses the output's modifiers, then its base, and
  releases them again; a hold leaves the modifiers and the (modifier) base pressed; a forwarded
  event presses or releases the key's own bit.
\<close>

definition act_bits :: "emit_action \<Rightarrow> nat set \<Rightarrow> nat set" where
  "act_bits a D =
     (case a of
        ReleaseConsumed m \<Rightarrow> D - bits_of m
      | Tap nk \<Rightarrow> D - bits_of (nk_modifiers nk) - bits_of (usage_mask (nk_usage nk))
      | Hold nk \<Rightarrow> D \<union> bits_of (nk_modifiers nk) \<union> bits_of (usage_mask (nk_usage nk)))"

text \<open>
  The event value the kernel reports: 0 for a key-up, 1 for a fresh key-down, 2 for an auto-repeat.
  A forwarded repeat presses nothing new: a repeated modifier is not re-emitted, any other key
  has no bit.
\<close>

definition event_value :: "('k, 's) key_input \<Rightarrow> 'k set \<Rightarrow> nat" where
  "event_value i down = (if \<not> in_down i then 0 else if in_key i \<in> down then 2 else 1)"

definition input_bits :: "input_fate \<Rightarrow> hid_usage \<Rightarrow> nat \<Rightarrow> nat set \<Rightarrow> nat set" where
  "input_bits fate u v D =
     (if fate \<noteq> InputForward then D
      else if v = 0 then D - bits_of (usage_mask u)
      else if v = 1 then D \<union> bits_of (usage_mask u)
      else D)"

definition plan_bits :: "emission_plan \<Rightarrow> hid_usage \<Rightarrow> nat \<Rightarrow> nat set \<Rightarrow> nat set" where
  "plan_bits p u v D = input_bits (ep_input p) u v (fold act_bits (ep_actions p) D)"

text \<open>
  The device behind a backend that is always reachable and swallows a consumed modifier's
  release, as on Linux.
\<close>

fun device_run ::
  "'s lookup \<Rightarrow> ('k \<Rightarrow> hid_usage) \<Rightarrow> ('k, 's) key_input list \<Rightarrow> 'k engine \<Rightarrow> nat set
    \<Rightarrow> 'k engine \<times> nat set" where
  "device_run lk U [] e D = (e, D)"
| "device_run lk U (i # is) e D =
     (let (d, e') = engine_step lk U (i\<lparr>in_reachable := True\<rparr>) e
      in device_run lk U is e'
           (plan_bits (plan_of d CrSwallow) (U (in_key i)) (event_value i (pressed_keys (tracker e))) D))"

definition device_ok :: "'k engine \<Rightarrow> nat set \<Rightarrow> bool" where
  "device_ok e D \<longleftrightarrow>
     D \<subseteq> bits_of (forwarded_modifiers (tracker e)) \<union> held_bits (held_output_modifiers (tracker e))"

lemma output_held_mask_bits:
  "output_held_mask nk = Some m \<Longrightarrow> bits_of m = bits_of (nk_modifiers nk) \<union> bits_of (usage_mask (nk_usage nk))"
  by (cases "hid_usage_to_modifier_bit (nk_usage nk)") (auto simp: output_held_mask_def)

lemma outputs_mask_Cons:
  "bits_of (outputs_mask (nk # nks)) =
     (case output_held_mask nk of Some m \<Rightarrow> bits_of m | None \<Rightarrow> {}) \<union> bits_of (outputs_mask nks)"
  by (simp add: outputs_mask_def split: option.split)

lemma fold_outputs_bits:
  "fold act_bits (map output_action nks) D \<subseteq> D \<union> bits_of (outputs_mask nks)"
proof (induction nks arbitrary: D)
  case (Cons nk nks)
  have "act_bits (output_action nk) D
      \<subseteq> D \<union> (case output_held_mask nk of Some m \<Rightarrow> bits_of m | None \<Rightarrow> {})"
    using output_held_mask_bits [of nk]
    by (auto simp: output_action_def act_bits_def)
  with Cons.IH [of "act_bits (output_action nk) D"] show ?case
    unfolding outputs_mask_Cons by auto
qed simp

lemma release_actions_bits:
  "fold act_bits (if r \<noteq> 0 then [ReleaseConsumed r] else []) D = D - bits_of r"
  by (simp add: act_bits_def)

lemma emit_bits:
  "plan_bits (plan_of (Emit r os) cr) u v D \<subseteq> (D - bits_of r) \<union> bits_of (outputs_mask os)"
  using fold_outputs_bits [of os "D - bits_of r"]
  by (cases "r = 0") (simp_all add: plan_of_def plan_bits_def input_bits_def act_bits_def)

lemma device_ok_mapped:
  assumes "device_ok e D" "key \<notin> pressed_keys (tracker e)"
    and m: "decide_mapped key u (modifier_state e) os (mark_down key u e) = (d, e')"
  shows "device_ok e' (plan_bits (plan_of d cr) u v D)"
proof -
  note spec = decide_mapped_spec [OF m, simplified]
  obtain r where d: "d = Emit r os"
    and r: "bits_of r = bits_of (modifier_state e)
      \<inter> (bits_of (forwarded_modifiers (tracker e)) \<union> held_bits (held_output_modifiers (tracker e)))"
    using spec(1) by blast
  show ?thesis
    using assms(1) emit_bits [of r os cr u v D] r spec(3,5) unfolding d device_ok_def by auto
qed

lemma device_ok_step:
  assumes ok: "device_ok e D" and tr: "tracker_ok (tracker e)" and re: "in_reachable i"
  shows "device_ok (snd (engine_step lk U i e))
    (plan_bits (plan_of (fst (engine_step lk U i e)) CrSwallow) (U (in_key i))
      (event_value i (pressed_keys (tracker e))) D)"
proof -
  let ?k = "in_key i" and ?t = "tracker e"
  consider (rep) "in_down i" "?k \<in> pressed_keys ?t" | (fresh) "in_down i" "?k \<notin> pressed_keys ?t"
    | (stray) "\<not> in_down i" "?k \<notin> pressed_keys ?t" | (up) "\<not> in_down i" "?k \<in> pressed_keys ?t" by blast
  then show ?thesis
  proof cases
    case rep
    then show ?thesis using ok
      by (auto simp: engine_step_simps decide_down_def Let_def plan_bits_def plan_of_def input_bits_def
          event_value_def)
  next
    case fresh
    let ?res = "resolve lk (in_lookup i) (U ?k) (modifier_state e) (in_device i)"
    show ?thesis
    proof (cases "fst ?res")
      case None
      then show ?thesis using fresh ok re
        by (auto simp: engine_step_simps decide_down_fresh case_prod_beta decide_unmapped_eq plan_bits_def
            plan_of_def input_bits_def event_value_def device_ok_def Let_def)
    next
      case (Some os)
      show ?thesis
        using fresh re Some
          device_ok_mapped [OF ok fresh(2) prod.collapse [symmetric], of "U ?k" os CrSwallow 1]
        by (simp add: engine_step_simps decide_down_fresh case_prod_beta event_value_def Let_def)
    qed
  next
    case stray
    then show ?thesis using ok
      by (auto simp: engine_step_simps decide_up_eq plan_bits_def plan_of_def input_bits_def
          event_value_def device_ok_def)
  next
    case up
    have "held_bits (held_output_modifiers ?t) \<subseteq> bits_of (held_mask_of ?k (held_output_modifiers ?t))
        \<union> held_bits (filter (\<lambda>p. fst p \<noteq> ?k) (held_output_modifiers ?t))"
      using tr by (intro held_bits_remove) (simp add: tracker_ok_def)
    with up ok show ?thesis
      by (auto simp: engine_step_simps decide_up_eq Let_def plan_bits_def plan_of_def input_bits_def
          event_value_def device_ok_def act_bits_def bits_of_and_not simp del: bits_of_and)
  qed
qed

lemma device_run_engine:
  "fst (device_run lk U is e D) = snd (engine_run lk U (map (in_reachable_update (\<lambda>_. True)) is) e)"
  by (induction "is" arbitrary: e D) (simp_all add: Let_def case_prod_beta)

lemma device_run_ok:
  assumes "device_ok e D" "engine_ok U e"
  shows "device_ok (fst (device_run lk U is e D)) (snd (device_run lk U is e D))"
  using assms
proof (induction "is" arbitrary: e D)
  case (Cons i js)
  let ?i = "i\<lparr>in_reachable := True\<rparr>"
  have "event_value ?i = event_value i" by (simp add: event_value_def fun_eq_iff)
  then have "device_ok (snd (engine_step lk U ?i e))
      (plan_bits (plan_of (fst (engine_step lk U ?i e)) CrSwallow) (U (in_key i))
        (event_value i (pressed_keys (tracker e))) D)"
    using device_ok_step [OF Cons.prems(1), of ?i lk U] Cons.prems(2) by (simp add: engine_ok_def)
  from Cons.IH [OF this engine_step_ok [OF Cons.prems(2)]] show ?case
    by (simp add: Let_def case_prod_beta)
qed simp

text \<open>
  C2. No stuck modifier on the output device: for any sequence of inputs carried out faithfully on
  a device with no modifier pressed at the start, once every key that went down has come up again
  no modifier is left pressed on the device.
\<close>
theorem no_stuck_modifier_on_device:
  assumes "down_keys is = {}"
  shows "snd (device_run lk U is engine_new {}) = {}"
proof -
  let ?e = "fst (device_run lk U is engine_new {})"
  have "fold step_down_keys (map (in_reachable_update (\<lambda>_. True)) is) ks = fold step_down_keys is ks" for ks
    by (induction "is" arbitrary: ks) (simp_all add: step_down_keys_def)
  then have p: "pressed_keys (tracker ?e) = {}"
    using assms by (simp add: device_run_engine engine_run_pressed engine_new_def tracker_default_def down_keys_def)
  have ok: "engine_ok U ?e"
    unfolding device_run_engine by (rule engine_run_ok [OF engine_ok_new])
  have "stale_keys (tracker ?e) = {}"
    unfolding device_run_engine
    using engine_run_stale [of lk U _ engine_new] by (fastforce simp: engine_new_def tracker_default_def)
  from engine_ok_no_key_down [OF ok p this] have "?e = engine_new" .
  moreover have "device_ok ?e (snd (device_run lk U is engine_new {}))"
    by (rule device_run_ok) (simp_all add: device_ok_def engine_ok_new)
  ultimately show ?thesis
    by (simp add: device_ok_def engine_new_def tracker_default_def)
qed

lemma no_stuck_modifier_on_device_witness:
  "snd (device_run (test_lookup_ops id) (\<lambda>k :: nat. if k = 1 then LeftShift else F1)
      [\<lparr>in_key = 1, in_down = True, in_device = None, in_reachable = True, in_lookup = tl_from_config id (ac_visit_seq [])\<rparr>,
       \<lparr>in_key = 1, in_down = False, in_device = None, in_reachable = True, in_lookup = tl_from_config id (ac_visit_seq [])\<rparr>]
      engine_new {}) = {}"
  by (rule no_stuck_modifier_on_device) (auto simp: down_keys_def step_down_keys_def)

text \<open>Control and F1 become Escape.\<close>

definition ctrl_config :: app_config where
  "ctrl_config =
    \<lparr>ac_keyboards = None,
     ac_groups = [\<lparr>rg_name = None, rg_apps = [], rg_keyboards = [],
        rg_mappings = [(KeyEvent [LeftControl] F1, [KeyEvent [] Escape])]\<rparr>]\<rparr>"

abbreviation ctrl_input :: "nat \<Rightarrow> (nat, test_lookup) key_input" where
  "ctrl_input k \<equiv> \<lparr>in_key = k, in_down = True, in_device = None, in_reachable = True,
     in_lookup = tl_from_config id ctrl_config\<rparr>"

abbreviation ctrl_usage :: "nat \<Rightarrow> hid_usage" where
  "ctrl_usage k \<equiv> (if k = 1 then LeftControl else F1)"

lemma ctrl_resolve:
  "resolve (test_lookup_ops id) (tl_from_config id ctrl_config) u m d =
     (if u = F1 \<and> m \<in> set (expand_modifier_bits [LeftControl])
      then Some [\<lparr>nk_modifiers = 0, nk_usage = Escape\<rparr>] else None, tl_from_config id ctrl_config)"
  using compiled_refines [where uni = id and c = ctrl_config and usage = u and m = m
      and check = "\<lambda>_. True" and app = "''test_app''"]
  by (auto simp: resolve_def test_lookup_ops_def tl_for_active_app_def tl_for_app_def tl_global_def
      tl_from_config_def config_lookup_def ctrl_config_def group_in_app_def group_is_global_def
      trigger_accepts_def compile_outputs_def compile_modifier_bits_def)

lemma left_control_expansion: "set (expand_modifier_bits [LeftControl]) = {1, 16}"
  by (auto simp: expand_modifier_bits_def modifier_choice_def bit_mask_def)

lemma ctrl_run:
  "device_run (test_lookup_ops id) ctrl_usage [ctrl_input 1] engine_new {} =
     (snd (decide_unmapped LeftControl (mark_down 1 LeftControl engine_new)), {0})"
  by (simp add: engine_step_simps decide_down_fresh engine_new_def tracker_default_def ctrl_resolve
      decide_unmapped_eq plan_of_def plan_bits_def input_bits_def event_value_def usage_mask_def
      bits_of_bit_mask Let_def)

lemma ctrl_step:
  "fst (engine_step (test_lookup_ops id) ctrl_usage (ctrl_input 2)
      (snd (decide_unmapped LeftControl (mark_down 1 LeftControl engine_new))))
   = Emit 1 [\<lparr>nk_modifiers = 0, nk_usage = Escape\<rparr>]"
  by (simp add: engine_step_simps decide_down_fresh engine_new_def tracker_default_def ctrl_resolve
      decide_unmapped_eq mark_down_def usage_mask_def left_control_expansion bit_mask_def decide_mapped_def
      consume_triggered_def output_held_mask_def Let_def)

text \<open>The actions that emit an output, and the modifiers that actions leave held down.\<close>

definition is_output :: "emit_action \<Rightarrow> bool" where
  "is_output a = (case a of ReleaseConsumed _ \<Rightarrow> False | Tap _ \<Rightarrow> True | Hold _ \<Rightarrow> True)"

definition held_by :: "emit_action list \<Rightarrow> nat set" where
  "held_by as = (\<Union>a \<in> set as. case a of
     Hold nk \<Rightarrow> bits_of (nk_modifiers nk) \<union> bits_of (usage_mask (nk_usage nk)) | _ \<Rightarrow> {})"

lemma is_output_simps [simp]:
  "\<not> is_output (ReleaseConsumed m)" "is_output (Tap nk)" "is_output (Hold nk)"
  "is_output (output_action nk)"
  by (simp_all add: is_output_def output_action_def)

lemma filter_outputs [simp]: "filter is_output (map output_action os) = map output_action os"
  by (induction os) simp_all

lemma held_by_simps [simp]:
  "held_by [] = {}" "held_by (ReleaseConsumed m # as) = held_by as" "held_by (Tap nk # as) = held_by as"
  "held_by (Hold nk # as) = bits_of (nk_modifiers nk) \<union> bits_of (usage_mask (nk_usage nk)) \<union> held_by as"
  by (simp_all add: held_by_def)

lemma fold_held: "fold act_bits as D \<subseteq> D \<union> held_by as"
proof (induction as arbitrary: D)
  case (Cons a as)
  from Cons.IH [of "act_bits a D"] show ?case by (cases a) (auto simp: act_bits_def)
qed simp

text \<open>
  C8. Outputs are clean: in every state a run reaches, when a key-down is decided to emit, the plan
  emits the outputs of the rule, all and in their order, and at the moment one of them is emitted
  none of the modifiers that made the trigger match is pressed on the device any more, but those that an
  output emitted before it in the same plan holds down. So none is at the first output.
\<close>
theorem outputs_are_clean:
  assumes "(e, D) = device_run lk U is engine_new {}"
    and "fst (engine_step lk U i e) = Emit r os"
    and "plan = plan_of (fst (engine_step lk U i e)) cr"
  shows "filter is_output (ep_actions plan) = map output_action os
    \<and> (\<forall>before a after. ep_actions plan = before @ a # after \<and> is_output a \<longrightarrow>
      fold act_bits before D \<inter> bits_of (modifier_state e) \<subseteq> held_by before)"
proof -
  have "device_ok e D"
    using device_run_ok [of engine_new "{}" U lk "is"]
    by (simp add: assms(1) [symmetric] device_ok_def engine_ok_new)
  moreover have dn: "in_down i" and new: "in_key i \<notin> pressed_keys (tracker e)"
    using assms(2)
    by (auto simp: engine_step_simps decide_up_eq decide_down_def Let_def split: if_splits)
  have "bits_of r = bits_of (modifier_state e)
      \<inter> (bits_of (forwarded_modifiers (tracker e)) \<union> held_bits (held_output_modifiers (tracker e)))"
    using assms(2) dn new
    by (simp add: engine_step_simps decide_down_fresh case_prod_beta split: if_splits option.splits)
      (drule fresh_emit_release, simp)
  ultimately have released: "(D - bits_of r) \<inter> bits_of (modifier_state e) = {}"
    unfolding device_ok_def by auto
  have plan: "ep_actions plan = (if r \<noteq> 0 then [ReleaseConsumed r] else []) @ map output_action os"
    unfolding assms(3) assms(2) by (simp add: plan_of_def)
  show ?thesis
  proof (intro conjI allI impI; (elim conjE)?)
    show "filter is_output (ep_actions plan) = map output_action os" unfolding plan by simp
  next
    fix before a "after"
    assume "ep_actions plan = before @ a # after" "is_output a"
    then obtain q where q: "before = (if r \<noteq> 0 then [ReleaseConsumed r] else []) @ q"
      unfolding plan by (auto simp: Cons_eq_append_conv split: if_splits)
    have "fold act_bits before D \<subseteq> (D - bits_of r) \<union> held_by q"
      unfolding q fold_append comp_apply release_actions_bits by (rule fold_held)
    with released show "fold act_bits before D \<inter> bits_of (modifier_state e) \<subseteq> held_by before"
      by (auto simp: q)
  qed
qed

lemma outputs_are_clean_witness:
  "ep_actions (plan_of (Emit 1 [\<lparr>nk_modifiers = 0, nk_usage = Escape\<rparr>]) CrSwallow)
     = [ReleaseConsumed 1] @ Tap \<lparr>nk_modifiers = 0, nk_usage = Escape\<rparr> # []
   \<and> fold act_bits [ReleaseConsumed 1] {0} \<inter> bits_of 1 = {}"
proof -
  have m: "modifier_state (snd (decide_unmapped LeftControl (mark_down (1 :: nat) LeftControl engine_new))) = 1"
    by (simp add: decide_unmapped_eq engine_new_def usage_mask_def bit_mask_def)
  have a: "ep_actions (plan_of (Emit 1 [\<lparr>nk_modifiers = 0, nk_usage = Escape\<rparr>]) CrSwallow)
     = [ReleaseConsumed 1] @ Tap \<lparr>nk_modifiers = 0, nk_usage = Escape\<rparr> # []"
    by (simp add: plan_of_def output_action_def output_held_mask_def)
  have "fold act_bits [ReleaseConsumed 1] {0} \<inter> bits_of 1 \<subseteq> held_by [ReleaseConsumed 1]"
    using outputs_are_clean [OF ctrl_run [symmetric] ctrl_step refl, of CrSwallow] a
    unfolding m ctrl_step by (metis is_output_simps(2))
  with a show ?thesis by simp
qed

end
