(* ===== verification/Frame.thy ===== *)
theory Frame
  imports Prelude
begin

text \<open>
  \<open>src/common/frame.rs\<close>: the length-prefixed envelope of every local channel. \<open>parse\<close> works
  on a complete buffer; \<open>FrameReader\<close> on a stream that delivers bytes in chunks of any size,
  with interruptions and timeouts anywhere. The contract of a codec is the locale \<open>codec\<close>, that
  of one whose decoder accepts nothing else \<open>strict_codec\<close>; the envelope is an interpretation.
\<close>

definition FRAME_VERSION :: u8 where "FRAME_VERSION = 1"
definition HEADER_LEN :: nat where "HEADER_LEN = 5"

text \<open>The kinds of I/O errors the reader distinguishes; any other kind carries its code.\<close>

datatype io_kind = UnexpectedEof | Interrupted | WouldBlock | OtherIo nat

datatype frame_error =
    TooShort nat
  | UnsupportedVersion u8
  | PayloadTooLarge nat
  | Truncated nat nat
  | Eof
  | Io io_kind

section \<open>Little-endian words\<close>

definition to_le_bytes :: "u32 \<Rightarrow> bytes" where
  "to_le_bytes w = [ucast w, ucast (drop_bit 8 w), ucast (drop_bit 16 w), ucast (drop_bit 24 w)]"

definition from_le_bytes :: "u8 \<Rightarrow> u8 \<Rightarrow> u8 \<Rightarrow> u8 \<Rightarrow> u32" where
  "from_le_bytes a b c d =
     ucast a OR push_bit 8 (ucast b) OR push_bit 16 (ucast c) OR push_bit 24 (ucast d)"

lemma length_to_le_bytes [simp]: "length (to_le_bytes w) = 4"
  by (simp add: to_le_bytes_def)

lemma bit_u8_high: "8 \<le> n \<Longrightarrow> \<not> bit (a :: u8) n"
  by (auto dest: bit_imp_le_length)

lemma bit_from_le_bytes:
  "n < 32 \<Longrightarrow> bit (from_le_bytes a b c d) n \<longleftrightarrow>
     (if n < 8 then bit a n else if n < 16 then bit b (n - 8)
      else if n < 24 then bit c (n - 16) else bit d (n - 24))"
  unfolding from_le_bytes_def bit_or_iff bit_push_bit_iff bit_unsigned_iff
  by (cases "n < 8"; cases "n < 16"; cases "n < 24") (auto simp: bit_u8_high)

lemma from_to_le_bytes [simp]:
  "from_le_bytes (ucast w) (ucast (drop_bit 8 w)) (ucast (drop_bit 16 w)) (ucast (drop_bit 24 w)) = w"
  by (rule bit_word_eqI) (auto simp: bit_from_le_bytes bit_unsigned_iff bit_drop_bit_eq)

lemma to_from_le_bytes:
  "to_le_bytes (from_le_bytes a b c d) = [a, b, c, d]"
  unfolding to_le_bytes_def list.inject
  by (intro conjI refl; rule bit_word_eqI)
    (simp_all add: bit_from_le_bytes bit_unsigned_iff bit_drop_bit_eq)

section \<open>Complete buffers\<close>

definition encode :: "bytes \<Rightarrow> bytes" where
  "encode payload = FRAME_VERSION # to_le_bytes (word_of_nat (length payload)) @ payload"

definition parse :: "nat \<Rightarrow> bytes \<Rightarrow> frame_error + bytes" where
  "parse max_payload frame =
     (case frame of
        [] \<Rightarrow> Inl (TooShort 0)
      | version # rest \<Rightarrow>
          if version \<noteq> FRAME_VERSION then Inl (UnsupportedVersion version)
          else if length rest < 4 then Inl (TooShort (length frame))
          else
            let len = unat (from_le_bytes (rest ! 0) (rest ! 1) (rest ! 2) (rest ! 3)) in
            if len > max_payload then Inl (PayloadTooLarge len)
            else if 4 + len \<le> length rest then Inr (take len (drop 4 rest))
            else Inl (Truncated (4 + len) (length rest)))"

text \<open>\<open>write_frame\<close> on a writer given by its \<open>write_all\<close> and \<open>flush\<close>.\<close>

definition write_frame ::
  "(bytes \<Rightarrow> 'w \<Rightarrow> (io_kind + unit) \<times> 'w) \<Rightarrow> ('w \<Rightarrow> (io_kind + unit) \<times> 'w) \<Rightarrow> bytes \<Rightarrow> 'w
    \<Rightarrow> (frame_error + unit) \<times> 'w" where
  "write_frame write_all flush payload w =
     (case write_all (encode payload) w of
        (Inl e, w') \<Rightarrow> (Inl (Io e), w')
      | (Inr _, w') \<Rightarrow> (case flush w' of (Inl e, w'') \<Rightarrow> (Inl (Io e), w'') | (Inr _, w'') \<Rightarrow> (Inr (), w'')))"

section \<open>Contracts of codecs\<close>

locale codec =
  fixes enc :: "'p \<Rightarrow> bytes"
    and dec :: "bytes \<Rightarrow> 'e + 'p"
    and ok :: "'p \<Rightarrow> bool"
  assumes dec_enc: "ok p \<Longrightarrow> dec (enc p @ rest) = Inr p"
begin

lemma round_trip: "ok p \<Longrightarrow> dec (enc p) = Inr p"
  using dec_enc [of p "[]"] by simp

lemma enc_inject: "ok p \<Longrightarrow> ok q \<Longrightarrow> enc p = enc q \<Longrightarrow> p = q"
  by (metis round_trip sum.inject(2))

text \<open>No encoding is a prefix of another one, so a concatenation reads in one way.\<close>

lemma prefix_free: "ok p \<Longrightarrow> ok q \<Longrightarrow> enc p @ r = enc q @ s \<Longrightarrow> p = q \<and> r = s"
  by (metis dec_enc sum.inject(2) same_append_eq)

end

locale strict_codec = codec +
  assumes dec_sound: "dec bs = Inr p \<Longrightarrow> ok p \<and> (\<exists>rest. bs = enc p @ rest)"
begin

lemma dec_iff: "dec bs = Inr p \<longleftrightarrow> ok p \<and> (\<exists>rest. bs = enc p @ rest)"
  using dec_enc dec_sound by blast

end

definition payload_ok :: "nat \<Rightarrow> bytes \<Rightarrow> bool" where
  "payload_ok max_payload payload \<longleftrightarrow> length payload \<le> max_payload \<and> length payload < 2 ^ 32"

lemma unat_length_word: "n < 2 ^ 32 \<Longrightarrow> unat (word_of_nat n :: u32) = n"
  by (simp add: unsigned_of_nat take_bit_nat_eq_self)

lemma parse_encode_append:
  "payload_ok max_payload p \<Longrightarrow> parse max_payload (encode p @ rest) = Inr p"
  by (simp add: parse_def encode_def to_le_bytes_def payload_ok_def unat_length_word Let_def)

lemma four_bytes: "4 \<le> length (xs :: 'a list) \<Longrightarrow> \<exists>a b c d ys. xs = a # b # c # d # ys"
  by (auto simp: numeral_eq_Suc Suc_le_length_iff)

lemma parse_sound:
  assumes "parse max_payload bs = Inr p"
  shows "payload_ok max_payload p \<and> (\<exists>rest. bs = encode p @ rest)"
proof -
  obtain rest where bs: "bs = FRAME_VERSION # rest" and l4: "4 \<le> length rest"
    using assms by (auto simp: parse_def Let_def split: list.splits if_splits)
  obtain a b c d ys where rest: "rest = a # b # c # d # ys" using four_bytes [OF l4] by blast
  let ?len = "unat (from_le_bytes a b c d)"
  have len: "?len \<le> max_payload" "?len \<le> length ys" and p: "p = take ?len ys"
    using assms by (auto simp: parse_def bs rest Let_def split: if_splits)
  have lp: "length p = ?len" using len p by simp
  moreover have "?len < 2 ^ 32" by (rule order_less_le_trans [OF unsigned_less]) simp
  moreover have "to_le_bytes (word_of_nat (length p)) = [a, b, c, d]"
    by (simp add: lp to_from_le_bytes)
  ultimately show ?thesis
    using len p by (auto simp: payload_ok_def encode_def bs rest intro: exI [of _ "drop ?len ys"])
qed

interpretation fr: strict_codec encode "parse max_payload" "payload_ok max_payload"
  by unfold_locales (auto intro: parse_encode_append dest: parse_sound)

section \<open>A stream and one read from it\<close>

text \<open>
  What successive reads find: bytes that are available (an empty chunk is a read of zero bytes), or
  an error. A read takes at most as many bytes as its buffer holds; at the end of the script the
  stream stays closed.
\<close>

datatype stream_event = Chunk bytes | Fault io_kind

fun read_call :: "nat \<Rightarrow> stream_event list \<Rightarrow> (io_kind + bytes) \<times> stream_event list" where
  "read_call n [] = (Inr [], [])"
| "read_call n (Chunk bs # es) =
     (if length bs \<le> n then (Inr bs, es) else (Inr (take n bs), Chunk (drop n bs) # es))"
| "read_call n (Fault k # es) = (Inl k, es)"

fun stream_bytes :: "stream_event list \<Rightarrow> bytes" where
  "stream_bytes [] = []"
| "stream_bytes (Chunk bs # es) = bs @ stream_bytes es"
| "stream_bytes (Fault k # es) = stream_bytes es"

lemma read_call_bytes:
  "read_call n es = (Inr bs, es') \<Longrightarrow> stream_bytes es = bs @ stream_bytes es' \<and> length bs \<le> n"
  "read_call n es = (Inl k, es') \<Longrightarrow> stream_bytes es' = stream_bytes es \<and> length es' < length es"
  by (induction n es rule: read_call.induct) (auto split: if_splits)

lemma read_call_progress:
  "read_call n es = (Inr bs, es') \<Longrightarrow> bs \<noteq> [] \<Longrightarrow> length es' < length es \<or> (length es' = length es \<and> length bs = n)"
  by (induction n es rule: read_call.induct) (auto split: if_splits)

section \<open>The resumable reader\<close>

text \<open>
  \<open>read_into\<close>: the buffer, how much of it is filled, and the stream, after the loop stops.
\<close>

function read_into ::
  "stream_event list \<Rightarrow> bytes \<Rightarrow> nat \<Rightarrow> frame_error option \<times> stream_event list \<times> bytes \<times> nat" where
  "read_into es buf filled =
     (if filled < length buf then
        (case read_call (length buf - filled) es of
           (Inr bs, es') \<Rightarrow>
             (if bs = [] then (Some Eof, es', buf, filled)
              else read_into es' (take filled buf @ bs @ drop (filled + length bs) buf) (filled + length bs))
         | (Inl UnexpectedEof, es') \<Rightarrow> (Some Eof, es', buf, filled)
         | (Inl Interrupted, es') \<Rightarrow> read_into es' buf filled
         | (Inl k, es') \<Rightarrow> (Some (Io k), es', buf, filled))
      else (None, es, buf, filled))"
  by pat_completeness auto

lemma read_call_measure:
  "(Inr bs, es') = read_call (n - f) es \<Longrightarrow> f < n \<Longrightarrow> bs \<noteq> [] \<Longrightarrow>
    length es' + (n - (f + length bs)) < length es + (n - f)"
  "(Inl k, es') = read_call m es \<Longrightarrow> length es' < length es"
  using read_call_progress [of "n - f" es bs es'] read_call_bytes(1) [of "n - f" es bs es']
    read_call_bytes(2) [of m es k es']
  by auto

termination read_into
  by (relation "measure (\<lambda>(es, buf, filled). length es + (length buf - filled))")
    (auto dest: read_call_measure read_call_bytes(1) [OF sym] simp: min_def)

declare read_into.simps [simp del]

record frame_reader =
  fr_max_payload :: nat
  fr_header :: bytes
  fr_header_filled :: nat
  fr_payload :: "bytes option"
  fr_payload_filled :: nat

definition fr_new :: "nat \<Rightarrow> frame_reader" where
  "fr_new max_payload =
     \<lparr>fr_max_payload = max_payload, fr_header = replicate HEADER_LEN 0, fr_header_filled = 0,
      fr_payload = None, fr_payload_filled = 0\<rparr>"

definition fr_reset :: "frame_reader \<Rightarrow> frame_reader" where
  "fr_reset r = r\<lparr>fr_header_filled := 0, fr_payload := None, fr_payload_filled := 0\<rparr>"

text \<open>The payload phase of \<open>FrameReader::read_payload\<close>.\<close>

definition fr_payload_phase ::
  "nat \<Rightarrow> frame_reader \<Rightarrow> stream_event list \<Rightarrow> (frame_error + bytes) \<times> frame_reader \<times> stream_event list" where
  "fr_payload_phase len r es =
     (let buf = (case fr_payload r of Some buf \<Rightarrow> buf | None \<Rightarrow> replicate len 0);
          (res, es', buf', filled') = read_into es buf (fr_payload_filled r)
      in case res of
           Some e \<Rightarrow> (Inl e, r\<lparr>fr_payload := Some buf', fr_payload_filled := filled'\<rparr>, es')
         | None \<Rightarrow> (Inr buf', r\<lparr>fr_payload := None, fr_header_filled := 0, fr_payload_filled := 0\<rparr>, es'))"

definition fr_read_payload ::
  "frame_reader \<Rightarrow> stream_event list \<Rightarrow> (frame_error + bytes) \<times> frame_reader \<times> stream_event list" where
  "fr_read_payload r es =
     (let (res, es1, hdr, filled) =
        (if fr_header_filled r < HEADER_LEN then read_into es (fr_header r) (fr_header_filled r)
         else (None, es, fr_header r, fr_header_filled r));
          r1 = r\<lparr>fr_header := hdr, fr_header_filled := filled\<rparr>
      in case res of
           Some e \<Rightarrow> (Inl e, r1, es1)
         | None \<Rightarrow>
             if hdr ! 0 \<noteq> FRAME_VERSION then (Inl (UnsupportedVersion (hdr ! 0)), fr_reset r1, es1)
             else
               let len = unat (from_le_bytes (hdr ! 1) (hdr ! 2) (hdr ! 3) (hdr ! 4)) in
               if len > fr_max_payload r1 then (Inl (PayloadTooLarge len), fr_reset r1, es1)
               else fr_payload_phase len r1 es1)"

text \<open>The one-shot \<open>read_payload\<close>.\<close>

definition read_payload ::
  "nat \<Rightarrow> stream_event list \<Rightarrow> (frame_error + bytes) \<times> stream_event list" where
  "read_payload max_payload es =
     (let (res, _, es') = fr_read_payload (fr_new max_payload) es in (res, es'))"

section \<open>No byte is lost\<close>

lemma read_into_spec:
  "read_into es buf filled = (res, es', buf', filled') \<Longrightarrow> filled \<le> length buf \<Longrightarrow>
     length buf' = length buf \<and> filled' \<le> length buf
     \<and> take filled' buf' @ stream_bytes es' = take filled buf @ stream_bytes es
     \<and> length es' \<le> length es
     \<and> (case res of
          None \<Rightarrow> filled' = length buf
        | Some Eof \<Rightarrow> filled' < length buf
        | Some (Io k) \<Rightarrow> filled' < length buf \<and> length es' < length es
        | _ \<Rightarrow> False)"
proof (induction es buf filled arbitrary: res es' buf' filled' rule: read_into.induct)
  case (1 es buf filled)
  note run = "1.prems"(1)
  show ?case
  proof (cases "filled < length buf")
    case False
    with "1.prems" show ?thesis by (simp add: read_into.simps)
  next
    case True
    obtain r es1 where rc: "read_call (length buf - filled) es = (r, es1)" by force
    show ?thesis
    proof (cases r)
      case (Inr bs)
      note b = read_call_bytes(1) [OF rc [unfolded Inr]]
      show ?thesis
      proof (cases "bs = []")
        case Nil: True
        have "length es1 \<le> length es"
          using rc Inr by (cases "(length buf - filled, es)" rule: read_call.cases) (auto split: if_splits)
        with run True rc Inr Nil b show ?thesis by (auto simp: read_into.simps [of es buf filled])
      next
        case bs: False
        let ?buf = "take filled buf @ bs @ drop (filled + length bs) buf"
        have l: "length ?buf = length buf" using b True by (simp, linarith)
        have t: "take (filled + length bs) ?buf = take filled buf @ bs" using True by simp
        have e1: "length es1 \<le> length es" using read_call_progress [OF rc [unfolded Inr] bs] by auto
        have run': "read_into es1 ?buf (filled + length bs) = (res, es', buf', filled')"
          using run True rc Inr bs by (simp add: read_into.simps [of es buf filled])
        have le: "filled + length bs \<le> length ?buf" using l b True by linarith
        from "1.IH"(2) [OF True rc [symmetric] Inr bs run' le] show ?thesis
          unfolding l t using b e1 by (auto split: option.splits frame_error.splits)
      qed
    next
      case (Inl k)
      note b = read_call_bytes(2) [OF rc [unfolded Inl]]
      show ?thesis
      proof (cases "k = Interrupted")
        case I: True
        have run': "read_into es1 buf filled = (res, es', buf', filled')"
          using run True rc Inl I by (simp add: read_into.simps [of es buf filled])
        from "1.IH"(1) [OF True rc [symmetric] Inl I run' "1.prems"(2)] show ?thesis
          using b by (auto split: option.splits frame_error.splits)
      next
        case False
        with run True rc Inl b show ?thesis
          by (cases k) (auto simp: read_into.simps [of es buf filled])
      qed
    qed
  qed
qed

text \<open>What a header declares, and the reader's bytes in flight.\<close>

definition header_len :: "bytes \<Rightarrow> nat" where
  "header_len hdr = unat (from_le_bytes (hdr ! 1) (hdr ! 2) (hdr ! 3) (hdr ! 4))"

definition fr_wf :: "frame_reader \<Rightarrow> bool" where
  "fr_wf r \<longleftrightarrow>
     length (fr_header r) = HEADER_LEN \<and> fr_header_filled r \<le> HEADER_LEN
     \<and> (case fr_payload r of
          None \<Rightarrow> fr_payload_filled r = 0
        | Some buf \<Rightarrow> fr_header_filled r = HEADER_LEN \<and> fr_payload_filled r \<le> length buf
            \<and> fr_header r ! 0 = FRAME_VERSION \<and> length buf = header_len (fr_header r)
            \<and> length buf \<le> fr_max_payload r)"

definition fr_pending :: "frame_reader \<Rightarrow> bytes" where
  "fr_pending r = take (fr_header_filled r) (fr_header r)
     @ (case fr_payload r of None \<Rightarrow> [] | Some buf \<Rightarrow> take (fr_payload_filled r) buf)"

definition fr_idle :: "frame_reader \<Rightarrow> bool" where
  "fr_idle r \<longleftrightarrow> fr_wf r \<and> fr_header_filled r = 0 \<and> fr_payload r = None"

lemma fr_idle_pending: "fr_idle r \<Longrightarrow> fr_pending r = []"
  by (simp add: fr_idle_def fr_pending_def)

lemma fr_idle_new: "fr_idle (fr_new m)"
  by (simp add: fr_idle_def fr_wf_def fr_new_def)

lemma fr_reset_idle: "length (fr_header r) = HEADER_LEN \<Longrightarrow> fr_idle (fr_reset r)"
  by (simp add: fr_idle_def fr_wf_def fr_reset_def)

text \<open>A full header with the right version is the header of a frame of its length.\<close>

lemma header_encode:
  assumes "length hdr = HEADER_LEN" "hdr ! 0 = FRAME_VERSION" "length p = header_len hdr"
  shows "encode p = hdr @ p"
proof -
  obtain v xs where hdr: "hdr = v # xs" and l: "4 \<le> length xs" "length xs = 4"
    using assms(1) by (cases hdr) (auto simp: HEADER_LEN_def)
  obtain a b c d ys where xs: "xs = a # b # c # d # ys" using four_bytes [OF l(1)] by blast
  with l have "ys = []" by simp
  with assms(2,3) show ?thesis
    by (simp add: encode_def hdr xs header_len_def to_from_le_bytes)
qed

lemma encode_header:
  assumes "payload_ok m p" "encode p @ rest = hdr @ ys" "length hdr = HEADER_LEN"
  shows "hdr ! 0 = FRAME_VERSION \<and> header_len hdr = length p \<and> ys = p @ rest"
proof -
  have l: "length (FRAME_VERSION # to_le_bytes (word_of_nat (length p))) = length hdr"
    using assms(3) by (simp add: HEADER_LEN_def)
  have "(FRAME_VERSION # to_le_bytes (word_of_nat (length p))) @ (p @ rest) = hdr @ ys"
    using assms(2) by (simp add: encode_def)
  then have h: "hdr = FRAME_VERSION # to_le_bytes (word_of_nat (length p))" and "ys = p @ rest"
    unfolding append_eq_append_conv [OF disjI1 [OF l]] by simp_all
  moreover have "header_len hdr = length p"
    using assms(1) unfolding h header_len_def to_le_bytes_def
    by (simp add: payload_ok_def unat_length_word)
  ultimately show ?thesis by simp
qed

text \<open>
  What a call of the reader does to the bytes: those in flight and those still in the stream
  together are either unchanged, or lose exactly one frame, or one rejected header.
\<close>

definition read_outcome ::
  "nat \<Rightarrow> bytes \<Rightarrow> (frame_error + bytes) \<Rightarrow> frame_reader \<Rightarrow> bytes \<Rightarrow> bool" where
  "read_outcome m before res r' after \<longleftrightarrow>
     (case res of
        Inr p \<Rightarrow> fr_idle r' \<and> payload_ok m p \<and> before = encode p @ after
      | Inl (UnsupportedVersion v) \<Rightarrow>
          fr_idle r' \<and> (\<exists>hdr. length hdr = HEADER_LEN \<and> before = hdr @ after \<and> hdr ! 0 = v \<and> v \<noteq> FRAME_VERSION)
      | Inl (PayloadTooLarge n) \<Rightarrow>
          fr_idle r' \<and> (\<exists>hdr. length hdr = HEADER_LEN \<and> before = hdr @ after \<and> hdr ! 0 = FRAME_VERSION
            \<and> header_len hdr = n \<and> m < n)
      | Inl Eof \<Rightarrow> fr_wf r' \<and> before = fr_pending r' @ after
      | Inl (Io k) \<Rightarrow> fr_wf r' \<and> before = fr_pending r' @ after
      | Inl _ \<Rightarrow> False)"

lemma header_len_bound: "header_len hdr < 2 ^ 32"
  unfolding header_len_def by (rule order_less_le_trans [OF unsigned_less]) simp

text \<open>The bytes a reader needs in flight to return: a header, then what it declares.\<close>

definition fr_need :: "frame_reader \<Rightarrow> nat" where
  "fr_need r = HEADER_LEN + (if fr_header_filled r < HEADER_LEN then 0 else header_len (fr_header r))"

lemma fr_incomplete:
  assumes "fr_wf r" "length (fr_pending r) < fr_need r" "payload_ok m p"
  shows "fr_pending r \<noteq> encode p @ rest"
proof
  assume eq: "fr_pending r = encode p @ rest"
  have le: "length (encode p @ rest) = HEADER_LEN + length p + length rest"
    by (simp add: encode_def HEADER_LEN_def)
  show False
  proof (cases "fr_header_filled r < HEADER_LEN")
    case True
    with assms(2) eq le show False by (simp add: fr_need_def)
  next
    case False
    then have "fr_header_filled r = HEADER_LEN" "length (fr_header r) = HEADER_LEN"
      using assms(1) by (simp_all add: fr_wf_def)
    then have "encode p @ rest =
        fr_header r @ (case fr_payload r of None \<Rightarrow> [] | Some buf \<Rightarrow> take (fr_payload_filled r) buf)"
      using eq by (simp add: fr_pending_def)
    from encode_header [OF assms(3) this] \<open>length (fr_header r) = HEADER_LEN\<close>
    have "header_len (fr_header r) = length p" by simp
    with assms(2) eq le False show False by (simp add: fr_need_def)
  qed
qed

lemma fr_payload_phase_outcome:
  assumes run: "fr_payload_phase len r es = (res, r', es')"
    and wf: "fr_wf r" and full: "fr_header_filled r = HEADER_LEN"
    and v: "fr_header r ! 0 = FRAME_VERSION"
    and len: "len = header_len (fr_header r)" "len \<le> fr_max_payload r"
  shows "read_outcome (fr_max_payload r) (fr_pending r @ stream_bytes es) res r' (stream_bytes es')
    \<and> fr_max_payload r' = fr_max_payload r \<and> length es' \<le> length es
    \<and> (\<forall>k. res = Inl (Io k) \<longrightarrow> length es' < length es)
    \<and> (res = Inl Eof \<longrightarrow> length (fr_pending r') < fr_need r')"
proof -
  define buf where "buf = (case fr_payload r of Some buf \<Rightarrow> buf | None \<Rightarrow> replicate len 0)"
  obtain e es1 buf' filled' where ri: "read_into es buf (fr_payload_filled r) = (e, es1, buf', filled')"
    by (metis surj_pair)
  have lb: "length buf = len" "fr_payload_filled r \<le> length buf"
    using wf len by (auto simp: buf_def fr_wf_def split: option.splits)
  note spec = read_into_spec [OF ri lb(2)]
  have hdr: "length (fr_header r) = HEADER_LEN" using wf by (simp add: fr_wf_def)
  have pend: "fr_pending r = fr_header r @ take (fr_payload_filled r) buf"
    using wf full hdr by (auto simp: fr_pending_def buf_def fr_wf_def split: option.splits)
  have es1: "es' = es1" using run ri by (auto simp: fr_payload_phase_def buf_def Let_def split: option.splits)
  show ?thesis
  proof (cases e)
    case None
    with run ri have res: "res = Inr buf'"
      and r': "r' = r\<lparr>fr_payload := None, fr_header_filled := 0, fr_payload_filled := 0\<rparr>"
      by (simp_all add: fr_payload_phase_def buf_def Let_def)
    from spec None have lb': "length buf' = len" and t: "take filled' buf' = buf'" using lb by auto
    have "encode buf' = fr_header r @ buf'"
      using hdr v lb' len(1) by (intro header_encode) simp_all
    moreover have "payload_ok (fr_max_payload r) buf'"
      using lb' len header_len_bound [of "fr_header r"] by (simp add: payload_ok_def)
    moreover have "fr_idle r'" using hdr by (simp add: r' fr_idle_def fr_wf_def)
    ultimately show ?thesis
      using spec t by (simp add: res read_outcome_def pend es1 r')
  next
    case (Some err)
    with run ri have res: "res = Inl err"
      and r': "r' = r\<lparr>fr_payload := Some buf', fr_payload_filled := filled'\<rparr>"
      by (simp_all add: fr_payload_phase_def buf_def Let_def)
    have wf': "fr_wf r'" using hdr full v len spec lb by (simp add: r' fr_wf_def)
    have pend': "fr_pending r' = fr_header r @ take filled' buf'"
      using full hdr by (simp add: r' fr_pending_def)
    show ?thesis
      using spec Some wf' pend' lb hdr
      using full len
      by (cases err) (auto simp: res read_outcome_def pend es1 r' fr_need_def)
  qed
qed

lemma fr_read_payload_outcome:
  assumes run: "fr_read_payload r es = (res, r', es')" and wf: "fr_wf r"
  shows "read_outcome (fr_max_payload r) (fr_pending r @ stream_bytes es) res r' (stream_bytes es')
    \<and> fr_max_payload r' = fr_max_payload r \<and> length es' \<le> length es
    \<and> (\<forall>k. res = Inl (Io k) \<longrightarrow> length es' < length es)
    \<and> (res = Inl Eof \<longrightarrow> length (fr_pending r') < fr_need r')"
proof -
  obtain e es1 hdr filled where h:
    "(if fr_header_filled r < HEADER_LEN then read_into es (fr_header r) (fr_header_filled r)
      else (None, es, fr_header r, fr_header_filled r)) = (e, es1, hdr, filled)"
    by (metis surj_pair)
  let ?r1 = "r\<lparr>fr_header := hdr, fr_header_filled := filled\<rparr>"
  have lh: "length (fr_header r) = HEADER_LEN" "fr_header_filled r \<le> HEADER_LEN"
    using wf by (simp_all add: fr_wf_def)
  have spec: "length hdr = HEADER_LEN \<and> filled \<le> HEADER_LEN \<and> length es1 \<le> length es
      \<and> take filled hdr @ stream_bytes es1 = take (fr_header_filled r) (fr_header r) @ stream_bytes es
      \<and> (case e of
           None \<Rightarrow> filled = HEADER_LEN
         | Some Eof \<Rightarrow> filled < HEADER_LEN
         | Some (Io k) \<Rightarrow> filled < HEADER_LEN \<and> length es1 < length es
         | _ \<Rightarrow> False)"
  proof (cases "fr_header_filled r < HEADER_LEN")
    case True
    with h have "read_into es (fr_header r) (fr_header_filled r) = (e, es1, hdr, filled)" by simp
    from read_into_spec [OF this, unfolded lh(1)] lh(2) show ?thesis by simp
  next
    case False
    with h lh show ?thesis by auto
  qed
  have none: "fr_payload r = None" if "fr_header_filled r < HEADER_LEN"
    using wf that by (auto simp: fr_wf_def split: option.splits)
  have keep: "hdr = fr_header r \<and> filled = fr_header_filled r \<and> es1 = es \<and> e = None"
    if "\<not> fr_header_filled r < HEADER_LEN" using h that by auto
  show ?thesis
  proof (cases e)
    case (Some err)
    with keep have lt: "fr_header_filled r < HEADER_LEN" by auto
    with none have n: "fr_payload r = None" by blast
    from run h Some have res: "res = Inl err" "r' = ?r1" "es' = es1"
      by (simp_all add: fr_read_payload_def)
    have "fr_wf ?r1" using spec n wf by (simp add: fr_wf_def)
    then show ?thesis
      using spec Some n by (cases err) (auto simp: res read_outcome_def fr_pending_def fr_need_def)
  next
    case None
    then have full: "filled = HEADER_LEN" using spec by simp
    have wf1: "length (fr_header ?r1) = HEADER_LEN" using spec by simp
    have before: "fr_pending r @ stream_bytes es = fr_pending ?r1 @ stream_bytes es1"
    proof (cases "fr_header_filled r < HEADER_LEN")
      case True
      with none spec show ?thesis by (simp add: fr_pending_def)
    next
      case False
      with keep show ?thesis by (simp add: fr_pending_def)
    qed
    show ?thesis
    proof (cases "fr_payload r")
      case pNone: None
      have b: "fr_pending r @ stream_bytes es = hdr @ stream_bytes es1"
        unfolding before using pNone spec full by (simp add: fr_pending_def)
      have wfr1: "fr_wf ?r1" using wf pNone spec full by (simp add: fr_wf_def)
      consider (ver) "hdr ! 0 \<noteq> FRAME_VERSION" | (large) "hdr ! 0 = FRAME_VERSION" "header_len hdr > fr_max_payload r"
        | (good) "hdr ! 0 = FRAME_VERSION" "header_len hdr \<le> fr_max_payload r" by linarith
      then show ?thesis
      proof cases
        case ver
        with run h None have "res = Inl (UnsupportedVersion (hdr ! 0))" "r' = fr_reset ?r1" "es' = es1"
          by (simp_all add: fr_read_payload_def)
        then show ?thesis
          using ver b spec fr_reset_idle [OF wf1] by (auto simp: read_outcome_def fr_reset_def)
      next
        case large
        with run h None have "res = Inl (PayloadTooLarge (header_len hdr))" "r' = fr_reset ?r1" "es' = es1"
          by (simp_all add: fr_read_payload_def header_len_def Let_def)
        then show ?thesis
          using large b spec fr_reset_idle [OF wf1] by (auto simp: read_outcome_def fr_reset_def)
      next
        case good
        with run h None have ph: "fr_payload_phase (header_len hdr) ?r1 es1 = (res, r', es')"
          by (simp add: fr_read_payload_def header_len_def Let_def)
        from fr_payload_phase_outcome [OF ph wfr1] good full spec show ?thesis
          unfolding before by auto
      qed
    next
      case (Some buf)
      then have kp: "hdr = fr_header r" "filled = fr_header_filled r" "es1 = es"
        using keep none by auto
      then have r1: "?r1 = r" by simp
      have g: "hdr ! 0 = FRAME_VERSION" "header_len hdr \<le> fr_max_payload r"
        using wf Some kp by (auto simp: fr_wf_def)
      with run h None have ph: "fr_payload_phase (header_len hdr) r es = (res, r', es')"
        by (simp add: fr_read_payload_def header_len_def Let_def r1 kp)
      from fr_payload_phase_outcome [OF ph wf] g full kp show ?thesis by auto
    qed
  qed
qed

section \<open>Smooth streams\<close>

text \<open>A stream that is not closed before its end.\<close>

definition smooth :: "stream_event list \<Rightarrow> bool" where
  "smooth es \<longleftrightarrow> list_all (\<lambda>e. e \<noteq> Chunk [] \<and> e \<noteq> Fault UnexpectedEof) es"

lemma smooth_read_call: "smooth es \<Longrightarrow> read_call n es = (r, es') \<Longrightarrow> smooth es'"
  by (induction n es rule: read_call.induct) (auto simp: smooth_def split: if_splits)

lemma smooth_read_call_eof:
  "smooth es \<Longrightarrow> 0 < n \<Longrightarrow> read_call n es = (Inr [], es') \<Longrightarrow> es' = []"
  "smooth es \<Longrightarrow> read_call n es \<noteq> (Inl UnexpectedEof, es')"
  by (induction n es rule: read_call.induct) (auto simp: smooth_def split: if_splits)

lemma smooth_read_into:
  "smooth es \<Longrightarrow> read_into es buf filled = (res, es', buf', filled') \<Longrightarrow>
     smooth es' \<and> (res = Some Eof \<longrightarrow> es' = [])"
proof (induction es buf filled arbitrary: res es' buf' filled' rule: read_into.induct)
  case (1 es buf filled)
  note run = "1.prems"(2)
  show ?case
  proof (cases "filled < length buf")
    case False
    with "1.prems" show ?thesis by (simp add: read_into.simps)
  next
    case True
    then have pos: "0 < length buf - filled" by simp
    obtain r es1 where rc: "read_call (length buf - filled) es = (r, es1)" by force
    note sm = smooth_read_call [OF "1.prems"(1) rc]
    show ?thesis
    proof (cases r)
      case (Inr bs)
      show ?thesis
      proof (cases "bs = []")
        case Nil: True
        with smooth_read_call_eof(1) [OF "1.prems"(1) pos] rc Inr have "es1 = []" by simp
        with run True rc Inr Nil sm show ?thesis by (simp add: read_into.simps [of es buf filled])
      next
        case bs: False
        have run': "read_into es1 (take filled buf @ bs @ drop (filled + length bs) buf) (filled + length bs)
            = (res, es', buf', filled')"
          using run True rc Inr bs by (simp add: read_into.simps [of es buf filled])
        from "1.IH"(2) [OF True rc [symmetric] Inr bs sm run'] show ?thesis .
      qed
    next
      case (Inl k)
      have "k \<noteq> UnexpectedEof" using smooth_read_call_eof(2) [OF "1.prems"(1)] rc Inl by auto
      show ?thesis
      proof (cases "k = Interrupted")
        case I: True
        have run': "read_into es1 buf filled = (res, es', buf', filled')"
          using run True rc Inl I by (simp add: read_into.simps [of es buf filled])
        from "1.IH"(1) [OF True rc [symmetric] Inl I sm run'] show ?thesis .
      next
        case False
        with run True rc Inl sm \<open>k \<noteq> UnexpectedEof\<close> show ?thesis
          by (cases k) (auto simp: read_into.simps [of es buf filled])
      qed
    qed
  qed
qed

lemma smooth_fr_read_payload:
  assumes sm: "smooth es" and run: "fr_read_payload r es = (res, r', es')"
  shows "smooth es' \<and> (res = Inl Eof \<longrightarrow> es' = [])"
proof -
  obtain e es1 hdr filled where h:
    "(if fr_header_filled r < HEADER_LEN then read_into es (fr_header r) (fr_header_filled r)
      else (None, es, fr_header r, fr_header_filled r)) = (e, es1, hdr, filled)"
    by (metis surj_pair)
  have s1: "smooth es1 \<and> (e = Some Eof \<longrightarrow> es1 = [])"
    using h sm smooth_read_into [OF sm] by (auto split: if_splits)
  have "smooth es' \<and> (res = Inl Eof \<longrightarrow> es' = [])" if ph: "fr_payload_phase len q es1 = (res, q', es')" for len q q'
  proof -
    define buf where "buf = (case fr_payload q of Some buf \<Rightarrow> buf | None \<Rightarrow> replicate len 0)"
    obtain e2 es2 b2 f2 where ri: "read_into es1 buf (fr_payload_filled q) = (e2, es2, b2, f2)"
      by (metis surj_pair)
    from smooth_read_into [OF _ ri] s1 ph ri show ?thesis
      by (auto simp: fr_payload_phase_def buf_def Let_def split: option.splits)
  qed
  then show ?thesis
    using run h s1
    by (auto simp: fr_read_payload_def Let_def split: option.splits if_splits)
qed

section \<open>The faults of a stream\<close>

definition faults :: "stream_event list \<Rightarrow> io_kind set" where
  "faults es = {k. Fault k \<in> set es}"

lemma read_call_faults:
  "read_call n es = (r, es') \<Longrightarrow> faults es' \<subseteq> faults es \<and> (\<forall>k. r = Inl k \<longrightarrow> k \<in> faults es)"
  by (induction n es rule: read_call.induct) (auto simp: faults_def split: if_splits)

lemma read_into_faults:
  "read_into es buf filled = (res, es', buf', filled') \<Longrightarrow>
     faults es' \<subseteq> faults es \<and> (\<forall>k. res = Some (Io k) \<longrightarrow> k \<in> faults es \<and> k \<noteq> Interrupted)"
proof (induction es buf filled arbitrary: res es' buf' filled' rule: read_into.induct)
  case (1 es buf filled)
  note run = "1.prems"
  show ?case
  proof (cases "filled < length buf")
    case False
    with run show ?thesis by (simp add: read_into.simps)
  next
    case True
    obtain r es1 where rc: "read_call (length buf - filled) es = (r, es1)" by force
    note f = read_call_faults [OF rc]
    show ?thesis
    proof (cases r)
      case (Inr bs)
      show ?thesis
      proof (cases "bs = []")
        case True
        with run \<open>filled < length buf\<close> rc Inr f show ?thesis by (auto simp: read_into.simps [of es buf filled])
      next
        case bs: False
        have "read_into es1 (take filled buf @ bs @ drop (filled + length bs) buf) (filled + length bs)
            = (res, es', buf', filled')"
          using run True rc Inr bs by (simp add: read_into.simps [of es buf filled])
        from "1.IH"(2) [OF True rc [symmetric] Inr bs this] f show ?thesis by blast
      qed
    next
      case (Inl k)
      show ?thesis
      proof (cases "k = Interrupted")
        case I: True
        have "read_into es1 buf filled = (res, es', buf', filled')"
          using run True rc Inl I by (simp add: read_into.simps [of es buf filled])
        from "1.IH"(1) [OF True rc [symmetric] Inl I this] f show ?thesis by blast
      next
        case False
        with run True rc Inl f show ?thesis
          by (cases k) (auto simp: read_into.simps [of es buf filled])
      qed
    qed
  qed
qed

lemma fr_read_payload_faults:
  assumes run: "fr_read_payload r es = (res, r', es')"
  shows "faults es' \<subseteq> faults es \<and> (\<forall>k. res = Inl (Io k) \<longrightarrow> k \<in> faults es \<and> k \<noteq> Interrupted)"
proof -
  obtain e es1 hdr filled where h:
    "(if fr_header_filled r < HEADER_LEN then read_into es (fr_header r) (fr_header_filled r)
      else (None, es, fr_header r, fr_header_filled r)) = (e, es1, hdr, filled)"
    by (metis surj_pair)
  have f1: "faults es1 \<subseteq> faults es \<and> (\<forall>k. e = Some (Io k) \<longrightarrow> k \<in> faults es \<and> k \<noteq> Interrupted)"
    using h read_into_faults by (auto split: if_splits)
  have "faults es' \<subseteq> faults es \<and> (\<forall>k. res = Inl (Io k) \<longrightarrow> k \<in> faults es \<and> k \<noteq> Interrupted)"
    if ph: "fr_payload_phase len q es1 = (res, q', es')" for len q q'
  proof -
    define buf where "buf = (case fr_payload q of Some buf \<Rightarrow> buf | None \<Rightarrow> replicate len 0)"
    obtain e2 es2 b2 f2 where ri: "read_into es1 buf (fr_payload_filled q) = (e2, es2, b2, f2)"
      by (metis surj_pair)
    with ph have "es' = es2" "res = (case e2 of Some e \<Rightarrow> Inl e | None \<Rightarrow> Inr b2)"
      by (auto simp: fr_payload_phase_def buf_def Let_def split: option.splits)
    with read_into_faults [OF ri] f1 show ?thesis by (auto split: option.splits)
  qed
  then show ?thesis
    using run h f1
    by (auto simp: fr_read_payload_def Let_def split: option.splits if_splits)
qed

text \<open>Streams without a fault but interruptions.\<close>

definition uninterrupted :: "stream_event list \<Rightarrow> bool" where
  "uninterrupted es \<longleftrightarrow> list_all (\<lambda>e. e \<noteq> Chunk [] \<and> (\<forall>k. e = Fault k \<longrightarrow> k = Interrupted)) es"

lemma uninterrupted_smooth: "uninterrupted es \<Longrightarrow> smooth es"
  by (auto simp: uninterrupted_def smooth_def list_all_iff)

lemma uninterrupted_iff: "uninterrupted es \<longleftrightarrow> smooth es \<and> faults es \<subseteq> {Interrupted}"
  by (auto simp: uninterrupted_def smooth_def faults_def list_all_iff)

lemma uninterrupted_read_into:
  "uninterrupted es \<Longrightarrow> read_into es buf filled = (res, es', buf', filled') \<Longrightarrow>
     uninterrupted es' \<and> (\<forall>k. res \<noteq> Some (Io k))"
  using smooth_read_into read_into_faults unfolding uninterrupted_iff by blast

section \<open>A client that retries after a timeout\<close>

text \<open>
  The read loop of a client that holds the reader: an I/O error (a timeout) is retried on the same
  reader. Each retry has used up an event of the stream, so as many retries as events suffice.
\<close>

fun read_retry ::
  "nat \<Rightarrow> frame_reader \<Rightarrow> stream_event list \<Rightarrow> (frame_error + bytes) \<times> frame_reader \<times> stream_event list" where
  "read_retry 0 r es = fr_read_payload r es"
| "read_retry (Suc n) r es =
     (case fr_read_payload r es of
        (Inl (Io k), r', es') \<Rightarrow> read_retry n r' es'
      | x \<Rightarrow> x)"

fun read_frames :: "nat \<Rightarrow> frame_reader \<Rightarrow> stream_event list \<Rightarrow> (frame_error + bytes) list" where
  "read_frames 0 r es = []"
| "read_frames (Suc n) r es =
     (let (res, r', es') = read_retry (length es) r es in res # read_frames n r' es')"

lemma frame_result:
  assumes run: "fr_read_payload r es = (res, r', es')" and wf: "fr_wf r" and sm: "smooth es"
    and ok: "payload_ok (fr_max_payload r) p" and eq: "fr_pending r @ stream_bytes es = encode p @ rest"
  shows "(res = Inr p \<and> fr_idle r' \<and> stream_bytes es' = rest)
    \<or> (\<exists>k. res = Inl (Io k) \<and> fr_wf r' \<and> fr_pending r' @ stream_bytes es' = encode p @ rest)"
proof -
  note out = fr_read_payload_outcome [OF run wf, unfolded eq]
  show ?thesis
  proof (cases res)
    case (Inr q)
    with out have "fr_idle r'" "payload_ok (fr_max_payload r) q" "encode p @ rest = encode q @ stream_bytes es'"
      by (auto simp: read_outcome_def)
    with fr.prefix_free [OF ok, of q] Inr show ?thesis by auto
  next
    case (Inl e)
    show ?thesis
    proof (cases e)
      case (UnsupportedVersion v)
      with out Inl obtain hdr where "length hdr = HEADER_LEN" "encode p @ rest = hdr @ stream_bytes es'"
        "hdr ! 0 \<noteq> FRAME_VERSION" by (auto simp: read_outcome_def)
      with encode_header [OF ok, of rest hdr] show ?thesis by auto
    next
      case (PayloadTooLarge n)
      with out Inl obtain hdr where "length hdr = HEADER_LEN" "encode p @ rest = hdr @ stream_bytes es'"
        "fr_max_payload r < header_len hdr" by (auto simp: read_outcome_def)
      with encode_header [OF ok, of rest hdr] ok show ?thesis by (auto simp: payload_ok_def)
    next
      case Eof
      with out Inl have w: "fr_wf r'" "encode p @ rest = fr_pending r' @ stream_bytes es'"
        "length (fr_pending r') < fr_need r'" by (auto simp: read_outcome_def)
      moreover have "es' = []" using smooth_fr_read_payload [OF sm run] Inl Eof by simp
      ultimately have "fr_pending r' = encode p @ rest" by simp
      with fr_incomplete [OF w(1,3) ok] show ?thesis by blast
    qed (use out Inl in \<open>auto simp: read_outcome_def\<close>)
  qed
qed

lemma read_retry_frame:
  assumes "fr_wf r" "smooth es" "length es \<le> n"
    and "payload_ok (fr_max_payload r) p" "fr_pending r @ stream_bytes es = encode p @ rest"
  shows "\<exists>r' es'. read_retry n r es = (Inr p, r', es') \<and> fr_idle r' \<and> smooth es'
    \<and> fr_max_payload r' = fr_max_payload r \<and> stream_bytes es' = rest"
  using assms
proof (induction n arbitrary: r es)
  case (0 r es)
  then have es: "es = []" by simp
  obtain res r' es' where run: "fr_read_payload r es = (res, r', es')" by (metis surj_pair)
  note out = fr_read_payload_outcome [OF run "0.prems"(1)]
  note sm = smooth_fr_read_payload [OF "0.prems"(2) run]
  show ?case
    using frame_result [OF run "0.prems"(1,2,4,5)] es out sm run by auto
next
  case (Suc n r es)
  obtain res r' es' where run: "fr_read_payload r es = (res, r', es')" by (metis surj_pair)
  note out = fr_read_payload_outcome [OF run Suc.prems(1)]
  note sm = smooth_fr_read_payload [OF Suc.prems(2) run]
  from frame_result [OF run Suc.prems(1,2,4,5)] show ?case
  proof
    assume "res = Inr p \<and> fr_idle r' \<and> stream_bytes es' = rest"
    then show ?thesis using out sm by (simp add: run)
  next
    assume "\<exists>k. res = Inl (Io k) \<and> fr_wf r' \<and> fr_pending r' @ stream_bytes es' = encode p @ rest"
    then obtain k where k: "res = Inl (Io k)" "fr_wf r'" "fr_pending r' @ stream_bytes es' = encode p @ rest"
      by blast
    have m: "fr_max_payload r' = fr_max_payload r" "length es' \<le> n" using out k Suc.prems(3) by auto
    with Suc.IH [OF k(2) conjunct1 [OF sm] m(2) _ k(3)] Suc.prems(4) k(1) show ?thesis
      by (simp add: run)
  qed
qed

lemma read_frames_concat:
  assumes "fr_idle r" "smooth es" "list_all (payload_ok (fr_max_payload r)) ps"
    and "stream_bytes es = concat (map encode ps) @ rest"
  shows "read_frames (length ps) r es = map Inr ps"
  using assms
proof (induction ps arbitrary: r es)
  case (Cons p ps)
  have "fr_wf r" using Cons.prems(1) by (simp add: fr_idle_def)
  moreover have "payload_ok (fr_max_payload r) p" using Cons.prems(3) by simp
  moreover have "fr_pending r @ stream_bytes es = encode p @ (concat (map encode ps) @ rest)"
    using Cons.prems(4) by (simp add: fr_idle_pending [OF Cons.prems(1)])
  ultimately obtain r' es' where step: "read_retry (length es) r es = (Inr p, r', es')"
    "fr_idle r'" "smooth es'" "fr_max_payload r' = fr_max_payload r"
    "stream_bytes es' = concat (map encode ps) @ rest"
    using read_retry_frame [of r es "length es" p] Cons.prems(2) by blast
  have "read_frames (length ps) r' es' = map Inr ps"
    using Cons.prems(3) step by (intro Cons.IH) simp_all
  then show ?case by (simp add: step(1))
qed simp

text \<open>The one-shot reader on a stream that does not time out.\<close>

lemma read_payload_frame:
  assumes un: "uninterrupted es" and ok: "payload_ok max_payload p" and eq: "stream_bytes es = encode p @ rest"
  shows "\<exists>es'. read_payload max_payload es = (Inr p, es') \<and> stream_bytes es' = rest"
proof -
  obtain res r' es' where run: "fr_read_payload (fr_new max_payload) es = (res, r', es')" by (metis surj_pair)
  have "res \<noteq> Inl (Io k)" for k
    using fr_read_payload_faults [OF run] un by (auto simp: uninterrupted_iff)
  moreover have "fr_wf (fr_new max_payload)" using fr_idle_new [of max_payload] by (simp add: fr_idle_def)
  ultimately have "res = Inr p \<and> stream_bytes es' = rest"
    using frame_result [OF run _ uninterrupted_smooth [OF un], of p rest] ok eq
    by (auto simp: fr_idle_pending [OF fr_idle_new]) (simp_all add: fr_new_def)
  then show ?thesis by (simp add: read_payload_def run)
qed

section \<open>Properties\<close>

text \<open>
  The envelope is exact: \<open>parse\<close> accepts a buffer, with a payload, if and only if the buffer
  begins with the encoding of that payload and the payload is within the bound (and within what
  the 32-bit length field can say); so a payload within the bound is read back from its encoding,
  whatever follows it.
\<close>
theorem parse_accepts_exactly_encodings:
  "(parse max_payload bs = Inr p) =
     (length p \<le> max_payload \<and> length p < 2 ^ 32 \<and> (\<exists>rest. bs = encode p @ rest))"
  using fr.dec_iff [of max_payload bs p] by (simp add: payload_ok_def)

text \<open>
  The stream reader loses no byte: for a reader in any state, the bytes in flight followed by
  those still in the stream are, after a call, either unchanged (a timeout or other I/O error, or a
  close before a full frame), or shorter by exactly the frame that was returned, or by exactly the
  one header that was rejected, for its version or for its declared length.
\<close>
theorem reader_loses_no_byte:
  assumes "fr_wf r" and "fr_read_payload r es = (res, r', es')"
  shows "fr_wf r' \<and>
    (case res of
       Inr p \<Rightarrow> fr_pending r @ stream_bytes es = encode p @ fr_pending r' @ stream_bytes es'
         \<and> length p \<le> fr_max_payload r
     | Inl (UnsupportedVersion v) \<Rightarrow>
         (\<exists>hdr. length hdr = HEADER_LEN \<and> fr_pending r @ stream_bytes es = hdr @ fr_pending r' @ stream_bytes es'
           \<and> hdr ! 0 = v \<and> v \<noteq> FRAME_VERSION)
     | Inl (PayloadTooLarge n) \<Rightarrow>
         (\<exists>hdr. length hdr = HEADER_LEN \<and> fr_pending r @ stream_bytes es = hdr @ fr_pending r' @ stream_bytes es'
           \<and> header_len hdr = n \<and> fr_max_payload r < n)
     | Inl (Io k) \<Rightarrow> fr_pending r @ stream_bytes es = fr_pending r' @ stream_bytes es'
         \<and> length es' < length es
     | Inl Eof \<Rightarrow> fr_pending r @ stream_bytes es = fr_pending r' @ stream_bytes es'
         \<and> length (fr_pending r') < fr_need r'
     | Inl _ \<Rightarrow> False)"
proof -
  have idle: "fr_wf r' \<and> fr_pending r' = []" if "fr_idle r'"
    using that fr_idle_pending [OF that] by (simp add: fr_idle_def)
  show ?thesis
    using fr_read_payload_outcome [OF assms(2,1)] idle
    by (auto simp: read_outcome_def payload_ok_def split: sum.splits frame_error.splits)
qed

lemma reader_loses_no_byte_witness:
  "fr_pending (fst (snd (fr_read_payload (fr_new 10) [Chunk [1, 2], Fault WouldBlock, Chunk [0, 0, 0, 7, 8]])))
   @ [0, 0, 0, 7, 8] = [1, 2, 0, 0, 0, 7, 8]"
proof -
  have wf: "fr_wf (fr_new 10)" using fr_idle_new [of 10] by (simp add: fr_idle_def)
  have run: "fr_read_payload (fr_new 10) [Chunk [1, 2], Fault WouldBlock, Chunk [0, 0, 0, 7, 8]] =
      (Inl (Io WouldBlock), (fr_new 10)\<lparr>fr_header := [1, 2, 0, 0, 0], fr_header_filled := 2\<rparr>, [Chunk [0, 0, 0, 7, 8]])"
    by (simp add: fr_read_payload_def fr_new_def HEADER_LEN_def read_into.simps numeral_eq_Suc)
  from reader_loses_no_byte [OF wf run] show ?thesis
    by (simp add: run) (simp add: fr_pending_def fr_new_def)
qed

text \<open>
  C13. Framing does not depend on how the stream is cut: if the bytes of a stream begin with the
  encodings of some payloads within the bound, then, however they are cut into chunks and wherever
  interruptions and timeouts fall between them, a client that retries on the same reader reads
  exactly these payloads, in order.
\<close>
theorem framing_is_chunk_independent:
  assumes "smooth es" and "list_all (payload_ok max_payload) ps"
    and "stream_bytes es = concat (map encode ps) @ rest"
  shows "read_frames (length ps) (fr_new max_payload) es = map Inr ps"
  using read_frames_concat [OF fr_idle_new assms(1), of max_payload ps rest] assms(2,3)
  by (simp add: fr_new_def)

lemma framing_is_chunk_independent_witness:
  "read_frames (length [[7, 8 :: u8], []]) (fr_new 10)
     [Chunk [1, 2], Fault WouldBlock, Chunk [0, 0], Fault Interrupted, Chunk [0, 7], Fault WouldBlock,
      Chunk [8, 1, 0, 0], Chunk [0, 0, 5]] = map Inr [[7, 8], []]"
  by (rule framing_is_chunk_independent [where rest = "[5]"])
    (simp_all add: smooth_def payload_ok_def encode_def FRAME_VERSION_def to_le_bytes_def)

end
