(* ===== verification/Ipc_Frame.thy ===== *)
theory Ipc_Frame
  imports Frame Mapping_Cache
begin

text \<open>
  \<open>src/platform/macos/ipc_frame.rs\<close>: the payload of the emitter channel, a batch of mapped keys,
  over the shared envelope. Its codec is a second interpretation of the \<open>codec\<close> contract.
\<close>

definition MAX_PAYLOAD_LEN :: nat where "MAX_PAYLOAD_LEN = 4096"
definition MAX_KEYS_PER_FRAME :: nat where "MAX_KEYS_PER_FRAME = 64"

datatype ipc_frame_error =
    IpcTooShort nat
  | IpcUnsupportedVersion u8
  | IpcPayloadTooLarge nat
  | IpcTruncated nat nat
  | TooManyKeys nat
  | UnknownUsage u32
  | IpcEof
  | IpcIo io_kind

primrec ipc_error_from :: "frame_error \<Rightarrow> ipc_frame_error" where
  "ipc_error_from (TooShort n) = IpcTooShort n"
| "ipc_error_from (UnsupportedVersion v) = IpcUnsupportedVersion v"
| "ipc_error_from (PayloadTooLarge n) = IpcPayloadTooLarge n"
| "ipc_error_from (Truncated need have_len) = IpcTruncated need have_len"
| "ipc_error_from Eof = IpcEof"
| "ipc_error_from (Io k) = IpcIo k"

definition key_bytes :: "native_key \<Rightarrow> bytes" where
  "key_bytes key = nk_modifiers key # to_le_bytes (hid_code (nk_usage key))"

definition keys_payload :: "native_key list \<Rightarrow> bytes" where
  "keys_payload keys =
     (let key_count = min (length keys) MAX_KEYS_PER_FRAME
      in to_le_bytes (word_of_nat key_count) @ concat (map key_bytes (take key_count keys)))"

definition ipc_encode :: "native_key list \<Rightarrow> bytes" where
  "ipc_encode keys = encode (keys_payload keys)"

text \<open>The loop over the declared keys, from offset \<open>off\<close> on.\<close>

fun decode_keys :: "bytes \<Rightarrow> nat \<Rightarrow> nat \<Rightarrow> ipc_frame_error + native_key list" where
  "decode_keys payload off 0 = Inr []"
| "decode_keys payload off (Suc n) =
     (let hid = from_le_bytes (payload ! (off + 1)) (payload ! (off + 2)) (payload ! (off + 3))
                  (payload ! (off + 4))
      in case from_code hid of
           None \<Rightarrow> Inl (UnknownUsage hid)
         | Some usage \<Rightarrow>
             (case decode_keys payload (off + 5) n of
                Inl e \<Rightarrow> Inl e
              | Inr keys \<Rightarrow> Inr (\<lparr>nk_modifiers = payload ! off, nk_usage = usage\<rparr> # keys)))"

definition decode_payload :: "bytes \<Rightarrow> ipc_frame_error + native_key list" where
  "decode_payload payload =
     (if length payload < 4 then Inl (IpcTruncated 4 (length payload))
      else
        let key_count = unat (from_le_bytes (payload ! 0) (payload ! 1) (payload ! 2) (payload ! 3)) in
        if key_count > MAX_KEYS_PER_FRAME then Inl (TooManyKeys key_count)
        else
          let expected = 4 + key_count * 5 in
          if length payload < expected then Inl (IpcTruncated expected (length payload))
          else decode_keys payload 4 key_count)"

definition ipc_decode :: "bytes \<Rightarrow> ipc_frame_error + native_key list" where
  "ipc_decode buf =
     (case parse MAX_PAYLOAD_LEN buf of
        Inl e \<Rightarrow> Inl (ipc_error_from e) | Inr payload \<Rightarrow> decode_payload payload)"

definition decode_stream ::
  "frame_reader \<Rightarrow> stream_event list
    \<Rightarrow> (ipc_frame_error + native_key list) \<times> frame_reader \<times> stream_event list" where
  "decode_stream r es =
     (let (res, r', es') = fr_read_payload r es
      in (case res of Inl e \<Rightarrow> Inl (ipc_error_from e) | Inr payload \<Rightarrow> decode_payload payload, r', es'))"

section \<open>Decoding what was encoded\<close>

lemma length_key_bytes [simp]: "length (key_bytes k) = 5"
  by (simp add: key_bytes_def)

lemma length_concat_key_bytes: "length (concat (map key_bytes ks)) = 5 * length ks"
  by (induction ks) simp_all

text \<open>Bytes after a prefix of known length.\<close>

lemma nth_after: "length pre = off \<Longrightarrow> (pre @ xs) ! (off + i) = xs ! i"
  by (simp add: nth_append)

lemma decode_keys_encoded:
  "length pre = off \<Longrightarrow> decode_keys (pre @ concat (map key_bytes ks) @ rest) off (length ks) = Inr ks"
proof (induction ks arbitrary: pre off)
  case (Cons k ks)
  let ?tail = "concat (map key_bytes ks) @ rest"
  have at: "(pre @ key_bytes k @ ?tail) ! (off + i) = key_bytes k ! i" if "i < 5" for i
    using nth_after [OF Cons.prems, of "key_bytes k @ ?tail" i] that by (simp add: nth_append)
  have code: "from_le_bytes (key_bytes k ! 1) (key_bytes k ! 2) (key_bytes k ! 3) (key_bytes k ! 4)
      = hid_code (nk_usage k)"
    by (simp add: key_bytes_def to_le_bytes_def)
  have mods: "key_bytes k ! 0 = nk_modifiers k" by (simp add: key_bytes_def)
  have rec: "decode_keys (pre @ key_bytes k @ ?tail) (off + 5) (length ks) = Inr ks"
    using Cons.IH [of "pre @ key_bytes k" "off + 5"] Cons.prems by simp
  show ?case
    using at [of 0] at [of 1] at [of 2] at [of 3] at [of 4] rec
    by (simp add: code mods Let_def del: One_nat_def)
qed simp

lemma keys_payload_short: "length ks \<le> MAX_KEYS_PER_FRAME \<Longrightarrow>
    keys_payload ks = to_le_bytes (word_of_nat (length ks)) @ concat (map key_bytes ks)"
  by (simp add: keys_payload_def)

lemma decode_keys_payload:
  assumes "length ks \<le> MAX_KEYS_PER_FRAME"
  shows "decode_payload (keys_payload ks) = Inr ks"
proof -
  have l: "length (keys_payload ks) = 4 + length ks * 5"
    using assms by (simp add: keys_payload_short length_concat_key_bytes)
  have "length ks < 2 ^ 32" using assms by (simp add: MAX_KEYS_PER_FRAME_def)
  then have c: "unat (from_le_bytes (keys_payload ks ! 0) (keys_payload ks ! 1) (keys_payload ks ! 2)
      (keys_payload ks ! 3)) = length ks"
    using assms by (simp add: keys_payload_short nth_append to_le_bytes_def unat_length_word)
  have "decode_keys (keys_payload ks) 4 (length ks) = Inr ks"
    using decode_keys_encoded [of "to_le_bytes (word_of_nat (length ks))" 4 ks "[]"] assms
    by (simp add: keys_payload_short)
  with c l assms show ?thesis by (simp add: decode_payload_def Let_def)
qed

lemma keys_payload_take: "keys_payload ks = keys_payload (take MAX_KEYS_PER_FRAME ks)"
  by (simp add: keys_payload_def min_def)

lemma keys_payload_ok: "payload_ok MAX_PAYLOAD_LEN (keys_payload ks)"
proof -
  let ?ks = "take MAX_KEYS_PER_FRAME ks"
  have "length ?ks \<le> 64" by (simp add: MAX_KEYS_PER_FRAME_def)
  then have "length (keys_payload ?ks) \<le> 4 + 5 * 64"
    by (simp add: keys_payload_short MAX_KEYS_PER_FRAME_def length_concat_key_bytes)
  then show ?thesis
    by (subst keys_payload_take) (simp add: payload_ok_def MAX_PAYLOAD_LEN_def)
qed

definition batch_ok :: "native_key list \<Rightarrow> bool" where
  "batch_ok ks \<longleftrightarrow> length ks \<le> MAX_KEYS_PER_FRAME"

interpretation ipc: codec ipc_encode ipc_decode batch_ok
  by unfold_locales
    (simp add: ipc_encode_def ipc_decode_def parse_encode_append keys_payload_ok decode_keys_payload batch_ok_def)

text \<open>
  The emitter channel delivers batches faithfully: decoding the encoding of a batch, whatever
  follows it in the buffer, gives the batch, cut to its first 64 keys; so batches of at most 64 keys
  with the same encoding are equal, and the payload never exceeds the reader's bound.
\<close>
theorem key_batch_round_trip:
  "ipc_decode (ipc_encode ks @ rest) = Inr (take MAX_KEYS_PER_FRAME ks)
   \<and> payload_ok MAX_PAYLOAD_LEN (keys_payload ks)"
proof -
  have "ipc_encode ks = ipc_encode (take MAX_KEYS_PER_FRAME ks)"
    unfolding ipc_encode_def by (subst keys_payload_take) (rule refl)
  moreover have "batch_ok (take MAX_KEYS_PER_FRAME ks)" by (simp add: batch_ok_def)
  ultimately show ?thesis
    using ipc.dec_enc [of "take MAX_KEYS_PER_FRAME ks" rest] keys_payload_ok by simp
qed

end
