(* ===== verification/Linux_Keycode.thy ===== *)
theory Linux_Keycode
  imports Hid_Usage
begin

text \<open>
  \<open>src/platform/linux/keycode.rs\<close>: the table between HID usages and evdev key codes, and the two
  lookups the macro \<open>define_keycode!\<close> generates from it.
\<close>

section \<open>The table\<close>

text \<open>
  The rows of \<open>define_keycode!\<close>. The variants of the generated enum \<open>Keycode\<close> carry the names of
  the variants of \<open>HidUsage\<close>, one for one; a variant is represented by the usage of its name.
\<close>

type_synonym keycode = hid_usage

definition keycode_table :: "(keycode \<times> u16) list" where
  "keycode_table =
   [(LeftControl, 29), (RightControl, 97), (LeftShift, 42), (RightShift, 54), (LeftAlt, 56),
    (RightAlt, 100), (LeftCommand, 125), (RightCommand, 126), (CapsLock, 58), (Tab, 15),
    (Space, 57), (Return, 28), (Backspace, 14), (Delete, 111), (Escape, 1), (UpArrow, 103),
    (DownArrow, 108), (LeftArrow, 105), (RightArrow, 106), (PageUp, 104), (PageDown, 109),
    (Home, 102), (End, 107), (PrintScreen, 99), (ScrollLock, 70), (Pause, 119), (Insert, 110),
    (Menu, 358), (F1, 59), (F2, 60), (F3, 61), (F4, 62), (F5, 63), (F6, 64), (F7, 65), (F8, 66),
    (F9, 67), (F10, 68), (F11, 87), (F12, 88), (A_key, 30), (B_key, 48), (C_key, 46),
    (D_key, 32), (E_key, 18), (F_key, 33), (G_key, 34), (H_key, 35), (I_key, 23), (J_key, 36),
    (K_key, 37), (L_key, 38), (M_key, 50), (N_key, 49), (O_key, 24), (P_key, 25), (Q_key, 16),
    (R_key, 19), (S_key, 31), (T_key, 20), (U_key, 22), (V_key, 47), (W_key, 17), (X_key, 45),
    (Y_key, 21), (Z_key, 44), (Number1, 2), (Number2, 3), (Number3, 4), (Number4, 5),
    (Number5, 6), (Number6, 7), (Number7, 8), (Number8, 9), (Number9, 10), (Number0, 11),
    (Numpad0, 82), (Numpad1, 79), (Numpad2, 80), (Numpad3, 81), (Numpad4, 75), (Numpad5, 76),
    (Numpad6, 77), (Numpad7, 71), (Numpad8, 72), (Numpad9, 73), (NumpadDecimal, 83),
    (NumpadMultiply, 55), (NumpadPlus, 78), (NumpadDivide, 98), (NumpadEnter, 96),
    (NumpadMinus, 74), (NumLock, 69), (NumpadEqual, 117), (Minus, 12), (Equal, 13),
    (BracketLeft, 26), (BracketRight, 27), (Backslash, 43), (Semicolon, 39), (Quote, 40),
    (Grave, 41), (Comma, 51), (Slash, 53), (Period, 52), (IsoExtra, 86), (PlayPause, 164),
    (VolumeUp, 115), (VolumeDown, 114), (Mute, 113), (NextTrack, 163), (PreviousTrack, 165),
    (Stop, 166), (BrightnessUp, 225), (BrightnessDown, 224)]"

definition kc_from_native :: "u16 \<Rightarrow> keycode option" where
  "kc_from_native code = find_map (\<lambda>(k, c). if code = c then Some k else None) keycode_table"

definition kc_as_native :: "keycode \<Rightarrow> u16" where
  "kc_as_native k = the (map_of keycode_table k)"

text \<open>The generated matches: \<open>HidUsage::X => Some(Self::X)\<close> and \<open>Self::X => HidUsage::X\<close>.\<close>

definition kc_from_hid_usage :: "hid_usage \<Rightarrow> keycode option" where
  "kc_from_hid_usage usage = find_map (\<lambda>(k, _). if usage = k then Some k else None) keycode_table"

definition kc_to_hid_usage :: "keycode \<Rightarrow> hid_usage" where
  "kc_to_hid_usage k = k"

definition hid_usage_to_keycode :: "hid_usage \<Rightarrow> u16 option" where
  "hid_usage_to_keycode usage = map_option kc_as_native (kc_from_hid_usage usage)"

definition keycode_to_hid_usage :: "u16 \<Rightarrow> hid_usage option" where
  "keycode_to_hid_usage code = map_option kc_to_hid_usage (kc_from_native code)"

section \<open>The table is complete and unambiguous\<close>

lemma keycode_table_keys: "map fst keycode_table = hid_all"
  unfolding hid_all_eq by (simp add: keycode_table_def)

lemma keycode_table_codes:
  "map (\<lambda>r. unat (snd r)) keycode_table =
   [29, 97, 42, 54, 56, 100, 125, 126, 58, 15, 57, 28, 14, 111, 1, 103, 108, 105, 106, 104, 109,
    102, 107, 99, 70, 119, 110, 358, 59, 60, 61, 62, 63, 64, 65, 66, 67, 68, 87, 88, 30, 48, 46,
    32, 18, 33, 34, 35, 23, 36, 37, 38, 50, 49, 24, 25, 16, 19, 31, 20, 22, 47, 17, 45, 21, 44,
    2, 3, 4, 5, 6, 7, 8, 9, 10, 11, 82, 79, 80, 81, 75, 76, 77, 71, 72, 73, 83, 55, 78, 98, 96,
    74, 69, 117, 12, 13, 26, 27, 43, 39, 40, 41, 51, 53, 52, 86, 164, 115, 114, 113, 163, 165,
    166, 225, 224]"
  by (simp add: keycode_table_def)

lemma distinct_keycodes: "distinct (map snd keycode_table)"
proof -
  have "distinct (map (\<lambda>r. unat (snd r)) keycode_table)"
    unfolding keycode_table_codes by simp
  then have "distinct (map unat (map snd keycode_table))" by (simp add: comp_def)
  then show ?thesis by (simp only: distinct_map)
qed

lemma keycode_row: "\<exists>c. (u, c) \<in> set keycode_table"
proof -
  have "u \<in> set (map fst keycode_table)" by (simp add: keycode_table_keys)
  then show ?thesis by auto
qed

lemma keycode_row_unique: "(u, c) \<in> set keycode_table \<Longrightarrow> kc_as_native u = c"
  using distinct_hid_all by (simp add: kc_as_native_def flip: keycode_table_keys)

lemma kc_from_hid_usage [simp]: "kc_from_hid_usage u = Some u"
proof -
  obtain c where row: "(u, c) \<in> set keycode_table" using keycode_row by blast
  have "distinct (map fst keycode_table)" by (simp add: keycode_table_keys distinct_hid_all)
  from find_map_key [OF this row, of fst] show ?thesis
    by (simp add: kc_from_hid_usage_def case_prod_beta')
qed

lemma kc_from_native_iff: "kc_from_native c = Some k \<longleftrightarrow> kc_as_native k = c"
proof
  show "kc_from_native c = Some k \<Longrightarrow> kc_as_native k = c"
    unfolding kc_from_native_def
    by (drule find_map_SomeD) (auto split: if_splits dest: keycode_row_unique)
next
  obtain c' where row: "(k, c') \<in> set keycode_table" using keycode_row by blast
  assume "kc_as_native k = c"
  with keycode_row_unique [OF row] have "c' = c" by simp
  with find_map_key [OF distinct_keycodes row, of fst] show "kc_from_native c = Some k"
    by (simp add: kc_from_native_def case_prod_beta')
qed

lemma keycode_to_hid_usage_iff: "keycode_to_hid_usage c = Some u \<longleftrightarrow> hid_usage_to_keycode u = Some c"
  by (auto simp: keycode_to_hid_usage_def hid_usage_to_keycode_def kc_to_hid_usage_def kc_from_native_iff)

lemma hid_usage_to_keycode_Some: "hid_usage_to_keycode u = Some (kc_as_native u)"
  by (simp add: hid_usage_to_keycode_def)

lemma kc_as_native_inject [simp]: "kc_as_native u = kc_as_native v \<longleftrightarrow> u = v"
  by (metis kc_from_native_iff option.inject)

lemma keycode_to_hid_usage_native [simp]: "keycode_to_hid_usage (kc_as_native u) = Some u"
  by (simp add: keycode_to_hid_usage_iff hid_usage_to_keycode_Some)

section \<open>Property\<close>

text \<open>
  The evdev translation is a bijection between all HID usages and the codes of the table:
  every usage has a key code, so no rule output is dropped for want of one; a key code resolves
  to a usage precisely when it is that usage's code; and the table's codes stay below the number
  of key codes the virtual keyboard registers.
\<close>
theorem evdev_translation_bijective:
  "(\<exists>c. hid_usage_to_keycode u = Some c \<and> unat c < 0x2fe)
   \<and> (keycode_to_hid_usage c = Some u) = (hid_usage_to_keycode u = Some c)"
proof
  have "list_all (\<lambda>r. unat (snd r) < 0x2fe) keycode_table"
    unfolding keycode_table_def by simp
  with keycode_row [of u] keycode_row_unique [of u]
  have "unat (kc_as_native u) < 0x2fe" by (force simp: list_all_iff)
  then show "\<exists>c. hid_usage_to_keycode u = Some c \<and> unat c < 0x2fe"
    by (simp add: hid_usage_to_keycode_Some)
qed (rule keycode_to_hid_usage_iff)

end
