(* ===== verification/Backend.thy ===== *)
theory Backend
  imports Emission
begin

text \<open>
  \<open>src/platform/backend.rs\<close>: what the platform backends share. Captured keys, the deferred output
  actions, and the bits \<open>0..8\<close> over which every backend's modifier loops run.
\<close>

section \<open>Captured keys and output actions\<close>

text \<open>
  The value of a key event is an \<open>i32\<close> that the code only compares with 0, 1 and 2 or casts to
  \<open>u32\<close>, so it is represented by its 32 bits.
\<close>

type_synonym i32 = "32 word"

record captured_key =
  ck_native :: u16
  ck_value :: i32
  ck_usage :: "hid_usage option"

datatype direction = DirUp | DirDown | DirRepeat

definition ck_direction :: "captured_key \<Rightarrow> direction" where
  "ck_direction k = (if ck_value k = 0 then DirUp else if ck_value k = 1 then DirDown else DirRepeat)"

datatype device_action =
    Forward u16 i32
  | OutReleaseConsumed u8
  | OutTap native_key
  | OutHold native_key

text \<open>The actions of a plan, as the backends queue or execute them.\<close>

definition queue_plan_actions :: "emit_action list \<Rightarrow> device_action list" where
  "queue_plan_actions plan =
     map (\<lambda>action. case action of
         ReleaseConsumed consumed \<Rightarrow> OutReleaseConsumed consumed
       | Tap nk \<Rightarrow> OutTap nk
       | Hold nk \<Rightarrow> OutHold nk) plan"

text \<open>The bits \<open>0..8\<close> of the modifier loops.\<close>

definition mask_bits :: "u8 list" where
  "mask_bits = [0, 1, 2, 3, 4, 5, 6, 7]"

section \<open>Modifier bits\<close>

text \<open>The modifier keys in the order of their bits.\<close>

definition modifier_usages :: "hid_usage list" where
  "modifier_usages =
     [LeftControl, LeftShift, LeftAlt, LeftCommand, RightControl, RightShift, RightAlt, RightCommand]"

lemma lt_8_cases: "(i :: nat) < 8 \<Longrightarrow> i \<in> {0, 1, 2, 3, 4, 5, 6, 7}"
  by auto

lemma hid_keyboard_modifier: "hid_keyboard (role_hid_id (mod_role m)) = Some (ModifierUsage m)"
proof -
  have "hid_code (ModifierUsage m) = push_bit 16 (ucast PAGE_KEYBOARD) OR ucast (role_hid_id (mod_role m))"
    by (cases m) (simp_all add: hid_code_def hid_table_def PAGE_KEYBOARD_def role_hid_id_def)
  then show ?thesis unfolding hid_keyboard_def using from_code_hid_code by metis
qed

lemma modifier_usages_bit: "i < 8 \<Longrightarrow> hid_usage_to_modifier_bit (modifier_usages ! i) = Some (of_nat i)"
  by (drule lt_8_cases) (auto simp: modifier_usages_def)

lemma shifted_bit: "drop_bit n (ms :: u8) AND 1 = 1 \<longleftrightarrow> bit ms n"
  by (simp add: and_one_eq mod_2_eq_odd bit_iff_odd_drop_bit)

lemma mask_bits_positions: "unat ` set mask_bits = {..<8}"
proof -
  have "map unat mask_bits = [0..<8]" by (simp add: mask_bits_def upt_rec)
  then show ?thesis by (metis atLeast0LessThan list.set_map set_upt)
qed

end
