(* ===== verification/Linux_Capture.thy ===== *)
theory Linux_Capture
  imports Linux_Keycode Backend
begin

text \<open>
  \<open>src/platform/linux/capture.rs\<close>: how the raw evdev events of a keyboard become key events with
  a HID identity.
\<close>

section \<open>Events\<close>

text \<open>
  An evdev event: type, code and value. The type and code numbers are those of the kernel's
  \<open>input-event-codes.h\<close>, which the \<open>evdev\<close> crate names.
\<close>

record input_event =
  ev_type :: u16
  ev_code :: u16
  ev_value :: i32

definition EV_SYN :: u16 where "EV_SYN = 0"

definition EV_KEY :: u16 where "EV_KEY = 1"

definition EV_MISC :: u16 where "EV_MISC = 4"

definition MSC_SCAN :: u16 where "MSC_SCAN = 4"

section \<open>The scanner\<close>

record key_scanner =
  pending_scan :: "u32 option"

definition scanner_new :: key_scanner where
  "scanner_new = \<lparr>pending_scan = None\<rparr>"

definition on_event :: "input_event \<Rightarrow> key_scanner \<Rightarrow> captured_key option \<times> key_scanner" where
  "on_event ev sc =
     (if ev_type ev = EV_MISC \<and> ev_code ev = MSC_SCAN then
        (None, sc\<lparr>pending_scan := Some (ev_value ev)\<rparr>)
      else if ev_type ev \<noteq> EV_KEY then (None, sc)
      else
        let native = ev_code ev;
            resolved = Option.bind (pending_scan sc) from_code;
            usage = (case resolved of Some u \<Rightarrow> Some u | None \<Rightarrow> keycode_to_hid_usage native)
        in (Some \<lparr>ck_native = native, ck_value = ev_value ev, ck_usage = usage\<rparr>,
            sc\<lparr>pending_scan := None\<rparr>))"

text \<open>The keys a stream of events yields.\<close>

fun scan_events :: "input_event list \<Rightarrow> key_scanner \<Rightarrow> captured_key list \<times> key_scanner" where
  "scan_events [] sc = ([], sc)"
| "scan_events (ev # evs) sc =
     (let (k, sc1) = on_event ev sc; (ks, sc2) = scan_events evs sc1
      in (case k of Some key \<Rightarrow> key # ks | None \<Rightarrow> ks, sc2))"

section \<open>What the scanner remembers\<close>

definition is_key_event :: "input_event \<Rightarrow> bool" where
  "is_key_event ev \<longleftrightarrow> ev_type ev = EV_KEY"

definition scan_value :: "input_event \<Rightarrow> u32 option" where
  "scan_value ev = (if ev_type ev = EV_MISC \<and> ev_code ev = MSC_SCAN then Some (ev_value ev) else None)"

text \<open>The last scan code since the last key event.\<close>

definition scan_since_key :: "input_event list \<Rightarrow> u32 option" where
  "scan_since_key evs = find_map scan_value (takeWhile (\<lambda>ev. \<not> is_key_event ev) (rev evs))"

lemma scan_events_append:
  "scan_events (evs @ evs') sc =
     (let (ks, sc1) = scan_events evs sc; (ks', sc2) = scan_events evs' sc1 in (ks @ ks', sc2))"
  by (induction evs arbitrary: sc) (simp_all add: Let_def case_prod_beta split: option.split)

lemma on_event_pending:
  "pending_scan (snd (on_event ev sc)) =
     (if is_key_event ev then None
      else case scan_value ev of Some v \<Rightarrow> Some v | None \<Rightarrow> pending_scan sc)"
  by (simp add: on_event_def is_key_event_def scan_value_def EV_KEY_def EV_MISC_def Let_def)

lemma scanner_pending: "pending_scan (snd (scan_events evs scanner_new)) = scan_since_key evs"
proof (induction evs rule: rev_induct)
  case (snoc ev evs)
  have "snd (scan_events (evs @ [ev]) scanner_new) = snd (on_event ev (snd (scan_events evs scanner_new)))"
    by (simp add: scan_events_append Let_def case_prod_beta)
  then show ?case
    by (simp add: on_event_pending snoc scan_since_key_def split: option.split)
qed (simp add: scanner_new_def scan_since_key_def)

lemma on_event_key:
  "is_key_event ev \<Longrightarrow>
   fst (on_event ev sc) =
     Some \<lparr>ck_native = ev_code ev, ck_value = ev_value ev,
           ck_usage = (case Option.bind (pending_scan sc) from_code of
             Some u \<Rightarrow> Some u | None \<Rightarrow> keycode_to_hid_usage (ev_code ev))\<rparr>"
  by (simp add: on_event_def is_key_event_def EV_KEY_def EV_MISC_def Let_def)

section \<open>Property\<close>

text \<open>
  A key event is identified by the scan code reported since the previous key event, when that
  code names a known usage, and by the evdev table otherwise; a scan code is used once; and
  whatever events the stream holds, precisely its key events are captured, in order, with their
  codes and values.
\<close>
theorem scan_identity:
  "scan_events (evs @ [ev]) scanner_new =
     (fst (scan_events evs scanner_new) @
        (if is_key_event ev then
           [\<lparr>ck_native = ev_code ev, ck_value = ev_value ev,
             ck_usage = (case Option.bind (scan_since_key evs) from_code of
               Some u \<Rightarrow> Some u | None \<Rightarrow> keycode_to_hid_usage (ev_code ev))\<rparr>]
         else []),
      \<lparr>pending_scan = scan_since_key (evs @ [ev])\<rparr>)
   \<and> map (\<lambda>k. (ck_native k, ck_value k)) (fst (scan_events evs sc)) =
     map (\<lambda>e. (ev_code e, ev_value e)) (filter is_key_event evs)"
proof
  have "\<not> is_key_event ev \<Longrightarrow> fst (on_event ev sc) = None" for sc
    by (simp add: on_event_def is_key_event_def)
  then show "scan_events (evs @ [ev]) scanner_new =
     (fst (scan_events evs scanner_new) @
        (if is_key_event ev then
           [\<lparr>ck_native = ev_code ev, ck_value = ev_value ev,
             ck_usage = (case Option.bind (scan_since_key evs) from_code of
               Some u \<Rightarrow> Some u | None \<Rightarrow> keycode_to_hid_usage (ev_code ev))\<rparr>]
         else []),
      \<lparr>pending_scan = scan_since_key (evs @ [ev])\<rparr>)"
    using scanner_pending [of "evs @ [ev]"]
    by (auto simp: scan_events_append Let_def case_prod_beta on_event_key scanner_pending intro!: prod_eqI)
next
  show "map (\<lambda>k. (ck_native k, ck_value k)) (fst (scan_events evs sc)) =
     map (\<lambda>e. (ev_code e, ev_value e)) (filter is_key_event evs)"
    by (induction evs arbitrary: sc)
      (auto simp: Let_def case_prod_beta on_event_key on_event_def is_key_event_def EV_KEY_def EV_MISC_def)
qed

end
