(* ===== verification/Linux_Emit.thy ===== *)
theory Linux_Emit
  imports Linux_Capture
begin

text \<open>
  The output half of the Linux backend (\<open>src/platform/linux/mapping/device.rs\<close> and
  \<open>LinuxEmitter\<close> of \<open>mapping/mod.rs\<close>): the deferred output actions and how they are written
  to the uinput virtual keyboard, key code by key code, with writes that may fail.
\<close>

section \<open>The virtual keyboard\<close>

text \<open>
  The virtual device of the \<open>evdev\<close> crate: \<open>emit\<close> writes a batch of events, or fails and
  delivers none of it. The script says which of the next writes fail (none, once it is used up);
  the log holds the events delivered.
\<close>

record virtual_device =
  vd_faults :: "bool list"
  vd_log :: "input_event list"

datatype emit_error = NoKeyCode hid_usage | WriteFailed

definition vd_emit :: "input_event list \<Rightarrow> virtual_device \<Rightarrow> (emit_error + unit) \<times> virtual_device" where
  "vd_emit evs d =
     (case vd_faults d of
        [] \<Rightarrow> (Inr (), d\<lparr>vd_log := vd_log d @ evs\<rparr>)
      | fault # fs \<Rightarrow>
          (if fault then (Inl WriteFailed, d\<lparr>vd_faults := fs\<rparr>)
           else (Inr (), d\<lparr>vd_faults := fs, vd_log := vd_log d @ evs\<rparr>)))"

definition input_event_new :: "u16 \<Rightarrow> u16 \<Rightarrow> i32 \<Rightarrow> input_event" where
  "input_event_new t c v = \<lparr>ev_type = t, ev_code = c, ev_value = v\<rparr>"

definition SYN_REPORT :: u16 where "SYN_REPORT = 0"

text \<open>A key event followed by its synchronization event: the batch of most writes.\<close>

definition emit_one :: "u16 \<Rightarrow> i32 \<Rightarrow> virtual_device \<Rightarrow> (emit_error + unit) \<times> virtual_device" where
  "emit_one code val d =
     vd_emit [input_event_new EV_KEY code val, input_event_new EV_SYN SYN_REPORT 0] d"

section \<open>Emission\<close>

definition modifier_bit_to_keycode :: "u8 \<Rightarrow> u16 option" where
  "modifier_bit_to_keycode b =
     Option.bind (try_from_bit b) (\<lambda>role.
       Option.bind (hid_keyboard (role_hid_id role)) hid_usage_to_keycode)"

text \<open>The modifier presses of \<open>emit_key_event\<close>; the accumulator is the local \<open>pressed\<close>.\<close>

fun press_modifiers ::
  "u8 \<Rightarrow> u8 list \<Rightarrow> u16 list \<Rightarrow> virtual_device \<Rightarrow> (emit_error + u16 list) \<times> virtual_device" where
  "press_modifiers ms [] pressed d = (Inr pressed, d)"
| "press_modifiers ms (b # bs) pressed d =
     (if drop_bit (unat b) ms AND 1 = 1 then
        (case modifier_bit_to_keycode b of
           Some code \<Rightarrow>
             (case emit_one code 1 d of
                (Inl e, d1) \<Rightarrow> (Inl e, d1)
              | (Inr _, d1) \<Rightarrow> press_modifiers ms bs (pressed @ [code]) d1)
         | None \<Rightarrow> press_modifiers ms bs pressed d)
      else press_modifiers ms bs pressed d)"

text \<open>The releases, in the order given, of \<open>cleanup\<close> and of the error path of a hold.\<close>

fun release_codes :: "u16 list \<Rightarrow> virtual_device \<Rightarrow> virtual_device" where
  "release_codes [] d = d"
| "release_codes (c # cs) d = release_codes cs (snd (emit_one c 0 d))"

definition emit_key_event :: "native_key \<Rightarrow> virtual_device \<Rightarrow> (emit_error + unit) \<times> virtual_device" where
  "emit_key_event nk d =
     (case hid_usage_to_keycode (nk_usage nk) of
        None \<Rightarrow> (Inl (NoKeyCode (nk_usage nk)), d)
      | Some base_code \<Rightarrow>
          (case press_modifiers (nk_modifiers nk) mask_bits [] d of
             (Inl e, d1) \<Rightarrow> (Inl e, d1)
           | (Inr pressed, d1) \<Rightarrow>
               (case emit_one base_code 1 d1 of
                  (Inl e, d2) \<Rightarrow> (Inl e, d2)
                | (Inr _, d2) \<Rightarrow>
                    (case emit_one base_code 0 d2 of
                       (Inl e, d3) \<Rightarrow> (Inl e, d3)
                     | (Inr _, d3) \<Rightarrow> (Inr (), release_codes (rev pressed) d3)))))"

text \<open>The codes a hold presses: the other modifier bits, then the base modifier.\<close>

definition hold_codes :: "native_key \<Rightarrow> u16 list" where
  "hold_codes nk =
     (let base_bit = hid_usage_to_modifier_bit (nk_usage nk)
      in concat (map (\<lambda>b.
           if drop_bit (unat b) (nk_modifiers nk) AND 1 = 1 \<and> base_bit \<noteq> Some b
           then (case modifier_bit_to_keycode b of Some code \<Rightarrow> [code] | None \<Rightarrow> []) else []) mask_bits)
         @ (case base_bit of
              Some b \<Rightarrow> (case modifier_bit_to_keycode b of Some code \<Rightarrow> [code] | None \<Rightarrow> [])
            | None \<Rightarrow> []))"

fun hold_press :: "u16 list \<Rightarrow> u16 list \<Rightarrow> virtual_device \<Rightarrow> (emit_error + unit) \<times> virtual_device" where
  "hold_press [] pressed d = (Inr (), d)"
| "hold_press (code # codes) pressed d =
     (case emit_one code 1 d of
        (Inl e, d1) \<Rightarrow> (Inl e, release_codes (rev pressed) d1)
      | (Inr _, d1) \<Rightarrow> hold_press codes (pressed @ [code]) d1)"

definition hold_modifier_output ::
  "native_key \<Rightarrow> virtual_device \<Rightarrow> (emit_error + unit) \<times> virtual_device" where
  "hold_modifier_output nk d = hold_press (hold_codes nk) [] d"

definition forward_key_event :: "u16 \<Rightarrow> i32 \<Rightarrow> virtual_device \<Rightarrow> virtual_device" where
  "forward_key_event code val d =
     (if val = 2 then
        (let is_modifier = (Option.bind (keycode_to_hid_usage code) hid_usage_to_modifier_bit \<noteq> None)
         in if is_modifier then d
            else snd (vd_emit [input_event_new EV_KEY code 1, input_event_new EV_KEY code 0,
                               input_event_new EV_SYN SYN_REPORT 0] d))
      else snd (vd_emit [input_event_new EV_KEY code val, input_event_new EV_SYN SYN_REPORT 0] d))"

fun release_bits :: "u8 \<Rightarrow> u8 list \<Rightarrow> virtual_device \<Rightarrow> virtual_device" where
  "release_bits consumed [] d = d"
| "release_bits consumed (b # bs) d =
     (if consumed AND bit_mask b \<noteq> 0 then
        (case modifier_bit_to_keycode b of
           Some code \<Rightarrow> release_bits consumed bs (snd (emit_one code 0 d))
         | None \<Rightarrow> release_bits consumed bs d)
      else release_bits consumed bs d)"

definition release_consumed_modifiers :: "u8 \<Rightarrow> virtual_device \<Rightarrow> virtual_device" where
  "release_consumed_modifiers consumed d = release_bits consumed mask_bits d"

text \<open>\<open>LinuxEmitter\<close>: the platform's release policy, and one action after the other.\<close>

definition linux_consumed_release :: consumed_release_fate where
  "linux_consumed_release = CrSwallow"

definition linux_emit :: "device_action \<Rightarrow> virtual_device \<Rightarrow> virtual_device" where
  "linux_emit a d =
     (case a of
        Forward native val \<Rightarrow> forward_key_event native val d
      | OutReleaseConsumed consumed \<Rightarrow> release_consumed_modifiers consumed d
      | OutTap nk \<Rightarrow> snd (emit_key_event nk d)
      | OutHold nk \<Rightarrow> snd (hold_modifier_output nk d))"

fun emit_actions :: "device_action list \<Rightarrow> virtual_device \<Rightarrow> virtual_device" where
  "emit_actions [] d = d"
| "emit_actions (a # as) d = emit_actions as (linux_emit a d)"

section \<open>Modifier bits and key codes\<close>

text \<open>The evdev codes of the modifier keys, by their bits.\<close>

definition modifier_code :: "nat \<Rightarrow> u16" where
  "modifier_code i = kc_as_native (modifier_usages ! i)"

lemma modifier_bit_to_keycode_mask_bits:
  assumes "b \<in> set mask_bits"
  shows "modifier_bit_to_keycode b = Some (modifier_code (unat b))"
proof -
  have "list_all (\<lambda>(b, m). try_from_bit b = Some (mod_role m) \<and> modifier_usages ! unat b = ModifierUsage m)
      (zip mask_bits [U_LeftControl, U_LeftShift, U_LeftAlt, U_LeftCommand, U_RightControl, U_RightShift,
        U_RightAlt, U_RightCommand])" (is "list_all _ (zip _ ?ms)")
    by (simp add: mask_bits_def try_from_bit_def modifier_usages_def)
  moreover have "b \<in> fst ` set (zip mask_bits ?ms)"
    using assms by (simp add: mask_bits_def)
  ultimately obtain m where "try_from_bit b = Some (mod_role m)" "modifier_usages ! unat b = ModifierUsage m"
    by (auto simp: list_all_iff)
  then show ?thesis
    by (simp add: modifier_bit_to_keycode_def hid_keyboard_modifier hid_usage_to_keycode_Some
        modifier_code_def)
qed

lemma usage_mask_code:
  "i \<in> bits_of (usage_mask u) \<longleftrightarrow> i < 8 \<and> kc_as_native u = modifier_code i"
proof
  assume i: "i \<in> bits_of (usage_mask u)"
  then obtain b where b: "hid_usage_to_modifier_bit u = Some b"
    by (cases "hid_usage_to_modifier_bit u") auto
  have "i = unat b"
    using i modifier_bit_bound [OF b] by (simp add: usage_mask_Some [OF b] bits_of_bit_mask)
  then have "i < 8" "hid_usage_to_modifier_bit u = Some (of_nat i)"
    using modifier_bit_bound [OF b] b by simp_all
  with modifier_bit_inject [OF this(2) modifier_usages_bit] show "i < 8 \<and> kc_as_native u = modifier_code i"
    by (simp add: modifier_code_def)
next
  assume *: "i < 8 \<and> kc_as_native u = modifier_code i"
  then have "hid_usage_to_modifier_bit u = Some (of_nat i)"
    by (simp add: modifier_code_def modifier_usages_bit)
  moreover from * have "unat (of_nat i :: u8) = i" by (simp add: unat_of_nat take_bit_nat_eq_self)
  ultimately show "i \<in> bits_of (usage_mask u)"
    using * by (simp add: bits_of_bit_mask)
qed

lemma modifier_code_usage:
  "i < 8 \<Longrightarrow> keycode_to_hid_usage (modifier_code i) = Some (modifier_usages ! i)"
  by (simp add: modifier_code_def)

lemma is_modifier_code:
  "Option.bind (keycode_to_hid_usage c) hid_usage_to_modifier_bit \<noteq> None \<longleftrightarrow> (\<exists>i < 8. c = modifier_code i)"
proof
  assume "Option.bind (keycode_to_hid_usage c) hid_usage_to_modifier_bit \<noteq> None"
  then obtain u b where u: "keycode_to_hid_usage c = Some u" and b: "hid_usage_to_modifier_bit u = Some b"
    by (cases "keycode_to_hid_usage c") auto
  have "unat b \<in> bits_of (usage_mask u)"
    using modifier_bit_bound [OF b] by (simp add: usage_mask_Some [OF b] bits_of_bit_mask)
  moreover have "kc_as_native u = c"
    using u by (simp add: keycode_to_hid_usage_iff hid_usage_to_keycode_Some)
  ultimately show "\<exists>i < 8. c = modifier_code i" by (auto simp: usage_mask_code)
qed (auto simp: modifier_code_usage modifier_usages_bit)

section \<open>The keys pressed on the virtual keyboard\<close>

definition apply_event :: "input_event \<Rightarrow> u16 set \<Rightarrow> u16 set" where
  "apply_event ev P =
     (if ev_type ev = EV_KEY then
        (if ev_value ev = 0 then P - {ev_code ev} else insert (ev_code ev) P)
      else P)"

definition pressed_codes :: "virtual_device \<Rightarrow> u16 set" where
  "pressed_codes d = fold apply_event (vd_log d) {}"

definition device_bits :: "u16 set \<Rightarrow> nat set" where
  "device_bits P = {i. i < 8 \<and> modifier_code i \<in> P}"

text \<open>The codes of a mask.\<close>

definition mask_codes :: "u8 \<Rightarrow> u16 set" where
  "mask_codes m = modifier_code ` bits_of m"

lemma modifier_code_inject: "i < 8 \<Longrightarrow> j < 8 \<Longrightarrow> modifier_code i = modifier_code j \<Longrightarrow> i = j"
  by (drule lt_8_cases, drule lt_8_cases) (auto simp: modifier_code_def modifier_usages_def)

lemma device_bits_simps [simp]:
  "device_bits {} = {}"
  "device_bits (P \<union> Q) = device_bits P \<union> device_bits Q"
  "device_bits (P - Q) = device_bits P - device_bits Q"
  by (auto simp: device_bits_def)

lemma device_bits_insert: "device_bits (insert c P) = device_bits {c} \<union> device_bits P"
  by (auto simp: device_bits_def)

lemma device_bits_mask_codes [simp]: "device_bits (mask_codes m) = bits_of m"
  by (auto simp: device_bits_def mask_codes_def dest: modifier_code_inject bits_of_bound)

lemma device_bits_code [simp]: "device_bits {kc_as_native u} = bits_of (usage_mask u)"
  by (auto simp: device_bits_def usage_mask_code)

lemma device_bits_unknown: "keycode_to_hid_usage c = None \<Longrightarrow> device_bits {c} = {}"
  by (auto simp: device_bits_def modifier_code_usage)

lemma syn_event [simp]: "apply_event (input_event_new EV_SYN v w) P = P"
  by (simp add: apply_event_def input_event_new_def EV_SYN_def EV_KEY_def)

lemma key_event [simp]:
  "apply_event (input_event_new EV_KEY c v) P = (if v = 0 then P - {c} else insert c P)"
  by (simp add: apply_event_def input_event_new_def)

lemma vd_emit_simps:
  "vd_faults d = [] \<Longrightarrow> vd_emit evs d = (Inr (), d\<lparr>vd_log := vd_log d @ evs\<rparr>)"
  "vd_faults d = False # fs \<Longrightarrow> vd_emit evs d = (Inr (), d\<lparr>vd_faults := fs, vd_log := vd_log d @ evs\<rparr>)"
  "vd_faults d = True # fs \<Longrightarrow> vd_emit evs d = (Inl WriteFailed, d\<lparr>vd_faults := fs\<rparr>)"
  by (simp_all add: vd_emit_def)

lemma pressed_log: "pressed_codes (d\<lparr>vd_log := vd_log d @ evs\<rparr>) = fold apply_event evs (pressed_codes d)"
  by (simp add: pressed_codes_def)

lemma pressed_faults [simp]: "pressed_codes (d\<lparr>vd_faults := fs\<rparr>) = pressed_codes d"
  by (simp add: pressed_codes_def)

section \<open>What the operations do to the pressed keys\<close>

text \<open>The next \<open>n\<close> writes succeed.\<close>

definition writes_ok :: "nat \<Rightarrow> virtual_device \<Rightarrow> bool" where
  "writes_ok n d \<longleftrightarrow> list_all Not (take n (vd_faults d))"

definition write_ok :: "virtual_device \<Rightarrow> bool" where
  "write_ok d \<longleftrightarrow> (case vd_faults d of fault # _ \<Rightarrow> \<not> fault | [] \<Rightarrow> True)"

lemma writes_ok_healthy [simp]: "vd_faults d = [] \<Longrightarrow> writes_ok n d"
  by (simp add: writes_ok_def)

lemma writes_ok_Suc:
  "writes_ok (Suc n) d \<longleftrightarrow> write_ok d \<and> list_all Not (take n (tl (vd_faults d)))"
  by (cases "vd_faults d") (simp_all add: writes_ok_def write_ok_def)

lemma vd_emit_ok:
  "write_ok d \<Longrightarrow> vd_emit evs d = (Inr (), d\<lparr>vd_faults := tl (vd_faults d), vd_log := vd_log d @ evs\<rparr>)"
  by (cases "vd_faults d") (auto simp: write_ok_def vd_emit_def)

lemma emit_one_ok:
  assumes "write_ok d"
  obtains d' where "emit_one c v d = (Inr (), d')" "vd_faults d' = tl (vd_faults d)"
    "pressed_codes d' = (if v = 0 then pressed_codes d - {c} else insert c (pressed_codes d))"
  using that [of "snd (emit_one c v d)"] assms
  by (simp add: emit_one_def vd_emit_ok pressed_codes_def)

lemma emit_one_fail: "vd_faults d = True # fs \<Longrightarrow> emit_one c v d = (Inl WriteFailed, d\<lparr>vd_faults := fs\<rparr>)"
  by (simp add: emit_one_def vd_emit_def)

text \<open>The codes the set bits of a mask stand for, in ascending bit order.\<close>

definition codes_at :: "u8 \<Rightarrow> u8 list \<Rightarrow> u16 list" where
  "codes_at ms bs = map (\<lambda>b. modifier_code (unat b)) (filter (\<lambda>b. bit ms (unat b)) bs)"

lemma codes_at_simps [simp]:
  "codes_at ms [] = []"
  "codes_at ms (b # bs) = (if bit ms (unat b) then [modifier_code (unat b)] else []) @ codes_at ms bs"
  by (simp_all add: codes_at_def)

lemma set_codes_at: "set (codes_at ms mask_bits) = mask_codes ms"
proof -
  have "set (codes_at ms mask_bits) = modifier_code ` (unat ` {b \<in> set mask_bits. bit ms (unat b)})"
    by (simp add: codes_at_def image_image)
  also have "unat ` {b \<in> set mask_bits. bit ms (unat b)} = {i \<in> unat ` set mask_bits. bit ms i}" by auto
  also have "\<dots> = bits_of ms"
    unfolding mask_bits_positions by (auto simp: bits_of_iff dest: bits_of_bound [unfolded bits_of_iff])
  finally show ?thesis by (simp add: mask_codes_def)
qed

lemma press_modifiers_ok:
  assumes "set bs \<subseteq> set mask_bits" "writes_ok (length (codes_at ms bs)) d"
  shows "\<exists>d'. press_modifiers ms bs pr d = (Inr (pr @ codes_at ms bs), d')
    \<and> vd_faults d' = drop (length (codes_at ms bs)) (vd_faults d)
    \<and> pressed_codes d' = pressed_codes d \<union> set (codes_at ms bs)"
  using assms
proof (induction bs arbitrary: pr d)
  case (Cons b bs)
  show ?case
  proof (cases "bit ms (unat b)")
    case True
    with Cons.prems have ok: "write_ok d" and
      "list_all Not (take (length (codes_at ms bs)) (tl (vd_faults d)))"
      by (simp_all add: writes_ok_Suc)
    from emit_one_ok [OF ok, of "modifier_code (unat b)" 1] obtain d1
      where d1: "emit_one (modifier_code (unat b)) 1 d = (Inr (), d1)" "vd_faults d1 = tl (vd_faults d)"
        "pressed_codes d1 = insert (modifier_code (unat b)) (pressed_codes d)"
      by (metis zero_neq_one)
    have "writes_ok (length (codes_at ms bs)) d1"
      using \<open>list_all Not _\<close> d1(2) by (simp add: writes_ok_def)
    with Cons.IH [of d1 "pr @ [modifier_code (unat b)]"] Cons.prems(1) d1 True show ?thesis
      by (auto simp: shifted_bit modifier_bit_to_keycode_mask_bits drop_Suc)
  qed (use Cons in \<open>auto simp: shifted_bit\<close>)
qed simp

lemma press_modifiers_fail:
  assumes "set bs \<subseteq> set mask_bits" "k < length (codes_at ms bs)"
    "vd_faults d = replicate k False @ True # fs"
  shows "\<exists>d'. press_modifiers ms bs pr d = (Inl WriteFailed, d') \<and> vd_faults d' = fs
    \<and> pressed_codes d' = pressed_codes d \<union> set (take k (codes_at ms bs))"
  using assms
proof (induction bs arbitrary: pr d k)
  case (Cons b bs)
  show ?case
  proof (cases "bit ms (unat b)")
    case True
    show ?thesis
    proof (cases k)
      case 0
      with True Cons.prems show ?thesis
        by (simp add: shifted_bit modifier_bit_to_keycode_mask_bits emit_one_fail)
    next
      case (Suc k')
      then have ok: "write_ok d" using Cons.prems(3) by (simp add: write_ok_def)
      from emit_one_ok [OF ok, of "modifier_code (unat b)" 1] obtain d1
        where d1: "emit_one (modifier_code (unat b)) 1 d = (Inr (), d1)" "vd_faults d1 = tl (vd_faults d)"
          "pressed_codes d1 = insert (modifier_code (unat b)) (pressed_codes d)"
        by (metis zero_neq_one)
      with Cons.IH [of k' d1 "pr @ [modifier_code (unat b)]"] Cons.prems True Suc show ?thesis
        by (auto simp: shifted_bit modifier_bit_to_keycode_mask_bits)
    qed
  qed (use Cons in \<open>auto simp: shifted_bit\<close>)
qed simp

lemma release_codes_ok:
  assumes "writes_ok (length cs) d"
  shows "vd_faults (release_codes cs d) = drop (length cs) (vd_faults d)
    \<and> pressed_codes (release_codes cs d) = pressed_codes d - set cs"
  using assms
proof (induction cs arbitrary: d)
  case (Cons c cs)
  then have ok: "write_ok d" by (simp add: writes_ok_Suc)
  from emit_one_ok [OF ok, of c 0] obtain d1 where d1: "emit_one c 0 d = (Inr (), d1)"
    "vd_faults d1 = tl (vd_faults d)" "pressed_codes d1 = pressed_codes d - {c}" by auto
  moreover have "writes_ok (length cs) d1"
    using Cons.prems d1(2) by (simp add: writes_ok_Suc) (simp add: writes_ok_def)
  ultimately show ?case using Cons.IH [of d1] by (auto simp: drop_Suc)
qed simp

lemma tap_ok:
  assumes "vd_faults d = []"
  shows "\<exists>d'. emit_key_event nk d = (Inr (), d') \<and> vd_faults d' = []
    \<and> pressed_codes d' = pressed_codes d - {kc_as_native (nk_usage nk)} - mask_codes (nk_modifiers nk)"
proof -
  let ?b = "kc_as_native (nk_usage nk)" and ?ms = "codes_at (nk_modifiers nk) mask_bits"
  obtain d1 where d1: "press_modifiers (nk_modifiers nk) mask_bits [] d = (Inr ?ms, d1)" "vd_faults d1 = []"
    "pressed_codes d1 = pressed_codes d \<union> set ?ms"
    using press_modifiers_ok [of mask_bits "nk_modifiers nk" d "[]"] assms by auto
  from emit_one_ok [of d1 ?b 1] d1(2) obtain d2 where d2: "emit_one ?b 1 d1 = (Inr (), d2)" "vd_faults d2 = []"
    "pressed_codes d2 = insert ?b (pressed_codes d1)" by (auto simp: write_ok_def)
  from emit_one_ok [of d2 ?b 0] d2(2) obtain d3 where d3: "emit_one ?b 0 d2 = (Inr (), d3)" "vd_faults d3 = []"
    "pressed_codes d3 = pressed_codes d2 - {?b}" by (auto simp: write_ok_def)
  have "emit_key_event nk d = (Inr (), release_codes (rev ?ms) d3)"
    by (simp add: emit_key_event_def hid_usage_to_keycode_Some d1 d2 d3)
  then show ?thesis
    using release_codes_ok [of "rev ?ms" d3] d1(3) d2(3) d3(2,3) by (auto simp: set_codes_at)
qed

lemma hold_press_ok:
  assumes "vd_faults d = []"
  shows "\<exists>d'. hold_press cs pr d = (Inr (), d') \<and> vd_faults d' = [] \<and> pressed_codes d' = pressed_codes d \<union> set cs"
  using assms
proof (induction cs arbitrary: pr d)
  case (Cons c cs)
  from emit_one_ok [of d c 1] Cons.prems obtain d1 where d1: "emit_one c 1 d = (Inr (), d1)" "vd_faults d1 = []"
    "pressed_codes d1 = insert c (pressed_codes d)" by (auto simp: write_ok_def)
  with Cons.IH [of d1 "pr @ [c]"] show ?case by auto
qed simp

lemma hold_press_fail:
  assumes "k < length cs" "vd_faults d = replicate k False @ True # fs"
    "list_all Not (take (length pr + k) fs)"
  shows "\<exists>d'. hold_press cs pr d = (Inl WriteFailed, d')
    \<and> pressed_codes d' = pressed_codes d - set pr - set (take k cs)"
  using assms
proof (induction cs arbitrary: pr d k)
  case (Cons c cs)
  show ?case
  proof (cases k)
    case 0
    with Cons.prems show ?thesis
      using release_codes_ok [of "rev pr" "d\<lparr>vd_faults := fs\<rparr>"]
      by (simp add: emit_one_fail writes_ok_def)
  next
    case (Suc k')
    then have "write_ok d" using Cons.prems(2) by (simp add: write_ok_def)
    from emit_one_ok [OF this, of c 1] obtain d1 where d1: "emit_one c 1 d = (Inr (), d1)"
      "vd_faults d1 = tl (vd_faults d)" "pressed_codes d1 = insert c (pressed_codes d)" by auto
    with Cons.IH [of k' d1 "pr @ [c]"] Cons.prems Suc show ?thesis by auto
  qed
qed simp

lemma mask_codes_simps [simp]:
  "mask_codes 0 = {}" "mask_codes (a OR b) = mask_codes a \<union> mask_codes b"
  by (simp_all add: mask_codes_def image_Un)

lemma mask_codes_usage:
  "mask_codes (usage_mask u) = (if hid_usage_to_modifier_bit u = None then {} else {kc_as_native u})"
proof (cases "hid_usage_to_modifier_bit u")
  case (Some b)
  then have "unat b \<in> bits_of (usage_mask u)"
    using modifier_bit_bound by (simp add: bits_of_bit_mask)
  then have "modifier_code (unat b) = kc_as_native u" by (simp add: usage_mask_code)
  with Some show ?thesis using modifier_bit_bound by (simp add: mask_codes_def bits_of_bit_mask)
qed simp

lemma modifier_code_bit:
  "hid_usage_to_modifier_bit u = Some b \<Longrightarrow> b \<in> set mask_bits \<and> modifier_code (unat b) = kc_as_native u"
proof
  assume b: "hid_usage_to_modifier_bit u = Some b"
  then have "unat b \<in> bits_of (usage_mask u)" using modifier_bit_bound by (simp add: bits_of_bit_mask)
  then show "modifier_code (unat b) = kc_as_native u" by (simp add: usage_mask_code)
  have "unat b \<in> unat ` set mask_bits"
    unfolding mask_bits_positions using modifier_bit_bound [OF b] by simp
  then show "b \<in> set mask_bits" by (auto dest: unsigned_word_eqI)
qed

lemma set_hold_codes: "set (hold_codes nk) = mask_codes (nk_modifiers nk OR usage_mask (nk_usage nk))"
proof -
  let ?u = "nk_usage nk" and ?ms = "nk_modifiers nk"
  have "set (hold_codes nk) =
      modifier_code ` unat ` {b \<in> set mask_bits. bit ?ms (unat b) \<and> hid_usage_to_modifier_bit ?u \<noteq> Some b}
      \<union> mask_codes (usage_mask ?u)"
    by (auto simp: hold_codes_def Let_def shifted_bit modifier_bit_to_keycode_mask_bits mask_codes_usage
        modifier_code_bit split: option.splits)
  moreover have "mask_codes ?ms = modifier_code ` unat ` {b \<in> set mask_bits. bit ?ms (unat b)}"
    by (simp add: set_codes_at [symmetric] codes_at_def image_image)
  ultimately show ?thesis
  proof (cases "hid_usage_to_modifier_bit ?u")
    case (Some y)
    have "modifier_code ` unat ` {b \<in> set mask_bits. bit ?ms (unat b)} \<subseteq>
        insert (modifier_code (unat y))
          (modifier_code ` unat ` {b \<in> set mask_bits. bit ?ms (unat b) \<and> y \<noteq> b})"
      by blast
    moreover have "mask_codes (usage_mask ?u) = {modifier_code (unat y)}"
      using Some by (simp only: mask_codes_usage modifier_code_bit) simp
    moreover have "modifier_code ` unat ` {b \<in> set mask_bits. bit ?ms (unat b) \<and> Some y \<noteq> Some b}
        \<subseteq> modifier_code ` unat ` {b \<in> set mask_bits. bit ?ms (unat b)}" by blast
    ultimately show ?thesis
      unfolding mask_codes_simps \<open>set (hold_codes nk) = _\<close> \<open>mask_codes ?ms = _\<close> Some option.inject
      by blast
  qed simp
qed

lemma release_bits_ok:
  assumes "set bs \<subseteq> set mask_bits" "vd_faults d = []"
  shows "vd_faults (release_bits m bs d) = []
    \<and> pressed_codes (release_bits m bs d) = pressed_codes d - set (codes_at m bs)"
  using assms
proof (induction bs arbitrary: d)
  case (Cons b bs)
  then have "unat b \<in> unat ` set mask_bits" by auto
  then have b: "unat b < 8" unfolding mask_bits_positions by simp
  from emit_one_ok [of d "modifier_code (unat b)" 0] Cons.prems(2)
  obtain d1 where "emit_one (modifier_code (unat b)) 0 d = (Inr (), d1)" "vd_faults d1 = []"
    "pressed_codes d1 = pressed_codes d - {modifier_code (unat b)}" by (auto simp: write_ok_def)
  with Cons b show ?case by (auto simp: mask_test_iff modifier_bit_to_keycode_mask_bits)
qed simp

lemma release_consumed_ok:
  "vd_faults d = [] \<Longrightarrow> vd_faults (release_consumed_modifiers m d) = []
    \<and> pressed_codes (release_consumed_modifiers m d) = pressed_codes d - mask_codes m"
  using release_bits_ok [of mask_bits d m] by (simp add: release_consumed_modifiers_def set_codes_at)

lemma forward_ok:
  "vd_faults d = [] \<Longrightarrow> vd_faults (forward_key_event c v d) = []
    \<and> pressed_codes (forward_key_event c v d) =
      (if v = 0 then pressed_codes d - {c}
       else if v = 2 then (if \<exists>i < 8. c = modifier_code i then pressed_codes d else pressed_codes d - {c})
       else insert c (pressed_codes d))"
  unfolding forward_key_event_def Let_def is_modifier_code
  by (auto simp: vd_emit_simps pressed_log)

section \<open>Emission carries out the plan\<close>

lemma emit_actions_append: "emit_actions (as @ bs) d = emit_actions bs (emit_actions as d)"
  by (induction "as" arbitrary: d) simp_all

lemma emit_plan_action:
  assumes "vd_faults d = []"
  shows "vd_faults (emit_actions (queue_plan_actions [a]) d) = []
    \<and> device_bits (pressed_codes (emit_actions (queue_plan_actions [a]) d)) = act_bits a (device_bits (pressed_codes d))
    \<and> {c \<in> pressed_codes (emit_actions (queue_plan_actions [a]) d). device_bits {c} = {}} \<subseteq> pressed_codes d"
proof (cases a)
  case (ReleaseConsumed m)
  with release_consumed_ok [OF assms, of m] show ?thesis
    by (auto simp: queue_plan_actions_def linux_emit_def act_bits_def)
next
  case (Tap nk)
  obtain d' where "emit_key_event nk d = (Inr (), d')" "vd_faults d' = []"
    and P: "pressed_codes d' = pressed_codes d - {kc_as_native (nk_usage nk)} - mask_codes (nk_modifiers nk)"
    using tap_ok [OF assms, of nk] by blast
  then have d': "emit_actions (queue_plan_actions [a]) d = d'" "vd_faults d' = []"
    using Tap by (simp_all add: queue_plan_actions_def linux_emit_def)
  have "device_bits (pressed_codes d') = act_bits a (device_bits (pressed_codes d))"
    unfolding P Tap act_bits_def by (simp only: device_bits_simps device_bits_mask_codes device_bits_code) auto
  with d' show ?thesis unfolding d'(1) P by blast
next
  case (Hold nk)
  have nb: False if "c \<in> mask_codes m" "device_bits {c} = {}" for c m
    using that bits_of_bound by (auto simp: mask_codes_def device_bits_def)
  have *: "{c \<in> P \<union> mask_codes m. device_bits {c} = {}} \<subseteq> P" for P m
    using nb [of _ m] by auto
  obtain d' where "hold_modifier_output nk d = (Inr (), d')" "vd_faults d' = []"
    "pressed_codes d' = pressed_codes d \<union> mask_codes (nk_modifiers nk OR usage_mask (nk_usage nk))"
    using hold_press_ok [OF assms, of "hold_codes nk" "[]"]
    by (auto simp: hold_modifier_output_def set_hold_codes)
  then have d': "emit_actions (queue_plan_actions [a]) d = d'" "vd_faults d' = []"
    and P: "pressed_codes d' = pressed_codes d \<union> mask_codes (nk_modifiers nk OR usage_mask (nk_usage nk))"
    using Hold by (simp_all add: queue_plan_actions_def linux_emit_def)
  have "device_bits (pressed_codes d') = act_bits a (device_bits (pressed_codes d))"
    unfolding P Hold act_bits_def by (simp only: device_bits_simps device_bits_mask_codes bits_of_or) auto
  with d' * [of "pressed_codes d" "nk_modifiers nk OR usage_mask (nk_usage nk)"] show ?thesis
    unfolding d'(1) P by blast
qed

lemma emit_plan:
  assumes "vd_faults d = []"
  shows "vd_faults (emit_actions (queue_plan_actions plan) d) = []
    \<and> device_bits (pressed_codes (emit_actions (queue_plan_actions plan) d)) = fold act_bits plan (device_bits (pressed_codes d))
    \<and> {c \<in> pressed_codes (emit_actions (queue_plan_actions plan) d). device_bits {c} = {}} \<subseteq> pressed_codes d"
  using assms
proof (induction plan arbitrary: d)
  case (Cons a plan)
  let ?d1 = "emit_actions (queue_plan_actions [a]) d"
  have "emit_actions (queue_plan_actions (a # plan)) d = emit_actions (queue_plan_actions plan) ?d1"
    by (simp add: queue_plan_actions_def)
  with Cons.IH [of ?d1] emit_plan_action [OF Cons.prems, of a] show ?case by auto
qed (simp add: queue_plan_actions_def)

section \<open>Properties\<close>

text \<open>
  C23. The virtual keyboard shows what the plan says: when the writes succeed, executing the
  queued actions of any emission plan presses and releases, key code by key code, precisely the
  modifiers the plan's actions say, and leaves no other key pressed that was not pressed before.
\<close>
theorem emission_carries_out_plan:
  assumes "vd_faults d = []"
  shows "device_bits (pressed_codes (emit_actions (queue_plan_actions plan) d))
      = fold act_bits plan (device_bits (pressed_codes d))
    \<and> {c \<in> pressed_codes (emit_actions (queue_plan_actions plan) d). device_bits {c} = {}} \<subseteq> pressed_codes d"
  using emit_plan [OF assms] by blast

lemma emission_carries_out_plan_witness:
  "device_bits (pressed_codes (emit_actions (queue_plan_actions
      [ReleaseConsumed 1, Hold \<lparr>nk_modifiers = 2, nk_usage = RightAlt\<rparr>, Tap \<lparr>nk_modifiers = 4, nk_usage = F1\<rparr>])
      \<lparr>vd_faults = [], vd_log = [input_event_new EV_KEY 29 1]\<rparr>))
   = fold act_bits
      [ReleaseConsumed 1, Hold \<lparr>nk_modifiers = 2, nk_usage = RightAlt\<rparr>, Tap \<lparr>nk_modifiers = 4, nk_usage = F1\<rparr>]
      (device_bits (pressed_codes \<lparr>vd_faults = [], vd_log = [input_event_new EV_KEY 29 1]\<rparr>))"
  by (rule emission_carries_out_plan [THEN conjunct1]) simp

text \<open>
  A failed hold leaves nothing behind: when a write of a held modifier output fails (and the
  releases that follow do not), the error is returned and none of the keys the hold had pressed
  is left pressed.
\<close>
theorem failed_hold_is_undone:
  assumes "vd_faults d = replicate k False @ True # replicate n False" "k < length (hold_codes nk)"
  shows "fst (hold_modifier_output nk d) = Inl WriteFailed
    \<and> pressed_codes (snd (hold_modifier_output nk d)) = pressed_codes d - set (take k (hold_codes nk))"
proof -
  have "list_all Not (take (length ([] :: u16 list) + k) (replicate n False))"
    by (simp add: list_all_length)
  from hold_press_fail [OF assms(2,1) this] show ?thesis
    by (elim exE conjE) (simp add: hold_modifier_output_def)
qed

lemma hold_codes_shift_alt: "hold_codes \<lparr>nk_modifiers = 2, nk_usage = RightAlt\<rparr> = [42, 100]"
  by (simp add: hold_codes_def mask_bits_def modifier_bit_to_keycode_mask_bits [unfolded mask_bits_def]
      modifier_code_def modifier_usages_def kc_as_native_def keycode_table_def)

lemma failed_hold_is_undone_witness:
  "pressed_codes (snd (hold_modifier_output \<lparr>nk_modifiers = 2, nk_usage = RightAlt\<rparr>
      \<lparr>vd_faults = [False, True, False], vd_log = []\<rparr>)) = {}"
  using failed_hold_is_undone [of "\<lparr>vd_faults = [False, True, False], vd_log = []\<rparr>" 1 1
      "\<lparr>nk_modifiers = 2, nk_usage = RightAlt\<rparr>"]
  by (simp add: hold_codes_shift_alt pressed_codes_def)

text \<open>
  A failed tap is not undone: when the write of one of a tap's presses, or of the release of
  its base key, fails, the error is returned at once and every modifier pressed so far (and the
  base key, when its release fails) stays pressed on the virtual keyboard.
\<close>
theorem failed_tap_leaves_keys_pressed:
  assumes "vd_faults d = replicate k False @ True # fs"
    and "k < length (codes_at (nk_modifiers nk) mask_bits) + 2"
  shows "fst (emit_key_event nk d) = Inl WriteFailed
    \<and> pressed_codes (snd (emit_key_event nk d)) =
        pressed_codes d \<union> set (take k (codes_at (nk_modifiers nk) mask_bits))
        \<union> (if k = length (codes_at (nk_modifiers nk) mask_bits) + 1 then {kc_as_native (nk_usage nk)} else {})"
proof -
  define ms where "ms = codes_at (nk_modifiers nk) mask_bits"
  let ?b = "kc_as_native (nk_usage nk)"
  have "fst (emit_key_event nk d) = Inl WriteFailed \<and> pressed_codes (snd (emit_key_event nk d)) =
      pressed_codes d \<union> set (take k ms) \<union> (if k = length ms + 1 then {?b} else {})"
  proof (cases "k < length ms")
    case True
    from press_modifiers_fail [OF order_refl _ assms(1)] True obtain d'
      where "press_modifiers (nk_modifiers nk) mask_bits [] d = (Inl WriteFailed, d')"
        "pressed_codes d' = pressed_codes d \<union> set (take k ms)" unfolding ms_def by blast
    with True show ?thesis by (simp add: emit_key_event_def hid_usage_to_keycode_Some)
  next
    case False
    then have "list_all Not (take (length ms) (vd_faults d))" using assms(1) by (simp add: list_all_length)
    then have ok: "writes_ok (length ms) d" by (simp add: writes_ok_def)
    obtain d1 where d1: "press_modifiers (nk_modifiers nk) mask_bits [] d = (Inr ms, d1)"
      "vd_faults d1 = drop (length ms) (vd_faults d)" "pressed_codes d1 = pressed_codes d \<union> set ms"
      using press_modifiers_ok [OF order_refl ok [unfolded ms_def], of "[]"] unfolding ms_def by auto
    have "k = length ms \<or> k = Suc (length ms)" using False assms(2) unfolding ms_def by linarith
    then show ?thesis
    proof
      assume "k = length ms"
      then show ?thesis
        using d1 assms(1) by (simp add: emit_key_event_def hid_usage_to_keycode_Some emit_one_fail)
    next
      assume k: "k = Suc (length ms)"
      then have f: "vd_faults d1 = False # True # fs"
        using d1(2) assms(1) by (simp add: replicate_append_same [symmetric])
      from emit_one_ok [of d1 ?b 1] f obtain d2 where d2: "emit_one ?b 1 d1 = (Inr (), d2)"
        "vd_faults d2 = True # fs" "pressed_codes d2 = insert ?b (pressed_codes d1)"
        by (auto simp: write_ok_def)
      with d1 k show ?thesis by (simp add: emit_key_event_def hid_usage_to_keycode_Some emit_one_fail)
    qed
  qed
  then show ?thesis unfolding ms_def .
qed

lemma failed_tap_leaves_keys_pressed_witness:
  "29 \<in> pressed_codes (snd (emit_key_event \<lparr>nk_modifiers = 1, nk_usage = F1\<rparr>
      \<lparr>vd_faults = [False, True], vd_log = []\<rparr>))"
proof -
  have "codes_at 1 mask_bits = [29]"
    by (simp add: codes_at_def mask_bits_def modifier_code_def modifier_usages_def kc_as_native_def keycode_table_def)
  then show ?thesis
    using failed_tap_leaves_keys_pressed [of "\<lparr>vd_faults = [False, True], vd_log = []\<rparr>" 1 "[]"
        "\<lparr>nk_modifiers = 1, nk_usage = F1\<rparr>"] by simp
qed

end
