(* ===== verification/Linux_Device.thy ===== *)
theory Linux_Device
  imports Linux_Emit "HOL-Library.Multiset"
begin

text \<open>
  The input half of the Linux backend (\<open>src/platform/linux/mapping/device.rs\<close> and the
  per-device steps of \<open>mapping/mod.rs\<close>): a grabbed keyboard with its engine and its scanner, the
  keys held when it was grabbed, the window in which their releases flow natively, and the
  processing of its events into output actions.
\<close>

section \<open>The device\<close>

text \<open>
  The evdev handle of a keyboard: what its next reads return (nothing more to read, once the
  script is used up) and whether it is grabbed.
\<close>

datatype fetch_result =
    FetchBatch "input_event list"
  | FetchWouldBlock
  | FetchInterrupted
  | FetchError

record evdev_device =
  ed_reads :: "fetch_result list"
  ed_grabbed :: bool

definition fetch_events :: "evdev_device \<Rightarrow> fetch_result \<times> evdev_device" where
  "fetch_events dev =
     (case ed_reads dev of
        [] \<Rightarrow> (FetchWouldBlock, dev) | r # rs \<Rightarrow> (r, dev\<lparr>ed_reads := rs\<rparr>))"

record managed_device =
  md_device :: evdev_device
  md_path :: string
  md_engine :: "u16 engine"
  md_scanner :: key_scanner
  md_pending_initial_state :: bool
  md_pending_held_modifiers :: "u16 list"

section \<open>Processing events\<close>

text \<open>One captured key of \<open>process_device_events\<close>: the actions it queues.\<close>

definition process_key ::
  "'s lookup \<Rightarrow> string \<Rightarrow> captured_key \<Rightarrow> u16 engine \<Rightarrow> 's \<Rightarrow> device_action list \<times> u16 engine \<times> 's" where
  "process_key lk path k e ls =
     (let code = ck_native k; val = ck_value k
      in case ck_usage k of
           None \<Rightarrow>
             (if val = 2 then
                (if has_stale_key code e then ([], e, ls) else ([Forward code val], e, ls))
              else if val = 0 then ([Forward code val], clear_stale_key code e, ls)
              else ([Forward code val], e, ls))
         | Some usage \<Rightarrow>
             (let (d, e', ls') = decide lk ls code usage (val \<noteq> 0) (Some path) True e;
                  plan = plan_of d linux_consumed_release
              in (case ep_input plan of
                    InputForward \<Rightarrow> [Forward code val]
                  | InputSwallow \<Rightarrow> queue_plan_actions (ep_actions plan)
                  | InputSilent \<Rightarrow> queue_plan_actions (ep_actions plan), e', ls')))"

fun process_events ::
  "'s lookup \<Rightarrow> string \<Rightarrow> input_event list \<Rightarrow> key_scanner \<Rightarrow> u16 engine \<Rightarrow> 's
    \<Rightarrow> device_action list \<times> key_scanner \<times> u16 engine \<times> 's" where
  "process_events lk path [] sc e ls = ([], sc, e, ls)"
| "process_events lk path (ev # evs) sc e ls =
     (case on_event ev sc of
        (None, sc1) \<Rightarrow> process_events lk path evs sc1 e ls
      | (Some k, sc1) \<Rightarrow>
          (let (as, e1, ls1) = process_key lk path k e ls;
               (bs, sc2, e2, ls2) = process_events lk path evs sc1 e1 ls1
           in (as @ bs, sc2, e2, ls2)))"

definition process_device_events ::
  "'s lookup \<Rightarrow> managed_device \<Rightarrow> 's \<Rightarrow> device_action list \<times> managed_device \<times> 's" where
  "process_device_events lk m ls =
     (let (r, dev) = fetch_events (md_device m); m1 = m\<lparr>md_device := dev\<rparr>
      in case r of
           FetchBatch evs \<Rightarrow>
             (let (as, sc, e, ls') = process_events lk (md_path m) evs (md_scanner m) (md_engine m) ls
              in (as, m1\<lparr>md_scanner := sc, md_engine := e\<rparr>, ls'))
         | _ \<Rightarrow> ([], m1, ls))"

section \<open>Keys held at the grab\<close>

fun note_held_keys :: "u16 list \<Rightarrow> u16 engine \<Rightarrow> u16 list \<times> u16 engine" where
  "note_held_keys [] e = ([], e)"
| "note_held_keys (code # held) e =
     (case keycode_to_hid_usage code of
        Some usage \<Rightarrow>
          (let (ms, e') = note_held_keys held (note_held_key code usage e)
           in (if hid_usage_to_modifier_bit usage \<noteq> None then code # ms else ms, e'))
      | None \<Rightarrow> note_held_keys held (note_stale_key code e))"

text \<open>The \<open>EVIOCGKEY\<close> request word and the key bitmap the kernel fills in.\<close>

definition eviocgkey_request :: "nat \<Rightarrow> 64 word" where
  "eviocgkey_request buf_len =
     push_bit 30 2 OR push_bit 8 0x45 OR 0x18 OR push_bit 16 (of_nat buf_len AND 0x3fff)"

definition byte_key_codes :: "nat \<Rightarrow> nat \<Rightarrow> u8 \<Rightarrow> u16 list" where
  "byte_key_codes key_cnt i byte =
     concat (map (\<lambda>b.
       if byte AND push_bit b 1 \<noteq> 0 then
         (let code = of_nat (i * 8 + b) in if code < of_nat key_cnt then [code] else [])
       else []) [0..<8])"

definition parse_key_bitmap :: "bytes \<Rightarrow> nat \<Rightarrow> u16 list" where
  "parse_key_bitmap buf key_cnt =
     concat (map (\<lambda>(i, byte). byte_key_codes key_cnt i byte) (enumerate 0 buf))"

definition KEY_CNT :: nat where "KEY_CNT = 0x2fe"

text \<open>
  \<open>read_kernel_key_state\<close>: the \<open>ioctl\<close> gets the request word and the zeroed buffer, and
  returns the buffer as the kernel filled it, or fails.
\<close>

definition read_kernel_key_state :: "(64 word \<Rightarrow> bytes \<Rightarrow> bytes option) \<Rightarrow> u16 list option" where
  "read_kernel_key_state ioctl =
     (let buf_len = (KEY_CNT + 7) div 8
      in map_option (\<lambda>buf. parse_key_bitmap buf KEY_CNT)
           (ioctl (eviocgkey_request buf_len) (replicate buf_len 0)))"

definition capture_held_keys ::
  "(64 word \<Rightarrow> bytes \<Rightarrow> bytes option) \<Rightarrow> managed_device \<Rightarrow> u16 list \<times> managed_device" where
  "capture_held_keys ioctl m =
     (case read_kernel_key_state ioctl of
        None \<Rightarrow> ([], m)
      | Some held \<Rightarrow>
          (let (ms, e) = note_held_keys held (md_engine m)
           in (held, m\<lparr>md_engine := e, md_pending_held_modifiers := ms\<rparr>)))"

section \<open>Draining, and the native release window\<close>

fun drain_reads :: "fetch_result list \<Rightarrow> nat \<Rightarrow> nat \<times> fetch_result list" where
  "drain_reads [] n = (n, [])"
| "drain_reads (FetchBatch evs # rs) n =
     (if length evs = 0 then (n, rs) else drain_reads rs (n + length evs))"
| "drain_reads (FetchWouldBlock # rs) n = (n, rs)"
| "drain_reads (FetchInterrupted # rs) n = drain_reads rs n"
| "drain_reads (FetchError # rs) n = (n, rs)"

definition drain_pending_events :: "evdev_device \<Rightarrow> nat \<times> evdev_device" where
  "drain_pending_events dev =
     (let (n, rs) = drain_reads (ed_reads dev) 0 in (n, dev\<lparr>ed_reads := rs\<rparr>))"

text \<open>\<open>Vec::swap_remove\<close>: the last element takes the place of the one removed.\<close>

definition swap_remove :: "nat \<Rightarrow> 'a list \<Rightarrow> 'a list" where
  "swap_remove pos xs = butlast (xs[pos := last xs])"

definition unnote_natively_released :: "u16 \<Rightarrow> u16 engine \<Rightarrow> u16 engine" where
  "unnote_natively_released code e =
     (case keycode_to_hid_usage code of
        Some usage \<Rightarrow> unnote_held_key code usage e
      | None \<Rightarrow> clear_stale_key code e)"

fun window_events :: "input_event list \<Rightarrow> u16 engine \<Rightarrow> u16 list \<Rightarrow> u16 engine \<times> u16 list" where
  "window_events [] e pending = (e, pending)"
| "window_events (ev # evs) e pending =
     (if ev_type ev = EV_KEY \<and> ev_value ev = 0 then
        (case position (\<lambda>code. code = ev_code ev) pending of
           Some pos \<Rightarrow>
             window_events evs (unnote_natively_released (pending ! pos) e) (swap_remove pos pending)
         | None \<Rightarrow> window_events evs e pending)
      else window_events evs e pending)"

text \<open>
  The loop of the window. The list of booleans is what its tests \<open>Instant::now() >= deadline\<close>
  give; it ends with the deadline, which does pass.
\<close>

fun window_loop ::
  "bool \<Rightarrow> bool list \<Rightarrow> evdev_device \<Rightarrow> u16 engine \<Rightarrow> u16 list
    \<Rightarrow> evdev_device \<times> u16 engine \<times> u16 list" where
  "window_loop has_held [] dev e pending = (dev, e, pending)"
| "window_loop has_held (expired # clock) dev e pending =
     (if has_held \<and> pending = [] then (dev, e, pending)
      else if expired then (dev, e, pending)
      else
        (let (r, dev1) = fetch_events dev
         in case r of
              FetchWouldBlock \<Rightarrow> window_loop has_held clock dev1 e pending
            | FetchInterrupted \<Rightarrow> window_loop has_held clock dev1 e pending
            | FetchError \<Rightarrow> (dev1, e, pending)
            | FetchBatch evs \<Rightarrow>
                (let (e1, pending1) = window_events evs e pending
                 in window_loop has_held clock dev1 e1 pending1)))"

text \<open>
  \<open>native_release_window\<close>; the two flags say whether \<open>ungrab\<close> and the final \<open>grab\<close> succeed.
\<close>

definition native_release_window ::
  "bool \<Rightarrow> bool \<Rightarrow> bool list \<Rightarrow> u16 list \<Rightarrow> bool \<Rightarrow> managed_device \<Rightarrow> managed_device" where
  "native_release_window ungrab_ok grab_ok clock held drain_found_events m =
     (if held = [] \<and> \<not> drain_found_events then m
      else if \<not> ungrab_ok then m
      else
        (let dev0 = (md_device m)\<lparr>ed_grabbed := False\<rparr>;
             (dev1, e, pending) = window_loop (held \<noteq> []) clock dev0 (md_engine m) held;
             (_, dev2) = drain_pending_events dev1
         in m\<lparr>md_device := dev2\<lparr>ed_grabbed := grab_ok\<rparr>, md_engine := e\<rparr>))"

section \<open>The initial state on the virtual keyboard\<close>

fun initial_actions :: "u16 engine \<Rightarrow> u16 list \<Rightarrow> device_action list" where
  "initial_actions e [] = []"
| "initial_actions e (code # codes) =
     (case keycode_to_hid_usage code of
        None \<Rightarrow> initial_actions e codes
      | Some usage \<Rightarrow>
          (if \<not> held_modifier_forwarded usage e then initial_actions e codes
           else Forward code 1 # initial_actions e codes))"

definition plan_initial_state :: "managed_device \<Rightarrow> device_action list \<times> managed_device" where
  "plan_initial_state m =
     (initial_actions (md_engine m) (md_pending_held_modifiers m),
      m\<lparr>md_pending_held_modifiers := []\<rparr>)"

definition sync_initial_state :: "managed_device \<Rightarrow> virtual_device \<Rightarrow> managed_device \<times> virtual_device" where
  "sync_initial_state m vd = (let (as, m') = plan_initial_state m in (m', emit_actions as vd))"

section \<open>Composition\<close>

text \<open>
  \<open>start_mapping\<close>, per device: the device is grabbed, drained, its held keys are captured, and
  their releases get their window.
\<close>

definition adopt_device ::
  "(64 word \<Rightarrow> bytes \<Rightarrow> bytes option) \<Rightarrow> bool \<Rightarrow> bool \<Rightarrow> bool list \<Rightarrow> evdev_device \<Rightarrow> string \<Rightarrow> managed_device" where
  "adopt_device ioctl ungrab_ok grab_ok clock dev path =
     (let (drained, dev1) = drain_pending_events (dev\<lparr>ed_grabbed := True\<rparr>);
          m = \<lparr>md_device = dev1, md_path = path, md_engine = engine_new, md_scanner = scanner_new,
               md_pending_initial_state = False, md_pending_held_modifiers = []\<rparr>;
          (held, m1) = capture_held_keys ioctl m
      in native_release_window ungrab_ok grab_ok clock held (drained > 0) m1)"

text \<open>The event loop's handling of a ready device: decide under the lock, then emit.\<close>

definition service_device ::
  "'s lookup \<Rightarrow> managed_device \<Rightarrow> 's \<Rightarrow> virtual_device \<Rightarrow> managed_device \<times> 's \<times> virtual_device" where
  "service_device lk m ls vd =
     (let (as, m1) = (if md_pending_initial_state m then
                        (let (as, m1) = plan_initial_state m in (as, m1\<lparr>md_pending_initial_state := False\<rparr>))
                      else ([], m));
          (bs, m2, ls') = process_device_events lk m1 ls
      in (m2, ls', emit_actions (as @ bs) vd))"

text \<open>The device served several times; the lookup state each time is what it then is.\<close>

fun serve :: "'s lookup \<Rightarrow> 's list \<Rightarrow> managed_device \<Rightarrow> virtual_device \<Rightarrow> managed_device \<times> virtual_device" where
  "serve lk [] m vd = (m, vd)"
| "serve lk (ls # lss) m vd =
     (let (m', _, vd') = service_device lk m ls vd in serve lk lss m' vd')"

section \<open>The key bitmap\<close>

definition bitmap_codes :: "nat \<Rightarrow> bytes \<Rightarrow> nat list" where
  "bitmap_codes key_cnt buf = filter (\<lambda>n. n < key_cnt \<and> bit (buf ! (n div 8)) (n mod 8)) [0..<8 * length buf]"

lemma bitmap_codes_snoc:
  "bitmap_codes key_cnt (buf @ [x]) =
     bitmap_codes key_cnt buf @ filter (\<lambda>n. n < key_cnt \<and> bit x (n mod 8)) [8 * length buf..<8 * length buf + 8]"
proof -
  let ?P = "\<lambda>n. n < key_cnt \<and> bit ((buf @ [x]) ! (n div 8)) (n mod 8)"
  have "8 * length (buf @ [x]) = 8 * length buf + 8" by simp
  then have "[0..<8 * length (buf @ [x])] = [0..<8 * length buf] @ [8 * length buf..<8 * length buf + 8]"
    using upt_add_eq_append [of 0 "8 * length buf" 8] by (simp only:)
  then have "bitmap_codes key_cnt (buf @ [x])
      = filter ?P [0..<8 * length buf] @ filter ?P [8 * length buf..<8 * length buf + 8]"
    by (simp only: bitmap_codes_def filter_append)
  moreover have "filter ?P [0..<8 * length buf] = bitmap_codes key_cnt buf"
    unfolding bitmap_codes_def by (rule filter_cong) (auto simp: nth_append)
  moreover have "?P n = (n < key_cnt \<and> bit x (n mod 8))"
    if "n \<in> set [8 * length buf..<8 * length buf + 8]" for n
  proof -
    from that have "n div 8 = length buf" by (simp add: div_nat_eqI)
    then show ?thesis by (simp add: nth_append)
  qed
  then have "filter ?P [8 * length buf..<8 * length buf + 8]
      = filter (\<lambda>n. n < key_cnt \<and> bit x (n mod 8)) [8 * length buf..<8 * length buf + 8]"
    by (rule filter_cong [OF refl])
  ultimately show ?thesis by simp
qed

lemma byte_bit_test:
  assumes "b < 8" shows "(x :: u8) AND push_bit b 1 \<noteq> 0 \<longleftrightarrow> bit x b"
proof -
  have "unat (of_nat b :: u8) = b" using assms by (simp add: unat_of_nat take_bit_nat_eq_self)
  with mask_test_iff [of "of_nat b" x] assms show ?thesis by (simp only: bit_mask_def)
qed

lemma bit_code:
  assumes "b < 8" "8 * i + 8 \<le> 65536" "key_cnt < 65536"
  shows "(if (x :: u8) AND push_bit b 1 \<noteq> 0
      then let code = (of_nat (i * 8 + b) :: u16) in if code < of_nat key_cnt then [code] else [] else [])
    = map of_nat (filter (\<lambda>n. n < key_cnt \<and> bit x (n mod 8)) [i * 8 + b])"
proof -
  have "unat (of_nat (i * 8 + b) :: u16) = i * 8 + b" "unat (of_nat key_cnt :: u16) = key_cnt"
    using assms by (simp_all only: unat_of_nat len_num0 len_bit0 len_num1 take_bit_nat_eq_self) simp_all
  then have "(of_nat (i * 8 + b) :: u16) < of_nat key_cnt \<longleftrightarrow> i * 8 + b < key_cnt"
    by (simp only: word_less_nat_alt)
  moreover have "(i * 8 + b) mod 8 = b" using assms(1) by simp
  ultimately show ?thesis
    unfolding byte_bit_test [OF assms(1)] Let_def by simp
qed

lemma concat_map_filter_sing: "concat (map (\<lambda>b. map g (filter P [f b])) bs) = map g (filter P (map f bs))"
  by (induction bs) simp_all

lemma byte_codes:
  assumes "8 * i + 8 \<le> 65536" "key_cnt < 65536"
  shows "byte_key_codes key_cnt i x = map of_nat (filter (\<lambda>n. n < key_cnt \<and> bit x (n mod 8)) [8 * i..<8 * i + 8])"
proof -
  have "byte_key_codes key_cnt i x =
      concat (map (\<lambda>b. map of_nat (filter (\<lambda>n. n < key_cnt \<and> bit x (n mod 8)) [i * 8 + b])) [0..<8])"
    unfolding byte_key_codes_def
    by (rule arg_cong [where f = concat], rule map_cong [OF refl], rule bit_code) (use assms in auto)
  also have "\<dots> = map of_nat (filter (\<lambda>n. n < key_cnt \<and> bit x (n mod 8)) (map (\<lambda>b. i * 8 + b) [0..<8]))"
    by (rule concat_map_filter_sing)
  also have "map (\<lambda>b. i * 8 + b) [0..<8] = [8 * i..<8 * i + 8]"
    by (simp only: map_add_upt [symmetric] mult.commute add.commute)
  finally show ?thesis .
qed

lemma parse_key_bitmap_codes:
  assumes "8 * length buf \<le> 65536" "key_cnt < 65536"
  shows "parse_key_bitmap buf key_cnt = map of_nat (bitmap_codes key_cnt buf)"
  using assms(1)
proof (induction buf rule: rev_induct)
  case (snoc x buf)
  have "parse_key_bitmap (buf @ [x]) key_cnt =
      parse_key_bitmap buf key_cnt @ byte_key_codes key_cnt (length buf) x"
    by (simp add: parse_key_bitmap_def enumerate_append_eq)
  with snoc byte_codes [of "length buf" key_cnt x] assms(2) show ?case
    by (simp add: bitmap_codes_snoc)
qed (simp add: parse_key_bitmap_def bitmap_codes_def)

section \<open>The engine after the grab\<close>

text \<open>The engine that knows of the keys in a set being held, and of nothing else.\<close>

definition noted :: "u16 set \<Rightarrow> u16 engine \<Rightarrow> bool" where
  "noted H e \<longleftrightarrow>
     bits_of (modifier_state e) = device_bits H
     \<and> pressed_keys (tracker e) = {c \<in> H. keycode_to_hid_usage c \<noteq> None}
     \<and> swallowed_keys (tracker e) = {} \<and> held_output_modifiers (tracker e) = []
     \<and> bits_of (forwarded_modifiers (tracker e)) = device_bits H
     \<and> consumed_modifiers (tracker e) = 0
     \<and> stale_keys (tracker e) = {c \<in> H. device_bits {c} = {}}"

lemma noted_unique: "noted H e \<Longrightarrow> noted H e' \<Longrightarrow> e = e'"
  unfolding noted_def
  by (intro engine.equality key_tracker.equality) (auto simp flip: bits_of_inject)

lemma noted_new: "noted {} engine_new"
  by (simp add: noted_def engine_new_def tracker_default_def)

lemma known_code_bits:
  "keycode_to_hid_usage c = Some u \<Longrightarrow> device_bits {c} = bits_of (usage_mask u)"
  using device_bits_code [of u] by (simp add: keycode_to_hid_usage_iff hid_usage_to_keycode_Some)

lemma usage_mask_empty: "bits_of (usage_mask u) = {} \<longleftrightarrow> hid_usage_to_modifier_bit u = None"
proof (cases "hid_usage_to_modifier_bit u")
  case (Some b)
  then show ?thesis using modifier_bit_bound by (simp add: bits_of_bit_mask)
qed simp

lemma noted_insert:
  assumes "noted H e" "keycode_to_hid_usage c = Some u"
  shows "noted (insert c H) (note_held_key c u e)"
proof -
  have "{c' \<in> insert c H. keycode_to_hid_usage c' \<noteq> None} = insert c {c' \<in> H. keycode_to_hid_usage c' \<noteq> None}"
    using assms(2) by auto
  then show ?thesis
    using assms usage_mask_empty [of u] known_code_bits [OF assms(2)]
    by (cases "hid_usage_to_modifier_bit u")
      (auto simp: noted_def note_held_key_def Let_def record_forwarded_down_def device_bits_insert [of c H])
qed

lemma noted_insert_unknown:
  assumes "noted H e" "keycode_to_hid_usage c = None"
  shows "noted (insert c H) (note_stale_key c e)"
  using assms device_bits_unknown [OF assms(2)]
  by (auto simp: noted_def note_stale_key_def device_bits_insert [of c H])

lemma noted_note_held_keys: "noted H e \<Longrightarrow> noted (H \<union> set held) (snd (note_held_keys held e))"
proof (induction held arbitrary: H e)
  case (Cons c held)
  show ?case
  proof (cases "keycode_to_hid_usage c")
    case None
    with Cons.IH [OF noted_insert_unknown [OF Cons.prems None]] show ?thesis by simp
  next
    case (Some u)
    with Cons.IH [OF noted_insert [OF Cons.prems Some]] show ?thesis by (simp add: case_prod_beta Let_def)
  qed
qed simp

lemma note_held_keys_modifiers:
  "fst (note_held_keys held e) = filter (\<lambda>c. device_bits {c} \<noteq> {}) held"
proof (induction held arbitrary: e)
  case (Cons c held)
  show ?case
  proof (cases "keycode_to_hid_usage c")
    case None
    then show ?thesis using device_bits_unknown [OF None] by (simp add: Cons.IH)
  next
    case (Some u)
    then show ?thesis
      using known_code_bits [OF Some] usage_mask_empty [of u] by (auto simp: Cons.IH case_prod_beta Let_def)
  qed
qed simp

lemma noted_remove:
  assumes "noted H e" shows "noted (H - {c}) (unnote_natively_released c e)"
proof (cases "keycode_to_hid_usage c")
  case None
  then show ?thesis
    using assms device_bits_unknown [OF None]
    by (auto simp: noted_def unnote_natively_released_def clear_stale_key_def)
next
  case (Some u)
  have p: "{c' \<in> H - {c}. keycode_to_hid_usage c' \<noteq> None} = {c' \<in> H. keycode_to_hid_usage c' \<noteq> None} - {c}"
    by auto
  show ?thesis
  proof (cases "hid_usage_to_modifier_bit u")
    case None
    then have "device_bits {c} = {}" using known_code_bits [OF Some] by simp
    then show ?thesis
      using assms Some None p
      by (auto simp: noted_def unnote_natively_released_def unnote_held_key_def Let_def)
  next
    case b: (Some b)
    then have "device_bits {c} = bits_of (bit_mask b)" "device_bits {c} \<noteq> {}"
      using known_code_bits [OF Some] usage_mask_empty [of u] by simp_all
    then show ?thesis
      using assms Some b p
      by (auto simp: noted_def unnote_natively_released_def unnote_held_key_def Let_def bits_of_and_not
          simp del: bits_of_and)
  qed
qed

text \<open>The window keeps the engine in step with the keys still pending.\<close>

definition up_codes :: "input_event list \<Rightarrow> u16 set" where
  "up_codes evs = ev_code ` {ev \<in> set evs. ev_type ev = EV_KEY \<and> ev_value ev = 0}"

lemma up_codes_simps [simp]:
  "up_codes [] = {}"
  "up_codes (ev # evs) = (if ev_type ev = EV_KEY \<and> ev_value ev = 0 then {ev_code ev} else {}) \<union> up_codes evs"
  "up_codes (as @ bs) = up_codes as \<union> up_codes bs"
  by (auto simp: up_codes_def)

lemma diff_diff: "A - B - C = A - (B \<union> C)"
  by blast

lemma mset_swap_remove: "i < length xs \<Longrightarrow> mset (swap_remove i xs) = mset xs - {#xs ! i#}"
proof -
  assume i: "i < length xs"
  then have ne: "xs \<noteq> []" by auto
  then have "mset (xs[i := last xs]) = mset (butlast (xs[i := last xs])) + {#last (xs[i := last xs])#}"
    by (metis append_butlast_last_id length_greater_0_conv length_list_update mset.simps(1) mset.simps(2)
        mset_append add_mset_add_single)
  moreover have "last (xs[i := last xs]) = last xs" using i ne by (simp add: last_list_update)
  ultimately show ?thesis using i ne by (simp add: swap_remove_def mset_update)
qed

lemma set_swap_remove:
  assumes "distinct xs" "i < length xs"
  shows "set (swap_remove i xs) = set xs - {xs ! i} \<and> distinct (swap_remove i xs)"
proof -
  have "mset xs = mset (xs ! i # swap_remove i xs)"
    using assms(2) by (simp add: mset_swap_remove)
  with assms(1) have "distinct (xs ! i # swap_remove i xs)" "set xs = set (xs ! i # swap_remove i xs)"
    by (metis mset_eq_imp_distinct_iff, metis mset_eq_setD)
  then show ?thesis by auto
qed

lemma window_events_spec:
  assumes "distinct pending" "noted (set pending) e"
  shows "set (snd (window_events evs e pending)) = set pending - up_codes evs
    \<and> distinct (snd (window_events evs e pending))
    \<and> noted (set pending - up_codes evs) (fst (window_events evs e pending))"
  using assms
proof (induction evs arbitrary: e pending)
  case (Cons ev evs)
  show ?case
  proof (cases "ev_type ev = EV_KEY \<and> ev_value ev = 0")
    case False
    then show ?thesis using Cons by (cases "ev_type ev = EV_KEY") simp_all
  next
    case up: True
    show ?thesis
    proof (cases "position (\<lambda>code. code = ev_code ev) pending")
      case None
      then have "set pending - ({ev_code ev} \<union> X) = set pending - X" for X by (auto simp: position_None)
      then show ?thesis using None up Cons by simp
    next
      case (Some pos)
      then have pos: "pos < length pending" "pending ! pos = ev_code ev"
        using position_Some [OF Some] by auto
      note sw = set_swap_remove [OF Cons.prems(1) pos(1)]
      have "noted (set (swap_remove pos pending)) (unnote_natively_released (pending ! pos) e)"
        using noted_remove [OF Cons.prems(2)] sw by simp
      from Cons.IH [OF conjunct2 [OF sw] this] show ?thesis
        using Some up sw pos by (simp add: diff_diff)
    qed
  qed
qed simp

text \<open>The events of a script of reads.\<close>

definition events_of :: "fetch_result list \<Rightarrow> input_event list" where
  "events_of rs = concat (map (\<lambda>r. case r of FetchBatch evs \<Rightarrow> evs | _ \<Rightarrow> []) rs)"

lemma events_of_simps [simp]:
  "events_of [] = []" "events_of (r # rs) = (case r of FetchBatch evs \<Rightarrow> evs | _ \<Rightarrow> []) @ events_of rs"
  by (simp_all add: events_of_def)

lemma window_loop_spec:
  assumes "distinct pending" "noted (set pending) e"
    "window_loop hh clock dev e pending = (dev', e', pending')"
  shows "\<exists>n. ed_reads dev' = drop n (ed_reads dev)
    \<and> set pending' = set pending - up_codes (events_of (take n (ed_reads dev)))
    \<and> distinct pending' \<and> noted (set pending - up_codes (events_of (take n (ed_reads dev)))) e'"
  using assms
proof (induction clock arbitrary: dev e pending)
  case Nil
  then show ?case by (intro exI [of _ 0]) simp
next
  case (Cons x clock)
  show ?case
  proof (cases "(hh \<and> pending = []) \<or> x")
    case True
    then show ?thesis using Cons.prems by (intro exI [of _ 0]) (auto simp: up_codes_def split: if_splits)
  next
    case go: False
    then have go1: "\<not> (hh \<and> pending = [])" "\<not> x" by auto
    show ?thesis
    proof (cases "ed_reads dev")
      case Nil
      with Cons.prems go1 have "window_loop hh clock dev e pending = (dev', e', pending')"
        by (simp only: window_loop.simps if_False fetch_events_def) (simp add: Let_def)
      from Cons.IH [OF Cons.prems(1,2) this] Nil show ?thesis by simp
    next
      case (Cons r rs)
      let ?dev1 = "dev\<lparr>ed_reads := rs\<rparr>"
      have f: "fetch_events dev = (r, ?dev1)" by (simp add: fetch_events_def Cons)
      show ?thesis
      proof (cases r)
        case (FetchBatch evs)
        obtain e1 p1 where w: "window_events evs e pending = (e1, p1)" by fastforce
        note spec = window_events_spec [OF Cons.prems(1,2), of evs, unfolded w fst_conv snd_conv]
        have "window_loop hh clock ?dev1 e1 p1 = (dev', e', pending')"
          using Cons.prems(3) go1 f FetchBatch w
          by (simp only: window_loop.simps if_False Let_def prod.case fetch_result.case) 
        from Cons.IH [OF _ _ this] spec obtain n where
          "ed_reads dev' = drop n rs" "set pending' = set p1 - up_codes (events_of (take n rs))"
          "distinct pending'" "noted (set p1 - up_codes (events_of (take n rs))) e'" by auto
        with spec Cons FetchBatch show ?thesis
          by (intro exI [of _ "Suc n"]) (simp add: diff_diff)
      next
        case FetchError
        then show ?thesis
          using Cons.prems go1 f Cons
          by (intro exI [of _ 1]) (auto simp: up_codes_def)
      next
        case FetchWouldBlock
        then have "window_loop hh clock ?dev1 e pending = (dev', e', pending')"
          using Cons.prems(3) go1 f
          by (simp only: window_loop.simps if_False Let_def prod.case fetch_result.case)
        from Cons.IH [OF Cons.prems(1,2) this] obtain n where
          "ed_reads dev' = drop n rs" "set pending' = set pending - up_codes (events_of (take n rs))"
          "distinct pending'" "noted (set pending - up_codes (events_of (take n rs))) e'" by auto
        with Cons FetchWouldBlock show ?thesis by (intro exI [of _ "Suc n"]) auto
      next
        case FetchInterrupted
        then have "window_loop hh clock ?dev1 e pending = (dev', e', pending')"
          using Cons.prems(3) go1 f
          by (simp only: window_loop.simps if_False Let_def prod.case fetch_result.case)
        from Cons.IH [OF Cons.prems(1,2) this] obtain n where
          "ed_reads dev' = drop n rs" "set pending' = set pending - up_codes (events_of (take n rs))"
          "distinct pending'" "noted (set pending - up_codes (events_of (take n rs))) e'" by auto
        with Cons FetchInterrupted show ?thesis by (intro exI [of _ "Suc n"]) auto
      qed
    qed
  qed
qed

section \<open>A session\<close>

definition code_usage :: "u16 \<Rightarrow> hid_usage" where
  "code_usage c = (case keycode_to_hid_usage c of Some u \<Rightarrow> u | None \<Rightarrow> F1)"

text \<open>The modifier that the identity of a key stands for.\<close>

definition identity_bits :: "hid_usage option \<Rightarrow> nat set" where
  "identity_bits uo = (case uo of Some u \<Rightarrow> bits_of (usage_mask u) | None \<Rightarrow> {})"

text \<open>
  The keys physically down, and the streams of keys a kernel can deliver with them down. A key may be
  identified by a scan code (\<open>MSC_SCAN\<close>) that names another key than its key code does, and not always by
  the same one, as long as both are the same modifier or none, and the key code is one the table has.
\<close>

definition step_keys :: "captured_key \<Rightarrow> u16 set \<Rightarrow> u16 set" where
  "step_keys k down = (if ck_value k = 0 then down - {ck_native k} else insert (ck_native k) down)"

definition key_possible :: "u16 set \<Rightarrow> captured_key \<Rightarrow> bool" where
  "key_possible down k \<longleftrightarrow>
     (ck_usage k = None \<longleftrightarrow> keycode_to_hid_usage (ck_native k) = None)
     \<and> identity_bits (ck_usage k) = device_bits {ck_native k}
     \<and> (ck_value k = 0 \<or> (ck_value k = 1 \<and> ck_native k \<notin> down) \<or> (ck_value k = 2 \<and> ck_native k \<in> down))"

fun key_stream :: "u16 set \<Rightarrow> captured_key list \<Rightarrow> bool" where
  "key_stream down [] \<longleftrightarrow> True"
| "key_stream down (k # ks) \<longleftrightarrow> key_possible down k \<and> key_stream (step_keys k down) ks"

text \<open>What holds between events: device and engine agree on everything that is pressed.\<close>

definition session_inv :: "u16 set \<Rightarrow> u16 engine \<Rightarrow> virtual_device \<Rightarrow> bool" where
  "session_inv down e vd \<longleftrightarrow>
     vd_faults vd = [] \<and> device_ok e (device_bits (pressed_codes vd)) \<and> engine_ok code_usage e
     \<and> pressed_keys (tracker e) = {c \<in> down. keycode_to_hid_usage c \<noteq> None}
     \<and> stale_keys (tracker e) \<subseteq> down
     \<and> {c \<in> pressed_codes vd. device_bits {c} = {}} \<subseteq> down - swallowed_keys (tracker e)"

text \<open>With every key up, nothing is pressed and the engine is as new.\<close>

lemma session_all_up:
  assumes inv: "session_inv {} e vd" shows "pressed_codes vd = {} \<and> e = engine_new"
proof -
  have e: "e = engine_new"
    using engine_ok_no_key_down [of code_usage e] inv by (auto simp: session_inv_def)
  then have "device_bits (pressed_codes vd) = {}"
    using inv by (simp add: session_inv_def device_ok_def engine_new_def tracker_default_def)
  then have "device_bits {c} = {}" if "c \<in> pressed_codes vd" for c
    using that by (auto simp: device_bits_def)
  then show ?thesis using inv e by (auto simp: session_inv_def)
qed

lemma step_effect:
  assumes "engine_ok U e" "engine_step lk U i e = (d, e')"
  shows "(d = Pass \<longrightarrow> in_key i \<notin> swallowed_keys (tracker e) \<and> swallowed_keys (tracker e') = swallowed_keys (tracker e))
    \<and> (is_emit d \<longrightarrow> in_down i \<and> in_key i \<notin> pressed_keys (tracker e)
        \<and> swallowed_keys (tracker e') = insert (in_key i) (swallowed_keys (tracker e)))
    \<and> (is_swallow d \<longrightarrow> swallowed_keys (tracker e') =
        swallowed_keys (tracker e) - (if in_down i then {} else {in_key i})
        \<and> (\<not> in_down i \<longrightarrow> in_key i \<in> swallowed_keys (tracker e)))
    \<and> (d = ConsumedRelease \<longrightarrow> \<not> in_down i \<and> usage_mask (U (in_key i)) \<noteq> 0
        \<and> swallowed_keys (tracker e') = swallowed_keys (tracker e))"
proof (cases "in_down i \<and> in_key i \<notin> pressed_keys (tracker e)")
  case True
  have "in_key i \<notin> swallowed_keys (tracker e)"
    using assms(1) True by (auto simp: engine_ok_def tracker_ok_def)
  note sw = this
  let ?res = "resolve lk (in_lookup i) (U (in_key i)) (modifier_state e) (in_device i)"
  show ?thesis
  proof (cases "in_reachable i \<and> fst ?res \<noteq> None")
    case emit: True
    then obtain os where os: "fst ?res = Some os" by auto
    let ?dm = "decide_mapped (in_key i) (U (in_key i)) (modifier_state e) os (mark_down (in_key i) (U (in_key i)) e)"
    have "d = fst ?dm" "e' = snd ?dm"
      using True emit os assms(2) by (simp_all add: engine_step_simps decide_down_fresh case_prod_beta)
    moreover have "is_emit (fst ?dm)" by simp
    ultimately show ?thesis using True by (auto simp: is_emit_def)
  next
    case pass: False
    obtain r ls' where r: "?res = (r, ls')" by fastforce
    have "d = Pass \<and> swallowed_keys (tracker e') = swallowed_keys (tracker e)"
    proof (cases "in_reachable i")
      case reach: True
      with pass r have "r = None" by simp
      with True reach r assms(2) show ?thesis
        by (auto simp: engine_step_simps decide_down_fresh Let_def case_prod_beta)
    next
      case unreach: False
      with True assms(2) show ?thesis by (auto simp: engine_step_simps decide_down_fresh)
    qed
    with sw show ?thesis by simp
  qed
next
  case False
  then show ?thesis
    using assms by (auto simp: engine_step_simps decide_down_def decide_up_eq Let_def engine_ok_def tracker_ok_def
        split: if_splits)
qed

lemma step_stale:
  assumes "engine_step lk U i e = (d, e')" "\<not> in_down i" "in_key i \<in> stale_keys (tracker e) \<longrightarrow> in_key i \<in> pressed_keys (tracker e)"
  shows "in_key i \<notin> stale_keys (tracker e')"
  using assms by (auto simp: engine_step_simps decide_up_eq Let_def split: if_splits)

lemma forward_bits:
  assumes "vd_faults vd = []" "v = 0 \<or> v = 1 \<or> v = 2"
  shows "vd_faults (forward_key_event c v vd) = []"
    and "device_bits (pressed_codes (forward_key_event c v vd)) =
      (if v = 0 then device_bits (pressed_codes vd) - device_bits {c}
       else if v = 1 then device_bits (pressed_codes vd) \<union> device_bits {c} else device_bits (pressed_codes vd))"
    and "pressed_codes (forward_key_event c v vd) \<subseteq>
      (if v = 0 then pressed_codes vd - {c} else insert c (pressed_codes vd))"
    and "v = 2 \<Longrightarrow> pressed_codes (forward_key_event c v vd) \<subseteq> pressed_codes vd"
proof -
  have nb: "device_bits (P - {c}) = device_bits P" if "\<not> (\<exists>i < 8. c = modifier_code i)" for P
    using that by (auto simp: device_bits_def)
  show "vd_faults (forward_key_event c v vd) = []"
    and "pressed_codes (forward_key_event c v vd) \<subseteq>
      (if v = 0 then pressed_codes vd - {c} else insert c (pressed_codes vd))"
    and "v = 2 \<Longrightarrow> pressed_codes (forward_key_event c v vd) \<subseteq> pressed_codes vd"
    using forward_ok [OF assms(1), of c v] by auto
  show "device_bits (pressed_codes (forward_key_event c v vd)) =
      (if v = 0 then device_bits (pressed_codes vd) - device_bits {c}
       else if v = 1 then device_bits (pressed_codes vd) \<union> device_bits {c} else device_bits (pressed_codes vd))"
    using forward_ok [OF assms(1), of c v] assms(2) nb
    by (cases "v = 0"; cases "v = 1"; simp add: device_bits_insert [of c "pressed_codes vd"] Un_commute)
qed

lemma process_unknown_inv:
  assumes inv: "session_inv down e vd" and k: "key_possible down k" and u: "ck_usage k = None"
    and p: "process_key lk path k e ls = (as, e', ls')"
  shows "session_inv (step_keys k down) e' (emit_actions as vd)"
proof -
  let ?c = "ck_native k" and ?v = "ck_value k"
  have un: "keycode_to_hid_usage ?c = None" and v: "?v = 0 \<or> ?v = 1 \<or> ?v = 2"
    using k u by (auto simp: key_possible_def)
  note b = device_bits_unknown [OF un]
  note f = forward_bits [of vd ?v ?c, OF _ v]
  have ok: "engine_ok code_usage (clear_stale_key ?c e) = engine_ok code_usage e" "device_ok (clear_stale_key ?c e) D = device_ok e D" for D
    by (simp_all add: engine_ok_def tracker_ok_def masks_ok_def state_ok_def clear_stale_key_def device_ok_def)
  have n: "?c \<notin> swallowed_keys (tracker e)"
    using inv un by (auto simp: session_inv_def engine_ok_def tracker_ok_def)
  consider "?v = 0" | "?v = 1" | "?v = 2" "?c \<in> down" using k by (auto simp: key_possible_def)
  then show ?thesis
  proof cases
    case 1
    then have "as = [Forward ?c ?v]" "e' = clear_stale_key ?c e" using p u by (simp_all add: process_key_def Let_def)
    then show ?thesis using 1 inv f b ok un
      by (auto simp: session_inv_def step_keys_def linux_emit_def clear_stale_key_def)
  next
    case 2
    then have "as = [Forward ?c ?v]" "e' = e" using p u by (simp_all add: process_key_def Let_def)
    then show ?thesis using 2 inv f b un n
      by (auto simp: session_inv_def step_keys_def linux_emit_def)
  next
    case 3
    then have "(as = [] \<or> as = [Forward ?c ?v]) \<and> e' = e" using p u by (auto simp: process_key_def Let_def split: if_splits)
    then show ?thesis using 3 inv f b un
      by (auto simp: session_inv_def step_keys_def linux_emit_def insert_absorb)
  qed
qed

lemma engine_ok_masks:
  assumes "\<And>c. usage_mask (U c) = usage_mask (V c)" shows "engine_ok U e = engine_ok V e"
proof -
  have "key_bits U = key_bits V" by (rule ext) (simp add: key_bits_def assms)
  then show ?thesis by (simp add: engine_ok_def masks_ok_def state_ok_def)
qed

lemma process_known_inv:
  assumes inv: "session_inv down e vd" and k: "key_possible down k" and u: "ck_usage k = Some u"
    and p: "process_key lk path k e ls = (as, e', ls')"
  shows "session_inv (step_keys k down) e' (emit_actions as vd)"
proof -
  let ?c = "ck_native k" and ?v = "ck_value k" and ?P = "pressed_codes vd" and ?t = "tracker e"
  let ?P' = "pressed_codes (emit_actions as vd)" and ?v' = "if ck_value k = 0 then 0 else if ck_native k \<in> pressed_keys (tracker e) then 2 else (1 :: nat)"
  let ?i = "\<lparr>in_key = ?c, in_down = (?v \<noteq> 0), in_device = Some path, in_reachable = True, in_lookup = ls\<rparr>"
  have kn: "keycode_to_hid_usage ?c \<noteq> None" and v: "?v = 0 \<or> ?v = 1 \<or> ?v = 2"
    and cb: "device_bits {?c} = bits_of (usage_mask u)"
    using k u by (auto simp: key_possible_def identity_bits_def)
  define U where "U = code_usage(?c := u)"
  have cu: "U ?c = u" by (simp add: U_def)
  have "usage_mask (code_usage ?c) = usage_mask u"
    using kn known_code_bits [of ?c] cb by (auto simp: code_usage_def bits_of_inject)
  then have okU: "engine_ok U e = engine_ok code_usage e" for e
    by (intro engine_ok_masks) (simp add: U_def)
  have ok: "vd_faults vd = []" "device_ok e (device_bits ?P)" "engine_ok U e"
    and pr: "pressed_keys ?t = {c \<in> down. keycode_to_hid_usage c \<noteq> None}" and st: "stale_keys ?t \<subseteq> down"
    and nm: "{c \<in> ?P. device_bits {c} = {}} \<subseteq> down - swallowed_keys ?t"
    using inv by (simp_all add: session_inv_def okU)
  have pd: "?c \<in> pressed_keys ?t \<longleftrightarrow> ?c \<in> down" using kn pr by simp
  obtain d where d: "decide lk ls ?c u (?v \<noteq> 0) (Some path) True e = (d, e', ls')"
    and as: "as = (case ep_input (plan_of d CrSwallow) of InputForward \<Rightarrow> [Forward ?c ?v]
        | _ \<Rightarrow> queue_plan_actions (ep_actions (plan_of d CrSwallow)))"
  proof -
    obtain d e1 ls1 where dec: "decide lk ls ?c u (?v \<noteq> 0) (Some path) True e = (d, e1, ls1)"
      by (metis prod.collapse)
    show ?thesis
      by (rule that [of d]; use p u dec in \<open>cases "ep_input (plan_of d CrSwallow)"\<close>)
        (auto simp: process_key_def linux_consumed_release_def Let_def)
  qed
  have step: "engine_step lk U ?i e = (d, e')" by (simp add: engine_step_def cu d)
  note eff = step_effect [OF ok(3) step, simplified]
  have "engine_ok code_usage e'" using engine_step_ok [OF ok(3), of lk ?i] step okU by simp
  moreover have "pressed_keys (tracker e') = {c \<in> step_keys k down. keycode_to_hid_usage c \<noteq> None}"
    using engine_step_pressed [of lk U ?i e] step pr kn by (auto simp: step_down_keys_def step_keys_def)
  moreover have "stale_keys (tracker e') \<subseteq> step_keys k down"
    using engine_step_stale [of lk U ?i e] step st step_stale [OF step] pd
    by (auto simp: step_keys_def)
  moreover have dev: "device_bits ?P' = plan_bits (plan_of d CrSwallow) u ?v' (device_bits ?P) \<and> vd_faults (emit_actions as vd) = []"
  proof (cases "ep_input (plan_of d CrSwallow) = InputForward")
    case True
    then have a: "as = [Forward ?c ?v]" and e: "ep_actions (plan_of d CrSwallow) = []"
      using as by (auto simp: plan_of_def split: decision.splits if_splits)
    have "?v = 1 \<longleftrightarrow> ?v \<noteq> 0 \<and> ?c \<notin> pressed_keys ?t" using k pd by (auto simp: key_possible_def)
    then show ?thesis
      using forward_bits(1,2) [OF ok(1) v, of ?c] cb True e
      by (auto simp: a linux_emit_def plan_bits_def input_bits_def)
  next
    case False
    then have a: "as = queue_plan_actions (ep_actions (plan_of d CrSwallow))"
      using as by (cases "ep_input (plan_of d CrSwallow)") auto
    show ?thesis using emit_plan [OF ok(1)] False by (simp add: a plan_bits_def input_bits_def)
  qed
  moreover have "device_ok e' (device_bits ?P')"
  proof -
    have "event_value ?i (pressed_keys ?t) = ?v'" by (simp add: event_value_def)
    then show ?thesis
      using device_ok_step [OF ok(2), of ?i lk U] ok(3) step dev by (simp add: engine_ok_def cu)
  qed
  moreover have "{c \<in> ?P'. device_bits {c} = {}} \<subseteq> step_keys k down - swallowed_keys (tracker e')"
  proof -
    consider (pass) "d = Pass" | (emit) "is_emit d" | (swallow) "is_swallow d" | (cons) "d = ConsumedRelease"
      by (cases d) (auto simp: is_emit_def is_swallow_def)
    then show ?thesis
    proof cases
      case pass
      then have a: "as = [Forward ?c ?v]" using as by (simp add: plan_of_def)
      show ?thesis
        using forward_bits(3,4) [OF ok(1) v, of ?c] nm eff pass k
        by (auto simp: a linux_emit_def step_keys_def key_possible_def split: if_splits)
    next
      case emit
      then have "as = queue_plan_actions (ep_actions (plan_of d CrSwallow))" 
        using as by (auto simp: is_emit_def plan_of_def)
      then have "{c \<in> ?P'. device_bits {c} = {}} \<subseteq> {c \<in> ?P. device_bits {c} = {}}"
        using emit_plan [OF ok(1)] by blast
      with nm eff emit pd show ?thesis by (auto simp: step_keys_def)
    next
      case swallow
      then have "as = queue_plan_actions (ep_actions (plan_of d CrSwallow))"
        using as by (auto simp: is_swallow_def plan_of_def)
      then have "{c \<in> ?P'. device_bits {c} = {}} \<subseteq> {c \<in> ?P. device_bits {c} = {}}"
        using emit_plan [OF ok(1)] by blast
      with nm eff swallow show ?thesis by (auto simp: step_keys_def split: if_splits)
    next
      case cons
      then have "as = []" using as by (simp add: plan_of_def queue_plan_actions_def)
      moreover have "device_bits {?c} \<noteq> {}"
        using eff cons cb by (simp add: cu bits_of_empty_iff)
      ultimately show ?thesis using nm eff cons by (auto simp: step_keys_def)
    qed
  qed
  ultimately show ?thesis by (simp add: session_inv_def)
qed

lemma process_key_inv:
  "session_inv down e vd \<Longrightarrow> key_possible down k \<Longrightarrow> process_key lk path k e ls = (as, e', ls') \<Longrightarrow>
   session_inv (step_keys k down) e' (emit_actions as vd)"
  by (cases "ck_usage k") (blast intro: process_unknown_inv process_known_inv)+

lemma process_events_inv:
  assumes "session_inv down e vd" "key_stream down (fst (scan_events evs sc))"
    "process_events lk path evs sc e ls = (as, sc', e', ls')"
  shows "session_inv (fold step_keys (fst (scan_events evs sc)) down) e' (emit_actions as vd)
    \<and> sc' = snd (scan_events evs sc)"
  using assms
proof (induction evs arbitrary: down e vd sc ls as sc' e' ls')
  case (Cons ev evs)
  obtain ko sc1 where o: "on_event ev sc = (ko, sc1)" by fastforce
  show ?case
  proof (cases ko)
    case None
    with Cons.prems o Cons.IH [of down e vd sc1 ls] show ?thesis by (simp add: case_prod_beta Let_def)
  next
    case (Some k)
    obtain as1 e1 ls1 where k: "process_key lk path k e ls = (as1, e1, ls1)" by (metis prod.collapse)
    obtain bs sc2 e2 ls2 where r: "process_events lk path evs sc1 e1 ls1 = (bs, sc2, e2, ls2)"
      by (metis prod.collapse)
    have eq: "as = as1 @ bs" "sc' = sc2" "e' = e2" using Cons.prems(3) o Some k r by (auto simp: Let_def)
    have ks: "key_possible down k" "key_stream (step_keys k down) (fst (scan_events evs sc1))"
      using Cons.prems(2) o Some by (simp_all add: case_prod_beta Let_def)
    from Cons.IH [OF process_key_inv [OF Cons.prems(1) ks(1) k] ks(2) r] o Some eq show ?thesis
      by (simp add: case_prod_beta Let_def emit_actions_append)
  qed
qed simp

lemma noted_session:
  assumes "noted H e" shows "session_inv H e \<lparr>vd_faults = [], vd_log = []\<rparr>"
proof -
  have kb: "device_bits H \<subseteq> key_bits code_usage {c \<in> H. keycode_to_hid_usage c \<noteq> None}"
  proof
    fix i assume i: "i \<in> device_bits H"
    then have i8: "i < 8" and c: "modifier_code i \<in> H" by (simp_all add: device_bits_def)
    then have "code_usage (modifier_code i) = modifier_usages ! i"
      by (simp add: code_usage_def modifier_code_usage)
    moreover have "i \<in> bits_of (usage_mask (modifier_usages ! i))"
      using i8 by (simp add: usage_mask_code modifier_code_def)
    ultimately show "i \<in> key_bits code_usage {c \<in> H. keycode_to_hid_usage c \<noteq> None}"
      using i8 c by (auto simp: key_bits_def modifier_code_usage intro!: bexI [of _ "modifier_code i"])
  qed
  then show ?thesis
    using assms
    by (auto simp: session_inv_def noted_def pressed_codes_def device_ok_def engine_ok_def tracker_ok_def
        masks_ok_def state_ok_def)
qed

lemma initial_actions_inv:
  "session_inv down e vd \<Longrightarrow> session_inv down e (emit_actions (initial_actions e codes) vd)"
proof (induction codes arbitrary: vd)
  case (Cons c codes)
  show ?case
  proof (cases "\<exists>u. keycode_to_hid_usage c = Some u \<and> held_modifier_forwarded u e")
    case False
    with Cons show ?thesis by (auto split: option.split)
  next
    case True
    then obtain u b where u: "keycode_to_hid_usage c = Some u" and b: "hid_usage_to_modifier_bit u = Some b"
      and f: "forwarded_modifiers (tracker e) AND bit_mask b \<noteq> 0" and h: "held_modifier_forwarded u e"
      by (auto simp: held_modifier_forwarded_def split: option.splits)
    have db: "device_bits {c} = {unat b}"
      using known_code_bits [OF u] modifier_bit_bound [OF b] by (simp add: usage_mask_Some [OF b] bits_of_bit_mask)
    have "unat b \<in> bits_of (forwarded_modifiers (tracker e))"
      using f modifier_bit_bound [OF b] by (simp add: mask_test_iff bits_of_iff)
    then have "session_inv down e (forward_key_event c 1 vd)"
      using Cons.prems forward_bits [of vd 1 c] db
      by (auto simp: session_inv_def device_ok_def)
    from Cons.IH [OF this] u h show ?thesis by (simp add: linux_emit_def)
  qed
qed simp

lemma service_inv:
  assumes "session_inv down (md_engine m) vd"
    "key_stream down (fst (scan_events (events_of (take 1 (ed_reads (md_device m)))) (md_scanner m)))"
    "service_device lk m ls vd = (m', ls', vd')"
  shows "session_inv (fold step_keys (fst (scan_events (events_of (take 1 (ed_reads (md_device m)))) (md_scanner m))) down)
      (md_engine m') vd'
    \<and> ed_reads (md_device m') = drop 1 (ed_reads (md_device m))
    \<and> md_scanner m' = snd (scan_events (events_of (take 1 (ed_reads (md_device m)))) (md_scanner m))"
proof -
  define m1 where "m1 = (if md_pending_initial_state m
      then m\<lparr>md_pending_held_modifiers := [], md_pending_initial_state := False\<rparr> else m)"
  define as where "as = (if md_pending_initial_state m then initial_actions (md_engine m) (md_pending_held_modifiers m) else [])"
  obtain bs m2 ls2 where p: "process_device_events lk m1 ls = (bs, m2, ls2)" by (metis prod.collapse)
  have eq: "m' = m2" "vd' = emit_actions bs (emit_actions as vd)"
    using assms(3) p by (auto simp: service_device_def m1_def as_def plan_initial_state_def Let_def emit_actions_append
        split: if_splits)
  have m1: "md_engine m1 = md_engine m" "md_scanner m1 = md_scanner m" "md_device m1 = md_device m"
    by (simp_all add: m1_def)
  have inv: "session_inv down (md_engine m) (emit_actions as vd)"
    using initial_actions_inv [OF assms(1)] assms(1) by (simp add: as_def)
  show ?thesis
  proof (cases "ed_reads (md_device m)")
    case Nil
    then have "bs = []" "m2 = m1" using p m1 by (auto simp: process_device_events_def fetch_events_def Let_def)
    with Nil inv m1 eq show ?thesis by simp
  next
    case (Cons r rs)
    show ?thesis
    proof (cases "\<exists>evs. r = FetchBatch evs")
      case True
      then obtain evs where r: "r = FetchBatch evs" by blast
      obtain cs sc e l where pe: "process_events lk (md_path m1) evs (md_scanner m) (md_engine m) ls = (cs, sc, e, l)"
        by (metis prod.collapse)
      have "bs = cs" "md_engine m2 = e" "md_scanner m2 = sc" "ed_reads (md_device m2) = rs"
        using p pe Cons r m1 by (auto simp: process_device_events_def fetch_events_def Let_def)
      with process_events_inv [OF inv _ pe] assms(2) Cons r eq show ?thesis by simp
    next
      case False
      then have "bs = [] \<and> md_engine m2 = md_engine m \<and> md_scanner m2 = md_scanner m \<and> ed_reads (md_device m2) = rs"
        using p Cons m1 by (cases r) (auto simp: process_device_events_def fetch_events_def Let_def)
      moreover have "events_of (take 1 (ed_reads (md_device m))) = []" using False Cons by (cases r) simp_all
      ultimately show ?thesis using inv eq Cons by simp
    qed
  qed
qed

text \<open>The keys that a managed device's next reads yield.\<close>

definition next_keys :: "nat \<Rightarrow> managed_device \<Rightarrow> captured_key list" where
  "next_keys n m = fst (scan_events (events_of (take n (ed_reads (md_device m)))) (md_scanner m))"

lemma key_stream_append:
  "key_stream down (ks @ ks') \<longleftrightarrow> key_stream down ks \<and> key_stream (fold step_keys ks down) ks'"
  by (induction ks arbitrary: down) simp_all

lemma events_of_append: "events_of (as @ bs) = events_of as @ events_of bs"
  by (simp add: events_of_def)

lemma serve_inv:
  assumes "session_inv down (md_engine m) vd" "key_stream down (next_keys (length lss) m)"
    "serve lk lss m vd = (m', vd')"
  shows "session_inv (fold step_keys (next_keys (length lss) m) down) (md_engine m') vd'"
  using assms
proof (induction lss arbitrary: m vd down)
  case (Cons ls lss)
  obtain m1 l1 vd1 where s: "service_device lk m ls vd = (m1, l1, vd1)" by (metis prod.collapse)
  let ?rs = "ed_reads (md_device m)"
  have "take (length (ls # lss)) ?rs = take 1 ?rs @ take (length lss) (drop 1 ?rs)"
    by (cases ?rs) simp_all
  then have nk: "next_keys (length (ls # lss)) m =
      fst (scan_events (events_of (take 1 ?rs)) (md_scanner m))
      @ fst (scan_events (events_of (take (length lss) (drop 1 ?rs)))
          (snd (scan_events (events_of (take 1 ?rs)) (md_scanner m))))"
    by (simp only: next_keys_def events_of_append scan_events_append) (simp add: case_prod_beta Let_def)
  have ks: "key_stream down (fst (scan_events (events_of (take 1 ?rs)) (md_scanner m)))"
    using Cons.prems(2) by (simp only: nk key_stream_append)
  note si = service_inv [OF Cons.prems(1) ks s]
  then have nk1: "next_keys (length lss) m1 = fst (scan_events (events_of (take (length lss) (drop 1 ?rs)))
      (snd (scan_events (events_of (take 1 ?rs)) (md_scanner m))))"
    by (simp add: next_keys_def)
  have "serve lk lss m1 vd1 = (m', vd')" using Cons.prems(3) s by simp
  from Cons.IH [OF conjunct1 [OF si] _ this] Cons.prems(2) show ?case
    by (simp only: nk nk1 key_stream_append fold_append comp_apply)
qed (simp add: next_keys_def)

text \<open>The keys the engine takes to be held, right after the grab.\<close>

definition noted_keys :: "managed_device \<Rightarrow> u16 set" where
  "noted_keys m = pressed_keys (tracker (md_engine m)) \<union> stale_keys (tracker (md_engine m))"

lemma noted_keys_noted: "noted H (md_engine m) \<Longrightarrow> noted_keys m = H"
  using device_bits_unknown by (auto simp: noted_keys_def noted_def)

lemma window_events_noted: "noted H e \<Longrightarrow> \<exists>H'. noted H' (fst (window_events evs e pending))"
proof (induction evs arbitrary: H e pending)
  case (Cons ev evs)
  show ?case
  proof (cases "position (\<lambda>code. code = ev_code ev) pending")
    case None
    with Cons show ?thesis by auto
  next
    case (Some pos)
    with Cons.IH [OF Cons.prems] Cons.IH [OF noted_remove [OF Cons.prems]] show ?thesis by auto
  qed
qed auto

lemma window_loop_noted: "noted H e \<Longrightarrow> \<exists>H'. noted H' (fst (snd (window_loop hh clock dev e pending)))"
proof (induction clock arbitrary: H dev e pending)
  case (Cons x clock)
  then show ?case
    using window_events_noted [OF Cons.prems]
    by (fastforce simp: Let_def case_prod_beta split: fetch_result.split)
qed auto

lemma capture_noted:
  assumes "md_engine m = engine_new" "capture_held_keys ioctl m = (held, m')"
  shows "noted (set held) (md_engine m')"
proof (cases "read_kernel_key_state ioctl")
  case None
  with assms noted_new show ?thesis by (auto simp: capture_held_keys_def)
next
  case (Some hs)
  with assms noted_note_held_keys [OF noted_new, of hs] show ?thesis
    by (auto simp: capture_held_keys_def Let_def case_prod_beta)
qed

lemma native_window_noted:
  assumes "noted H (md_engine m)"
  shows "\<exists>H'. noted H' (md_engine (native_release_window u g clock held dr m))"
proof (cases "(held = [] \<and> \<not> dr) \<or> \<not> u")
  case True
  with assms show ?thesis by (auto simp: native_release_window_def)
next
  case False
  obtain d1 e p where w: "window_loop (held \<noteq> []) clock ((md_device m)\<lparr>ed_grabbed := False\<rparr>) (md_engine m) held = (d1, e, p)"
    by (metis prod.collapse)
  then have "md_engine (native_release_window u g clock held dr m) = e"
    using False by (auto simp: native_release_window_def Let_def case_prod_beta)
  with window_loop_noted [OF assms, of "held \<noteq> []" clock "(md_device m)\<lparr>ed_grabbed := False\<rparr>" held] w
  show ?thesis by simp
qed

lemma adopt_noted: "\<exists>H. noted H (md_engine (adopt_device ioctl u g clock dev path))"
  unfolding adopt_device_def Let_def case_prod_beta
  by (rule native_window_noted, rule capture_noted [OF _ prod.collapse [symmetric]]) simp

lemma initial_actions_noted:
  assumes "noted H e"
  shows "initial_actions e codes = map (\<lambda>c. Forward c 1) (filter (\<lambda>c. c \<in> H \<and> device_bits {c} \<noteq> {}) codes)"
proof (induction codes)
  case (Cons c codes)
  show ?case
  proof (cases "keycode_to_hid_usage c")
    case None
    then show ?thesis using Cons device_bits_unknown [OF None] by simp
  next
    case (Some u)
    have "held_modifier_forwarded u e \<longleftrightarrow> c \<in> H \<and> device_bits {c} \<noteq> {}"
    proof (cases "hid_usage_to_modifier_bit u")
      case None
      then show ?thesis using known_code_bits [OF Some] by (simp add: held_modifier_forwarded_def)
    next
      case b: (Some b)
      have db: "device_bits {c} = {unat b}"
        using known_code_bits [OF Some] modifier_bit_bound [OF b] by (simp add: usage_mask_Some [OF b] bits_of_bit_mask)
      then have "unat b \<in> device_bits {c}" by simp
      then have "c = modifier_code (unat b)" by (simp add: device_bits_def)
      moreover have "unat b \<in> device_bits H \<longleftrightarrow> modifier_code (unat b) \<in> H"
        using modifier_bit_bound [OF b] by (simp add: device_bits_def)
      moreover have "held_modifier_forwarded u e \<longleftrightarrow> unat b \<in> bits_of (forwarded_modifiers (tracker e))"
        by (simp add: held_modifier_forwarded_def b mask_test_iff [OF modifier_bit_bound [OF b]] bits_of_iff)
      moreover have "bits_of (forwarded_modifiers (tracker e)) = device_bits H"
        using assms by (simp add: noted_def)
      ultimately show ?thesis
        using db by (metis insert_not_empty)
    qed
    with Some Cons show ?thesis by simp
  qed
qed simp

section \<open>Properties\<close>

text \<open>
  The key bitmap is decoded exactly: for a bitmap whose codes fit 16 bits, the held keys are
  the positions of its set bits below the key count, each once, in ascending order.
\<close>
theorem key_bitmap_decoded:
  assumes "8 * length buf \<le> 65536" "key_cnt < 65536"
  shows "parse_key_bitmap buf key_cnt =
    map of_nat (filter (\<lambda>n. n < key_cnt \<and> bit (buf ! (n div 8)) (n mod 8)) [0..<8 * length buf])"
  using parse_key_bitmap_codes [OF assms] unfolding bitmap_codes_def .

lemma key_bitmap_decoded_witness: "parse_key_bitmap [4, 0x21] 13 = [2, 8]"
  by (subst key_bitmap_decoded) (simp_all add: upt_rec bit_1_iff)

text \<open>
  The native release window forgets exactly the released keys: after the window, the keys
  still pending are the held keys for which no key-up was read; the engine is the one that was
  told of just these keys; and the modifiers re-emitted on the virtual keyboard are those still
  pending, in order.
\<close>
theorem release_window_forgets_released_keys:
  assumes "distinct held" "note_held_keys held engine_new = (modifiers, e)"
    and "window_loop has_held clock dev e held = (dev', e', pending)"
  shows "\<exists>n. ed_reads dev' = drop n (ed_reads dev)
    \<and> set pending = set held - up_codes (events_of (take n (ed_reads dev)))
    \<and> e' = snd (note_held_keys pending engine_new)
    \<and> initial_actions e' modifiers = map (\<lambda>c. Forward c 1) (filter (\<lambda>c. c \<in> set pending) modifiers)"
proof -
  have "noted (set held) e" using noted_note_held_keys [OF noted_new, of held] assms(2) by simp
  from window_loop_spec [OF assms(1) this assms(3)] obtain n where n: "ed_reads dev' = drop n (ed_reads dev)"
    "set pending = set held - up_codes (events_of (take n (ed_reads dev)))" "noted (set pending) e'" by auto
  have "e' = snd (note_held_keys pending engine_new)"
    using noted_unique [OF n(3)] noted_note_held_keys [OF noted_new, of pending] by simp
  moreover have "filter (\<lambda>c. c \<in> set pending \<and> device_bits {c} \<noteq> {}) modifiers = filter (\<lambda>c. c \<in> set pending) modifiers"
    using note_held_keys_modifiers [of held engine_new] assms(2) by (auto intro: filter_cong)
  ultimately show ?thesis using n initial_actions_noted [OF n(3), of modifiers] by auto
qed

lemma known_42_29: "keycode_to_hid_usage 29 = Some LeftControl" "keycode_to_hid_usage 42 = Some LeftShift"
  by (simp_all add: keycode_to_hid_usage_iff hid_usage_to_keycode_Some kc_as_native_def keycode_table_def)

lemma release_window_forgets_released_keys_witness:
  "\<exists>n. set [42] = set [29, 42] - up_codes (events_of (take n [FetchBatch [input_event_new EV_KEY 29 0]]))"
proof -
  obtain ms e where n: "note_held_keys [29, 42] engine_new = (ms, e)" by fastforce
  let ?dev = "\<lparr>ed_reads = [FetchBatch [input_event_new EV_KEY 29 0]], ed_grabbed = False\<rparr>"
  have w: "window_loop True [False, True] ?dev e [29, 42] =
      (\<lparr>ed_reads = [], ed_grabbed = False\<rparr>, unnote_natively_released 29 e, [42])"
    by (simp add: fetch_events_def input_event_new_def swap_remove_def Let_def)
  from release_window_forgets_released_keys [OF _ n w] show ?thesis by auto
qed

text \<open>
  Nothing stays pressed on the virtual keyboard: a device is adopted, whatever keys are held
  at that moment and however the window for their release goes; the modifiers still held are
  re-emitted; then the device is served any number of times, with the rules and the focus changing
  in between, and every write succeeds. Once all the keys the engine was told of and all the keys
  pressed since have come up, no key at all is pressed on the virtual keyboard, and the engine is
  in its initial state.
\<close>
theorem nothing_left_pressed:
  assumes "m = adopt_device ioctl ungrab_ok grab_ok clock dev path"
    and "sync_initial_state m \<lparr>vd_faults = [], vd_log = []\<rparr> = (m1, vd1)"
    and "serve lk lss m1 vd1 = (m2, vd2)"
    and "key_stream (noted_keys m) (next_keys (length lss) m)"
    and "fold step_keys (next_keys (length lss) m) (noted_keys m) = {}"
  shows "pressed_codes vd2 = {} \<and> md_engine m2 = engine_new"
proof -
  obtain H where H: "noted H (md_engine m)" using adopt_noted assms(1) by metis
  have m1: "md_engine m1 = md_engine m" "next_keys n m1 = next_keys n m"
    and vd1: "vd1 = emit_actions (initial_actions (md_engine m) (md_pending_held_modifiers m)) \<lparr>vd_faults = [], vd_log = []\<rparr>" for n
    using assms(2) by (auto simp: sync_initial_state_def plan_initial_state_def next_keys_def)
  have "session_inv (noted_keys m) (md_engine m1) vd1"
    unfolding noted_keys_noted [OF H] m1 vd1 by (rule initial_actions_inv [OF noted_session [OF H]])
  from serve_inv [OF this _ assms(3)] assms(4,5) m1 have inv: "session_inv {} (md_engine m2) vd2" by simp
  then show ?thesis by (rule session_all_up)
qed

text \<open>Left Control is held when the keyboard is grabbed, and comes up later.\<close>

definition held_control_device :: evdev_device where
  "held_control_device =
     \<lparr>ed_reads = [FetchWouldBlock, FetchWouldBlock, FetchBatch [input_event_new EV_KEY 29 0]], ed_grabbed = False\<rparr>"

abbreviation held_control_adopted :: managed_device where
  "held_control_adopted \<equiv> adopt_device (\<lambda>_ _. Some [0, 0, 0, 32]) True True [True] held_control_device ''ev0''"

lemma held_control_keys: "parse_key_bitmap [0, 0, 0, 32] KEY_CNT = [29]"
  by (subst parse_key_bitmap_codes) (simp_all add: bitmap_codes_def KEY_CNT_def upt_rec)

lemma held_control_managed:
  "held_control_adopted =
     \<lparr>md_device = \<lparr>ed_reads = [FetchBatch [input_event_new EV_KEY 29 0]], ed_grabbed = True\<rparr>,
      md_path = ''ev0'', md_engine = note_held_key 29 LeftControl engine_new, md_scanner = scanner_new,
      md_pending_initial_state = False, md_pending_held_modifiers = [29]\<rparr>"
  by (simp add: adopt_device_def held_control_device_def drain_pending_events_def capture_held_keys_def
      read_kernel_key_state_def held_control_keys known_42_29 native_release_window_def)

lemma held_control_initial:
  "initial_actions (note_held_key 29 LeftControl engine_new) [29] = [Forward 29 1]"
proof -
  have "noted {29} (note_held_key 29 LeftControl engine_new)"
    using noted_insert [OF noted_new known_42_29(1)] by simp
  then have i: "initial_actions (note_held_key 29 LeftControl engine_new) [29]
      = map (\<lambda>c. Forward c 1) (filter (\<lambda>c. c \<in> {29} \<and> device_bits {c} \<noteq> {}) [29])"
    by (rule initial_actions_noted)
  have "device_bits {29} \<noteq> {}"
    using known_code_bits [OF known_42_29(1)] usage_mask_empty [of LeftControl] by simp
  then show ?thesis unfolding i by simp
qed

lemma held_control_next:
  "next_keys 1 held_control_adopted = [\<lparr>ck_native = 29, ck_value = 0, ck_usage = Some LeftControl\<rparr>]"
  by (simp add: next_keys_def held_control_managed on_event_def input_event_new_def scanner_new_def EV_KEY_def
        EV_MISC_def known_42_29)

lemma held_control_noted:
  "noted_keys held_control_adopted = {29}"
  by (simp add: noted_keys_def held_control_managed note_held_key_def Let_def record_forwarded_down_def
        engine_new_def tracker_default_def)

lemma held_control_identity: "identity_bits (Some LeftControl) = device_bits {29}"
  by (simp add: identity_bits_def known_code_bits [OF known_42_29(1)])

lemma nothing_left_pressed_witness:
  "pressed_codes (snd (serve (test_lookup_ops id) [tl_from_config id (ac_visit_seq [])]
      (fst (sync_initial_state held_control_adopted \<lparr>vd_faults = [], vd_log = []\<rparr>))
      (snd (sync_initial_state held_control_adopted \<lparr>vd_faults = [], vd_log = []\<rparr>)))) = {}"
proof -
  show ?thesis
    by (rule nothing_left_pressed [OF refl prod.collapse [symmetric] prod.collapse [symmetric], THEN conjunct1])
      (simp_all add: held_control_next [unfolded One_nat_def] held_control_noted held_control_identity key_possible_def step_keys_def known_42_29)
qed

text \<open>
  A key-up that arrives after the window's last read is drained before the device is grabbed
  again, and the engine is not told: the modifier's key-down is then re-emitted although the key
  is up.
\<close>

lemma drained_release_is_lost:
  defines "dev \<equiv> \<lparr>ed_reads = [FetchWouldBlock, FetchBatch [input_event_new EV_KEY 29 0]], ed_grabbed = False\<rparr>"
  defines "m \<equiv> adopt_device (\<lambda>_ _. Some [0, 0, 0, 32]) True True [True] dev ''ev0''"
  shows "ed_reads (md_device m) = [] \<and> fst (plan_initial_state m) = [Forward 29 1]"
proof -
  have m: "m = \<lparr>md_device = \<lparr>ed_reads = [], ed_grabbed = True\<rparr>,
      md_path = ''ev0'', md_engine = note_held_key 29 LeftControl engine_new, md_scanner = scanner_new,
      md_pending_initial_state = False, md_pending_held_modifiers = [29]\<rparr>"
    by (simp add: m_def dev_def adopt_device_def drain_pending_events_def capture_held_keys_def
        read_kernel_key_state_def held_control_keys known_42_29 native_release_window_def input_event_new_def)
  show ?thesis by (simp add: m plan_initial_state_def held_control_initial del: initial_actions.simps)
qed

section \<open>A scan code that names another key\<close>

text \<open>
  A keyboard whose scan code identifies a key as a modifier that its key code is not, Caps Lock as Left Control
  say: the release of the modifier, consumed by a mapping, is swallowed, but the device was sent the key code, which
  stays pressed.
\<close>

definition remapped_keys :: "captured_key list" where
  "remapped_keys =
    [\<lparr>ck_native = 58, ck_value = 1, ck_usage = Some LeftControl\<rparr>, \<lparr>ck_native = 59, ck_value = 1, ck_usage = Some F1\<rparr>,
     \<lparr>ck_native = 59, ck_value = 0, ck_usage = Some F1\<rparr>, \<lparr>ck_native = 58, ck_value = 0, ck_usage = Some LeftControl\<rparr>]"

fun process_keys :: "'s lookup \<Rightarrow> 's \<Rightarrow> captured_key list \<Rightarrow> u16 engine \<Rightarrow> device_action list \<times> u16 engine" where
  "process_keys lk ls [] e = ([], e)"
| "process_keys lk ls (k # ks) e =
     (let (as, e1, _) = process_key lk ''ev0'' k e ls; (bs, e2) = process_keys lk ls ks e1 in (as @ bs, e2))"

lemma remapped_modifier_actions:
  "process_keys (test_lookup_ops id) (tl_from_config id ctrl_config) remapped_keys engine_new
     = ([Forward 58 1, OutReleaseConsumed 1, OutTap \<lparr>nk_modifiers = 0, nk_usage = Escape\<rparr>], engine_new)"
  by (simp add: remapped_keys_def process_key_def decide_def decide_down_fresh engine_new_def tracker_default_def ctrl_resolve
      decide_unmapped_eq mark_down_def usage_mask_def left_control_expansion bit_mask_def decide_mapped_def
      consume_triggered_def output_held_mask_def Let_def plan_of_def decide_up_def release_def
      queue_plan_actions_def linux_consumed_release_def im_get_def output_action_def)

lemma remapped_modifier_sticks:
  "58 \<in> pressed_codes (emit_actions
      (fst (process_keys (test_lookup_ops id) (tl_from_config id ctrl_config) remapped_keys engine_new))
      \<lparr>vd_faults = [], vd_log = []\<rparr>)"
proof -
  let ?d = "emit_actions [Forward 58 1, OutReleaseConsumed 1] \<lparr>vd_faults = [], vd_log = []\<rparr>"
  have d: "vd_faults ?d = []" "pressed_codes ?d = {58} - mask_codes 1"
    using release_consumed_ok [of "forward_key_event 58 1 \<lparr>vd_faults = [], vd_log = []\<rparr>" 1]
      forward_ok [of "\<lparr>vd_faults = [], vd_log = []\<rparr>" 58 1]
    by (simp_all add: linux_emit_def pressed_codes_def)
  obtain d' where d': "emit_key_event \<lparr>nk_modifiers = 0, nk_usage = Escape\<rparr> ?d = (Inr (), d')"
      "pressed_codes d' = pressed_codes ?d - {kc_as_native Escape} - mask_codes 0"
    using tap_ok [OF d(1), of "\<lparr>nk_modifiers = 0, nk_usage = Escape\<rparr>"] by (metis native_key.simps)
  have u: "keycode_to_hid_usage 58 = Some CapsLock" "58 \<noteq> kc_as_native Escape"
    by (simp_all add: keycode_to_hid_usage_iff hid_usage_to_keycode_Some kc_as_native_def keycode_table_def)
  then have "58 \<notin> mask_codes 1" "58 \<notin> mask_codes 0" "58 \<noteq> kc_as_native Escape"
    using is_modifier_code [of 58] by (auto simp: mask_codes_def dest: bits_of_bound)
  with d d' show ?thesis
    by (simp add: remapped_modifier_actions linux_emit_def)
qed

end
