(* ===== verification/Linux_Hotplug.thy ===== *)
theory Linux_Hotplug
  imports Linux_Device
begin

text \<open>
  \<open>src/platform/linux/keyboard.rs\<close>, \<open>mapping/hotplug.rs\<close>, \<open>mapping/epoll.rs\<close> and the start of
  \<open>mapping/mod.rs\<close>: the keyboards udev shows, which of them are grabbed, the table of grabbed devices
  with the set of descriptors that epoll watches, and the monitor that keeps the table up to date.
  What a device answers when it is opened, grabbed and set up is a record.
\<close>

section \<open>Keyboards (keyboard.rs)\<close>

text \<open>An open device: its descriptor, its events, and how the calls made to adopt it go.\<close>

record opened_device =
  od_fd :: nat
  od_evdev :: evdev_device
  od_name :: "string option"
  od_absolute :: bool
  od_grab_ok :: bool
  od_nonblocking_ok :: bool
  od_ioctl :: "64 word \<Rightarrow> bytes \<Rightarrow> bytes option"
  od_ungrab_ok :: bool
  od_regrab_ok :: bool
  od_clock :: "bool list"

text \<open>A udev device: its node, its properties, and what opening the node gives.\<close>

record udev_device =
  ud_devnode :: "string option"
  ud_property :: "string \<Rightarrow> string option"
  ud_open :: "opened_device option"

definition unknown_text :: string where "unknown_text = ''<unknown>''"

definition keyboard_model :: "udev_device \<Rightarrow> string" where
  "keyboard_model ud =
     (case ud_property ud ''ID_MODEL'' of
        Some s \<Rightarrow> s
      | None \<Rightarrow>
          (case (ud_property ud ''ID_VENDOR_ID'', ud_property ud ''ID_MODEL_ID'') of
             (Some v, Some p) \<Rightarrow> v @ '':'' @ p
           | _ \<Rightarrow> unknown_text))"

definition port_name :: "string \<Rightarrow> string" where
  "port_name bus =
     (if bus = ''usb'' then ''USB'' else if bus = ''bluetooth'' then ''Bluetooth''
      else if bus = ''virtual'' then ''Virtual'' else bus)"

definition build_keyboard_from_udev :: "udev_device \<Rightarrow> (keyboard_info \<times> opened_device) option" where
  "build_keyboard_from_udev ud =
     (case ud_devnode ud of
        None \<Rightarrow> None
      | Some devnode \<Rightarrow>
          (case ud_open ud of
             None \<Rightarrow> None
           | Some od \<Rightarrow>
               if od_absolute od then None
               else Some
                 (\<lparr>ki_name = (case ud_property ud ''ID_PRODUCT_NAME'' of Some s \<Rightarrow> s
                     | None \<Rightarrow> (case od_name od of Some s \<Rightarrow> s | None \<Rightarrow> unknown_text)),
                   ki_vendor = (case ud_property ud ''ID_VENDOR'' of Some s \<Rightarrow> s | None \<Rightarrow> unknown_text),
                   ki_model = keyboard_model ud,
                   ki_device = devnode,
                   ki_port = map_option port_name (ud_property ud ''ID_BUS'')\<rparr>, od)))"

text \<open>The enumeration; \<open>scan\<close> is the error of udev, or the devices it lists as keyboards.\<close>

definition enumerate_keyboards :: "'e + udev_device list \<Rightarrow> 'e + (keyboard_info \<times> opened_device) list" where
  "enumerate_keyboards scan =
     (case scan of Inl e \<Rightarrow> Inl e | Inr uds \<Rightarrow> Inr (List.map_filter build_keyboard_from_udev uds))"

definition list_keyboards :: "'e + udev_device list \<Rightarrow> 'e + keyboard_info list" where
  "list_keyboards scan = (case enumerate_keyboards scan of Inl e \<Rightarrow> Inl e | Inr kbs \<Rightarrow> Inr (map fst kbs))"

text \<open>\<open>OWN_DEVICE_PATH\<close> is a parameter: it is set once, when the virtual keyboard has been created.\<close>

definition is_own_output_device :: "string option \<Rightarrow> string \<Rightarrow> bool" where
  "is_own_output_device own devnode = (case own of Some p \<Rightarrow> p = devnode | None \<Rightarrow> False)"

section \<open>The table of devices\<close>

text \<open>
  An entry: the descriptor and the managed device. The code keeps no more; the last three fields are
  history, for the statements: the keyboard, the device as it was adopted, and how often it has been
  served. The descriptors epoll watches are those added and not closed since; \<open>dt_removed\<close> is history,
  the entries dropped.
\<close>

record slot =
  sl_fd :: nat
  sl_device :: managed_device
  sl_info :: keyboard_info
  sl_adopted :: managed_device
  sl_served :: nat

record device_table =
  dt_managed :: "slot list"
  dt_epoll :: "nat list"
  dt_removed :: "slot list"

definition slot_path :: "slot \<Rightarrow> string" where "slot_path sl = md_path (sl_device sl)"

text \<open>
  The device adopted, at the start and by the monitor (\<open>pending\<close>: whether its held modifiers wait for its
  first event); \<open>None\<close> if it cannot be grabbed or set to non-blocking.
\<close>

definition adopt_opened :: "bool \<Rightarrow> keyboard_info \<Rightarrow> opened_device \<Rightarrow> slot option" where
  "adopt_opened pending kb od =
     (if \<not> od_grab_ok od \<or> \<not> od_nonblocking_ok od then None
      else
        (let m = (adopt_device (od_ioctl od) (od_ungrab_ok od) (od_regrab_ok od) (od_clock od) (od_evdev od)
                    (ki_device kb))\<lparr>md_pending_initial_state := pending\<rparr>
         in Some \<lparr>sl_fd = od_fd od, sl_device = m, sl_info = kb, sl_adopted = m, sl_served = 0\<rparr>))"

section \<open>Hot-plug (hotplug.rs)\<close>

text \<open>
  \<open>handle_device_add\<close> takes the lock of the table three times: to see whether the device is managed
  already, to push it, and, if epoll does not take its descriptor, to remove it again.
\<close>

definition add_check ::
  "string option \<Rightarrow> keyboard_specifier list option \<Rightarrow> udev_device \<Rightarrow> device_table \<Rightarrow> slot option" where
  "add_check own flt ud dt =
     (case build_keyboard_from_udev ud of
        None \<Rightarrow> None
      | Some (kb, od) \<Rightarrow>
          if is_own_output_device own (ki_device kb) then None
          else if filter_keyboards_by_specifiers [kb] flt = [] then None
          else if list_ex (\<lambda>sl. slot_path sl = ki_device kb) (dt_managed dt) then None
          else adopt_opened True kb od)"

definition add_push :: "slot \<Rightarrow> device_table \<Rightarrow> device_table" where
  "add_push sl dt = dt\<lparr>dt_managed := dt_managed dt @ [sl]\<rparr>"

text \<open>The entry of a path is dropped, which closes its descriptor; epoll forgets a closed descriptor.\<close>

definition drop_path :: "string \<Rightarrow> device_table \<Rightarrow> device_table" where
  "drop_path path dt =
     (case position (\<lambda>sl. slot_path sl = path) (dt_managed dt) of
        None \<Rightarrow> dt
      | Some i \<Rightarrow>
          (let sl = dt_managed dt ! i
           in \<lparr>dt_managed = take i (dt_managed dt) @ drop (Suc i) (dt_managed dt),
               dt_epoll = filter (\<lambda>fd. fd \<noteq> sl_fd sl) (dt_epoll dt),
               dt_removed = sl # dt_removed dt\<rparr>))"

definition add_register :: "bool \<Rightarrow> nat \<Rightarrow> string \<Rightarrow> device_table \<Rightarrow> device_table" where
  "add_register epoll_ok fd path dt =
     (if epoll_ok then dt\<lparr>dt_epoll := fd # dt_epoll dt\<rparr> else drop_path path dt)"

definition handle_device_add ::
  "string option \<Rightarrow> keyboard_specifier list option \<Rightarrow> bool \<Rightarrow> udev_device \<Rightarrow> device_table \<Rightarrow> device_table" where
  "handle_device_add own flt epoll_ok ud dt =
     (case add_check own flt ud dt of
        None \<Rightarrow> dt
      | Some sl \<Rightarrow> add_register epoll_ok (sl_fd sl) (slot_path sl) (add_push sl dt))"

text \<open>The descriptor is closed before \<open>epoll_del\<close>, which therefore changes nothing.\<close>

definition handle_device_remove :: "udev_device \<Rightarrow> device_table \<Rightarrow> device_table" where
  "handle_device_remove ud dt = (case ud_devnode ud of None \<Rightarrow> dt | Some path \<Rightarrow> drop_path path dt)"

text \<open>\<open>scan\<close> is \<open>None\<close> where one of the calls that set up and run the enumerator fails.\<close>

definition resync_devices ::
  "string option \<Rightarrow> keyboard_specifier list option \<Rightarrow> (udev_device \<times> bool) list option \<Rightarrow> device_table \<Rightarrow> device_table" where
  "resync_devices own flt scan dt =
     (case scan of
        None \<Rightarrow> dt
      | Some uds \<Rightarrow> fold (\<lambda>(ud, epoll_ok). handle_device_add own flt epoll_ok ud) uds dt)"

text \<open>
  What a round of the monitor's loop meets: how \<open>poll\<close> ends, and the event with whether epoll takes the
  descriptor of a device added. A script that ends otherwise than by a failure stands for a loop that
  waits for its next event.
\<close>

datatype event_type = EvAdd | EvRemove | EvOther

datatype monitor_event =
    PollInterrupted
  | PollFailed
  | PollClosed
  | PollNoEvent
  | PollEvent event_type udev_device bool

fun monitor_loop ::
  "string option \<Rightarrow> keyboard_specifier list option \<Rightarrow> monitor_event list \<Rightarrow> device_table \<Rightarrow> device_table" where
  "monitor_loop own flt [] dt = dt"
| "monitor_loop own flt (ev # evs) dt =
     (case ev of
        PollInterrupted \<Rightarrow> monitor_loop own flt evs dt
      | PollFailed \<Rightarrow> dt
      | PollClosed \<Rightarrow> dt
      | PollNoEvent \<Rightarrow> monitor_loop own flt evs dt
      | PollEvent ty ud epoll_ok \<Rightarrow>
          if ud_property ud ''ID_INPUT_KEYBOARD'' \<noteq> Some ''1'' then monitor_loop own flt evs dt
          else
            (case ty of
               EvAdd \<Rightarrow> monitor_loop own flt evs (handle_device_add own flt epoll_ok ud dt)
             | EvRemove \<Rightarrow> monitor_loop own flt evs (handle_device_remove ud dt)
             | EvOther \<Rightarrow> monitor_loop own flt evs dt))"

record monitor_script =
  ms_built :: bool
  ms_matched :: bool
  ms_listening :: bool
  ms_scan :: "(udev_device \<times> bool) list option"
  ms_events :: "monitor_event list"

definition run_hotplug_monitor ::
  "string option \<Rightarrow> keyboard_specifier list option \<Rightarrow> monitor_script \<Rightarrow> device_table \<Rightarrow> device_table" where
  "run_hotplug_monitor own flt ms dt =
     (if \<not> ms_built ms \<or> \<not> ms_matched ms \<or> \<not> ms_listening ms then dt
      else monitor_loop own flt (ms_events ms) (resync_devices own flt (ms_scan ms) dt))"

section \<open>The supervisor\<close>

text \<open>Milliseconds.\<close>

definition RESTART_DELAY_MIN :: nat where "RESTART_DELAY_MIN = 1000"
definition RESTART_DELAY_MAX :: nat where "RESTART_DELAY_MAX = 30000"
definition HEALTHY_RUN :: nat where "HEALTHY_RUN = 60000"
definition SHUTDOWN_CHECK_INTERVAL :: nat where "SHUTDOWN_CHECK_INTERVAL = 100"

definition next_restart_delay :: "nat \<Rightarrow> bool \<Rightarrow> nat" where
  "next_restart_delay current run_was_healthy =
     (if run_was_healthy then RESTART_DELAY_MIN else min (current * 2) RESTART_DELAY_MAX)"

text \<open>
  The sleep, with the shutdown flag at each test (set, once the list is used up) and with sleeps that
  take as long as asked; it ends at the first test at or after the deadline. The result is the time
  slept.
\<close>

fun sleep_or_shutdown :: "bool list \<Rightarrow> nat \<Rightarrow> nat \<Rightarrow> nat" where
  "sleep_or_shutdown flags delay slept =
     (if slept < delay \<and> flags \<noteq> [] \<and> \<not> hd flags
      then sleep_or_shutdown (tl flags) delay (slept + SHUTDOWN_CHECK_INTERVAL)
      else slept)"

declare sleep_or_shutdown.simps [simp del]

text \<open>
  A round: the flag before it, the monitor's run and how long it takes, the flag after it, and during
  the sleep. \<open>elapsed\<close> is read after the sleep. The result has the delays waited for.
\<close>

record supervisor_round =
  sr_shutdown_before :: bool
  sr_script :: monitor_script
  sr_run :: nat
  sr_shutdown_after :: bool
  sr_sleep :: "bool list"

fun supervise_hotplug ::
  "string option \<Rightarrow> keyboard_specifier list option \<Rightarrow> supervisor_round list \<Rightarrow> nat \<Rightarrow> device_table
    \<Rightarrow> nat list \<times> device_table" where
  "supervise_hotplug own flt [] delay dt = ([], dt)"
| "supervise_hotplug own flt (r # rs) delay dt =
     (if sr_shutdown_before r then ([], dt)
      else
        (let dt1 = run_hotplug_monitor own flt (sr_script r) dt
         in if sr_shutdown_after r then ([], dt1)
            else
              (let slept = sleep_or_shutdown (sr_sleep r) delay 0;
                   healthy = (sr_run r + slept \<ge> HEALTHY_RUN);
                   (delays, dt2) = supervise_hotplug own flt rs (next_restart_delay delay healthy) dt1
               in (delay # delays, dt2))))"

definition start_hotplug_monitor ::
  "bool \<Rightarrow> string option \<Rightarrow> keyboard_specifier list option \<Rightarrow> supervisor_round list \<Rightarrow> device_table
    \<Rightarrow> (nat list \<times> device_table) option" where
  "start_hotplug_monitor spawned own flt rs dt =
     (if spawned then Some (supervise_hotplug own flt rs RESTART_DELAY_MIN dt) else None)"

section \<open>Lemmas\<close>

lemma drop_path_cases:
  obtains "path \<notin> slot_path ` set (dt_managed dt)" "drop_path path dt = dt"
  | xs sl ys where "dt_managed dt = xs @ sl # ys" "slot_path sl = path" "path \<notin> slot_path ` set xs"
      "drop_path path dt = \<lparr>dt_managed = xs @ ys, dt_epoll = filter (\<lambda>fd. fd \<noteq> sl_fd sl) (dt_epoll dt),
        dt_removed = sl # dt_removed dt\<rparr>"
proof (cases "position (\<lambda>sl. slot_path sl = path) (dt_managed dt)")
  case None
  then have "path \<notin> slot_path ` set (dt_managed dt)" by (auto simp: position_None)
  with None show ?thesis using that(1) by (simp add: drop_path_def)
next
  case (Some i)
  let ?m = "dt_managed dt"
  have i: "i < length ?m" "slot_path (?m ! i) = path" "\<forall>j < i. slot_path (?m ! j) \<noteq> path"
    using position_Some [OF Some] position_first [OF Some] by auto
  have "path \<notin> slot_path ` set (take i ?m)" using i(1,3) by (fastforce simp: in_set_conv_nth)
  moreover have "?m = take i ?m @ ?m ! i # drop (Suc i) ?m" using i(1) by (rule id_take_nth_drop)
  moreover have "drop_path path dt = \<lparr>dt_managed = take i ?m @ drop (Suc i) ?m,
      dt_epoll = filter (\<lambda>fd. fd \<noteq> sl_fd (?m ! i)) (dt_epoll dt), dt_removed = ?m ! i # dt_removed dt\<rparr>"
    using Some by (simp add: drop_path_def Let_def)
  ultimately show ?thesis using i(2) that(2) by blast
qed

lemma adopt_path: "adopt_opened pending kb od = Some sl \<Longrightarrow> slot_path sl = ki_device kb"
proof -
  have c: "md_path (snd (capture_held_keys ioctl m)) = md_path m" for ioctl m
    by (simp add: capture_held_keys_def case_prod_beta Let_def split: option.split)
  have w: "md_path (native_release_window u g clock held d m) = md_path m" for u g clock held d m
    by (simp add: native_release_window_def case_prod_beta Let_def)
  assume "adopt_opened pending kb od = Some sl"
  then show ?thesis
    by (auto simp: adopt_opened_def adopt_device_def slot_path_def c w Let_def case_prod_beta split: if_splits)
qed

text \<open>The entries of a path that is not the one dropped or added.\<close>

definition entries :: "string \<Rightarrow> device_table \<Rightarrow> slot list" where
  "entries path dt = filter (\<lambda>sl. slot_path sl = path) (dt_managed dt)"

lemma entries_drop_other: "path \<noteq> p \<Longrightarrow> entries p (drop_path path dt) = entries p dt"
  by (rule drop_path_cases [of path dt]) (auto simp: entries_def)

lemma entries_empty: "entries p dt = [] \<longleftrightarrow> p \<notin> slot_path ` set (dt_managed dt)"
  by (auto simp: entries_def filter_empty_conv)

lemma add_check_path:
  assumes "add_check own flt ud dt = Some sl" shows "slot_path sl \<notin> slot_path ` set (dt_managed dt)"
proof -
  obtain kb od where "\<not> list_ex (\<lambda>sl. slot_path sl = ki_device kb) (dt_managed dt)" "adopt_opened True kb od = Some sl"
    using assms by (auto simp: add_check_def split: option.splits if_splits)
  with adopt_path [of True kb od sl] show ?thesis by (auto simp: list_ex_iff)
qed

lemma entries_add:
  assumes "entries p dt \<noteq> []" shows "entries p (handle_device_add own flt epoll_ok ud dt) = entries p dt"
proof (cases "add_check own flt ud dt")
  case (Some sl)
  have "slot_path sl \<noteq> p" using add_check_path [OF Some] assms by (auto simp: entries_empty)
  with Some show ?thesis
    using entries_drop_other [of "slot_path sl" p "add_push sl dt"]
    by (simp add: handle_device_add_def add_register_def) (simp add: entries_def add_push_def)
qed (simp add: handle_device_add_def)

lemma entries_resync: "entries p dt \<noteq> [] \<Longrightarrow> entries p (resync_devices own flt scan dt) = entries p dt"
proof (cases scan)
  case (Some uds)
  have "entries p dt \<noteq> [] \<Longrightarrow> entries p (fold (\<lambda>(ud, ok). handle_device_add own flt ok ud) uds dt) = entries p dt"
    by (induction uds arbitrary: dt) (auto simp: entries_add)
  then show "entries p dt \<noteq> [] \<Longrightarrow> ?thesis" using Some by (simp add: resync_devices_def)
qed (simp add: resync_devices_def)

definition removes :: "string \<Rightarrow> monitor_event \<Rightarrow> bool" where
  "removes p ev = (case ev of PollEvent EvRemove ud _ \<Rightarrow> ud_devnode ud = Some p | _ \<Rightarrow> False)"

lemma entries_monitor:
  "entries p dt \<noteq> [] \<Longrightarrow> \<forall>ev \<in> set evs. \<not> removes p ev \<Longrightarrow> entries p (monitor_loop own flt evs dt) = entries p dt"
proof (induction own flt evs dt rule: monitor_loop.induct)
  case (2 own flt ev evs dt)
  have "entries p (handle_device_remove ud dt) = entries p dt" if "ev = PollEvent EvRemove ud ok" for ud ok
    using 2(8) that entries_drop_other [of _ p dt]
    by (auto simp: handle_device_remove_def removes_def split: option.split)
  with 2 show ?case
    by (simp add: entries_add split: monitor_event.split event_type.split)
qed simp

text \<open>
  What a scanned device is adopted as, at a node that the table has no entry for: \<open>None\<close> if it is another node or it
  is not adopted.
\<close>

definition adoptable ::
  "string option \<Rightarrow> keyboard_specifier list option \<Rightarrow> string \<Rightarrow> udev_device \<times> bool \<Rightarrow> slot option" where
  "adoptable own flt p = (\<lambda>(ud, epoll_ok).
     if ud_devnode ud = Some p \<and> own \<noteq> Some p \<and> epoll_ok
     then (case build_keyboard_from_udev ud of
             Some (kb, od) \<Rightarrow> if filter_keyboards_by_specifiers [kb] flt \<noteq> [] then adopt_opened True kb od else None
           | None \<Rightarrow> None)
     else None)"

definition concerns :: "string \<Rightarrow> monitor_event \<Rightarrow> bool" where
  "concerns p ev = (case ev of PollEvent ty ud _ \<Rightarrow> ud_devnode ud = Some p | _ \<Rightarrow> False)"

lemma build_device: "build_keyboard_from_udev ud = Some (kb, od) \<Longrightarrow> ud_devnode ud = Some (ki_device kb)"
  by (auto simp: build_keyboard_from_udev_def split: option.splits if_splits)

lemma drop_added:
  assumes "entries p dt = []" "slot_path sl = p" shows "entries p (drop_path p (add_push sl dt)) = []"
proof (rule drop_path_cases [of p "add_push sl dt"])
  fix xs sl' ys
  assume d: "dt_managed (add_push sl dt) = xs @ sl' # ys" "slot_path sl' = p" "p \<notin> slot_path ` set xs"
    "drop_path p (add_push sl dt) = \<lparr>dt_managed = xs @ ys, dt_epoll = filter (\<lambda>fd. fd \<noteq> sl_fd sl') (dt_epoll (add_push sl dt)),
        dt_removed = sl' # dt_removed (add_push sl dt)\<rparr>"
  have "length (entries p (add_push sl dt)) = 1" using assms by (simp add: entries_def add_push_def)
  then show ?thesis using d(2) by (simp add: entries_def d(1,4))
qed (use assms in \<open>auto simp: add_push_def\<close>)

lemma entries_add_new:
  assumes "entries p dt = []"
  shows "entries p (handle_device_add own flt epoll_ok ud dt) =
    (case adoptable own flt p (ud, epoll_ok) of Some sl \<Rightarrow> [sl] | None \<Rightarrow> [])"
proof (cases "build_keyboard_from_udev ud")
  case None
  then show ?thesis using assms by (simp add: handle_device_add_def add_check_def adoptable_def)
next
  case (Some k)
  obtain kb od where k: "k = (kb, od)" by force
  note dev = build_device [OF Some [unfolded k]]
  show ?thesis
  proof (cases "ki_device kb = p")
    case True
    have fresh: "\<not> list_ex (\<lambda>sl. slot_path sl = ki_device kb) (dt_managed dt)"
      using assms True by (auto simp: entries_def filter_empty_conv list_ex_iff)
    have check: "add_check own flt ud dt =
        (if own = Some p \<or> filter_keyboards_by_specifiers [kb] flt = [] then None else adopt_opened True kb od)"
      using Some k fresh True by (auto simp: add_check_def is_own_output_device_def split: option.split)
    show ?thesis
    proof (cases "add_check own flt ud dt")
      case None
      then show ?thesis using assms check Some k dev True
        by (auto simp: handle_device_add_def adoptable_def split: if_splits)
    next
      case s: (Some sl)
      have path: "slot_path sl = p" using s check adopt_path True by (auto split: if_splits)
      have "adoptable own flt p (ud, epoll_ok) = (if epoll_ok then Some sl else None)"
        using s check Some k dev True by (auto simp: adoptable_def split: if_splits)
      moreover have "entries p (add_push sl dt) = [sl]" using assms path by (simp add: entries_def add_push_def)
      ultimately show ?thesis
        using s path drop_added [OF assms path] by (simp add: handle_device_add_def add_register_def entries_def)
    qed
  next
    case False
    have "adoptable own flt p (ud, epoll_ok) = None" using dev False by (simp add: adoptable_def)
    moreover have "entries p (handle_device_add own flt epoll_ok ud dt) = []"
    proof (cases "add_check own flt ud dt")
      case None
      then show ?thesis using assms by (simp add: handle_device_add_def)
    next
      case s: (Some sl)
      have path: "slot_path sl \<noteq> p"
        using s Some k False adopt_path by (auto simp: add_check_def split: if_splits)
      then have "entries p (add_push sl dt) = []" using assms by (simp add: entries_def add_push_def)
      then show ?thesis using s entries_drop_other [OF path, of "add_push sl dt"]
        by (simp add: handle_device_add_def add_register_def entries_def)
    qed
    ultimately show ?thesis by simp
  qed
qed

lemma entries_resync_scan:
  "entries p (resync_devices own flt (Some uds) dt) =
     (if entries p dt = [] then case find_map (adoptable own flt p) uds of Some sl \<Rightarrow> [sl] | None \<Rightarrow> []
      else entries p dt)"
proof (induction uds arbitrary: dt)
  case (Cons x uds)
  obtain ud ok where x: "x = (ud, ok)" by force
  have step: "resync_devices own flt (Some (x # uds)) dt
      = resync_devices own flt (Some uds) (handle_device_add own flt ok ud dt)"
    by (simp add: resync_devices_def x)
  show ?case
  proof (cases "entries p dt = []")
    case True
    then show ?thesis unfolding step Cons.IH
      by (simp add: entries_add_new x split: option.split)
  next
    case False
    then show ?thesis unfolding step Cons.IH by (simp add: entries_add)
  qed
qed (simp add: resync_devices_def)

lemma entries_unconcerned:
  "\<forall>ev \<in> set evs. \<not> concerns p ev \<Longrightarrow> entries p (monitor_loop own flt evs dt) = entries p dt"
proof (induction own flt evs dt rule: monitor_loop.induct)
  case (2 own flt ev evs dt)
  have "entries p (handle_device_remove ud dt) = entries p dt" if "ev = PollEvent EvRemove ud ok" for ud ok
    using 2(7) that entries_drop_other [of _ p dt]
    by (auto simp: handle_device_remove_def concerns_def split: option.split)
  moreover have "entries p (handle_device_add own flt ok ud dt) = entries p dt" if "ev = PollEvent EvAdd ud ok" for ud ok
  proof (cases "entries p dt = []")
    case True
    have "adoptable own flt p (ud, ok) = None" using 2(7) that by (simp add: adoptable_def concerns_def)
    with True entries_add_new [OF True, of own flt ok ud] show ?thesis by simp
  qed (simp add: entries_add)
  ultimately show ?case using 2 by (simp split: monitor_event.split event_type.split)
qed simp

section \<open>Properties\<close>

text \<open>
  A keyboard that was unplugged while the monitor was down is not replaced. The entry of a device
  stays in the table until an event tells of its removal; while it is there, no device with the
  same node is taken into the table, not for its own event and not by the scan at the start of
  any number of further runs of the monitor, though that scan is to adopt the keyboards that appeared in between.
\<close>
theorem stale_entry_blocks_readoption:
  assumes "path \<in> slot_path ` set (dt_managed dt)"
    and "\<forall>ms \<in> set runs. \<forall>ev \<in> set (ms_events ms). \<not> removes path ev"
  shows "filter (\<lambda>sl. slot_path sl = path) (dt_managed (fold (run_hotplug_monitor own flt) runs dt))
    = filter (\<lambda>sl. slot_path sl = path) (dt_managed dt)"
proof -
  have "entries path (fold (run_hotplug_monitor own flt) runs dt) = entries path dt"
    using assms
  proof (induction runs arbitrary: dt)
    case (Cons ms runs)
    have "entries path (run_hotplug_monitor own flt ms dt) = entries path dt"
      using Cons.prems entries_resync [of path dt own flt "ms_scan ms"]
        entries_monitor [of path "resync_devices own flt (ms_scan ms) dt" "ms_events ms" own flt]
      by (auto simp: run_hotplug_monitor_def entries_empty)
    with Cons show ?case by (metis entries_empty fold_simps(2) list.set_intros(2))
  qed simp
  then show ?thesis by (simp add: entries_def)
qed

text \<open>The keyboard at \<open>/dev/input/event3\<close> was unplugged unseen, and another one is there now.\<close>

definition event3_device :: "nat \<Rightarrow> udev_device" where
  "event3_device fd =
     \<lparr>ud_devnode = Some ''/dev/input/event3'', ud_property = (\<lambda>k. if k = ''ID_INPUT_KEYBOARD'' then Some ''1'' else None),
      ud_open = Some \<lparr>od_fd = fd, od_evdev = \<lparr>ed_reads = [], ed_grabbed = False\<rparr>, od_name = Some ''K'', od_absolute = False,
        od_grab_ok = True, od_nonblocking_ok = True, od_ioctl = (\<lambda>_ _. None), od_ungrab_ok = True, od_regrab_ok = True,
        od_clock = []\<rparr>\<rparr>"

definition no_devices :: device_table where
  "no_devices = \<lparr>dt_managed = [], dt_epoll = [], dt_removed = []\<rparr>"

lemma event3_added:
  "\<exists>sl. handle_device_add None None True (event3_device fd) no_devices =
       \<lparr>dt_managed = [sl], dt_epoll = [fd], dt_removed = []\<rparr> \<and> slot_path sl = ''/dev/input/event3'' \<and> sl_fd sl = fd"
  by (simp add: handle_device_add_def add_check_def event3_device_def build_keyboard_from_udev_def
      is_own_output_device_def filter_keyboards_by_specifiers_def no_devices_def adopt_opened_def adopt_device_def
      add_register_def add_push_def slot_path_def drain_pending_events_def capture_held_keys_def
      read_kernel_key_state_def native_release_window_def Let_def)

lemma stale_entry_blocks_readoption_witness:
  "map sl_fd (filter (\<lambda>sl. slot_path sl = ''/dev/input/event3'') (dt_managed (fold (run_hotplug_monitor None None)
     [\<lparr>ms_built = True, ms_matched = True, ms_listening = True, ms_scan = Some [(event3_device 9, True)],
       ms_events = [PollEvent EvAdd (event3_device 9) True]\<rparr>]
     (handle_device_add None None True (event3_device 5) no_devices)))) = [5]"
proof -
  obtain sl where sl: "handle_device_add None None True (event3_device 5) no_devices =
      \<lparr>dt_managed = [sl], dt_epoll = [5], dt_removed = []\<rparr>" "slot_path sl = ''/dev/input/event3''" "sl_fd sl = 5"
    using event3_added by blast
  show ?thesis
    unfolding sl(1) by (subst stale_entry_blocks_readoption) (simp_all add: sl(2,3) removes_def)
qed

text \<open>
  C34. The monitor catches up, as far as its table allows. For every device node, after the monitor has started,
  scanned and handled any events that are not about that node: an entry the table had for it before is
  still there, and nothing else is, whether its device is present or not (\<open>stale_entry_blocks_readoption\<close>); if there
  was none, the device in the table is that of the first scanned keyboard at the node that can be
  opened, is not the daemon's own keyboard, matches the filter, and can be grabbed, set to non-blocking and watched; and
  if there is no such keyboard, none. That epoll watches the devices of the table is part of C18.
\<close>
theorem resync_adopts_present_keyboards:
  assumes "ms_built ms" and "ms_matched ms" and "ms_listening ms" and "ms_scan ms = Some uds"
    and "\<forall>ev \<in> set (ms_events ms). \<not> concerns p ev"
  shows "filter (\<lambda>sl. slot_path sl = p) (dt_managed (run_hotplug_monitor own flt ms dt)) =
    (case filter (\<lambda>sl. slot_path sl = p) (dt_managed dt) of
       [] \<Rightarrow> (case find_map (adoptable own flt p) uds of Some sl \<Rightarrow> [sl] | None \<Rightarrow> [])
     | sl # sls \<Rightarrow> sl # sls)"
proof -
  have "entries p (run_hotplug_monitor own flt ms dt) = entries p (resync_devices own flt (Some uds) dt)"
    using entries_unconcerned [OF assms(5)] assms(1-4) by (simp add: run_hotplug_monitor_def)
  then show ?thesis
    using entries_resync_scan [of p own flt uds dt]
    by (simp add: entries_def split: list.split)
qed

lemma resync_adopts_present_keyboards_witness:
  "map sl_fd (filter (\<lambda>sl. slot_path sl = ''/dev/input/event3'') (dt_managed (run_hotplug_monitor (Some ''/dev/input/event7'') None
      \<lparr>ms_built = True, ms_matched = True, ms_listening = True,
        ms_scan = Some [(event3_device 8, False), (event3_device 9, True)], ms_events = [PollNoEvent]\<rparr>
      no_devices))) = [9]"
proof -
  obtain sl where a: "find_map (adoptable (Some ''/dev/input/event7'') None ''/dev/input/event3'')
      [(event3_device 8, False), (event3_device 9, True)] = Some sl" "sl_fd sl = 9"
    by (simp add: adoptable_def event3_device_def build_keyboard_from_udev_def filter_keyboards_by_specifiers_def
        adopt_opened_def Let_def)
  have "\<not> concerns ''/dev/input/event3'' PollNoEvent" by (simp add: concerns_def)
  then show ?thesis
    by (subst resync_adopts_present_keyboards [OF _ _ _ monitor_script.select_convs(4)])
      (simp_all add: no_devices_def a del: find_map.simps)
qed

text \<open>
  A monitor that cannot be kept up does not spin: the supervisor waits between a second and half a
  minute before each restart, doubling the wait while runs are short. A run counts as healthy after a
  minute, the wait that follows it included.
\<close>

lemma restart_delays:
  assumes "supervise_hotplug own flt rs delay dt = (delays, dt')"
    and "RESTART_DELAY_MIN \<le> delay" and "delay \<le> RESTART_DELAY_MAX"
  shows "\<forall>d \<in> set delays. RESTART_DELAY_MIN \<le> d \<and> d \<le> RESTART_DELAY_MAX"
  using assms
proof (induction rs arbitrary: delay dt delays dt')
  case (Cons r rs)
  have "RESTART_DELAY_MIN \<le> next_restart_delay delay h \<and> next_restart_delay delay h \<le> RESTART_DELAY_MAX" for h
    using Cons.prems(2) by (auto simp: next_restart_delay_def RESTART_DELAY_MIN_def RESTART_DELAY_MAX_def)
  with Cons show ?case by (auto simp: Let_def split: if_splits prod.splits)
qed simp

lemma sleep_whole: "sleep_or_shutdown (replicate n False) delay slept = slept + 100 * n"
  if "slept + 100 * n \<le> delay + 99"
  using that
proof (induction n arbitrary: slept)
  case (Suc n)
  then show ?case by (subst sleep_or_shutdown.simps) (simp add: SHUTDOWN_CHECK_INTERVAL_def)
qed (subst sleep_or_shutdown.simps, simp)

text \<open>
  So a run of half a minute, after which the supervisor waits for half a minute, is taken for a healthy
  one, although \<open>HEALTHY_RUN\<close> is documented as the length of the run.
\<close>

lemma wait_counts_as_run:
  "fst (supervise_hotplug own flt (replicate 2
      \<lparr>sr_shutdown_before = False, sr_script = \<lparr>ms_built = False, ms_matched = False, ms_listening = False, ms_scan = None,
         ms_events = []\<rparr>, sr_run = 30000, sr_shutdown_after = False, sr_sleep = replicate 300 False\<rparr>)
      RESTART_DELAY_MAX dt) = [30000, 1000]"
proof -
  have "sleep_or_shutdown (replicate 300 False) 30000 0 = 30000" using sleep_whole [of 0 300 30000] by simp
  then show ?thesis
    by (simp add: numeral_2_eq_2 Let_def RESTART_DELAY_MAX_def RESTART_DELAY_MIN_def next_restart_delay_def
        HEALTHY_RUN_def split: prod.split)
qed

end
