(* ===== verification/Linux_Loop.thy ===== *)
theory Linux_Loop
  imports Linux_Hotplug
begin

text \<open>
  \<open>start_mapping\<close> of \<open>src/platform/linux/mapping/mod.rs\<close> as a whole: the start, and the event loop on one
  thread beside the hot-plug monitor on another, as a step relation cut at the lock of the table. The
  rules and the focus may be others at every decision. All devices share one virtual keyboard.
\<close>

section \<open>The start\<close>

text \<open>
  What can fail: a grab or setting a device up, building the virtual keyboard and finding its node,
  and epoll. The first failure ends the daemon.
\<close>

datatype start_error = StGrab string | StVirtualDevice | StEpoll

fun grab_all :: "(keyboard_info \<times> opened_device) list \<Rightarrow> start_error + slot list" where
  "grab_all [] = Inr []"
| "grab_all ((kb, od) # kbs) =
     (case adopt_opened False kb od of
        None \<Rightarrow> Inl (StGrab (ki_device kb))
      | Some sl \<Rightarrow> (case grab_all kbs of Inl e \<Rightarrow> Inl e | Inr sls \<Rightarrow> Inr (sl # sls)))"

text \<open>The devices to grab, before the virtual keyboard exists.\<close>

definition select_keyboards ::
  "keyboard_specifier list option \<Rightarrow> (keyboard_info \<times> opened_device) list \<Rightarrow> (keyboard_info \<times> opened_device) list" where
  "select_keyboards flt opened =
     (let to_grab = filter (\<lambda>kb. \<not> is_own_output_device None (ki_device kb))
            (filter_keyboards_by_specifiers (map fst opened) flt);
          grab_paths = set (map ki_device to_grab)
      in filter (\<lambda>(kb, _). ki_device kb \<in> grab_paths) opened)"

fun sync_all :: "slot list \<Rightarrow> virtual_device \<Rightarrow> slot list \<times> virtual_device" where
  "sync_all [] vd = ([], vd)"
| "sync_all (sl # sls) vd =
     (let (m, vd1) = sync_initial_state (sl_device sl) vd; (sls1, vd2) = sync_all sls vd1
      in (sl\<lparr>sl_device := m\<rparr> # sls1, vd2))"

definition virtual_device_new :: "bool list \<Rightarrow> virtual_device" where
  "virtual_device_new faults = \<lparr>vd_faults = faults, vd_log = []\<rparr>"

text \<open>
  \<open>start_mapping\<close> up to the loop: the table, the virtual keyboard and its node. \<open>node\<close> is the node found
  for the virtual keyboard, if it was built, \<open>faults\<close> says which of the writes to it fail (none does after
  the last of the list); \<open>epoll_ok\<close> is whether epoll takes all the descriptors.
\<close>

definition start_mapping ::
  "bool list \<Rightarrow> 'e + udev_device list \<Rightarrow> keyboard_specifier list option \<Rightarrow> (string option) option \<Rightarrow> bool
    \<Rightarrow> start_error + device_table \<times> virtual_device \<times> string option" where
  "start_mapping faults scan flt node epoll_ok =
     (let opened = (case enumerate_keyboards scan of Inl _ \<Rightarrow> [] | Inr kbs \<Rightarrow> kbs)
      in case grab_all (select_keyboards flt opened) of
           Inl e \<Rightarrow> Inl e
         | Inr sls \<Rightarrow>
             (case node of
                None \<Rightarrow> Inl StVirtualDevice
              | Some own \<Rightarrow>
                  (let (sls1, vd) = sync_all sls (virtual_device_new faults)
                   in if \<not> epoll_ok then Inl StEpoll
                      else Inr (\<lparr>dt_managed = sls1, dt_epoll = map sl_fd sls1, dt_removed = []\<rparr>, vd, own))))"

section \<open>The event loop\<close>

text \<open>What is done for a ready device under the lock: the actions to emit afterwards.\<close>

definition decide_device :: "'s lookup \<Rightarrow> managed_device \<Rightarrow> 's \<Rightarrow> device_action list \<times> managed_device \<times> 's" where
  "decide_device lk m ls =
     (let (as, m1) = (if md_pending_initial_state m then
                        (let (as, m1) = plan_initial_state m in (as, m1\<lparr>md_pending_initial_state := False\<rparr>))
                      else ([], m));
          (bs, m2, ls') = process_device_events lk m1 ls
      in (as @ bs, m2, ls'))"

definition serve_slot :: "'s lookup \<Rightarrow> 's \<Rightarrow> slot \<Rightarrow> device_action list \<times> slot" where
  "serve_slot lk ls sl =
     (let (as, m, _) = decide_device lk (sl_device sl) ls
      in (as, sl\<lparr>sl_device := m, sl_served := sl_served sl + 1\<rparr>))"

text \<open>
  Where the monitor's thread is: between events; with a device that is adopted but not yet in the table;
  with one that is in the table but that epoll does not watch yet. The loop has the descriptors epoll
  reported that it has not looked at yet, and the actions it has decided on but not yet emitted.
\<close>

datatype hotplug_pc = HpIdle | HpPush slot | HpRegister nat string

record loop_state =
  lp_table :: device_table
  lp_vd :: virtual_device
  lp_batch :: "nat list"
  lp_actions :: "device_action list"
  lp_hotplug :: hotplug_pc

definition lp_slots :: "loop_state \<Rightarrow> slot list" where
  "lp_slots s = dt_managed (lp_table s) @ dt_removed (lp_table s)"

text \<open>
  The kernel gives a new device a descriptor that is not in use. The loop emits what it has decided
  before it looks at the next descriptor.
\<close>

inductive loop_step :: "'s lookup \<Rightarrow> string option \<Rightarrow> keyboard_specifier list option \<Rightarrow> loop_state \<Rightarrow> loop_state \<Rightarrow> bool"
  for lk own flt where
  epoll_wait: "lp_batch s = [] \<Longrightarrow> lp_actions s = [] \<Longrightarrow> set fds \<subseteq> set (dt_epoll (lp_table s)) \<Longrightarrow> length fds \<le> 64 \<Longrightarrow>
    loop_step lk own flt s (s\<lparr>lp_batch := fds\<rparr>)"
| decide_ready: "lp_batch s = fd # fds \<Longrightarrow> lp_actions s = [] \<Longrightarrow> dt_managed (lp_table s) = xs @ sl # ys \<Longrightarrow>
    sl_fd sl = fd \<Longrightarrow> fd \<notin> sl_fd ` set xs \<Longrightarrow> serve_slot lk ls sl = (as, sl') \<Longrightarrow>
    loop_step lk own flt s
      (s\<lparr>lp_table := (lp_table s)\<lparr>dt_managed := xs @ sl' # ys\<rparr>, lp_batch := fds, lp_actions := as\<rparr>)"
| ready_but_gone: "lp_batch s = fd # fds \<Longrightarrow> lp_actions s = [] \<Longrightarrow> fd \<notin> sl_fd ` set (dt_managed (lp_table s)) \<Longrightarrow>
    loop_step lk own flt s (s\<lparr>lp_batch := fds\<rparr>)"
| emit_decided: "lp_actions s \<noteq> [] \<Longrightarrow>
    loop_step lk own flt s (s\<lparr>lp_vd := emit_actions (lp_actions s) (lp_vd s), lp_actions := []\<rparr>)"
| hotplug_check: "lp_hotplug s = HpIdle \<Longrightarrow> add_check own flt ud (lp_table s) = Some sl \<Longrightarrow>
    sl_fd sl \<notin> sl_fd ` set (dt_managed (lp_table s)) \<Longrightarrow>
    loop_step lk own flt s (s\<lparr>lp_hotplug := HpPush sl\<rparr>)"
| hotplug_push: "lp_hotplug s = HpPush sl \<Longrightarrow>
    loop_step lk own flt s
      (s\<lparr>lp_table := add_push sl (lp_table s), lp_hotplug := HpRegister (sl_fd sl) (slot_path sl)\<rparr>)"
| hotplug_register: "lp_hotplug s = HpRegister fd path \<Longrightarrow>
    loop_step lk own flt s (s\<lparr>lp_table := add_register epoll_ok fd path (lp_table s), lp_hotplug := HpIdle\<rparr>)"
| hotplug_remove: "lp_hotplug s = HpIdle \<Longrightarrow>
    loop_step lk own flt s (s\<lparr>lp_table := handle_device_remove ud (lp_table s)\<rparr>)"

inductive loop_reach :: "'s lookup \<Rightarrow> string option \<Rightarrow> keyboard_specifier list option \<Rightarrow> loop_state \<Rightarrow> loop_state \<Rightarrow> bool"
  for lk own flt s0 where
  reach_start: "loop_reach lk own flt s0 s0"
| reach_step: "loop_reach lk own flt s0 s \<Longrightarrow> loop_step lk own flt s s' \<Longrightarrow> loop_reach lk own flt s0 s'"

definition loop_start :: "device_table \<Rightarrow> virtual_device \<Rightarrow> loop_state" where
  "loop_start dt vd = \<lparr>lp_table = dt, lp_vd = vd, lp_batch = [], lp_actions = [], lp_hotplug = HpIdle\<rparr>"

text \<open>The keys of a device that are down, and whether a keyboard can have delivered what was read.\<close>

definition slot_keys :: "slot \<Rightarrow> captured_key list" where
  "slot_keys sl = next_keys (sl_served sl) (sl_adopted sl)"

definition keys_down :: "slot \<Rightarrow> u16 set" where
  "keys_down sl = fold step_keys (slot_keys sl) (noted_keys (sl_adopted sl))"

definition plausible :: "slot \<Rightarrow> bool" where
  "plausible sl \<longleftrightarrow> key_stream (noted_keys (sl_adopted sl)) (slot_keys sl)"

section \<open>What actions do on any keyboard\<close>

text \<open>The functions on the virtual keyboard append to the log and do not look at it.\<close>

definition prelog :: "input_event list \<Rightarrow> virtual_device \<Rightarrow> virtual_device" where
  "prelog l d = d\<lparr>vd_log := l @ vd_log d\<rparr>"

lemma vd_emit_prelog: "vd_emit evs (prelog l d) = apsnd (prelog l) (vd_emit evs d)"
  by (cases "vd_faults d") (simp_all add: vd_emit_def prelog_def)

lemma emit_one_prelog [simp]: "emit_one c v (prelog l d) = apsnd (prelog l) (emit_one c v d)"
  by (simp add: emit_one_def vd_emit_prelog)

lemma press_modifiers_prelog [simp]:
  "press_modifiers ms bs pressed (prelog l d) = apsnd (prelog l) (press_modifiers ms bs pressed d)"
  by (induction ms bs pressed d rule: press_modifiers.induct) (auto split: option.split prod.split sum.split)

lemma release_codes_prelog [simp]: "release_codes cs (prelog l d) = prelog l (release_codes cs d)"
  by (induction cs d rule: release_codes.induct) simp_all

lemma hold_press_prelog [simp]: "hold_press cs pressed (prelog l d) = apsnd (prelog l) (hold_press cs pressed d)"
  by (induction cs pressed d rule: hold_press.induct) (auto split: prod.split sum.split)

lemma release_bits_prelog [simp]: "release_bits c bs (prelog l d) = prelog l (release_bits c bs d)"
  by (induction c bs d rule: release_bits.induct) (auto split: option.split)

lemma emit_key_event_prelog: "emit_key_event nk (prelog l d) = apsnd (prelog l) (emit_key_event nk d)"
  by (auto simp: emit_key_event_def split: option.split prod.split sum.split)

lemma emit_actions_prelog: "emit_actions as (prelog l d) = prelog l (emit_actions as d)"
proof (induction as arbitrary: d)
  case (Cons a as)
  have "linux_emit a (prelog l d) = prelog l (linux_emit a d)"
    by (cases a) (simp_all add: linux_emit_def forward_key_event_def vd_emit_prelog Let_def
        release_consumed_modifiers_def hold_modifier_output_def emit_key_event_prelog)
  with Cons show ?case by simp
qed simp

lemma healthy_emit_actions: "vd_faults d = [] \<Longrightarrow> vd_faults (emit_actions as d) = []"
proof (induction as arbitrary: d)
  case (Cons a as)
  have "vd_faults (linux_emit a d) = []"
  proof (cases a)
    case (Forward c v)
    then show ?thesis using forward_ok [OF Cons.prems, of c v] by (simp add: linux_emit_def)
  next
    case (OutReleaseConsumed m)
    then show ?thesis using conjunct1 [OF release_consumed_ok [OF Cons.prems, of m]] by (simp only: linux_emit_def device_action.case)
  next
    case (OutTap nk)
    obtain d' where "emit_key_event nk d = (Inr (), d')" "vd_faults d' = []"
      using tap_ok [OF Cons.prems, of nk] by blast
    with OutTap show ?thesis by (simp only: linux_emit_def device_action.case snd_conv)
  next
    case (OutHold nk)
    obtain d' where "hold_press (hold_codes nk) [] d = (Inr (), d')" "vd_faults d' = []"
      using hold_press_ok [OF Cons.prems, of "hold_codes nk" "[]"] by blast
    with OutHold show ?thesis by (simp only: linux_emit_def device_action.case hold_modifier_output_def snd_conv)
  qed
  with Cons.IH show ?case by simp
qed simp

definition emitted_events :: "device_action list \<Rightarrow> input_event list" where
  "emitted_events as = vd_log (emit_actions as (virtual_device_new []))"

lemma emit_actions_log:
  assumes "vd_faults d = []"
  shows "emit_actions as d = \<lparr>vd_faults = [], vd_log = vd_log d @ emitted_events as\<rparr>"
proof -
  have "d = prelog (vd_log d) (virtual_device_new [])" using assms by (simp add: prelog_def virtual_device_new_def)
  then have "emit_actions as d = prelog (vd_log d) (emit_actions as (virtual_device_new []))"
    by (metis emit_actions_prelog)
  then show ?thesis
    using healthy_emit_actions [of "virtual_device_new []" as]
    by (simp add: prelog_def emitted_events_def virtual_device_new_def)
qed

lemma apply_event_mono: "P \<subseteq> Q \<union> X \<Longrightarrow> apply_event ev P \<subseteq> apply_event ev Q \<union> X"
  by (auto simp: apply_event_def split: if_splits)

lemma apply_events_mono: "P \<subseteq> Q \<union> X \<Longrightarrow> fold apply_event evs P \<subseteq> fold apply_event evs Q \<union> X"
proof (induction evs arbitrary: P Q)
  case (Cons ev evs)
  from Cons.IH [OF apply_event_mono [OF Cons.prems]] show ?case by simp
qed simp

text \<open>Actions run on the shared keyboard press no more than on a keyboard of the device's own.\<close>

lemma emit_actions_shared:
  assumes "vd_faults vd = []" "vd_faults own = []" "pressed_codes vd \<subseteq> pressed_codes own \<union> X"
  shows "pressed_codes (emit_actions as vd) \<subseteq> pressed_codes (emit_actions as own) \<union> X"
  using apply_events_mono [OF assms(3), of "emitted_events as"] assms(1,2)
  by (simp add: emit_actions_log pressed_codes_def)

section \<open>The history of a device\<close>

lemma service_decide:
  "service_device lk m ls vd = (let (as, m', ls') = decide_device lk m ls in (m', ls', emit_actions as vd))"
  by (simp add: service_device_def decide_device_def Let_def case_prod_beta)

lemma serve_snoc:
  "serve lk (lss @ [ls]) m vd =
     (let (m', vd') = serve lk lss m vd; (as, m'', _) = decide_device lk m' ls in (m'', emit_actions as vd'))"
  by (induction lss arbitrary: m vd) (simp_all add: service_decide Let_def case_prod_beta)

text \<open>The device as adopted, on a keyboard of its own, before its first event.\<close>

definition solo_start :: "managed_device \<Rightarrow> managed_device \<times> virtual_device" where
  "solo_start m = (if md_pending_initial_state m then (m, (virtual_device_new []))
     else sync_initial_state m (virtual_device_new []))"

definition solo :: "'s lookup \<Rightarrow> slot \<Rightarrow> virtual_device \<Rightarrow> bool" where
  "solo lk sl own \<longleftrightarrow> (\<exists>lss. length lss = sl_served sl
     \<and> serve lk lss (fst (solo_start (sl_adopted sl))) (snd (solo_start (sl_adopted sl))) = (sl_device sl, own))"

definition fresh_slot :: "slot \<Rightarrow> bool" where
  "fresh_slot sl \<longleftrightarrow> (\<exists>H. noted H (md_engine (sl_adopted sl)))"

lemma adopt_opened_fresh: "adopt_opened pending kb od = Some sl \<Longrightarrow>
    fresh_slot sl \<and> sl_served sl = 0 \<and> sl_device sl = sl_adopted sl
    \<and> md_pending_initial_state (sl_device sl) = pending \<and> sl_fd sl = od_fd od \<and> sl_info sl = kb"
  using adopt_noted by (auto simp: adopt_opened_def fresh_slot_def Let_def split: if_splits)

lemma solo_healthy:
  assumes "solo lk sl own" shows "vd_faults own = []"
proof -
  have s: "vd_faults (snd (serve lk lss m vd)) = []" if "vd_faults vd = []" for lss m vd
    using that
    by (induction lss arbitrary: m vd) (auto simp: service_decide Let_def case_prod_beta healthy_emit_actions)
  have "vd_faults (snd (solo_start (sl_adopted sl))) = []"
    by (simp add: solo_start_def sync_initial_state_def Let_def case_prod_beta healthy_emit_actions virtual_device_new_def)
  with s assms show ?thesis unfolding solo_def by (metis snd_conv)
qed

lemma solo_serve:
  assumes "solo lk sl own" "serve_slot lk ls sl = (as, sl')"
  shows "solo lk sl' (emit_actions as own)"
proof -
  from assms(1) obtain lss where l: "length lss = sl_served sl"
    "serve lk lss (fst (solo_start (sl_adopted sl))) (snd (solo_start (sl_adopted sl))) = (sl_device sl, own)"
    by (auto simp: solo_def)
  with assms(2) show ?thesis
    unfolding solo_def
    by (intro exI [of _ "lss @ [ls]"]) (auto simp: serve_snoc serve_slot_def Let_def case_prod_beta)
qed

text \<open>One device, alone: with every key up, nothing is pressed and the engine is as new.\<close>

lemma solo_released:
  assumes "solo lk sl own" "fresh_slot sl" "plausible sl" "keys_down sl = {}"
  shows "pressed_codes own = {} \<and> md_engine (sl_device sl) = engine_new"
proof -
  let ?m = "sl_adopted sl" let ?m1 = "fst (solo_start ?m)" and ?v1 = "snd (solo_start ?m)"
  obtain H where H: "noted H (md_engine ?m)" using assms(2) by (auto simp: fresh_slot_def)
  have m1: "md_engine ?m1 = md_engine ?m" "next_keys n ?m1 = next_keys n ?m" for n
    by (simp_all add: solo_start_def sync_initial_state_def plan_initial_state_def next_keys_def)
  have base: "session_inv (noted_keys ?m) (md_engine ?m) (virtual_device_new [])"
    unfolding noted_keys_noted [OF H] virtual_device_new_def by (rule noted_session [OF H])
  have "session_inv (noted_keys ?m) (md_engine ?m1) ?v1"
    using base initial_actions_inv [OF base]
    by (simp add: solo_start_def sync_initial_state_def plan_initial_state_def)
  moreover obtain lss where l: "length lss = sl_served sl" "serve lk lss ?m1 ?v1 = (sl_device sl, own)"
    using assms(1) by (auto simp: solo_def)
  ultimately have "session_inv {} (md_engine (sl_device sl)) own"
    using serve_inv [of "noted_keys ?m" ?m1 ?v1 lss lk "sl_device sl" own] assms(3,4) m1
    by (simp add: plausible_def keys_down_def slot_keys_def)
  then show ?thesis by (rule session_all_up)
qed

section \<open>The shared keyboard\<close>

text \<open>A key that a device, alone on a keyboard of its own, could have pressed there.\<close>

definition may_press :: "'s lookup \<Rightarrow> slot \<Rightarrow> u16 \<Rightarrow> bool" where
  "may_press lk sl c \<longleftrightarrow> (\<exists>own. solo lk sl own \<and> c \<in> pressed_codes own)"

definition slot_ok :: "'s lookup \<Rightarrow> slot \<Rightarrow> bool" where
  "slot_ok lk sl \<longleftrightarrow> fresh_slot sl \<and> (\<exists>own. solo lk sl own)"

lemma emit_actions_element:
  assumes "vd_faults vd = []" "vd_faults own = []" "c \<in> pressed_codes (emit_actions as vd)"
    "c \<in> pressed_codes vd \<longrightarrow> c \<in> pressed_codes own"
  shows "c \<in> pressed_codes (emit_actions as own)"
proof -
  have "pressed_codes vd \<subseteq> pressed_codes own \<union> (pressed_codes vd - pressed_codes own)" by blast
  from emit_actions_shared [OF assms(1,2) this, of as] assms(3,4) show ?thesis by blast
qed

lemma serve_may_press:
  assumes "slot_ok lk sl" "serve_slot lk ls sl = (as, sl')" "vd_faults vd = []"
    "c \<in> pressed_codes (emit_actions as vd)" "c \<in> pressed_codes vd \<longrightarrow> may_press lk sl c"
  shows "may_press lk sl' c"
proof -
  obtain own where o: "solo lk sl own" "c \<in> pressed_codes vd \<longrightarrow> c \<in> pressed_codes own"
    using assms(1,5) by (auto simp: slot_ok_def may_press_def)
  have "c \<in> pressed_codes (emit_actions as own)"
    by (rule emit_actions_element [OF assms(3) solo_healthy [OF o(1)] assms(4) o(2)])
  then show ?thesis using solo_serve [OF o(1) assms(2)] by (auto simp: may_press_def)
qed

lemma serve_slot_same:
  assumes "serve_slot lk ls sl = (as, sl')"
  shows "sl_fd sl' = sl_fd sl \<and> slot_path sl' = slot_path sl \<and> sl_info sl' = sl_info sl \<and> sl_adopted sl' = sl_adopted sl"
proof -
  have p: "process_device_events lk m ls = (as, m', ls') \<Longrightarrow> md_path m' = md_path m" for m as m' ls'
    by (auto simp: process_device_events_def Let_def split: fetch_result.splits prod.splits)
  obtain bs m2 ls2 where d: "decide_device lk (sl_device sl) ls = (bs, m2, ls2)" by (metis prod.collapse)
  then have "md_path m2 = md_path (sl_device sl)"
    by (auto simp: decide_device_def plan_initial_state_def Let_def dest: p split: if_splits prod.splits)
  with assms d show ?thesis by (auto simp: serve_slot_def slot_path_def)
qed

lemma serve_slot_ok: "slot_ok lk sl \<Longrightarrow> serve_slot lk ls sl = (as, sl') \<Longrightarrow> slot_ok lk sl'"
  using serve_slot_same [of lk ls sl as sl'] solo_serve [of lk sl _ ls as sl']
  by (auto simp: slot_ok_def fresh_slot_def)

lemma adopt_pending_ok: "adopt_opened True kb od = Some sl \<Longrightarrow> slot_ok lk sl"
  using adopt_opened_fresh [of True kb od sl]
  by (auto simp: slot_ok_def solo_def solo_start_def intro!: exI [of _ "virtual_device_new []"] exI [of _ "[]"])

lemma add_check_some:
  assumes "add_check own flt ud dt = Some sl"
  shows "slot_ok lk sl \<and> slot_path sl \<notin> slot_path ` set (dt_managed dt) \<and> own \<noteq> Some (slot_path sl)
    \<and> slot_path sl = ki_device (sl_info sl) \<and> filter_keyboards_by_specifiers [sl_info sl] flt \<noteq> []"
proof -
  obtain kb od where b: "build_keyboard_from_udev ud = Some (kb, od)"
    "\<not> is_own_output_device own (ki_device kb)" "filter_keyboards_by_specifiers [kb] flt \<noteq> []"
    "\<not> list_ex (\<lambda>sl. slot_path sl = ki_device kb) (dt_managed dt)" "adopt_opened True kb od = Some sl"
    using assms by (auto simp: add_check_def split: option.splits if_splits)
  with adopt_path [OF b(5)] adopt_opened_fresh [OF b(5)] adopt_pending_ok [OF b(5), of lk]
  show ?thesis by (auto simp: list_ex_iff is_own_output_device_def split: option.splits)
qed

text \<open>The shared keyboard holds no more than the devices, present and dropped, could have pressed.\<close>

definition keyboard_ok :: "'s lookup \<Rightarrow> loop_state \<Rightarrow> bool" where
  "keyboard_ok lk s \<longleftrightarrow> vd_faults (lp_vd s) = [] \<and> (\<forall>sl \<in> set (lp_slots s). slot_ok lk sl)
     \<and> (\<forall>c \<in> pressed_codes (emit_actions (lp_actions s) (lp_vd s)). \<exists>sl \<in> set (lp_slots s). may_press lk sl c)
     \<and> (\<forall>sl. lp_hotplug s = HpPush sl \<longrightarrow> slot_ok lk sl)"

lemma drop_path_slots: "set (dt_managed (drop_path path dt) @ dt_removed (drop_path path dt))
    = set (dt_managed dt @ dt_removed dt)"
  by (rule drop_path_cases [of path dt]) auto

lemma keyboard_ok_step:
  assumes "loop_step lk own flt s s'" "keyboard_ok lk s"
  shows "keyboard_ok lk s'"
  using assms
proof cases
  case (decide_ready fd fds xs sl ys ls as sl')
  note [simp] = decide_ready(1)
  let ?s' = "s\<lparr>lp_table := (lp_table s)\<lparr>dt_managed := xs @ sl' # ys\<rparr>, lp_batch := fds, lp_actions := as\<rparr>"
  have sl: "sl \<in> set (lp_slots s)" and rest: "set (lp_slots s) \<subseteq> insert sl (set (lp_slots ?s'))"
    and new: "set (lp_slots ?s') \<subseteq> insert sl' (set (lp_slots s))" "sl' \<in> set (lp_slots ?s')"
    using decide_ready(4) by (auto simp: lp_slots_def)
  have ok: "slot_ok lk sl" "vd_faults (lp_vd s) = []" using assms(2) sl by (auto simp: keyboard_ok_def)
  have "\<exists>sl \<in> set (lp_slots ?s'). may_press lk sl c" if c: "c \<in> pressed_codes (emit_actions as (lp_vd s))" for c
  proof (cases "c \<in> pressed_codes (lp_vd s) \<longrightarrow> may_press lk sl c")
    case True
    from serve_may_press [OF ok(1) decide_ready(7) ok(2) c True] new(2) show ?thesis by blast
  next
    case False
    then obtain sl2 where "sl2 \<in> set (lp_slots s)" "may_press lk sl2 c"
      using assms(2) decide_ready(3) by (force simp: keyboard_ok_def)
    with False rest show ?thesis by blast
  qed
  then show ?thesis
    using assms(2) serve_slot_ok [OF ok(1) decide_ready(7)] new(1) by (auto simp: keyboard_ok_def)
next
  case emit_decided
  then show ?thesis using assms(2) by (simp add: keyboard_ok_def lp_slots_def healthy_emit_actions)
next
  case (hotplug_check ud sl)
  then show ?thesis using assms(2) add_check_some [of own flt ud _ sl lk] by (auto simp: keyboard_ok_def lp_slots_def)
next
  case (hotplug_push sl)
  then show ?thesis using assms(2) by (auto simp: keyboard_ok_def lp_slots_def add_push_def)
next
  case (hotplug_register fd path epoll_ok)
  then show ?thesis using assms(2) drop_path_slots [of path "lp_table s"]
    by (auto simp: keyboard_ok_def lp_slots_def add_register_def)
next
  case (hotplug_remove ud)
  then show ?thesis using assms(2) drop_path_slots [of _ "lp_table s"]
    by (auto simp: keyboard_ok_def lp_slots_def handle_device_remove_def split: option.splits)
qed (auto simp: keyboard_ok_def lp_slots_def)

section \<open>The table\<close>

text \<open>
  Descriptors and paths are distinct, epoll watches only devices of the table, the daemon's own keyboard
  is not among them, and all match the filter; and what the monitor is about to do keeps it so.
\<close>

definition slot_legal :: "string option \<Rightarrow> keyboard_specifier list option \<Rightarrow> slot \<Rightarrow> bool" where
  "slot_legal own flt sl \<longleftrightarrow> own \<noteq> Some (slot_path sl) \<and> slot_path sl = ki_device (sl_info sl)
     \<and> filter_keyboards_by_specifiers [sl_info sl] flt \<noteq> []"

definition table_ok :: "string option \<Rightarrow> keyboard_specifier list option \<Rightarrow> loop_state \<Rightarrow> bool" where
  "table_ok own flt s \<longleftrightarrow>
     (let sls = dt_managed (lp_table s)
      in distinct (map sl_fd sls) \<and> distinct (map slot_path sls) \<and> (\<forall>sl \<in> set sls. slot_legal own flt sl)
         \<and> (case lp_hotplug s of
              HpIdle \<Rightarrow> set (dt_epoll (lp_table s)) = sl_fd ` set sls
            | HpPush sl \<Rightarrow> set (dt_epoll (lp_table s)) = sl_fd ` set sls \<and> slot_legal own flt sl
                \<and> sl_fd sl \<notin> sl_fd ` set sls \<and> slot_path sl \<notin> slot_path ` set sls
            | HpRegister fd path \<Rightarrow> set (dt_epoll (lp_table s)) = sl_fd ` set sls - {fd}
                \<and> (\<exists>sl \<in> set sls. sl_fd sl = fd \<and> slot_path sl = path)))"

lemma drop_path_table:
  assumes "table_ok own flt s" "lp_hotplug s = HpIdle \<or> lp_hotplug s = HpRegister fd path"
  shows "table_ok own flt (s\<lparr>lp_table := drop_path path (lp_table s), lp_hotplug := HpIdle\<rparr>)"
proof (rule drop_path_cases [of path "lp_table s"])
  assume "path \<notin> slot_path ` set (dt_managed (lp_table s))" "drop_path path (lp_table s) = lp_table s"
  then show ?thesis using assms by (auto simp: table_ok_def Let_def)
next
  fix xs sl ys
  assume d: "dt_managed (lp_table s) = xs @ sl # ys" "slot_path sl = path"
    "drop_path path (lp_table s) = \<lparr>dt_managed = xs @ ys, dt_epoll = filter (\<lambda>fd. fd \<noteq> sl_fd sl) (dt_epoll (lp_table s)),
      dt_removed = sl # dt_removed (lp_table s)\<rparr>"
  let ?t = "dt_managed (lp_table s)"
  have t: "distinct (map sl_fd ?t)" "distinct (map slot_path ?t)" "\<forall>sl \<in> set ?t. slot_legal own flt sl"
    using assms(1) by (simp_all add: table_ok_def Let_def)
  have "sl_fd sl = fd" if pc: "lp_hotplug s = HpRegister fd path"
  proof -
    obtain sla where "sla \<in> set ?t" "sl_fd sla = fd" "slot_path sla = path"
      using assms(1) pc by (auto simp: table_ok_def Let_def)
    moreover have "sl \<in> set ?t" using d(1) by simp
    ultimately show ?thesis using t(2) d(2) by (metis distinct_map inj_onD)
  qed
  then have "set (filter (\<lambda>fd. fd \<noteq> sl_fd sl) (dt_epoll (lp_table s))) = sl_fd ` set ?t - {sl_fd sl}"
    using assms by (auto simp: table_ok_def Let_def)
  also have "\<dots> = sl_fd ` set (xs @ ys)" using t(1) d(1) by (auto simp: image_iff)
  finally show ?thesis using t d by (auto simp: table_ok_def Let_def)
qed

lemma table_ok_step:
  assumes "loop_step lk own flt s s'" "table_ok own flt s"
  shows "table_ok own flt s'"
  using assms
proof cases
  case (decide_ready fd fds xs sl ys ls as sl')
  define t where "t = xs @ sl' # ys"
  note same = serve_slot_same [OF decide_ready(7)]
  have t: "map sl_fd t = map sl_fd (dt_managed (lp_table s))" "map slot_path t = map slot_path (dt_managed (lp_table s))"
    using same decide_ready(4) by (simp_all add: t_def)
  have im: "f ` set t = f ` set (dt_managed (lp_table s))" if "f sl' = f sl" for f :: "slot \<Rightarrow> 'b"
    using that decide_ready(4) by (auto simp: t_def)
  have legal: "(\<forall>sl \<in> set t. slot_legal own flt sl) = (\<forall>sl \<in> set (dt_managed (lp_table s)). slot_legal own flt sl)"
    using same decide_ready(4) by (auto simp: t_def slot_legal_def)
  have reg: "(\<exists>sl \<in> set t. sl_fd sl = fd \<and> slot_path sl = path)
      = (\<exists>sl \<in> set (dt_managed (lp_table s)). sl_fd sl = fd \<and> slot_path sl = path)" for fd path
    using same decide_ready(4) by (auto simp: t_def)
  have "s' = s\<lparr>lp_table := (lp_table s)\<lparr>dt_managed := t\<rparr>, lp_batch := fds, lp_actions := as\<rparr>"
    using decide_ready(1) by (simp add: t_def)
  with assms(2) t im [of sl_fd] im [of slot_path] legal reg same show ?thesis
    by (cases "lp_hotplug s") (simp_all add: table_ok_def Let_def)
next
  case (hotplug_check ud sl)
  with assms(2) add_check_some [OF hotplug_check(3)] show ?thesis
    by (auto simp: table_ok_def Let_def slot_legal_def)
next
  case (hotplug_push sl)
  with assms(2) show ?thesis by (auto simp: table_ok_def Let_def add_push_def)
next
  case (hotplug_register fd path epoll_ok)
  show ?thesis
  proof (cases epoll_ok)
    case True
    with hotplug_register assms(2) show ?thesis by (auto simp: table_ok_def Let_def add_register_def)
  next
    case False
    with hotplug_register drop_path_table [OF assms(2)] show ?thesis by (simp add: add_register_def)
  qed
next
  case (hotplug_remove ud)
  show ?thesis
  proof (cases "ud_devnode ud")
    case None
    with hotplug_remove assms(2) show ?thesis by (simp add: handle_device_remove_def)
  next
    case (Some path)
    have "s\<lparr>lp_table := drop_path path (lp_table s), lp_hotplug := HpIdle\<rparr> = s\<lparr>lp_table := drop_path path (lp_table s)\<rparr>"
      using hotplug_remove(2) by simp
    with Some hotplug_remove drop_path_table [OF assms(2), of _ path] show ?thesis
      by (simp add: handle_device_remove_def)
  qed
qed (auto simp: table_ok_def Let_def split: hotplug_pc.splits)

section \<open>After the start\<close>

lemma grab_all_slots:
  "grab_all kbs = Inr sls \<Longrightarrow> map sl_info sls = map fst kbs \<and> map sl_fd sls = map (od_fd \<circ> snd) kbs
    \<and> map slot_path sls = map (ki_device \<circ> fst) kbs
    \<and> (\<forall>sl \<in> set sls. fresh_slot sl \<and> sl_served sl = 0 \<and> sl_device sl = sl_adopted sl
        \<and> \<not> md_pending_initial_state (sl_adopted sl))"
proof (induction kbs arbitrary: sls)
  case (Cons kb kbs)
  obtain k od where kb: "kb = (k, od)" by force
  with Cons.prems obtain sl rest where s: "adopt_opened False k od = Some sl" "grab_all kbs = Inr rest" "sls = sl # rest"
    by (auto split: option.splits sum.splits)
  from Cons.IH [OF s(2)] adopt_opened_fresh [OF s(1)] adopt_path [OF s(1)] s(3) kb show ?case by auto
qed simp

lemma sync_one:
  assumes "fresh_slot sl" "sl_served sl = 0" "sl_device sl = sl_adopted sl" "\<not> md_pending_initial_state (sl_adopted sl)"
    and "sync_initial_state (sl_device sl) vd = (m, vd1)" "vd_faults vd = []"
  shows "slot_ok lk (sl\<lparr>sl_device := m\<rparr>) \<and> vd_faults vd1 = [] \<and> slot_path (sl\<lparr>sl_device := m\<rparr>) = slot_path sl
    \<and> (\<forall>c \<in> pressed_codes vd1. c \<in> pressed_codes vd \<or> may_press lk (sl\<lparr>sl_device := m\<rparr>) c)"
proof -
  let ?as = "initial_actions (md_engine (sl_device sl)) (md_pending_held_modifiers (sl_device sl))"
  let ?own = "emit_actions ?as (virtual_device_new [])"
  have m: "m = (sl_device sl)\<lparr>md_pending_held_modifiers := []\<rparr>" "vd1 = emit_actions ?as vd"
    using assms(5) by (auto simp: sync_initial_state_def plan_initial_state_def)
  have solo: "solo lk (sl\<lparr>sl_device := m\<rparr>) ?own"
    using assms(2-4) m
    by (auto simp: solo_def solo_start_def sync_initial_state_def plan_initial_state_def intro!: exI [of _ "[]"])
  have "c \<in> pressed_codes vd \<or> may_press lk (sl\<lparr>sl_device := m\<rparr>) c" if "c \<in> pressed_codes vd1" for c
  proof (cases "c \<in> pressed_codes vd")
    case False
    have "vd_faults (virtual_device_new []) = []" by (simp add: virtual_device_new_def)
    from emit_actions_element [OF assms(6) this that [unfolded m(2)]] False solo show ?thesis
      by (auto simp: may_press_def)
  qed simp
  then show ?thesis
    using solo assms(1,6) m by (auto simp: slot_ok_def fresh_slot_def slot_path_def healthy_emit_actions)
qed

lemma sync_all_maps:
  "map sl_info (fst (sync_all sls vd)) = map sl_info sls \<and> map sl_fd (fst (sync_all sls vd)) = map sl_fd sls
    \<and> map slot_path (fst (sync_all sls vd)) = map slot_path sls"
  by (induction sls vd rule: sync_all.induct)
    (auto simp: sync_initial_state_def plan_initial_state_def slot_path_def Let_def case_prod_beta)

lemma sync_all_slots:
  assumes "sync_all sls vd = (sls1, vd1)" "vd_faults vd = []"
    and "\<forall>sl \<in> set sls. fresh_slot sl \<and> sl_served sl = 0 \<and> sl_device sl = sl_adopted sl
        \<and> \<not> md_pending_initial_state (sl_adopted sl)"
  shows "(\<forall>sl \<in> set sls1. slot_ok lk sl) \<and> vd_faults vd1 = []
    \<and> (\<forall>c \<in> pressed_codes vd1. c \<in> pressed_codes vd \<or> (\<exists>sl \<in> set sls1. may_press lk sl c))"
  using assms
proof (induction sls arbitrary: vd sls1 vd1)
  case (Cons sl sls)
  obtain m v1 where m: "sync_initial_state (sl_device sl) vd = (m, v1)" by force
  obtain rest v2 where r: "sync_all sls v1 = (rest, v2)" by force
  have eq: "sls1 = sl\<lparr>sl_device := m\<rparr> # rest" "vd1 = v2" using Cons.prems(1) m r by simp_all
  note one = sync_one [OF _ _ _ _ m Cons.prems(2), of lk]
  from Cons.IH [OF r] one Cons.prems(3) show ?case by (auto simp: eq)
qed simp

lemma filter_keyboards_member:
  "kb \<in> set (filter_keyboards_by_specifiers kbs flt) \<longleftrightarrow> kb \<in> set kbs \<and> filter_keyboards_by_specifiers [kb] flt \<noteq> []"
  by (auto simp: filter_keyboards_by_specifiers_def split: option.split)

text \<open>What the kernel sees to: the devices open at the start have their own descriptors and nodes.\<close>

definition distinct_devices :: "(keyboard_info \<times> opened_device) list \<Rightarrow> string option \<Rightarrow> bool" where
  "distinct_devices opened own \<longleftrightarrow> distinct (map (od_fd \<circ> snd) opened) \<and> distinct (map (ki_device \<circ> fst) opened)
     \<and> (\<forall>kb \<in> fst ` set opened. own \<noteq> Some (ki_device kb))"

lemma distinct_map_filter: "distinct (map f xs) \<Longrightarrow> distinct (map f (filter P xs))"
  by (induction xs) auto

lemma start_ok:
  assumes "start_mapping faults scan flt (Some node) epoll_ok = Inr (dt, vd, own)"
    and "enumerate_keyboards scan = Inr opened" and "distinct_devices opened own"
  shows "table_ok own flt (loop_start dt vd)" and "faults = [] \<Longrightarrow> keyboard_ok lk (loop_start dt vd)"
proof -
  let ?sel = "select_keyboards flt opened"
  obtain sls sls1 where g: "grab_all ?sel = Inr sls" "sync_all sls (virtual_device_new faults) = (sls1, vd)"
    and dt: "dt = \<lparr>dt_managed = sls1, dt_epoll = map sl_fd sls1, dt_removed = []\<rparr>"
    using assms(1,2) by (auto simp: start_mapping_def Let_def split: sum.splits prod.splits if_splits)
  note sl = grab_all_slots [OF g(1)]
  have h: "vd_faults (virtual_device_new []) = []" "pressed_codes (virtual_device_new []) = {}"
    by (simp_all add: virtual_device_new_def pressed_codes_def)
  note sm = sync_all_maps [of sls "virtual_device_new faults", unfolded g(2) fst_conv]
  have maps: "map sl_info sls1 = map fst ?sel" "map sl_fd sls1 = map (od_fd \<circ> snd) ?sel"
    "map slot_path sls1 = map (ki_device \<circ> fst) ?sel"
    using sl sm by simp_all
  have d: "distinct (map (od_fd \<circ> snd) ?sel)" "distinct (map (ki_device \<circ> fst) ?sel)" "set ?sel \<subseteq> set opened"
    using assms(3) by (auto simp: select_keyboards_def Let_def distinct_devices_def intro: distinct_map_filter)
  have match: "filter_keyboards_by_specifiers [kb] flt \<noteq> []" if "(kb, od) \<in> set ?sel" for kb od
  proof -
    from that have "(kb, od) \<in> set opened" and
      "\<exists>x \<in> set opened. ki_device (fst x) = ki_device kb \<and> filter_keyboards_by_specifiers [fst x] flt \<noteq> []"
      by (force simp: select_keyboards_def Let_def filter_keyboards_member)+
    then obtain kb' od' where k: "(kb, od) \<in> set opened" "(kb', od') \<in> set opened" "ki_device kb' = ki_device kb"
      "filter_keyboards_by_specifiers [kb'] flt \<noteq> []"
      by force
    have "inj_on (ki_device \<circ> fst) (set opened)" using assms(3) by (simp add: distinct_devices_def distinct_map)
    from inj_onD [OF this, of "(kb', od')" "(kb, od)"] k have "(kb', od') = (kb, od)" by simp
    with k(4) show ?thesis by simp
  qed
  have legal: "slot_legal own flt sl" if mem: "sl \<in> set sls1" for sl
  proof -
    obtain i where i: "i < length sls1" "sl = sls1 ! i" using mem by (auto simp: in_set_conv_nth)
    have len: "length sls1 = length ?sel" using map_eq_imp_length_eq [OF maps(1)] .
    have "map sl_info sls1 ! i = map fst ?sel ! i" "map slot_path sls1 ! i = map (ki_device \<circ> fst) ?sel ! i"
      by (simp_all only: maps)
    then have n: "sl_info sl = fst (?sel ! i)" "slot_path sl = ki_device (fst (?sel ! i))" "?sel ! i \<in> set ?sel"
      using i len by simp_all
    obtain kb od where "?sel ! i = (kb, od)" by force
    with n match [of kb od] assms(3) d(3) show ?thesis
      by (force simp: slot_legal_def distinct_devices_def)
  qed
  have "distinct (map sl_fd sls1)" "distinct (map slot_path sls1)" using d by (simp_all only: maps)
  then show "table_ok own flt (loop_start dt vd)"
    using legal by (simp add: table_ok_def loop_start_def dt Let_def)
  show "keyboard_ok lk (loop_start dt vd)" if "faults = []"
    using sync_all_slots [OF g(2) [unfolded that] h(1), of lk] sl h(2)
    by (simp add: keyboard_ok_def loop_start_def lp_slots_def dt)
qed

lemma reach_ok:
  assumes "loop_reach lk own flt s0 s"
  shows "table_ok own flt s0 \<Longrightarrow> table_ok own flt s" and "keyboard_ok lk s0 \<Longrightarrow> keyboard_ok lk s"
  using assms by (induction rule: loop_reach.induct) (auto dest: table_ok_step keyboard_ok_step)

section \<open>A keyboard with a key held\<close>

text \<open>
  One keyboard with Left Control held at the start, which comes up later. The virtual keyboard is at
  another node.
\<close>

definition control_keyboard :: udev_device where
  "control_keyboard =
     \<lparr>ud_devnode = Some ''ev0'', ud_property = (\<lambda>_. None),
      ud_open = Some \<lparr>od_fd = 5, od_evdev = held_control_device, od_name = None, od_absolute = False,
        od_grab_ok = True, od_nonblocking_ok = True, od_ioctl = (\<lambda>_ _. Some [0, 0, 0, 32]), od_ungrab_ok = True,
        od_regrab_ok = True, od_clock = [True]\<rparr>\<rparr>"

definition control_info :: keyboard_info where
  "control_info = \<lparr>ki_name = unknown_text, ki_vendor = unknown_text, ki_model = unknown_text, ki_device = ''ev0'', ki_port = None\<rparr>"

definition control_slot :: slot where
  "control_slot = \<lparr>sl_fd = 5, sl_device = held_control_adopted\<lparr>md_pending_held_modifiers := []\<rparr>, sl_info = control_info,
     sl_adopted = held_control_adopted, sl_served = 0\<rparr>"

abbreviation control_scan :: "unit + udev_device list" where "control_scan \<equiv> Inr [control_keyboard]"

lemma control_built:
  "build_keyboard_from_udev control_keyboard = Some (control_info, the (ud_open control_keyboard))"
  by (simp add: build_keyboard_from_udev_def control_keyboard_def control_info_def keyboard_model_def)

lemma control_opened: "enumerate_keyboards control_scan = Inr [(control_info, the (ud_open control_keyboard))]"
  by (simp add: enumerate_keyboards_def map_filter_simps control_built)

lemma control_distinct: "distinct_devices [(control_info, the (ud_open control_keyboard))] (Some ''ev9'')"
  by (simp add: distinct_devices_def control_info_def)

lemma control_adopted:
  "adopt_opened False control_info (the (ud_open control_keyboard)) =
     Some (control_slot\<lparr>sl_device := held_control_adopted\<rparr>)"
  by (simp add: adopt_opened_def control_keyboard_def control_slot_def control_info_def held_control_managed Let_def)

lemma control_start:
  "\<exists>vd. start_mapping [] control_scan None (Some (Some ''ev9'')) True =
     Inr (\<lparr>dt_managed = [control_slot], dt_epoll = [5], dt_removed = []\<rparr>, vd, Some ''ev9'')
   \<and> vd_faults vd = [] \<and> pressed_codes vd = {29}"
proof -
  let ?vd = "emit_actions [Forward 29 1] (virtual_device_new [])"
  have "sync_initial_state held_control_adopted (virtual_device_new [])
      = (held_control_adopted\<lparr>md_pending_held_modifiers := []\<rparr>, ?vd)"
    by (simp add: sync_initial_state_def plan_initial_state_def held_control_managed held_control_initial del: initial_actions.simps)
  then have "start_mapping [] control_scan None (Some (Some ''ev9'')) True =
     Inr (\<lparr>dt_managed = [control_slot], dt_epoll = [5], dt_removed = []\<rparr>, ?vd, Some ''ev9'')"
    by (simp add: start_mapping_def control_opened select_keyboards_def filter_keyboards_by_specifiers_def
        is_own_output_device_def control_adopted Let_def) (simp add: control_slot_def)
  moreover have "vd_faults ?vd = [] \<and> pressed_codes ?vd = {29}"
    using forward_ok [of "virtual_device_new []" 29 1] by (simp add: linux_emit_def virtual_device_new_def pressed_codes_def)
  ultimately show ?thesis by blast
qed

section \<open>Properties\<close>

text \<open>
  C18. The devices grabbed are the right ones and none is forgotten, at every moment of the daemon's life.
  After a start at which the devices have distinct nodes and descriptors, and whatever devices are
  added and removed while the loop works, no device is in the table twice, the daemon's own virtual
  keyboard is never grabbed (so that nothing is fed back), every device of the table matches the
  filter, and epoll watches no descriptor but those of the table; and, unless the monitor is in the middle of an
  addition, it watches all of them.
\<close>
theorem managed_devices_consistent:
  assumes "start_mapping faults scan flt (Some node) epoll_ok = Inr (dt, vd, own)"
    and "enumerate_keyboards scan = Inr opened" and "distinct_devices opened own"
    and "loop_reach lk own flt (loop_start dt vd) s"
  shows "distinct (map slot_path (dt_managed (lp_table s))) \<and> distinct (map sl_fd (dt_managed (lp_table s)))
    \<and> (\<forall>sl \<in> set (dt_managed (lp_table s)). own \<noteq> Some (slot_path sl)
        \<and> filter_keyboards_by_specifiers [sl_info sl] flt \<noteq> [])
    \<and> set (dt_epoll (lp_table s)) \<subseteq> sl_fd ` set (dt_managed (lp_table s))
    \<and> (lp_hotplug s = HpIdle \<longrightarrow> set (dt_epoll (lp_table s)) = sl_fd ` set (dt_managed (lp_table s)))"
proof -
  have t: "table_ok own flt s" using reach_ok(1) [OF assms(4)] start_ok(1) [OF assms(1-3)] by blast
  then have "\<forall>sl \<in> set (dt_managed (lp_table s)). slot_legal own flt sl" by (simp add: table_ok_def Let_def)
  then have "\<forall>sl \<in> set (dt_managed (lp_table s)). own \<noteq> Some (slot_path sl)
      \<and> filter_keyboards_by_specifiers [sl_info sl] flt \<noteq> []" unfolding slot_legal_def by blast
  with t show ?thesis
    by (cases "lp_hotplug s") (simp_all add: table_ok_def Let_def)
qed

lemma managed_devices_consistent_witness:
  "\<exists>dt vd. start_mapping [] control_scan None (Some (Some ''ev9'')) True = Inr (dt, vd, Some ''ev9'')
     \<and> dt_managed dt \<noteq> [] \<and> distinct (map slot_path (dt_managed (lp_table ((loop_start dt vd)\<lparr>lp_batch := [5]\<rparr>))))"
proof -
  obtain vd where vd: "start_mapping [] control_scan None (Some (Some ''ev9'')) True =
      Inr (\<lparr>dt_managed = [control_slot], dt_epoll = [5], dt_removed = []\<rparr>, vd, Some ''ev9'')"
    using control_start by blast
  let ?s0 = "loop_start \<lparr>dt_managed = [control_slot], dt_epoll = [5], dt_removed = []\<rparr> vd"
  have "loop_step (test_lookup_ops id) (Some ''ev9'') None ?s0 (?s0\<lparr>lp_batch := [5]\<rparr>)"
    by (rule epoll_wait) (simp_all add: loop_start_def)
  then have "loop_reach (test_lookup_ops id) (Some ''ev9'') None ?s0 (?s0\<lparr>lp_batch := [5]\<rparr>)"
    by (rule reach_step [OF reach_start])
  from managed_devices_consistent [OF vd control_opened control_distinct this] vd show ?thesis by fastforce
qed



text \<open>
  Without a device in the table, and until one is added, no step changes the virtual keyboard.
\<close>

lemma empty_table_step:
  assumes "loop_step lk own flt s s'" "dt_managed (lp_table s) = []" "lp_actions s = []"
    and "\<forall>fd path. lp_hotplug s \<noteq> HpRegister fd path"
  shows "lp_vd s' = lp_vd s \<and> (length (lp_slots s') = length (lp_slots s) \<longrightarrow>
      dt_managed (lp_table s') = [] \<and> lp_actions s' = [] \<and> (\<forall>fd path. lp_hotplug s' \<noteq> HpRegister fd path))"
  using assms by cases (auto simp: lp_slots_def add_push_def handle_device_remove_def drop_path_def split: option.split)

lemma slots_grow: "loop_step lk own flt s s' \<Longrightarrow> length (lp_slots s) \<le> length (lp_slots s')"
proof -
  have d: "length (dt_managed (drop_path path dt)) + length (dt_removed (drop_path path dt))
      = length (dt_managed dt) + length (dt_removed dt)" for path dt
    by (rule drop_path_cases [of path dt]) auto
  show "loop_step lk own flt s s' \<Longrightarrow> ?thesis"
    by (cases rule: loop_step.cases, assumption)
      (auto simp: lp_slots_def add_push_def add_register_def handle_device_remove_def d split: option.split)
qed

lemma empty_table_reach:
  assumes "loop_reach lk own flt s s'" "dt_managed (lp_table s) = []" "lp_actions s = []" "lp_hotplug s = HpIdle"
  shows "length (lp_slots s) \<le> length (lp_slots s') \<and> (length (lp_slots s') = length (lp_slots s) \<longrightarrow>
      lp_vd s' = lp_vd s \<and> dt_managed (lp_table s') = [] \<and> lp_actions s' = []
      \<and> (\<forall>fd path. lp_hotplug s' \<noteq> HpRegister fd path))"
  using assms
proof (induction rule: loop_reach.induct)
  case (reach_step s s')
  show ?case
    using reach_step slots_grow [OF reach_step(2)] empty_table_step [OF reach_step(2)] by auto
qed simp

text \<open>
  A keyboard that is unplugged with keys held leaves them pressed. When the last device is removed, the
  virtual keyboard is left as it is; whatever the loop and the monitor do from then on, until another
  keyboard is plugged in, every key that was pressed on it stays pressed.
\<close>
theorem unplugged_keyboard_leaves_keys_pressed:
  assumes "lp_hotplug s = HpIdle" and "lp_actions s = []" and "dt_managed (lp_table s) = [sl]"
    and "ud_devnode ud = Some (slot_path sl)"
    and "loop_reach lk own flt (s\<lparr>lp_table := handle_device_remove ud (lp_table s)\<rparr>) s'"
    and "length (lp_slots s') = length (lp_slots s)"
  shows "loop_step lk own flt s (s\<lparr>lp_table := handle_device_remove ud (lp_table s)\<rparr>)
    \<and> pressed_codes (lp_vd s') = pressed_codes (lp_vd s) \<and> dt_managed (lp_table s') = []"
proof -
  let ?r = "s\<lparr>lp_table := handle_device_remove ud (lp_table s)\<rparr>"
  have r: "dt_managed (lp_table ?r) = []" "length (lp_slots ?r) = length (lp_slots s)"
    using assms(3,4) by (simp_all add: handle_device_remove_def drop_path_def lp_slots_def Let_def)
  then show ?thesis
    using empty_table_reach [OF assms(5)] assms(1,2,6) loop_step.hotplug_remove [OF assms(1)] by simp
qed

text \<open>The keyboard is unplugged before Left Control comes up.\<close>

lemma unplugged_keyboard_leaves_keys_pressed_witness:
  "\<exists>dt vd. start_mapping [] control_scan None (Some (Some ''ev9'')) True = Inr (dt, vd, Some ''ev9'')
     \<and> (let s = loop_start dt vd; s' = s\<lparr>lp_table := handle_device_remove control_keyboard (lp_table s)\<rparr>
        in loop_step (test_lookup_ops id) (Some ''ev9'') None s s' \<and> dt_managed (lp_table s') = []
           \<and> pressed_codes (lp_vd s') = {29})"
proof -
  let ?dt = "\<lparr>dt_managed = [control_slot], dt_epoll = [5], dt_removed = []\<rparr>"
  obtain vd where vd: "start_mapping [] control_scan None (Some (Some ''ev9'')) True = Inr (?dt, vd, Some ''ev9'')"
    "pressed_codes vd = {29}"
    using control_start by blast
  let ?s = "loop_start ?dt vd" let ?s' = "?s\<lparr>lp_table := handle_device_remove control_keyboard (lp_table ?s)\<rparr>"
  have p: "ud_devnode control_keyboard = Some (slot_path control_slot)"
    by (simp add: control_keyboard_def control_slot_def slot_path_def held_control_managed)
  have l: "length (lp_slots ?s') = length (lp_slots ?s)"
    by (simp add: lp_slots_def loop_start_def handle_device_remove_def p drop_path_def Let_def)
  from unplugged_keyboard_leaves_keys_pressed [of ?s control_slot control_keyboard "test_lookup_ops id" "Some ''ev9''" None,
      OF _ _ _ p reach_start l] vd
  show ?thesis by (auto simp: loop_start_def Let_def)
qed

end
