(* ===== verification/Karabiner.thy ===== *)
theory Karabiner
  imports Frame Mapping_Cache
begin

text \<open>
  \<open>src/platform/macos/karabiner_client.rs\<close> and \<open>emit.rs\<close>: the client of the virtual keyboard
  daemon on macOS. Its wire format, the reports, the bounded command channel, the checks of the
  socket path and of the peer, and one connection as a sequence of loop iterations; and the
  emission of a mapped key through it.
\<close>

type_synonym u64 = "64 word"

section \<open>Byte order\<close>

definition le_bytes :: "nat \<Rightarrow> 'a :: len word \<Rightarrow> bytes" where
  "le_bytes n w = map (\<lambda>i. ucast (drop_bit (8 * i) w)) [0..<n]"

fun from_le :: "bytes \<Rightarrow> 'a :: len word" where
  "from_le [] = 0"
| "from_le (b # bs) = ucast b OR push_bit 8 (from_le bs)"

lemma length_le_bytes [simp]: "length (le_bytes n w) = n"
  by (simp add: le_bytes_def)

lemma le_bytes_Suc: "le_bytes (Suc n) w = ucast w # le_bytes n (drop_bit 8 w)"
  by (simp add: le_bytes_def upt_conv_Cons map_Suc_upt [symmetric] add.commute del: upt_Suc)

lemma from_le_le_bytes: "from_le (le_bytes n (w :: 'a :: len word)) = take_bit (8 * n) w"
proof (induction n arbitrary: w)
  case (Suc n)
  have "ucast (ucast w :: u8) OR push_bit 8 (take_bit (8 * n) (drop_bit 8 w)) = take_bit (8 * Suc n) w"
    by (rule bit_word_eqI) (auto simp: bit_simps)
  then show ?case by (simp add: le_bytes_Suc Suc)
qed (simp add: le_bytes_def)

lemma from_le_full: "8 * n = LENGTH('a) \<Longrightarrow> from_le (le_bytes n (w :: 'a :: len word)) = w"
  by (simp add: from_le_le_bytes)

section \<open>Protocol constants\<close>

definition PROTOCOL_VERSION :: u16 where "PROTOCOL_VERSION = 7"
definition MSG_HEARTBEAT :: u8 where "MSG_HEARTBEAT = 0"
definition MSG_REQUEST :: u8 where "MSG_REQUEST = 4"
definition MSG_RESPONSE :: u8 where "MSG_RESPONSE = 5"
definition REQ_KEYBOARD_INITIALIZE :: u8 where "REQ_KEYBOARD_INITIALIZE = 0"
definition REQ_POST_KEYBOARD_INPUT_REPORT :: u8 where "REQ_POST_KEYBOARD_INPUT_REPORT = 6"
definition REQ_POST_CONSUMER_INPUT_REPORT :: u8 where "REQ_POST_CONSUMER_INPUT_REPORT = 7"
definition RESP_VIRTUAL_HID_KEYBOARD_READY :: u8 where "RESP_VIRTUAL_HID_KEYBOARD_READY = 4"
definition COMMAND_CHANNEL_CAPACITY :: nat where "COMMAND_CHANNEL_CAPACITY = 4096"
definition DROPPED_LOG_EVERY :: nat where "DROPPED_LOG_EVERY = 4096"
definition MAX_FRAME_SIZE :: nat where "MAX_FRAME_SIZE = 64 * 1024"
definition KEYBOARD_REPORT_SIZE :: nat where "KEYBOARD_REPORT_SIZE = 67"
definition KEYBOARD_MAX_KEYS :: nat where "KEYBOARD_MAX_KEYS = 32"
definition CONSUMER_REPORT_SIZE :: nat where "CONSUMER_REPORT_SIZE = 65"
definition KEYBOARD_REPORT_ID :: u8 where "KEYBOARD_REPORT_ID = 1"
definition CONSUMER_REPORT_ID :: u8 where "CONSUMER_REPORT_ID = 2"

record keyboard_identity =
  vendor_id :: u64
  product_id :: u64
  country_code :: u64

definition OUTPUT_KEYBOARD_IDENTITY :: keyboard_identity where
  "OUTPUT_KEYBOARD_IDENTITY = \<lparr>vendor_id = 0x16c0, product_id = 0x27db, country_code = 0\<rparr>"

section \<open>Frames\<close>

record kframe =
  kf_msg_type :: u8
  kf_body :: bytes

text \<open>Two of the remaining error kinds, by code.\<close>

definition InvalidData :: io_kind where "InvalidData = OtherIo 0"
definition TimedOut :: io_kind where "TimedOut = OtherIo 1"

definition encode_frame :: "u8 \<Rightarrow> bytes \<Rightarrow> bytes" where
  "encode_frame msg_type body = rev (to_le_bytes (1 + word_of_nat (length body))) @ msg_type # body"

definition encode_id_frame :: "u8 \<Rightarrow> u64 \<Rightarrow> bytes \<Rightarrow> bytes" where
  "encode_id_frame msg_type request_id payload = encode_frame msg_type (rev (le_bytes 8 request_id) @ payload)"

text \<open>
  \<open>Read::read_exact\<close> of the standard library: interruptions are retried, any other error is
  returned at once, and what was read before it is gone with the buffer.
\<close>

definition read_exact :: "nat \<Rightarrow> stream_event list \<Rightarrow> (io_kind + bytes) \<times> stream_event list" where
  "read_exact n es =
     (let (res, es', buf, _) = read_into es (replicate n 0) 0
      in case res of
           None \<Rightarrow> (Inr buf, es')
         | Some (Io k) \<Rightarrow> (Inl k, es')
         | Some _ \<Rightarrow> (Inl UnexpectedEof, es'))"

definition decode_frame :: "stream_event list \<Rightarrow> (io_kind + kframe) \<times> stream_event list" where
  "decode_frame es =
     (case read_exact 4 es of
        (Inl k, es1) \<Rightarrow> (Inl k, es1)
      | (Inr len_buf, es1) \<Rightarrow>
          (let body_size = unat (from_le_bytes (len_buf ! 3) (len_buf ! 2) (len_buf ! 1) (len_buf ! 0))
           in if \<not> (1 \<le> body_size \<and> body_size \<le> MAX_FRAME_SIZE) then (Inl InvalidData, es1)
              else (case read_exact body_size es1 of
                      (Inl k, es2) \<Rightarrow> (Inl k, es2)
                    | (Inr body, es2) \<Rightarrow> (Inr \<lparr>kf_msg_type = body ! 0, kf_body = drop 1 body\<rparr>, es2))))"

definition split_id_body :: "bytes \<Rightarrow> io_kind + u64 \<times> bytes" where
  "split_id_body body =
     (if length body < 8 then Inl InvalidData else Inr (from_le (rev (take 8 body)), drop 8 body))"

definition build_request_payload :: "u8 \<Rightarrow> bytes \<Rightarrow> bytes" where
  "build_request_payload request_type report = le_bytes 2 PROTOCOL_VERSION @ request_type # report"

definition build_keyboard_parameters :: "keyboard_identity \<Rightarrow> bytes" where
  "build_keyboard_parameters i =
     le_bytes 8 (vendor_id i) @ le_bytes 8 (product_id i) @ le_bytes 8 (country_code i)"

section \<open>Reports\<close>

text \<open>Writing a slice of a fixed-size array.\<close>

definition write_at :: "nat \<Rightarrow> bytes \<Rightarrow> bytes \<Rightarrow> bytes" where
  "write_at i bs report = take i report @ bs @ drop (i + length bs) report"

fun write_slots :: "nat \<Rightarrow> u16 list \<Rightarrow> bytes \<Rightarrow> bytes" where
  "write_slots slot [] report = report"
| "write_slots slot (usage # usages) report =
     write_slots (Suc slot) usages (write_at (3 + slot * 2) (le_bytes 2 usage) report)"

definition build_keyboard_input_report :: "u8 \<Rightarrow> u16 list \<Rightarrow> bytes" where
  "build_keyboard_input_report modifiers usages =
     (let report = (replicate KEYBOARD_REPORT_SIZE 0)[0 := KEYBOARD_REPORT_ID, 1 := modifiers]
      in write_slots 0 (take KEYBOARD_MAX_KEYS usages) report)"

definition build_consumer_input_report :: "u16 \<Rightarrow> bytes" where
  "build_consumer_input_report usage =
     write_at 1 (le_bytes 2 usage) ((replicate CONSUMER_REPORT_SIZE 0)[0 := CONSUMER_REPORT_ID])"

definition build_consumer_release_report :: bytes where
  "build_consumer_release_report = (replicate CONSUMER_REPORT_SIZE 0)[0 := CONSUMER_REPORT_ID]"

section \<open>The command channel\<close>

datatype client_command =
    KeyboardReport u8 "u16 list"
  | ConsumerPress u16
  | ConsumerRelease

datatype karabiner_error = ThreadSpawnFailed io_kind | ClientDisconnected | ChannelFull

text \<open>
  The sending half: what is queued, whether the receiving thread still exists, and how many
  commands were dropped.
\<close>

record karabiner_client =
  kc_queue :: "client_command list"
  kc_connected :: bool
  kc_dropped :: nat

definition kc_new :: karabiner_client where
  "kc_new = \<lparr>kc_queue = [], kc_connected = True, kc_dropped = 0\<rparr>"

text \<open>\<open>connect\<close>, given the error of the thread start, if it fails.\<close>

definition connect :: "io_kind option \<Rightarrow> karabiner_error + karabiner_client" where
  "connect spawn_error = (case spawn_error of Some e \<Rightarrow> Inl (ThreadSpawnFailed e) | None \<Rightarrow> Inr kc_new)"

definition has_room :: "nat \<Rightarrow> karabiner_client \<Rightarrow> bool" where
  "has_room n c \<longleftrightarrow> COMMAND_CHANNEL_CAPACITY - length (kc_queue c) \<ge> n"

text \<open>\<open>note_dropped\<close>: whether it warns, and the counter.\<close>

definition note_dropped :: "nat \<Rightarrow> karabiner_client \<Rightarrow> bool \<times> karabiner_client" where
  "note_dropped n c =
     (let total = kc_dropped c + n
      in (total = n \<or> (total - n) div DROPPED_LOG_EVERY < total div DROPPED_LOG_EVERY,
          c\<lparr>kc_dropped := total\<rparr>))"

definition enqueue :: "client_command \<Rightarrow> karabiner_client \<Rightarrow> (karabiner_error + unit) \<times> karabiner_client" where
  "enqueue cmd c =
     (if \<not> kc_connected c then (Inl ClientDisconnected, c)
      else if length (kc_queue c) \<ge> COMMAND_CHANNEL_CAPACITY then (Inl ChannelFull, c)
      else (Inr (), c\<lparr>kc_queue := kc_queue c @ [cmd]\<rparr>))"

definition send_keyboard_report ::
  "u8 \<Rightarrow> u16 list \<Rightarrow> karabiner_client \<Rightarrow> (karabiner_error + unit) \<times> karabiner_client" where
  "send_keyboard_report modifiers usages c = enqueue (KeyboardReport modifiers usages) c"

definition send_consumer_report ::
  "u16 \<Rightarrow> karabiner_client \<Rightarrow> (karabiner_error + unit) \<times> karabiner_client" where
  "send_consumer_report usage c = enqueue (ConsumerPress usage) c"

definition send_consumer_release :: "karabiner_client \<Rightarrow> (karabiner_error + unit) \<times> karabiner_client" where
  "send_consumer_release c = enqueue ConsumerRelease c"

section \<open>Emission of a mapped key (emit.rs)\<close>

text \<open>The press and the release loop over the bits, with the running modifier byte.\<close>

fun press_reports :: "u8 \<Rightarrow> nat list \<Rightarrow> u8 \<Rightarrow> (u8 \<times> u16 list) list \<times> u8" where
  "press_reports output_modifiers [] ms = ([], ms)"
| "press_reports output_modifiers (b # bs) ms =
     (if drop_bit b output_modifiers AND 1 = 1 then
        (let ms1 = ms OR push_bit b 1; (rs, ms2) = press_reports output_modifiers bs ms1
         in ((ms1, []) # rs, ms2))
      else press_reports output_modifiers bs ms)"

fun release_reports :: "u8 \<Rightarrow> nat list \<Rightarrow> u8 \<Rightarrow> (u8 \<times> u16 list) list" where
  "release_reports output_modifiers [] ms = []"
| "release_reports output_modifiers (b # bs) ms =
     (if drop_bit b output_modifiers AND 1 = 1 then
        (let ms1 = ms AND NOT (push_bit b 1) in (ms1, []) # release_reports output_modifiers bs ms1)
      else release_reports output_modifiers bs ms)"

definition keyboard_report_sequence :: "native_key \<Rightarrow> (u8 \<times> u16 list) list" where
  "keyboard_report_sequence nk =
     (let base_usage = hid_id (nk_usage nk);
          (downs, ms) = press_reports (nk_modifiers nk) [0..<8] 0
      in downs @ [(ms, [base_usage]), (ms, [])] @ release_reports (nk_modifiers nk) (rev [0..<8]) ms)"

fun send_reports :: "(u8 \<times> u16 list) list \<Rightarrow> karabiner_client \<Rightarrow> karabiner_client" where
  "send_reports [] c = c"
| "send_reports ((ms, usages) # rs) c =
     (case send_keyboard_report ms usages c of (Inl _, c1) \<Rightarrow> c1 | (Inr _, c1) \<Rightarrow> send_reports rs c1)"

definition emit_native_key :: "native_key \<Rightarrow> karabiner_client \<Rightarrow> karabiner_client" where
  "emit_native_key nk c =
     (if hid_page (nk_usage nk) = PAGE_KEYBOARD then
        (let sequence = keyboard_report_sequence nk
         in if \<not> has_room (length sequence) c then snd (note_dropped (length sequence) c)
            else send_reports sequence c)
      else if \<not> has_room 2 c then snd (note_dropped 2 c)
      else (case send_consumer_report (hid_id (nk_usage nk)) c of
              (Inl _, c1) \<Rightarrow> c1
            | (Inr _, c1) \<Rightarrow> snd (send_consumer_release c1)))"

section \<open>One connection\<close>

text \<open>
  The socket: what is left to read, which of the next writes fail, and the frames written.
\<close>

record connection =
  cn_in :: "stream_event list"
  cn_faults :: "io_kind option list"
  cn_out :: "bytes list"
  cn_next_id :: u64
  cn_ready :: bool
  cn_ever_ready :: bool

definition cn_write_all :: "bytes \<Rightarrow> connection \<Rightarrow> (io_kind + unit) \<times> connection" where
  "cn_write_all bs cn =
     (case cn_faults cn of
        [] \<Rightarrow> (Inr (), cn\<lparr>cn_out := cn_out cn @ [bs]\<rparr>)
      | None # fs \<Rightarrow> (Inr (), cn\<lparr>cn_faults := fs, cn_out := cn_out cn @ [bs]\<rparr>)
      | Some k # fs \<Rightarrow> (Inl k, cn\<lparr>cn_faults := fs\<rparr>))"

definition send_request :: "u8 \<Rightarrow> bytes \<Rightarrow> connection \<Rightarrow> (io_kind + unit) \<times> connection" where
  "send_request request_type report cn =
     (let payload = build_request_payload request_type report;
          frame = encode_id_frame MSG_REQUEST (cn_next_id cn) payload
      in cn_write_all frame (cn\<lparr>cn_next_id := cn_next_id cn + 1\<rparr>))"

definition send_command :: "client_command \<Rightarrow> connection \<Rightarrow> (io_kind + unit) \<times> connection" where
  "send_command cmd cn =
     (case cmd of
        KeyboardReport modifiers usages \<Rightarrow>
          send_request REQ_POST_KEYBOARD_INPUT_REPORT (build_keyboard_input_report modifiers usages) cn
      | ConsumerPress usage \<Rightarrow>
          send_request REQ_POST_CONSUMER_INPUT_REPORT (build_consumer_input_report usage) cn
      | ConsumerRelease \<Rightarrow> send_request REQ_POST_CONSUMER_INPUT_REPORT build_consumer_release_report cn)"

text \<open>The pairs of a state update; an odd byte at the end is ignored.\<close>

fun apply_state_pairs :: "bytes \<Rightarrow> bool \<Rightarrow> bool" where
  "apply_state_pairs (t # v # rest) ready =
     apply_state_pairs rest (if t = RESP_VIRTUAL_HID_KEYBOARD_READY then v = 1 else ready)"
| "apply_state_pairs _ ready = ready"

definition handle_frame :: "kframe \<Rightarrow> connection \<Rightarrow> (io_kind + unit) \<times> connection" where
  "handle_frame f cn =
     (if kf_msg_type f = MSG_REQUEST then
        (case split_id_body (kf_body f) of
           Inl k \<Rightarrow> (Inl k, cn)
         | Inr (request_id, payload) \<Rightarrow>
             cn_write_all (encode_id_frame MSG_RESPONSE request_id [])
               (cn\<lparr>cn_ready := apply_state_pairs payload (cn_ready cn)\<rparr>))
      else if kf_msg_type f = MSG_RESPONSE then
        (case split_id_body (kf_body f) of
           Inl k \<Rightarrow> (Inl k, cn)
         | Inr (_, payload) \<Rightarrow> (Inr (), cn\<lparr>cn_ready := apply_state_pairs payload (cn_ready cn)\<rparr>))
      else (Inr (), cn))"

text \<open>The commands a loop iteration finds in the channel, sent or dropped.\<close>

fun drain_commands :: "client_command list \<Rightarrow> connection \<Rightarrow> (io_kind + unit) \<times> connection" where
  "drain_commands [] cn = (Inr (), cn)"
| "drain_commands (cmd # cmds) cn =
     (if cn_ready cn then
        (case send_command cmd cn of
           (Inl k, cn1) \<Rightarrow> (Inl k, cn1) | (Inr _, cn1) \<Rightarrow> drain_commands cmds cn1)
      else drain_commands cmds cn)"

text \<open>
  What one iteration of \<open>run_connection\<close> finds: the shutdown flag, whether the heartbeat is due,
  whether the read timeout has passed, the error of setting the socket's read timeout if that fails,
  and the commands received.
\<close>

record iteration =
  it_shutdown :: bool
  it_heartbeat_due :: bool
  it_read_timeout :: bool
  it_set_timeout :: "io_kind option"
  it_commands :: "client_command list"

datatype loop_result = Continue | Finished | Failed io_kind

definition run_iteration :: "iteration \<Rightarrow> connection \<Rightarrow> loop_result \<times> connection" where
  "run_iteration it cn =
     (if it_shutdown it then (Finished, cn)
      else
        case (if it_heartbeat_due it then cn_write_all (encode_frame MSG_HEARTBEAT []) cn else (Inr (), cn)) of
          (Inl k, cn1) \<Rightarrow> (Failed k, cn1)
        | (Inr _, cn1) \<Rightarrow>
            if it_read_timeout it then (Failed TimedOut, cn1)
            else case it_set_timeout it of Some k \<Rightarrow> (Failed k, cn1) | None \<Rightarrow>
              (let (r, es) = decode_frame (cn_in cn1); cn2 = cn1\<lparr>cn_in := es\<rparr>
               in case (case r of
                          Inr f \<Rightarrow> handle_frame f cn2
                        | Inl k \<Rightarrow> if k = WouldBlock then (Inr (), cn2) else (Inl k, cn2)) of
                    (Inl k, cn3) \<Rightarrow> (Failed k, cn3)
                  | (Inr _, cn3) \<Rightarrow>
                      (let cn4 = (if cn_ready cn3 then cn3\<lparr>cn_ever_ready := True\<rparr> else cn3)
                       in case drain_commands (it_commands it) cn4 of
                            (Inl k, cn5) \<Rightarrow> (Failed k, cn5)
                          | (Inr _, cn5) \<Rightarrow> (Continue, cn5))))"

fun run_iterations :: "iteration list \<Rightarrow> connection \<Rightarrow> loop_result \<times> connection" where
  "run_iterations [] cn = (Continue, cn)"
| "run_iterations (it # its) cn =
     (case run_iteration it cn of (Continue, cn1) \<Rightarrow> run_iterations its cn1 | (r, cn1) \<Rightarrow> (r, cn1))"

text \<open>The first argument is the error of setting the socket's write timeout, if that fails.\<close>

definition run_connection ::
  "io_kind option \<Rightarrow> keyboard_identity \<Rightarrow> iteration list \<Rightarrow> connection \<Rightarrow> loop_result \<times> connection" where
  "run_connection set_timeout identity its cn =
     (case set_timeout of Some k \<Rightarrow> (Failed k, cn) | None \<Rightarrow>
      case send_request REQ_KEYBOARD_INITIALIZE (build_keyboard_parameters identity) (cn\<lparr>cn_next_id := 1\<rparr>) of
        (Inl k, cn1) \<Rightarrow> (Failed k, cn1)
      | (Inr _, cn1) \<Rightarrow> run_iterations its cn1)"

section \<open>Authentication\<close>

text \<open>The mode bits \<open>0o022\<close> and \<open>0o1000\<close>.\<close>

definition WRITABLE_BY_OTHERS :: u32 where "WRITABLE_BY_OTHERS = 18"
definition STICKY_BIT :: u32 where "STICKY_BIT = 512"

text \<open>
  A path is the list of its components below the root. The file system is a function from paths
  to metadata, undefined where there is nothing.
\<close>

type_synonym path = "string list"

record path_meta =
  pm_is_dir :: bool
  pm_mode :: u32
  pm_uid :: nat

definition path_parent :: "path \<Rightarrow> path option" where
  "path_parent p = (if p = [] then None else Some (butlast p))"

definition path_ancestors :: "path \<Rightarrow> path list" where
  "path_ancestors p = map (\<lambda>n. take n p) (rev [0..<Suc (length p)])"

datatype path_error = NoParent | NotADirectory path | WritableByOthers path | NotOwnedByRoot path nat

fun check_ancestors :: "(path \<Rightarrow> path_meta option) \<Rightarrow> bool \<Rightarrow> path list \<Rightarrow> path_error + unit" where
  "check_ancestors metadata is_root [] = Inr ()"
| "check_ancestors metadata is_root (a # as) =
     (case metadata a of
        None \<Rightarrow> check_ancestors metadata is_root as
      | Some meta \<Rightarrow>
          if \<not> pm_is_dir meta then Inl (NotADirectory a)
          else if pm_mode meta AND WRITABLE_BY_OTHERS \<noteq> 0 \<and> pm_mode meta AND STICKY_BIT = 0
          then Inl (WritableByOthers a)
          else if is_root \<and> pm_uid meta \<noteq> 0 then Inl (NotOwnedByRoot a (pm_uid meta))
          else check_ancestors metadata is_root as)"

definition check_socket_path_security ::
  "(path \<Rightarrow> path_meta option) \<Rightarrow> path \<Rightarrow> nat \<Rightarrow> path_error + unit" where
  "check_socket_path_security metadata p current_uid =
     (case path_parent p of
        None \<Rightarrow> Inl NoParent
      | Some parent \<Rightarrow> check_ancestors metadata (current_uid = 0) (path_ancestors parent))"

datatype peer_error = GetPeerFailed | WrongUid nat nat | WrongGid nat nat

text \<open>The peer's uid and gid as \<open>getpeereid\<close> reports them, if it succeeds.\<close>

definition verify_server_uid :: "(nat \<times> nat) option \<Rightarrow> nat \<Rightarrow> nat \<Rightarrow> peer_error + unit" where
  "verify_server_uid peer expected_uid expected_gid =
     (case peer of
        None \<Rightarrow> Inl GetPeerFailed
      | Some (uid, gid) \<Rightarrow>
          if uid \<noteq> expected_uid then Inl (WrongUid uid expected_uid)
          else if gid \<noteq> expected_gid then Inl (WrongGid gid expected_gid)
          else Inr ())"

section \<open>The client loop\<close>

definition SOCKET_PATH :: path where
  "SOCKET_PATH = [''Library'', ''Application Support'', ''org.pqrs'', ''tmp'', ''rootonly'',
     ''karabiner_virtual_hid_device_service.sock'']"

text \<open>
  \<open>probe_socket\<close>, given the file system, the user, the result of connecting to the socket and the
  peer behind it.
\<close>

datatype probe_error = PathRejected path_error | ConnectFailed io_kind | PeerRejected peer_error

definition probe_socket ::
  "(path \<Rightarrow> path_meta option) \<Rightarrow> nat \<Rightarrow> io_kind option \<Rightarrow> (nat \<times> nat) option \<Rightarrow> probe_error + unit" where
  "probe_socket metadata current_uid connect_error peer =
     (case check_socket_path_security metadata SOCKET_PATH current_uid of
        Inl e \<Rightarrow> Inl (PathRejected e)
      | Inr _ \<Rightarrow>
          (case connect_error of
             Some e \<Rightarrow> Inl (ConnectFailed e)
           | None \<Rightarrow>
               (case verify_server_uid peer 0 0 of Inl e \<Rightarrow> Inl (PeerRejected e) | Inr _ \<Rightarrow> Inr ())))"

text \<open>
  What one round of \<open>client_loop\<close> meets: the shutdown flag at its start, the file system, the
  connection if the socket can be connected to, the peer behind it, and the iterations of the
  connection.
\<close>

record attempt =
  at_shutdown :: bool
  at_metadata :: "path \<Rightarrow> path_meta option"
  at_uid :: nat
  at_socket :: "connection option"
  at_peer :: "(nat \<times> nat) option"
  at_set_timeout :: "io_kind option"
  at_iterations :: "iteration list"

definition client_attempt :: "keyboard_identity \<Rightarrow> attempt \<Rightarrow> bool \<Rightarrow> connection option \<times> bool" where
  "client_attempt identity a ready =
     (case check_socket_path_security (at_metadata a) SOCKET_PATH (at_uid a) of
        Inl _ \<Rightarrow> (None, ready)
      | Inr _ \<Rightarrow>
          (case at_socket a of
             None \<Rightarrow> (None, ready)
           | Some cn \<Rightarrow>
               (case verify_server_uid (at_peer a) 0 0 of
                  Inl _ \<Rightarrow> (Some cn, False)
                | Inr _ \<Rightarrow>
                    (Some (snd (run_connection (at_set_timeout a) identity (at_iterations a)
                       (cn\<lparr>cn_ready := ready, cn_ever_ready := False\<rparr>))), False))))"

fun client_loop :: "keyboard_identity \<Rightarrow> attempt list \<Rightarrow> bool \<Rightarrow> connection option list" where
  "client_loop identity [] ready = []"
| "client_loop identity (a # as) ready =
     (if at_shutdown a then []
      else (let (cn, ready') = client_attempt identity a ready in cn # client_loop identity as ready'))"

section \<open>Frames: lemmas\<close>

lemma read_exact_ok:
  assumes "uninterrupted es" "stream_bytes es = bs @ rest"
  shows "\<exists>es'. read_exact (length bs) es = (Inr bs, es') \<and> uninterrupted es' \<and> stream_bytes es' = rest"
proof -
  obtain res es' buf' filled' where r: "read_into es (replicate (length bs) 0) 0 = (res, es', buf', filled')"
    by (metis prod.collapse)
  note spec = read_into_spec [OF r, simplified] and sm = smooth_read_into [OF uninterrupted_smooth [OF assms(1)] r]
    and u = uninterrupted_read_into [OF assms(1) r]
  have "res = None"
  proof (cases res)
    case (Some e)
    then have "e = Eof" using spec u by (cases e) auto
    with Some sm spec assms(2) have "es' = []" "filled' < length bs" "take filled' buf' = bs @ rest" by auto
    then have "length bs + length rest \<le> filled'"
      by (metis length_append length_take min.cobounded2)
    with \<open>filled' < length bs\<close> show ?thesis by simp
  qed
  with spec u assms(2) r show ?thesis by (auto simp: read_exact_def)
qed

lemma from_le_bytes_rev:
  "from_le_bytes (rev (to_le_bytes w) ! 3) (rev (to_le_bytes w) ! 2) (rev (to_le_bytes w) ! 1)
     (rev (to_le_bytes w) ! 0) = w"
  by (simp add: to_le_bytes_def)

lemma decode_encode_frame:
  assumes "uninterrupted es" "stream_bytes es = encode_frame t body @ rest" "length body < MAX_FRAME_SIZE"
  shows "\<exists>es'. decode_frame es = (Inr \<lparr>kf_msg_type = t, kf_body = body\<rparr>, es')
    \<and> uninterrupted es' \<and> stream_bytes es' = rest"
proof -
  let ?w = "1 + word_of_nat (length body) :: u32"
  have lb: "length (rev (to_le_bytes ?w)) = 4" by simp
  have w: "unat ?w = Suc (length body)"
    using assms(3) unat_length_word [of "Suc (length body)"] by (simp add: MAX_FRAME_SIZE_def)
  obtain es1 where r1: "read_exact 4 es = (Inr (rev (to_le_bytes ?w)), es1)" "uninterrupted es1"
    "stream_bytes es1 = (t # body) @ rest"
    using read_exact_ok [OF assms(1), of "rev (to_le_bytes ?w)" "(t # body) @ rest"] assms(2) lb
    by (auto simp: encode_frame_def)
  obtain es2 where r2: "read_exact (length (t # body)) es1 = (Inr (t # body), es2)" "uninterrupted es2"
    "stream_bytes es2 = rest"
    using read_exact_ok [OF r1(2,3)] by blast
  show ?thesis
    using r1 r2 assms(3) unfolding decode_frame_def
    by (simp only: prod.case sum.case Let_def from_le_bytes_rev w) simp
qed

interpretation kf: codec "\<lambda>(t, body). encode_frame t body"
  "\<lambda>bs. case fst (decode_frame [Chunk bs]) of Inr f \<Rightarrow> Inr (kf_msg_type f, kf_body f) | Inl k \<Rightarrow> Inl k"
  "\<lambda>(t, body). length body < MAX_FRAME_SIZE"
proof (unfold_locales, clarify)
  fix t body rest assume b: "length (body :: bytes) < MAX_FRAME_SIZE"
  have "uninterrupted [Chunk (encode_frame t body @ rest)]"
    by (simp add: uninterrupted_def encode_frame_def)
  from decode_encode_frame [OF this _ b, of t rest]
  show "(case fst (decode_frame [Chunk (encode_frame t body @ rest)]) of
      Inr f \<Rightarrow> Inr (kf_msg_type f, kf_body f) | Inl k \<Rightarrow> Inl k) = Inr (t, body)"
    by auto
qed

lemma split_id_body_id:
  "split_id_body (rev (le_bytes 8 request_id) @ payload) = Inr (request_id, payload)"
  by (simp add: split_id_body_def from_le_full)

section \<open>Report sequences: lemmas\<close>

text \<open>The keys a report shows pressed: modifier bits and usages.\<close>

definition report_keys :: "u8 \<times> u16 list \<Rightarrow> (nat + u16) set" where
  "report_keys r = Inl ` bits_of (fst r) \<union> Inr ` set (snd r)"

text \<open>Between two reports precisely one key goes down or up.\<close>

definition one_transition :: "u8 \<times> u16 list \<Rightarrow> u8 \<times> u16 list \<Rightarrow> bool" where
  "one_transition r r' \<longleftrightarrow>
     (\<exists>k. (k \<notin> report_keys r \<and> report_keys r' = insert k (report_keys r))
        \<or> (k \<in> report_keys r \<and> report_keys r' = report_keys r - {k}))"

lemma bits_of_single: "b < 8 \<Longrightarrow> bits_of (2 ^ b) = {b}"
  by (auto simp: bits_of_def bit_simps simp flip: push_bit_of_1)

lemma modifier_transition:
  assumes "b < 8"
  shows "b \<notin> bits_of ms \<Longrightarrow> one_transition (ms, []) (ms OR 2 ^ b, [])"
    and "b \<in> bits_of ms \<Longrightarrow> one_transition (ms, []) (ms AND NOT (2 ^ b), [])"
  using bits_of_single [OF assms]
  by (auto simp: one_transition_def report_keys_def bits_of_and_not intro!: exI [of _ "Inl b"] simp del: bits_of_and)

lemma shifted_bit_u8: "drop_bit b (ms :: u8) AND 1 = 1 \<longleftrightarrow> b \<in> bits_of ms"
  by (simp add: and_one_eq mod_2_eq_odd bit_iff_odd_drop_bit bits_of_iff)

lemma press_reports_spec:
  assumes "press_reports om bs ms = (rs, ms')" "distinct bs" "\<forall>b \<in> set bs. b < 8 \<and> b \<notin> bits_of ms"
  shows "bits_of ms' = bits_of ms \<union> {b \<in> set bs. b \<in> bits_of om}
    \<and> successively one_transition ((ms, []) # rs) \<and> last ((ms, []) # rs) = (ms', [])
    \<and> length rs = length (filter (\<lambda>b. b \<in> bits_of om) bs)"
  using assms
proof (induction bs arbitrary: ms rs)
  case (Cons b bs)
  show ?case
  proof (cases "b \<in> bits_of om")
    case False
    then show ?thesis using Cons.prems Cons.IH [of ms rs] by (auto simp: shifted_bit_u8)
  next
    case True
    let ?ms1 = "ms OR 2 ^ b"
    obtain rs1 where r: "press_reports om bs ?ms1 = (rs1, ms')" "rs = (?ms1, []) # rs1"
      using Cons.prems(1) True by (cases "press_reports om bs ?ms1") (auto simp: shifted_bit_u8 Let_def)
    have "\<forall>b' \<in> set bs. b' < 8 \<and> b' \<notin> bits_of ?ms1"
      using Cons.prems(2,3) by (auto simp: bits_of_single)
    from Cons.IH [OF r(1) _ this] Cons.prems(2,3) r(2) True show ?thesis
      by (auto simp: bits_of_single modifier_transition)
  qed
qed simp

lemma release_reports_spec:
  assumes "distinct bs" "\<forall>b \<in> set bs. b < 8 \<and> (b \<in> bits_of om \<longrightarrow> b \<in> bits_of ms)"
  shows "successively one_transition ((ms, []) # release_reports om bs ms)
    \<and> bits_of (fst (last ((ms, []) # release_reports om bs ms))) = bits_of ms - {b \<in> set bs. b \<in> bits_of om}
    \<and> snd (last ((ms, []) # release_reports om bs ms)) = []
    \<and> length (release_reports om bs ms) = length (filter (\<lambda>b. b \<in> bits_of om) bs)"
  using assms
proof (induction bs arbitrary: ms)
  case (Cons b bs)
  show ?case
  proof (cases "b \<in> bits_of om")
    case False
    then show ?thesis using Cons.prems Cons.IH [of ms] by (auto simp: shifted_bit_u8)
  next
    case True
    let ?ms1 = "ms AND NOT (2 ^ b)"
    have ms1: "bits_of ?ms1 = bits_of ms - {b}"
      using Cons.prems(2) by (simp add: bits_of_and_not bits_of_single del: bits_of_and)
    have "\<forall>b' \<in> set bs. b' < 8 \<and> (b' \<in> bits_of om \<longrightarrow> b' \<in> bits_of ?ms1)"
      using Cons.prems unfolding ms1 by auto
    from Cons.IH [OF _ this] Cons.prems True show ?thesis
      unfolding ms1 by (auto simp: shifted_bit_u8 Let_def modifier_transition)
  qed
qed simp

lemma filter_bits_length: "length (filter (\<lambda>b. b \<in> bits_of om) [0..<8]) = card (bits_of om)"
proof -
  have "set (filter (\<lambda>b. b \<in> bits_of om) [0..<8]) = bits_of om" using bits_of_bound by auto
  then show ?thesis by (metis distinct_card distinct_filter distinct_upt)
qed

section \<open>The channel and the connection: lemmas\<close>

lemma send_reports_queue:
  "length (kc_queue c) + length rs \<le> COMMAND_CHANNEL_CAPACITY \<Longrightarrow>
   send_reports rs c = (if kc_connected c then c\<lparr>kc_queue := kc_queue c @ map (\<lambda>(ms, us). KeyboardReport ms us) rs\<rparr> else c)"
  by (induction rs c rule: send_reports.induct)
    (auto simp: send_keyboard_report_def enqueue_def)

text \<open>The commands of a key, and the frames of commands with consecutive request ids.\<close>

definition native_commands :: "native_key \<Rightarrow> client_command list" where
  "native_commands nk =
     (if hid_page (nk_usage nk) = PAGE_KEYBOARD
      then map (\<lambda>(ms, us). KeyboardReport ms us) (keyboard_report_sequence nk)
      else [ConsumerPress (hid_id (nk_usage nk)), ConsumerRelease])"

definition command_payload :: "client_command \<Rightarrow> bytes" where
  "command_payload cmd =
     (case cmd of
        KeyboardReport ms us \<Rightarrow> build_request_payload REQ_POST_KEYBOARD_INPUT_REPORT (build_keyboard_input_report ms us)
      | ConsumerPress u \<Rightarrow> build_request_payload REQ_POST_CONSUMER_INPUT_REPORT (build_consumer_input_report u)
      | ConsumerRelease \<Rightarrow> build_request_payload REQ_POST_CONSUMER_INPUT_REPORT build_consumer_release_report)"

fun command_frames :: "u64 \<Rightarrow> client_command list \<Rightarrow> bytes list" where
  "command_frames request_id [] = []"
| "command_frames request_id (cmd # cmds) =
     encode_id_frame MSG_REQUEST request_id (command_payload cmd) # command_frames (request_id + 1) cmds"

lemma drain_commands_spec:
  assumes "cn_faults cn = []"
  shows "drain_commands cmds cn =
    (Inr (), if cn_ready cn
             then cn\<lparr>cn_out := cn_out cn @ command_frames (cn_next_id cn) cmds,
                     cn_next_id := cn_next_id cn + of_nat (length cmds)\<rparr>
             else cn)"
  using assms
proof (induction cmds arbitrary: cn)
  case (Cons cmd cmds)
  have "send_command cmd cn = (Inr (), cn\<lparr>cn_next_id := cn_next_id cn + 1,
      cn_out := cn_out cn @ [encode_id_frame MSG_REQUEST (cn_next_id cn) (command_payload cmd)]\<rparr>)"
    using Cons.prems
    by (cases cmd) (simp_all add: send_command_def send_request_def cn_write_all_def command_payload_def Let_def)
  with Cons show ?case by (simp add: algebra_simps)
qed simp

lemma check_ancestors_ok:
  "check_ancestors metadata r as = Inr () \<Longrightarrow> a \<in> set as \<Longrightarrow> metadata a = Some m \<Longrightarrow>
     pm_is_dir m \<and> (pm_mode m AND WRITABLE_BY_OTHERS = 0 \<or> pm_mode m AND STICKY_BIT \<noteq> 0) \<and> (r \<longrightarrow> pm_uid m = 0)"
  by (induction as) (auto split: option.splits if_splits)

section \<open>Properties\<close>

text \<open>
  A message of the virtual keyboard protocol is read back: from a stream that delivers its
  frame in pieces of any size, with interruptions in between, exactly the frame is read, its body
  splits into the request id and the payload, and what follows it in the stream is left.
\<close>
theorem karabiner_frame_round_trip:
  assumes "uninterrupted es" "stream_bytes es = encode_id_frame msg_type request_id payload @ rest"
    and "length payload + 8 < MAX_FRAME_SIZE"
  shows "\<exists>f es'. decode_frame es = (Inr f, es') \<and> kf_msg_type f = msg_type
    \<and> split_id_body (kf_body f) = Inr (request_id, payload) \<and> stream_bytes es' = rest"
  using decode_encode_frame [OF assms(1) assms(2) [unfolded encode_id_frame_def]] assms(3)
  by (auto simp: split_id_body_id)

lemma karabiner_frame_round_trip_witness:
  "\<exists>f es'. decode_frame [Chunk [0, 0], Fault Interrupted, Chunk [0, 10, 5, 0, 0, 0, 0, 0, 0, 0, 9, 7, 1]] = (Inr f, es')
    \<and> kf_msg_type f = 5 \<and> split_id_body (kf_body f) = Inr (9, [7]) \<and> stream_bytes es' = [1]"
proof (rule karabiner_frame_round_trip)
  have "le_bytes 8 (9 :: u64) = [9, 0, 0, 0, 0, 0, 0, 0]"
    by (simp add: le_bytes_def upt_rec)
  then show "stream_bytes [Chunk [0, 0], Fault Interrupted, Chunk [0, 10, 5, 0, 0, 0, 0, 0, 0, 0, 9, 7, 1]] =
      encode_id_frame 5 9 [7] @ [1]"
    by (simp add: encode_id_frame_def encode_frame_def to_le_bytes_def)
qed (simp_all add: uninterrupted_def MAX_FRAME_SIZE_def)

text \<open>
  A read timeout inside a frame loses its first bytes: when the socket's poll interval runs
  out after part of the length field has been read, the frame is reported as not there yet, and
  the bytes already read are gone from the stream, so the next frame is read from the middle of
  this one.
\<close>
theorem timeout_loses_partial_frame:
  assumes "0 < length bs" "length bs < 4"
  shows "decode_frame (Chunk bs # Fault WouldBlock # es) = (Inl WouldBlock, es)"
  using assms
  by (simp add: decode_frame_def read_exact_def read_into.simps [of "Chunk bs # Fault WouldBlock # es"]
      read_into.simps [of "Fault WouldBlock # es"])

lemma timeout_loses_partial_frame_witness:
  "decode_frame [Chunk [0, 0], Fault WouldBlock, Chunk [0, 1, 0]] = (Inl WouldBlock, [Chunk [0, 1, 0]])"
  by (rule timeout_loses_partial_frame) simp_all

text \<open>
  The reports of a key are a clean tap: starting from nothing pressed, each report differs
  from the one before by one key going down or coming up, the base key is shown pressed with
  exactly the output's modifiers, the last report shows nothing pressed, and there are two reports
  per modifier and two for the base key.
\<close>
theorem report_sequence_is_clean_tap:
  "successively one_transition ((0, []) # keyboard_report_sequence nk)
   \<and> (nk_modifiers nk, [hid_id (nk_usage nk)]) \<in> set (keyboard_report_sequence nk)
   \<and> last (keyboard_report_sequence nk) = (0, [])
   \<and> length (keyboard_report_sequence nk) = 2 * card (bits_of (nk_modifiers nk)) + 2"
proof -
  let ?om = "nk_modifiers nk" and ?u = "hid_id (nk_usage nk)"
  define up :: "nat list" where "up = [0..<8]"
  have up: "distinct up" "set up = {..<8}" by (auto simp: up_def)
  obtain rs ms where p: "press_reports ?om up 0 = (rs, ms)" by fastforce
  have "\<forall>b \<in> set up. b < 8 \<and> b \<notin> bits_of (0 :: u8)" by (simp add: up)
  note ps = press_reports_spec [OF p up(1) this]
  have "bits_of ms = bits_of ?om" using ps bits_of_bound by (auto simp: up)
  then have ms: "ms = ?om" by (simp add: bits_of_inject)
  define bs :: "nat list" where "bs = rev [0..<8]"
  have bs: "distinct bs" "set bs = {..<8}" by (auto simp: bs_def)
  let ?rel = "release_reports ?om bs ms"
  have "length (filter (\<lambda>b. b \<in> bits_of ?om) bs) = card (bits_of ?om)"
    unfolding bs_def using filter_bits_length [of ?om] by (metis length_rev rev_filter)
  moreover have "bits_of ms - {b \<in> set bs. b \<in> bits_of ?om} = {}"
    using bits_of_bound by (auto simp: ms bs)
  moreover have "\<forall>b \<in> set bs. b < 8 \<and> (b \<in> bits_of ?om \<longrightarrow> b \<in> bits_of ms)" by (simp add: ms bs)
  note release_reports_spec [OF bs(1) this]
  ultimately have rs: "successively one_transition ((ms, []) # ?rel)" "bits_of (fst (last ((ms, []) # ?rel))) = {}"
    "snd (last ((ms, []) # ?rel)) = []" "length ?rel = card (bits_of ?om)"
    by (simp_all del: last.simps)
  have seq: "keyboard_report_sequence nk = rs @ [(ms, [?u]), (ms, [])] @ ?rel"
    using p by (simp add: keyboard_report_sequence_def bs_def up_def del: upt_Suc)
  have "one_transition (ms, []) (ms, [?u])" "one_transition (ms, [?u]) (ms, [])"
    by (auto simp: one_transition_def report_keys_def intro!: exI [of _ "Inr ?u"])
  then have "successively one_transition ((ms, [?u]) # (ms, []) # ?rel)" using rs(1) by simp
  moreover have "one_transition (last ((0, []) # rs)) (ms, [?u])"
    using ps \<open>one_transition (ms, []) (ms, [?u])\<close> by presburger
  ultimately have "successively one_transition (((0, []) # rs) @ (ms, [?u]) # (ms, []) # ?rel)"
    unfolding successively_append_iff using ps by simp
  moreover have "last (keyboard_report_sequence nk) = (0, [])"
    using rs(2,3) by (simp add: seq prod_eq_iff bits_of_empty_iff)
  moreover have "length rs = card (bits_of ?om)" using ps filter_bits_length [of ?om] by (simp add: up_def)
  ultimately show ?thesis using rs(4) by (simp add: seq ms)
qed

text \<open>
  C24. A key is queued whole or not at all: when the bounded channel has room for all the reports
  of a key and its reader is alive, exactly these are appended; otherwise the queue is unchanged,
  and without room they are counted as dropped. The queue never exceeds its capacity.
\<close>
theorem key_queued_whole_or_not:
  assumes "length (kc_queue c) \<le> COMMAND_CHANNEL_CAPACITY"
  shows "emit_native_key nk c =
      (if length (kc_queue c) + length (native_commands nk) > COMMAND_CHANNEL_CAPACITY
       then c\<lparr>kc_dropped := kc_dropped c + length (native_commands nk)\<rparr>
       else if kc_connected c then c\<lparr>kc_queue := kc_queue c @ native_commands nk\<rparr> else c)
    \<and> length (kc_queue (emit_native_key nk c)) \<le> COMMAND_CHANNEL_CAPACITY"
proof -
  have room: "has_room n c \<longleftrightarrow> length (kc_queue c) + n \<le> COMMAND_CHANNEL_CAPACITY" for n
    using assms by (auto simp: has_room_def)
  have "emit_native_key nk c =
      (if length (kc_queue c) + length (native_commands nk) > COMMAND_CHANNEL_CAPACITY
       then c\<lparr>kc_dropped := kc_dropped c + length (native_commands nk)\<rparr>
       else if kc_connected c then c\<lparr>kc_queue := kc_queue c @ native_commands nk\<rparr> else c)"
  proof (cases "hid_page (nk_usage nk) = PAGE_KEYBOARD")
    case True
    then show ?thesis
      by (simp add: emit_native_key_def native_commands_def room Let_def note_dropped_def send_reports_queue)
  next
    case False
    then show ?thesis
      by (simp add: emit_native_key_def native_commands_def room note_dropped_def send_consumer_report_def
          send_consumer_release_def enqueue_def Let_def)
  qed
  then show ?thesis using assms by simp
qed

lemma key_queued_whole_or_not_witness:
  "kc_queue (emit_native_key \<lparr>nk_modifiers = 0, nk_usage = F1\<rparr> kc_new) = native_commands \<lparr>nk_modifiers = 0, nk_usage = F1\<rparr>"
proof -
  have "keyboard_report_sequence \<lparr>nk_modifiers = 0, nk_usage = F1\<rparr> = [(0, [hid_id F1]), (0, [])]"
    by (simp add: keyboard_report_sequence_def upt_rec)
  then show ?thesis
    using key_queued_whole_or_not [of kc_new "\<lparr>nk_modifiers = 0, nk_usage = F1\<rparr>"]
    by (simp add: kc_new_def COMMAND_CHANNEL_CAPACITY_def native_commands_def)
qed

text \<open>
  What an iteration of a connection writes: when a state update of the daemon arrives and the
  writes succeed, the heartbeat if it is due, then the response with the request's own id, and
  then, if the virtual keyboard is ready after the update, every command received, in order, with
  consecutive request ids; while it is not ready the commands are dropped.
\<close>
theorem connection_iteration:
  assumes "cn_faults cn = []" "\<not> it_shutdown it" "\<not> it_read_timeout it \<and> it_set_timeout it = None"
    and "decode_frame (cn_in cn) = (Inr f, es)" "kf_msg_type f = MSG_REQUEST"
    and "split_id_body (kf_body f) = Inr (request_id, payload)"
  shows "\<exists>cn'. run_iteration it cn = (Continue, cn')
    \<and> cn_ready cn' = apply_state_pairs payload (cn_ready cn)
    \<and> cn_out cn' = cn_out cn @ (if it_heartbeat_due it then [encode_frame MSG_HEARTBEAT []] else [])
        @ [encode_id_frame MSG_RESPONSE request_id []]
        @ (if cn_ready cn' then command_frames (cn_next_id cn) (it_commands it) else [])
    \<and> cn_next_id cn' = cn_next_id cn + (if cn_ready cn' then of_nat (length (it_commands it)) else 0)"
proof -
  define cn1 where "cn1 = cn\<lparr>cn_out := cn_out cn @ (if it_heartbeat_due it then [encode_frame MSG_HEARTBEAT []] else [])\<rparr>"
  define cn4 where "cn4 = cn1\<lparr>cn_in := es, cn_ready := apply_state_pairs payload (cn_ready cn),
      cn_out := cn_out cn1 @ [encode_id_frame MSG_RESPONSE request_id []],
      cn_ever_ready := (apply_state_pairs payload (cn_ready cn) \<or> cn_ever_ready cn)\<rparr>"
  have "(if it_heartbeat_due it then cn_write_all (encode_frame MSG_HEARTBEAT []) cn else (Inr (), cn)) = (Inr (), cn1)"
    using assms(1) by (simp add: cn_write_all_def cn1_def)
  moreover have "handle_frame f (cn1\<lparr>cn_in := es\<rparr>) =
      (Inr (), cn4\<lparr>cn_ever_ready := cn_ever_ready cn\<rparr>)"
    using assms(1,5,6) by (simp add: handle_frame_def cn_write_all_def cn1_def cn4_def)
  moreover have "cn_faults cn4 = []" using assms(1) by (simp add: cn4_def cn1_def)
  note drain_commands_spec [OF this, of "it_commands it"]
  ultimately have "run_iteration it cn = (Continue, if cn_ready cn4
      then cn4\<lparr>cn_out := cn_out cn4 @ command_frames (cn_next_id cn4) (it_commands it),
               cn_next_id := cn_next_id cn4 + of_nat (length (it_commands it))\<rparr> else cn4)"
    using assms(2-4) by (simp add: run_iteration_def Let_def) (auto simp: cn4_def cn1_def)
  then show ?thesis by (auto simp: cn4_def cn1_def)
qed

lemma connection_iteration_witness:
  "\<exists>cn'. run_iteration \<lparr>it_shutdown = False, it_heartbeat_due = True, it_read_timeout = False, it_set_timeout = None, it_commands = [ConsumerRelease]\<rparr>
      \<lparr>cn_in = [Chunk [0, 0, 0, 11, 4], Chunk [0, 0, 0, 0, 0, 0, 0, 9, 4, 1]], cn_faults = [], cn_out = [], cn_next_id = 2,
        cn_ready = False, cn_ever_ready = False\<rparr> = (Continue, cn')
    \<and> cn_ready cn' \<and> length (cn_out cn') = 3"
proof -
  let ?it = "\<lparr>it_shutdown = False, it_heartbeat_due = True, it_read_timeout = False, it_set_timeout = None, it_commands = [ConsumerRelease]\<rparr>"
  let ?cn = "\<lparr>cn_in = [Chunk [0, 0, 0, 11, 4], Chunk [0, 0, 0, 0, 0, 0, 0, 9, 4, 1]], cn_faults = [], cn_out = [],
    cn_next_id = 2, cn_ready = False, cn_ever_ready = False\<rparr>"
  let ?body = "[0, 0, 0, 0, 0, 0, 0, 9, 4, 1] :: bytes"
  obtain es where d: "decode_frame (cn_in ?cn) = (Inr \<lparr>kf_msg_type = 4, kf_body = ?body\<rparr>, es)"
    using decode_encode_frame [of "cn_in ?cn" 4 ?body "[]"]
    by (auto simp: uninterrupted_def encode_frame_def to_le_bytes_def MAX_FRAME_SIZE_def)
  have s: "split_id_body [0, 0, 0, 0, 0, 0, 0, 9, 4, 1] = Inr (9, [4, 1])" by code_simp
  have "apply_state_pairs [4, 1] False" by code_simp
  then show ?thesis
    using connection_iteration [of ?cn ?it, OF _ _ _ d, of 9 "[4, 1]"] s by (auto simp: MSG_REQUEST_def)
qed

text \<open>
  C25. Keystrokes go to root only: whatever the attempts of the client loop meet, anything is
  written to a connection only if its peer reports uid and gid 0 and every existing directory
  above the socket is a directory, not writable by others unless sticky, and owned by root when
  the client runs as root.
\<close>
theorem writes_only_to_root_peer:
  assumes "Some cn' \<in> set (client_loop identity attempts ready)"
  shows "\<exists>a \<in> set attempts. \<exists>cn. at_socket a = Some cn \<and>
    (cn_out cn' = cn_out cn \<or>
     at_peer a = Some (0, 0)
     \<and> (\<forall>n < length SOCKET_PATH. \<forall>m. at_metadata a (take n SOCKET_PATH) = Some m \<longrightarrow>
          pm_is_dir m \<and> (pm_mode m AND WRITABLE_BY_OTHERS = 0 \<or> pm_mode m AND STICKY_BIT \<noteq> 0)
          \<and> (at_uid a = 0 \<longrightarrow> pm_uid m = 0)))"
  using assms
proof (induction attempts arbitrary: ready)
  case (Cons a attempts)
  obtain c r where ca: "client_attempt identity a ready = (c, r)" by fastforce
  show ?case
  proof (cases "c = Some cn'")
    case False
    with Cons ca show ?thesis by (auto split: if_splits)
  next
    case True
    then have path: "check_socket_path_security (at_metadata a) SOCKET_PATH (at_uid a) = Inr ()"
      and "\<exists>cn. at_socket a = Some cn \<and> (cn_out cn' = cn_out cn \<or> at_peer a = Some (0, 0))"
      using ca by (auto simp: client_attempt_def verify_server_uid_def split: sum.splits option.splits if_splits)
    moreover have "take n SOCKET_PATH \<in> set (path_ancestors (butlast SOCKET_PATH))" if "n < length SOCKET_PATH" for n
    proof -
      have "take n SOCKET_PATH = take n (butlast SOCKET_PATH)" using that by (simp add: butlast_conv_take)
      with that show ?thesis by (auto simp: path_ancestors_def)
    qed
    moreover have "check_ancestors (at_metadata a) (at_uid a = 0) (path_ancestors (butlast SOCKET_PATH)) = Inr ()"
      using path by (simp add: check_socket_path_security_def path_parent_def SOCKET_PATH_def)
    note check_ancestors_ok [OF this]
    ultimately show ?thesis by (intro bexI [of _ a]) (fastforce, simp)
  qed
qed simp

lemma writes_only_to_root_peer_witness:
  "\<exists>cn'. client_loop OUTPUT_KEYBOARD_IDENTITY
      [\<lparr>at_shutdown = False, at_metadata = [[] \<mapsto> \<lparr>pm_is_dir = True, pm_mode = 493, pm_uid = 0\<rparr>], at_uid = 0,
        at_socket = Some \<lparr>cn_in = [], cn_faults = [], cn_out = [], cn_next_id = 1, cn_ready = False, cn_ever_ready = False\<rparr>,
        at_peer = Some (501, 20), at_set_timeout = None, at_iterations = []\<rparr>] False = [Some cn'] \<and> cn_out cn' = []"
proof -
  let ?a = "\<lparr>at_shutdown = False, at_metadata = [[] \<mapsto> \<lparr>pm_is_dir = True, pm_mode = 493, pm_uid = 0\<rparr>], at_uid = 0,
        at_socket = Some \<lparr>cn_in = [], cn_faults = [], cn_out = [], cn_next_id = 1, cn_ready = False, cn_ever_ready = False\<rparr>,
        at_peer = Some (501, 20), at_set_timeout = None, at_iterations = []\<rparr>"
  have "check_socket_path_security (at_metadata ?a) SOCKET_PATH (at_uid ?a) = Inr ()"
    by code_simp
  then obtain cn' where cn': "client_loop OUTPUT_KEYBOARD_IDENTITY [?a] False = [Some cn']"
    by (simp add: client_attempt_def verify_server_uid_def)
  then have "Some cn' \<in> set (client_loop OUTPUT_KEYBOARD_IDENTITY [?a] False)" by simp
  from writes_only_to_root_peer [OF this] cn' show ?thesis by auto
qed

end
