(* ===== verification/Windows_Keycode.thy ===== *)
theory Windows_Keycode
  imports Hid_Usage
begin

text \<open>
  \<open>src/platform/windows/keycode.rs\<close>: the keys of Windows with their virtual-key codes and names,
  and the translations between them and HID usages.
\<close>

section \<open>The keys\<close>

text \<open>
  The variants of the enum \<open>Key\<close> carry the names of the variants of \<open>HidUsage\<close>; a variant is
  represented by the usage of its name. A row holds the variant, its discriminant (the virtual-key
  code), its text (\<open>as_str\<close>) and the names \<open>try_from_str\<close> accepts for it. The variants that
  \<open>HidUsage\<close> has in addition are in no row.
\<close>

type_synonym vkey = hid_usage

definition vkey_table :: "(vkey \<times> u16 \<times> string \<times> string list) list" where
  "vkey_table =
   [(LeftControl, 0xA2, ''LeftControl'', [''Ctrl'', ''LeftControl'', ''LeftCtrl'']),
    (RightControl, 0xA3, ''RightControl'', [''RightControl'', ''RightCtrl'']),
    (LeftShift, 0xA0, ''LeftShift'', [''Shift'', ''LeftShift'']),
    (RightShift, 0xA1, ''RightShift'', [''RightShift'']),
    (LeftAlt, 0xA4, ''LeftAlt'', [''Alt'', ''Option'', ''LeftAlt'', ''LeftOption'']),
    (RightAlt, 0xA5, ''RightAlt'', [''RightAlt'', ''RightOption'']),
    (LeftCommand, 0x5B, ''LeftCommand'', [''Command'', ''Cmd'', ''Super'', ''Win'', ''LeftCommand'', ''LeftCmd'', ''LeftWin'']),
    (RightCommand, 0x5C, ''RightCommand'', [''RightCommand'', ''RightCmd'', ''RightWin'']),
    (Menu, 0x5D, ''Menu'', [''Menu'', ''ContextMenu'', ''Application'']),
    (CapsLock, 0x14, ''CapsLock'', [''CapsLock'', ''Caps'']), (Tab, 0x09, ''Tab'', [''Tab'']),
    (Space, 0x20, ''Space'', [''Space'']), (Return, 0x0D, ''Return'', [''Return'', ''Enter'']),
    (Backspace, 0x08, ''Backspace'', [''Backspace'']), (Delete, 0x2E, ''Delete'', [''Delete'']),
    (Escape, 0x1B, ''Escape'', [''Escape'', ''Esc'']),
    (UpArrow, 0x26, ''UpArrow'', [''UpArrow'', ''Up'']),
    (DownArrow, 0x28, ''DownArrow'', [''DownArrow'', ''Down'']),
    (LeftArrow, 0x25, ''LeftArrow'', [''LeftArrow'', ''Left'']),
    (RightArrow, 0x27, ''RightArrow'', [''RightArrow'', ''Right'']),
    (PageUp, 0x21, ''PageUp'', [''PageUp'', ''PgUp'']),
    (PageDown, 0x22, ''PageDown'', [''PageDown'', ''PgDn'']), (Home, 0x23, ''Home'', [''Home'']),
    (End, 0x24, ''End'', [''End'']),
    (PrintScreen, 0x2C, ''PrintScreen'', [''PrintScreen'', ''PrtSc'', ''SysRq'']),
    (Insert, 0x2D, ''Insert'', [''Insert'', ''Ins'']),
    (Pause, 0x13, ''Pause'', [''Pause'', ''Break'']), (F1, 0x70, ''F1'', [''F1'']),
    (F2, 0x71, ''F2'', [''F2'']), (F3, 0x72, ''F3'', [''F3'']), (F4, 0x73, ''F4'', [''F4'']),
    (F5, 0x74, ''F5'', [''F5'']), (F6, 0x75, ''F6'', [''F6'']), (F7, 0x76, ''F7'', [''F7'']),
    (F8, 0x77, ''F8'', [''F8'']), (F9, 0x78, ''F9'', [''F9'']), (F10, 0x79, ''F10'', [''F10'']),
    (F11, 0x7A, ''F11'', [''F11'']), (F12, 0x7B, ''F12'', [''F12'']),
    (A_key, 0x41, ''A'', [''A'']), (B_key, 0x42, ''B'', [''B'']), (C_key, 0x43, ''C'', [''C'']),
    (D_key, 0x44, ''D'', [''D'']), (E_key, 0x45, ''E'', [''E'']), (F_key, 0x46, ''F'', [''F'']),
    (G_key, 0x47, ''G'', [''G'']), (H_key, 0x48, ''H'', [''H'']), (I_key, 0x49, ''I'', [''I'']),
    (J_key, 0x4A, ''J'', [''J'']), (K_key, 0x4B, ''K'', [''K'']), (L_key, 0x4C, ''L'', [''L'']),
    (M_key, 0x4D, ''M'', [''M'']), (N_key, 0x4E, ''N'', [''N'']), (O_key, 0x4F, ''O'', [''O'']),
    (P_key, 0x50, ''P'', [''P'']), (Q_key, 0x51, ''Q'', [''Q'']), (R_key, 0x52, ''R'', [''R'']),
    (S_key, 0x53, ''S'', [''S'']), (T_key, 0x54, ''T'', [''T'']), (U_key, 0x55, ''U'', [''U'']),
    (V_key, 0x56, ''V'', [''V'']), (W_key, 0x57, ''W'', [''W'']), (X_key, 0x58, ''X'', [''X'']),
    (Y_key, 0x59, ''Y'', [''Y'']), (Z_key, 0x5A, ''Z'', [''Z'']),
    (Number1, 0x31, ''1'', [''1'', ''Number1'']), (Number2, 0x32, ''2'', [''2'', ''Number2'']),
    (Number3, 0x33, ''3'', [''3'', ''Number3'']), (Number4, 0x34, ''4'', [''4'', ''Number4'']),
    (Number5, 0x35, ''5'', [''5'', ''Number5'']), (Number6, 0x36, ''6'', [''6'', ''Number6'']),
    (Number7, 0x37, ''7'', [''7'', ''Number7'']), (Number8, 0x38, ''8'', [''8'', ''Number8'']),
    (Number9, 0x39, ''9'', [''9'', ''Number9'']), (Number0, 0x30, ''0'', [''0'', ''Number0'']),
    (Numpad0, 0x60, ''Numpad0'', [''Numpad0'']), (Numpad1, 0x61, ''Numpad1'', [''Numpad1'']),
    (Numpad2, 0x62, ''Numpad2'', [''Numpad2'']), (Numpad3, 0x63, ''Numpad3'', [''Numpad3'']),
    (Numpad4, 0x64, ''Numpad4'', [''Numpad4'']), (Numpad5, 0x65, ''Numpad5'', [''Numpad5'']),
    (Numpad6, 0x66, ''Numpad6'', [''Numpad6'']), (Numpad7, 0x67, ''Numpad7'', [''Numpad7'']),
    (Numpad8, 0x68, ''Numpad8'', [''Numpad8'']), (Numpad9, 0x69, ''Numpad9'', [''Numpad9'']),
    (NumpadDecimal, 0x6E, ''NumpadDecimal'', [''NumpadDecimal'']),
    (NumpadMultiply, 0x6A, ''NumpadMultiply'', [''NumpadMultiply'']),
    (NumpadPlus, 0x6B, ''NumpadPlus'', [''NumpadPlus'']),
    (NumpadDivide, 0x6F, ''NumpadDivide'', [''NumpadDivide'']),
    (NumpadEnter, 0x92, ''NumpadEnter'', [''NumpadEnter'']),
    (NumpadMinus, 0x6D, ''NumpadMinus'', [''NumpadMinus'']),
    (NumLock, 0x90, ''NumLock'', [''NumLock'', ''NumpadClear'']),
    (Minus, 0xBD, ''Minus'', [''Minus'']), (Equal, 0xBB, ''Equal'', [''Equal'']),
    (BracketLeft, 0xDB, ''BracketLeft'', [''BracketLeft'']),
    (BracketRight, 0xDD, ''BracketRight'', [''BracketRight'']),
    (Backslash, 0xDC, ''Backslash'', [''Backslash'']),
    (Semicolon, 0xBA, ''Semicolon'', [''Semicolon'']), (Quote, 0xDE, ''Quote'', [''Quote'']),
    (Comma, 0xBC, ''Comma'', [''Comma'']), (Period, 0xBE, ''Period'', [''Period'']),
    (Slash, 0xBF, ''Slash'', [''Slash'']), (Grave, 0xC0, ''Grave'', [''Grave'']),
    (IsoExtra, 0xE2, ''IsoExtra'', [''IsoExtra'']),
    (PlayPause, 0xB3, ''PlayPause'', [''PlayPause'', ''Play'']),
    (VolumeUp, 0xAF, ''VolumeUp'', [''VolumeUp'', ''VolUp'']),
    (VolumeDown, 0xAE, ''VolumeDown'', [''VolumeDown'', ''VolDown'']),
    (Mute, 0xAD, ''Mute'', [''Mute'', ''VolMute'']),
    (NextTrack, 0xB0, ''NextTrack'', [''NextTrack'', ''ScanNext'']),
    (PreviousTrack, 0xB1, ''PreviousTrack'', [''PreviousTrack'', ''ScanPrev'']),
    (Stop, 0xB2, ''Stop'', [''Stop'', ''MediaStop''])]"

definition vkey_all :: "vkey list" where
  "vkey_all = map fst vkey_table"

definition vkey_as_native :: "vkey \<Rightarrow> u16" where
  "vkey_as_native k = fst (the (map_of vkey_table k))"

definition vkey_as_str :: "vkey \<Rightarrow> string" where
  "vkey_as_str k = fst (snd (the (map_of vkey_table k)))"

definition vkey_from_native :: "u16 \<Rightarrow> vkey option" where
  "vkey_from_native code = find_map (\<lambda>(k, c, _). if code = c then Some k else None) vkey_table"

definition vkey_try_from_str :: "string \<Rightarrow> vkey option" where
  "vkey_try_from_str name = find_map (\<lambda>(k, _, _, names). if name \<in> set names then Some k else None) vkey_table"

definition vkey_from_hid_usage :: "hid_usage \<Rightarrow> vkey option" where
  "vkey_from_hid_usage usage =
     (if hid_page usage \<noteq> PAGE_KEYBOARD then None
      else find_map (\<lambda>(k, _). if usage = k then Some k else None) vkey_table)"

definition vkey_to_hid_usage :: "vkey \<Rightarrow> hid_usage" where
  "vkey_to_hid_usage k = k"

definition hid_to_vk :: "hid_usage \<Rightarrow> u16 option" where
  "hid_to_vk usage =
     (if hid_page usage = PAGE_CONSUMER then
        map_of [(0xCD, 0xB3), (0xE9, 0xAF), (0xEA, 0xAE), (0xE2, 0xAD), (0xB5, 0xB0), (0xB6, 0xB1), (0xB7, 0xB2)]
          (hid_id usage)
      else None)"

definition vk_to_hid_usage :: "u16 \<Rightarrow> hid_usage option" where
  "vk_to_hid_usage vk_code = map_option vkey_to_hid_usage (vkey_from_native vk_code)"

text \<open>The code an output usage is emitted with (\<open>base_vk\<close> of \<open>emit_key_event\<close>).\<close>

definition output_vk :: "hid_usage \<Rightarrow> u16 option" where
  "output_vk usage =
     (case map_option vkey_as_native (vkey_from_hid_usage usage) of Some vk \<Rightarrow> Some vk | None \<Rightarrow> hid_to_vk usage)"

section \<open>The table is unambiguous\<close>

lemma vkey_codes:
  "map (\<lambda>r. unat (fst (snd r))) vkey_table =
   [162, 163, 160, 161, 164, 165, 91, 92, 93, 20, 9, 32, 13, 8, 46, 27, 38, 40, 37, 39, 33, 34,
    35, 36, 44, 45, 19, 112, 113, 114, 115, 116, 117, 118, 119, 120, 121, 122, 123, 65, 66, 67,
    68, 69, 70, 71, 72, 73, 74, 75, 76, 77, 78, 79, 80, 81, 82, 83, 84, 85, 86, 87, 88, 89, 90,
    49, 50, 51, 52, 53, 54, 55, 56, 57, 48, 96, 97, 98, 99, 100, 101, 102, 103, 104, 105, 110,
    106, 107, 111, 146, 109, 144, 189, 187, 219, 221, 220, 186, 222, 188, 190, 191, 192, 226,
    179, 175, 174, 173, 176, 177, 178]"
  by (simp add: vkey_table_def)

lemma distinct_vkey_codes: "distinct (map (\<lambda>r. fst (snd r)) vkey_table)"
proof -
  have "distinct (map (\<lambda>r. unat (fst (snd r))) vkey_table)"
    unfolding vkey_codes by simp
  then have "distinct (map unat (map (\<lambda>r. fst (snd r)) vkey_table))" by (simp add: comp_def)
  then show ?thesis by (simp only: distinct_map)
qed

lemma distinct_vkey_all: "distinct vkey_all"
  by (simp add: vkey_all_def vkey_table_def)

lemma distinct_vkey_names: "distinct (concat (map (\<lambda>r. snd (snd (snd r))) vkey_table))"
  by (simp add: vkey_table_def)

lemma vkey_row_unique: "(k, c, n, ns) \<in> set vkey_table \<Longrightarrow> vkey_as_native k = c \<and> vkey_as_str k = n"
  using distinct_vkey_all by (simp add: vkey_as_native_def vkey_as_str_def vkey_all_def)

lemma vkey_row: "k \<in> set vkey_all \<Longrightarrow> \<exists>c n ns. (k, c, n, ns) \<in> set vkey_table"
  by (force simp: vkey_all_def)

lemma vkey_from_native_iff:
  "vkey_from_native c = Some k \<longleftrightarrow> k \<in> set vkey_all \<and> vkey_as_native k = c"
proof
  assume "vkey_from_native c = Some k"
  then show "k \<in> set vkey_all \<and> vkey_as_native k = c"
    unfolding vkey_from_native_def vkey_all_def
    by (drule_tac find_map_SomeD) (force split: if_splits dest: vkey_row_unique)
next
  assume k: "k \<in> set vkey_all \<and> vkey_as_native k = c"
  then obtain n ns where row: "(k, c, n, ns) \<in> set vkey_table" using vkey_row vkey_row_unique by blast
  with find_map_key [OF distinct_vkey_codes row, of fst] show "vkey_from_native c = Some k"
    by (simp add: vkey_from_native_def case_prod_beta')
qed

lemma vk_to_hid_usage_iff: "vk_to_hid_usage c = Some u \<longleftrightarrow> u \<in> set vkey_all \<and> vkey_as_native u = c"
  by (simp add: vk_to_hid_usage_def vkey_to_hid_usage_def vkey_from_native_iff)

lemma vkey_names_own:
  "list_all (\<lambda>(_, _, n, ns). n \<in> set ns) vkey_table"
  by (simp add: vkey_table_def)

lemma vkey_try_from_str_as_str:
  assumes "k \<in> set vkey_all" shows "vkey_try_from_str (vkey_as_str k) = Some k"
proof -
  obtain c n ns where row: "(k, c, n, ns) \<in> set vkey_table" using vkey_row [OF assms] by blast
  then have "n \<in> set (snd (snd (snd (k, c, n, ns))))" using vkey_names_own by (auto simp: list_all_iff)
  from distinct_concat_find [OF distinct_vkey_names row this, of fst] vkey_row_unique [OF row] show ?thesis
    by (simp add: vkey_try_from_str_def case_prod_beta')
qed

section \<open>Every captured key can be emitted\<close>

lemma hid_code_rows:
  "list_all (\<lambda>(u, c). (u, c) \<in> set (map (\<lambda>(u, c, _). (u, c)) hid_table))
     [(PlayPause, 0x0C00CD), (VolumeUp, 0x0C00E9), (VolumeDown, 0x0C00EA), (Mute, 0x0C00E2),
      (NextTrack, 0x0C00B5), (PreviousTrack, 0x0C00B6), (Stop, 0x0C00B7), (BrightnessUp, 0x0C006F),
      (BrightnessDown, 0x0C0070)]"
  by (simp add: hid_table_def)

lemma media_codes:
  "hid_code PlayPause = 0x0C00CD" "hid_code VolumeUp = 0x0C00E9" "hid_code VolumeDown = 0x0C00EA"
  "hid_code Mute = 0x0C00E2" "hid_code NextTrack = 0x0C00B5" "hid_code PreviousTrack = 0x0C00B6"
  "hid_code Stop = 0x0C00B7" "hid_code BrightnessUp = 0x0C006F" "hid_code BrightnessDown = 0x0C0070"
  using hid_code_rows by (auto dest: hid_row_unique)

lemma media_rows:
  "list_all (\<lambda>(k, c). (k, c) \<in> set (map (\<lambda>(k, c, _). (k, c)) vkey_table))
     [(PlayPause, 0xB3), (VolumeUp, 0xAF), (VolumeDown, 0xAE), (Mute, 0xAD), (NextTrack, 0xB0),
      (PreviousTrack, 0xB1), (Stop, 0xB2)]"
  by (simp add: vkey_table_def)

lemma media_natives:
  "vkey_as_native PlayPause = 0xB3" "vkey_as_native VolumeUp = 0xAF" "vkey_as_native VolumeDown = 0xAE"
  "vkey_as_native Mute = 0xAD" "vkey_as_native NextTrack = 0xB0" "vkey_as_native PreviousTrack = 0xB1"
  "vkey_as_native Stop = 0xB2"
  using media_rows by (auto dest: vkey_row_unique)

lemma media_vks:
  "list_all (\<lambda>u. hid_page u = PAGE_CONSUMER \<and> hid_to_vk u = Some (vkey_as_native u))
     [PlayPause, VolumeUp, VolumeDown, Mute, NextTrack, PreviousTrack, Stop]"
  by (simp add: hid_to_vk_def hid_page_def hid_id_def media_codes PAGE_CONSUMER_def media_natives)

lemma keyboard_pages:
  "list_all (\<lambda>(u, c, _). drop_bit 16 c = 7 \<or> u \<in> set [PlayPause, VolumeUp, VolumeDown, Mute, NextTrack,
     PreviousTrack, Stop, BrightnessUp, BrightnessDown]) hid_table"
  unfolding hid_table_def by simp

lemma keyboard_page:
  assumes "u \<notin> {PlayPause, VolumeUp, VolumeDown, Mute, NextTrack, PreviousTrack, Stop, BrightnessUp, BrightnessDown}"
  shows "hid_page u = PAGE_KEYBOARD"
proof -
  obtain c n as where row: "(u, c, n, as) \<in> set hid_table" "hid_code u = c" using hid_row by blast
  with assms keyboard_pages have "drop_bit 16 c = 7" by (fastforce simp: list_all_iff)
  with row(2) show ?thesis by (simp add: hid_page_def PAGE_KEYBOARD_def)
qed

lemma vkey_all_iff: "u \<in> set vkey_all \<longleftrightarrow> u \<notin> {ScrollLock, NumpadEqual, BrightnessUp, BrightnessDown}"
proof -
  let ?X = "{ScrollLock, NumpadEqual, BrightnessUp, BrightnessDown}"
  have disjoint: "?X \<inter> set vkey_all = {}"
    by (simp add: vkey_all_def vkey_table_def)
  have "card (?X \<union> set vkey_all) = card ?X + length vkey_all"
    using card_Un_disjoint [OF _ _ disjoint] distinct_card [OF distinct_vkey_all] by simp
  also have "\<dots> = length hid_all"
    by (simp add: vkey_all_def vkey_table_def hid_all_def hid_table_def)
  also have "\<dots> = card (set hid_all)"
    by (rule distinct_card [OF distinct_hid_all, symmetric])
  finally have "?X \<union> set vkey_all = set hid_all"
    using hid_all_complete by (intro card_subset_eq) auto
  with disjoint hid_all_complete [of u] show ?thesis by blast
qed

lemma no_vks: "u \<notin> set vkey_all \<Longrightarrow> output_vk u = None"
proof -
  assume u: "u \<notin> set vkey_all"
  have "vkey_from_hid_usage u = None"
  proof (rule ccontr)
    assume "vkey_from_hid_usage u \<noteq> None"
    then obtain k where "find_map (\<lambda>(k, _). if u = k then Some k else None) vkey_table = Some k"
      by (auto simp: vkey_from_hid_usage_def split: if_splits)
    then show False using u by (auto dest!: find_map_SomeD split: if_splits simp: vkey_all_def rev_image_eqI)
  qed
  moreover have "hid_to_vk u = None"
  proof -
    have "u \<in> {ScrollLock, NumpadEqual} \<or> u \<in> {BrightnessUp, BrightnessDown}" using u vkey_all_iff [of u] by blast
    then show ?thesis
      using keyboard_page [of u]
      by (auto simp: hid_to_vk_def hid_page_def hid_id_def media_codes PAGE_CONSUMER_def PAGE_KEYBOARD_def)
  qed
  ultimately show ?thesis by (simp add: output_vk_def)
qed

lemma output_vk_vkey:
  assumes "k \<in> set vkey_all" shows "output_vk k = Some (vkey_as_native k)"
proof (cases "k \<in> {PlayPause, VolumeUp, VolumeDown, Mute, NextTrack, PreviousTrack, Stop}")
  case True
  then have "hid_page k = PAGE_CONSUMER" "hid_to_vk k = Some (vkey_as_native k)" using media_vks by auto
  then show ?thesis by (simp add: output_vk_def vkey_from_hid_usage_def PAGE_CONSUMER_def PAGE_KEYBOARD_def)
next
  case False
  with assms have p: "hid_page k = PAGE_KEYBOARD" using keyboard_page [of k] vkey_all_iff [of k] by auto
  obtain c n ns where row: "(k, c, n, ns) \<in> set vkey_table" using vkey_row [OF assms] by blast
  have "distinct (map fst vkey_table)" using distinct_vkey_all by (simp add: vkey_all_def)
  from find_map_key [OF this row, of fst] p show ?thesis
    by (simp add: output_vk_def vkey_from_hid_usage_def case_prod_beta')
qed

lemma output_vk_iff: "output_vk u = (if u \<in> set vkey_all then Some (vkey_as_native u) else None)"
  using output_vk_vkey [of u] no_vks [of u] by auto

section \<open>Property\<close>

text \<open>
  What the hook can capture can be emitted, and as the same key: a virtual-key code is decoded
  to a usage exactly if that usage is emitted with this code; the only usages that cannot be
  emitted are Scroll Lock, the numpad's equal sign and the two brightness keys; and a key's text
  is parsed back to the key.
\<close>
theorem windows_key_round_trip:
  "(vk_to_hid_usage c = Some u) = (output_vk u = Some c)
   \<and> (output_vk u = None) = (u \<in> {ScrollLock, NumpadEqual, BrightnessUp, BrightnessDown})
   \<and> (output_vk u = Some c \<longrightarrow> vkey_try_from_str (vkey_as_str u) = Some u)"
  using vkey_all_iff [of u] by (auto simp: vk_to_hid_usage_iff output_vk_iff vkey_try_from_str_as_str)

lemma windows_key_round_trip_witness:
  "output_vk F1 = Some 0x70 \<and> vkey_try_from_str (vkey_as_str F1) = Some F1"
proof -
  have "vk_to_hid_usage 0x70 = Some F1"
    by (simp add: vk_to_hid_usage_def vkey_to_hid_usage_def vkey_from_native_def vkey_table_def)
  with windows_key_round_trip [of "0x70" F1] show ?thesis by blast
qed

end
