(* ===== verification/Windows_Raw.thy ===== *)
theory Windows_Raw
  imports Windows_Keycode Backend Frame
begin

text \<open>
  The raw input side of the Windows backend: \<open>src/platform/windows/raw_input.rs\<close> (what becomes of a
  \<open>WM_INPUT\<close> message), \<open>device_match.rs\<close> (the buffer that tells the keyboard hook which device a key
  comes from, and the cache of device paths) and \<open>raw_worker.rs\<close> (the thread between them).
\<close>

section \<open>Raw input events and their channel (raw_input.rs)\<close>

record raw_event =
  re_usage :: "hid_usage option"
  re_vk :: "u16 option"
  re_up :: bool
  re_device :: nat

definition RIM_TYPEKEYBOARD :: u32 where "RIM_TYPEKEYBOARD = 1"
definition RIM_TYPEHID :: u32 where "RIM_TYPEHID = 4"
definition RAW_INPUT_CHANNEL_CAPACITY :: nat where "RAW_INPUT_CHANNEL_CAPACITY = 4096"
definition RAW_INPUT_DROPPED_LOG_EVERY :: nat where "RAW_INPUT_DROPPED_LOG_EVERY = 4096"

text \<open>Window messages, as the Windows headers number them.\<close>

definition WM_KEYDOWN :: u32 where "WM_KEYDOWN = 0x100"
definition WM_KEYUP :: u32 where "WM_KEYUP = 0x101"
definition WM_SYSKEYDOWN :: u32 where "WM_SYSKEYDOWN = 0x104"
definition WM_SYSKEYUP :: u32 where "WM_SYSKEYUP = 0x105"

text \<open>The sender of the channel, once it is installed; whether the worker still receives; the count.\<close>

record raw_channel =
  rc_installed :: bool
  rc_connected :: bool
  rc_queue :: "raw_event list"
  rc_dropped :: nat

definition raw_note_dropped :: "raw_channel \<Rightarrow> bool \<times> raw_channel" where
  "raw_note_dropped ch =
     (let total = rc_dropped ch + 1
      in (total = 1 \<or> (total - 1) div RAW_INPUT_DROPPED_LOG_EVERY < total div RAW_INPUT_DROPPED_LOG_EVERY,
          ch\<lparr>rc_dropped := total\<rparr>))"

definition try_send_or_drop :: "raw_event \<Rightarrow> raw_channel \<Rightarrow> bool \<times> raw_channel" where
  "try_send_or_drop ev ch =
     (if \<not> rc_connected ch then (False, ch)
      else if length (rc_queue ch) \<ge> RAW_INPUT_CHANNEL_CAPACITY then (False, snd (raw_note_dropped ch))
      else (True, ch\<lparr>rc_queue := rc_queue ch @ [ev]\<rparr>))"

definition send_raw_input_event :: "raw_event \<Rightarrow> raw_channel \<Rightarrow> raw_channel" where
  "send_raw_input_event ev ch = (if rc_installed ch then snd (try_send_or_drop ev ch) else ch)"

text \<open>A decoded field of a HID report; the value is the eight bytes of the C union.\<close>

record hidp_data =
  hd_usage_page :: u16
  hd_usage :: u16
  hd_value :: bytes

definition numeric_value :: "hidp_data \<Rightarrow> u32" where
  "numeric_value d = from_le_bytes (hd_value d ! 0) (hd_value d ! 1) (hd_value d ! 2) (hd_value d ! 3)"

definition MAX_HID_DATA_ENTRIES :: nat where "MAX_HID_DATA_ENTRIES = 64"

text \<open>
  \<open>decode_hid_usage\<close>, given what \<open>hid.dll\<close> makes of the report: the entry buffer and the count, or
  nothing when one of its calls fails.
\<close>

definition decode_hid_usage ::
  "(nat \<Rightarrow> bytes \<Rightarrow> (hidp_data list \<times> u32) option) \<Rightarrow> nat \<Rightarrow> bytes \<Rightarrow> hid_usage option" where
  "decode_hid_usage hid_dll device report =
     (case hid_dll device report of
        None \<Rightarrow> None
      | Some (entries, count) \<Rightarrow>
          (let n = min (unat count) MAX_HID_DATA_ENTRIES
           in find_map (\<lambda>entry.
                if hd_usage_page entry = PAGE_CONSUMER \<and> numeric_value entry \<noteq> 0
                then from_code (push_bit 16 (ucast PAGE_CONSUMER) OR ucast (hd_usage entry))
                else None) (take n entries)))"

text \<open>
  A \<open>RAWINPUT\<close> buffer; \<open>ri_offset\<close> is where its HID part starts. The two calls of
  \<open>GetRawInputData\<close> are a parameter: the size the query reports, and the result, the size and the
  buffer of the second call, given the size it is called with.
\<close>

record raw_input =
  ri_type :: u32
  ri_device :: nat
  ri_vkey :: u16
  ri_message :: u32
  ri_offset :: nat
  ri_size_hid :: u32
  ri_raw_data :: bytes

record raw_api =
  ra_query_size :: u32
  ra_read :: "u32 \<Rightarrow> u32 \<times> u32 \<times> raw_input"

definition handle_wm_input ::
  "raw_api \<Rightarrow> (nat \<Rightarrow> bytes \<Rightarrow> (hidp_data list \<times> u32) option) \<Rightarrow> raw_channel \<Rightarrow> raw_channel" where
  "handle_wm_input api hid_dll ch =
     (if ra_query_size api = 0 then ch
      else
        (let (result, bytes_read, raw) = ra_read api 0
         in if result = 0xFFFFFFFF \<or> bytes_read = 0 then ch
            else if ri_type raw = RIM_TYPEKEYBOARD then
              send_raw_input_event
                \<lparr>re_usage = map_option vkey_to_hid_usage (vkey_from_native (ri_vkey raw)),
                 re_vk = Some (ri_vkey raw),
                 re_up = (ri_message raw = WM_KEYUP \<or> ri_message raw = WM_SYSKEYUP),
                 re_device = ri_device raw\<rparr> ch
            else if ri_type raw = RIM_TYPEHID then
              (let data_len = unat (ri_size_hid raw); end_pos = ri_offset raw + data_len
               in if data_len = 0 \<or> end_pos \<ge> 2 ^ 64 \<or> end_pos > unat bytes_read then ch
                  else (case decode_hid_usage hid_dll (ri_device raw) (take data_len (ri_raw_data raw)) of
                          None \<Rightarrow> ch
                        | Some usage \<Rightarrow>
                            send_raw_input_event
                              \<lparr>re_usage = Some usage, re_vk = None, re_up = False, re_device = ri_device raw\<rparr> ch))
            else ch))"

section \<open>The matching buffer (device_match.rs)\<close>

text \<open>Times are in microseconds.\<close>

record buffered_raw_input =
  br_event :: raw_event
  br_received_at :: nat

definition RAW_EVENT_MAX_AGE :: nat where "RAW_EVENT_MAX_AGE = 100000"

definition evict_stale :: "nat \<Rightarrow> nat \<Rightarrow> buffered_raw_input list \<Rightarrow> buffered_raw_input list" where
  "evict_stale now max_age buffer = filter (\<lambda>entry. now - br_received_at entry < max_age) buffer"

definition push_event :: "nat \<Rightarrow> raw_event \<Rightarrow> buffered_raw_input list \<Rightarrow> buffered_raw_input list" where
  "push_event now ev buffer =
     evict_stale now RAW_EVENT_MAX_AGE (buffer @ [\<lparr>br_event = ev, br_received_at = now\<rparr>])"

definition evict :: "nat \<Rightarrow> buffered_raw_input list \<Rightarrow> buffered_raw_input list" where
  "evict now buffer = evict_stale now RAW_EVENT_MAX_AGE buffer"

text \<open>The scan of \<open>find_match\<close>, with the best index and its time so far.\<close>

fun scan_match ::
  "hid_usage \<Rightarrow> nat \<Rightarrow> buffered_raw_input list \<Rightarrow> nat option \<Rightarrow> nat option \<Rightarrow> nat option" where
  "scan_match usage idx [] best_idx best_time = best_idx"
| "scan_match usage idx (entry # entries) best_idx best_time =
     (if re_usage (br_event entry) = Some usage
         \<and> (best_time = None \<or> br_received_at entry > the best_time)
      then scan_match usage (Suc idx) entries (Some idx) (Some (br_received_at entry))
      else scan_match usage (Suc idx) entries best_idx best_time)"

definition find_raw_match :: "buffered_raw_input list \<Rightarrow> hid_usage \<Rightarrow> nat option" where
  "find_raw_match buffer usage = scan_match usage 0 buffer None None"

text \<open>\<open>Vec::remove\<close>.\<close>

definition remove_at :: "nat \<Rightarrow> 'a list \<Rightarrow> 'a list" where
  "remove_at i xs = take i xs @ drop (Suc i) xs"

definition match_usage :: "hid_usage \<Rightarrow> buffered_raw_input list \<Rightarrow> nat option \<times> buffered_raw_input list" where
  "match_usage usage buffer =
     (case find_raw_match buffer usage of
        None \<Rightarrow> (None, buffer)
      | Some idx \<Rightarrow> (Some (re_device (br_event (buffer ! idx))), remove_at idx buffer))"

section \<open>The device path cache (device_match.rs)\<close>

text \<open>A \<open>HashMap\<close> is a table whose order is not used.\<close>

type_synonym device_cache = "(nat, string) index_map"

definition MAX_CACHED_DEVICES :: nat where "MAX_CACHED_DEVICES = 128"

text \<open>
  \<open>resolve_device_path\<close>, given what \<open>GetRawInputDeviceInfoW\<close> returns for a handle (the name with
  its terminator, or an error) and the lossy decoding of UTF-16.
\<close>

definition resolve_device_path ::
  "(nat \<Rightarrow> u16 list option) \<Rightarrow> (u16 list \<Rightarrow> string) \<Rightarrow> nat \<Rightarrow> string option" where
  "resolve_device_path info from_utf16_lossy handle_ptr =
     (if handle_ptr = 0 \<or> handle_ptr = 2 ^ 64 - 1 then None
      else (case info handle_ptr of
              None \<Rightarrow> None
            | Some buffer \<Rightarrow>
                if buffer = [] then None
                else Some (from_utf16_lossy (if last buffer = 0 then butlast buffer else buffer))))"

definition dc_insert :: "nat \<Rightarrow> string \<Rightarrow> device_cache \<Rightarrow> device_cache" where
  "dc_insert handle_ptr path m =
     (let m1 = (if im_get m handle_ptr = None \<and> length m \<ge> MAX_CACHED_DEVICES then [] else m)
      in im_insert handle_ptr path m1)"

definition get_or_resolve ::
  "(nat \<Rightarrow> string option) \<Rightarrow> nat \<Rightarrow> device_cache \<Rightarrow> string option \<times> device_cache" where
  "get_or_resolve resolve_path handle_ptr m =
     (case im_get m handle_ptr of
        Some path \<Rightarrow> (Some path, m)
      | None \<Rightarrow>
          (case resolve_path handle_ptr of
             None \<Rightarrow> (None, m)
           | Some path \<Rightarrow> (Some path, dc_insert handle_ptr path m)))"

section \<open>The raw worker (raw_worker.rs)\<close>

text \<open>
  \<open>extract_modifier_bits\<close> of \<open>mapping.rs\<close>, given the key state \<open>GetAsyncKeyState\<close> reports: an \<open>i16\<close>
  that is negative if the key is down.
\<close>

definition async_down :: "(u16 \<Rightarrow> u16) \<Rightarrow> hid_usage \<Rightarrow> bool" where
  "async_down key_state k = bit (key_state (vkey_as_native k)) 15"

definition extract_modifier_bits :: "(u16 \<Rightarrow> u16) \<Rightarrow> u8" where
  "extract_modifier_bits key_state =
     (let b0 = 0;
          b1 = (if async_down key_state LeftControl then b0 OR role_mask RoleLeftControl else b0);
          b2 = (if async_down key_state RightControl then b1 OR role_mask RoleRightControl else b1);
          b3 = (if async_down key_state LeftShift then b2 OR role_mask RoleLeftShift else b2);
          b4 = (if async_down key_state RightShift then b3 OR role_mask RoleRightShift else b3);
          b5 = (if async_down key_state LeftAlt then b4 OR role_mask RoleLeftAlt else b4);
          b6 = (if async_down key_state RightAlt then b5 OR role_mask RoleRightAlt else b5);
          b7 = (if async_down key_state LeftCommand then b6 OR role_mask RoleLeftCommand else b6)
      in if async_down key_state RightCommand then b7 OR role_mask RoleRightCommand else b7)"

text \<open>What the worker shares with the hook thread: the buffer, the cache, the queue of emissions.\<close>

record raw_shared =
  rw_buffer :: "buffered_raw_input list"
  rw_devices :: device_cache
  rw_emissions :: "native_key list list"

definition queue_emission :: "native_key list \<Rightarrow> raw_shared \<Rightarrow> raw_shared" where
  "queue_emission outputs sh = sh\<lparr>rw_emissions := rw_emissions sh @ [outputs]\<rparr>"

definition resolve_consumer_outputs ::
  "'s lookup \<Rightarrow> (u16 \<Rightarrow> u16) \<Rightarrow> (nat \<Rightarrow> string option) \<Rightarrow> raw_event \<Rightarrow> hid_usage \<Rightarrow> 's \<Rightarrow> raw_shared
    \<Rightarrow> native_key list option \<times> 's \<times> raw_shared" where
  "resolve_consumer_outputs lk key_state resolve_path ev usage ls sh =
     (let modifiers = extract_modifier_bits key_state;
          (device_path, m) = get_or_resolve resolve_path (re_device ev) (rw_devices sh);
          (outputs, ls1) = resolve lk ls usage modifiers device_path
      in (outputs, ls1, sh\<lparr>rw_devices := m\<rparr>))"

definition process_consumer_event ::
  "'s lookup \<Rightarrow> (u16 \<Rightarrow> u16) \<Rightarrow> (nat \<Rightarrow> string option) \<Rightarrow> raw_event \<Rightarrow> hid_usage \<Rightarrow> 's \<Rightarrow> raw_shared
    \<Rightarrow> 's \<times> raw_shared" where
  "process_consumer_event lk key_state resolve_path ev usage ls sh =
     (let (outputs, ls1, sh1) = resolve_consumer_outputs lk key_state resolve_path ev usage ls sh
      in case outputs of None \<Rightarrow> (ls1, sh1) | Some os \<Rightarrow> (ls1, queue_emission os sh1))"

definition process_raw_event ::
  "'s lookup \<Rightarrow> (u16 \<Rightarrow> u16) \<Rightarrow> (nat \<Rightarrow> string option) \<Rightarrow> nat \<Rightarrow> raw_event \<Rightarrow> 's \<Rightarrow> raw_shared
    \<Rightarrow> 's \<times> raw_shared" where
  "process_raw_event lk key_state resolve_path now ev ls sh =
     (if re_up ev then (ls, sh)
      else (case (re_vk ev, re_usage ev) of
              (None, Some usage) \<Rightarrow>
                if hid_page usage = PAGE_CONSUMER
                then process_consumer_event lk key_state resolve_path ev usage ls sh
                else (ls, sh\<lparr>rw_buffer := evict now (push_event now ev (rw_buffer sh))\<rparr>)
            | _ \<Rightarrow> (ls, sh\<lparr>rw_buffer := evict now (push_event now ev (rw_buffer sh))\<rparr>)))"

text \<open>The loop over the channel; each event comes with the state of the shared lookup.\<close>

fun raw_worker_loop ::
  "'s lookup \<Rightarrow> (u16 \<Rightarrow> u16) \<Rightarrow> (nat \<Rightarrow> string option) \<Rightarrow> (nat \<times> 's \<times> raw_event) list \<Rightarrow> raw_shared \<Rightarrow> raw_shared" where
  "raw_worker_loop lk key_state resolve_path [] sh = sh"
| "raw_worker_loop lk key_state resolve_path ((now, ls, ev) # evs) sh =
     raw_worker_loop lk key_state resolve_path evs
       (snd (process_raw_event lk key_state resolve_path now ev ls sh))"

section \<open>The latest match\<close>

definition candidate :: "hid_usage \<Rightarrow> buffered_raw_input \<Rightarrow> bool" where
  "candidate usage entry \<longleftrightarrow> re_usage (br_event entry) = Some usage"

text \<open>The first of the latest entries of a usage.\<close>

definition latest_at :: "hid_usage \<Rightarrow> buffered_raw_input list \<Rightarrow> nat \<Rightarrow> bool" where
  "latest_at usage buffer i \<longleftrightarrow>
     i < length buffer \<and> candidate usage (buffer ! i) \<and>
     (\<forall>j < length buffer. candidate usage (buffer ! j) \<longrightarrow>
        br_received_at (buffer ! j) < br_received_at (buffer ! i)
        \<or> (br_received_at (buffer ! j) = br_received_at (buffer ! i) \<and> i \<le> j))"

lemma latest_at_snoc:
  "latest_at usage buffer i \<Longrightarrow>
   (if candidate usage e \<and> br_received_at e > br_received_at (buffer ! i)
    then latest_at usage (buffer @ [e]) (length buffer)
    else latest_at usage (buffer @ [e]) i)"
  by (auto simp: latest_at_def nth_append less_Suc_eq)

lemma latest_at_first:
  "\<forall>e \<in> set buffer. \<not> candidate usage e \<Longrightarrow> candidate usage e \<Longrightarrow> latest_at usage (buffer @ [e]) (length buffer)"
  by (auto simp: latest_at_def nth_append less_Suc_eq)

definition match_result :: "hid_usage \<Rightarrow> buffered_raw_input list \<Rightarrow> nat option \<Rightarrow> bool" where
  "match_result usage buffer r \<longleftrightarrow>
     (case r of None \<Rightarrow> \<forall>e \<in> set buffer. \<not> candidate usage e | Some i \<Rightarrow> latest_at usage buffer i)"

lemma scan_match_spec:
  assumes "match_result usage pre bi" "bt = map_option (\<lambda>i. br_received_at (pre ! i)) bi"
  shows "match_result usage (pre @ todo) (scan_match usage (length pre) todo bi bt)"
  using assms
proof (induction todo arbitrary: pre bi bt)
  case (Cons e todo)
  let ?here = "candidate usage e \<and> (bi = None \<or> br_received_at e > br_received_at (pre ! the bi))"
  have "match_result usage (pre @ [e]) (if ?here then Some (length pre) else bi)"
  proof (cases bi)
    case None
    with Cons.prems latest_at_first [of pre usage e] show ?thesis by (auto simp: match_result_def)
  next
    case (Some i)
    with Cons.prems latest_at_snoc [of usage pre i e] show ?thesis by (auto simp: match_result_def)
  qed
  moreover have "bt = None \<or> br_received_at e > the bt \<longleftrightarrow> bi = None \<or> br_received_at e > br_received_at (pre ! the bi)"
    using Cons.prems(2) by (cases bi) auto
  moreover have "bi = Some i \<Longrightarrow> (pre @ [e]) ! i = pre ! i" for i
    using Cons.prems(1) by (simp add: match_result_def latest_at_def nth_append)
  ultimately show ?case
    using Cons.IH [where bi = "Some (length pre)" and bt = "Some (br_received_at e)" and pre = "pre @ [e]"]
      Cons.IH [where bi = bi and bt = bt and pre = "pre @ [e]"] Cons.prems(2)
    by (cases bi) (auto simp: candidate_def)
qed simp

lemma find_raw_match_spec: "match_result usage buffer (find_raw_match buffer usage)"
  using scan_match_spec [where bi = None and bt = None and pre = "[]" and todo = buffer and usage = usage]
  by (simp add: find_raw_match_def match_result_def)

section \<open>The device cache\<close>

definition cache_ok :: "(nat \<Rightarrow> string option) \<Rightarrow> device_cache \<Rightarrow> bool" where
  "cache_ok resolve_path m \<longleftrightarrow>
     distinct (im_keys m) \<and> length m \<le> MAX_CACHED_DEVICES \<and> (\<forall>h p. im_get m h = Some p \<longrightarrow> resolve_path h = Some p)"

lemma im_keys_length [simp]: "length (im_keys m) = length m"
  by (simp add: im_keys_def)

lemma im_get_None_iff: "im_get m k = None \<longleftrightarrow> k \<notin> set (im_keys m)"
  using dom_im_get [of m] by blast

lemma length_im_insert:
  "length (im_insert k v m) = (if im_get m k = None then Suc (length m) else length m)"
  using im_keys_insert [of k v m] im_get_None_iff [of m k]
  by (metis im_keys_length length_append_singleton)

lemma cache_ok_insert:
  assumes "cache_ok r m" "r h = Some p" shows "cache_ok r (dc_insert h p m)"
proof -
  have e: "cache_ok r []" by (simp add: cache_ok_def im_empty)
  have "cache_ok r (im_insert h p m')" if "cache_ok r m'" "im_get m' h \<noteq> None \<or> length m' < MAX_CACHED_DEVICES" for m'
    using that assms(2) unfolding cache_ok_def
    by (auto simp: length_im_insert im_get_insert im_keys_insert im_get_None_iff)
  then show ?thesis
    using assms(1) e unfolding dc_insert_def Let_def
    by (auto simp: MAX_CACHED_DEVICES_def not_le)
qed

lemma get_or_resolve_ok:
  "cache_ok r m \<Longrightarrow> fst (get_or_resolve r h m) = r h \<and> cache_ok r (snd (get_or_resolve r h m))"
  using cache_ok_insert [of r m h] unfolding get_or_resolve_def
  by (cases "im_get m h"; cases "r h") (auto simp: cache_ok_def)

section \<open>The modifiers polled\<close>

lemma role_mask_bits: "bits_of (role_mask r) = {unat (role_bit r)}"
proof -
  have "role_mask r = bit_mask (role_bit r)" by (simp add: role_mask_def bit_mask_def)
  moreover have "unat (role_bit r) < 8" by (cases r) simp_all
  ultimately show ?thesis by (simp add: bits_of_bit_mask)
qed

lemma extract_modifier_bits:
  "bits_of (extract_modifier_bits key_state) = {i. i < 8 \<and> async_down key_state (modifier_usages ! i)}"
proof (rule set_eqI)
  fix i
  have "bits_of (if c then b OR m else b) = bits_of b \<union> (if c then bits_of m else {})" for c and b m :: u8
    by simp
  note bits = this [where b = 0, simplified] this
  show "i \<in> bits_of (extract_modifier_bits key_state) \<longleftrightarrow>
      i \<in> {i. i < 8 \<and> async_down key_state (modifier_usages ! i)}"
  proof (cases "i < 8")
    case True
    from lt_8_cases [OF this] show ?thesis
      unfolding extract_modifier_bits_def Let_def bits role_mask_bits
      by (elim insertE emptyE) (simp_all add: modifier_usages_def)
  qed (use bits_of_bound in auto)
qed

section \<open>Properties\<close>

text \<open>
  The device of a key is that of its latest raw input event: a match returns the device of the
  most recently received buffered event of the usage and takes precisely this event out of the
  buffer, and there is no match only if no event of the usage is buffered.
\<close>
theorem raw_match_is_latest:
  "case match_usage usage buffer of
     (None, buffer') \<Rightarrow> buffer' = buffer \<and> (\<forall>e \<in> set buffer. re_usage (br_event e) \<noteq> Some usage)
   | (Some device, buffer') \<Rightarrow>
       \<exists>xs e ys. buffer = xs @ e # ys \<and> buffer' = xs @ ys \<and> re_usage (br_event e) = Some usage
         \<and> re_device (br_event e) = device
         \<and> (\<forall>e' \<in> set buffer. re_usage (br_event e') = Some usage \<longrightarrow> br_received_at e' \<le> br_received_at e)"
proof (cases "find_raw_match buffer usage")
  case None
  with find_raw_match_spec [of usage buffer] show ?thesis by (simp add: match_result_def match_usage_def candidate_def)
next
  case (Some i)
  with find_raw_match_spec [of usage buffer] have l: "latest_at usage buffer i" by (simp add: match_result_def)
  then have i: "i < length buffer" by (simp add: latest_at_def)
  have "\<forall>e' \<in> set buffer. re_usage (br_event e') = Some usage \<longrightarrow> br_received_at e' \<le> br_received_at (buffer ! i)"
    using l by (fastforce simp: latest_at_def candidate_def in_set_conv_nth)
  moreover have "re_usage (br_event (buffer ! i)) = Some usage" using l by (simp add: latest_at_def candidate_def)
  moreover have "buffer = take i buffer @ buffer ! i # drop (Suc i) buffer" by (rule id_take_nth_drop [OF i])
  ultimately show ?thesis unfolding match_usage_def Some remove_at_def by auto
qed

text \<open>
  The device path cache is transparent and bounded: whatever handles are looked up, the cache
  answers what resolving the handle would, and never holds more than its limit.
\<close>
theorem device_cache_transparent:
  "fst (get_or_resolve resolve_path h (fold (\<lambda>h m. snd (get_or_resolve resolve_path h m)) handles []))
     = resolve_path h
   \<and> length (fold (\<lambda>h m. snd (get_or_resolve resolve_path h m)) handles []) \<le> MAX_CACHED_DEVICES"
proof -
  have "cache_ok resolve_path m \<Longrightarrow>
      cache_ok resolve_path (fold (\<lambda>h m. snd (get_or_resolve resolve_path h m)) handles m)" for m
    by (induction handles arbitrary: m) (simp_all add: get_or_resolve_ok)
  moreover have "cache_ok resolve_path []" by (simp add: cache_ok_def im_empty)
  ultimately have ok: "cache_ok resolve_path (fold (\<lambda>h m. snd (get_or_resolve resolve_path h m)) handles [])" .
  show ?thesis
    using get_or_resolve_ok [OF ok, of h] ok unfolding cache_ok_def by blast
qed

end
