(* ===== verification/Windows_Emit.thy ===== *)
theory Windows_Emit
  imports Windows_Keycode Backend
begin

text \<open>
  The output half of the Windows backend (\<open>src/platform/windows/mapping.rs\<close>): key events injected
  with \<open>SendInput\<close>, the ledger of recent injections, the sleep budget of a hook callback, and the
  emitter over them.
\<close>

section \<open>The ledger of injections\<close>

text \<open>Times are in microseconds. An entry is a virtual-key code, a direction and a time.\<close>

definition TAG_MATCH_WINDOW :: nat where "TAG_MATCH_WINDOW = 50000"

type_synonym ledger = "(u16 \<times> bool \<times> nat) list"

definition expire :: "nat \<Rightarrow> ledger \<Rightarrow> ledger" where
  "expire now l = filter (\<lambda>(_, _, ts). now - ts < TAG_MATCH_WINDOW) l"

definition ledger_record :: "nat \<Rightarrow> u16 \<Rightarrow> bool \<Rightarrow> ledger \<Rightarrow> ledger" where
  "ledger_record now vk down l = expire now l @ [(vk, down, now)]"

text \<open>Removing the first entry that satisfies a predicate: \<open>position\<close> and \<open>remove\<close>.\<close>

fun remove_first :: "('a \<Rightarrow> bool) \<Rightarrow> 'a list \<Rightarrow> 'a list option" where
  "remove_first P [] = None"
| "remove_first P (x # xs) = (if P x then Some xs else map_option (Cons x) (remove_first P xs))"

definition entry_for :: "u16 \<Rightarrow> bool \<Rightarrow> u16 \<times> bool \<times> nat \<Rightarrow> bool" where
  "entry_for vk down entry \<longleftrightarrow> fst entry = vk \<and> fst (snd entry) = down"

definition check_and_consume :: "nat \<Rightarrow> u16 \<Rightarrow> bool \<Rightarrow> ledger \<Rightarrow> bool \<times> ledger" where
  "check_and_consume now vk down l =
     (let l1 = expire now l
      in case remove_first (entry_for vk down) l1 of
           Some l2 \<Rightarrow> (True, l2)
         | None \<Rightarrow> (False, l1))"

section \<open>The sleep budget\<close>

definition HOOK_SLEEP_BUDGET :: nat where "HOOK_SLEEP_BUDGET = 100000"

text \<open>
  What an injection carries. The tag \<open>INJECTED_TAG\<close> is stamped on every one.
\<close>

record win_input =
  wi_vk :: u16
  wi_scan :: u16
  wi_flags :: u32

text \<open>
  The process around the callback: the clock, the start of the callback in progress, the ledger,
  which of the next \<open>SendInput\<close> calls are blocked (none, once the script is used up), and the inputs
  injected. \<open>MapVirtualKeyW\<close> is a field.
\<close>

record win_io =
  io_now :: nat
  io_callback :: "nat option"
  io_ledger :: ledger
  io_blocked :: "bool list"
  io_sent :: "win_input list"
  io_map_vk :: "u32 \<Rightarrow> u32"

text \<open>The guard: constructed and dropped around a callback; only the outermost sets the start.\<close>

definition guard_new :: "win_io \<Rightarrow> bool \<times> win_io" where
  "guard_new io =
     (let already = (io_callback io \<noteq> None)
      in (already, if already then io else io\<lparr>io_callback := Some (io_now io)\<rparr>))"

definition guard_drop :: "bool \<Rightarrow> win_io \<Rightarrow> win_io" where
  "guard_drop was_set io = (if was_set then io else io\<lparr>io_callback := None\<rparr>)"

definition bounded_sleep :: "nat \<Rightarrow> win_io \<Rightarrow> nat option" where
  "bounded_sleep duration io =
     (case io_callback io of
        None \<Rightarrow> Some duration
      | Some start \<Rightarrow>
          (let elapsed = io_now io - start
           in if elapsed \<ge> HOOK_SLEEP_BUDGET then None
              else Some (min duration (HOOK_SLEEP_BUDGET - elapsed))))"

text \<open>A sleep lasts what it is asked for.\<close>

definition hook_sleep :: "nat \<Rightarrow> win_io \<Rightarrow> win_io" where
  "hook_sleep duration io =
     (case bounded_sleep duration io of
        Some sleep_for \<Rightarrow> io\<lparr>io_now := io_now io + sleep_for\<rparr>
      | None \<Rightarrow> io)"

section \<open>Injecting a key event\<close>

definition role_vkey :: "modifier_role \<Rightarrow> vkey" where
  "role_vkey role =
     (case role of
        RoleLeftControl \<Rightarrow> LeftControl | RoleRightControl \<Rightarrow> RightControl
      | RoleLeftShift \<Rightarrow> LeftShift | RoleRightShift \<Rightarrow> RightShift
      | RoleLeftAlt \<Rightarrow> LeftAlt | RoleRightAlt \<Rightarrow> RightAlt
      | RoleLeftCommand \<Rightarrow> LeftCommand | RoleRightCommand \<Rightarrow> RightCommand)"

definition modifier_bit_to_vk :: "u8 \<Rightarrow> u16 option" where
  "modifier_bit_to_vk b = map_option (\<lambda>role. vkey_as_native (role_vkey role)) (try_from_bit b)"

definition EXTENDED_VKS :: "u16 list" where
  "EXTENDED_VKS =
     [0x21, 0x22, 0x23, 0x24, 0x25, 0x26, 0x27, 0x28, 0x2C, 0x2D, 0x2E, 0x5B, 0x5C, 0x5D, 0x6F, 0x90,
      0xA1, 0xA3, 0xA5, 0xD3]"

definition scan_code_and_extended :: "(u32 \<Rightarrow> u32) \<Rightarrow> u16 \<Rightarrow> u16 \<times> bool" where
  "scan_code_and_extended map_vk vk =
     (let scan = map_vk (ucast vk)
      in (ucast (scan AND 0xFF), scan AND 0x100 \<noteq> 0 \<or> vk \<in> set EXTENDED_VKS))"

text \<open>The flags of the Windows headers.\<close>

definition KEYEVENTF_EXTENDEDKEY :: u32 where "KEYEVENTF_EXTENDEDKEY = 1"
definition KEYEVENTF_KEYUP :: u32 where "KEYEVENTF_KEYUP = 2"

definition send_input :: "win_input \<Rightarrow> win_io \<Rightarrow> win_io" where
  "send_input input io =
     (case io_blocked io of
        [] \<Rightarrow> io\<lparr>io_sent := io_sent io @ [input]\<rparr>
      | blocked # bs \<Rightarrow>
          (if blocked then io\<lparr>io_blocked := bs\<rparr>
           else io\<lparr>io_blocked := bs, io_sent := io_sent io @ [input]\<rparr>))"

definition simulate_key_event :: "u16 \<Rightarrow> bool \<Rightarrow> win_io \<Rightarrow> win_io" where
  "simulate_key_event vk is_key_up io =
     (let (scan, extended) = scan_code_and_extended (io_map_vk io) vk;
          flags0 = (if is_key_up then KEYEVENTF_KEYUP else 0);
          flags = (if extended then flags0 OR KEYEVENTF_EXTENDEDKEY else flags0)
      in send_input \<lparr>wi_vk = vk, wi_scan = scan, wi_flags = flags\<rparr>
           (io\<lparr>io_ledger := ledger_record (io_now io) vk (\<not> is_key_up) (io_ledger io)\<rparr>))"

section \<open>Emission\<close>

text \<open>An event followed by the pacing of one millisecond.\<close>

definition paced_event :: "u16 \<Rightarrow> bool \<Rightarrow> win_io \<Rightarrow> win_io" where
  "paced_event vk is_key_up io = hook_sleep 1000 (simulate_key_event vk is_key_up io)"

fun win_press_bits :: "u8 \<Rightarrow> u8 list \<Rightarrow> u16 list \<Rightarrow> win_io \<Rightarrow> u16 list \<times> win_io" where
  "win_press_bits ms [] pressed io = (pressed, io)"
| "win_press_bits ms (b # bs) pressed io =
     (if drop_bit (unat b) ms AND 1 = 1 then
        (case modifier_bit_to_vk b of
           Some vk \<Rightarrow> win_press_bits ms bs (pressed @ [vk]) (paced_event vk False io)
         | None \<Rightarrow> win_press_bits ms bs pressed io)
      else win_press_bits ms bs pressed io)"

fun win_release_vks :: "u16 list \<Rightarrow> win_io \<Rightarrow> win_io" where
  "win_release_vks [] io = io"
| "win_release_vks (vk # vks) io = win_release_vks vks (paced_event vk True io)"

definition win_emit_key_event :: "native_key \<Rightarrow> win_io \<Rightarrow> win_io" where
  "win_emit_key_event nk io =
     (let (pressed, io1) = win_press_bits (nk_modifiers nk) mask_bits [] io
      in case output_vk (nk_usage nk) of
           None \<Rightarrow> win_release_vks (rev pressed) io1
         | Some base_vk \<Rightarrow>
             win_release_vks (rev pressed) (paced_event base_vk True (paced_event base_vk False io1)))"

fun win_release_bits :: "u8 \<Rightarrow> u8 list \<Rightarrow> win_io \<Rightarrow> win_io" where
  "win_release_bits m [] io = io"
| "win_release_bits m (b # bs) io =
     (if m AND bit_mask b \<noteq> 0 then
        (case modifier_bit_to_vk b of
           Some vk \<Rightarrow> win_release_bits m bs (paced_event vk True io)
         | None \<Rightarrow> win_release_bits m bs io)
      else win_release_bits m bs io)"

definition release_modifiers :: "u8 \<Rightarrow> win_io \<Rightarrow> win_io" where
  "release_modifiers m io = win_release_bits m mask_bits io"

fun win_hold_bits :: "u8 \<Rightarrow> u8 option \<Rightarrow> u8 list \<Rightarrow> win_io \<Rightarrow> win_io" where
  "win_hold_bits ms base_bit [] io = io"
| "win_hold_bits ms base_bit (b # bs) io =
     (if drop_bit (unat b) ms AND 1 = 1 \<and> base_bit \<noteq> Some b then
        (case modifier_bit_to_vk b of
           Some vk \<Rightarrow> win_hold_bits ms base_bit bs (paced_event vk False io)
         | None \<Rightarrow> win_hold_bits ms base_bit bs io)
      else win_hold_bits ms base_bit bs io)"

definition win_hold_modifier_output :: "native_key \<Rightarrow> win_io \<Rightarrow> win_io" where
  "win_hold_modifier_output nk io =
     (let base_bit = hid_usage_to_modifier_bit (nk_usage nk);
          io1 = win_hold_bits (nk_modifiers nk) base_bit mask_bits io
      in case Option.bind base_bit modifier_bit_to_vk of
           Some vk \<Rightarrow> paced_event vk False io1
         | None \<Rightarrow> io1)"

text \<open>\<open>WindowsEmitter\<close>: a forward is carried out by not swallowing the event, so it is inert here.\<close>

definition windows_consumed_release :: consumed_release_fate where
  "windows_consumed_release = CrSwallow"

definition windows_emit :: "device_action \<Rightarrow> win_io \<Rightarrow> win_io" where
  "windows_emit a io =
     (case a of
        Forward _ _ \<Rightarrow> io
      | OutReleaseConsumed consumed \<Rightarrow> release_modifiers consumed io
      | OutTap nk \<Rightarrow> win_emit_key_event nk io
      | OutHold nk \<Rightarrow> win_hold_modifier_output nk io)"

fun windows_emit_all :: "device_action list \<Rightarrow> win_io \<Rightarrow> win_io" where
  "windows_emit_all [] io = io"
| "windows_emit_all (a # as) io = windows_emit_all as (windows_emit a io)"

text \<open>The emissions queued by the raw worker: every output of every batch is a tap.\<close>

definition drain_and_emit_emissions :: "native_key list list \<Rightarrow> win_io \<Rightarrow> win_io" where
  "drain_and_emit_emissions pending io = windows_emit_all (map OutTap (concat pending)) io"

section \<open>The events of an action\<close>

definition modifier_vk :: "nat \<Rightarrow> u16" where
  "modifier_vk i = vkey_as_native (modifier_usages ! i)"

definition vks_at :: "u8 \<Rightarrow> u8 list \<Rightarrow> u16 list" where
  "vks_at ms bs = map (\<lambda>b. modifier_vk (unat b)) (filter (\<lambda>b. bit ms (unat b)) bs)"

text \<open>Events are virtual-key codes with whether they are key-ups.\<close>

abbreviation ups :: "u16 list \<Rightarrow> (u16 \<times> bool) list" where
  "ups vks \<equiv> map (\<lambda>vk. (vk, True)) vks"

abbreviation downs :: "u16 list \<Rightarrow> (u16 \<times> bool) list" where
  "downs vks \<equiv> map (\<lambda>vk. (vk, False)) vks"

definition action_events :: "device_action \<Rightarrow> (u16 \<times> bool) list" where
  "action_events a =
     (case a of
        Forward _ _ \<Rightarrow> []
      | OutReleaseConsumed m \<Rightarrow> ups (vks_at m mask_bits)
      | OutTap nk \<Rightarrow>
          downs (vks_at (nk_modifiers nk) mask_bits)
          @ (case output_vk (nk_usage nk) of Some vk \<Rightarrow> [(vk, False), (vk, True)] | None \<Rightarrow> [])
          @ ups (rev (vks_at (nk_modifiers nk) mask_bits))
      | OutHold nk \<Rightarrow>
          downs (vks_at (nk_modifiers nk AND NOT (usage_mask (nk_usage nk))) mask_bits
            @ vks_at (usage_mask (nk_usage nk)) mask_bits))"

abbreviation inject :: "(u16 \<times> bool) list \<Rightarrow> win_io \<Rightarrow> win_io" where
  "inject evs io \<equiv> fold (\<lambda>(vk, up). paced_event vk up) evs io"

lemma vkey_modifier [simp]: "i < 8 \<Longrightarrow> modifier_usages ! i \<in> set vkey_all"
  by (drule lt_8_cases) (auto simp: modifier_usages_def vkey_all_iff)

lemma modifier_bit_to_vk_mask_bits:
  assumes "b \<in> set mask_bits" shows "modifier_bit_to_vk b = Some (modifier_vk (unat b))"
proof -
  have "list_all (\<lambda>(b, m, u). try_from_bit b = Some (mod_role m) \<and> role_vkey (mod_role m) = u
      \<and> modifier_usages ! unat b = u)
      (zip mask_bits (map (\<lambda>m. (m, ModifierUsage m)) [U_LeftControl, U_LeftShift, U_LeftAlt, U_LeftCommand,
        U_RightControl, U_RightShift, U_RightAlt, U_RightCommand]))" (is "list_all _ (zip _ ?ms)")
    by (simp add: mask_bits_def try_from_bit_def modifier_usages_def role_vkey_def)
  moreover have "b \<in> fst ` set (zip mask_bits ?ms)" using assms by (simp add: mask_bits_def)
  ultimately obtain m where "try_from_bit b = Some (mod_role m)" "role_vkey (mod_role m) = modifier_usages ! unat b"
    by (auto simp: list_all_iff)
  then show ?thesis by (simp add: modifier_bit_to_vk_def modifier_vk_def)
qed

lemma vks_at_simps [simp]:
  "vks_at ms [] = []"
  "vks_at ms (b # bs) = (if bit ms (unat b) then [modifier_vk (unat b)] else []) @ vks_at ms bs"
  by (simp_all add: vks_at_def)

lemma press_bits_fold:
  "set bs \<subseteq> set mask_bits \<Longrightarrow>
   win_press_bits ms bs pressed io = (pressed @ vks_at ms bs, inject (downs (vks_at ms bs)) io)"
  by (induction ms bs pressed io rule: win_press_bits.induct)
    (auto simp: shifted_bit modifier_bit_to_vk_mask_bits)

lemma release_vks_fold: "win_release_vks vks io = inject (ups vks) io"
  by (induction vks arbitrary: io) simp_all

lemma mask_bits_lt: "b \<in> set mask_bits \<Longrightarrow> unat b < 8"
  using mask_bits_positions by blast

lemma release_bits_fold:
  "set bs \<subseteq> set mask_bits \<Longrightarrow> win_release_bits m bs io = inject (ups (vks_at m bs)) io"
proof (induction m bs io rule: win_release_bits.induct)
  case (2 m b bs io)
  then have "unat b < 8" by (simp add: mask_bits_lt)
  with 2 show ?case by (auto simp: mask_test_iff modifier_bit_to_vk_mask_bits)
qed simp

lemma usage_mask_bit: "b \<in> set mask_bits \<Longrightarrow> bit (usage_mask u) (unat b) \<longleftrightarrow> hid_usage_to_modifier_bit u = Some b"
  by (cases "hid_usage_to_modifier_bit u")
    (auto simp: bits_of_iff [symmetric] bits_of_bit_mask modifier_bit_bound dest: unsigned_word_eqI)

lemma filter_single: "distinct xs \<Longrightarrow> x \<in> set xs \<Longrightarrow> filter (\<lambda>y. y = x) xs = [x]"
  by (induction xs) (auto simp: filter_empty_conv)

lemma hold_bits_fold:
  "set bs \<subseteq> set mask_bits \<Longrightarrow>
   win_hold_bits ms (hid_usage_to_modifier_bit u) bs io
     = inject (downs (vks_at (ms AND NOT (usage_mask u)) bs)) io"
proof (induction bs arbitrary: io)
  case (Cons b bs)
  then have b: "b \<in> set mask_bits" "unat b < 8" by (simp_all add: mask_bits_lt)
  then have "bit (ms AND NOT (usage_mask u)) (unat b) \<longleftrightarrow> bit ms (unat b) \<and> hid_usage_to_modifier_bit u \<noteq> Some b"
    using usage_mask_bit [OF b(1), of u] by (simp add: bit_simps)
  with Cons b(1) show ?case by (auto simp: shifted_bit modifier_bit_to_vk_mask_bits)
qed simp

lemma vks_at_usage_mask:
  "vks_at (usage_mask u) mask_bits
     = (case Option.bind (hid_usage_to_modifier_bit u) modifier_bit_to_vk of Some vk \<Rightarrow> [vk] | None \<Rightarrow> [])"
proof (cases "hid_usage_to_modifier_bit u")
  case None
  then show ?thesis by (simp add: vks_at_def)
next
  case (Some b)
  have "unat b \<in> unat ` set mask_bits"
    unfolding mask_bits_positions using modifier_bit_bound [OF Some] by simp
  then have b: "b \<in> set mask_bits" by (auto dest: unsigned_word_eqI)
  have "distinct mask_bits" by (simp add: mask_bits_def)
  from filter_single [OF this b] have "filter (\<lambda>b'. b' = b) mask_bits = [b]" .
  moreover have "filter (\<lambda>b'. bit (usage_mask u) (unat b')) mask_bits = filter (\<lambda>b'. b' = b) mask_bits"
    using usage_mask_bit [of _ u] unfolding Some by (intro filter_cong) blast+
  ultimately show ?thesis by (simp add: vks_at_def Some modifier_bit_to_vk_mask_bits [OF b])
qed

lemma windows_emit_fold: "windows_emit a io = inject (action_events a) io"
  by (cases a)
    (auto simp: windows_emit_def action_events_def release_modifiers_def release_bits_fold Let_def
      win_emit_key_event_def press_bits_fold release_vks_fold win_hold_modifier_output_def hold_bits_fold
      vks_at_usage_mask split: option.splits)

lemma windows_emit_all_fold: "windows_emit_all as io = inject (concat (map action_events as)) io"
  by (induction "as" arbitrary: io) (simp_all add: windows_emit_fold)

section \<open>What the injected events press and release\<close>

text \<open>The keys a client sees pressed, and the modifier bits among them.\<close>

definition apply_key :: "u16 \<times> bool \<Rightarrow> u16 set \<Rightarrow> u16 set" where
  "apply_key e P = (if snd e then P - {fst e} else insert (fst e) P)"

definition vk_bits :: "u16 \<Rightarrow> nat set" where
  "vk_bits vk = (case vk_to_hid_usage vk of Some u \<Rightarrow> bits_of (usage_mask u) | None \<Rightarrow> {})"

definition vk_mods :: "u16 set \<Rightarrow> nat set" where
  "vk_mods P = (\<Union>vk \<in> P. vk_bits vk)"

lemma apply_downs: "fold apply_key (downs vks) P = P \<union> set vks"
  by (induction vks arbitrary: P) (auto simp: apply_key_def)

lemma apply_ups: "fold apply_key (ups vks) P = P - set vks"
  by (induction vks arbitrary: P) (auto simp: apply_key_def)

lemma vk_bits_output: "output_vk u = Some vk \<Longrightarrow> vk_bits vk = bits_of (usage_mask u)"
  using vkey_all_iff [of u] by (simp add: vk_bits_def vk_to_hid_usage_iff [THEN iffD2] output_vk_iff split: if_splits)

lemma vk_bits_modifier: "i < 8 \<Longrightarrow> vk_bits (modifier_vk i) = {i}"
proof -
  assume i: "i < 8"
  then have "unat (of_nat i :: u8) = i" by (simp add: unat_of_nat take_bit_nat_eq_self)
  with i show ?thesis
    using vk_bits_output [of "modifier_usages ! i"] modifier_usages_bit [OF i]
    by (simp add: output_vk_iff modifier_vk_def bits_of_bit_mask)
qed

lemma vk_bits_inject:
  assumes "n \<in> vk_bits v" "n \<in> vk_bits w" shows "v = w"
proof -
  obtain u u' where u: "vk_to_hid_usage v = Some u" "n \<in> bits_of (usage_mask u)"
    "vk_to_hid_usage w = Some u'" "n \<in> bits_of (usage_mask u')"
    using assms by (auto simp: vk_bits_def split: option.splits)
  obtain b b' where b: "hid_usage_to_modifier_bit u = Some b" "hid_usage_to_modifier_bit u' = Some b'"
    using u by (cases "hid_usage_to_modifier_bit u"; cases "hid_usage_to_modifier_bit u'") auto
  with u have "unat b = unat b'" by (simp add: bits_of_bit_mask modifier_bit_bound)
  then have "b = b'" by (rule unsigned_word_eqI)
  with b have "u = u'" using modifier_bit_inject by blast
  with u show ?thesis by (simp add: vk_to_hid_usage_iff)
qed

lemma vk_mods_simps [simp]:
  "vk_mods {} = {}"
  "vk_mods (P \<union> Q) = vk_mods P \<union> vk_mods Q"
  "vk_mods (insert vk P) = vk_bits vk \<union> vk_mods P"
  "vk_mods (P - Q) = vk_mods P - vk_mods Q"
  by (auto simp: vk_mods_def dest: vk_bits_inject)

lemma set_vks_at: "set (vks_at m mask_bits) = modifier_vk ` bits_of m"
proof -
  have "set (vks_at m mask_bits) = modifier_vk ` {i \<in> unat ` set mask_bits. bit m i}"
    by (auto simp: vks_at_def)
  also have "{i \<in> unat ` set mask_bits. bit m i} = bits_of m"
    unfolding mask_bits_positions by (auto simp: bits_of_iff dest: bits_of_bound [unfolded bits_of_iff])
  finally show ?thesis .
qed

lemma vk_mods_mask: "vk_mods (modifier_vk ` bits_of m) = bits_of m"
  using bits_of_bound [of _ m] by (auto simp: vk_mods_def vk_bits_modifier)

lemma no_plain_modifier_vk: "vk \<in> modifier_vk ` bits_of m \<Longrightarrow> vk_bits vk \<noteq> {}"
  using bits_of_bound [of _ m] by (auto simp: vk_bits_modifier)

lemma action_events_bits:
  "vk_mods (fold apply_key (concat (map action_events (queue_plan_actions [a]))) P) = act_bits a (vk_mods P)
   \<and> {vk \<in> fold apply_key (concat (map action_events (queue_plan_actions [a]))) P. vk_bits vk = {}} \<subseteq> P"
proof (cases a)
  case (ReleaseConsumed m)
  then show ?thesis
    by (auto simp: queue_plan_actions_def action_events_def apply_ups set_vks_at vk_mods_mask act_bits_def)
next
  case (Tap nk)
  let ?M = "modifier_vk ` bits_of (nk_modifiers nk)"
  show ?thesis
  proof (cases "output_vk (nk_usage nk)")
    case None
    then have "bits_of (usage_mask (nk_usage nk)) = {}"
      using vkey_all_iff [of "nk_usage nk"] output_vk_iff [of "nk_usage nk"] by (auto split: if_splits)
    with Tap None show ?thesis
      by (auto simp: queue_plan_actions_def action_events_def apply_ups apply_downs set_vks_at vk_mods_mask
          act_bits_def)
  next
    case (Some vk)
    from vk_bits_output [OF this] Tap Some show ?thesis
      by (auto simp: queue_plan_actions_def action_events_def apply_ups apply_downs apply_key_def set_vks_at
          vk_mods_mask act_bits_def)
  qed
next
  case (Hold nk)
  define m u where "m = nk_modifiers nk AND NOT (usage_mask (nk_usage nk))" and "u = usage_mask (nk_usage nk)"
  have P': "fold apply_key (concat (map action_events (queue_plan_actions [a]))) P =
      P \<union> modifier_vk ` bits_of m \<union> modifier_vk ` bits_of u"
    unfolding Hold
    by (simp add: queue_plan_actions_def action_events_def apply_downs set_vks_at m_def u_def Un_assoc
        del: map_append bits_of_and)
  have "bits_of m = bits_of (nk_modifiers nk) - bits_of u" by (simp add: m_def u_def bits_of_and_not del: bits_of_and)
  moreover have "vk_mods (P \<union> modifier_vk ` bits_of m \<union> modifier_vk ` bits_of u) =
      vk_mods P \<union> bits_of m \<union> bits_of u" by (simp only: vk_mods_simps vk_mods_mask)
  ultimately show ?thesis
    unfolding P' using no_plain_modifier_vk [of _ m] no_plain_modifier_vk [of _ u]
    by (auto simp: act_bits_def Hold u_def)
qed

lemma plan_events_bits:
  "vk_mods (fold apply_key (concat (map action_events (queue_plan_actions plan))) P) = fold act_bits plan (vk_mods P)
   \<and> {vk \<in> fold apply_key (concat (map action_events (queue_plan_actions plan))) P. vk_bits vk = {}} \<subseteq> P"
proof (induction plan arbitrary: P)
  case (Cons a plan)
  have "queue_plan_actions (a # plan) = queue_plan_actions [a] @ queue_plan_actions plan"
    by (simp add: queue_plan_actions_def)
  with Cons.IH [of "fold apply_key (concat (map action_events (queue_plan_actions [a]))) P"] action_events_bits [of a P]
  show ?case by auto
qed (simp add: queue_plan_actions_def)

text \<open>The events injected so far.\<close>

definition sent_keys :: "win_io \<Rightarrow> (u16 \<times> bool) list" where
  "sent_keys io = map (\<lambda>i. (wi_vk i, wi_flags i AND KEYEVENTF_KEYUP \<noteq> 0)) (io_sent io)"

lemma hook_sleep_simps [simp]:
  "io_sent (hook_sleep d io) = io_sent io" "io_blocked (hook_sleep d io) = io_blocked io"
  "io_callback (hook_sleep d io) = io_callback io" "io_ledger (hook_sleep d io) = io_ledger io"
  by (simp_all add: hook_sleep_def split: option.split)

lemma simulate_key_event_simps [simp]:
  "io_callback (simulate_key_event vk up io) = io_callback io"
  "io_now (simulate_key_event vk up io) = io_now io"
  by (simp_all add: simulate_key_event_def send_input_def Let_def case_prod_beta split: list.split)

lemma paced_event_sent:
  assumes "io_blocked io = []"
  shows "sent_keys (paced_event vk up io) = sent_keys io @ [(vk, up)] \<and> io_blocked (paced_event vk up io) = []"
  using assms
  by (simp add: paced_event_def simulate_key_event_def send_input_def sent_keys_def Let_def case_prod_beta
      KEYEVENTF_KEYUP_def KEYEVENTF_EXTENDEDKEY_def)

lemma inject_sent:
  "io_blocked io = [] \<Longrightarrow> sent_keys (inject evs io) = sent_keys io @ evs \<and> io_blocked (inject evs io) = []"
  by (induction evs arbitrary: io) (auto simp: paced_event_sent)

definition in_budget :: "nat \<Rightarrow> win_io \<Rightarrow> bool" where
  "in_budget start io \<longleftrightarrow> io_callback io = Some start \<and> start \<le> io_now io \<and> io_now io \<le> start + HOOK_SLEEP_BUDGET"

lemma hook_sleep_budget:
  "in_budget start io \<Longrightarrow> in_budget start (hook_sleep d io) \<and> io_now io \<le> io_now (hook_sleep d io)"
  by (auto simp: in_budget_def hook_sleep_def bounded_sleep_def Let_def split: if_splits)

lemma inject_budget:
  "in_budget start io \<Longrightarrow> in_budget start (inject evs io) \<and> io_now io \<le> io_now (inject evs io)"
proof (induction evs arbitrary: io)
  case (Cons e evs)
  have "in_budget start (simulate_key_event (fst e) (snd e) io)" using Cons.prems by (simp add: in_budget_def)
  from hook_sleep_budget [OF this, of 1000]
  have "in_budget start (paced_event (fst e) (snd e) io)" "io_now io \<le> io_now (paced_event (fst e) (snd e) io)"
    by (simp_all add: paced_event_def)
  with Cons.IH [of "paced_event (fst e) (snd e) io"] show ?case
    by (simp add: case_prod_beta)
qed simp

section \<open>Runs of the ledger\<close>

text \<open>An injection is recorded, or a tagged event reaches the hook, at a time.\<close>

datatype ledger_op = Injected nat u16 bool | Tagged nat u16 bool

definition ledger_step :: "ledger_op \<Rightarrow> ledger \<Rightarrow> bool \<times> ledger" where
  "ledger_step op l =
     (case op of
        Injected now vk down \<Rightarrow> (False, ledger_record now vk down l)
      | Tagged now vk down \<Rightarrow> check_and_consume now vk down l)"

fun ledger_run :: "ledger_op list \<Rightarrow> ledger \<Rightarrow> bool list \<times> ledger" where
  "ledger_run [] l = ([], l)"
| "ledger_run (op # ops) l =
     (let (ok, l1) = ledger_step op l; (rs, l2) = ledger_run ops l1 in (ok # rs, l2))"

definition is_injected :: "u16 \<Rightarrow> bool \<Rightarrow> ledger_op \<Rightarrow> bool" where
  "is_injected vk down op \<longleftrightarrow> (case op of Injected _ v d \<Rightarrow> v = vk \<and> d = down | Tagged _ _ _ \<Rightarrow> False)"

definition is_tagged :: "u16 \<Rightarrow> bool \<Rightarrow> ledger_op \<Rightarrow> bool" where
  "is_tagged vk down op \<longleftrightarrow> (case op of Tagged _ v d \<Rightarrow> v = vk \<and> d = down | Injected _ _ _ \<Rightarrow> False)"

definition bypasses :: "u16 \<Rightarrow> bool \<Rightarrow> ledger_op list \<Rightarrow> ledger \<Rightarrow> nat" where
  "bypasses vk down ops l =
     length (filter (\<lambda>(op, ok). ok \<and> is_tagged vk down op) (zip ops (fst (ledger_run ops l))))"

definition entry_count :: "u16 \<Rightarrow> bool \<Rightarrow> ledger \<Rightarrow> nat" where
  "entry_count vk down l = length (filter (entry_for vk down) l)"

lemma entry_count_simps [simp]:
  "entry_count vk down [] = 0"
  "entry_count vk down (l @ l') = entry_count vk down l + entry_count vk down l'"
  "entry_count vk down ((v, d, t) # l) = (if v = vk \<and> d = down then 1 else 0) + entry_count vk down l"
  by (simp_all add: entry_count_def entry_for_def)

lemma entry_count_expire: "entry_count vk down (expire now l) \<le> entry_count vk down l"
  by (induction l) (auto simp: expire_def)

lemma remove_first_count:
  "remove_first (entry_for vk down) l = Some l' \<Longrightarrow>
     entry_count vk' down' l = entry_count vk' down' l' + (if vk' = vk \<and> down' = down then 1 else 0)"
  by (induction l arbitrary: l') (auto simp: entry_for_def split: if_splits)

lemma remove_first_set: "remove_first P l = Some l' \<Longrightarrow> set l' \<subseteq> set l \<and> (\<exists>x \<in> set l. P x)"
  by (induction l arbitrary: l') (auto split: if_splits)

lemma remove_first_None: "remove_first P l = None \<longleftrightarrow> (\<forall>x \<in> set l. \<not> P x)"
  by (induction l) auto

lemma check_and_consume_count:
  assumes "check_and_consume now vk down l = (ok, l')"
  shows "entry_count vk' down' l' + (if ok \<and> vk' = vk \<and> down' = down then 1 else 0) \<le> entry_count vk' down' l"
proof (cases "remove_first (entry_for vk down) (expire now l)")
  case None
  with assms entry_count_expire [of vk' down' now l] show ?thesis by (simp add: check_and_consume_def)
next
  case (Some l2)
  with assms remove_first_count [OF Some, of vk' down'] entry_count_expire [of vk' down' now l]
  show ?thesis by (simp add: check_and_consume_def)
qed

lemma ledger_step_count:
  "entry_count vk down (snd (ledger_step op l)) + (if fst (ledger_step op l) \<and> is_tagged vk down op then 1 else 0)
     \<le> entry_count vk down l + (if is_injected vk down op then 1 else 0)"
proof (cases op)
  case (Injected now v d)
  with entry_count_expire [of vk down now l] show ?thesis
    by (simp add: ledger_step_def is_tagged_def is_injected_def ledger_record_def)
next
  case (Tagged now v d)
  obtain ok l1 where c: "check_and_consume now v d l = (ok, l1)" by fastforce
  have op: "is_tagged vk down op \<longleftrightarrow> vk = v \<and> down = d" "\<not> is_injected vk down op" "ledger_step op l = (ok, l1)"
    by (auto simp: Tagged ledger_step_def is_tagged_def is_injected_def c)
  show ?thesis
    using check_and_consume_count [OF c, of vk down] unfolding op fst_conv snd_conv by simp
qed

lemma bypasses_Cons:
  "bypasses vk down (op # ops) l =
     (if fst (ledger_step op l) \<and> is_tagged vk down op then 1 else 0) + bypasses vk down ops (snd (ledger_step op l))"
  by (simp add: bypasses_def case_prod_beta Let_def)

lemma bypasses_bound: "bypasses vk down ops l \<le> entry_count vk down l + length (filter (is_injected vk down) ops)"
proof (induction ops arbitrary: l)
  case (Cons op ops)
  from Cons.IH [of "snd (ledger_step op l)"] ledger_step_count [of vk down op l] show ?case
    unfolding bypasses_Cons filter.simps
    by (cases "is_injected vk down op"; cases "fst (ledger_step op l)"; cases "is_tagged vk down op") simp_all
qed (simp add: bypasses_def)

lemma ledger_run_append:
  "ledger_run (ops @ ops') l =
     (let (rs, l1) = ledger_run ops l; (rs', l2) = ledger_run ops' l1 in (rs @ rs', l2))"
  by (induction ops arbitrary: l) (simp_all add: Let_def case_prod_beta)

lemma check_and_consume_set: "set (snd (check_and_consume now vk down l)) \<subseteq> set l"
  by (auto simp: check_and_consume_def Let_def expire_def dest!: remove_first_set split: option.splits)

lemma ledger_run_set:
  "(vk, down, t) \<in> set (snd (ledger_run ops l)) \<Longrightarrow> (vk, down, t) \<in> set l \<or> Injected t vk down \<in> set ops"
proof (induction ops arbitrary: l)
  case (Cons op ops)
  then have "(vk, down, t) \<in> set (snd (ledger_step op l)) \<or> Injected t vk down \<in> set ops"
    by (simp add: case_prod_beta Let_def)
  moreover have "(vk, down, t) \<in> set (snd (ledger_step op l)) \<Longrightarrow> (vk, down, t) \<in> set l \<or> op = Injected t vk down"
    using check_and_consume_set [of _ _ _ l]
    by (cases op) (auto simp: ledger_step_def ledger_record_def expire_def)
  ultimately show ?case by auto
qed simp

section \<open>Properties\<close>

text \<open>
  Injection carries out the plan: when no \<open>SendInput\<close> is blocked, emitting the actions of any
  emission plan changes the modifiers a client sees pressed as the plan's actions say, and leaves
  no other key pressed that was not pressed before, whatever sleep the callback's budget still
  allows.
\<close>
theorem injection_carries_out_plan:
  assumes "io_blocked io = []"
  shows "vk_mods (fold apply_key (sent_keys (windows_emit_all (queue_plan_actions plan) io)) P)
      = fold act_bits plan (vk_mods (fold apply_key (sent_keys io) P))
    \<and> {vk \<in> fold apply_key (sent_keys (windows_emit_all (queue_plan_actions plan) io)) P. vk_bits vk = {}}
      \<subseteq> fold apply_key (sent_keys io) P"
  using plan_events_bits [of plan "fold apply_key (sent_keys io) P"]
  by (simp add: windows_emit_all_fold inject_sent [OF assms])

lemma injection_carries_out_plan_witness:
  "vk_mods (fold apply_key (sent_keys (windows_emit_all (queue_plan_actions
      [ReleaseConsumed 1, Hold \<lparr>nk_modifiers = 2, nk_usage = RightAlt\<rparr>])
      \<lparr>io_now = 0, io_callback = None, io_ledger = [], io_blocked = [], io_sent = [], io_map_vk = id\<rparr>)) {})
   = fold act_bits [ReleaseConsumed 1, Hold \<lparr>nk_modifiers = 2, nk_usage = RightAlt\<rparr>] {}"
  using injection_carries_out_plan [of
      "\<lparr>io_now = 0, io_callback = None, io_ledger = [], io_blocked = [], io_sent = [], io_map_vk = id\<rparr>"
      "[ReleaseConsumed 1, Hold \<lparr>nk_modifiers = 2, nk_usage = RightAlt\<rparr>]" "{}"]
  by (simp add: sent_keys_def)

text \<open>
  The callback stays within its budget: emitting any number of actions inside a hook callback
  never sleeps past 100 ms after the callback's start, however many events they inject.
\<close>
theorem callback_sleep_bounded:
  assumes "io_callback io = Some start" "start \<le> io_now io" "io_now io \<le> start + HOOK_SLEEP_BUDGET"
  shows "io_now io \<le> io_now (windows_emit_all as io) \<and> io_now (windows_emit_all as io) \<le> start + HOOK_SLEEP_BUDGET"
  using inject_budget [of start io "concat (map action_events as)"] assms
  by (simp add: in_budget_def windows_emit_all_fold)

lemma callback_sleep_bounded_witness:
  "io_now (windows_emit_all (replicate 500 (OutTap \<lparr>nk_modifiers = 255, nk_usage = F1\<rparr>))
     \<lparr>io_now = 7, io_callback = Some 7, io_ledger = [], io_blocked = [], io_sent = [], io_map_vk = id\<rparr>) \<le> 100007"
  using callback_sleep_bounded [of
      "\<lparr>io_now = 7, io_callback = Some 7, io_ledger = [], io_blocked = [], io_sent = [], io_map_vk = id\<rparr>" 7]
  by (simp add: HOOK_SLEEP_BUDGET_def)

text \<open>
  C26. A forged tag does not bypass the mapping: in any sequence of injections and tagged events, at
  most as many tagged events of a key and direction are let through unmapped as the daemon has
  injected, and one that is let through follows an injection of the same key and direction within
  the match window.
\<close>
theorem tag_bypass_needs_injection:
  "bypasses vk down ops [] \<le> length (filter (is_injected vk down) ops)
   \<and> (last (fst (ledger_run (ops @ [Tagged now vk down]) [])) \<longrightarrow>
        (\<exists>t. Injected t vk down \<in> set ops \<and> now - t < TAG_MATCH_WINDOW))"
proof
  show "bypasses vk down ops [] \<le> length (filter (is_injected vk down) ops)"
    using bypasses_bound [of vk down ops "[]"] by simp
  let ?l = "snd (ledger_run ops [])"
  have "last (fst (ledger_run (ops @ [Tagged now vk down]) [])) = fst (check_and_consume now vk down ?l)"
    by (simp add: ledger_run_append Let_def case_prod_beta ledger_step_def)
  moreover have "\<exists>t. (vk, down, t) \<in> set ?l \<and> now - t < TAG_MATCH_WINDOW"
    if "fst (check_and_consume now vk down ?l)"
  proof -
    have "remove_first (entry_for vk down) (expire now ?l) \<noteq> None"
      using that by (auto simp: check_and_consume_def Let_def split: option.splits)
    then obtain e where "e \<in> set (expire now ?l)" "entry_for vk down e" unfolding remove_first_None by blast
    moreover obtain v d t where "e = (v, d, t)" by (cases e)
    ultimately show ?thesis unfolding expire_def entry_for_def by force
  qed
  ultimately show "last (fst (ledger_run (ops @ [Tagged now vk down]) [])) \<longrightarrow>
      (\<exists>t. Injected t vk down \<in> set ops \<and> now - t < TAG_MATCH_WINDOW)"
    using ledger_run_set [of vk down _ ops "[]"] by auto
qed

lemma tag_bypass_needs_injection_witness:
  "fst (ledger_run [Injected 0 65 True, Tagged 1000 65 True, Tagged 2000 65 True] []) = [False, True, False]
   \<and> (\<exists>t. Injected t 65 True \<in> set [Injected 0 65 True] \<and> 1000 - t < TAG_MATCH_WINDOW)"
proof -
  have "fst (ledger_run [Injected 0 65 True, Tagged 1000 65 True, Tagged 2000 65 True] []) = [False, True, False]"
    "last (fst (ledger_run ([Injected 0 65 True] @ [Tagged 1000 65 True]) []))"
    by (simp_all add: ledger_step_def check_and_consume_def ledger_record_def expire_def entry_for_def
        TAG_MATCH_WINDOW_def)
  with tag_bypass_needs_injection [of 65 True "[Injected 0 65 True]" 1000] show ?thesis by blast
qed

end
