(* ===== verification/Windows_Hook.thy ===== *)
theory Windows_Hook
  imports Windows_Raw Windows_Emit
begin

text \<open>
  The keyboard hook of the Windows backend (\<open>src/platform/windows/mapping.rs\<close>) and the capture it
  shares with the observe mode (\<open>capture.rs\<close>): the elevation check of the foreground process, the
  identification of the source device, and the hook procedure from a raw hook event to its fate.
\<close>

section \<open>Capture (capture.rs)\<close>

definition win_on_event :: "u16 \<Rightarrow> bool \<Rightarrow> captured_key" where
  "win_on_event vk_code down =
     \<lparr>ck_native = vk_code, ck_value = (if down then 1 else 0),
      ck_usage = map_option vkey_to_hid_usage (vkey_from_native vk_code)\<rparr>"

definition is_down_message :: "u32 \<Rightarrow> bool" where
  "is_down_message msg \<longleftrightarrow> msg = WM_KEYDOWN \<or> msg = WM_SYSKEYDOWN"

text \<open>What a hook procedure returns: the event goes on, or it is swallowed.\<close>

datatype hook_result = NextHook | Swallowed

record hook_event =
  he_code :: int
  he_message :: u32
  he_vk :: u32
  he_scan :: u32
  he_flags :: u32
  he_extra :: "64 word"

definition observe_keyboard_proc ::
  "hook_event \<Rightarrow> captured_key list option \<Rightarrow> hook_result \<times> captured_key list option" where
  "observe_keyboard_proc ev sink =
     (NextHook,
      if he_code ev \<ge> 0
      then map_option (\<lambda>keys. keys @ [win_on_event (ucast (he_vk ev)) (is_down_message (he_message ev))]) sink
      else sink)"

section \<open>The elevation of the foreground process\<close>

record fg_cache =
  fg_pid :: u32
  fg_hwnd :: nat
  fg_creation_time :: "64 word"
  fg_elevated :: bool
  fg_from_error_path :: bool

definition fg_new :: fg_cache where
  "fg_new = \<lparr>fg_pid = 0, fg_hwnd = 0, fg_creation_time = 0, fg_elevated = False, fg_from_error_path = False\<rparr>"

definition fg_cached :: "u32 \<Rightarrow> nat \<Rightarrow> fg_cache \<Rightarrow> bool option" where
  "fg_cached pid hwnd c =
     (if fg_pid c = pid \<and> fg_hwnd c = hwnd \<and> \<not> fg_from_error_path c then Some (fg_elevated c) else None)"

definition fg_update :: "u32 \<Rightarrow> nat \<Rightarrow> bool \<Rightarrow> 64 word \<Rightarrow> bool \<Rightarrow> fg_cache \<Rightarrow> fg_cache" where
  "fg_update pid hwnd elevated creation_time from_error_path c =
     \<lparr>fg_pid = pid, fg_hwnd = hwnd, fg_creation_time = creation_time, fg_elevated = elevated,
      fg_from_error_path = from_error_path\<rparr>"

text \<open>The result of \<open>GetProcessTimes\<close> (high and low part) and of \<open>GetTokenInformation\<close>, if they succeed.\<close>

definition process_creation_time :: "(u32 \<times> u32) option \<Rightarrow> 64 word" where
  "process_creation_time proc_times =
     (case proc_times of None \<Rightarrow> 0 | Some (high, low) \<Rightarrow> push_bit 32 (ucast high) OR ucast low)"

definition token_is_elevated :: "u32 option \<Rightarrow> bool" where
  "token_is_elevated info = (case info of None \<Rightarrow> False | Some v \<Rightarrow> v \<noteq> 0)"

text \<open>
  The calls of \<open>query_token_elevated\<close>: our own token, if it can be opened; the times and the token of
  a process, if they can.
\<close>

record elevation_api =
  ea_own_token :: "u32 option option"
  ea_process :: "u32 \<Rightarrow> ((u32 \<times> u32) option \<times> u32 option option) option"

definition query_token_elevated :: "elevation_api \<Rightarrow> u32 \<Rightarrow> bool \<times> 64 word \<times> bool" where
  "query_token_elevated api pid =
     (case ea_own_token api of
        None \<Rightarrow> (False, 0, True)
      | Some our_token \<Rightarrow>
          if token_is_elevated our_token then (False, 0, False)
          else (case ea_process api pid of
                  None \<Rightarrow> (True, 0, True)
                | Some (proc_times, token) \<Rightarrow>
                    (let creation_time = process_creation_time proc_times
                     in case token of
                          None \<Rightarrow> (True, creation_time, True)
                        | Some info \<Rightarrow> (token_is_elevated info, creation_time, False))))"

definition foreground_is_elevated ::
  "elevation_api \<Rightarrow> nat option \<Rightarrow> u32 \<Rightarrow> fg_cache \<Rightarrow> bool \<times> fg_cache" where
  "foreground_is_elevated api hwnd pid c =
     (case hwnd of
        None \<Rightarrow> (False, c)
      | Some h \<Rightarrow>
          if pid = 0 then (False, c)
          else (case fg_cached pid h c of
                  Some elevated \<Rightarrow> (elevated, c)
                | None \<Rightarrow>
                    (let (elevated, creation_time, from_error_path) = query_token_elevated api pid
                     in (elevated, fg_update pid h elevated creation_time from_error_path c))))"

section \<open>The hook procedure\<close>

definition INJECTED_TAG :: "64 word" where "INJECTED_TAG = 0x4B4D5001"
definition HOOK_SELFTEST_VK :: u16 where "HOOK_SELFTEST_VK = 0xFE"

type_synonym engine_key = "u16 \<times> bool"

text \<open>
  The state behind the procedure: its clock, ledger and injections, what it shares with the raw
  worker, the elevation cache, the engine once it is set, and the count of self-test events seen.
\<close>

record win_hook =
  wh_io :: win_io
  wh_shared :: raw_shared
  wh_fg :: fg_cache
  wh_engine :: "engine_key engine option"
  wh_selftest :: nat

text \<open>
  What one call meets: the time since the last one, the state of the lookup, the rounds of the
  device match (the time each takes and the raw events that have arrived in it), the foreground
  window and its process, and the system calls.
\<close>

record 's hook_env =
  en_elapsed :: nat
  en_lookup :: 's
  en_rounds :: "(nat \<times> raw_event list) list"
  en_hwnd :: "nat option"
  en_pid :: u32
  en_elevation :: elevation_api
  en_resolve_path :: "nat \<Rightarrow> string option"

definition advance :: "nat \<Rightarrow> win_io \<Rightarrow> win_io" where
  "advance dt io = io\<lparr>io_now := io_now io + dt\<rparr>"

text \<open>
  \<open>match_usage_with_retry\<close>: every round looks into the buffer, until the deadline. The rounds end
  with the deadline.
\<close>

fun match_rounds ::
  "hid_usage \<Rightarrow> nat \<Rightarrow> (nat \<times> raw_event list) list \<Rightarrow> buffered_raw_input list \<Rightarrow> win_io
    \<Rightarrow> nat option \<times> buffered_raw_input list \<times> win_io" where
  "match_rounds usage deadline [] buffer io = (None, buffer, io)"
| "match_rounds usage deadline ((dt, arrived) # rounds) buffer io =
     (let io1 = advance dt io
      in case match_usage usage (fold (push_event (io_now io1)) arrived buffer) of
           (Some handle_ptr, buffer1) \<Rightarrow> (Some handle_ptr, buffer1, io1)
         | (None, buffer1) \<Rightarrow>
             if io_now io1 \<ge> deadline then (None, buffer1, io1)
             else match_rounds usage deadline rounds buffer1 (hook_sleep 1000 io1))"

definition match_usage_with_retry ::
  "hid_usage \<Rightarrow> (nat \<times> raw_event list) list \<Rightarrow> buffered_raw_input list \<Rightarrow> win_io
    \<Rightarrow> nat option \<times> buffered_raw_input list \<times> win_io" where
  "match_usage_with_retry usage rounds buffer io =
     match_rounds usage (io_now io + 3000) rounds buffer io"

definition identify_device :: "'s hook_env \<Rightarrow> hid_usage \<Rightarrow> win_hook \<Rightarrow> string option \<times> win_hook" where
  "identify_device env usage st =
     (let sh = wh_shared st;
          (handle, buffer, io) = match_usage_with_retry usage (en_rounds env) (rw_buffer sh) (wh_io st);
          (device_path, devices) =
            (case handle of
               None \<Rightarrow> (None, rw_devices sh)
             | Some handle_ptr \<Rightarrow> get_or_resolve (en_resolve_path env) handle_ptr (rw_devices sh))
      in (device_path, st\<lparr>wh_io := io, wh_shared := sh\<lparr>rw_buffer := buffer, rw_devices := devices\<rparr>\<rparr>))"

text \<open>What is done with the engine's decision.\<close>

definition execute_decision :: "'s hook_env \<Rightarrow> decision \<Rightarrow> win_hook \<Rightarrow> hook_result \<times> win_hook" where
  "execute_decision env d st =
     (let (elevated, fg) =
            (if d \<noteq> Pass then foreground_is_elevated (en_elevation env) (en_hwnd env) (en_pid env) (wh_fg st)
             else (False, wh_fg st));
          st1 = st\<lparr>wh_fg := fg\<rparr>
      in if elevated then (NextHook, st1)
         else
           (let plan = plan_of d windows_consumed_release
            in if ep_input plan = InputForward then (NextHook, st1)
               else (Swallowed,
                     st1\<lparr>wh_io := windows_emit_all (queue_plan_actions (ep_actions plan)) (wh_io st1)\<rparr>)))"

definition decide_event ::
  "'s lookup \<Rightarrow> 's hook_env \<Rightarrow> hook_event \<Rightarrow> hid_usage \<Rightarrow> win_hook \<Rightarrow> hook_result \<times> 's \<times> win_hook" where
  "decide_event lk env ev usage st =
     (let (device_path, st1) = identify_device env usage st
      in case wh_engine st1 of
           None \<Rightarrow> (NextHook, en_lookup env, st1)
         | Some e \<Rightarrow>
             (let (d, e1, ls) =
                    decide lk (en_lookup env) (ucast (he_scan ev), he_flags ev AND 1 \<noteq> 0) usage
                      (is_down_message (he_message ev)) device_path True e;
                  (r, st2) = execute_decision env d (st1\<lparr>wh_engine := Some e1\<rparr>)
              in (r, ls, st2)))"

definition hook_body ::
  "'s lookup \<Rightarrow> 's hook_env \<Rightarrow> hook_event \<Rightarrow> win_hook \<Rightarrow> hook_result \<times> 's \<times> win_hook" where
  "hook_body lk env ev st =
     (let vk_code = ucast (he_vk ev); down = is_down_message (he_message ev)
      in if he_extra ev = INJECTED_TAG \<and> vk_code = HOOK_SELFTEST_VK
         then (NextHook, en_lookup env, st\<lparr>wh_selftest := wh_selftest st + 1\<rparr>)
         else
           (let (own, l) =
                  (if he_extra ev = INJECTED_TAG
                   then check_and_consume (io_now (wh_io st)) vk_code down (io_ledger (wh_io st))
                   else (False, io_ledger (wh_io st)));
                st1 = st\<lparr>wh_io := (wh_io st)\<lparr>io_ledger := l\<rparr>\<rparr>
            in if own then (NextHook, en_lookup env, st1)
               else
                 (case ck_usage (win_on_event vk_code down) of
                    None \<Rightarrow> (NextHook, en_lookup env, st1)
                  | Some usage \<Rightarrow> decide_event lk env ev usage st1)))"

definition low_level_keyboard_proc ::
  "'s lookup \<Rightarrow> 's hook_env \<Rightarrow> hook_event \<Rightarrow> win_hook \<Rightarrow> hook_result \<times> 's \<times> win_hook" where
  "low_level_keyboard_proc lk env ev st =
     (let st0 = st\<lparr>wh_io := advance (en_elapsed env) (wh_io st)\<rparr>
      in if he_code ev < 0 then (NextHook, en_lookup env, st0)
         else
           (let (was_set, io1) = guard_new (wh_io st0);
                (r, ls, st1) = hook_body lk env ev (st0\<lparr>wh_io := io1\<rparr>)
            in (r, ls, st1\<lparr>wh_io := guard_drop was_set (wh_io st1)\<rparr>)))"

text \<open>The wake message of the message loop drains the queued emissions (\<open>Windows_Loop\<close>).\<close>

definition drain_queue :: "win_hook \<Rightarrow> win_hook" where
  "drain_queue st =
     st\<lparr>wh_io := drain_and_emit_emissions (rw_emissions (wh_shared st)) (wh_io st),
        wh_shared := (wh_shared st)\<lparr>rw_emissions := []\<rparr>\<rparr>"

section \<open>Runs of the hook\<close>

abbreviation ev_vk :: "hook_event \<Rightarrow> u16" where "ev_vk ev \<equiv> ucast (he_vk ev)"

definition ev_key :: "hook_event \<Rightarrow> engine_key" where
  "ev_key ev = (ucast (he_scan ev), he_flags ev AND 1 \<noteq> 0)"

definition ev_down :: "hook_event \<Rightarrow> bool" where
  "ev_down ev = is_down_message (he_message ev)"

definition ev_usage :: "hook_event \<Rightarrow> hid_usage option" where
  "ev_usage ev = vk_to_hid_usage (ev_vk ev)"

text \<open>
  The keys a client sees pressed after an event: the events injected while the hook ran reach it
  first, then the event itself unless it was swallowed.
\<close>

definition client_step :: "win_hook \<Rightarrow> win_hook \<Rightarrow> hook_event \<Rightarrow> hook_result \<Rightarrow> u16 set \<Rightarrow> u16 set" where
  "client_step st st' ev r P =
     (let P1 = fold apply_key (drop (length (sent_keys (wh_io st))) (sent_keys (wh_io st'))) P
      in if r = NextHook then apply_key (ev_vk ev, \<not> ev_down ev) P1 else P1)"

fun hook_run ::
  "'s lookup \<Rightarrow> ('s hook_env \<times> hook_event) list \<Rightarrow> win_hook \<Rightarrow> u16 set \<Rightarrow> win_hook \<times> u16 set" where
  "hook_run lk [] st P = (st, P)"
| "hook_run lk ((env, ev) # evs) st P =
     (let (r, _, st1) = low_level_keyboard_proc lk env ev st
      in hook_run lk evs st1 (client_step st st1 ev r P))"

text \<open>
  The events of a keyboard whose keys carry the usages \<open>U\<close>: they reach the hook without the tag,
  and a modifier key does not repeat.
\<close>

definition keyboard_event :: "(engine_key \<Rightarrow> hid_usage) \<Rightarrow> engine_key set \<Rightarrow> hook_event \<Rightarrow> bool" where
  "keyboard_event U K ev \<longleftrightarrow>
     he_code ev \<ge> 0 \<and> he_extra ev \<noteq> INJECTED_TAG \<and>
     (case ev_usage ev of
        None \<Rightarrow> True
      | Some u \<Rightarrow> U (ev_key ev) = u \<and> (ev_down ev \<and> ev_key ev \<in> K \<longrightarrow> hid_usage_to_modifier_bit u = None))"

definition step_keys_down :: "hook_event \<Rightarrow> engine_key set \<Rightarrow> engine_key set" where
  "step_keys_down ev K =
     (if ev_usage ev = None then K else if ev_down ev then insert (ev_key ev) K else K - {ev_key ev})"

fun keyboard_events :: "(engine_key \<Rightarrow> hid_usage) \<Rightarrow> engine_key set \<Rightarrow> hook_event list \<Rightarrow> bool" where
  "keyboard_events U K [] \<longleftrightarrow> True"
| "keyboard_events U K (ev # evs) \<longleftrightarrow> keyboard_event U K ev \<and> keyboard_events U (step_keys_down ev K) evs"

text \<open>The foreground process is not elevated.\<close>

definition unelevated :: "'s hook_env \<Rightarrow> bool" where
  "unelevated env \<longleftrightarrow> \<not> fst (query_token_elevated (en_elevation env) (en_pid env))"

section \<open>One physical event\<close>

lemma match_rounds_io:
  assumes "match_rounds usage deadline rounds buffer io = (h, buffer', io')"
  shows "io_sent io' = io_sent io \<and> io_blocked io' = io_blocked io \<and> io_callback io' = io_callback io"
  using assms
proof (induction usage deadline rounds buffer io rule: match_rounds.induct)
  case (2 usage deadline dt arrived rounds buffer io)
  then show ?case
    by (auto simp: Let_def advance_def split: prod.splits option.splits if_splits)
qed simp

lemma identify_device_simps:
  assumes "identify_device env usage st = (dev, st')"
  shows "sent_keys (wh_io st') = sent_keys (wh_io st)" "io_blocked (wh_io st') = io_blocked (wh_io st)"
    "wh_engine st' = wh_engine st" "wh_fg st' = wh_fg st"
  using assms
  by (auto simp: identify_device_def match_usage_with_retry_def sent_keys_def Let_def
      dest!: match_rounds_io split: prod.splits option.splits)

lemma foreground_unelevated:
  assumes "\<not> fg_elevated c" "\<not> fst (query_token_elevated api pid)"
  shows "\<not> fst (foreground_is_elevated api hwnd pid c) \<and> \<not> fg_elevated (snd (foreground_is_elevated api hwnd pid c))"
  using assms
  by (auto simp: foreground_is_elevated_def fg_cached_def fg_update_def Let_def split: option.split prod.split)

definition calm :: "win_hook \<Rightarrow> bool" where
  "calm st \<longleftrightarrow> io_blocked (wh_io st) = [] \<and> \<not> fg_elevated (wh_fg st)"

lemma execute_decision_calm:
  fixes d :: decision
  assumes "calm st" "unelevated env"
  defines "plan \<equiv> plan_of d CrSwallow"
  shows "\<exists>st'. execute_decision env d st = (if ep_input plan = InputForward then NextHook else Swallowed, st')
    \<and> calm st' \<and> wh_engine st' = wh_engine st
    \<and> sent_keys (wh_io st') = sent_keys (wh_io st) @ concat (map action_events (queue_plan_actions (ep_actions plan)))"
proof -
  let ?fg = "if d \<noteq> Pass then foreground_is_elevated (en_elevation env) (en_hwnd env) (en_pid env) (wh_fg st)
      else (False, wh_fg st)"
  have fg: "\<not> fst ?fg" "\<not> fg_elevated (snd ?fg)"
    using foreground_unelevated [of "wh_fg st" "en_elevation env" "en_pid env" "en_hwnd env"] assms(1,2)
    by (auto simp: calm_def unelevated_def)
  have fwd: "ep_actions plan = []" if "ep_input plan = InputForward"
    using that unfolding plan_def by (cases d) (auto simp: plan_of_def)
  let ?st1 = "st\<lparr>wh_fg := snd ?fg\<rparr>"
  have b: "io_blocked (wh_io ?st1) = []" using assms(1) by (simp add: calm_def)
  note sent = inject_sent [OF b, of "concat (map action_events (queue_plan_actions (ep_actions plan)))"]
  have "execute_decision env d st =
      (if ep_input plan = InputForward then (NextHook, ?st1)
       else (Swallowed, ?st1\<lparr>wh_io := windows_emit_all (queue_plan_actions (ep_actions plan)) (wh_io ?st1)\<rparr>))"
    using fg unfolding execute_decision_def Let_def plan_def windows_consumed_release_def
    by (simp only: case_prod_beta) simp
  then show ?thesis
    using fg fwd sent b by (auto simp: calm_def windows_emit_all_fold queue_plan_actions_def)
qed

lemma advance_simps [simp]:
  "io_sent (advance dt io) = io_sent io" "io_blocked (advance dt io) = io_blocked io"
  by (simp_all add: advance_def)

lemma guard_simps [simp]:
  "io_sent (snd (guard_new io)) = io_sent io" "io_blocked (snd (guard_new io)) = io_blocked io"
  "io_sent (guard_drop b io) = io_sent io" "io_blocked (guard_drop b io) = io_blocked io"
  by (simp_all add: guard_new_def guard_drop_def Let_def)

lemma hook_body_physical:
  assumes "calm st" "unelevated env" "he_extra ev \<noteq> INJECTED_TAG"
    and "wh_engine st = Some e"
  shows "\<exists>r ls st'. hook_body lk env ev st = (r, ls, st') \<and> calm st' \<and>
    (case ev_usage ev of
       None \<Rightarrow> r = NextHook \<and> wh_engine st' = Some e \<and> sent_keys (wh_io st') = sent_keys (wh_io st)
     | Some u \<Rightarrow>
         \<exists>dev d e'. decide lk (en_lookup env) (ev_key ev) u (ev_down ev) dev True e = (d, e', ls)
           \<and> wh_engine st' = Some e'
           \<and> r = (if ep_input (plan_of d CrSwallow) = InputForward then NextHook else Swallowed)
           \<and> sent_keys (wh_io st') = sent_keys (wh_io st)
               @ concat (map action_events (queue_plan_actions (ep_actions (plan_of d CrSwallow)))))"
proof -
  let ?st = "st\<lparr>wh_io := (wh_io st)\<lparr>io_ledger := io_ledger (wh_io st)\<rparr>\<rparr>"
  have st: "?st = st" by simp
  show ?thesis
  proof (cases "ev_usage ev")
    case None
    then show ?thesis
      using assms by (simp add: hook_body_def ev_usage_def vk_to_hid_usage_def win_on_event_def)
  next
    case (Some u)
    obtain dev st1 where id: "identify_device env u st = (dev, st1)" by fastforce
    note ids = identify_device_simps [OF id]
    obtain d e' ls where dec:
      "decide lk (en_lookup env) (ucast (he_scan ev), he_flags ev AND 1 \<noteq> 0) u
         (is_down_message (he_message ev)) dev True e = (d, e', ls)" by (metis prod.collapse)
    have "calm (st1\<lparr>wh_engine := Some e'\<rparr>)" using assms(1) ids by (simp add: calm_def)
    from execute_decision_calm [OF this assms(2), of d] obtain st'
      where ex: "execute_decision env d (st1\<lparr>wh_engine := Some e'\<rparr>) =
          (if ep_input (plan_of d CrSwallow) = InputForward then NextHook else Swallowed, st')"
        and st': "calm st'" "wh_engine st' = Some e'"
          "sent_keys (wh_io st') = sent_keys (wh_io st1)
             @ concat (map action_events (queue_plan_actions (ep_actions (plan_of d CrSwallow))))"
      by auto
    have "hook_body lk env ev st =
        (if ep_input (plan_of d CrSwallow) = InputForward then NextHook else Swallowed, ls, st')"
    proof -
      have "ck_usage (win_on_event (ev_vk ev) (is_down_message (he_message ev))) = Some u"
        using Some by (simp add: win_on_event_def ev_usage_def vk_to_hid_usage_def)
      moreover have "decide_event lk env ev u st =
          (if ep_input (plan_of d CrSwallow) = InputForward then NextHook else Swallowed, ls, st')"
        using assms(4) ids(3) dec ex by (simp add: decide_event_def id)
      ultimately show ?thesis using assms(3) by (simp add: hook_body_def st)
    qed
    with st' ids(1) dec Some show ?thesis by (auto simp: ev_key_def ev_down_def)
  qed
qed

lemma physical_step:
  assumes "calm st" "unelevated env" "he_extra ev \<noteq> INJECTED_TAG" "he_code ev \<ge> 0"
    and "wh_engine st = Some e"
  shows "\<exists>r ls st'. low_level_keyboard_proc lk env ev st = (r, ls, st') \<and> calm st' \<and>
    (case ev_usage ev of
       None \<Rightarrow> r = NextHook \<and> wh_engine st' = Some e \<and> sent_keys (wh_io st') = sent_keys (wh_io st)
     | Some u \<Rightarrow>
         \<exists>dev d e'. decide lk (en_lookup env) (ev_key ev) u (ev_down ev) dev True e = (d, e', ls)
           \<and> wh_engine st' = Some e'
           \<and> r = (if ep_input (plan_of d CrSwallow) = InputForward then NextHook else Swallowed)
           \<and> sent_keys (wh_io st') = sent_keys (wh_io st)
               @ concat (map action_events (queue_plan_actions (ep_actions (plan_of d CrSwallow)))))"
proof -
  let ?st0 = "st\<lparr>wh_io := snd (guard_new (advance (en_elapsed env) (wh_io st)))\<rparr>"
  have c: "calm ?st0" "wh_engine ?st0 = Some e" "sent_keys (wh_io ?st0) = sent_keys (wh_io st)"
    using assms(1,5) by (simp_all add: calm_def sent_keys_def)
  from hook_body_physical [OF c(1) assms(2,3) c(2), of lk] obtain r ls st1
    where b: "hook_body lk env ev ?st0 = (r, ls, st1)" "calm st1" and
      s: "case ev_usage ev of
       None \<Rightarrow> r = NextHook \<and> wh_engine st1 = Some e \<and> sent_keys (wh_io st1) = sent_keys (wh_io ?st0)
     | Some u \<Rightarrow>
         \<exists>dev d e'. decide lk (en_lookup env) (ev_key ev) u (ev_down ev) dev True e = (d, e', ls)
           \<and> wh_engine st1 = Some e'
           \<and> r = (if ep_input (plan_of d CrSwallow) = InputForward then NextHook else Swallowed)
           \<and> sent_keys (wh_io st1) = sent_keys (wh_io ?st0)
               @ concat (map action_events (queue_plan_actions (ep_actions (plan_of d CrSwallow))))"
    by blast
  let ?st' = "st1\<lparr>wh_io := guard_drop (fst (guard_new (advance (en_elapsed env) (wh_io st)))) (wh_io st1)\<rparr>"
  have "low_level_keyboard_proc lk env ev st = (r, ls, ?st')"
    using b(1) assms(4) by (simp add: low_level_keyboard_proc_def Let_def case_prod_beta)
  moreover have "calm ?st'" "wh_engine ?st' = wh_engine st1" "sent_keys (wh_io ?st') = sent_keys (wh_io st1)"
    using b(2) by (simp_all add: calm_def sent_keys_def)
  ultimately show ?thesis using s c(3) by (cases "ev_usage ev") auto
qed

section \<open>The invariant of a run\<close>

definition hook_inv :: "(engine_key \<Rightarrow> hid_usage) \<Rightarrow> engine_key set \<Rightarrow> win_hook \<Rightarrow> u16 set \<Rightarrow> bool" where
  "hook_inv U K st P \<longleftrightarrow>
     calm st \<and> (\<exists>e. wh_engine st = Some e \<and> engine_ok U e \<and> stale_keys (tracker e) = {}
       \<and> pressed_keys (tracker e) = K \<and> device_ok e (vk_mods P))"

lemma hook_inv_step:
  assumes inv: "hook_inv U K st P" and ev: "keyboard_event U K ev" and el: "unelevated env"
    and run: "low_level_keyboard_proc lk env ev st = (r, ls, st')"
  shows "hook_inv U (step_keys_down ev K) st' (client_step st st' ev r P)"
proof -
  obtain e where e: "wh_engine st = Some e" "calm st" "engine_ok U e" "stale_keys (tracker e) = {}"
    "pressed_keys (tracker e) = K" "device_ok e (vk_mods P)"
    using inv by (auto simp: hook_inv_def)
  have c: "he_extra ev \<noteq> INJECTED_TAG" "he_code ev \<ge> 0" using ev by (simp_all add: keyboard_event_def)
  note step = physical_step [OF e(2) el c e(1), of lk, unfolded run]
  show ?thesis
  proof (cases "ev_usage ev")
    case None
    then have "vk_bits (ev_vk ev) = {}" by (simp add: ev_usage_def vk_bits_def)
    with step None e show ?thesis
      by (auto simp: hook_inv_def step_keys_down_def client_step_def apply_key_def)
  next
    case (Some u)
    with step obtain dev d e' where d: "decide lk (en_lookup env) (ev_key ev) u (ev_down ev) dev True e = (d, e', ls)"
      and s: "calm st'" "wh_engine st' = Some e'"
        "r = (if ep_input (plan_of d CrSwallow) = InputForward then NextHook else Swallowed)"
        "sent_keys (wh_io st') = sent_keys (wh_io st)
           @ concat (map action_events (queue_plan_actions (ep_actions (plan_of d CrSwallow))))"
      by auto
    define i where "i = \<lparr>in_key = ev_key ev, in_down = ev_down ev, in_device = dev, in_reachable = True,
      in_lookup = en_lookup env\<rparr>"
    have U: "U (ev_key ev) = u" using ev Some by (simp add: keyboard_event_def)
    have es: "engine_step lk U i e = (d, e')" by (simp add: engine_step_def i_def U d)
    have vk: "vk_bits (ev_vk ev) = bits_of (usage_mask u)" using Some by (simp add: ev_usage_def vk_bits_def)
    have rep: "ev_down ev \<Longrightarrow> ev_key ev \<in> K \<Longrightarrow> vk_bits (ev_vk ev) = {}"
      using ev Some by (simp add: keyboard_event_def vk)
    have "vk_mods (client_step st st' ev r P) = plan_bits (plan_of d CrSwallow) u (event_value i (pressed_keys (tracker e))) (vk_mods P)"
      using rep plan_events_bits [of "ep_actions (plan_of d CrSwallow)" P] e(5)
      by (auto simp: client_step_def Let_def s(3,4) plan_bits_def input_bits_def apply_key_def event_value_def
          i_def vk [symmetric])
    moreover have "device_ok e' (plan_bits (plan_of d CrSwallow) u (event_value i (pressed_keys (tracker e))) (vk_mods P))"
    proof -
      have "in_key i = ev_key ev" "in_reachable i" by (simp_all add: i_def)
      then show ?thesis using device_ok_step [OF e(6), of i lk U] e(3) by (simp add: es U engine_ok_def)
    qed
    moreover have "engine_ok U e'" using engine_step_ok [OF e(3), of lk i] by (simp add: es)
    moreover have "stale_keys (tracker e') = {}" using engine_step_stale [of lk U i e] e(4) by (simp add: es)
    moreover have "pressed_keys (tracker e') = step_keys_down ev K"
    proof -
      have "in_key i = ev_key ev" "in_down i = ev_down ev" by (simp_all add: i_def)
      then show ?thesis
        using engine_step_pressed [of lk U i e] e(5) Some by (simp add: es step_down_keys_def step_keys_down_def)
    qed
    ultimately show ?thesis using s(1,2) by (auto simp: hook_inv_def)
  qed
qed

lemma hook_inv_run:
  "hook_inv U K st P \<Longrightarrow> keyboard_events U K (map snd evs) \<Longrightarrow> list_all unelevated (map fst evs) \<Longrightarrow>
   hook_inv U (fold step_keys_down (map snd evs) K) (fst (hook_run lk evs st P)) (snd (hook_run lk evs st P))"
proof (induction lk evs st P arbitrary: K rule: hook_run.induct)
  case (2 lk env ev evs st P)
  obtain r ls st1 where run: "low_level_keyboard_proc lk env ev st = (r, ls, st1)" by (metis prod.collapse)
  have "hook_inv U (step_keys_down ev K) st1 (client_step st st1 ev r P)"
    using 2 by (intro hook_inv_step [OF _ _ _ run]) simp_all
  with 2 run show ?case by simp
qed simp

section \<open>The retry ends\<close>

lemma match_rounds_enough:
  assumes "rounds \<noteq> []" "deadline \<le> io_now io + 1000 * (length rounds - 1)"
    and "\<forall>start. io_callback io = Some start \<longrightarrow> start \<le> io_now io \<and> deadline \<le> start + HOOK_SLEEP_BUDGET"
  shows "match_rounds usage deadline (rounds @ rounds') buffer io = match_rounds usage deadline rounds buffer io"
  using assms
proof (induction rounds arbitrary: buffer io)
  case (Cons r rounds)
  obtain dt arrived where r: "r = (dt, arrived)" by fastforce
  let ?io1 = "advance dt io" and ?b = "fold (push_event (io_now (advance dt io))) arrived buffer"
  show ?case
  proof (cases "deadline \<le> io_now ?io1")
    case True
    then show ?thesis by (simp add: r Let_def split: prod.split option.split)
  next
    case False
    let ?io2 = "hook_sleep 1000 ?io1"
    have now1: "io_now ?io1 = io_now io + dt" and cb: "io_callback ?io1 = io_callback io"
      by (simp_all add: advance_def)
    have "deadline \<le> io_now io + 1000 * length rounds" "rounds \<noteq> []"
      using Cons.prems(2) False now1 by (cases rounds; simp)+
    have "io_now ?io2 \<ge> deadline \<or> io_now ?io2 \<ge> io_now io + 1000"
    proof (cases "io_callback io")
      case None
      with now1 cb show ?thesis by (simp add: hook_sleep_def bounded_sleep_def)
    next
      case (Some start)
      with Cons.prems(3) have "start \<le> io_now io" "deadline \<le> start + HOOK_SLEEP_BUDGET" by auto
      with False now1 cb Some show ?thesis
        by (auto simp: hook_sleep_def bounded_sleep_def Let_def)
    qed
    then have "deadline \<le> io_now ?io2 + 1000 * (length rounds - 1)"
      using \<open>deadline \<le> io_now io + 1000 * length rounds\<close> \<open>rounds \<noteq> []\<close> by (cases rounds) auto
    moreover have "io_now io \<le> io_now ?io2"
      using now1 by (simp add: hook_sleep_def split: option.split)
    ultimately have "match_rounds usage deadline (rounds @ rounds') b ?io2 = match_rounds usage deadline rounds b ?io2" for b
      using Cons.prems(3) cb \<open>rounds \<noteq> []\<close> by (intro Cons.IH) (auto intro: order_trans)
    then show ?thesis by (simp add: r Let_def split: prod.split option.split)
  qed
qed simp

section \<open>Stale raw events\<close>

text \<open>
  The age of a buffered event is checked when raw events arrive, not when the hook matches: an event
  whose own hook call has given up stays in the buffer, and names the device of the next press of
  its usage however much later, if no raw event comes in between.
\<close>

lemma stale_raw_event_is_matched:
  "match_usage_with_retry usage ((dt, []) # rounds)
     [\<lparr>br_event = \<lparr>re_usage = Some usage, re_vk = vk, re_up = False, re_device = device\<rparr>, br_received_at = t\<rparr>] io
   = (Some device, [], advance dt io)"
  by (simp add: match_usage_with_retry_def match_usage_def find_raw_match_def remove_at_def Let_def)

section \<open>Properties\<close>

text \<open>The hook at its start; of the events it injects, the system blocks those that the argument names.\<close>

definition hook_start :: "bool list \<Rightarrow> win_hook" where
  "hook_start blocked =
     \<lparr>wh_io = \<lparr>io_now = 0, io_callback = None, io_ledger = [], io_blocked = blocked, io_sent = [], io_map_vk = id\<rparr>,
      wh_shared = \<lparr>rw_buffer = [], rw_devices = [], rw_emissions = []\<rparr>, wh_fg = fg_new,
      wh_engine = Some engine_new, wh_selftest = 0\<rparr>"

lemma hook_inv_start: "hook_inv U {} (hook_start []) {}"
  by (simp add: hook_inv_def hook_start_def calm_def fg_new_def device_ok_def engine_ok_new)
    (simp add: engine_new_def tracker_default_def)

text \<open>
  C4. Nothing stays pressed on Windows: a client sees the events injected and the key events the
  hook lets through; after any sequence of key events in which no modifier key repeats, met while
  the foreground process is not elevated and nothing injected is blocked, once every key is up again the client sees no modifier
  pressed and the engine is in its initial state.
\<close>
theorem windows_nothing_left_pressed:
  assumes "keyboard_events U {} (map snd evs)" "list_all unelevated (map fst evs)"
    and "fold step_keys_down (map snd evs) {} = {}"
  shows "vk_mods (snd (hook_run lk evs (hook_start []) {})) = {}
    \<and> wh_engine (fst (hook_run lk evs (hook_start []) {})) = Some engine_new"
proof -
  from hook_inv_run [OF hook_inv_start assms(1,2), of lk] obtain e
    where e: "wh_engine (fst (hook_run lk evs (hook_start []) {})) = Some e" "engine_ok U e"
      "stale_keys (tracker e) = {}" "pressed_keys (tracker e) = {}"
      "device_ok e (vk_mods (snd (hook_run lk evs (hook_start []) {})))"
    unfolding hook_inv_def assms(3) by blast
  have "e = engine_new" by (rule engine_ok_no_key_down [OF e(2,4,3)])
  with e(1,5) show ?thesis by (simp add: device_ok_def engine_new_def tracker_default_def)
qed

abbreviation quiet_env :: "'s \<Rightarrow> 's hook_env" where
  "quiet_env ls \<equiv>
     \<lparr>en_elapsed = 1000, en_lookup = ls, en_rounds = [], en_hwnd = None, en_pid = 0,
      en_elevation = \<lparr>ea_own_token = None, ea_process = \<lambda>_. None\<rparr>, en_resolve_path = \<lambda>_. None\<rparr>"

abbreviation key_message :: "u32 \<Rightarrow> u32 \<Rightarrow> u32 \<Rightarrow> hook_event" where
  "key_message msg vk scan \<equiv>
     \<lparr>he_code = 0, he_message = msg, he_vk = vk, he_scan = scan, he_flags = 0, he_extra = 0\<rparr>"

lemma vk_left_control: "vk_to_hid_usage 0xA2 = Some LeftControl"
  unfolding vk_to_hid_usage_iff by (simp add: vkey_all_iff vkey_as_native_def vkey_table_def)

lemma down_messages [simp]: "is_down_message 0x100" "\<not> is_down_message 0x101"
  by (simp_all add: is_down_message_def WM_KEYDOWN_def WM_SYSKEYDOWN_def)

lemma windows_nothing_left_pressed_witness:
  "vk_mods (snd (hook_run (test_lookup_ops id)
      [(quiet_env (tl_from_config id (ac_visit_seq [])), key_message 0x100 0xA2 29),
       (quiet_env (tl_from_config id (ac_visit_seq [])), key_message 0x101 0xA2 29)] (hook_start []) {})) = {}"
  by (rule windows_nothing_left_pressed [where U = "\<lambda>_. LeftControl", THEN conjunct1])
    (simp_all add: keyboard_event_def ev_usage_def ev_down_def ev_key_def step_keys_down_def vk_left_control
      INJECTED_TAG_def unelevated_def query_token_elevated_def)

text \<open>
  A repeating modifier sticks: when a modifier key that a trigger has consumed repeats, the
  hook lets the repeat through, which presses the modifier again, and then swallows the key's
  release: the client is left with the modifier pressed and no key down.
\<close>
theorem consumed_modifier_repeat_sticks:
  assumes "calm st" "wh_engine st = Some e" "unelevated env" "unelevated env'"
    and "keyboard_event U {} ev" "keyboard_event U {} ev'" "he_vk ev' = he_vk ev" "ev_key ev' = ev_key ev"
    and "ev_down ev" "\<not> ev_down ev'" "ev_usage ev = Some u" "hid_usage_to_modifier_bit u = Some b"
    and "ev_key ev \<in> pressed_keys (tracker e)" "ev_key ev \<notin> swallowed_keys (tracker e)"
    and "ev_key ev \<notin> stale_keys (tracker e)" "consumed_modifiers (tracker e) AND bit_mask b \<noteq> 0"
  shows "unat b \<in> vk_mods (snd (hook_run lk [(env, ev), (env', ev')] st P))"
proof -
  have u': "ev_usage ev' = Some u" using assms(7,11) by (simp add: ev_usage_def)
  have bit: "vk_bits (ev_vk ev) = {unat b}"
    using assms(11,12) modifier_bit_bound [OF assms(12)] by (simp add: ev_usage_def vk_bits_def bits_of_bit_mask)
  have c: "he_extra ev \<noteq> INJECTED_TAG" "he_code ev \<ge> 0" "he_extra ev' \<noteq> INJECTED_TAG" "he_code ev' \<ge> 0"
    using assms(5,6) by (simp_all add: keyboard_event_def)
  have d1: "decide lk ls (ev_key ev) u (ev_down ev) dev True e = (Pass, e, ls)" for ls dev
    using assms(9,13-15) by (simp add: decide_def decide_down_def)
  obtain ls st1 where s1: "low_level_keyboard_proc lk env ev st = (NextHook, ls, st1)" "calm st1"
    "wh_engine st1 = Some e" "sent_keys (wh_io st1) = sent_keys (wh_io st)"
    using physical_step [OF assms(1,3) c(1,2) assms(2), of lk] assms(11)
    by (auto simp: d1 plan_of_def queue_plan_actions_def)
  have d2: "decide lk ls (ev_key ev') u (ev_down ev') dev True e = (d, e', ls2) \<Longrightarrow> d = ConsumedRelease" for ls dev d e' ls2
    using assms(8,10,12-16) by (simp add: decide_def decide_up_eq Let_def)
  obtain r ls' st2 where s2: "low_level_keyboard_proc lk env' ev' st1 = (r, ls', st2)" by (metis prod.collapse)
  have s3: "r = Swallowed" "sent_keys (wh_io st2) = sent_keys (wh_io st1)"
    using physical_step [OF s1(2) assms(4) c(3,4) s1(3), of lk, unfolded s2] u'
    by (auto simp: plan_of_def queue_plan_actions_def dest!: d2)
  show ?thesis
    using assms(9) bit by (simp add: s1 s2 s3 client_step_def apply_key_def)
qed

lemma consumed_modifier_repeat_sticks_witness:
  "0 \<in> vk_mods (snd (hook_run (test_lookup_ops id)
      [(quiet_env (tl_from_config id ctrl_config), key_message 0x100 0xA2 29),
       (quiet_env (tl_from_config id ctrl_config), key_message 0x101 0xA2 29)]
      (hook_start []\<lparr>wh_engine := Some (engine_new\<lparr>modifier_state := 1,
         tracker := tracker_default\<lparr>pressed_keys := {(29, False)}, consumed_modifiers := 1\<rparr>\<rparr>)\<rparr>) {}))"
  using consumed_modifier_repeat_sticks [where u = LeftControl and b = 0 and U = "\<lambda>_. LeftControl" and
      st = "hook_start []\<lparr>wh_engine := Some (engine_new\<lparr>modifier_state := 1,
         tracker := tracker_default\<lparr>pressed_keys := {(29, False)}, consumed_modifiers := 1\<rparr>\<rparr>)\<rparr>" and
      env = "quiet_env (tl_from_config id ctrl_config)" and env' = "quiet_env (tl_from_config id ctrl_config)" and
      ev = "key_message 0x100 0xA2 29" and ev' = "key_message 0x101 0xA2 29" and lk = "test_lookup_ops id" and P = "{}"]
  by (simp add: hook_start_def calm_def fg_new_def keyboard_event_def ev_usage_def ev_down_def ev_key_def
      vk_left_control INJECTED_TAG_def unelevated_def query_token_elevated_def tracker_default_def bit_mask_def)

text \<open>
  C27. A release over an elevated window leaves the output held: when the key of a held modifier
  output comes up while the foreground process is elevated, the event is passed on and nothing is
  injected, but the engine no longer holds the output, so the modifiers stay pressed for good.
\<close>
theorem elevated_release_leaves_output_held:
  assumes "wh_engine st = Some e" "he_extra ev \<noteq> INJECTED_TAG" "he_code ev \<ge> 0" "ev_usage ev = Some u" "\<not> ev_down ev"
    and "ev_key ev \<in> pressed_keys (tracker e)" "ev_key ev \<in> swallowed_keys (tracker e)"
    and "fst (foreground_is_elevated (en_elevation env) (en_hwnd env) (en_pid env) (wh_fg st))"
  shows "\<exists>ls st' e'. low_level_keyboard_proc lk env ev st = (NextHook, ls, st')
    \<and> sent_keys (wh_io st') = sent_keys (wh_io st) \<and> wh_engine st' = Some e'
    \<and> ev_key ev \<notin> fst ` set (held_output_modifiers (tracker e'))"
proof -
  define st0 where "st0 = st\<lparr>wh_io := snd (guard_new (advance (en_elapsed env) (wh_io st)))\<rparr>"
  obtain dev st1 where id: "identify_device env u st0 = (dev, st1)" by fastforce
  note ids = identify_device_simps [OF id]
  let ?d = "decide_up (ev_key ev) u e"
  have d: "decide lk ls (ev_key ev) u (ev_down ev) dev True e = (fst ?d, snd ?d, ls)" for ls
    using assms(5) by (simp add: decide_def case_prod_beta)
  have np: "fst ?d \<noteq> Pass" "ev_key ev \<notin> fst ` set (held_output_modifiers (tracker (snd ?d)))"
    using assms(6,7) by (auto simp: decide_up_eq Let_def)
  let ?st2 = "st1\<lparr>wh_engine := Some (snd ?d)\<rparr>"
  let ?fg = "snd (foreground_is_elevated (en_elevation env) (en_hwnd env) (en_pid env) (wh_fg st))"
  have ex: "execute_decision env (fst ?d) ?st2 = (NextHook, ?st2\<lparr>wh_fg := ?fg\<rparr>)"
    using np(1) assms(8) ids(4) by (simp add: execute_decision_def case_prod_beta Let_def st0_def)
  have same: "st0\<lparr>wh_io := (wh_io st0)\<lparr>io_ledger := io_ledger (wh_io st0)\<rparr>\<rparr> = st0" by simp
  have "ck_usage (win_on_event (ev_vk ev) (is_down_message (he_message ev))) = Some u"
    using assms(4) by (simp add: win_on_event_def ev_usage_def vk_to_hid_usage_def)
  moreover have "decide_event lk env ev u st0 = (NextHook, en_lookup env, ?st2\<lparr>wh_fg := ?fg\<rparr>)"
  proof -
    have "wh_engine st1 = Some e" using ids(3) assms(1) by (simp add: st0_def)
    then show ?thesis using ex d by (simp add: decide_event_def id flip: ev_key_def ev_down_def)
  qed
  ultimately have "hook_body lk env ev st0 = (NextHook, en_lookup env, ?st2\<lparr>wh_fg := ?fg\<rparr>)"
    using assms(2) by (simp add: hook_body_def same)
  then have "\<exists>b. low_level_keyboard_proc lk env ev st =
      (NextHook, en_lookup env, (?st2\<lparr>wh_fg := ?fg\<rparr>)\<lparr>wh_io := guard_drop b (wh_io st1)\<rparr>)"
    using assms(3) by (auto simp: low_level_keyboard_proc_def Let_def case_prod_beta st0_def)
  then show ?thesis
    using np(2) ids(1) by (auto simp: sent_keys_def st0_def)
qed

lemma elevated_release_leaves_output_held_witness:
  "\<exists>ls st' e'. low_level_keyboard_proc (test_lookup_ops id)
      \<lparr>en_elapsed = 0, en_lookup = tl_from_config id ctrl_config, en_rounds = [], en_hwnd = Some 1, en_pid = 7,
       en_elevation = \<lparr>ea_own_token = Some (Some 0), ea_process = \<lambda>_. None\<rparr>, en_resolve_path = \<lambda>_. None\<rparr>
      (key_message 0x101 0xA2 29)
      (hook_start []\<lparr>wh_engine := Some (engine_new\<lparr>tracker := tracker_default\<lparr>pressed_keys := {(29, False)},
         swallowed_keys := {(29, False)}, held_output_modifiers := [((29, False), 2)]\<rparr>\<rparr>)\<rparr>) = (NextHook, ls, st')
    \<and> wh_engine st' = Some e' \<and> (29, False) \<notin> fst ` set (held_output_modifiers (tracker e'))"
  using elevated_release_leaves_output_held [where u = LeftControl and lk = "test_lookup_ops id" and
      env = "\<lparr>en_elapsed = 0, en_lookup = tl_from_config id ctrl_config, en_rounds = [], en_hwnd = Some 1, en_pid = 7,
       en_elevation = \<lparr>ea_own_token = Some (Some 0), ea_process = \<lambda>_. None\<rparr>, en_resolve_path = \<lambda>_. None\<rparr>" and
      ev = "key_message 0x101 0xA2 29" and
      st = "hook_start []\<lparr>wh_engine := Some (engine_new\<lparr>tracker := tracker_default\<lparr>pressed_keys := {(29, False)},
         swallowed_keys := {(29, False)}, held_output_modifiers := [((29, False), 2)]\<rparr>\<rparr>)\<rparr>"]
  by (simp add: hook_start_def fg_new_def ev_usage_def ev_down_def ev_key_def vk_left_control INJECTED_TAG_def
      tracker_default_def foreground_is_elevated_def fg_cached_def query_token_elevated_def token_is_elevated_def
      Let_def) blast

text \<open>
  C28. The device match ends: called with at least 3 ms of the callback's sleep budget left, four
  rounds are enough for it to return, whatever the rounds take and whatever raw events arrive, so
  that further rounds change nothing.
\<close>
theorem device_match_terminates:
  assumes "length rounds \<ge> 4"
    and "io_callback io = Some start" "start \<le> io_now io" "io_now io + 3000 \<le> start + HOOK_SLEEP_BUDGET"
  shows "match_usage_with_retry usage (rounds @ rounds') buffer io = match_usage_with_retry usage rounds buffer io"
proof -
  have "rounds \<noteq> []" "io_now io + 3000 \<le> io_now io + 1000 * (length rounds - 1)" using assms(1) by auto
  from match_rounds_enough [OF this] assms(2-4) show ?thesis by (simp add: match_usage_with_retry_def)
qed

lemma device_match_terminates_witness:
  "match_usage_with_retry F1 ([(0, []), (0, []), (0, []), (0, [])] @ [(0, [])]) []
     \<lparr>io_now = 5, io_callback = Some 5, io_ledger = [], io_blocked = [], io_sent = [], io_map_vk = id\<rparr>
   = match_usage_with_retry F1 [(0, []), (0, []), (0, []), (0, [])] []
     \<lparr>io_now = 5, io_callback = Some 5, io_ledger = [], io_blocked = [], io_sent = [], io_map_vk = id\<rparr>"
  by (rule device_match_terminates [where start = 5]) (simp_all add: HOOK_SLEEP_BUDGET_def)

end
