(* ===== verification/Windows_Loop.thy ===== *)
theory Windows_Loop
  imports Windows_Hook
begin

text \<open>
  The thread of the Windows hook (\<open>src/platform/windows/mapping.rs\<close>): \<open>start_mapping\<close> with its message loop, the
  periodic self-test of the hook and its reinstallation, and the request to shut down. What the hook procedure does
  is \<open>Windows_Hook\<close>; a message that is dispatched is a parameter, with what its window procedure does to the state and
  whether it posts the quit message.
\<close>

section \<open>State\<close>

datatype 'm win_message = WmApp | WmRequestShutdown | WmQuit | WmDispatched 'm

text \<open>
  The messages posted to the thread, in order; the hook; the time of the last self-test; the handle kept by the code,
  and the handles of the hooks that are installed. \<open>wl_discarded\<close> is a record of the messages the self-test removes.
\<close>

record 'm win_loop =
  wl_queue :: "'m win_message list"
  wl_hook :: win_hook
  wl_last_selftest :: "nat option"
  wl_handle :: nat
  wl_installed :: "nat list"
  wl_discarded :: "'m win_message list"

definition HOOK_SELFTEST_INTERVAL :: nat where "HOOK_SELFTEST_INTERVAL = 5000"

definition post :: "'m win_message list \<Rightarrow> 'm win_loop \<Rightarrow> 'm win_loop" where
  "post ms st = st\<lparr>wl_queue := wl_queue st @ ms\<rparr>"

text \<open>\<open>request_shutdown\<close>: nothing is posted as long as the thread is not known.\<close>

definition win_request_shutdown :: "nat \<Rightarrow> 'm win_loop \<Rightarrow> 'm win_loop" where
  "win_request_shutdown tid st = (if tid \<noteq> 0 then post [WmRequestShutdown] st else st)"

section \<open>The self-test\<close>

text \<open>
  What the reinstallation meets: whether the module handle is found, and the answer of \<open>SetWindowsHookExW\<close>, an error
  or a handle, which is invalid if it is 0.
\<close>

record reinstall =
  ri_module :: bool
  ri_hook :: "nat option"

definition reinstall_hook :: "reinstall \<Rightarrow> 'm win_loop \<Rightarrow> bool \<times> 'm win_loop" where
  "reinstall_hook ri st =
     (if \<not> ri_module ri then (False, st)
      else
        (let st1 = (if wl_handle st \<noteq> 0 then st\<lparr>wl_installed := removeAll (wl_handle st) (wl_installed st)\<rparr> else st)
         in case ri_hook ri of
              None \<Rightarrow> (False, st1)
            | Some h \<Rightarrow>
                if h = 0 then (False, st1) else (True, st1\<lparr>wl_handle := h, wl_installed := h # wl_installed st1\<rparr>)))"

text \<open>
  A round of the wait: the messages that have arrived until its inner loop finds none, and how many of the injected
  events the hook has seen by then.
\<close>

record 'm test_round =
  tr_arrived :: "'m win_message list"
  tr_seen :: nat

definition peek_all :: "'m test_round \<Rightarrow> 'm win_loop \<Rightarrow> 'm win_loop" where
  "peek_all r st =
     st\<lparr>wl_queue := [], wl_discarded := wl_discarded st @ wl_queue st @ tr_arrived r,
        wl_hook := (wl_hook st)\<lparr>wh_selftest := wh_selftest (wl_hook st) + tr_seen r\<rparr>\<rparr>"

fun self_test_rounds :: "nat \<Rightarrow> 'm test_round list \<Rightarrow> 'm win_loop \<Rightarrow> bool \<times> 'm win_loop" where
  "self_test_rounds before [] st = (False, st)"
| "self_test_rounds before (r # rs) st =
     (let st1 = peek_all r st
      in if wh_selftest (wl_hook st1) > before then (True, st1) else self_test_rounds before rs st1)"

definition hook_self_test :: "nat \<Rightarrow> 'm test_round list \<Rightarrow> reinstall \<Rightarrow> 'm win_loop \<Rightarrow> 'm win_loop" where
  "hook_self_test sent rounds ri st =
     (if sent \<noteq> 2 then st
      else
        (case self_test_rounds (wh_selftest (wl_hook st)) rounds st of
           (alive, st1) \<Rightarrow> if alive then st1 else snd (reinstall_hook ri st1)))"

section \<open>The message loop\<close>

text \<open>
  One iteration: the time, the messages that have arrived since the last one, what the self-test meets if it is due, and
  the messages that arrive afterwards until \<open>GetMessageW\<close> returns. An iteration in which none does is one that waits for
  ever.
\<close>

record 'm loop_round =
  lo_now :: nat
  lo_arrived :: "'m win_message list"
  lo_sent :: nat
  lo_rounds :: "'m test_round list"
  lo_reinstall :: reinstall
  lo_after :: "'m win_message list"

definition test_due :: "nat \<Rightarrow> 'm win_loop \<Rightarrow> bool" where
  "test_due now st = (case wl_last_selftest st of None \<Rightarrow> True | Some prev \<Rightarrow> now - prev \<ge> HOOK_SELFTEST_INTERVAL)"

definition before_wait :: "'m loop_round \<Rightarrow> 'm win_loop \<Rightarrow> 'm win_loop" where
  "before_wait r st =
     (let st0 = post (lo_arrived r) st
      in post (lo_after r)
           (if test_due (lo_now r) st0
            then hook_self_test (lo_sent r) (lo_rounds r) (lo_reinstall r) (st0\<lparr>wl_last_selftest := Some (lo_now r)\<rparr>)
            else st0))"

text \<open>Whether the loop goes on after a message, and with what state.\<close>

definition handle_message ::
  "('m \<Rightarrow> win_hook \<Rightarrow> win_hook \<times> bool) \<Rightarrow> 'm win_message \<Rightarrow> 'm win_loop \<Rightarrow> bool \<times> 'm win_loop" where
  "handle_message dispatch msg st =
     (case msg of
        WmQuit \<Rightarrow> (False, st)
      | WmApp \<Rightarrow> (True, st\<lparr>wl_hook := drain_queue (wl_hook st)\<rparr>)
      | WmRequestShutdown \<Rightarrow> (False, st)
      | WmDispatched m \<Rightarrow>
          (case dispatch m (wl_hook st) of
             (hook, quits) \<Rightarrow> (True, post (if quits then [WmQuit] else []) (st\<lparr>wl_hook := hook\<rparr>))))"

text \<open>The loop: whether it has been left, and the state.\<close>

fun win_message_loop ::
  "('m \<Rightarrow> win_hook \<Rightarrow> win_hook \<times> bool) \<Rightarrow> 'm loop_round list \<Rightarrow> 'm win_loop \<Rightarrow> bool \<times> 'm win_loop" where
  "win_message_loop dispatch [] st = (False, st)"
| "win_message_loop dispatch (r # rs) st =
     (let st1 = before_wait r st
      in case wl_queue st1 of
           [] \<Rightarrow> (False, st1)
         | msg # q \<Rightarrow>
             (case handle_message dispatch msg (st1\<lparr>wl_queue := q\<rparr>) of
                (goes_on, st2) \<Rightarrow> if goes_on then win_message_loop dispatch rs st2 else (True, st2)))"

text \<open>
  \<open>start_mapping\<close>: the raw input window, the engine, the hook, the loop, and the removal of the hook that was installed
  at the start.
\<close>

datatype 'm win_end = RawInputFailed | HookFailed | Running "'m win_loop" | Ended "'m win_loop" | UnhookFailed "'m win_loop"

definition windows_start_mapping ::
  "bool \<Rightarrow> reinstall \<Rightarrow> ('m \<Rightarrow> win_hook \<Rightarrow> win_hook \<times> bool) \<Rightarrow> 'm loop_round list \<Rightarrow> 'm win_loop \<Rightarrow> 'm win_end" where
  "windows_start_mapping raw_input_ok hook_call dispatch rounds st =
     (if \<not> raw_input_ok then RawInputFailed
      else if \<not> ri_module hook_call then HookFailed
      else
        (case ri_hook hook_call of
           None \<Rightarrow> HookFailed
         | Some handle \<Rightarrow>
             if handle = 0 then HookFailed
             else
               (let st0 = st\<lparr>wl_hook := (wl_hook st)\<lparr>wh_engine := Some engine_new\<rparr>, wl_handle := handle,
                       wl_installed := handle # wl_installed st\<rparr>
                in case win_message_loop dispatch rounds st0 of
                     (left, st1) \<Rightarrow>
                       if \<not> left then Running st1
                       else if handle \<in> set (wl_installed st1)
                       then Ended (st1\<lparr>wl_installed := removeAll handle (wl_installed st1)\<rparr>)
                       else UnhookFailed st1)))"

section \<open>Facts\<close>

definition leaves :: "'m win_message \<Rightarrow> bool" where
  "leaves msg \<longleftrightarrow> msg = WmRequestShutdown \<or> msg = WmQuit"

lemma reinstall_queue [simp]: "wl_queue (snd (reinstall_hook ri st)) = wl_queue st"
  by (auto simp: reinstall_hook_def Let_def split: option.split)

lemma self_test_rounds_queue:
  "set (wl_queue (snd (self_test_rounds before rs st))) \<subseteq> set (wl_queue st)"
  "rs \<noteq> [] \<Longrightarrow> wl_queue (snd (self_test_rounds before rs st)) = []"
proof (induction before rs st rule: self_test_rounds.induct)
  case (2 before r rs st)
  {
    case 1
    then show ?case using 2(1) [of "peek_all r st"] by (auto simp: Let_def peek_all_def)
  next
    case 2
    then show ?case using "2.IH" [of "peek_all r st"]
      by (cases "rs = []") (auto simp: Let_def peek_all_def)
  }
qed simp_all

text \<open>The self-test empties the queue of the thread, whatever is in it.\<close>

lemma self_test_empties_queue:
  assumes "sent = 2" "rounds \<noteq> []"
  shows "wl_queue (hook_self_test sent rounds ri st) = []"
  using assms self_test_rounds_queue(2) [OF assms(2), of "wh_selftest (wl_hook st)" st]
  by (auto simp: hook_self_test_def split: prod.split)

lemma self_test_queue: "set (wl_queue (hook_self_test sent rounds ri st)) \<subseteq> set (wl_queue st)"
  using self_test_rounds_queue(1) [of "wh_selftest (wl_hook st)" rounds st]
  by (auto simp: hook_self_test_def split: prod.split)

lemma before_wait_queue:
  "set (wl_queue (before_wait r st)) \<subseteq> set (wl_queue st) \<union> set (lo_arrived r) \<union> set (lo_after r)"
  using self_test_queue [of "lo_sent r" "lo_rounds r" "lo_reinstall r" "(post (lo_arrived r) st)\<lparr>wl_last_selftest := Some (lo_now r)\<rparr>"]
  by (auto simp: before_wait_def Let_def post_def)

text \<open>Only the shutdown request and the quit message end the loop.\<close>

lemma handle_message_goes_on: "fst (handle_message dispatch msg st) \<longleftrightarrow> \<not> leaves msg"
  by (auto simp: handle_message_def leaves_def split: win_message.split prod.split)

lemma handle_message_queue:
  "(\<And>m hook. \<not> snd (dispatch m hook)) \<Longrightarrow> wl_queue (snd (handle_message dispatch msg st)) = wl_queue st"
  by (auto simp: handle_message_def post_def split: win_message.split prod.split) (metis snd_conv)

lemma loop_runs_on:
  assumes "\<And>m hook. \<not> snd (dispatch m hook)" "\<forall>m \<in> set (wl_queue st). \<not> leaves m"
    and "\<forall>r \<in> set rs. \<forall>m \<in> set (lo_arrived r) \<union> set (lo_after r). \<not> leaves m"
  shows "\<not> fst (win_message_loop dispatch rs st)"
  using assms(2,3)
proof (induction rs arbitrary: st)
  case (Cons r rs)
  have q: "\<forall>m \<in> set (wl_queue (before_wait r st)). \<not> leaves m"
    using before_wait_queue [of r st] Cons.prems by auto
  show ?case
  proof (cases "wl_queue (before_wait r st)")
    case (Cons msg q')
    let ?h = "handle_message dispatch msg ((before_wait r st)\<lparr>wl_queue := q'\<rparr>)"
    have "\<not> leaves msg" using q Cons by simp
    then have on: "fst ?h" by (simp add: handle_message_goes_on)
    have "wl_queue (snd ?h) = q'" by (simp add: handle_message_queue [OF assms(1)])
    then have "\<not> fst (win_message_loop dispatch rs (snd ?h))"
      using Cons.IH [of "snd ?h"] Cons.prems q Cons by auto
    with Cons on show ?thesis by (auto simp: Let_def split: prod.split)
  qed (simp add: Let_def)
qed simp

text \<open>
  A shutdown request that is in the queue when a self-test begins, or arrives while it waits, is lost: the loop runs on
  as long as nothing else ends it.
\<close>

lemma self_test_loses_shutdown:
  assumes "\<And>m hook. \<not> snd (dispatch m hook)" "test_due (lo_now r) st" "lo_sent r = 2" "lo_rounds r \<noteq> []"
    and "\<forall>m \<in> set (lo_after r). \<not> leaves m" "\<forall>r' \<in> set rs. \<forall>m \<in> set (lo_arrived r') \<union> set (lo_after r'). \<not> leaves m"
  shows "\<not> fst (win_message_loop dispatch (r # rs) st)"
proof -
  have due: "test_due (lo_now r) (post (lo_arrived r) st)" using assms(2) by (simp add: test_due_def post_def)
  have q: "wl_queue (before_wait r st) = lo_after r"
    using self_test_empties_queue [OF assms(3,4)] due by (simp add: before_wait_def Let_def post_def)
  show ?thesis
  proof (cases "lo_after r")
    case (Cons msg q')
    let ?h = "handle_message dispatch msg ((before_wait r st)\<lparr>wl_queue := q'\<rparr>)"
    have on: "fst ?h" using assms(5) Cons by (simp add: handle_message_goes_on)
    have "wl_queue (snd ?h) = q'" by (simp add: handle_message_queue [OF assms(1)])
    then have "\<not> fst (win_message_loop dispatch rs (snd ?h))"
      using assms(5,6) Cons by (intro loop_runs_on [OF assms(1)]) auto
    with q Cons on show ?thesis by (auto simp: Let_def split: prod.split)
  qed (simp add: Let_def q)
qed

text \<open>Without a self-test in between a request ends the loop, after the messages before it.\<close>

definition quiet :: "nat \<Rightarrow> 'm loop_round \<Rightarrow> bool" where
  "quiet prev r \<longleftrightarrow> lo_now r - prev < HOOK_SELFTEST_INTERVAL"

lemma shutdown_ends_loop:
  assumes "wl_last_selftest st = Some prev" "list_all (quiet prev) rs" "length pre < length rs"
    and "wl_queue st = pre @ WmRequestShutdown # rest"
  shows "fst (win_message_loop dispatch rs st)"
  using assms
proof (induction pre arbitrary: rs st rest)
  case Nil
  then obtain r rs' where rs: "rs = r # rs'" by (cases rs) auto
  with Nil have "before_wait r st = post (lo_after r) (post (lo_arrived r) st)"
    by (simp add: before_wait_def test_due_def quiet_def Let_def post_def)
  with Nil rs show ?case by (simp add: post_def handle_message_def Let_def)
next
  case (Cons msg pre)
  then obtain r rs' where rs: "rs = r # rs'" by (cases rs) auto
  with Cons.prems have b: "before_wait r st = post (lo_after r) (post (lo_arrived r) st)"
    by (simp add: before_wait_def test_due_def quiet_def Let_def post_def)
  let ?q = "pre @ WmRequestShutdown # rest @ lo_arrived r @ lo_after r"
  let ?h = "handle_message dispatch msg ((before_wait r st)\<lparr>wl_queue := ?q\<rparr>)"
  have "\<exists>more. wl_queue (snd ?h) = pre @ WmRequestShutdown # rest @ lo_arrived r @ lo_after r @ more"
    "wl_last_selftest (snd ?h) = Some prev"
    using Cons.prems by (auto simp: handle_message_def b post_def split: win_message.split prod.split)
  then have "fst (win_message_loop dispatch rs' (snd ?h))"
    using Cons.IH Cons.prems rs by auto
  moreover have "wl_queue (before_wait r st) = msg # ?q" using Cons.prems b by (simp add: post_def)
  ultimately show ?case by (auto simp: rs Let_def split: prod.split)
qed

text \<open>
  A reinstallation removes the first hook, and the loop ends with the removal of that same one, which fails then: the
  daemon ends with an error, and the hook installed last is not removed.
\<close>

lemma reinstall_removes_first_hook:
  assumes "reinstall_hook ri st = (True, st')" "wl_handle st \<noteq> 0" "ri_hook ri \<noteq> Some (wl_handle st)"
  shows "wl_handle st \<notin> set (wl_installed st')" "wl_handle st' \<in> set (wl_installed st')" "wl_handle st' \<noteq> wl_handle st"
  using assms by (auto simp: reinstall_hook_def Let_def split: if_splits option.splits)

lemma end_after_reinstall:
  assumes "windows_start_mapping True hook_call dispatch rounds st = Ended st'" "ri_hook hook_call = Some handle"
  shows "\<exists>st1. fst (win_message_loop dispatch rounds st1) \<and> handle \<in> set (wl_installed (snd (win_message_loop dispatch rounds st1)))"
  using assms by (auto simp: windows_start_mapping_def Let_def split: if_splits prod.splits) (metis fst_conv snd_conv)

text \<open>What is queued is emitted once, by the first wake message that is read.\<close>

lemma wake_drains:
  "handle_message dispatch WmApp st = (True, st') \<Longrightarrow> rw_emissions (wh_shared (wl_hook st')) = []"
  by (auto simp: handle_message_def drain_queue_def)

section \<open>Properties\<close>

definition stays :: "'m win_message list \<Rightarrow> bool" where
  "stays ms \<longleftrightarrow> list_all (\<lambda>m. \<not> leaves m) ms"

text \<open>
  C40. What becomes of a request to shut down. As long as no self-test is due it ends the loop once the messages before it
  have been handled, whatever they are. If a self-test is due when the loop comes round, the request is removed with
  everything else in the queue, and the daemon runs on although the client has been told that it stops.
\<close>
theorem shutdown_request_fate:
  assumes "tid \<noteq> 0" "\<And>m hook. \<not> snd (dispatch m hook)"
  shows "(wl_last_selftest st = Some prev \<and> list_all (quiet prev) rs \<and> length (wl_queue st) < length rs \<longrightarrow>
      fst (win_message_loop dispatch rs (win_request_shutdown tid st))) \<and>
    (test_due (lo_now r) st \<and> lo_sent r = 2 \<and> lo_rounds r \<noteq> [] \<and> stays (lo_after r) \<and>
      list_all (\<lambda>r'. stays (lo_arrived r' @ lo_after r')) rs \<longrightarrow>
      \<not> fst (win_message_loop dispatch (r # rs) (win_request_shutdown tid st)))"
proof (intro conjI impI)
  assume "wl_last_selftest st = Some prev \<and> list_all (quiet prev) rs \<and> length (wl_queue st) < length rs"
  then show "fst (win_message_loop dispatch rs (win_request_shutdown tid st))"
    using assms(1) by (intro shutdown_ends_loop [where pre = "wl_queue st" and rest = "[]" and prev = prev])
      (simp_all add: win_request_shutdown_def post_def)
next
  assume "test_due (lo_now r) st \<and> lo_sent r = 2 \<and> lo_rounds r \<noteq> [] \<and> stays (lo_after r) \<and>
      list_all (\<lambda>r'. stays (lo_arrived r' @ lo_after r')) rs"
  then show "\<not> fst (win_message_loop dispatch (r # rs) (win_request_shutdown tid st))"
    by (intro self_test_loses_shutdown assms(2))
      (auto simp: test_due_def win_request_shutdown_def post_def stays_def list_all_iff)
qed

definition calm_loop :: "unit win_loop" where
  "calm_loop = \<lparr>wl_queue = [WmDispatched ()], wl_hook = hook_start [], wl_last_selftest = Some 0, wl_handle = 1, wl_installed = [1],
     wl_discarded = []\<rparr>"

definition round_at :: "nat \<Rightarrow> unit loop_round" where
  "round_at now = \<lparr>lo_now = now, lo_arrived = [], lo_sent = 2, lo_rounds = [\<lparr>tr_arrived = [], tr_seen = 2\<rparr>],
     lo_reinstall = \<lparr>ri_module = True, ri_hook = Some 2\<rparr>, lo_after = [WmApp]\<rparr>"

lemma shutdown_request_fate_witness:
  "fst (win_message_loop (\<lambda>m hook. (hook, False)) [round_at 100, round_at 200] (win_request_shutdown 7 calm_loop)) \<and>
   \<not> fst (win_message_loop (\<lambda>m hook. (hook, False)) [round_at 5000, round_at 5100, round_at 5200] (win_request_shutdown 7 calm_loop))"
proof -
  note fate = shutdown_request_fate [where tid = 7 and dispatch = "\<lambda>m hook. (hook, False)" and st = calm_loop and prev = 0]
  have "fst (win_message_loop (\<lambda>m hook. (hook, False)) [round_at 100, round_at 200] (win_request_shutdown 7 calm_loop))"
    by (rule conjunct1 [OF fate, THEN mp]) (simp_all add: calm_loop_def quiet_def round_at_def HOOK_SELFTEST_INTERVAL_def)
  moreover have "\<not> fst (win_message_loop (\<lambda>m hook. (hook, False)) [round_at 5000, round_at 5100, round_at 5200]
      (win_request_shutdown 7 calm_loop))"
    by (rule conjunct2 [OF fate, THEN mp])
      (simp_all add: calm_loop_def test_due_def round_at_def HOOK_SELFTEST_INTERVAL_def stays_def leaves_def)
  ultimately show ?thesis by simp
qed

end
