(* ===== verification/Mac_Capture.thy ===== *)
theory Mac_Capture
  imports Backend
begin

text \<open>
  \<open>src/platform/macos/keycode.rs\<close> and \<open>src/platform/macos/capture.rs\<close>: the translation of
  CoreGraphics key codes, and the scanner that turns the events of the tap into captured keys.
\<close>

section \<open>Key codes (keycode.rs)\<close>

text \<open>The arms of the match in \<open>cg_keycode_to_hid_usage\<close>, in their order.\<close>

definition cg_keycode_table :: "(u16 \<times> u16) list" where
  "cg_keycode_table =
   [(0, 0x04), (1, 0x16), (2, 0x07), (3, 0x09), (4, 0x0B), (5, 0x0A), (6, 0x1D), (7, 0x1B),
    (8, 0x06), (9, 0x19), (10, 0x64), (11, 0x05), (12, 0x14), (13, 0x1A), (14, 0x08), (15, 0x15),
    (16, 0x1C), (17, 0x17), (31, 0x12), (32, 0x18), (34, 0x0C), (35, 0x13), (37, 0x0F),
    (38, 0x0D), (40, 0x0E), (41, 0x33), (45, 0x11), (46, 0x10), (18, 0x1E), (19, 0x1F),
    (20, 0x20), (21, 0x21), (23, 0x22), (22, 0x23), (26, 0x24), (28, 0x25), (25, 0x26),
    (29, 0x27), (36, 0x28), (51, 0x2A), (117, 0x4C), (53, 0x29), (48, 0x2B), (49, 0x2C),
    (59, 0xE0), (62, 0xE4), (56, 0xE1), (60, 0xE5), (58, 0xE2), (61, 0xE6), (55, 0xE3),
    (54, 0xE7), (57, 0x39), (115, 0x4A), (116, 0x4B), (119, 0x4D), (121, 0x4E), (126, 0x52),
    (125, 0x51), (123, 0x50), (124, 0x4F), (107, 0x47), (110, 0x65), (114, 0x49), (122, 0x3A),
    (120, 0x3B), (99, 0x3C), (118, 0x3D), (96, 0x3E), (97, 0x3F), (98, 0x40), (100, 0x41),
    (101, 0x42), (109, 0x43), (103, 0x44), (111, 0x45), (27, 0x2D), (24, 0x2E), (33, 0x2F),
    (30, 0x30), (42, 0x31), (39, 0x34), (50, 0x35), (43, 0x36), (47, 0x37), (44, 0x38),
    (65, 0x63), (67, 0x55), (69, 0x57), (71, 0x53), (75, 0x54), (76, 0x58), (78, 0x56),
    (81, 0x67), (82, 0x62), (83, 0x59), (84, 0x5A), (85, 0x5B), (86, 0x5C), (87, 0x5D),
    (88, 0x5E), (89, 0x5F), (90, 0x60), (91, 0x61)]"

definition cg_keycode_to_hid_usage :: "u16 \<Rightarrow> u16 option" where
  "cg_keycode_to_hid_usage code = map_of cg_keycode_table code"

definition mac_keycode_to_hid_usage :: "u16 \<Rightarrow> hid_usage option" where
  "mac_keycode_to_hid_usage code = Option.bind (cg_keycode_to_hid_usage code) hid_keyboard"

section \<open>The scanner (capture.rs)\<close>

text \<open>
  Of an event the scanner reads the key code (an integer field, cast to 16 bits) and whether the
  flag mask contains each of five masks.
\<close>

record cg_flags =
  mask_alpha_shift :: bool
  mask_shift :: bool
  mask_control :: bool
  mask_alternate :: bool
  mask_command :: bool

datatype cg_event_type =
  CgKeyDown | CgKeyUp | CgFlagsChanged | CgTapDisabledByTimeout | CgTapDisabledByUserInput | CgOther

record cg_event =
  cg_keycode_field :: "64 word"
  cg_event_flags :: cg_flags

record mac_scanner =
  prev_alpha_shift :: bool

text \<open>\<open>KeyScanner::new\<close>, given the current flags of the system.\<close>

definition mac_scanner_new :: "cg_flags \<Rightarrow> mac_scanner" where
  "mac_scanner_new flags_state = \<lparr>prev_alpha_shift = mask_alpha_shift flags_state\<rparr>"

definition flags_changed_state :: "hid_usage \<Rightarrow> cg_flags \<Rightarrow> bool option" where
  "flags_changed_state usage flags =
     map_option (\<lambda>b. if b = 0 \<or> b = 4 then mask_control flags
                     else if b = 1 \<or> b = 5 then mask_shift flags
                     else if b = 2 \<or> b = 6 then mask_alternate flags
                     else mask_command flags)
       (hid_usage_to_modifier_bit usage)"

definition capslock_is_down :: "cg_flags \<Rightarrow> mac_scanner \<Rightarrow> bool \<times> mac_scanner" where
  "capslock_is_down flags sc =
     (let alpha_shift = mask_alpha_shift flags
      in (alpha_shift \<noteq> prev_alpha_shift sc, sc\<lparr>prev_alpha_shift := alpha_shift\<rparr>))"

definition mac_on_event :: "cg_event_type \<Rightarrow> cg_event \<Rightarrow> mac_scanner \<Rightarrow> captured_key option \<times> mac_scanner" where
  "mac_on_event event_type event sc =
     (let native = ucast (cg_keycode_field event) in
      case event_type of
        CgKeyDown \<Rightarrow>
          (Some \<lparr>ck_native = native, ck_value = 1, ck_usage = mac_keycode_to_hid_usage native\<rparr>, sc)
      | CgKeyUp \<Rightarrow>
          (Some \<lparr>ck_native = native, ck_value = 0, ck_usage = mac_keycode_to_hid_usage native\<rparr>, sc)
      | CgFlagsChanged \<Rightarrow>
          (case mac_keycode_to_hid_usage native of
             None \<Rightarrow> (None, sc)
           | Some usage \<Rightarrow>
               (let flags = cg_event_flags event;
                    (state, sc') = (if usage = CapsLock
                                    then (let (d, sc1) = capslock_is_down flags sc in (Some d, sc1))
                                    else (flags_changed_state usage flags, sc))
                in case state of
                     None \<Rightarrow> (None, sc')
                   | Some d \<Rightarrow>
                       (Some \<lparr>ck_native = native, ck_value = (if d then 1 else 0), ck_usage = Some usage\<rparr>, sc')))
      | _ \<Rightarrow> (None, sc))"

text \<open>The callback of the observe tap: the keys it hands upward; the event always passes.\<close>

definition observe_callback :: "cg_event_type \<Rightarrow> cg_event \<Rightarrow> mac_scanner \<Rightarrow> captured_key list \<times> mac_scanner" where
  "observe_callback event_type event sc =
     (if event_type = CgTapDisabledByTimeout \<or> event_type = CgTapDisabledByUserInput then ([], sc)
      else (let (key, sc') = mac_on_event event_type event sc
            in (case key of Some k \<Rightarrow> [k] | None \<Rightarrow> [], sc')))"

section \<open>The table\<close>

lemma cg_codes_distinct: "distinct (map fst cg_keycode_table)"
proof -
  have "distinct (map (\<lambda>r. unat (fst r)) cg_keycode_table)"
    by (simp add: cg_keycode_table_def)
  then have "distinct (map unat (map fst cg_keycode_table))" by (simp add: comp_def)
  then show ?thesis by (simp only: distinct_map)
qed

lemma cg_ids_distinct: "distinct (map snd cg_keycode_table)"
proof -
  have "distinct (map (\<lambda>r. unat (snd r)) cg_keycode_table)"
    by (simp add: cg_keycode_table_def)
  then have "distinct (map unat (map snd cg_keycode_table))" by (simp add: comp_def)
  then show ?thesis by (simp only: distinct_map)
qed

lemma unat_keyboard_code:
  "unat (push_bit 16 (ucast PAGE_KEYBOARD) OR ucast (h :: u16) :: u32) = 458752 + unat h"
proof -
  have disjoint: "push_bit 16 (ucast PAGE_KEYBOARD) AND ucast h = (0 :: u32)"
    by (rule bit_word_eqI) (auto simp: bit_simps dest: bit_imp_le_length)
  have lt: "unat h < 65536" using unsigned_less [of h] by simp
  then have u: "unat (ucast h :: u32) = unat h" by (simp add: unsigned_ucast_eq take_bit_nat_eq_self)
  have "push_bit 16 (ucast PAGE_KEYBOARD) OR ucast h = (458752 + ucast h :: u32)"
    using disjunctive_add_eq_or [OF disjoint] by (simp add: PAGE_KEYBOARD_def)
  then show ?thesis using u lt by (simp add: unat_word_ariths)
qed

lemma from_code_iff: "from_code c = Some u \<longleftrightarrow> hid_code u = c"
  by (auto dest: from_code_SomeD)

lemma mac_keycode_iff:
  "mac_keycode_to_hid_usage c = Some u \<longleftrightarrow>
     (\<exists>h. (c, h) \<in> set cg_keycode_table \<and> unat (hid_code u) = 458752 + unat h)"
proof -
  have kb: "hid_keyboard h = Some u \<longleftrightarrow> unat (hid_code u) = 458752 + unat h" for h
  proof -
    have "hid_keyboard h = Some u \<longleftrightarrow>
        unat (hid_code u) = unat (push_bit 16 (ucast PAGE_KEYBOARD) OR ucast h :: u32)"
      unfolding hid_keyboard_def from_code_iff by (rule word_unat_eq_iff)
    then show ?thesis unfolding unat_keyboard_code .
  qed
  show ?thesis
    by (auto simp: mac_keycode_to_hid_usage_def cg_keycode_to_hid_usage_def bind_eq_Some_conv kb
        map_of_eq_Some_iff [OF cg_codes_distinct])
qed

lemma mac_keycode_inject:
  assumes "mac_keycode_to_hid_usage c = Some u" "mac_keycode_to_hid_usage d = Some u" shows "c = d"
proof -
  from assms obtain h where "(c, h) \<in> set cg_keycode_table" "(d, h) \<in> set cg_keycode_table"
    by (auto simp: mac_keycode_iff simp flip: word_unat_eq_iff)
  with cg_ids_distinct show ?thesis by (metis Pair_inject distinct_map inj_onD snd_conv)
qed

lemma cg_ids_eq:
  "map (\<lambda>r. 458752 + unat (snd r)) cg_keycode_table =
    [458756, 458774, 458759, 458761, 458763, 458762, 458781, 458779, 458758, 458777, 458852,
     458757, 458772, 458778, 458760, 458773, 458780, 458775, 458770, 458776, 458764, 458771,
     458767, 458765, 458766, 458803, 458769, 458768, 458782, 458783, 458784, 458785, 458786,
     458787, 458788, 458789, 458790, 458791, 458792, 458794, 458828, 458793, 458795, 458796,
     458976, 458980, 458977, 458981, 458978, 458982, 458979, 458983, 458809, 458826, 458827,
     458829, 458830, 458834, 458833, 458832, 458831, 458823, 458853, 458825, 458810, 458811,
     458812, 458813, 458814, 458815, 458816, 458817, 458818, 458819, 458820, 458821, 458797,
     458798, 458799, 458800, 458801, 458804, 458805, 458806, 458807, 458808, 458851, 458837,
     458839, 458835, 458836, 458840, 458838, 458855, 458850, 458841, 458842, 458843, 458844,
     458845, 458846, 458847, 458848, 458849]"
  by (simp add: cg_keycode_table_def)

lemma cg_ids_known:
  "list_all (\<lambda>n. n \<in> set (map (\<lambda>(_, c, _). unat c) hid_table)) (map (\<lambda>r. 458752 + unat (snd r)) cg_keycode_table)"
  unfolding hid_codes_eq cg_ids_eq by simp

lemma mac_keycode_known: "cg_keycode_to_hid_usage c = Some h \<Longrightarrow> \<exists>u. mac_keycode_to_hid_usage c = Some u"
proof -
  assume "cg_keycode_to_hid_usage c = Some h"
  then have row: "(c, h) \<in> set cg_keycode_table" by (simp add: cg_keycode_to_hid_usage_def map_of_SomeD)
  then have "458752 + unat h \<in> set (map (\<lambda>(_, c, _). unat c) hid_table)"
    using cg_ids_known by (force simp: list_all_iff)
  then obtain u k n as where "(u, k, n, as) \<in> set hid_table" "unat k = 458752 + unat h"
    by auto
  with row show ?thesis by (auto simp: mac_keycode_iff dest: hid_row_unique)
qed

text \<open>The keys no event of the tap stands for.\<close>

definition untappable :: "hid_usage list" where
  "untappable = [PrintScreen, Pause, PlayPause, VolumeUp, VolumeDown, Mute, NextTrack, PreviousTrack,
     Stop, BrightnessUp, BrightnessDown]"

lemma hid_all_fst: "map fst hid_table = hid_all"
  by (simp add: hid_all_def)

lemma tappable_rows:
  "list_all (\<lambda>(u, n). (n \<in> set (map (\<lambda>r. 458752 + unat (snd r)) cg_keycode_table)) = (u \<notin> set untappable))
     (zip hid_all (map (\<lambda>(_, c, _). unat c) hid_table))"
  unfolding hid_codes_eq cg_ids_eq hid_all_eq untappable_def by simp

lemma mac_keycode_range: "(\<exists>c. mac_keycode_to_hid_usage c = Some u) \<longleftrightarrow> u \<notin> set untappable"
proof -
  obtain c n as where row: "(u, c, n, as) \<in> set hid_table" "hid_code u = c" using hid_row by blast
  have "(\<exists>c. mac_keycode_to_hid_usage c = Some u) \<longleftrightarrow>
      unat c \<in> set (map (\<lambda>r. 458752 + unat (snd r)) cg_keycode_table)"
    using row(2) by (force simp: mac_keycode_iff)
  moreover have "(u, unat c) \<in> set (zip hid_all (map (\<lambda>(_, c, _). unat c) hid_table))"
    using row(1) by (force simp flip: hid_all_fst simp: in_set_zip in_set_conv_nth)
  ultimately show ?thesis using tappable_rows by (fastforce simp: list_all_iff)
qed

section \<open>What the keyboard does\<close>

text \<open>
  The state of the hardware: the alpha-shift lock and the keys that are pressed. A press of Caps Lock
  toggles the lock, its release leaves it. The flags of an event show the state after it; the left
  and the right key of a pair share one flag.
\<close>

type_synonym mac_keyboard = "bool \<times> hid_usage set"

definition mac_press :: "hid_usage \<Rightarrow> bool \<Rightarrow> mac_keyboard \<Rightarrow> mac_keyboard" where
  "mac_press u d kb =
     (if u = CapsLock \<and> d then \<not> fst kb else fst kb, if d then insert u (snd kb) else snd kb - {u})"

definition mac_flags :: "mac_keyboard \<Rightarrow> cg_flags" where
  "mac_flags kb =
     \<lparr>mask_alpha_shift = fst kb,
      mask_shift = (LeftShift \<in> snd kb \<or> RightShift \<in> snd kb),
      mask_control = (LeftControl \<in> snd kb \<or> RightControl \<in> snd kb),
      mask_alternate = (LeftAlt \<in> snd kb \<or> RightAlt \<in> snd kb),
      mask_command = (LeftCommand \<in> snd kb \<or> RightCommand \<in> snd kb)\<rparr>"

definition mac_event_type :: "hid_usage \<Rightarrow> bool \<Rightarrow> cg_event_type" where
  "mac_event_type u d =
     (if u = CapsLock \<or> hid_usage_to_modifier_bit u \<noteq> None then CgFlagsChanged
      else if d then CgKeyDown else CgKeyUp)"

text \<open>The other key of the pair a modifier belongs to.\<close>

definition twin_of :: "hid_usage \<Rightarrow> hid_usage option" where
  "twin_of u = map_of
     [(LeftControl, RightControl), (RightControl, LeftControl), (LeftShift, RightShift), (RightShift, LeftShift),
      (LeftAlt, RightAlt), (RightAlt, LeftAlt), (LeftCommand, RightCommand), (RightCommand, LeftCommand)] u"

definition twin_held :: "hid_usage \<Rightarrow> hid_usage set \<Rightarrow> bool" where
  "twin_held u P = (case twin_of u of Some v \<Rightarrow> v \<in> P | None \<Rightarrow> False)"

lemma twin_held_modifier: "twin_held u P \<Longrightarrow> hid_usage_to_modifier_bit u \<noteq> None"
  by (auto simp: twin_held_def twin_of_def split: if_splits)

lemma flags_changed_state_modifier:
  assumes "hid_usage_to_modifier_bit u \<noteq> None"
  shows "flags_changed_state u (mac_flags kb) = Some (u \<in> snd kb \<or> twin_held u (snd kb))"
proof -
  from assms obtain m where "u = ModifierUsage m" by (cases u) simp_all
  then show ?thesis
    by (cases m) (auto simp: flags_changed_state_def mac_flags_def twin_held_def twin_of_def)
qed

lemma scan_modifier:
  assumes "mac_keycode_to_hid_usage (ucast code) = Some u" "hid_usage_to_modifier_bit u \<noteq> None"
  shows "mac_on_event CgFlagsChanged \<lparr>cg_keycode_field = code, cg_event_flags = mac_flags kb\<rparr> sc =
    (Some \<lparr>ck_native = ucast code, ck_value = (if u \<in> snd kb \<or> twin_held u (snd kb) then 1 else 0),
           ck_usage = Some u\<rparr>, sc)"
proof -
  have "u \<noteq> CapsLock" using assms(2) by auto
  with assms show ?thesis
    by (simp add: mac_on_event_def flags_changed_state_modifier)
qed

section \<open>Properties\<close>

text \<open>
  The translation of key codes: every code the table names is translated to a key, no two codes to
  the same one, and the keys of the keyboard page that have no code, so that no event of the tap
  stands for them, are Print Screen and Pause.
\<close>
theorem mac_keycode_translation:
  "(\<exists>h. cg_keycode_to_hid_usage c = Some h) = (\<exists>u. mac_keycode_to_hid_usage c = Some u)
   \<and> (mac_keycode_to_hid_usage c = Some u \<and> mac_keycode_to_hid_usage d = Some u \<longrightarrow> c = d)
   \<and> (\<exists>c. mac_keycode_to_hid_usage c = Some u) = (u \<notin> set untappable)"
  using mac_keycode_known [of c] mac_keycode_inject [of c u d] mac_keycode_range [of u]
  by (auto simp: mac_keycode_to_hid_usage_def bind_eq_Some_conv)

lemma mac_keycode_translation_witness: "mac_keycode_to_hid_usage 36 = Some Return \<and> Return \<notin> set untappable"
proof -
  have "mac_keycode_to_hid_usage 36 = Some Return"
    by (simp add: mac_keycode_to_hid_usage_def cg_keycode_to_hid_usage_def cg_keycode_table_def hid_keyboard_def
        PAGE_KEYBOARD_def from_code_def hid_table_def)
  with mac_keycode_translation [of 36 Return] show ?thesis by blast
qed

text \<open>
  The scanner reads every key of the keyboard: the event of pressing or releasing a key is captured as
  that key. The direction is read right with one exception, which is exact: the release of a
  modifier while the other key of its pair is held is read as a press. Caps Lock, whose flag does not
  show whether the key is down, is read right at every press and release, because the scanner stays
  in step with the lock.
\<close>
theorem scanner_reads_directions:
  assumes "mac_keycode_to_hid_usage (ucast code) = Some u"
    and "kb' = mac_press u d kb" and "prev_alpha_shift sc = fst kb"
  shows "\<exists>sc'. mac_on_event (mac_event_type u d) \<lparr>cg_keycode_field = code, cg_event_flags = mac_flags kb'\<rparr> sc
      = (Some \<lparr>ck_native = ucast code, ck_value = (if d \<or> twin_held u (snd kb') then 1 else 0),
               ck_usage = Some u\<rparr>, sc')
    \<and> prev_alpha_shift sc' = fst kb'"
proof (cases "hid_usage_to_modifier_bit u")
  case None
  then have t: "\<not> twin_held u (snd kb')" using twin_held_modifier by blast
  show ?thesis
  proof (cases "u = CapsLock")
    case True
    with assms t show ?thesis
      by (auto simp: mac_on_event_def mac_event_type_def capslock_is_down_def mac_flags_def mac_press_def Let_def)
  next
    case False
    with assms t None show ?thesis
      by (auto simp: mac_on_event_def mac_event_type_def mac_press_def)
  qed
next
  case (Some b)
  then have "u \<noteq> CapsLock" by auto
  with Some assms scan_modifier [OF assms(1), of kb' sc] show ?thesis
    by (auto simp: mac_event_type_def mac_press_def)
qed

lemma scanner_reads_directions_witness:
  "\<exists>sc'. mac_on_event (mac_event_type CapsLock True)
      \<lparr>cg_keycode_field = 57, cg_event_flags = mac_flags (True, {CapsLock})\<rparr> \<lparr>prev_alpha_shift = False\<rparr>
      = (Some \<lparr>ck_native = 57, ck_value = 1, ck_usage = Some CapsLock\<rparr>, sc') \<and> prev_alpha_shift sc'"
proof -
  have "mac_keycode_to_hid_usage (ucast (57 :: 64 word)) = Some CapsLock"
    by (simp add: mac_keycode_to_hid_usage_def cg_keycode_to_hid_usage_def cg_keycode_table_def hid_keyboard_def
        PAGE_KEYBOARD_def from_code_def hid_table_def)
  from scanner_reads_directions [OF this, of _ True "(False, {})" "\<lparr>prev_alpha_shift = False\<rparr>"] show ?thesis
    by (simp add: mac_press_def)
qed

end
