(* ===== verification/Rate_Limit.thy ===== *)
theory Rate_Limit
  imports Prelude
begin

text \<open>
  The sliding-window limiters: \<open>RateLimiter\<close> of \<open>src/platform/endpoint/mod.rs\<close>, keyed by a peer,
  and \<open>FrameRateLimiter\<close> of \<open>src/platform/macos/ipc_server.rs\<close>, for one connection. What both
  promise is the locale \<open>window_limiter\<close>; the bounds are proved once over it. The clock is in
  milliseconds from an origin before which no window reaches (\<open>now - window\<close> of the code does not
  underflow).
\<close>

section \<open>The limiters\<close>

record rate_limiter =
  rl_window :: nat
  rl_threshold :: nat
  rl_entries :: "(u32 \<times> nat) list"

definition rate_limiter_new :: "nat \<Rightarrow> nat \<Rightarrow> rate_limiter" where
  "rate_limiter_new window threshold = \<lparr>rl_window = window, rl_threshold = threshold, rl_entries = []\<rparr>"

definition check_and_record :: "u32 \<Rightarrow> nat \<Rightarrow> rate_limiter \<Rightarrow> bool \<times> rate_limiter" where
  "check_and_record uid now l =
     (let cutoff = now - rl_window l;
          l1 = l\<lparr>rl_entries := filter (\<lambda>(_, ts). ts \<ge> cutoff) (rl_entries l)\<rparr>;
          count = length (filter (\<lambda>(u, _). u = uid) (rl_entries l1))
      in if count \<ge> rl_threshold l1 then (False, l1)
         else (True, l1\<lparr>rl_entries := rl_entries l1 @ [(uid, now)]\<rparr>))"

record frame_rate_limiter =
  fl_window :: nat
  fl_threshold :: nat
  fl_frames :: "nat list"

definition frame_rate_limiter_new :: "nat \<Rightarrow> nat \<Rightarrow> frame_rate_limiter" where
  "frame_rate_limiter_new window threshold = \<lparr>fl_window = window, fl_threshold = threshold, fl_frames = []\<rparr>"

definition frame_check_and_record :: "nat \<Rightarrow> frame_rate_limiter \<Rightarrow> bool \<times> frame_rate_limiter" where
  "frame_check_and_record now l =
     (let cutoff = now - fl_window l;
          l1 = l\<lparr>fl_frames := filter (\<lambda>ts. ts \<ge> cutoff) (fl_frames l)\<rparr>
      in if length (fl_frames l1) \<ge> fl_threshold l1 then (False, l1)
         else (True, l1\<lparr>fl_frames := fl_frames l1 @ [now]\<rparr>))"

section \<open>The contract\<close>

text \<open>The requests of a run that were admitted, with their times.\<close>

fun limiter_run :: "('i \<Rightarrow> nat \<Rightarrow> 's \<Rightarrow> bool \<times> 's) \<Rightarrow> ('i \<times> nat) list \<Rightarrow> 's \<Rightarrow> ('i \<times> nat) list \<times> 's" where
  "limiter_run check [] s = ([], s)"
| "limiter_run check ((i, now) # reqs) s =
     (let (ok, s1) = check i now s; (adm, s2) = limiter_run check reqs s1
      in (if ok then (i, now) # adm else adm, s2))"

lemma limiter_run_snoc:
  "limiter_run check (reqs @ [(i, now)]) s =
     (let (adm, s1) = limiter_run check reqs s; (ok, s2) = check i now s1
      in (if ok then adm @ [(i, now)] else adm, s2))"
  by (induction check reqs s rule: limiter_run.induct) (auto simp: Let_def split: prod.splits)

text \<open>How many admitted requests of a peer lie between two times.\<close>

definition admitted_between :: "'i \<Rightarrow> nat \<Rightarrow> nat \<Rightarrow> ('i \<times> nat) list \<Rightarrow> nat" where
  "admitted_between i a b adm = length (filter (\<lambda>(j, ts). j = i \<and> a \<le> ts \<and> ts \<le> b) adm)"

lemma admitted_between_simps [simp]:
  "admitted_between i a b [] = 0"
  "admitted_between i a b (adm @ adm') = admitted_between i a b adm + admitted_between i a b adm'"
  "admitted_between i a b ((j, ts) # adm) =
     (if j = i \<and> a \<le> ts \<and> ts \<le> b then 1 else 0) + admitted_between i a b adm"
  by (simp_all add: admitted_between_def)

lemma admitted_between_mono: "a' \<le> a \<Longrightarrow> b \<le> b' \<Longrightarrow> admitted_between i a b adm \<le> admitted_between i a' b' adm"
  by (induction adm) auto

locale window_limiter =
  fixes check :: "'i \<Rightarrow> nat \<Rightarrow> 's \<Rightarrow> bool \<times> 's"
    and window :: "'s \<Rightarrow> nat" and threshold :: "'s \<Rightarrow> nat" and kept :: "'s \<Rightarrow> ('i \<times> nat) list"
  assumes check_ok: "fst (check i now s) \<longleftrightarrow>
      length (filter (\<lambda>(j, ts). j = i \<and> now \<le> ts + window s) (kept s)) < threshold s"
    and check_kept: "kept (snd (check i now s)) =
      filter (\<lambda>(_, ts). now \<le> ts + window s) (kept s) @ (if fst (check i now s) then [(i, now)] else [])"
    and check_fixed [simp]: "window (snd (check i now s)) = window s" "threshold (snd (check i now s)) = threshold s"
begin

lemma run_fixed [simp]:
  "window (snd (limiter_run check reqs s)) = window s"
  "threshold (snd (limiter_run check reqs s)) = threshold s"
  by (induction reqs arbitrary: s) (auto simp: case_prod_beta Let_def)

definition up_to_date :: "nat \<Rightarrow> ('i \<times> nat) list \<Rightarrow> 's \<Rightarrow> bool" where
  "up_to_date latest adm s \<longleftrightarrow>
     kept s = filter (\<lambda>(_, ts). latest \<le> ts + window s) adm \<and> (\<forall>(j, ts) \<in> set adm. ts \<le> latest)"

lemma check_admits:
  assumes "up_to_date latest adm s" "latest \<le> now"
  shows "fst (check i now s) \<longleftrightarrow> admitted_between i (now - window s) now adm < threshold s"
proof -
  have "filter (\<lambda>(j, ts). j = i \<and> now \<le> ts + window s) (kept s) =
      filter (\<lambda>(j, ts). j = i \<and> now - window s \<le> ts \<and> ts \<le> now) adm"
    using assms by (auto simp: up_to_date_def filter_filter le_diff_conv intro!: filter_cong)
  then show ?thesis by (simp add: check_ok admitted_between_def)
qed

lemma check_up_to_date:
  assumes "up_to_date latest adm s" "latest \<le> now"
  shows "up_to_date now (adm @ (if fst (check i now s) then [(i, now)] else [])) (snd (check i now s))"
  using assms unfolding up_to_date_def check_kept
  by (auto simp: filter_filter intro!: filter_cong)

lemma check_bounded:
  assumes "up_to_date latest adm s" "latest \<le> now"
    and "\<And>j a. admitted_between j a (a + window s) adm \<le> threshold s"
  shows "admitted_between j a (a + window s) (adm @ (if fst (check i now s) then [(i, now)] else [])) \<le> threshold s"
proof (cases "fst (check i now s) \<and> j = i \<and> a \<le> now \<and> now \<le> a + window s")
  case True
  then have "admitted_between i (now - window s) now adm < threshold s"
    using check_admits [OF assms(1,2), of i] by simp
  moreover have "admitted_between i a (a + window s) adm \<le> admitted_between i (now - window s) now adm"
  proof -
    have "\<forall>(j, ts) \<in> set adm. ts \<le> now" using assms(1,2) by (auto simp: up_to_date_def)
    then have "admitted_between i a (a + window s) adm = admitted_between i a now adm"
      using True unfolding admitted_between_def by (auto intro!: arg_cong [where f = length] filter_cong)
    also have "\<dots> \<le> admitted_between i (now - window s) now adm"
      using True by (intro admitted_between_mono) auto
    finally show ?thesis .
  qed
  ultimately show ?thesis using True by simp
next
  case False
  then show ?thesis using assms(3) [of j a] by auto
qed

text \<open>
  After a run from an empty limiter, with times that do not decrease: what is kept is what the window
  still covers, and no window of the limiter's length covers more than the threshold of a peer.
\<close>

lemma run_invariant:
  assumes "kept s = []" "sorted (map snd reqs)" "\<forall>(i, ts) \<in> set reqs. ts \<le> latest" "limiter_run check reqs s = (adm, s')"
  shows "(\<exists>latest' \<le> latest. up_to_date latest' adm s')
    \<and> (\<forall>i a. admitted_between i a (a + window s) adm \<le> threshold s)"
  using assms
proof (induction reqs arbitrary: latest adm s' rule: rev_induct)
  case Nil
  then show ?case by (auto simp: up_to_date_def)
next
  case (snoc r reqs)
  obtain i now where r: "r = (i, now)" by force
  obtain adm1 s1 where run: "limiter_run check reqs s = (adm1, s1)" by force
  have w: "window s1 = window s" "threshold s1 = threshold s"
    using run_fixed [of reqs s] run by simp_all
  have "\<forall>(j, ts) \<in> set reqs. ts \<le> now"
    using snoc.prems(2) r by (auto simp: sorted_append)
  with snoc.IH [OF snoc.prems(1) _ _ run, of now] snoc.prems(2)
  obtain latest' where IH: "latest' \<le> now" "up_to_date latest' adm1 s1"
    "\<And>j a. admitted_between j a (a + window s) adm1 \<le> threshold s"
    by (auto simp: sorted_append)
  let ?ok = "fst (check i now s1)"
  have res: "adm = adm1 @ (if ?ok then [(i, now)] else [])" "s' = snd (check i now s1)"
    using snoc.prems(4) run r by (auto simp: limiter_run_snoc Let_def split: prod.splits)
  have now: "now \<le> latest" using snoc.prems(3) r by simp
  have "admitted_between j a (a + window s) adm \<le> threshold s" for j a
    using check_bounded [OF IH(2,1), of j a i] IH(3) w by (simp add: res(1))
  moreover have "up_to_date now adm s'"
    using check_up_to_date [OF IH(2,1), of i] by (simp add: res)
  ultimately show ?case using now by blast
qed

lemma admits_exactly:
  assumes "kept s = []" "sorted (map snd (reqs @ [(i, now)]))" "limiter_run check reqs s = (adm, s')"
  shows "fst (check i now s') = (admitted_between i (now - window s) now adm < threshold s)"
proof -
  have "sorted (map snd reqs)" "\<forall>(j, ts) \<in> set reqs. ts \<le> now"
    using assms(2) by (auto simp: sorted_append)
  from run_invariant [OF assms(1) this assms(3)] obtain latest' where "latest' \<le> now" "up_to_date latest' adm s'" by blast
  from check_admits [OF this(2,1), of i] run_fixed [of reqs s] assms(3) show ?thesis by simp
qed

lemma never_above_threshold:
  assumes "kept s = []" "sorted (map snd reqs)" "limiter_run check reqs s = (adm, s')"
  shows "admitted_between i a (a + window s) adm \<le> threshold s"
proof -
  have "\<forall>(j, ts) \<in> set reqs. ts \<le> sum_list (map snd reqs)"
    using member_le_sum_list [of _ "map snd reqs"] by force
  from run_invariant [OF assms(1,2) this assms(3)] show ?thesis by blast
qed

end

lemma not_before: "now - w \<le> ts \<longleftrightarrow> now \<le> ts + (w :: nat)"
  by (rule le_diff_conv)

lemma filter_not_before: "filter ((\<le>) (now - w)) xs = filter (\<lambda>ts. now \<le> ts + (w :: nat)) xs"
  by (rule filter_cong) (simp_all add: not_before)

interpretation peer_limiter: window_limiter check_and_record rl_window rl_threshold rl_entries
  by unfold_locales
    (auto simp: check_and_record_def Let_def not_before filter_filter not_le case_prod_beta' conj_commute)

interpretation conn_limiter:
  window_limiter "\<lambda>_ :: unit. frame_check_and_record" fl_window fl_threshold "\<lambda>l. map (Pair ()) (fl_frames l)"
  by unfold_locales
    (auto simp: frame_check_and_record_def Let_def filter_not_before filter_map comp_def)

section \<open>Properties\<close>

text \<open>
  C29. The limiter of the control endpoints is exact and bounded. Whatever connections came before, in
  the order of the clock, a connection is refused if and only if as many connections of its own peer
  as the threshold allows were admitted within the window that ends now: other peers do not count,
  and refused attempts do not count, so a peer that waits is admitted again. And no interval as long
  as the window holds more admitted connections of one peer than the threshold.
\<close>
theorem rate_limit_exact:
  assumes "sorted (map snd (reqs @ [(uid, now)]))"
    and "limiter_run check_and_record reqs (rate_limiter_new window threshold) = (adm, l)"
  shows "fst (check_and_record uid now l) = (admitted_between uid (now - window) now adm < threshold)
    \<and> (\<forall>u a. admitted_between u a (a + window) adm \<le> threshold)"
proof
  show "fst (check_and_record uid now l) = (admitted_between uid (now - window) now adm < threshold)"
    using peer_limiter.admits_exactly [OF _ assms] by (simp add: rate_limiter_new_def)
  have "sorted (map snd reqs)" using assms(1) by (simp add: sorted_append)
  from peer_limiter.never_above_threshold [OF _ this assms(2)]
  show "\<forall>u a. admitted_between u a (a + window) adm \<le> threshold" by (simp add: rate_limiter_new_def)
qed

lemma rate_limit_exact_witness:
  "fst (check_and_record 7 12 \<lparr>rl_window = 10, rl_threshold = 1, rl_entries = [(7, 5), (8, 6)]\<rparr>) = False"
proof -
  have "limiter_run check_and_record [(7, 5), (8, 6), (7, 9)] (rate_limiter_new 10 1)
      = ([(7, 5), (8, 6)], \<lparr>rl_window = 10, rl_threshold = 1, rl_entries = [(7, 5), (8, 6)]\<rparr>)"
    by (simp add: check_and_record_def rate_limiter_new_def)
  from conjunct1 [OF rate_limit_exact [of _ 7 12, OF _ this]] show ?thesis
    by (simp add: admitted_between_def)
qed

end
