(* ===== verification/Peer_Creds.thy ===== *)
theory Peer_Creds
  imports Prelude
begin

text \<open>
  The credentials of the peer of a Unix socket, as the kernel reports them:
  \<open>src/platform/endpoint/peer_uid_macos.rs\<close> (the audit token) and \<open>peer_uid_linux.rs\<close> (\<open>SO_PEERCRED\<close>). The
  reply of \<open>getsockopt\<close> is an argument: \<open>None\<close> for a failure, else what was written and its length.
\<close>

section \<open>The audit token (peer_uid_macos.rs)\<close>

text \<open>The eight words of an audit token.\<close>

type_synonym audit_token = "u32 list"

definition at_real_uid :: "audit_token \<Rightarrow> u32" where "at_real_uid token = token ! 3"
definition at_effective_uid :: "audit_token \<Rightarrow> u32" where "at_effective_uid token = token ! 1"
definition at_pid :: "audit_token \<Rightarrow> u32" where "at_pid token = token ! 5"

record peer_creds =
  real_uid :: u32
  effective_uid :: u32
  peer_pid :: "u32 option"

datatype creds_error = GetsockoptFailed | ShortReply nat

text \<open>\<open>peer_creds\<close>, given the reply of \<open>getsockopt\<close>: the token and its length in bytes.\<close>

definition get_peer_creds :: "(audit_token \<times> nat) option \<Rightarrow> creds_error + peer_creds" where
  "get_peer_creds reply =
     (case reply of
        None \<Rightarrow> Inl GetsockoptFailed
      | Some (token, len) \<Rightarrow>
          if len \<noteq> 32 then Inl (ShortReply len)
          else Inr \<lparr>real_uid = at_real_uid token, effective_uid = at_effective_uid token,
                    peer_pid = Some (at_pid token)\<rparr>)"

section \<open>SO_PEERCRED (peer_uid_linux.rs)\<close>

text \<open>The reply is a \<open>ucred\<close>, 12 bytes: the process, the user (and the group, which is not used).\<close>

definition linux_peer_creds :: "((u32 \<times> u32) \<times> nat) option \<Rightarrow> creds_error + peer_creds" where
  "linux_peer_creds reply =
     (case reply of
        None \<Rightarrow> Inl GetsockoptFailed
      | Some ((pid, uid), len) \<Rightarrow>
          if len \<noteq> 12 then Inl (ShortReply len)
          else Inr \<lparr>real_uid = uid, effective_uid = uid, peer_pid = Some pid\<rparr>)"

end
