(* ===== verification/Mac_Ipc.thy ===== *)
theory Mac_Ipc
  imports Karabiner Ipc_Frame Rate_Limit Peer_Creds
begin

text \<open>
  The channel between the two macOS processes: \<open>src/platform/macos/ipc_client.rs\<close>, the writer thread of
  the user's daemon, and \<open>src/platform/macos/ipc_server.rs\<close>, the serve loop of the root daemon. Sockets are scripts of what the calls
  return; a batch is handed to the virtual keyboard client of \<open>Karabiner\<close>.
\<close>

section \<open>The client (ipc_client.rs)\<close>

definition CHANNEL_CAPACITY :: nat where "CHANNEL_CAPACITY = 512"

datatype server_uid_error = CredsFailed creds_error | NotRoot u32 u32

definition ipc_verify_server_uid :: "(audit_token \<times> nat) option \<Rightarrow> server_uid_error + unit" where
  "ipc_verify_server_uid reply =
     (case get_peer_creds reply of
        Inl e \<Rightarrow> Inl (CredsFailed e)
      | Inr creds \<Rightarrow>
          if real_uid creds = 0 \<and> effective_uid creds = 0 then Inr ()
          else Inl (NotRoot (real_uid creds) (effective_uid creds)))"

text \<open>The bounded channel of the tap callback: the batches not yet taken out, and whether the writer still
  holds its end.\<close>

record batch_channel =
  bc_queue :: "native_key list list"
  bc_open :: bool

definition try_send_batch :: "native_key list \<Rightarrow> batch_channel \<Rightarrow> bool \<times> batch_channel" where
  "try_send_batch batch ch =
     (if bc_open ch \<and> length (bc_queue ch) < CHANNEL_CAPACITY then (True, ch\<lparr>bc_queue := bc_queue ch @ [batch]\<rparr>)
      else (False, ch))"

text \<open>
  One round of \<open>write_loop\<close>: the shutdown flag, the batches that arrived in the channel before the
  receive, whether all senders are gone, and the error of the write, if it fails.
\<close>

record write_round =
  wr_shutdown :: bool
  wr_arrived :: "native_key list list"
  wr_disconnected :: bool
  wr_fault :: "io_kind option"

datatype write_result = WriteContinue | WriteDone | WriteFailed io_kind

text \<open>The result, the frames written in full, and the batches left in the channel.\<close>

fun write_rounds ::
  "write_round list \<Rightarrow> native_key list list \<Rightarrow> write_result \<times> bytes list \<times> native_key list list" where
  "write_rounds [] queue = (WriteContinue, [], queue)"
| "write_rounds (w # ws) queue =
     (if wr_shutdown w then (WriteDone, [], queue @ wr_arrived w)
      else
        (case queue @ wr_arrived w of
           keys # queue1 \<Rightarrow>
             (let frame = ipc_encode keys
              in case wr_fault w of
                   Some k \<Rightarrow> (WriteFailed k, [], queue1)
                 | None \<Rightarrow>
                     (let (res, frames, queue2) = write_rounds ws queue1 in (res, frame # frames, queue2)))
         | [] \<Rightarrow>
             if wr_disconnected w then (WriteDone, [], [])
             else write_rounds ws []))"

definition write_loop ::
  "io_kind option \<Rightarrow> write_round list \<Rightarrow> native_key list list \<Rightarrow> write_result \<times> bytes list \<times> native_key list list" where
  "write_loop set_timeout_error ws queue =
     (case set_timeout_error of Some k \<Rightarrow> (WriteFailed k, [], queue) | None \<Rightarrow> write_rounds ws queue)"

text \<open>
  One attempt of \<open>writer_loop\<close>: the shutdown flag at its start and at its end, the result of connecting,
  the credentials of the peer, the rounds of the connection and the batches that arrive after it, while
  the thread sleeps.
\<close>

record write_attempt =
  wa_shutdown :: bool
  wa_connect_error :: "io_kind option"
  wa_token :: "(audit_token \<times> nat) option"
  wa_timeout_error :: "io_kind option"
  wa_rounds :: "write_round list"
  wa_late :: "native_key list list"
  wa_shutdown_after :: bool

text \<open>What an attempt leaves to see: the reachability flag while it was connected, and the frames written.\<close>

record attempt_trace =
  tr_token :: "(audit_token \<times> nat) option"
  tr_reachable :: bool
  tr_frames :: "bytes list"

definition writer_attempt ::
  "write_attempt \<Rightarrow> native_key list list \<Rightarrow> attempt_trace \<times> native_key list list" where
  "writer_attempt a queue =
     (case wa_connect_error a of
        Some _ \<Rightarrow> (\<lparr>tr_token = None, tr_reachable = False, tr_frames = []\<rparr>, queue)
      | None \<Rightarrow>
          (case ipc_verify_server_uid (wa_token a) of
             Inl _ \<Rightarrow> (\<lparr>tr_token = wa_token a, tr_reachable = False, tr_frames = []\<rparr>, queue)
           | Inr _ \<Rightarrow>
               (let (_, frames, queue1) = write_loop (wa_timeout_error a) (wa_rounds a) queue
                in (\<lparr>tr_token = wa_token a, tr_reachable = True, tr_frames = frames\<rparr>, queue1))))"

text \<open>The traces, the batches left, and the reachability flag in the end.\<close>

fun writer_loop ::
  "write_attempt list \<Rightarrow> native_key list list \<Rightarrow> bool \<Rightarrow> attempt_trace list \<times> native_key list list \<times> bool" where
  "writer_loop [] queue reachable = ([], queue, reachable)"
| "writer_loop (a # as) queue reachable =
     (if wa_shutdown a then ([], queue, reachable)
      else
        let (tr, queue1) = writer_attempt a queue; reachable1 = False
        in if wa_shutdown_after a then ([tr], queue1, reachable1)
           else (let (trs, queue2, r) = writer_loop as (queue1 @ wa_late a) reachable1 in (tr # trs, queue2, r)))"

section \<open>The server (ipc_server.rs)\<close>

definition ACCEPT_RATE_WINDOW :: nat where "ACCEPT_RATE_WINDOW = 1000"
definition ACCEPT_RATE_THRESHOLD :: nat where "ACCEPT_RATE_THRESHOLD = 10"
definition FRAME_RATE_WINDOW :: nat where "FRAME_RATE_WINDOW = 1000"
definition FRAME_RATE_THRESHOLD :: nat where "FRAME_RATE_THRESHOLD = 1000"

text \<open>
  \<open>handle_connection\<close>. A step is the console user and the clock when a read returns; the callback
  \<open>emit\<close> works on a state of type \<open>'e\<close>. The loop ends with the connection, or with the script.
\<close>

fun serve_loop ::
  "(native_key list \<Rightarrow> 'e \<Rightarrow> 'e) \<Rightarrow> u32 \<Rightarrow> (u32 option \<times> nat) list \<Rightarrow> frame_reader \<Rightarrow> frame_rate_limiter
    \<Rightarrow> stream_event list \<Rightarrow> 'e \<Rightarrow> 'e" where
  "serve_loop emit peer_uid [] reader limiter es e = e"
| "serve_loop emit peer_uid ((console, now) # steps) reader limiter es e =
     (case decode_stream reader es of
        (Inr keys, reader1, es1) \<Rightarrow>
          if console \<noteq> Some peer_uid then e
          else
            (let (allowed, limiter1) = frame_check_and_record now limiter
             in if \<not> allowed then e
                else serve_loop emit peer_uid steps reader1 limiter1 es1 (emit keys e))
      | (Inl err, reader1, es1) \<Rightarrow>
          if err = IpcEof then e
          else if err = IpcIo WouldBlock then
            (if console \<noteq> Some peer_uid then e
             else serve_loop emit peer_uid steps reader1 limiter es1 e)
          else e)"

definition handle_connection ::
  "(native_key list \<Rightarrow> 'e \<Rightarrow> 'e) \<Rightarrow> u32 \<Rightarrow> (u32 option \<times> nat) list \<Rightarrow> stream_event list \<Rightarrow> 'e \<Rightarrow> 'e" where
  "handle_connection emit peer_uid steps es e =
     serve_loop emit peer_uid steps (fr_new MAX_PAYLOAD_LEN)
       (frame_rate_limiter_new FRAME_RATE_WINDOW FRAME_RATE_THRESHOLD) es e"

text \<open>The callback \<open>run_server\<close> passes.\<close>

definition emit_batch_keys :: "native_key list \<Rightarrow> karabiner_client \<Rightarrow> karabiner_client" where
  "emit_batch_keys keys conn = fold emit_native_key keys conn"

text \<open>\<open>apply_socket_ownership\<close>: the owner recorded afterwards, and the owner the socket is given, if any.\<close>

definition apply_socket_ownership :: "u32 option \<Rightarrow> u32 option \<Rightarrow> u32 option \<times> u32 option" where
  "apply_socket_ownership console last_owner =
     (case console of
        None \<Rightarrow> (last_owner, None)
      | Some uid \<Rightarrow> if last_owner = Some uid then (last_owner, None) else (Some uid, Some uid))"

text \<open>The checks of one accepted connection: the peer that is served, if any.\<close>

definition accept_connection ::
  "(audit_token \<times> nat) option \<Rightarrow> u32 option \<Rightarrow> nat \<Rightarrow> bool \<Rightarrow> rate_limiter \<Rightarrow> u32 option \<times> rate_limiter" where
  "accept_connection token console now timeout_set limiter =
     (case get_peer_creds token of
        Inl _ \<Rightarrow> (None, limiter)
      | Inr creds \<Rightarrow>
          (case console of
             None \<Rightarrow> (None, limiter)
           | Some c \<Rightarrow>
               (let (allowed, limiter1) = check_and_record (real_uid creds) now limiter
                in if \<not> allowed then (None, limiter1)
                   else if real_uid creds \<noteq> c then (None, limiter1)
                   else if \<not> timeout_set then (None, limiter1)
                   else (Some (real_uid creds), limiter1))))"

text \<open>
  One turn of the accept loop: the shutdown flag, the console user when the ownership is applied,
  whether a peer is waiting and is accepted, the reply for its credentials, the console user and the
  clock at the checks, whether the read timeout could be set, and the stream and the steps of the
  connection.
\<close>

record server_turn =
  sv_shutdown :: bool
  sv_console_before :: "u32 option"
  sv_peer_waiting :: bool
  sv_accepted :: bool
  sv_token :: "(audit_token \<times> nat) option"
  sv_console :: "u32 option"
  sv_now :: nat
  sv_timeout_set :: bool
  sv_stream :: "stream_event list"
  sv_steps :: "(u32 option \<times> nat) list"

record server_state =
  ss_owner :: "u32 option"
  ss_limiter :: rate_limiter

definition server_new :: "u32 option \<Rightarrow> server_state" where
  "server_new console =
     \<lparr>ss_owner = fst (apply_socket_ownership console None),
      ss_limiter = rate_limiter_new ACCEPT_RATE_WINDOW ACCEPT_RATE_THRESHOLD\<rparr>"

definition server_accept :: "server_turn \<Rightarrow> server_state \<Rightarrow> u32 option \<times> server_state" where
  "server_accept t st =
     (let st1 = st\<lparr>ss_owner := fst (apply_socket_ownership (sv_console_before t) (ss_owner st))\<rparr>
      in if \<not> sv_peer_waiting t then (None, st1)
         else if \<not> sv_accepted t then (None, st1)
         else
           (let (peer, limiter1) =
              accept_connection (sv_token t) (sv_console t) (sv_now t) (sv_timeout_set t) (ss_limiter st1)
            in (peer, st1\<lparr>ss_limiter := limiter1\<rparr>)))"

fun run_server :: "(native_key list \<Rightarrow> 'e \<Rightarrow> 'e) \<Rightarrow> server_turn list \<Rightarrow> server_state \<Rightarrow> 'e \<Rightarrow> server_state \<times> 'e" where
  "run_server emit [] st e = (st, e)"
| "run_server emit (t # ts) st e =
     (if sv_shutdown t then (st, e)
      else
        (case server_accept t st of
           (Some uid, st1) \<Rightarrow>
             run_server emit ts st1 (handle_connection emit uid (sv_steps t) (sv_stream t) e)
         | (None, st1) \<Rightarrow> run_server emit ts st1 e))"

section \<open>Streams that time out\<close>
text \<open>A stream that only times out, and is not closed before its end.\<close>

definition patient :: "stream_event list \<Rightarrow> bool" where
  "patient es \<longleftrightarrow> smooth es \<and> faults es \<subseteq> {WouldBlock, Interrupted}"

lemma decode_stream_frame:
  assumes "fr_wf r" "fr_max_payload r = MAX_PAYLOAD_LEN" "patient es"
    and eq: "fr_pending r @ stream_bytes es = ipc_encode keys @ rest"
  shows "\<exists>r' es'. patient es' \<and> fr_wf r' \<and> fr_max_payload r' = MAX_PAYLOAD_LEN
    \<and> ((decode_stream r es = (Inr (take MAX_KEYS_PER_FRAME keys), r', es') \<and> fr_pending r' = []
          \<and> stream_bytes es' = rest \<and> length es' \<le> length es)
       \<or> (decode_stream r es = (Inl (IpcIo WouldBlock), r', es') \<and> length es' < length es
          \<and> fr_pending r' @ stream_bytes es' = ipc_encode keys @ rest))"
proof -
  let ?p = "keys_payload keys"
  obtain res r' es' where run: "fr_read_payload r es = (res, r', es')" by (metis surj_pair)
  note out = fr_read_payload_outcome [OF run assms(1)]
  have sm: "smooth es" and f: "faults es \<subseteq> {WouldBlock, Interrupted}"
    using assms(3) by (simp_all add: patient_def)
  have p: "patient es'"
    using smooth_fr_read_payload [OF sm run] fr_read_payload_faults [OF run] f by (auto simp: patient_def)
  have ok: "payload_ok (fr_max_payload r) ?p" using keys_payload_ok assms(2) by simp
  from frame_result [OF run assms(1) sm ok] eq
  have "(res = Inr ?p \<and> fr_idle r' \<and> stream_bytes es' = rest)
    \<or> (\<exists>k. res = Inl (Io k) \<and> fr_wf r' \<and> fr_pending r' @ stream_bytes es' = encode ?p @ rest)"
    by (simp add: ipc_encode_def)
  then show ?thesis
  proof
    assume r: "res = Inr ?p \<and> fr_idle r' \<and> stream_bytes es' = rest"
    then have "decode_stream r es = (Inr (take MAX_KEYS_PER_FRAME keys), r', es')"
      using decode_keys_payload [of "take MAX_KEYS_PER_FRAME keys"] keys_payload_take [of keys] by (simp add: decode_stream_def run)
    with r p out assms(2) show ?thesis by (auto simp: fr_idle_def fr_pending_def)
  next
    assume "\<exists>k. res = Inl (Io k) \<and> fr_wf r' \<and> fr_pending r' @ stream_bytes es' = encode ?p @ rest"
    then obtain k where k: "res = Inl (Io k)" "fr_wf r'" "fr_pending r' @ stream_bytes es' = encode ?p @ rest"
      by blast
    with fr_read_payload_faults [OF run] f have "k = WouldBlock" by auto
    with k p out assms(2) show ?thesis by (auto simp: decode_stream_def run ipc_encode_def)
  qed
qed

section \<open>What a connection emits\<close>

text \<open>The batches handed to the callback, each with the time of its step.\<close>

fun serve_trace ::
  "u32 \<Rightarrow> (u32 option \<times> nat) list \<Rightarrow> frame_reader \<Rightarrow> frame_rate_limiter \<Rightarrow> stream_event list
    \<Rightarrow> (nat \<times> native_key list) list" where
  "serve_trace uid [] r l es = []"
| "serve_trace uid ((c, now) # steps) r l es =
     (if c \<noteq> Some uid then []
      else
        (case decode_stream r es of
           (Inr keys, r1, es1) \<Rightarrow>
             (if fst (frame_check_and_record now l)
              then (now, keys) # serve_trace uid steps r1 (snd (frame_check_and_record now l)) es1 else [])
         | (Inl err, r1, es1) \<Rightarrow> if err = IpcIo WouldBlock then serve_trace uid steps r1 l es1 else []))"

lemma serve_loop_trace:
  "serve_loop emit uid steps r l es e = fold (\<lambda>(_, keys). emit keys) (serve_trace uid steps r l es) e"
  by (induction steps arbitrary: r l es e) (auto simp: case_prod_beta split: sum.splits)

lemma serve_trace_cut:
  "c \<noteq> Some uid \<Longrightarrow> serve_trace uid (steps @ (c, now) # steps') r l es = serve_trace uid steps r l es"
  by (induction steps arbitrary: r l es) (auto split: sum.splits prod.splits)

lemma serve_trace_times: "fst ` set (serve_trace uid steps r l es) \<subseteq> snd ` set steps"
proof (induction steps arbitrary: r l es)
  case (Cons st steps)
  obtain c now where st: "st = (c, now)" by force
  have "\<And>r l es t. t \<in> set (serve_trace uid steps r l es) \<Longrightarrow> fst t \<in> snd ` set steps"
    using Cons by blast
  then show ?case
    by (cases "decode_stream r es"; cases "fst (decode_stream r es)") (auto simp: st split: if_splits)
qed simp

lemma serve_trace_append:
  "\<exists>tail. serve_trace uid (pre @ mid) r l es = serve_trace uid pre r l es @ tail \<and> fst ` set tail \<subseteq> snd ` set mid"
proof (induction pre arbitrary: r l es)
  case Nil
  then show ?case using serve_trace_times by auto
next
  case (Cons st pre)
  obtain c now where st: "st = (c, now)" by force
  show ?case using Cons by (auto simp: st split: sum.splits prod.splits)
qed

text \<open>A frame as a request to the limiter of the connection.\<close>

abbreviation at_time :: "nat \<Rightarrow> unit \<times> nat" where "at_time t \<equiv> ((), t)"

lemma serve_trace_bounded:
  assumes "conn_limiter.up_to_date latest adm l" "sorted (map snd steps)" "\<forall>t \<in> snd ` set steps. latest \<le> t"
    and "\<And>j a. admitted_between j a (a + fl_window l) adm \<le> fl_threshold l"
  shows "admitted_between j a (a + fl_window l) (adm @ map (at_time \<circ> fst) (serve_trace uid steps r l es))
    \<le> fl_threshold l"
  using assms
proof (induction steps arbitrary: latest adm r l es)
  case (Cons st steps)
  obtain c now where st: "st = (c, now)" by force
  let ?l1 = "snd (frame_check_and_record now l)"
  have le: "latest \<le> now" and s: "sorted (map snd steps)" and t: "\<forall>t \<in> snd ` set steps. latest \<le> t"
    "\<forall>t \<in> snd ` set steps. now \<le> t"
    using Cons.prems(2,3) st by auto
  obtain res r1 es1 where d: "decode_stream r es = (res, r1, es1)" by (metis prod.collapse)
  show ?case
  proof (cases res)
    case (Inl err)
    with Cons.IH [OF Cons.prems(1) s t(1) Cons.prems(4)] d st Cons.prems(4) show ?thesis by simp
  next
    case (Inr keys)
    show ?thesis
    proof (cases "c = Some uid \<and> fst (frame_check_and_record now l)")
      case True
      note u = conn_limiter.check_up_to_date [OF Cons.prems(1) le, of "()"]
      note b = conn_limiter.check_bounded [OF Cons.prems(1) le Cons.prems(4), where i = "()"]
      have f: "fl_window ?l1 = fl_window l" "fl_threshold ?l1 = fl_threshold l"
        by (rule conn_limiter.check_fixed)+
      have "admitted_between j a (a + fl_window ?l1) ((adm @ [at_time now]) @ map (at_time \<circ> fst)
          (serve_trace uid steps r1 ?l1 es1)) \<le> fl_threshold ?l1"
      proof (rule Cons.IH [OF _ s t(2)])
        show "conn_limiter.up_to_date now (adm @ [at_time now]) ?l1" using u True by simp
        show "admitted_between j a (a + fl_window ?l1) (adm @ [at_time now]) \<le> fl_threshold ?l1" for j a
          using b [of j a] True f by simp
      qed
      with f st d Inr True show ?thesis by (simp add: comp_def split: if_splits)
    next
      case False
      with st d Inr Cons.prems(4) show ?thesis by auto
    qed
  qed
qed simp

lemma frame_limiter_new:
  "conn_limiter.up_to_date 0 [] (frame_rate_limiter_new w n)"
  "fl_window (frame_rate_limiter_new w n) = w" "fl_threshold (frame_rate_limiter_new w n) = n"
  by (simp_all add: conn_limiter.up_to_date_def frame_rate_limiter_new_def)

lemma decode_stream_nothing:
  assumes "fr_wf r" "fr_pending r @ stream_bytes es = []"
  shows "\<exists>err r' es'. decode_stream r es = (Inl err, r', es')
    \<and> (err = IpcIo WouldBlock \<longrightarrow> fr_wf r' \<and> fr_pending r' @ stream_bytes es' = [])"
proof -
  obtain res r' es' where run: "fr_read_payload r es = (res, r', es')" by (metis surj_pair)
  note out = fr_read_payload_outcome [OF run assms(1), unfolded assms(2)]
  show ?thesis
  proof (cases res)
    case (Inr p)
    with out have "[] = encode p @ stream_bytes es'" by (simp add: read_outcome_def)
    then show ?thesis by (simp add: encode_def)
  next
    case (Inl e)
    with out have "ipc_error_from e = IpcIo WouldBlock \<longrightarrow> fr_wf r' \<and> fr_pending r' @ stream_bytes es' = []"
      by (cases e) (auto simp: read_outcome_def)
    with Inl show ?thesis by (simp add: decode_stream_def run)
  qed
qed

lemma serve_loop_nothing:
  "fr_wf r \<Longrightarrow> fr_pending r @ stream_bytes es = [] \<Longrightarrow> serve_loop emit uid steps r l es e = e"
proof (induction steps arbitrary: r es)
  case (Cons st steps)
  obtain c now where st: "st = (c, now)" by force
  obtain err r' es' where d: "decode_stream r es = (Inl err, r', es')"
    "err = IpcIo WouldBlock \<longrightarrow> fr_wf r' \<and> fr_pending r' @ stream_bytes es' = []"
    using decode_stream_nothing [OF Cons.prems] by blast
  with Cons.IH show ?case by (simp add: st)
qed simp

lemma serve_loop_delivers:
  assumes "fr_wf r" "fr_max_payload r = MAX_PAYLOAD_LEN" "patient es"
    and "fr_pending r @ stream_bytes es = concat (map ipc_encode batches)"
    and "\<forall>s \<in> set steps. fst s = Some uid" "length es + length batches \<le> length steps"
    and "conn_limiter.up_to_date latest adm l" "sorted (map snd steps)" "\<forall>t \<in> snd ` set steps. latest \<le> t"
    and "\<And>a. admitted_between () a (a + fl_window l) (adm @ map (\<lambda>s. at_time (snd s)) steps) \<le> fl_threshold l"
  shows "serve_loop emit uid steps r l es e = fold emit (map (take MAX_KEYS_PER_FRAME) batches) e"
  using assms
proof (induction steps arbitrary: r l es e batches latest adm)
  case Nil
  then show ?case by simp
next
  case (Cons st steps)
  obtain c now where st: "st = (c, now)" by force
  with Cons.prems(5) have c: "c = Some uid" by simp
  have le: "latest \<le> now" and s: "sorted (map snd steps)" and t: "\<forall>t \<in> snd ` set steps. latest \<le> t"
    "\<forall>t \<in> snd ` set steps. now \<le> t"
    using Cons.prems(8,9) st by auto
  show ?case
  proof (cases batches)
    case Nil
    then have "fr_pending r @ stream_bytes es = []" using Cons.prems(4) by simp
    from serve_loop_nothing [OF Cons.prems(1) this] Nil show ?thesis by simp
  next
    case bs: (Cons keys rest)
    with Cons.prems(4) have "fr_pending r @ stream_bytes es = ipc_encode keys @ concat (map ipc_encode rest)" by simp
    from decode_stream_frame [OF Cons.prems(1-3) this] obtain r' es' where r': "patient es'" "fr_wf r'"
      "fr_max_payload r' = MAX_PAYLOAD_LEN"
      and or: "(decode_stream r es = (Inr (take MAX_KEYS_PER_FRAME keys), r', es') \<and> fr_pending r' = []
          \<and> stream_bytes es' = concat (map ipc_encode rest) \<and> length es' \<le> length es)
       \<or> (decode_stream r es = (Inl (IpcIo WouldBlock), r', es') \<and> length es' < length es
          \<and> fr_pending r' @ stream_bytes es' = ipc_encode keys @ concat (map ipc_encode rest))"
      by blast
    let ?l1 = "snd (frame_check_and_record now l)"
    have f: "fl_window ?l1 = fl_window l" "fl_threshold ?l1 = fl_threshold l"
      by (rule conn_limiter.check_fixed)+
    from or show ?thesis
    proof
      assume d: "decode_stream r es = (Inr (take MAX_KEYS_PER_FRAME keys), r', es') \<and> fr_pending r' = []
          \<and> stream_bytes es' = concat (map ipc_encode rest) \<and> length es' \<le> length es"
      have "admitted_between () (now - fl_window l) now adm
          \<le> admitted_between () (now - fl_window l) (now - fl_window l + fl_window l) adm"
        by (rule admitted_between_mono) simp_all
      also have "\<dots> < fl_threshold l"
        using Cons.prems(10) [of "now - fl_window l"] st by (simp add: comp_def split: if_splits)
      finally have ok: "fst (frame_check_and_record now l)"
        using conn_limiter.check_admits [OF Cons.prems(7) le, of "()"] by simp
      have "serve_loop emit uid steps r' ?l1 es' (emit (take MAX_KEYS_PER_FRAME keys) e)
          = fold emit (map (take MAX_KEYS_PER_FRAME) rest) (emit (take MAX_KEYS_PER_FRAME keys) e)"
      proof (rule Cons.IH [OF r'(2,3,1)])
        show "conn_limiter.up_to_date now (adm @ [at_time now]) ?l1"
          using conn_limiter.check_up_to_date [OF Cons.prems(7) le, of "()"] ok by simp
        show "admitted_between () a (a + fl_window ?l1) ((adm @ [at_time now]) @ map (\<lambda>s. at_time (snd s)) steps)
            \<le> fl_threshold ?l1" for a
          using Cons.prems(10) [of a] f st by simp
      qed (use d Cons.prems(5,6) s t bs in auto)
      with d ok c st bs show ?thesis by (simp add: case_prod_beta)
    next
      assume d: "decode_stream r es = (Inl (IpcIo WouldBlock), r', es') \<and> length es' < length es
          \<and> fr_pending r' @ stream_bytes es' = ipc_encode keys @ concat (map ipc_encode rest)"
      have "serve_loop emit uid steps r' l es' e = fold emit (map (take MAX_KEYS_PER_FRAME) batches) e"
      proof (rule Cons.IH [OF r'(2,3,1) _ _ _ Cons.prems(7) s t(1)])
        show "admitted_between () a (a + fl_window l) (adm @ map (\<lambda>s. at_time (snd s)) steps) \<le> fl_threshold l" for a
          using Cons.prems(10) [of a] st by simp
      qed (use d Cons.prems(5,6) bs in auto)
      with d c st show ?thesis by simp
    qed
  qed
qed

section \<open>What the writer sends\<close>

lemma write_rounds_spec:
  assumes "write_rounds ws queue = (res, frames, left)"
  shows "\<exists>n written lost. queue @ concat (map wr_arrived (take n ws)) = written @ lost @ left
    \<and> frames = map ipc_encode written \<and> length lost \<le> 1 \<and> (lost \<noteq> [] \<longleftrightarrow> (\<exists>k. res = WriteFailed k))"
  using assms
proof (induction ws queue arbitrary: res frames left rule: write_rounds.induct)
  case (1 queue)
  then show ?case by (intro exI [of _ 0] exI [of _ "[]"]) auto
next
  case (2 w ws queue)
  show ?case
  proof (cases "wr_shutdown w")
    case True
    with "2.prems" show ?thesis by (intro exI [of _ 1] exI [of _ "[]"]) auto
  next
    case run: False
    show ?thesis
    proof (cases "queue @ wr_arrived w")
      case Nil
      show ?thesis
      proof (cases "wr_disconnected w")
        case True
        with "2.prems" run Nil show ?thesis by (intro exI [of _ 0] exI [of _ "[]"]) auto
      next
        case False
        with "2.prems" run Nil have "write_rounds ws [] = (res, frames, left)" by simp
        from "2.IH"(1) [OF run Nil False this] obtain n written lost where
          "concat (map wr_arrived (take n ws)) = written @ lost @ left" "frames = map ipc_encode written"
          "length lost \<le> 1" "lost \<noteq> [] \<longleftrightarrow> (\<exists>k. res = WriteFailed k)" by auto
        with Nil show ?thesis by - (rule exI [of _ "Suc n"], rule exI [of _ written], rule exI [of _ lost], auto)
      qed
    next
      case q: (Cons keys queue1)
      show ?thesis
      proof (cases "wr_fault w")
        case (Some k)
        with "2.prems" run q show ?thesis
          by - (rule exI [of _ 1], rule exI [of _ "[]"], rule exI [of _ "[keys]"], auto)
      next
        case None
        obtain frames1 where r: "write_rounds ws queue1 = (res, frames1, left)" "frames = ipc_encode keys # frames1"
          using "2.prems" run q None by (auto split: prod.splits)
        from "2.IH"(2) [OF run q refl None r(1)] obtain n written lost where
          "queue1 @ concat (map wr_arrived (take n ws)) = written @ lost @ left" "frames1 = map ipc_encode written"
          "length lost \<le> 1" "lost \<noteq> [] \<longleftrightarrow> (\<exists>k. res = WriteFailed k)" by blast
        note IH = this
        have "queue @ concat (map wr_arrived (take (Suc n) (w # ws)))
            = (queue @ wr_arrived w) @ concat (map wr_arrived (take n ws))" by simp
        also have "\<dots> = (keys # written) @ lost @ left" using q IH(1) by simp
        finally have all: "queue @ concat (map wr_arrived (take (Suc n) (w # ws))) = (keys # written) @ lost @ left" .
        have "frames = map ipc_encode (keys # written)" using r(2) IH(2) by simp
        with all IH(3,4) show ?thesis by blast
      qed
    qed
  qed
qed

lemma writer_attempt_root:
  assumes "writer_attempt a queue = (tr, queue')" "tr_frames tr \<noteq> [] \<or> tr_reachable tr"
  shows "\<exists>token. tr_token tr = Some (token, 32) \<and> at_real_uid token = 0 \<and> at_effective_uid token = 0"
  using assms
  by (auto simp: writer_attempt_def ipc_verify_server_uid_def get_peer_creds_def
      split: option.splits sum.splits prod.splits if_splits)

lemma writer_loop_unreachable: "writer_loop as q False = (trs, q', r) \<Longrightarrow> \<not> r"
  by (induction as arbitrary: q trs q' r) (auto simp: Let_def split: if_splits prod.splits)

section \<open>Properties\<close>

text \<open>
  C14. The channel between the processes, end to end. What the writer thread writes to a connection is, in
  order, what was in the channel and arrived there, up to what is still waiting and at most one batch,
  lost exactly if its write fails. If these bytes reach the root daemon, cut in any way and with any
  read timeouts in between, while the peer stays the console user and the rate limit is kept, then the
  daemon hands exactly these batches to the virtual keyboard, in order, each cut to its first 64 keys.
\<close>
theorem emitter_channel_end_to_end:
  assumes "write_rounds ws queue = (res, frames, left)"
    and "patient es" and "stream_bytes es = concat frames"
    and "\<forall>s \<in> set steps. fst s = Some uid" and "sorted (map snd steps)"
    and "length es + length frames \<le> length steps"
    and "\<forall>a. length (filter (\<lambda>s. a \<le> snd s \<and> snd s \<le> a + FRAME_RATE_WINDOW) steps) \<le> FRAME_RATE_THRESHOLD"
  shows "\<exists>n written lost. queue @ concat (map wr_arrived (take n ws)) = written @ lost @ left
    \<and> frames = map ipc_encode written \<and> length lost \<le> 1 \<and> (lost \<noteq> []) = (\<exists>k. res = WriteFailed k)
    \<and> handle_connection emit_batch_keys uid steps es conn
        = fold emit_batch_keys (map (take MAX_KEYS_PER_FRAME) written) conn"
proof -
  from write_rounds_spec [OF assms(1)] obtain n written lost where w:
    "queue @ concat (map wr_arrived (take n ws)) = written @ lost @ left"
    "frames = map ipc_encode written" "length lost \<le> 1" "(lost \<noteq> []) = (\<exists>k. res = WriteFailed k)" by blast
  have idle: "fr_wf (fr_new MAX_PAYLOAD_LEN)" "fr_pending (fr_new MAX_PAYLOAD_LEN) = []"
    using fr_idle_new [of MAX_PAYLOAD_LEN] fr_idle_pending by (auto simp: fr_idle_def)
  have m: "fr_max_payload (fr_new MAX_PAYLOAD_LEN) = MAX_PAYLOAD_LEN" by (simp add: fr_new_def)
  have b: "fr_pending (fr_new MAX_PAYLOAD_LEN) @ stream_bytes es = concat (map ipc_encode written)"
    using assms(3) w(2) idle(2) by simp
  have "length es + length written \<le> length steps" using assms(6) w(2) by simp
  from serve_loop_delivers [OF idle(1) m assms(2) b assms(4) this frame_limiter_new(1) assms(5),
      of FRAME_RATE_WINDOW FRAME_RATE_THRESHOLD emit_batch_keys conn] assms(7)
  have "handle_connection emit_batch_keys uid steps es conn
      = fold emit_batch_keys (map (take MAX_KEYS_PER_FRAME) written) conn"
    by (simp add: handle_connection_def frame_limiter_new admitted_between_def filter_map comp_def)
  with w show ?thesis by blast
qed

lemma emitter_channel_end_to_end_witness:
  "handle_connection emit_batch_keys 501 (replicate 4 (Some 501, 7))
     [Chunk (take 2 (ipc_encode [\<lparr>nk_modifiers = 2, nk_usage = A_key\<rparr>])), Fault WouldBlock,
      Chunk (drop 2 (ipc_encode [\<lparr>nk_modifiers = 2, nk_usage = A_key\<rparr>]))] kc_new
   = emit_batch_keys [\<lparr>nk_modifiers = 2, nk_usage = A_key\<rparr>] kc_new"
proof -
  let ?k = "[\<lparr>nk_modifiers = 2, nk_usage = A_key\<rparr>]"
  let ?ws = "[\<lparr>wr_shutdown = False, wr_arrived = [?k], wr_disconnected = False, wr_fault = None\<rparr>,
    \<lparr>wr_shutdown = True, wr_arrived = [], wr_disconnected = False, wr_fault = None\<rparr>]"
  let ?es = "[Chunk (take 2 (ipc_encode ?k)), Fault WouldBlock, Chunk (drop 2 (ipc_encode ?k))]"
  have run: "write_rounds ?ws [] = (WriteDone, [ipc_encode ?k], [])" by simp
  have l: "2 < length (ipc_encode ?k)" by (simp add: ipc_encode_def encode_def)
  have p: "patient ?es"
    using l by (auto simp: patient_def smooth_def faults_def)
  have "\<exists>n written lost. [] @ concat (map wr_arrived (take n ?ws)) = written @ lost @ []
    \<and> [ipc_encode ?k] = map ipc_encode written \<and> length lost \<le> 1
    \<and> (lost \<noteq> []) = (\<exists>k. WriteDone = WriteFailed k)
    \<and> handle_connection emit_batch_keys 501 (replicate 4 (Some 501, 7)) ?es kc_new
        = fold emit_batch_keys (map (take MAX_KEYS_PER_FRAME) written) kc_new"
    by (rule emitter_channel_end_to_end [OF run p])
      (simp_all add: FRAME_RATE_THRESHOLD_def numeral_eq_Suc le_SucI)
  then obtain n written where n: "concat (map wr_arrived (take n ?ws)) = written" "length written = 1"
    "handle_connection emit_batch_keys 501 (replicate 4 (Some 501, 7)) ?es kc_new
       = fold emit_batch_keys (map (take MAX_KEYS_PER_FRAME) written) kc_new"
    by (auto dest: arg_cong [where f = length])
  have "written = [?k]" using n(1,2) by (cases n; cases "n - 1") simp_all
  with n(3) show ?thesis by (simp add: MAX_KEYS_PER_FRAME_def)
qed

text \<open>
  C15. The root daemon types for the console user only. A connection is served only to a peer whose real uid,
  taken from an audit token of full length, is the console user's; from the first step on at which
  the console user is another one, whether a frame arrives or the connection is idle, nothing more is
  emitted for it.
\<close>
theorem serves_console_user_only:
  "(server_accept t st = (Some uid, st') \<longrightarrow>
      sv_console t = Some uid \<and> (\<exists>token. sv_token t = Some (token, 32) \<and> at_real_uid token = uid))
   \<and> (c \<noteq> Some uid \<longrightarrow>
      handle_connection emit uid (steps @ (c, now) # steps') es e = handle_connection emit uid steps es e)"
proof
  show "server_accept t st = (Some uid, st') \<longrightarrow>
      sv_console t = Some uid \<and> (\<exists>token. sv_token t = Some (token, 32) \<and> at_real_uid token = uid)"
    by (auto simp: server_accept_def accept_connection_def get_peer_creds_def Let_def
        split: if_splits option.splits prod.splits sum.splits)
  show "c \<noteq> Some uid \<longrightarrow>
      handle_connection emit uid (steps @ (c, now) # steps') es e = handle_connection emit uid steps es e"
    by (simp add: handle_connection_def serve_loop_trace serve_trace_cut)
qed

lemma serves_console_user_only_witness:
  "handle_connection (\<lambda>_. Suc) 501 ([] @ (Some 502, 7) # [(Some 501, 8)]) [Chunk [1]] (0 :: nat) = 0"
  using serves_console_user_only [of undefined undefined 501 undefined "Some 502" "\<lambda>_. Suc" "[]" 7 "[(Some 501, 8)]"
      "[Chunk [1]]" "0 :: nat"]
  by (simp add: handle_connection_def)

text \<open>
  The emission rate of a connection is bounded: in no interval of a second does a connection have more
  than a thousand frames emitted, whatever the peer sends.
\<close>
theorem emission_rate_bounded:
  assumes "sorted (map snd (steps @ steps'))"
    and "\<forall>s \<in> set steps'. a \<le> snd s \<and> snd s \<le> a + FRAME_RATE_WINDOW"
  shows "handle_connection (\<lambda>_. Suc) uid (steps @ steps') es 0
    \<le> handle_connection (\<lambda>_. Suc) uid steps es 0 + FRAME_RATE_THRESHOLD"
proof -
  let ?r = "fr_new MAX_PAYLOAD_LEN" and ?l = "frame_rate_limiter_new FRAME_RATE_WINDOW FRAME_RATE_THRESHOLD"
  have count: "handle_connection (\<lambda>_. Suc) uid ss es 0 = length (serve_trace uid ss ?r ?l es)" for ss
  proof -
    have "fold (\<lambda>(_, keys). Suc) tr n = n + length tr" for tr :: "(nat \<times> native_key list) list" and n
      by (induction tr arbitrary: n) auto
    then show ?thesis by (simp add: handle_connection_def serve_loop_trace)
  qed
  from serve_trace_append obtain tail where tail:
    "serve_trace uid (steps @ steps') ?r ?l es = serve_trace uid steps ?r ?l es @ tail"
    "fst ` set tail \<subseteq> snd ` set steps'" by blast
  have "admitted_between () a (a + FRAME_RATE_WINDOW)
      (map (at_time \<circ> fst) (serve_trace uid (steps @ steps') ?r ?l es)) \<le> FRAME_RATE_THRESHOLD"
    using serve_trace_bounded [OF frame_limiter_new(1) assms(1), where j = "()"]
    by (simp add: frame_limiter_new)
  moreover have "length tail = admitted_between () a (a + FRAME_RATE_WINDOW) (map (at_time \<circ> fst) tail)"
  proof -
    have "\<forall>x \<in> set tail. a \<le> fst x \<and> fst x \<le> a + FRAME_RATE_WINDOW" using tail(2) assms(2) by fastforce
    then show ?thesis by (simp add: admitted_between_def filter_map comp_def)
  qed
  ultimately show ?thesis unfolding count tail(1) by simp
qed

lemma emission_rate_bounded_witness:
  "handle_connection (\<lambda>_. Suc) 501 ([] @ [(Some 501, 7)]) [Chunk (ipc_encode [])] 0 \<le> 0 + FRAME_RATE_THRESHOLD"
  using emission_rate_bounded [of "[]" "[(Some 501, 7)]" 7 501 "[Chunk (ipc_encode [])]"]
  by (simp add: FRAME_RATE_WINDOW_def handle_connection_def)

text \<open>
  Keystrokes are written to a genuine root server only: over any run of the writer thread, a connection
  on which frames are written, or during which the daemon takes the emitter to be reachable, has a peer
  whose real and effective uid, from an audit token of full length, are both 0; so a setuid program in
  the place of the server gets nothing. When the thread sleeps or has ended, the emitter is unreachable.
\<close>
theorem frames_only_to_root_server:
  assumes "writer_loop as queue r = (trs, left, r')" and "tr \<in> set trs"
    and "tr_frames tr \<noteq> [] \<or> tr_reachable tr"
  shows "(\<exists>token. tr_token tr = Some (token, 32) \<and> at_real_uid token = 0 \<and> at_effective_uid token = 0) \<and> \<not> r'"
  using assms
proof (induction as arbitrary: queue r trs left r')
  case (Cons a as)
  obtain tr1 queue1 where a: "writer_attempt a queue = (tr1, queue1)" by force
  show ?case
  proof (cases "tr = tr1")
    case True
    with Cons.prems a writer_attempt_root [OF a] show ?thesis
      by (auto simp: Let_def dest: writer_loop_unreachable split: if_splits prod.splits)
  next
    case False
    with Cons.prems(1,2) a obtain trs1 where "writer_loop as (queue1 @ wa_late a) False = (trs1, left, r')" "tr \<in> set trs1"
      by (auto simp: Let_def split: if_splits prod.splits)
    from Cons.IH [OF this Cons.prems(3)] show ?thesis .
  qed
qed simp

lemma frames_only_to_root_server_witness:
  "\<exists>token. Some ([0, 0, 0, 0, 0, 99, 0, 0 :: u32], 32 :: nat) = Some (token, 32) \<and> at_real_uid token = 0"
proof -
  let ?w = "\<lparr>wr_shutdown = False, wr_arrived = [], wr_disconnected = True, wr_fault = None\<rparr>"
  let ?a = "\<lparr>wa_shutdown = False, wa_connect_error = None, wa_token = Some ([0, 0, 0, 0, 0, 99, 0, 0], 32),
    wa_timeout_error = None, wa_rounds = [?w], wa_late = [], wa_shutdown_after = True\<rparr>"
  let ?tr = "\<lparr>tr_token = Some ([0, 0, 0, 0, 0, 99, 0, 0], 32), tr_reachable = True, tr_frames = [ipc_encode []]\<rparr>"
  have run: "writer_loop [?a] [[]] False = ([?tr], [], False)"
    by (simp add: writer_attempt_def ipc_verify_server_uid_def get_peer_creds_def at_real_uid_def
        at_effective_uid_def write_loop_def Let_def)
  from frames_only_to_root_server [OF run, of ?tr] show ?thesis by simp
qed

end
