(* ===== verification/Mac_Mapping.thy ===== *)
theory Mac_Mapping
  imports Mac_Capture Mac_Ipc
begin

text \<open>
  \<open>src/platform/macos/mapping.rs\<close>: the event tap of the user's daemon. It decides every keyboard event
  with the engine, hands the outputs of a mapped key to the channel of \<open>Mac_Ipc\<close>, and recognises the
  keys that the virtual keyboard types when they come back through the tap, by the sequence the
  echo tracker predicted for them. Instants are milliseconds.
\<close>

section \<open>The echo tracker\<close>

record echo_event =
  ee_usage :: hid_usage
  ee_is_down :: bool

definition ECHO_WINDOW :: nat where "ECHO_WINDOW = 500"

record echo_tracker =
  et_pending :: "(nat \<times> echo_event) list"

definition echo_new :: echo_tracker where
  "echo_new = \<lparr>et_pending = []\<rparr>"

definition mac_modifier_usage :: "u8 \<Rightarrow> hid_usage option" where
  "mac_modifier_usage b = Option.bind (try_from_bit b) (\<lambda>role. hid_keyboard (role_hid_id role))"

text \<open>The press and the release loop over the output modifiers: the events they push.\<close>

fun echo_bits :: "u8 \<Rightarrow> bool \<Rightarrow> u8 list \<Rightarrow> echo_event list" where
  "echo_bits modifiers down [] = []"
| "echo_bits modifiers down (b # bs) =
     (if drop_bit (unat b) modifiers AND 1 = 1 then
        (case mac_modifier_usage b of
           None \<Rightarrow> echo_bits modifiers down bs
         | Some usage \<Rightarrow> \<lparr>ee_usage = usage, ee_is_down = down\<rparr> # echo_bits modifiers down bs)
      else echo_bits modifiers down bs)"

definition key_echo :: "native_key \<Rightarrow> echo_event list" where
  "key_echo nk =
     (if hid_page (nk_usage nk) \<noteq> PAGE_KEYBOARD then []
      else echo_bits (nk_modifiers nk) True mask_bits
        @ [\<lparr>ee_usage = nk_usage nk, ee_is_down = True\<rparr>, \<lparr>ee_usage = nk_usage nk, ee_is_down = False\<rparr>]
        @ echo_bits (nk_modifiers nk) False (rev mask_bits))"

definition echo_record :: "native_key list \<Rightarrow> nat \<Rightarrow> echo_tracker \<Rightarrow> echo_tracker" where
  "echo_record outputs now t =
     t\<lparr>et_pending := et_pending t @ map (Pair now) (concat (map key_echo outputs))\<rparr>"

definition echo_matches :: "hid_usage \<Rightarrow> bool \<Rightarrow> nat \<Rightarrow> echo_tracker \<Rightarrow> bool \<times> echo_tracker" where
  "echo_matches usage down now t =
     (let pending = dropWhile (\<lambda>(recorded, _). now - recorded > ECHO_WINDOW) (et_pending t)
      in case pending of
           (_, head) # rest \<Rightarrow>
             (if head = \<lparr>ee_usage = usage, ee_is_down = down\<rparr> then (True, t\<lparr>et_pending := rest\<rparr>)
              else (False, t\<lparr>et_pending := pending\<rparr>))
         | [] \<Rightarrow> (False, t\<lparr>et_pending := []\<rparr>))"

section \<open>The emitter\<close>

record mac_emitter =
  me_tx :: batch_channel
  me_echo :: echo_tracker

definition mac_consumed_release :: consumed_release_fate where
  "mac_consumed_release = CrPassThrough"

definition emit_batch :: "native_key list \<Rightarrow> nat \<Rightarrow> mac_emitter \<Rightarrow> mac_emitter" where
  "emit_batch outputs now em =
     (let (sent, ch) = try_send_batch outputs (me_tx em); em1 = em\<lparr>me_tx := ch\<rparr>
      in if sent then em1\<lparr>me_echo := echo_record outputs now (me_echo em1)\<rparr> else em1)"

definition mac_emit :: "device_action \<Rightarrow> nat \<Rightarrow> mac_emitter \<Rightarrow> mac_emitter" where
  "mac_emit action now em =
     (case action of
        Forward _ _ \<Rightarrow> em
      | OutReleaseConsumed _ \<Rightarrow> em
      | OutTap nk \<Rightarrow> emit_batch [nk] now em
      | OutHold nk \<Rightarrow> emit_batch [nk] now em)"

section \<open>The tap callback\<close>

record tap_context =
  tc_engine :: "hid_usage engine"
  tc_emitter :: mac_emitter
  tc_tap_port :: bool
  tc_tap_enabled :: bool
  tc_scanner :: mac_scanner

text \<open>
  What the callback meets besides the event: the state of the shared lookup, the clock at the echo check
  and at the emission, and the reachability flag of the writer thread.
\<close>

record 's tap_env =
  te_lookup :: 's
  te_now :: nat
  te_emit_now :: nat
  te_reachable :: bool

datatype tap_result = TapPass | TapSwallow

text \<open>The part after the decode: the echo check, the decision, and its plan.\<close>

definition tap_key ::
  "'s lookup \<Rightarrow> 's tap_env \<Rightarrow> hid_usage \<Rightarrow> bool \<Rightarrow> tap_context \<Rightarrow> tap_result \<times> 's \<times> tap_context" where
  "tap_key lk env usage down ctx =
     (let (echoed, echo) = echo_matches usage down (te_now env) (me_echo (tc_emitter ctx));
          ctx1 = ctx\<lparr>tc_emitter := (tc_emitter ctx)\<lparr>me_echo := echo\<rparr>\<rparr>
      in if echoed then (TapPass, te_lookup env, ctx1)
         else
           (let (d, e, ls) = decide lk (te_lookup env) usage usage down None (te_reachable env) (tc_engine ctx1);
                ctx2 = ctx1\<lparr>tc_engine := e\<rparr>
            in case ep_input (plan_of d mac_consumed_release) of
                 InputForward \<Rightarrow> (TapPass, ls, ctx2)
               | InputSwallow \<Rightarrow> (TapSwallow, ls, ctx2)
               | InputSilent \<Rightarrow>
                   (TapSwallow, ls,
                    case d of
                      Emit _ outputs \<Rightarrow> ctx2\<lparr>tc_emitter := emit_batch outputs (te_emit_now env) (tc_emitter ctx2)\<rparr>
                    | _ \<Rightarrow> ctx2)))"

definition tap_callback ::
  "'s lookup \<Rightarrow> 's tap_env \<Rightarrow> cg_event_type \<Rightarrow> cg_event \<Rightarrow> tap_context \<Rightarrow> tap_result \<times> 's \<times> tap_context" where
  "tap_callback lk env event_type event ctx =
     (if event_type = CgTapDisabledByTimeout \<or> event_type = CgTapDisabledByUserInput then
        (TapPass, te_lookup env, if tc_tap_port ctx then ctx\<lparr>tc_tap_enabled := True\<rparr> else ctx)
      else
        (let (captured, scanner) = mac_on_event event_type event (tc_scanner ctx);
             ctx1 = ctx\<lparr>tc_scanner := scanner\<rparr>
         in case captured of
              None \<Rightarrow> (TapPass, te_lookup env, ctx1)
            | Some k \<Rightarrow>
                (case ck_usage k of
                   None \<Rightarrow> (TapPass, te_lookup env, ctx1)
                 | Some usage \<Rightarrow> tap_key lk env usage (ck_direction k \<noteq> DirUp) ctx1)))"

text \<open>The context \<open>start_mapping\<close> builds, once the tap is created and enabled.\<close>

definition tap_context_new :: "cg_flags \<Rightarrow> tap_context" where
  "tap_context_new flags_state =
     \<lparr>tc_engine = engine_new,
      tc_emitter = \<lparr>me_tx = \<lparr>bc_queue = [], bc_open = True\<rparr>, me_echo = echo_new\<rparr>,
      tc_tap_port = True, tc_tap_enabled = True, tc_scanner = mac_scanner_new flags_state\<rparr>"

section \<open>The echo is what the reports show\<close>

text \<open>
  The keys a report shows pressed, in the order of the modifier bits, then the usages; and the key events
  a system derives from one report after another.
\<close>

definition report_usages :: "u8 \<times> u16 list \<Rightarrow> hid_usage list" where
  "report_usages r =
     map (\<lambda>b. modifier_usages ! b) (filter (\<lambda>b. b \<in> bits_of (fst r)) [0..<8])
     @ List.map_filter hid_keyboard (snd r)"

definition report_step :: "u8 \<times> u16 list \<Rightarrow> u8 \<times> u16 list \<Rightarrow> echo_event list" where
  "report_step r r' =
     map (\<lambda>u. \<lparr>ee_usage = u, ee_is_down = True\<rparr>) (filter (\<lambda>u. u \<notin> set (report_usages r)) (report_usages r'))
     @ map (\<lambda>u. \<lparr>ee_usage = u, ee_is_down = False\<rparr>) (filter (\<lambda>u. u \<notin> set (report_usages r')) (report_usages r))"

fun report_events :: "u8 \<times> u16 list \<Rightarrow> (u8 \<times> u16 list) list \<Rightarrow> echo_event list" where
  "report_events r [] = []"
| "report_events r (r' # rs) = report_step r r' @ report_events r' rs"

lemma report_events_append:
  "report_events r (rs @ rs') = report_events r rs @ report_events (last (r # rs)) rs'"
  by (induction r rs rule: report_events.induct) auto

lemma modifier_usage_bit: "mac_modifier_usage b = (if unat b < 8 then Some (modifier_usages ! unat b) else None)"
proof (cases "unat b < 8")
  case True
  then obtain r where "role_bit r = b" using role_of_bit [of b] by (auto simp: word_less_nat_alt)
  moreover obtain m where "mod_role m = r" by (cases r) (metis mod_role.simps)+
  ultimately have "mac_modifier_usage b = Some (ModifierUsage m)"
    by (auto simp: mac_modifier_usage_def hid_keyboard_modifier)
  moreover have "modifier_usages ! unat b = ModifierUsage m"
    using \<open>mod_role m = r\<close> \<open>role_bit r = b\<close> by (cases m) (auto simp: modifier_usages_def)
  ultimately show ?thesis using True by simp
next
  case False
  then have "try_from_bit b = None" using role_bit_bound try_from_bit_SomeD by (metis not_Some_eq)
  with False show ?thesis by (simp add: mac_modifier_usage_def)
qed

lemma echo_bits_map:
  "\<forall>b \<in> set bs. unat b < 8 \<Longrightarrow> echo_bits ms down bs =
     map (\<lambda>b. \<lparr>ee_usage = modifier_usages ! b, ee_is_down = down\<rparr>) (filter (\<lambda>b. b \<in> bits_of ms) (map unat bs))"
  by (induction bs) (auto simp: modifier_usage_bit shifted_bit bits_of_iff)

lemma mask_bits_upt: "map unat mask_bits = [0..<8]"
  by (simp add: mask_bits_def upt_rec)

lemma mask_bits_bound: "\<forall>b \<in> set mask_bits. unat b < 8"
  using mask_bits_positions by blast

lemma modifier_usages_inject: "a < 8 \<Longrightarrow> b < 8 \<Longrightarrow> modifier_usages ! a = modifier_usages ! b \<longleftrightarrow> a = b"
  using nth_eq_iff_index_eq [of modifier_usages a b] by (simp add: modifier_usages_def)

lemma modifier_step:
  assumes "b < 8"
  shows "b \<notin> bits_of ms \<Longrightarrow> report_step (ms, []) (ms OR 2 ^ b, []) = [\<lparr>ee_usage = modifier_usages ! b, ee_is_down = True\<rparr>]"
    and "b \<in> bits_of ms \<Longrightarrow> report_step (ms, []) (ms AND NOT (2 ^ b), []) = [\<lparr>ee_usage = modifier_usages ! b, ee_is_down = False\<rparr>]"
proof -
  have one: "filter (\<lambda>x. x = b) [0..<8] = [b]"
    using assms by (auto simp: upt_rec numeral_eq_Suc less_Suc_eq)
  have step: "map (\<lambda>u. \<lparr>ee_usage = u, ee_is_down = d\<rparr>) (filter (\<lambda>u. u \<notin> set (report_usages (m, []))) (report_usages (m', [])))
      = map (\<lambda>b. \<lparr>ee_usage = modifier_usages ! b, ee_is_down = d\<rparr>) (filter (\<lambda>x. x \<in> bits_of m' - bits_of m) [0..<8])"
    for m m' :: u8 and d
    by (auto simp: report_usages_def map_filter_simps filter_map comp_def filter_filter modifier_usages_inject
        intro!: arg_cong [where f = "map _"] filter_cong)
  show "b \<notin> bits_of ms \<Longrightarrow> report_step (ms, []) (ms OR 2 ^ b, []) = [\<lparr>ee_usage = modifier_usages ! b, ee_is_down = True\<rparr>]"
  proof -
    assume "b \<notin> bits_of ms"
    then have "bits_of (ms OR 2 ^ b) - bits_of ms = {b}" "bits_of ms - bits_of (ms OR 2 ^ b) = {}"
      using assms by (auto simp: bits_of_single)
    then show ?thesis unfolding report_step_def step using one by (auto simp: filter_empty_conv simp del: bits_of_or)
  qed
  show "b \<in> bits_of ms \<Longrightarrow> report_step (ms, []) (ms AND NOT (2 ^ b), []) = [\<lparr>ee_usage = modifier_usages ! b, ee_is_down = False\<rparr>]"
  proof -
    assume "b \<in> bits_of ms"
    then have "bits_of (ms AND NOT (2 ^ b)) - bits_of ms = {}" "bits_of ms - bits_of (ms AND NOT (2 ^ b)) = {b}"
      using assms by (auto simp: bits_of_single bits_of_and_not simp del: bits_of_and)
    then show ?thesis unfolding report_step_def step using one
      by (auto simp: filter_empty_conv simp del: bits_of_and bits_of_and_not)
  qed
qed

lemma press_events:
  assumes "press_reports om bs ms = (rs, ms')" "distinct bs" "\<forall>b \<in> set bs. b < 8 \<and> b \<notin> bits_of ms"
  shows "report_events (ms, []) rs =
      map (\<lambda>b. \<lparr>ee_usage = modifier_usages ! b, ee_is_down = True\<rparr>) (filter (\<lambda>b. b \<in> bits_of om) bs)
    \<and> last ((ms, []) # rs) = (ms', [])"
  using assms
proof (induction bs arbitrary: ms rs)
  case (Cons b bs)
  show ?case
  proof (cases "b \<in> bits_of om")
    case False
    then show ?thesis using Cons.prems Cons.IH [of ms rs] by (auto simp: shifted_bit_u8)
  next
    case True
    let ?ms1 = "ms OR 2 ^ b"
    obtain rs1 where r: "press_reports om bs ?ms1 = (rs1, ms')" "rs = (?ms1, []) # rs1"
      using Cons.prems(1) True by (cases "press_reports om bs ?ms1") (auto simp: shifted_bit_u8 Let_def)
    have "\<forall>b' \<in> set bs. b' < 8 \<and> b' \<notin> bits_of ?ms1"
      using Cons.prems(2,3) by (auto simp: bits_of_single)
    from Cons.IH [OF r(1) _ this] Cons.prems(2,3) r(2) True show ?thesis
      by (simp add: modifier_step)
  qed
qed simp

lemma release_events:
  assumes "distinct bs" "\<forall>b \<in> set bs. b < 8 \<and> (b \<in> bits_of om \<longrightarrow> b \<in> bits_of ms)"
  shows "report_events (ms, []) (release_reports om bs ms) =
      map (\<lambda>b. \<lparr>ee_usage = modifier_usages ! b, ee_is_down = False\<rparr>) (filter (\<lambda>b. b \<in> bits_of om) bs)"
  using assms
proof (induction bs arbitrary: ms)
  case (Cons b bs)
  show ?case
  proof (cases "b \<in> bits_of om")
    case False
    then show ?thesis using Cons.prems Cons.IH [of ms] by (auto simp: shifted_bit_u8)
  next
    case True
    let ?ms1 = "ms AND NOT (2 ^ b)"
    have ms1: "bits_of ?ms1 = bits_of ms - {b}"
      using Cons.prems(2) by (simp add: bits_of_and_not bits_of_single del: bits_of_and)
    have "\<forall>b' \<in> set bs. b' < 8 \<and> (b' \<in> bits_of om \<longrightarrow> b' \<in> bits_of ?ms1)"
      using Cons.prems unfolding ms1 by auto
    from Cons.IH [OF _ this] Cons.prems True show ?thesis
      by (simp add: shifted_bit_u8 Let_def modifier_step)
  qed
qed simp

lemma base_step:
  assumes "hid_keyboard i = Some u" "\<forall>b \<in> bits_of ms. u \<noteq> modifier_usages ! b"
  shows "report_step (ms, []) (ms, [i]) = [\<lparr>ee_usage = u, ee_is_down = True\<rparr>]"
    and "report_step (ms, [i]) (ms, []) = [\<lparr>ee_usage = u, ee_is_down = False\<rparr>]"
  using assms by (auto simp: report_step_def report_usages_def map_filter_simps filter_empty_conv)

lemma sequence_events:
  assumes "hid_page (nk_usage nk) = PAGE_KEYBOARD" "\<forall>b \<in> bits_of (nk_modifiers nk). nk_usage nk \<noteq> modifier_usages ! b"
  shows "report_events (0, []) (keyboard_report_sequence nk) = key_echo nk"
proof -
  let ?om = "nk_modifiers nk" and ?i = "hid_id (nk_usage nk)"
  obtain downs ms where p: "press_reports ?om [0..<8] 0 = (downs, ms)" by force
  have d: "report_events (0, []) downs = echo_bits ?om True mask_bits" "last ((0, []) # downs) = (ms, [])"
    using press_events [OF p] by (simp_all add: echo_bits_map [OF mask_bits_bound] mask_bits_upt)
  have "bits_of ms = {b \<in> set [0..<8]. b \<in> bits_of ?om}" using press_reports_spec [OF p] by simp
  then have ms: "bits_of ms = bits_of ?om" using bits_of_bound by auto
  have kb: "hid_keyboard ?i = Some (nk_usage nk)"
    using hid_code_round_trip [of _ "nk_usage nk"] assms(1) by auto
  have "rev [0..<8] = map unat (rev mask_bits)" by (metis mask_bits_upt rev_map)
  then have r: "report_events (ms, []) (release_reports ?om (rev [0..<8]) ms) = echo_bits ?om False (rev mask_bits)"
    using release_events [of "map unat (rev mask_bits)" ?om ms] ms mask_bits_bound
    by (simp add: echo_bits_map) (simp add: rev_map [symmetric] mask_bits_upt)
  have base: "\<forall>b \<in> bits_of ms. nk_usage nk \<noteq> modifier_usages ! b" using assms(2) ms by simp
  show ?thesis
    using assms(1) d r base_step [OF kb base]
    by (simp add: keyboard_report_sequence_def p Let_def report_events_append key_echo_def del: upt_rec)
qed

section \<open>What the scanner makes of an event\<close>

text \<open>The key event an event of the tap stands for, if the scanner can tell.\<close>

definition tap_scan :: "cg_event_type \<Rightarrow> cg_event \<Rightarrow> mac_scanner \<Rightarrow> echo_event option \<times> mac_scanner" where
  "tap_scan event_type event sc =
     (if event_type = CgTapDisabledByTimeout \<or> event_type = CgTapDisabledByUserInput then (None, sc)
      else (let (captured, sc') = mac_on_event event_type event sc
            in (Option.bind captured (\<lambda>k. map_option (\<lambda>u. \<lparr>ee_usage = u, ee_is_down = (ck_direction k \<noteq> DirUp)\<rparr>)
                  (ck_usage k)), sc')))"

lemma tap_callback_scan:
  "tap_scan event_type event (tc_scanner ctx) = (None, sc') \<Longrightarrow>
     \<exists>b. tap_callback lk env event_type event ctx =
       (TapPass, te_lookup env, ctx\<lparr>tc_scanner := sc', tc_tap_enabled := b\<rparr>)"
  "tap_scan event_type event (tc_scanner ctx) = (Some ee, sc') \<Longrightarrow>
     tap_callback lk env event_type event ctx =
       tap_key lk env (ee_usage ee) (ee_is_down ee) (ctx\<lparr>tc_scanner := sc'\<rparr>)"
  by (cases "mac_on_event event_type event (tc_scanner ctx)";
      auto simp: tap_scan_def tap_callback_def Let_def bind_eq_Some_conv split: if_splits option.splits bind_splits
        intro: exI [of _ True] exI [of _ "tc_tap_enabled ctx"])+

abbreviation pending :: "tap_context \<Rightarrow> (nat \<times> echo_event) list" where
  "pending ctx \<equiv> et_pending (me_echo (tc_emitter ctx))"

text \<open>What the tap does with an event of the user, by the decision of the engine.\<close>

definition result_of :: "decision \<Rightarrow> tap_result" where
  "result_of d = (if ep_input (plan_of d mac_consumed_release) = InputForward then TapPass else TapSwallow)"

lemma echo_matches_in_time:
  assumes "et_pending t \<noteq> [] \<longrightarrow> now \<le> fst (hd (et_pending t)) + ECHO_WINDOW"
  shows "echo_matches u d now t =
    (if et_pending t \<noteq> [] \<and> snd (hd (et_pending t)) = \<lparr>ee_usage = u, ee_is_down = d\<rparr>
     then (True, t\<lparr>et_pending := tl (et_pending t)\<rparr>) else (False, t))"
proof -
  have "dropWhile (\<lambda>(recorded, _). now - recorded > ECHO_WINDOW) (et_pending t) = et_pending t"
    using assms by (cases "et_pending t") auto
  then show ?thesis by (cases "et_pending t") (auto simp: echo_matches_def Let_def)
qed

text \<open>The batches a decision puts into the channel.\<close>

definition sent_batches :: "decision \<Rightarrow> batch_channel \<Rightarrow> native_key list list" where
  "sent_batches d ch =
     (case d of
        Emit _ outputs \<Rightarrow> (if bc_open ch \<and> length (bc_queue ch) < CHANNEL_CAPACITY then [outputs] else [])
      | _ \<Rightarrow> [])"

abbreviation channel :: "tap_context \<Rightarrow> batch_channel" where
  "channel ctx \<equiv> me_tx (tc_emitter ctx)"

lemma emit_batch_sent:
  "me_tx (emit_batch outputs now em) =
     (me_tx em)\<lparr>bc_queue := bc_queue (me_tx em) @ sent_batches (Emit r outputs) (me_tx em)\<rparr>"
  "et_pending (me_echo (emit_batch outputs now em)) = et_pending (me_echo em)
     @ map (Pair now) (concat (map key_echo (concat (sent_batches (Emit r outputs) (me_tx em)))))"
  by (auto simp: emit_batch_def try_send_batch_def sent_batches_def echo_record_def Let_def)

lemma tap_key_user:
  assumes "pending ctx \<noteq> [] \<longrightarrow> te_now env \<le> fst (hd (pending ctx)) + ECHO_WINDOW"
    and "\<not> (pending ctx \<noteq> [] \<and> snd (hd (pending ctx)) = \<lparr>ee_usage = u, ee_is_down = dn\<rparr>)"
    and "decide lk (te_lookup env) u u dn None (te_reachable env) (tc_engine ctx) = (d, e, ls)"
  shows "\<exists>ctx'. tap_key lk env u dn ctx = (result_of d, ls, ctx') \<and> tc_engine ctx' = e \<and> tc_scanner ctx' = tc_scanner ctx
    \<and> channel ctx' = (channel ctx)\<lparr>bc_queue := bc_queue (channel ctx) @ sent_batches d (channel ctx)\<rparr>
    \<and> pending ctx' = pending ctx
        @ map (Pair (te_emit_now env)) (concat (map key_echo (concat (sent_batches d (channel ctx)))))"
proof -
  note m = echo_matches_in_time [OF assms(1), of u dn]
  show ?thesis
  proof (cases d)
    case (Emit r os)
    then show ?thesis
      using assms m emit_batch_sent(1) [of os "te_emit_now env" "tc_emitter ctx" r]
        emit_batch_sent(2) [of os "te_emit_now env" "tc_emitter ctx" r]
      by (simp add: tap_key_def result_of_def plan_of_def Let_def)
  qed (use assms m in \<open>auto simp: tap_key_def result_of_def plan_of_def mac_consumed_release_def sent_batches_def Let_def\<close>)
qed

lemma tap_key_echo:
  assumes "pending ctx \<noteq> [] \<longrightarrow> te_now env \<le> fst (hd (pending ctx)) + ECHO_WINDOW"
    and "pending ctx \<noteq> []" "snd (hd (pending ctx)) = \<lparr>ee_usage = u, ee_is_down = dn\<rparr>"
  shows "\<exists>ctx'. tap_key lk env u dn ctx = (TapPass, te_lookup env, ctx') \<and> tc_engine ctx' = tc_engine ctx
    \<and> tc_scanner ctx' = tc_scanner ctx \<and> channel ctx' = channel ctx \<and> pending ctx' = tl (pending ctx)"
  using assms echo_matches_in_time [OF assms(1), of u dn] by (simp add: tap_key_def Let_def)

text \<open>
  Physical key events one after another, each with its key code, as the scanner captures them.
\<close>

fun scan_presses :: "(64 word \<times> hid_usage \<times> bool) list \<Rightarrow> mac_keyboard \<Rightarrow> mac_scanner \<Rightarrow> (hid_usage option \<times> bool) list" where
  "scan_presses [] kb sc = []"
| "scan_presses ((code, u, d) # ps) kb sc =
     (let kb' = mac_press u d kb;
          (captured, sc') = mac_on_event (mac_event_type u d)
             \<lparr>cg_keycode_field = code, cg_event_flags = mac_flags kb'\<rparr> sc
      in (case captured of None \<Rightarrow> (None, False) | Some k \<Rightarrow> (ck_usage k, ck_direction k \<noteq> DirUp))
         # scan_presses ps kb' sc')"

lemma mac_on_event_usage:
  "mac_on_event ty ev sc = (Some k, sc') \<Longrightarrow> ck_usage k = Some u \<Longrightarrow> \<exists>c. mac_keycode_to_hid_usage c = Some u"
  by (auto simp: mac_on_event_def Let_def split: cg_event_type.splits option.splits prod.splits)

lemma tap_scan_tappable: "tap_scan ty ev sc = (Some ee, sc') \<Longrightarrow> ee_usage ee \<notin> set untappable"
  using mac_on_event_usage mac_keycode_range
  by (fastforce simp: tap_scan_def bind_eq_Some_conv split: if_splits prod.splits)

section \<open>A rule\<close>

text \<open>The rule \<open>CapsLock: Escape\<close>.\<close>

definition sample_lookup :: "unit lookup" where
  "sample_lookup =
     \<lparr>lk_for_app = (\<lambda>_ _ _ _ _. None), lk_for_active_app = (\<lambda>s _ _ _. (None, s)),
      lk_global = (\<lambda>_ u m _. if u = CapsLock \<and> m = 0 then Some [\<lparr>nk_modifiers = 0, nk_usage = Escape\<rparr>] else None)\<rparr>"

definition sample_env :: "nat \<Rightarrow> unit tap_env" where
  "sample_env now = \<lparr>te_lookup = (), te_now = now, te_emit_now = now, te_reachable = True\<rparr>"

lemma mac_keycode_row: "(c, h) \<in> set cg_keycode_table \<Longrightarrow> mac_keycode_to_hid_usage c = hid_keyboard h"
  by (simp add: mac_keycode_to_hid_usage_def cg_keycode_to_hid_usage_def cg_codes_distinct)

lemma sample_rows:
  "list_all (\<lambda>(c, u). mac_keycode_to_hid_usage c = Some u)
     [(57, CapsLock), (53, Escape), (56, LeftShift), (60, RightShift), (0, A_key)]"
  by (simp add: mac_keycode_to_hid_usage_def cg_keycode_to_hid_usage_def cg_keycode_table_def hid_keyboard_def
      PAGE_KEYBOARD_def from_code_def hid_table_def)

lemma sample_codes [simp]:
  "mac_keycode_to_hid_usage 57 = Some CapsLock" "mac_keycode_to_hid_usage 53 = Some Escape"
  "mac_keycode_to_hid_usage 56 = Some LeftShift" "mac_keycode_to_hid_usage 60 = Some RightShift"
  "mac_keycode_to_hid_usage 0 = Some A_key"
  using sample_rows by simp_all

section \<open>Properties\<close>



text \<open>
  With both keys of a modifier pair down, the release of the first is taken for a press. Whatever the
  rules and the reachability are, if the user presses one key of a pair, then the other, and releases
  the second and the first, the scanner reports the second key down again instead of up, so the engine
  ends with that key down although no key is pressed; and the next press of the key counts as a
  repeat: it is passed on or swallowed as its last press was, without a lookup.
\<close>
theorem twin_release_sticks:
  assumes "twin_of u = Some v" and "mac_keycode_to_hid_usage (ucast cu) = Some u"
    and "mac_keycode_to_hid_usage (ucast cv) = Some v"
    and "scan_presses [(cv, v, True), (cu, u, True), (cu, u, False), (cv, v, False)] (lock, {}) sc
      = map (\<lambda>i. (Some (in_key i), in_down i)) is"
    and "in_key next = u" and "in_down next"
  shows "pressed_keys (tracker (snd (engine_run lk id is engine_new))) = {u}
    \<and> fst (engine_step lk id next (snd (engine_run lk id is engine_new))) \<in> {Pass, SwallowD 0}
    \<and> fold (\<lambda>(_, k, d). mac_press k d) [(cv, v, True), (cu, u, True), (cu, u, False), (cv, v, False)] (lock, {}) = (lock, {})"
proof -
  have m: "hid_usage_to_modifier_bit u \<noteq> None" "hid_usage_to_modifier_bit v \<noteq> None" "u \<noteq> v" "twin_of v = Some u"
    using assms(1) by (auto simp: twin_of_def split: if_splits)
  then have nc: "u \<noteq> CapsLock" "v \<noteq> CapsLock" by auto
  have ty: "mac_event_type u d = CgFlagsChanged" "mac_event_type v d = CgFlagsChanged" for d
    using m by (simp_all add: mac_event_type_def)
  note scan = scan_modifier [OF assms(2) m(1)] scan_modifier [OF assms(3) m(2)]
  have "scan_presses [(cv, v, True), (cu, u, True), (cu, u, False), (cv, v, False)] (lock, {}) sc
      = [(Some v, True), (Some u, True), (Some u, True), (Some v, False)]"
    using m(3,4) assms(1) nc by (simp add: ty scan mac_press_def twin_held_def ck_direction_def Let_def)
  then have keys: "map (\<lambda>i. (in_key i, in_down i)) is = [(v, True), (u, True), (u, True), (v, False)]"
    using arg_cong [OF assms(4), of "map (map_prod the id)"] by (simp add: comp_def)
  have "fold step_down_keys is {} = {u}"
  proof -
    have "fold step_down_keys is {} = fold (\<lambda>(k, d) P. if d then insert k P else P - {k}) (map (\<lambda>i. (in_key i, in_down i)) is) {}"
      by (simp add: fold_map comp_def step_down_keys_def [abs_def])
    also have "\<dots> = {u}" unfolding keys using m(3) by auto
    finally show ?thesis .
  qed
  then have p: "pressed_keys (tracker (snd (engine_run lk id is engine_new))) = {u}"
    by (simp add: engine_run_pressed engine_new_def tracker_default_def)
  with assms(5,6) have "fst (engine_step lk id next (snd (engine_run lk id is engine_new))) \<in> {Pass, SwallowD 0}"
    by (simp add: engine_step_simps decide_down_def Let_def)
  with p m(3) nc show ?thesis by (auto simp: mac_press_def)
qed

lemma twin_release_sticks_witness:
  "pressed_keys (tracker (snd (engine_run sample_lookup id
     (map (\<lambda>(u, d). \<lparr>in_key = u, in_down = d, in_device = None, in_reachable = True, in_lookup = ()\<rparr>)
       [(RightShift, True), (LeftShift, True), (LeftShift, True), (RightShift, False)]) engine_new))) = {LeftShift}"
proof -
  have t: "twin_of LeftShift = Some RightShift" by (simp add: twin_of_def)
  have c: "mac_keycode_to_hid_usage (ucast (56 :: 64 word)) = Some LeftShift"
    "mac_keycode_to_hid_usage (ucast (60 :: 64 word)) = Some RightShift" by simp_all
  let ?i = "\<lambda>(u, d). \<lparr>in_key = u, in_down = d, in_device = None, in_reachable = True, in_lookup = ()\<rparr>"
  let ?is = "map ?i [(RightShift, True), (LeftShift, True), (LeftShift, True), (RightShift, False)]"
  have "scan_presses [(60, RightShift, True), (56, LeftShift, True), (56, LeftShift, False), (60, RightShift, False)]
      (False, {}) (mac_scanner_new (mac_flags (False, {}))) = map (\<lambda>i. (Some (in_key i), in_down i)) ?is"
    by (simp add: mac_event_type_def mac_on_event_def flags_changed_state_def mac_flags_def mac_press_def
        ck_direction_def Let_def)
  from twin_release_sticks [OF t c this, of "?i (LeftShift, True)"] show ?thesis by simp
qed

text \<open>
  An output that does not come back blocks the echo detection. While a predicted event of a key that no
  event of the tap stands for (Print Screen, Pause) is at the head of the queue, which is for half a
  second, no event is recognised as an echo: every key event is decided by the engine, the
  echoes of the outputs emitted after it as well, and the queue only grows.
\<close>
theorem unseen_output_blocks_echoes:
  assumes "pending ctx = (recorded, head) # rest" and "ee_usage head \<in> set untappable"
    and "te_now env \<le> recorded + ECHO_WINDOW"
    and "tap_scan ty ev (tc_scanner ctx) = (Some ee, sc')"
    and "decide lk (te_lookup env) (ee_usage ee) (ee_usage ee) (ee_is_down ee) None (te_reachable env) (tc_engine ctx)
      = (d, e, ls)"
  shows "\<exists>ctx' new. tap_callback lk env ty ev ctx = (result_of d, ls, ctx') \<and> tc_engine ctx' = e
    \<and> pending ctx' = pending ctx @ new"
proof -
  have "head \<noteq> ee" using assms(2) tap_scan_tappable [OF assms(4)] by auto
  then have "\<not> (pending (ctx\<lparr>tc_scanner := sc'\<rparr>) \<noteq> [] \<and> snd (hd (pending (ctx\<lparr>tc_scanner := sc'\<rparr>)))
      = \<lparr>ee_usage = ee_usage ee, ee_is_down = ee_is_down ee\<rparr>)"
    using assms(1) by (cases ee) simp
  from tap_key_user [OF _ this, of env lk d e ls] assms(1,3,5) tap_callback_scan(2) [OF assms(4), of lk env] show ?thesis
    by auto
qed

lemma unseen_output_blocks_echoes_witness:
  "\<exists>ctx'. tap_callback sample_lookup (sample_env 5) CgKeyDown \<lparr>cg_keycode_field = 53, cg_event_flags = mac_flags (False, {})\<rparr>
     ((tap_context_new (mac_flags (False, {})))\<lparr>tc_emitter := \<lparr>me_tx = \<lparr>bc_queue = [], bc_open = True\<rparr>,
        me_echo = \<lparr>et_pending = [(0, \<lparr>ee_usage = PrintScreen, ee_is_down = True\<rparr>), (0, \<lparr>ee_usage = Escape, ee_is_down = True\<rparr>)]\<rparr>\<rparr>\<rparr>)
   = (TapPass, (), ctx')"
proof -
  let ?ctx = "(tap_context_new (mac_flags (False, {})))\<lparr>tc_emitter := \<lparr>me_tx = \<lparr>bc_queue = [], bc_open = True\<rparr>,
        me_echo = \<lparr>et_pending = [(0, \<lparr>ee_usage = PrintScreen, ee_is_down = True\<rparr>), (0, \<lparr>ee_usage = Escape, ee_is_down = True\<rparr>)]\<rparr>\<rparr>\<rparr>"
  let ?ev = "\<lparr>cg_keycode_field = 53, cg_event_flags = mac_flags (False, {})\<rparr>"
  have sc: "tap_scan CgKeyDown ?ev (tc_scanner ?ctx) = (Some \<lparr>ee_usage = Escape, ee_is_down = True\<rparr>, tc_scanner ?ctx)"
    by (simp add: tap_scan_def mac_on_event_def ck_direction_def)
  obtain e ls where d: "decide sample_lookup () Escape Escape True None True (tc_engine ?ctx) = (Pass, e, ls)"
    by (simp add: decide_def decide_down_def resolve_def sample_lookup_def tap_context_new_def engine_new_def
        tracker_default_def decide_unmapped_def Let_def)
  have "\<exists>ctx' new. tap_callback sample_lookup (sample_env 5) CgKeyDown ?ev ?ctx = (result_of Pass, ls, ctx')
      \<and> tc_engine ctx' = e \<and> pending ctx' = pending ?ctx @ new"
    by (rule unseen_output_blocks_echoes [where recorded = 0 and head = "\<lparr>ee_usage = PrintScreen, ee_is_down = True\<rparr>"
          and rest = "[(0, \<lparr>ee_usage = Escape, ee_is_down = True\<rparr>)]", OF _ _ _ sc])
      (use d in \<open>simp_all add: untappable_def sample_env_def ECHO_WINDOW_def\<close>)
  then show ?thesis by (auto simp: result_of_def plan_of_def)
qed

end
