(* ===== verification/Mac_World.thy ===== *)
theory Mac_World
  imports Mac_Mapping
begin

text \<open>
  The event tap of \<open>src/platform/macos/mapping.rs\<close> with what is around it: the user's keyboard, the virtual
  keyboard that types the batches the tap put into its channel, and the system, which posts the key events of
  both to the tap with flags that do not tell the two apart. What the virtual keyboard types is computed from its
  reports, not from what the echo tracker recorded.
\<close>

section \<open>The world of the tap\<close>

text \<open>
  The key events the system makes of a key typed by the virtual keyboard and posts to the tap: those its
  reports show, one after another, without the keys that no event of the tap stands for.
\<close>

definition typed :: "native_key \<Rightarrow> echo_event list" where
  "typed nk =
     (if hid_page (nk_usage nk) \<noteq> PAGE_KEYBOARD then []
      else filter (\<lambda>ee. ee_usage ee \<notin> set untappable) (report_events (0, []) (keyboard_report_sequence nk)))"

definition apply_echo :: "echo_event \<Rightarrow> hid_usage set \<Rightarrow> hid_usage set" where
  "apply_echo ee P = (if ee_is_down ee then insert (ee_usage ee) P else P - {ee_usage ee})"

text \<open>
  The tap; the keys pressed on the user's keyboard and on the virtual one, and the lock of Caps Lock; the
  batches put into the channel so far; and the key events that are due: those of these batches that the
  virtual keyboard has not typed yet, each with the time its batch was sent.
\<close>

record mac_world =
  mw_tap :: tap_context
  mw_user :: "hid_usage set"
  mw_virtual :: "hid_usage set"
  mw_lock :: bool
  mw_sent :: "native_key list list"
  mw_due :: "(nat \<times> echo_event) list"

text \<open>
  What happens: the user presses or releases a key, the virtual keyboard makes the next key event that is
  due, an event comes that is of no key or of a key without a usage, or the writer thread takes a batch
  out of the channel. The code is the key code the system gives the key.
\<close>

datatype 's happening =
    UserKey "'s tap_env" "64 word" hid_usage bool
  | TypedKey "'s tap_env" "64 word"
  | OtherEvent "'s tap_env" cg_event_type cg_event
  | WriterTakes

text \<open>The event of a key reaches the tap; the batches it puts into the channel will be typed.\<close>

definition post_key ::
  "'s lookup \<Rightarrow> 's tap_env \<Rightarrow> 64 word \<Rightarrow> hid_usage \<Rightarrow> bool \<Rightarrow> mac_world \<Rightarrow> tap_result \<times> mac_world" where
  "post_key lk env code u d w =
     (let lock = (if u = CapsLock \<and> d then \<not> mw_lock w else mw_lock w);
          (r, _, ctx) = tap_callback lk env (mac_event_type u d)
             \<lparr>cg_keycode_field = code, cg_event_flags = mac_flags (lock, mw_user w \<union> mw_virtual w)\<rparr> (mw_tap w);
          sent = drop (length (bc_queue (channel (mw_tap w)))) (bc_queue (channel ctx))
      in (r, w\<lparr>mw_tap := ctx, mw_lock := lock, mw_sent := mw_sent w @ sent,
               mw_due := mw_due w @ map (Pair (te_emit_now env)) (concat (map typed (concat sent)))\<rparr>))"

text \<open>
  One step, and what it adds to the trace: whether the virtual keyboard made the key event, which it was, and what
  the tap did with it.
\<close>

definition happen ::
  "'s lookup \<Rightarrow> 's happening \<Rightarrow> mac_world \<Rightarrow> (bool \<times> 's tap_env \<times> echo_event \<times> tap_result) option \<times> mac_world" where
  "happen lk h w =
     (case h of
        UserKey env code u d \<Rightarrow>
          (let ee = \<lparr>ee_usage = u, ee_is_down = d\<rparr>;
               (r, w') = post_key lk env code u d (w\<lparr>mw_user := apply_echo ee (mw_user w)\<rparr>)
           in (Some (False, env, ee, r), w'))
      | TypedKey env code \<Rightarrow>
          (case mw_due w of
             [] \<Rightarrow> (None, w)
           | (_, ee) # due \<Rightarrow>
               (let (r, w') = post_key lk env code (ee_usage ee) (ee_is_down ee)
                      (w\<lparr>mw_virtual := apply_echo ee (mw_virtual w), mw_due := due\<rparr>)
                in (Some (True, env, ee, r), w')))
      | OtherEvent env ty ev \<Rightarrow> (None, w\<lparr>mw_tap := snd (snd (tap_callback lk env ty ev (mw_tap w)))\<rparr>)
      | WriterTakes \<Rightarrow>
          (let ctx = mw_tap w; em = tc_emitter ctx; ch = me_tx em
           in (None, w\<lparr>mw_tap := ctx\<lparr>tc_emitter := em\<lparr>me_tx := ch\<lparr>bc_queue := tl (bc_queue ch)\<rparr>\<rparr>\<rparr>\<rparr>)))"

fun happenings ::
  "'s lookup \<Rightarrow> 's happening list \<Rightarrow> mac_world
    \<Rightarrow> (bool \<times> 's tap_env \<times> echo_event \<times> tap_result) list \<times> mac_world" where
  "happenings lk [] w = ([], w)"
| "happenings lk (h # hs) w =
     (let (t, w1) = happen lk h w; (tr, w2) = happenings lk hs w1
      in (case t of None \<Rightarrow> tr | Some x \<Rightarrow> x # tr, w2))"

text \<open>The start: no batch was sent, and some keys and the lock may be on.\<close>

definition world_start :: "bool \<Rightarrow> mac_world" where
  "world_start lock =
     \<lparr>mw_tap = tap_context_new (mac_flags (lock, {})), mw_user = {}, mw_virtual = {}, mw_lock = lock,
      mw_sent = [], mw_due = []\<rparr>"

text \<open>
  The conditions on what happens. Every key has its code. No typed key event is late: none is due for
  longer than the echo window. The user does not make the very key event that is due next. And a
  modifier that is released can be seen to be up: the flag it shares is not held by its twin, or by the same
  key of the other keyboard.
\<close>

definition timely :: "'s tap_env \<Rightarrow> mac_world \<Rightarrow> bool" where
  "timely env w \<longleftrightarrow> (\<forall>(sent_at, _) \<in> set (mw_due w). te_now env \<le> sent_at + ECHO_WINDOW)"

definition readable :: "echo_event \<Rightarrow> hid_usage set \<Rightarrow> bool" where
  "readable ee P \<longleftrightarrow>
     (hid_usage_to_modifier_bit (ee_usage ee) \<noteq> None \<and> \<not> ee_is_down ee \<longrightarrow>
        ee_usage ee \<notin> P \<and> \<not> twin_held (ee_usage ee) P)"

definition possible :: "'s happening \<Rightarrow> mac_world \<Rightarrow> bool" where
  "possible h w =
     (case h of
        UserKey env code u d \<Rightarrow>
          (let ee = \<lparr>ee_usage = u, ee_is_down = d\<rparr>
           in mac_keycode_to_hid_usage (ucast code) = Some u \<and> timely env w
              \<and> (mw_due w = [] \<or> snd (hd (mw_due w)) \<noteq> ee)
              \<and> readable ee (apply_echo ee (mw_user w) \<union> mw_virtual w))
      | TypedKey env code \<Rightarrow>
          (case mw_due w of
             [] \<Rightarrow> False
           | (_, ee) # _ \<Rightarrow>
               mac_keycode_to_hid_usage (ucast code) = Some (ee_usage ee) \<and> timely env w
               \<and> readable ee (mw_user w \<union> apply_echo ee (mw_virtual w)))
      | OtherEvent env ty ev \<Rightarrow>
          ty \<in> {CgOther, CgTapDisabledByTimeout, CgTapDisabledByUserInput}
          \<or> mac_keycode_to_hid_usage (ucast (cg_keycode_field ev)) = None
      | WriterTakes \<Rightarrow> True)"

fun all_possible :: "'s lookup \<Rightarrow> 's happening list \<Rightarrow> mac_world \<Rightarrow> bool" where
  "all_possible lk [] w \<longleftrightarrow> True"
| "all_possible lk (h # hs) w \<longleftrightarrow> possible h w \<and> all_possible lk hs (snd (happen lk h w))"

text \<open>The channel has room whenever the user makes a key event.\<close>

fun roomy :: "'s lookup \<Rightarrow> 's happening list \<Rightarrow> mac_world \<Rightarrow> bool" where
  "roomy lk [] w \<longleftrightarrow> True"
| "roomy lk (h # hs) w \<longleftrightarrow>
     ((\<exists>env code u d. h = UserKey env code u d) \<longrightarrow> length (bc_queue (channel (mw_tap w))) < CHANNEL_CAPACITY)
     \<and> roomy lk hs (snd (happen lk h w))"

text \<open>A key all of whose events come back through the tap, and none of whose modifiers is the key itself.\<close>

definition typable :: "native_key \<Rightarrow> bool" where
  "typable nk \<longleftrightarrow> hid_page (nk_usage nk) = PAGE_KEYBOARD \<longrightarrow>
     nk_usage nk \<notin> set untappable \<and> (\<forall>b \<in> bits_of (nk_modifiers nk). nk_usage nk \<noteq> modifier_usages ! b)"

text \<open>The batches that decisions emit.\<close>

definition emitted :: "decision list \<Rightarrow> native_key list list" where
  "emitted ds = List.map_filter (\<lambda>d. case d of Emit _ os \<Rightarrow> Some os | _ \<Rightarrow> None) ds"

section \<open>The trace\<close>

text \<open>What the user did, as inputs of the engine; what the virtual keyboard did; what reaches the clients natively.\<close>

definition user_inputs :: "(bool \<times> 's tap_env \<times> echo_event \<times> tap_result) list \<Rightarrow> (hid_usage, 's) key_input list" where
  "user_inputs tr =
     map (\<lambda>(_, env, ee, _). \<lparr>in_key = ee_usage ee, in_down = ee_is_down ee, in_device = None,
                             in_reachable = te_reachable env, in_lookup = te_lookup env\<rparr>)
       (filter (\<lambda>x. \<not> fst x) tr)"

definition echo_events :: "(bool \<times> 's tap_env \<times> echo_event \<times> tap_result) list \<Rightarrow> echo_event list" where
  "echo_events tr = map (\<lambda>(_, _, ee, _). ee) (filter fst tr)"

definition user_results :: "(bool \<times> 's tap_env \<times> echo_event \<times> tap_result) list \<Rightarrow> tap_result list" where
  "user_results tr = map (\<lambda>(_, _, _, r). r) (filter (\<lambda>x. \<not> fst x) tr)"

definition echo_results :: "(bool \<times> 's tap_env \<times> echo_event \<times> tap_result) list \<Rightarrow> tap_result list" where
  "echo_results tr = map (\<lambda>(_, _, _, r). r) (filter fst tr)"

definition native_events :: "(bool \<times> 's tap_env \<times> echo_event \<times> tap_result) list \<Rightarrow> echo_event list" where
  "native_events tr = map (\<lambda>(_, _, ee, _). ee) (filter (\<lambda>(b, _, _, r). \<not> b \<and> r = TapPass) tr)"

section \<open>One key event\<close>

lemma key_echo_typed: "typable nk \<Longrightarrow> key_echo nk = typed nk"
proof (cases "hid_page (nk_usage nk) = PAGE_KEYBOARD")
  case True
  assume t: "typable nk"
  have "modifier_usages ! b \<notin> set untappable" if "b < 8" for b
    using that by (auto simp: modifier_usages_def untappable_def less_Suc_eq numeral_eq_Suc)
  then have bits: "\<forall>b \<in> set bs. unat b < 8 \<Longrightarrow> \<forall>ee \<in> set (echo_bits ms d bs). ee_usage ee \<notin> set untappable" for ms d bs
    by (auto simp: echo_bits_map)
  then have "\<forall>ee \<in> set (key_echo nk). ee_usage ee \<notin> set untappable"
    using t True bits [of mask_bits] bits [of "rev mask_bits"] mask_bits_bound by (auto simp: key_echo_def typable_def)
  then have "filter (\<lambda>ee. ee_usage ee \<notin> set untappable) (key_echo nk) = key_echo nk" by simp
  with t True sequence_events [of nk] show ?thesis by (simp add: typed_def typable_def)
qed (simp add: key_echo_def typed_def)

lemma key_echoes_typed: "\<forall>nk \<in> set nks. typable nk \<Longrightarrow> map key_echo nks = map typed nks"
  by (simp add: key_echo_typed)

text \<open>The scanner reads an event that can be read.\<close>

lemma tap_scan_key:
  assumes "mac_keycode_to_hid_usage (ucast code) = Some (ee_usage ee)" "readable ee P"
    and "ee_is_down ee \<longrightarrow> ee_usage ee \<in> P"
    and "lock = (if ee_usage ee = CapsLock \<and> ee_is_down ee then \<not> prev_alpha_shift sc else prev_alpha_shift sc)"
  shows "tap_scan (mac_event_type (ee_usage ee) (ee_is_down ee))
      \<lparr>cg_keycode_field = code, cg_event_flags = mac_flags (lock, P)\<rparr> sc
    = (Some ee, sc\<lparr>prev_alpha_shift := lock\<rparr>)"
proof -
  obtain u d where ee: "ee = \<lparr>ee_usage = u, ee_is_down = d\<rparr>" by (cases ee)
  show ?thesis
  proof (cases "hid_usage_to_modifier_bit u = None")
    case True
    then show ?thesis using assms
      by (cases "u = CapsLock"; cases d)
        (auto simp: ee tap_scan_def mac_event_type_def mac_on_event_def capslock_is_down_def mac_flags_def
          ck_direction_def Let_def)
  next
    case False
    then have "u \<noteq> CapsLock" by auto
    with False assms scan_modifier [of code u "(lock, P)" sc] show ?thesis
      by (auto simp: ee tap_scan_def mac_event_type_def readable_def ck_direction_def Let_def)
  qed
qed

definition world_inv :: "mac_world \<Rightarrow> bool" where
  "world_inv w \<longleftrightarrow> pending (mw_tap w) = mw_due w \<and> prev_alpha_shift (tc_scanner (mw_tap w)) = mw_lock w
     \<and> bc_open (channel (mw_tap w))"

lemma timely_head: "timely env w \<Longrightarrow> mw_due w \<noteq> [] \<Longrightarrow> te_now env \<le> fst (hd (mw_due w)) + ECHO_WINDOW"
  by (cases "mw_due w") (auto simp: timely_def)

lemma tap_callback_key:
  assumes "world_inv w" "mac_keycode_to_hid_usage (ucast code) = Some (ee_usage ee)" "readable ee P"
    and "ee_is_down ee \<longrightarrow> ee_usage ee \<in> P"
    and "lock = (if ee_usage ee = CapsLock \<and> ee_is_down ee then \<not> mw_lock w else mw_lock w)"
  shows "tap_callback lk env (mac_event_type (ee_usage ee) (ee_is_down ee))
      \<lparr>cg_keycode_field = code, cg_event_flags = mac_flags (lock, P)\<rparr> (mw_tap w)
    = tap_key lk env (ee_usage ee) (ee_is_down ee)
        ((mw_tap w)\<lparr>tc_scanner := (tc_scanner (mw_tap w))\<lparr>prev_alpha_shift := lock\<rparr>\<rparr>)"
proof (rule tap_callback_scan(2))
  show "tap_scan (mac_event_type (ee_usage ee) (ee_is_down ee))
      \<lparr>cg_keycode_field = code, cg_event_flags = mac_flags (lock, P)\<rparr> (tc_scanner (mw_tap w))
    = (Some ee, (tc_scanner (mw_tap w))\<lparr>prev_alpha_shift := lock\<rparr>)"
    by (rule tap_scan_key [OF assms(2-4)]) (use assms(1,5) in \<open>simp add: world_inv_def\<close>)
qed

lemma apply_echo_down: "ee_is_down ee \<Longrightarrow> ee_usage ee \<in> apply_echo ee P"
  by (simp add: apply_echo_def)

abbreviation user_input :: "'s tap_env \<Rightarrow> echo_event \<Rightarrow> (hid_usage, 's) key_input" where
  "user_input env ee \<equiv> \<lparr>in_key = ee_usage ee, in_down = ee_is_down ee, in_device = None,
     in_reachable = te_reachable env, in_lookup = te_lookup env\<rparr>"

text \<open>A key of the user is decided by the engine.\<close>

lemma user_key_step:
  assumes "world_inv w" "possible (UserKey env code u d) w" "happen lk (UserKey env code u d) w = (t, w')"
    and "engine_step lk id (user_input env \<lparr>ee_usage = u, ee_is_down = d\<rparr>) (tc_engine (mw_tap w)) = (dec, e)"
    and "\<forall>nk \<in> set (concat (mw_sent w')). typable nk"
  shows "t = Some (False, env, \<lparr>ee_usage = u, ee_is_down = d\<rparr>, result_of dec) \<and> world_inv w'
    \<and> tc_engine (mw_tap w') = e \<and> mw_user w' = apply_echo \<lparr>ee_usage = u, ee_is_down = d\<rparr> (mw_user w)
    \<and> mw_virtual w' = mw_virtual w
    \<and> (let sent = sent_batches dec (channel (mw_tap w))
       in mw_sent w' = mw_sent w @ sent \<and> map snd (mw_due w') = map snd (mw_due w) @ concat (map typed (concat sent)))"
proof -
  let ?ee = "\<lparr>ee_usage = u, ee_is_down = d\<rparr>"
  let ?w = "w\<lparr>mw_user := apply_echo ?ee (mw_user w)\<rparr>"
  let ?lock = "if u = CapsLock \<and> d then \<not> mw_lock w else mw_lock w"
  let ?ctx = "(mw_tap w)\<lparr>tc_scanner := (tc_scanner (mw_tap w))\<lparr>prev_alpha_shift := ?lock\<rparr>\<rparr>"
  let ?sent = "sent_batches dec (channel (mw_tap w))"
  have p: "mac_keycode_to_hid_usage (ucast code) = Some u" "timely env w"
    "mw_due w = [] \<or> snd (hd (mw_due w)) \<noteq> ?ee" "readable ?ee (apply_echo ?ee (mw_user w) \<union> mw_virtual w)"
    using assms(2) by (simp_all add: possible_def Let_def)
  have inv: "pending ?ctx = mw_due w" "bc_open (channel (mw_tap w))" using assms(1) by (simp_all add: world_inv_def)
  have dn: "d \<longrightarrow> u \<in> apply_echo ?ee (mw_user w) \<union> mw_virtual w" by (simp add: apply_echo_def)
  have cb: "tap_callback lk env (mac_event_type u d)
      \<lparr>cg_keycode_field = code, cg_event_flags = mac_flags (?lock, apply_echo ?ee (mw_user w) \<union> mw_virtual w)\<rparr> (mw_tap w)
    = tap_key lk env u d ?ctx"
    using tap_callback_key [OF assms(1), of code ?ee, OF _ p(4), of ?lock lk env] p(1) dn by simp
  obtain ls where "decide lk (te_lookup env) u u d None (te_reachable env) (tc_engine ?ctx) = (dec, e, ls)"
    using assms(4) by (auto simp: engine_step_def split: prod.splits)
  from tap_key_user [OF _ _ this] inv(1) p(2,3) timely_head
  obtain ctx' where c: "tap_key lk env u d ?ctx = (result_of dec, ls, ctx')" "tc_engine ctx' = e"
    "tc_scanner ctx' = tc_scanner ?ctx"
    "channel ctx' = (channel ?ctx)\<lparr>bc_queue := bc_queue (channel ?ctx) @ sent_batches dec (channel ?ctx)\<rparr>"
    "pending ctx' = mw_due w @ map (Pair (te_emit_now env)) (concat (map key_echo (concat ?sent)))"
    by fastforce
  have w': "t = Some (False, env, ?ee, result_of dec)"
    "w' = ?w\<lparr>mw_tap := ctx', mw_lock := ?lock, mw_sent := mw_sent w @ ?sent,
       mw_due := mw_due w @ map (Pair (te_emit_now env)) (concat (map typed (concat ?sent)))\<rparr>"
    using assms(3) cb c(1,4) by (auto simp: happen_def post_key_def Let_def cong del: if_weak_cong)
  have "map key_echo (concat ?sent) = map typed (concat ?sent)"
    by (rule key_echoes_typed) (use assms(5) w'(2) in auto)
  then have "pending ctx' = mw_due w @ map (Pair (te_emit_now env)) (concat (map typed (concat ?sent)))"
    by (simp only: c(5))
  then show ?thesis using w' c(2-4) inv(2) by (simp add: world_inv_def Let_def comp_def)
qed

text \<open>A typed key is passed on, and the engine does not see it.\<close>

lemma typed_key_step:
  assumes "world_inv w" "possible (TypedKey env code) w" "happen lk (TypedKey env code) w = (t, w')"
  shows "\<exists>ee due sent_at. mw_due w = (sent_at, ee) # due \<and> t = Some (True, env, ee, TapPass) \<and> world_inv w'
    \<and> tc_engine (mw_tap w') = tc_engine (mw_tap w) \<and> mw_user w' = mw_user w
    \<and> mw_virtual w' = apply_echo ee (mw_virtual w) \<and> mw_sent w' = mw_sent w \<and> mw_due w' = due"
proof -
  obtain sent_at ee due where due: "mw_due w = (sent_at, ee) # due"
    using assms(2) by (cases "mw_due w") (auto simp: possible_def)
  let ?lock = "if ee_usage ee = CapsLock \<and> ee_is_down ee then \<not> mw_lock w else mw_lock w"
  let ?ctx = "(mw_tap w)\<lparr>tc_scanner := (tc_scanner (mw_tap w))\<lparr>prev_alpha_shift := ?lock\<rparr>\<rparr>"
  have p: "mac_keycode_to_hid_usage (ucast code) = Some (ee_usage ee)" "timely env w"
    "readable ee (mw_user w \<union> apply_echo ee (mw_virtual w))"
    using assms(2) due by (simp_all add: possible_def)
  have inv: "pending ?ctx = (sent_at, ee) # due" "bc_open (channel (mw_tap w))"
    using assms(1) due by (simp_all add: world_inv_def)
  have dn: "ee_is_down ee \<longrightarrow> ee_usage ee \<in> mw_user w \<union> apply_echo ee (mw_virtual w)" by (simp add: apply_echo_def)
  note cb = tap_callback_key [OF assms(1) p(1,3) dn, of ?lock lk env, OF refl]
  have late: "te_now env \<le> sent_at + ECHO_WINDOW" using p(2) due by (simp add: timely_def)
  obtain ctx' where c: "tap_key lk env (ee_usage ee) (ee_is_down ee) ?ctx = (TapPass, te_lookup env, ctx')"
    "tc_engine ctx' = tc_engine ?ctx" "tc_scanner ctx' = tc_scanner ?ctx" "channel ctx' = channel ?ctx"
    "pending ctx' = tl (pending ?ctx)"
    using tap_key_echo [of ?ctx env "ee_usage ee" "ee_is_down ee" lk] inv(1) late by auto
  have "t = Some (True, env, ee, TapPass)"
    "w' = w\<lparr>mw_virtual := apply_echo ee (mw_virtual w), mw_tap := ctx', mw_lock := ?lock, mw_due := due\<rparr>"
    using assms(3) cb c(1,4) due by (auto simp: happen_def post_key_def Let_def cong del: if_weak_cong)
  then show ?thesis using due c inv by (auto simp: world_inv_def)
qed

text \<open>The other steps change neither the engine nor what is awaited.\<close>

lemma other_step:
  assumes "world_inv w" "possible h w" "happen lk h w = (t, w')"
    and "(\<exists>env ty ev. h = OtherEvent env ty ev) \<or> h = WriterTakes"
  shows "t = None \<and> world_inv w' \<and> tc_engine (mw_tap w') = tc_engine (mw_tap w) \<and> mw_user w' = mw_user w
    \<and> mw_virtual w' = mw_virtual w \<and> mw_sent w' = mw_sent w \<and> mw_due w' = mw_due w"
proof (cases h)
  case (OtherEvent env ty ev)
  have sc: "tap_scan ty ev (tc_scanner (mw_tap w)) = (None, tc_scanner (mw_tap w))"
    using assms(2) OtherEvent
    by (cases ty) (auto simp: possible_def tap_scan_def mac_on_event_def Let_def)
  from tap_callback_scan(1) [OF this, of lk env] obtain b where
    "tap_callback lk env ty ev (mw_tap w) = (TapPass, te_lookup env, (mw_tap w)\<lparr>tc_tap_enabled := b\<rparr>)" by auto
  then show ?thesis using assms(1,3) OtherEvent by (auto simp: happen_def world_inv_def)
next
  case WriterTakes
  then show ?thesis using assms(1,3) by (auto simp: happen_def world_inv_def Let_def)
qed (use assms(4) in auto)

section \<open>What is left pressed\<close>

lemma native_step:
  assumes "swallowed_keys (tracker e) \<subseteq> pressed_keys (tracker e)"
    and "N \<subseteq> pressed_keys (tracker e) - swallowed_keys (tracker e)"
    and "engine_step lk U i e = (d, e')"
  shows "(if result_of d = TapPass then (if in_down i then insert (in_key i) N else N - {in_key i}) else N)
    \<subseteq> pressed_keys (tracker e') - swallowed_keys (tracker e')"
proof (cases "in_down i \<and> in_key i \<notin> pressed_keys (tracker e)")
  case True
  then have k: "in_key i \<notin> swallowed_keys (tracker e)" "in_key i \<notin> N" using assms(1,2) by auto
  show ?thesis
  proof (cases "in_reachable i")
    case False
    with True k assms(2,3) show ?thesis
      by (auto simp: engine_step_simps decide_down_fresh result_of_def)
  next
    case reachable: True
    obtain os ls where r: "resolve lk (in_lookup i) (U (in_key i)) (modifier_state e) (in_device i) = (os, ls)" by force
    show ?thesis
    proof (cases os)
      case None
      with True reachable r k assms(2,3) show ?thesis
        by (auto simp: engine_step_simps decide_down_fresh result_of_def case_prod_beta)
    next
      case (Some outputs)
      obtain d1 e1 where m: "decide_mapped (in_key i) (U (in_key i)) (modifier_state e) outputs
          (mark_down (in_key i) (U (in_key i)) e) = (d1, e1)" by force
      have d: "d = d1" "e' = e1"
        using True reachable r Some m assms(3) by (simp_all add: engine_step_simps decide_down_fresh)
      have "is_emit d" using decide_mapped_emit m d(1) by (metis fst_conv)
      then have "result_of d = TapSwallow" by (auto simp: is_emit_def result_of_def plan_of_def)
      moreover have "pressed_keys (tracker e') = insert (in_key i) (pressed_keys (tracker e))"
        "swallowed_keys (tracker e') = insert (in_key i) (swallowed_keys (tracker e))"
        using decide_mapped_frame(1,2) [of "in_key i" "U (in_key i)" "modifier_state e" outputs
            "mark_down (in_key i) (U (in_key i)) e"] m d(2) by simp_all
      ultimately show ?thesis using k assms(2) by auto
    qed
  qed
next
  case False
  then show ?thesis
    using assms
    by (auto simp: engine_step_simps decide_down_def decide_up_eq result_of_def plan_of_def mac_consumed_release_def
        Let_def split: if_splits)
qed

lemma native_run:
  assumes "engine_ok U e" "N \<subseteq> pressed_keys (tracker e) - swallowed_keys (tracker e)"
    and "engine_run lk U is e = (ds, e')"
  shows "fold (\<lambda>(i, r) N. if r = TapPass then (if in_down i then insert (in_key i) N else N - {in_key i}) else N)
      (zip is (map result_of ds)) N
    \<subseteq> pressed_keys (tracker e') - swallowed_keys (tracker e')"
  using assms
proof (induction "is" arbitrary: e N ds)
  case (Cons i "is")
  obtain d e1 where step: "engine_step lk U i e = (d, e1)" by force
  obtain ds1 where run: "engine_run lk U is e1 = (ds1, e')" "ds = d # ds1"
    using Cons.prems(3) step by (auto split: prod.splits)
  have ok: "engine_ok U e1" using engine_step_ok [OF Cons.prems(1), of lk i] step by simp
  have "swallowed_keys (tracker e) \<subseteq> pressed_keys (tracker e)"
    using Cons.prems(1) by (simp add: engine_ok_def tracker_ok_def)
  from Cons.IH [OF ok native_step [OF this Cons.prems(2) step] run(1)] run(2) show ?case by simp
qed simp

lemma user_results_length: "length (user_results tr) = length (user_inputs tr)"
  by (simp add: user_results_def user_inputs_def)

lemma fold_native_events:
  "fold apply_echo (native_events tr) N =
     fold (\<lambda>(i, r) N. if r = TapPass then (if in_down i then insert (in_key i) N else N - {in_key i}) else N)
       (zip (user_inputs tr) (user_results tr)) N"
proof (induction tr arbitrary: N)
  case (Cons x tr)
  obtain b env ee r where "x = (b, env, ee, r)" by (metis prod.collapse)
  then show ?case
    using Cons.IH
    by (cases b) (auto simp: native_events_def user_inputs_def user_results_def apply_echo_def)
qed (simp add: native_events_def user_inputs_def user_results_def)

lemma fold_echo_bits:
  "\<forall>b \<in> set bs. unat b < 8 \<Longrightarrow> fold apply_echo (echo_bits ms True bs) P = P \<union> ((!) modifier_usages) ` {b \<in> unat ` set bs. b \<in> bits_of ms}"
  "\<forall>b \<in> set bs. unat b < 8 \<Longrightarrow> fold apply_echo (echo_bits ms False bs) P = P - ((!) modifier_usages) ` {b \<in> unat ` set bs. b \<in> bits_of ms}"
  by (induction bs arbitrary: P) (auto simp: modifier_usage_bit shifted_bit bits_of_iff apply_echo_def)

lemma fold_key_echo: "fold apply_echo (key_echo nk) {} = {}"
  using mask_bits_bound by (auto simp: key_echo_def fold_echo_bits apply_echo_def)

lemma fold_key_echoes: "fold apply_echo (concat (map key_echo os)) {} = {}"
  by (induction os) (simp_all add: fold_key_echo)


section \<open>A run\<close>

lemma happen_sent: "\<exists>new. mw_sent (snd (happen lk h w)) = mw_sent w @ new"
  by (cases h) (auto simp: happen_def post_key_def Let_def split: list.split prod.split)

lemma happenings_sent: "\<exists>new. mw_sent (snd (happenings lk hs w)) = mw_sent w @ new"
proof (induction hs arbitrary: w)
  case (Cons h hs)
  obtain n1 where "mw_sent (snd (happen lk h w)) = mw_sent w @ n1" using happen_sent by blast
  moreover obtain n2 where "mw_sent (snd (happenings lk hs (snd (happen lk h w)))) = mw_sent (snd (happen lk h w)) @ n2"
    using Cons by blast
  ultimately show ?case by (simp add: Let_def case_prod_beta)
qed simp

lemma trace_simps [simp]:
  "user_inputs [] = []" "echo_events [] = []" "user_results [] = []" "echo_results [] = []" "native_events [] = []"
  "user_inputs ((False, env, ee, r) # tr) = user_input env ee # user_inputs tr"
  "user_inputs ((True, env, ee, r) # tr) = user_inputs tr"
  "echo_events ((False, env, ee, r) # tr) = echo_events tr"
  "echo_events ((True, env, ee, r) # tr) = ee # echo_events tr"
  "user_results ((False, env, ee, r) # tr) = r # user_results tr"
  "user_results ((True, env, ee, r) # tr) = user_results tr"
  "echo_results ((False, env, ee, r) # tr) = echo_results tr"
  "echo_results ((True, env, ee, r) # tr) = r # echo_results tr"
  "native_events ((True, env, ee, r) # tr) = native_events tr"
  "native_events ((False, env, ee, r) # tr) = (if r = TapPass then [ee] else []) @ native_events tr"
  by (simp_all add: user_inputs_def echo_events_def user_results_def echo_results_def native_events_def)

lemma emitted_simps: "emitted [] = []" "emitted (d # ds) = (case d of Emit _ os \<Rightarrow> [os] | _ \<Rightarrow> []) @ emitted ds"
  by (simp_all add: emitted_def map_filter_simps split: decision.split)

lemma sent_roomy:
  "bc_open ch \<Longrightarrow> length (bc_queue ch) < CHANNEL_CAPACITY \<Longrightarrow>
   sent_batches d ch = (case d of Emit _ os \<Rightarrow> [os] | _ \<Rightarrow> [])"
  by (simp add: sent_batches_def split: decision.split)

text \<open>What a run does, from one world to another.\<close>

definition run_ok :: "'s lookup \<Rightarrow> bool \<Rightarrow> mac_world \<Rightarrow> (bool \<times> 's tap_env \<times> echo_event \<times> tap_result) list \<Rightarrow> mac_world \<Rightarrow> bool" where
  "run_ok lk room w tr w' \<longleftrightarrow>
     (let (ds, e) = engine_run lk id (user_inputs tr) (tc_engine (mw_tap w))
      in tc_engine (mw_tap w') = e \<and> user_results tr = map result_of ds \<and> set (echo_results tr) \<subseteq> {TapPass}
         \<and> world_inv w' \<and> mw_user w' = fold step_down_keys (user_inputs tr) (mw_user w)
         \<and> mw_virtual w' = fold apply_echo (echo_events tr) (mw_virtual w)
         \<and> (\<exists>new. mw_sent w' = mw_sent w @ new
              \<and> echo_events tr @ map snd (mw_due w') = map snd (mw_due w) @ concat (map typed (concat new))
              \<and> (room \<longrightarrow> new = emitted ds)))"

lemma run_ok_refl: "world_inv w \<Longrightarrow> run_ok lk room w [] w"
  by (auto simp: run_ok_def emitted_simps)

lemma run_ok_user:
  assumes "engine_step lk id (user_input env ee) (tc_engine (mw_tap w)) = (d, e)" "run_ok lk room1 w1 tr w'"
    and "tc_engine (mw_tap w1) = e" "mw_user w1 = apply_echo ee (mw_user w)" "mw_virtual w1 = mw_virtual w"
    and "mw_sent w1 = mw_sent w @ sent" "map snd (mw_due w1) = map snd (mw_due w) @ concat (map typed (concat sent))"
    and "room \<longrightarrow> room1 \<and> sent = (case d of Emit _ os \<Rightarrow> [os] | _ \<Rightarrow> [])"
  shows "run_ok lk room w ((False, env, ee, result_of d) # tr) w'"
proof -
  obtain ds e' where r: "engine_run lk id (user_inputs tr) e = (ds, e')" by force
  have "apply_echo ee (mw_user w) = step_down_keys (user_input env ee) (mw_user w)"
    by (simp add: apply_echo_def step_down_keys_def)
  moreover obtain new where "mw_sent w' = mw_sent w1 @ new"
    "echo_events tr @ map snd (mw_due w') = map snd (mw_due w1) @ concat (map typed (concat new))"
    "room1 \<longrightarrow> new = emitted ds"
    using assms(2,3) r by (auto simp: run_ok_def)
  ultimately show ?thesis
    using assms r by (auto simp: run_ok_def Let_def emitted_simps intro!: exI [of _ "sent @ new"])
qed

lemma run_ok_typed:
  assumes "mw_due w = (sent_at, ee) # mw_due w1" "run_ok lk room1 w1 tr w'" "room \<longrightarrow> room1"
    and "tc_engine (mw_tap w1) = tc_engine (mw_tap w)" "mw_user w1 = mw_user w"
    and "mw_virtual w1 = apply_echo ee (mw_virtual w)" "mw_sent w1 = mw_sent w"
  shows "run_ok lk room w ((True, env, ee, TapPass) # tr) w'"
  using assms by (auto simp: run_ok_def Let_def case_prod_beta)

lemma happenings_ok:
  assumes "world_inv w" "all_possible lk hs w" "happenings lk hs w = (tr, w')"
    and "\<forall>nk \<in> set (concat (mw_sent w')). typable nk"
  shows "run_ok lk (roomy lk hs w) w tr w'"
  using assms
proof (induction hs arbitrary: w tr)
  case Nil
  then show ?case by (simp add: run_ok_refl)
next
  case (Cons h hs)
  obtain t w1 where h: "happen lk h w = (t, w1)" by force
  obtain tr1 where run: "happenings lk hs w1 = (tr1, w')" and tr: "tr = (case t of None \<Rightarrow> tr1 | Some x \<Rightarrow> x # tr1)"
    using Cons.prems(3) h by (auto split: prod.splits)
  have p: "possible h w" "all_possible lk hs w1" using Cons.prems(2) h by simp_all
  have ty1: "\<forall>nk \<in> set (concat (mw_sent w1)). typable nk"
    using happenings_sent [of lk hs w1] run Cons.prems(4) by auto
  note IH = Cons.IH [OF _ p(2) run Cons.prems(4)]
  show ?case
  proof (cases h)
    case (UserKey env code u d)
    let ?ee = "\<lparr>ee_usage = u, ee_is_down = d\<rparr>"
    obtain dec e where step: "engine_step lk id (user_input env ?ee) (tc_engine (mw_tap w)) = (dec, e)" by force
    note s = user_key_step [OF Cons.prems(1) p(1) [unfolded UserKey] h [unfolded UserKey] step ty1]
    have "roomy lk (h # hs) w \<longrightarrow> roomy lk hs w1
        \<and> sent_batches dec (channel (mw_tap w)) = (case dec of Emit _ os \<Rightarrow> [os] | _ \<Rightarrow> [])"
      using h UserKey Cons.prems(1) sent_roomy [of "channel (mw_tap w)" dec] by (simp add: world_inv_def)
    from run_ok_user [OF step IH _ _ _ _ _ this] s tr show ?thesis by (simp add: Let_def)
  next
    case (TypedKey env code)
    from typed_key_step [OF Cons.prems(1) p(1) [unfolded TypedKey] h [unfolded TypedKey]] obtain ee sent_at where
      s: "mw_due w = (sent_at, ee) # mw_due w1" "t = Some (True, env, ee, TapPass)" "world_inv w1"
      "tc_engine (mw_tap w1) = tc_engine (mw_tap w)" "mw_user w1 = mw_user w"
      "mw_virtual w1 = apply_echo ee (mw_virtual w)" "mw_sent w1 = mw_sent w" by blast
    have "roomy lk (h # hs) w \<longrightarrow> roomy lk hs w1" using h TypedKey by simp
    from run_ok_typed [OF s(1) IH [OF s(3)] this s(4-7)] tr s(2) show ?thesis by simp
  next
    case (OtherEvent env ty ev)
    with other_step [OF Cons.prems(1) p(1) h] IH tr h show ?thesis by (simp add: run_ok_def)
  next
    case WriterTakes
    with other_step [OF Cons.prems(1) p(1) h] IH tr h show ?thesis by (simp add: run_ok_def)
  qed
qed

lemma world_start_inv: "world_inv (world_start lock)"
  by (simp add: world_inv_def world_start_def tap_context_new_def mac_scanner_new_def mac_flags_def echo_new_def)


section \<open>A sample\<close>

text \<open>
  The rule \<open>CapsLock: Escape\<close>: the user presses Caps Lock, the writer takes the batch, the virtual keyboard types
  Escape, the user releases Caps Lock.
\<close>

definition sample_happenings :: "unit happening list" where
  "sample_happenings =
     [UserKey (sample_env 10) 57 CapsLock True, WriterTakes, TypedKey (sample_env 20) 53, TypedKey (sample_env 21) 53,
      UserKey (sample_env 30) 57 CapsLock False]"

lemma escape_page: "hid_page Escape = PAGE_KEYBOARD"
  using hid_row [of Escape] by (simp add: hid_table_def hid_page_def PAGE_KEYBOARD_def)

lemma escape_echo: "key_echo \<lparr>nk_modifiers = 0, nk_usage = Escape\<rparr> =
    [\<lparr>ee_usage = Escape, ee_is_down = True\<rparr>, \<lparr>ee_usage = Escape, ee_is_down = False\<rparr>]"
  by (simp add: key_echo_def escape_page echo_bits_map mask_bits_bound)

lemma escape_typed: "typed \<lparr>nk_modifiers = 0, nk_usage = Escape\<rparr> =
    [\<lparr>ee_usage = Escape, ee_is_down = True\<rparr>, \<lparr>ee_usage = Escape, ee_is_down = False\<rparr>]"
  using key_echo_typed [of "\<lparr>nk_modifiers = 0, nk_usage = Escape\<rparr>"] escape_echo
  by (simp add: typable_def untappable_def)

lemma sample_run:
  "all_possible sample_lookup sample_happenings (world_start False)"
  "roomy sample_lookup sample_happenings (world_start False)"
  "map (\<lambda>(b, _, ee, r). (b, ee_usage ee, ee_is_down ee, r))
     (fst (happenings sample_lookup sample_happenings (world_start False))) =
   [(False, CapsLock, True, TapSwallow), (True, Escape, True, TapPass), (True, Escape, False, TapPass),
    (False, CapsLock, False, TapSwallow)]"
  "mw_due (snd (happenings sample_lookup sample_happenings (world_start False))) = []"
  "mw_user (snd (happenings sample_lookup sample_happenings (world_start False))) = {}"
  "mw_sent (snd (happenings sample_lookup sample_happenings (world_start False)))
     = [[\<lparr>nk_modifiers = 0, nk_usage = Escape\<rparr>]]"
  by (simp_all add: sample_happenings_def world_start_def happen_def post_key_def possible_def timely_def readable_def
      apply_echo_def twin_held_def twin_of_def mac_event_type_def escape_typed
      sample_env_def sample_lookup_def tap_context_new_def mac_scanner_new_def
      mac_flags_def tap_callback_def mac_on_event_def capslock_is_down_def ck_direction_def
      tap_key_def echo_matches_def echo_new_def decide_def decide_down_def decide_mapped_def decide_up_def
      resolve_def engine_new_def tracker_default_def release_def consume_triggered_def output_held_mask_def
      emit_batch_def try_send_batch_def CHANNEL_CAPACITY_def echo_record_def escape_echo plan_of_def ECHO_WINDOW_def
      Let_def)

lemma sample_typable: "\<forall>nk \<in> set (concat (mw_sent (snd (happenings sample_lookup sample_happenings (world_start False))))). typable nk"
  unfolding sample_run(6) by (simp add: typable_def untappable_def)

section \<open>Properties\<close>

text \<open>
  C16. What the daemon types is not mapped again. The user and the virtual keyboard make key events in any
  order; the virtual keyboard types the batches that the tap sent, as its reports show them, and nothing in an
  event tells where it is from. Then the engine is driven by the user's events alone: it ends in the state,
  and every event of the user has the fate, of a run over these without any virtual keyboard. Every event of the
  virtual keyboard is passed on; what it has made and what it is still to make are the events of the batches sent, in order;
  the tracker awaits exactly those it is still to make; and as long as the channel has room, the
  batches sent are those the engine decided to emit.

  The conditions (\<open>possible\<close>): every key event reaches the tap, none being lost while it is disabled; no typed
  event comes later than the echo window, so that every batch sent is delivered; the user does not make the very event that is due next; a released modifier can be seen to be up; and
  the outputs can come back (\<open>typable\<close>: no Print Screen or Pause, no output with itself as a modifier).
\<close>
theorem echoes_bypass_engine:
  assumes "all_possible lk hs (world_start lock)" and "happenings lk hs (world_start lock) = (tr, w)"
    and "\<forall>nk \<in> set (concat (mw_sent w)). typable nk"
    and "engine_run lk id (user_inputs tr) engine_new = (ds, e)"
  shows "tc_engine (mw_tap w) = e \<and> user_results tr = map result_of ds \<and> set (echo_results tr) \<subseteq> {TapPass}
    \<and> echo_events tr @ map snd (mw_due w) = concat (map typed (concat (mw_sent w)))
    \<and> pending (mw_tap w) = mw_due w
    \<and> (roomy lk hs (world_start lock) \<longrightarrow> mw_sent w = emitted ds)"
proof -
  have "tc_engine (mw_tap (world_start lock)) = engine_new" "mw_sent (world_start lock) = []"
    "mw_due (world_start lock) = []"
    by (simp_all add: world_start_def tap_context_new_def)
  with happenings_ok [OF world_start_inv assms(1-3)] assms(4) show ?thesis
    by (auto simp: run_ok_def world_inv_def)
qed

lemma echoes_bypass_engine_witness:
  "\<exists>tr w. happenings sample_lookup sample_happenings (world_start False) = (tr, w)
     \<and> echo_events tr = [\<lparr>ee_usage = Escape, ee_is_down = True\<rparr>, \<lparr>ee_usage = Escape, ee_is_down = False\<rparr>]
     \<and> emitted (fst (engine_run sample_lookup id (user_inputs tr) engine_new)) = [[\<lparr>nk_modifiers = 0, nk_usage = Escape\<rparr>]]"
proof -
  let ?r = "happenings sample_lookup sample_happenings (world_start False)"
  have h: "?r = (fst ?r, snd ?r)" by simp
  show ?thesis
    using echoes_bypass_engine [OF sample_run(1) h sample_typable prod.collapse [symmetric]] sample_run(2,4,6)
    by (intro exI [of _ "fst ?r"] exI [of _ "snd ?r"]) (simp add: escape_typed)
qed

text \<open>
  C5. Nothing stays pressed on macOS. After such a run from the start of the tap, with no key held then, once the
  user's keyboard has no key pressed and the virtual keyboard has typed everything it is to, the engine is in its
  initial state, no key that reached the clients natively is left pressed there (a consumed modifier's
  release is passed on), and none is left pressed by the virtual keyboard.

  The conditions are those of C16. One of them is that a released modifier can be seen to be up, since
  its flag is shared: \<open>twin_release_sticks\<close> shows that a key stays pressed otherwise.
\<close>
theorem mac_nothing_left_pressed:
  assumes "all_possible lk hs (world_start lock)" and "happenings lk hs (world_start lock) = (tr, w)"
    and "\<forall>nk \<in> set (concat (mw_sent w)). typable nk" and "mw_user w = {}" and "mw_due w = []"
  shows "tc_engine (mw_tap w) = engine_new \<and> fold apply_echo (native_events tr) {} = {} \<and> mw_virtual w = {}"
proof -
  obtain ds e where er: "engine_run lk id (user_inputs tr) engine_new = (ds, e)" by force
  have start: "tc_engine (mw_tap (world_start lock)) = engine_new" "mw_sent (world_start lock) = []"
    "mw_due (world_start lock) = []" "mw_user (world_start lock) = {}" "mw_virtual (world_start lock) = {}"
    by (simp_all add: world_start_def tap_context_new_def)
  have ok: "tc_engine (mw_tap w) = e" "user_results tr = map result_of ds"
    "fold step_down_keys (user_inputs tr) {} = {}" "mw_virtual w = fold apply_echo (echo_events tr) {}"
    "echo_events tr = concat (map typed (concat (mw_sent w)))"
    using happenings_ok [OF world_start_inv assms(1-3)] er start assms(4,5) by (auto simp: run_ok_def)
  have p: "pressed_keys (tracker e) = {}"
    using engine_run_pressed [of lk id "user_inputs tr" engine_new] er ok(3)
    by (simp add: engine_new_def tracker_default_def)
  have "stale_keys (tracker e) = {}"
    using engine_run_stale [of lk id "user_inputs tr" engine_new] er by (simp add: engine_new_def tracker_default_def)
  moreover have "engine_ok id e"
    using engine_run_ok [OF engine_ok_new, of id lk "user_inputs tr"] er by simp
  ultimately have "e = engine_new" using p by (intro engine_ok_no_key_down)
  moreover have "fold apply_echo (native_events tr) {} = {}"
    using native_run [OF engine_ok_new _ er, of "{}"] p by (simp add: fold_native_events ok(2))
  moreover have "mw_virtual w = {}"
    unfolding ok(4,5) key_echoes_typed [OF assms(3), symmetric] by (rule fold_key_echoes)
  ultimately show ?thesis using ok(1) by simp
qed

lemma mac_nothing_left_pressed_witness:
  "tc_engine (mw_tap (snd (happenings sample_lookup sample_happenings (world_start False)))) = engine_new"
  using mac_nothing_left_pressed [OF sample_run(1) prod.collapse [symmetric] sample_typable sample_run(5,4)] by simp

end
