(* ===== verification/Utf8.thy ===== *)
theory Utf8
  imports Rust_Str
begin

text \<open>
  Strings on a wire: the bytes of a \<open>str\<close> (\<open>as_bytes\<close>), the check of \<open>String::from_utf8\<close> (the table
  of well-formed byte sequences of the Unicode standard), and \<open>split_whitespace\<close>.
\<close>

section \<open>Bytes\<close>

definition str_bytes :: "string \<Rightarrow> bytes" where
  "str_bytes s = map (\<lambda>c. word_of_nat (of_char c)) s"

definition bytes_str :: "bytes \<Rightarrow> string" where
  "bytes_str bs = map (\<lambda>b. char_of (unat b)) bs"

lemma length_str_bytes [simp]: "length (str_bytes s) = length s"
  by (simp add: str_bytes_def)

lemma unat_char_byte: "unat (word_of_nat (of_char c) :: u8) = of_char c"
  using nat_of_char_less_256 [of c] by (simp add: unsigned_of_nat take_bit_nat_eq_self del: nat_of_char_less_256)

lemma bytes_str_bytes [simp]: "bytes_str (str_bytes s) = s"
  by (induction s) (simp_all add: str_bytes_def bytes_str_def unat_char_byte)

lemma str_bytes_str [simp]: "str_bytes (bytes_str bs) = bs"
proof (induction bs)
  case (Cons b bs)
  have "unat b < 256" by (rule order_less_le_trans [OF unsigned_less]) simp
  with Cons show ?case by (simp add: str_bytes_def bytes_str_def)
qed (simp add: str_bytes_def bytes_str_def)

lemma str_bytes_take: "str_bytes (take n s) = take n (str_bytes s)"
  by (simp add: str_bytes_def take_map)

lemma str_bytes_append: "str_bytes (s @ t) = str_bytes s @ str_bytes t"
  by (simp add: str_bytes_def)

section \<open>Well-formed UTF-8\<close>

text \<open>For the first byte of a character, the ranges of the bytes that follow it.\<close>

definition utf8_tail :: "u8 \<Rightarrow> (u8 \<times> u8) list option" where
  "utf8_tail b =
     (let t = (0x80, 0xBF) in
      if b \<le> 0x7F then Some []
      else if b < 0xC2 then None
      else if b \<le> 0xDF then Some [t]
      else if b = 0xE0 then Some [(0xA0, 0xBF), t]
      else if b = 0xED then Some [(0x80, 0x9F), t]
      else if b \<le> 0xEF then Some [t, t]
      else if b = 0xF0 then Some [(0x90, 0xBF), t, t]
      else if b \<le> 0xF3 then Some [t, t, t]
      else if b = 0xF4 then Some [(0x80, 0x8F), t, t]
      else None)"

fun in_ranges :: "(u8 \<times> u8) list \<Rightarrow> bytes \<Rightarrow> bool" where
  "in_ranges [] bs = True"
| "in_ranges (r # rs) [] = False"
| "in_ranges ((lo, hi) # rs) (b # bs) \<longleftrightarrow> lo \<le> b \<and> b \<le> hi \<and> in_ranges rs bs"

fun utf8_ok :: "bytes \<Rightarrow> bool" where
  "utf8_ok [] = True"
| "utf8_ok (b # bs) =
     (case utf8_tail b of
        None \<Rightarrow> False
      | Some rs \<Rightarrow> in_ranges rs bs \<and> utf8_ok (drop (length rs) bs))"

lemma utf8_ok_ascii: "list_all (\<lambda>b. b \<le> 0x7F) bs \<Longrightarrow> utf8_ok bs"
  by (induction bs rule: utf8_ok.induct) (simp_all add: utf8_tail_def Let_def)

lemma in_ranges_append: "in_ranges rs bs \<Longrightarrow> in_ranges rs (bs @ cs)"
  by (induction rs bs rule: in_ranges.induct) simp_all

lemma in_ranges_length: "in_ranges rs bs \<Longrightarrow> length rs \<le> length bs"
  by (induction rs bs rule: in_ranges.induct) simp_all

lemma utf8_ok_append: "utf8_ok bs \<Longrightarrow> utf8_ok cs \<Longrightarrow> utf8_ok (bs @ cs)"
  by (induction bs rule: utf8_ok.induct)
    (auto simp: in_ranges_append split: option.splits dest: in_ranges_length)

definition is_utf8 :: "string \<Rightarrow> bool" where
  "is_utf8 s \<longleftrightarrow> utf8_ok (str_bytes s)"

lemma is_utf8_ascii: "is_ascii s \<Longrightarrow> is_utf8 s"
  unfolding is_utf8_def
  by (rule utf8_ok_ascii)
    (auto simp: is_ascii_def str_bytes_def list_all_iff word_le_nat_alt unat_char_byte less_Suc_eq_le [symmetric])

lemma is_ascii_take: "is_ascii s \<Longrightarrow> is_ascii (take n s)"
  by (auto simp: is_ascii_def list_all_iff dest: in_set_takeD)

lemma is_ascii_append [simp]: "is_ascii (s @ t) \<longleftrightarrow> is_ascii s \<and> is_ascii t"
  by (simp add: is_ascii_def)

section \<open>Splitting at white space\<close>

text \<open>The word read so far, and what is left.\<close>

fun ws_words :: "string \<Rightarrow> string \<Rightarrow> string list" where
  "ws_words word [] = (if word = [] then [] else [word])"
| "ws_words word (c # cs) =
     (case prefix_len ws_encodings (c # cs) of
        0 \<Rightarrow> ws_words (word @ [c]) cs
      | Suc n \<Rightarrow> (if word = [] then [] else [word]) @ ws_words [] (drop n cs))"

definition split_whitespace :: "string \<Rightarrow> string list" where
  "split_whitespace s = ws_words [] s"

lemma plain_prefix_len: "plain_char c \<Longrightarrow> prefix_len ws_encodings (c # cs) = 0"
  by (rule prefix_len_0) (auto simp: ws_encodings_def plain_char_def)

lemma space_prefix_len: "prefix_len ws_encodings (CHR '' '' # cs) = 1"
  by (simp add: prefix_len_def ws_encodings_def)

lemma ws_words_plain: "list_all plain_char w \<Longrightarrow> ws_words v (w @ s) = ws_words (v @ w) s"
  by (induction w arbitrary: v) (simp_all add: plain_prefix_len)

lemma split_whitespace_plain: "list_all plain_char w \<Longrightarrow> w \<noteq> [] \<Longrightarrow> split_whitespace w = [w]"
  using ws_words_plain [of w "[]" "[]"] by (simp add: split_whitespace_def)

lemma split_whitespace_space: "list_all plain_char w \<Longrightarrow> w \<noteq> [] \<Longrightarrow>
    split_whitespace (w @ CHR '' '' # s) = w # split_whitespace s"
  using ws_words_plain [of w "[]" "CHR '' '' # s"] by (simp add: split_whitespace_def space_prefix_len)

section \<open>Hexadecimal digits\<close>

text \<open>A digit of the formats \<open>{:x}\<close>.\<close>

definition hex_digit :: "nat \<Rightarrow> char" where
  "hex_digit n = char_of (if n < 10 then 48 + n else 87 + n)"

definition is_ascii_hexdigit :: "char \<Rightarrow> bool" where
  "is_ascii_hexdigit c \<longleftrightarrow>
     (let n = of_char c :: nat in 48 \<le> n \<and> n \<le> 57 \<or> 65 \<le> n \<and> n \<le> 70 \<or> 97 \<le> n \<and> n \<le> 102)"

section \<open>Searching\<close>

text \<open>\<open>str::find\<close> of a text.\<close>

fun str_find :: "string \<Rightarrow> string \<Rightarrow> nat option" where
  "str_find pat [] = (if pat = [] then Some 0 else None)"
| "str_find pat (c # s) =
     (if take (length pat) (c # s) = pat then Some 0 else map_option Suc (str_find pat s))"

definition str_rfind :: "string \<Rightarrow> string \<Rightarrow> nat option" where
  "str_rfind pat s = map_option (\<lambda>i. length s - length pat - i) (str_find (rev pat) (rev s))"

lemma str_find_new_char:
  "c \<notin> set u \<Longrightarrow> str_find (c # pat) (u @ c # pat @ r) = Some (length u)"
  by (induction u) auto

lemma str_find_pair:
  "str_find [c, d] h = None \<Longrightarrow> c \<noteq> d \<Longrightarrow> str_find [c, d] (h @ c # d # r) = Some (length h)"
proof (induction h)
  case (Cons x h)
  then show ?case by (cases h) (auto split: if_splits)
qed simp

lemma str_rfind_last:
  "last pat \<notin> set u \<Longrightarrow> pat \<noteq> [] \<Longrightarrow> str_rfind pat (l @ pat @ u) = Some (length l)"
proof -
  assume u: "last pat \<notin> set u" and "pat \<noteq> []"
  then obtain p where p: "rev pat = last pat # p" by (metis hd_rev list.collapse rev_is_Nil_conv)
  have "str_find (rev pat) (rev (l @ pat @ u)) = Some (length u)"
    using str_find_new_char [of "last pat" "rev u" p "rev l"] u by (simp add: p)
  then show ?thesis by (simp add: str_rfind_def)
qed

section \<open>Lines and characters\<close>

text \<open>\<open>str::lines\<close>.\<close>

definition strip_cr :: "string \<Rightarrow> string" where
  "strip_cr s = (if s \<noteq> [] \<and> last s = CHR 0x0D then butlast s else s)"

definition str_lines :: "string \<Rightarrow> string list" where
  "str_lines s =
     (let parts = split_on (CHR 0x0A) s
      in map strip_cr (if last parts = [] then butlast parts else parts))"

text \<open>The characters of a well-formed text: a byte with the continuation bytes that follow it.\<close>

definition continuation :: "char \<Rightarrow> bool" where
  "continuation c \<longleftrightarrow> 128 \<le> (of_char c :: nat) \<and> (of_char c :: nat) < 192"

function utf8_chars :: "string \<Rightarrow> string list" where
  "utf8_chars [] = []"
| "utf8_chars (c # s) = (c # takeWhile continuation s) # utf8_chars (dropWhile continuation s)"
  by pat_completeness auto

termination utf8_chars
  by (relation "measure length") (auto simp: le_imp_less_Suc length_dropWhile_le)

lemma concat_utf8_chars: "concat (utf8_chars s) = s"
  by (induction s rule: utf8_chars.induct) simp_all

text \<open>A list of characters, each a byte with its continuation bytes; only the first may begin with one.\<close>

fun char_list :: "string list \<Rightarrow> bool" where
  "char_list [] \<longleftrightarrow> True"
| "char_list (x # xs) \<longleftrightarrow> x \<noteq> [] \<and> list_all continuation (tl x) \<and>
     (xs \<noteq> [] \<longrightarrow> hd xs \<noteq> [] \<and> \<not> continuation (hd (hd xs))) \<and> char_list xs"

lemma char_list_utf8_chars: "char_list (utf8_chars s)"
proof (induction s rule: utf8_chars.induct)
  case (2 c s)
  have "list_all continuation (takeWhile continuation s)" by (auto simp: list_all_iff dest: set_takeWhileD)
  moreover have "utf8_chars (dropWhile continuation s) = [] \<or> \<not> continuation (hd (hd (utf8_chars (dropWhile continuation s))))"
  proof (cases "dropWhile continuation s")
    case (Cons d u)
    then have "\<not> continuation d" using hd_dropWhile [of continuation s] by simp
    with Cons show ?thesis by simp
  next
    case Nil
    show ?thesis by (simp only: Nil utf8_chars.simps simp_thms)
  qed
  moreover have "utf8_chars (dropWhile continuation s) \<noteq> [] \<Longrightarrow> hd (utf8_chars (dropWhile continuation s)) \<noteq> []"
    by (cases "dropWhile continuation s") auto
  ultimately show ?case using 2 by auto
qed simp

lemma utf8_chars_concat: "char_list xs \<Longrightarrow> utf8_chars (concat xs) = xs"
proof (induction xs)
  case (Cons x xs)
  obtain c t where x: "x = c # t" "list_all continuation t" using Cons.prems by (cases x) auto
  have all: "\<And>d. d \<in> set t \<Longrightarrow> continuation d" using x(2) by (simp add: list_all_iff)
  have "takeWhile continuation (concat xs) = [] \<and> dropWhile continuation (concat xs) = concat xs"
  proof (cases xs)
    case (Cons y ys)
    then have "y \<noteq> []" "\<not> continuation (hd y)" using \<open>char_list (x # xs)\<close> by simp_all
    then show ?thesis using Cons by (cases y) simp_all
  qed simp
  then have "takeWhile continuation (t @ concat xs) = t \<and> dropWhile continuation (t @ concat xs) = concat xs"
    by (simp add: takeWhile_append2 [OF all] dropWhile_append2 [OF all])
  with Cons x show ?case by simp
qed simp

lemma char_list_take: "char_list xs \<Longrightarrow> char_list (take n xs)"
proof (induction xs arbitrary: n)
  case (Cons x xs)
  then show ?case by (cases n) (auto simp: hd_take)
qed simp

lemma char_list_append:
  "char_list xs \<Longrightarrow> char_list ys \<Longrightarrow> ys = [] \<or> \<not> continuation (hd (hd ys)) \<Longrightarrow> char_list (xs @ ys)"
proof (induction xs)
  case (Cons x xs)
  then show ?case by (cases xs; cases ys) auto
qed simp

end
