(* ===== verification/Logging.thy ===== *)
theory Logging
  imports Rust_Str Frame
begin

text \<open>
  \<open>src/daemon/logging.rs\<close>: the runtime log level with its gate, and the writer that removes the
  latency field the logging library puts into every line. The sink, the format of a line and the
  parser of level names (\<open>parse_level\<close>) belong to the libraries \<open>log\<close> and \<open>ftlog\<close>.
\<close>

section \<open>Levels\<close>

datatype level_filter = LvlOff | LvlError | LvlWarn | LvlInfo | LvlDebug | LvlTrace

definition level_to_u8 :: "level_filter \<Rightarrow> u8" where
  "level_to_u8 level =
     (case level of LvlOff \<Rightarrow> 0 | LvlError \<Rightarrow> 1 | LvlWarn \<Rightarrow> 2 | LvlInfo \<Rightarrow> 3 | LvlDebug \<Rightarrow> 4 | LvlTrace \<Rightarrow> 5)"

definition level_from_u8 :: "u8 \<Rightarrow> level_filter" where
  "level_from_u8 value =
     (if value = 0 then LvlOff else if value = 1 then LvlError else if value = 2 then LvlWarn
      else if value = 3 then LvlInfo else if value = 4 then LvlDebug else LvlTrace)"

definition DEFAULT_LEVEL :: level_filter where "DEFAULT_LEVEL = LvlInfo"

lemma level_from_to_u8 [simp]: "level_from_u8 (level_to_u8 level) = level"
  by (cases level) (simp_all add: level_from_u8_def level_to_u8_def)

lemma level_to_u8_inject: "level_to_u8 l = level_to_u8 m \<longleftrightarrow> l = m"
  by (metis level_from_to_u8)

text \<open>The library orders the levels as declared, \<open>Off\<close> first.\<close>

instantiation level_filter :: linorder
begin

definition less_eq_level_filter :: "level_filter \<Rightarrow> level_filter \<Rightarrow> bool" where
  "less_eq_level_filter l m \<longleftrightarrow> level_to_u8 l \<le> level_to_u8 m"

definition less_level_filter :: "level_filter \<Rightarrow> level_filter \<Rightarrow> bool" where
  "less_level_filter l m \<longleftrightarrow> level_to_u8 l < level_to_u8 m"

instance
  by standard (auto simp: less_eq_level_filter_def less_level_filter_def order_less_le level_to_u8_inject)

end

section \<open>The gate\<close>

text \<open>The two statics: \<open>INITIALIZED\<close> and \<open>CURRENT_LEVEL\<close>.\<close>

record log_gate =
  lg_initialized :: bool
  lg_current_level :: u8

definition log_gate_start :: log_gate where
  "log_gate_start = \<lparr>lg_initialized = False, lg_current_level = level_to_u8 DEFAULT_LEVEL\<rparr>"

definition parse_log_level :: "(string \<Rightarrow> level_filter option) \<Rightarrow> string option \<Rightarrow> level_filter" where
  "parse_log_level parse_level value =
     (case Option.bind value (\<lambda>s. parse_level (trim s)) of Some level \<Rightarrow> level | None \<Rightarrow> DEFAULT_LEVEL)"

definition log_init :: "(string \<Rightarrow> level_filter option) \<Rightarrow> string option \<Rightarrow> log_gate \<Rightarrow> log_gate" where
  "log_init parse_level env g =
     (if lg_initialized g then g
      else \<lparr>lg_initialized = True, lg_current_level = level_to_u8 (parse_log_level parse_level env)\<rparr>)"

definition set_level :: "level_filter \<Rightarrow> log_gate \<Rightarrow> log_gate" where
  "set_level level g = g\<lparr>lg_current_level := level_to_u8 level\<rparr>"

text \<open>A record is its level (never \<open>LvlOff\<close>) and its text; the sink is what it has been given.\<close>

definition gate_enabled :: "level_filter \<Rightarrow> log_gate \<Rightarrow> bool" where
  "gate_enabled level g \<longleftrightarrow> level \<le> level_from_u8 (lg_current_level g)"

definition gate_log :: "level_filter \<times> 't \<Rightarrow> log_gate \<Rightarrow> (level_filter \<times> 't) list \<Rightarrow> (level_filter \<times> 't) list" where
  "gate_log rec g sink = (if gate_enabled (fst rec) g then sink @ [rec] else sink)"

definition current_level :: "log_gate \<Rightarrow> level_filter" where
  "current_level g = level_from_u8 (lg_current_level g)"

lemma current_level_set [simp]: "current_level (set_level level g) = level"
  by (simp add: current_level_def set_level_def)

section \<open>The latency field\<close>

definition is_ascii_digit :: "u8 \<Rightarrow> bool" where
  "is_ascii_digit b \<longleftrightarrow> 48 \<le> b \<and> b \<le> 57"

definition SPACE :: u8 where "SPACE = 32"

definition ms_space :: bytes where "ms_space = [109, 115, 32]"

text \<open>The loop of \<open>find_latency_field\<close>, from the position \<open>from\<close> on.\<close>

function latency_search :: "bytes \<Rightarrow> nat \<Rightarrow> (nat \<times> nat) option" where
  "latency_search line start_at =
     (case position (\<lambda>b. b = SPACE) (drop start_at line) of
        None \<Rightarrow> None
      | Some rel \<Rightarrow>
          (let start = start_at + rel;
               rest = drop (start + 1) line;
               digits = length (takeWhile is_ascii_digit rest)
           in if digits > 0 \<and> take 3 (drop digits rest) = ms_space then Some (start, start + 1 + digits + 3)
              else latency_search line (start + 1)))"
  by pat_completeness auto

termination latency_search
  by (relation "measure (\<lambda>(line, start_at). length line - start_at)")
    (auto dest: position_Some)

declare latency_search.simps [simp del]

definition find_latency_field :: "bytes \<Rightarrow> (nat \<times> nat) option" where
  "find_latency_field line = latency_search line 0"

text \<open>\<open>LatencyStrippingWriter::write\<close>, over the \<open>write_all\<close> of the writer inside.\<close>

definition latency_write ::
  "(bytes \<Rightarrow> 'w \<Rightarrow> (io_kind + unit) \<times> 'w) \<Rightarrow> bytes \<Rightarrow> 'w \<Rightarrow> (io_kind + nat) \<times> 'w" where
  "latency_write write_all buf w =
     (case find_latency_field buf of
        Some (start, finish) \<Rightarrow>
          (case write_all (take start buf) w of
             (Inl e, w1) \<Rightarrow> (Inl e, w1)
           | (Inr _, w1) \<Rightarrow>
               (case write_all (drop finish buf) w1 of
                  (Inl e, w2) \<Rightarrow> (Inl e, w2)
                | (Inr _, w2) \<Rightarrow> (Inr (length buf), w2)))
      | None \<Rightarrow>
          (case write_all buf w of
             (Inl e, w1) \<Rightarrow> (Inl e, w1)
           | (Inr _, w1) \<Rightarrow> (Inr (length buf), w1)))"

section \<open>The search finds the first field\<close>

text \<open>Where the field that starts at a position ends, if one starts there.\<close>

definition field_end :: "bytes \<Rightarrow> nat \<Rightarrow> nat option" where
  "field_end line s =
     (let rest = drop (s + 1) line; digits = length (takeWhile is_ascii_digit rest)
      in if s < length line \<and> line ! s = SPACE \<and> digits > 0 \<and> take 3 (drop digits rest) = ms_space
         then Some (s + 1 + digits + 3) else None)"

lemma first_at:
  fixes f :: "nat \<Rightarrow> 'b option"
  assumes "\<And>j. n \<le> j \<Longrightarrow> j < k \<Longrightarrow> f j = None" "n \<le> k" "f k = Some x"
  shows "n \<le> s \<and> f s = Some e \<and> (\<forall>j. n \<le> j \<and> j < s \<longrightarrow> f j = None) \<longleftrightarrow> s = k \<and> e = x"
  using assms by (cases s k rule: linorder_cases) auto

lemma first_after:
  fixes f :: "nat \<Rightarrow> 'b option"
  assumes "\<And>j. n \<le> j \<Longrightarrow> j < k \<Longrightarrow> f j = None" "n \<le> k" "f k = None"
  shows "n \<le> s \<and> f s = Some e \<and> (\<forall>j. n \<le> j \<and> j < s \<longrightarrow> f j = None) \<longleftrightarrow>
    k + 1 \<le> s \<and> f s = Some e \<and> (\<forall>j. k + 1 \<le> j \<and> j < s \<longrightarrow> f j = None)"
proof -
  have below: "f j = None" if "n \<le> j" "j \<le> k" for j
    using assms that by (cases "j = k") auto
  show ?thesis
  proof
    assume l: "n \<le> s \<and> f s = Some e \<and> (\<forall>j. n \<le> j \<and> j < s \<longrightarrow> f j = None)"
    then have "\<not> s \<le> k" using below [of s] by auto
    with l assms(2) show "k + 1 \<le> s \<and> f s = Some e \<and> (\<forall>j. k + 1 \<le> j \<and> j < s \<longrightarrow> f j = None)" by auto
  next
    assume r: "k + 1 \<le> s \<and> f s = Some e \<and> (\<forall>j. k + 1 \<le> j \<and> j < s \<longrightarrow> f j = None)"
    then have "f j = None" if "n \<le> j" "j < s" for j
      using below [of j] that by (cases "j \<le> k") auto
    with r assms(2) show "n \<le> s \<and> f s = Some e \<and> (\<forall>j. n \<le> j \<and> j < s \<longrightarrow> f j = None)" by auto
  qed
qed

lemma latency_search_spec:
  "latency_search line n = Some (s, e) \<longleftrightarrow>
     n \<le> s \<and> field_end line s = Some e \<and> (\<forall>j. n \<le> j \<and> j < s \<longrightarrow> field_end line j = None)"
proof (induction line n rule: latency_search.induct)
  case (1 line n)
  show ?case
  proof (cases "position (\<lambda>b. b = SPACE) (drop n line)")
    case None
    have "field_end line j = None" if "n \<le> j" for j
    proof (cases "j < length line")
      case True
      with that have "drop n line ! (j - n) \<in> set (drop n line)" by (intro nth_mem) auto
      with None that True have "line ! j \<noteq> SPACE" by (auto simp: position_None)
      then show ?thesis by (simp add: field_end_def)
    qed (simp add: field_end_def)
    with None show ?thesis by (auto simp: latency_search.simps [of line n])
  next
    case (Some rel)
    let ?rest = "drop (n + rel + 1) line"
    let ?digits = "length (takeWhile is_ascii_digit ?rest)"
    note q = position_Some [OF Some]
    then have nl: "n \<le> length line" by (metis length_drop not_less0 diff_is_0_eq nat_le_linear)
    with q have p: "n + rel < length line" "line ! (n + rel) = SPACE" by (simp_all, linarith)
    have before: "field_end line j = None" if j: "n \<le> j" "j < n + rel" for j
    proof -
      have "j - n < rel" using j by simp
      then have "line ! j \<noteq> SPACE" using nl position_first [OF Some, of "j - n"] j by simp
      then show ?thesis by (simp add: field_end_def)
    qed
    have here: "field_end line (n + rel) =
        (if ?digits > 0 \<and> take 3 (drop ?digits ?rest) = ms_space then Some (n + rel + 1 + ?digits + 3) else None)"
      using p by (simp add: field_end_def Let_def)
    show ?thesis
    proof (cases "?digits > 0 \<and> take 3 (drop ?digits ?rest) = ms_space")
      case True
      then have "latency_search line n = Some (n + rel, n + rel + 1 + ?digits + 3)"
        by (subst latency_search.simps) (simp add: Some Let_def)
      with first_at [of n "n + rel" "field_end line" "n + rel + 1 + ?digits + 3" s e] before here True
      show ?thesis by auto
    next
      case False
      then have "latency_search line n = latency_search line (n + rel + 1)"
        by (subst latency_search.simps) (simp only: Some option.case Let_def if_False)
      with "1.IH" [OF Some refl refl refl False] first_after [of n "n + rel" "field_end line" s e] before here False
      show ?thesis by simp
    qed
  qed
qed

lemma find_latency_field_Some:
  "find_latency_field line = Some (s, e) \<longleftrightarrow> field_end line s = Some e \<and> (\<forall>j < s. field_end line j = None)"
  by (simp add: find_latency_field_def latency_search_spec)

lemma find_latency_field_None:
  "find_latency_field line = None \<longleftrightarrow> (\<forall>j. field_end line j = None)"
proof
  assume "find_latency_field line = None"
  then have n: "\<not> (field_end line s = Some e \<and> (\<forall>j < s. field_end line j = None))" for s e
    by (metis find_latency_field_Some option.distinct(1))
  show "\<forall>j. field_end line j = None"
  proof
    fix j show "field_end line j = None"
      by (induction j rule: less_induct) (metis n not_None_eq)
  qed
next
  assume "\<forall>j. field_end line j = None"
  then show "find_latency_field line = None"
    by (metis find_latency_field_Some option.distinct(1) surj_pair not_None_eq)
qed

text \<open>
  A field that starts before a space of the line ends with that space at the latest: what follows
  the space does not matter.
\<close>

lemma field_end_prefix:
  assumes "field_end (ts @ SPACE # after) j = Some e" "j < length ts"
  shows "field_end (ts @ [SPACE]) j = Some e"
proof -
  let ?k = "length ts - (j + 1)"
  define pre where "pre = drop (j + 1) ts"
  have lp: "length pre = ?k" by (simp add: pre_def)
  have r1: "drop (j + 1) (ts @ SPACE # after) = pre @ SPACE # after"
    and r2: "drop (j + 1) (ts @ [SPACE]) = pre @ [SPACE]"
    using assms(2) by (simp_all add: pre_def)
  have nd: "\<not> is_ascii_digit SPACE" by (simp add: is_ascii_digit_def SPACE_def)
  let ?d = "length (takeWhile is_ascii_digit (pre @ SPACE # after))"
  have d: "length (takeWhile is_ascii_digit (pre @ [SPACE])) = ?d"
    by (cases "\<forall>x \<in> set pre. is_ascii_digit x") (auto simp: nd takeWhile_append)
  have dk: "?d \<le> length pre"
    by (cases "\<forall>x \<in> set pre. is_ascii_digit x") (auto simp: nd takeWhile_append length_takeWhile_le)
  have c: "((ts @ SPACE # after) ! j = SPACE \<and> ?d > 0 \<and> take 3 (drop ?d (pre @ SPACE # after)) = ms_space)
      \<and> j + 1 + ?d + 3 = e"
    using assms(1) unfolding field_end_def Let_def r1 by (metis option.distinct(1) option.inject)
  then have m: "take 3 (drop ?d (pre @ SPACE # after)) = ms_space" and e: "?d > 0" "e = j + 1 + ?d + 3" "ts ! j = SPACE"
    using assms(2) by (simp_all only: nth_append if_True)
  obtain q where q: "pre = take ?d pre @ q" by (metis append_take_drop_id)
  have "drop ?d pre = q" using q dk by (metis append_eq_append_conv append_take_drop_id)
  then have m': "take 3 (q @ SPACE # after) = ms_space" using m dk by simp
  have "take 3 (q @ [SPACE]) = ms_space"
  proof (cases q)
    case (Cons a q1)
    with m' show ?thesis
      by (cases q1; cases "tl q1") (auto simp: ms_space_def SPACE_def)
  qed (use m' in \<open>simp add: ms_space_def SPACE_def take_Cons'\<close>)
  then have "take 3 (drop ?d (pre @ [SPACE])) = ms_space" using \<open>drop ?d pre = q\<close> dk by simp
  with d e assms(2) show ?thesis
    unfolding field_end_def Let_def r2 by (simp add: nth_append)
qed

section \<open>Properties\<close>

text \<open>
  Exactly the latency field is removed from a line of the log. If the library writes a timestamp,
  which contains no such field itself, then a space, the latency as digits followed by \<open>ms\<close>, a space,
  and the body, then the writer inside gets the timestamp and the body and nothing else, whatever the
  body contains (even another field); and the whole line is reported as written.
\<close>
theorem latency_field_stripped:
  assumes "find_latency_field (ts @ [SPACE]) = None"
    and "digits \<noteq> []" and "list_all is_ascii_digit digits"
    and "\<And>bs w. write_all bs w = (Inr (), w @ bs)"
  shows "latency_write write_all (ts @ [SPACE] @ digits @ ms_space @ body) out
    = (Inr (length ts + 1 + length digits + 3 + length body), out @ ts @ body)"
proof -
  let ?line = "ts @ SPACE # digits @ ms_space @ body"
  have tw: "takeWhile is_ascii_digit (digits @ ms_space @ body) = digits"
    using assms(3) by (simp add: takeWhile_append2 list_all_iff ms_space_def is_ascii_digit_def)
  have "field_end ?line (length ts) = Some (length ts + 1 + length digits + 3)"
    using assms(2) by (simp add: field_end_def Let_def tw) (simp add: ms_space_def)
  moreover have "field_end ?line j = None" if "j < length ts" for j
    using field_end_prefix [OF _ that, of "digits @ ms_space @ body"] assms(1)
    by (cases "field_end ?line j") (auto simp: find_latency_field_None)
  ultimately have "find_latency_field ?line = Some (length ts, length ts + 1 + length digits + 3)"
    by (simp add: find_latency_field_Some)
  then show ?thesis by (simp add: latency_write_def assms(4)) (simp add: ms_space_def numeral_eq_Suc)
qed

text \<open>The body repeats the field; the timestamp is \<open>12:3\<close>.\<close>

lemma latency_field_stripped_witness:
  "latency_write (\<lambda>bs w. (Inr (), w @ bs)) ([49, 50, 58, 51] @ [SPACE] @ [55] @ ms_space @ [97, 32, 53, 109, 115, 32]) [10]
    = (Inr 15, [10, 49, 50, 58, 51, 97, 32, 53, 109, 115, 32])"
proof -
  have "find_latency_field ([49, 50, 58, 51] @ [SPACE]) = None"
    by (simp add: find_latency_field_def latency_search.simps SPACE_def)
  from latency_field_stripped [OF this, of "[55]" "\<lambda>bs w. (Inr (), w @ bs)" "[97, 32, 53, 109, 115, 32]" "[10]"]
  show ?thesis by (simp add: is_ascii_digit_def)
qed

end
