(* ===== verification/Control.thy ===== *)
theory Control
  imports Utf8 Logging
begin

text \<open>
  \<open>src/daemon/control/mod.rs\<close>: the commands of the control socket. A request is one frame with a
  command line, the reply one frame with a line; the level of the log is the state of \<open>Logging\<close>, the
  request to shut down a flag. The transport is a parameter: the script of reads of a stream, and the
  \<open>write_all\<close> and \<open>flush\<close> of a writer. The parser of level names belongs to the library \<open>log\<close>.
\<close>

definition CONTROL_MAX_PAYLOAD :: nat where "CONTROL_MAX_PAYLOAD = 256"

section \<open>Errors\<close>

datatype control_error =
    CtlTooShort nat
  | CtlUnsupportedVersion u8
  | CtlPayloadTooLarge nat
  | CtlTruncated nat nat
  | CtlInvalidUtf8
  | CtlEof
  | CtlConnect string
  | CtlIo io_kind

definition control_error_from :: "frame_error \<Rightarrow> control_error" where
  "control_error_from e =
     (case e of
        TooShort n \<Rightarrow> CtlTooShort n
      | UnsupportedVersion v \<Rightarrow> CtlUnsupportedVersion v
      | PayloadTooLarge n \<Rightarrow> CtlPayloadTooLarge n
      | Truncated need have_n \<Rightarrow> CtlTruncated need have_n
      | Eof \<Rightarrow> CtlEof
      | Io k \<Rightarrow> CtlIo k)"

text \<open>\<open>PartialEq\<close>: two I/O errors are equal whatever their kinds.\<close>

definition control_error_eq :: "control_error \<Rightarrow> control_error \<Rightarrow> bool" where
  "control_error_eq a b =
     (case (a, b) of
        (CtlTooShort m, CtlTooShort n) \<Rightarrow> m = n
      | (CtlUnsupportedVersion m, CtlUnsupportedVersion n) \<Rightarrow> m = n
      | (CtlPayloadTooLarge m, CtlPayloadTooLarge n) \<Rightarrow> m = n
      | (CtlTruncated an ah, CtlTruncated bn bh) \<Rightarrow> an = bn \<and> ah = bh
      | (CtlInvalidUtf8, CtlInvalidUtf8) \<Rightarrow> True
      | (CtlEof, CtlEof) \<Rightarrow> True
      | (CtlConnect s, CtlConnect t) \<Rightarrow> s = t
      | (CtlIo _, CtlIo _) \<Rightarrow> True
      | _ \<Rightarrow> False)"

section \<open>Replies\<close>

datatype response = RespOk string | RespError string

definition display_response :: "response \<Rightarrow> string" where
  "display_response r = (case r of RespOk v \<Rightarrow> ''OK '' @ v | RespError reason \<Rightarrow> ''ERROR '' @ reason)"

definition level_name :: "level_filter \<Rightarrow> string" where
  "level_name level =
     (case level of LvlOff \<Rightarrow> ''off'' | LvlError \<Rightarrow> ''error'' | LvlWarn \<Rightarrow> ''warn''
      | LvlInfo \<Rightarrow> ''info'' | LvlDebug \<Rightarrow> ''debug'' | LvlTrace \<Rightarrow> ''trace'')"

section \<open>Dispatch\<close>

text \<open>
  The uid of the daemon is \<open>Some\<close> on Unix and \<open>None\<close> on Windows, where the check of the peer's uid is
  not compiled.
\<close>

definition unexpected_argument :: "string \<Rightarrow> response" where
  "unexpected_argument extra = RespError (''unexpected argument '' @ [CHR 0x27] @ extra @ [CHR 0x27])"

definition dispatch ::
  "(string \<Rightarrow> level_filter option) \<Rightarrow> u32 option \<Rightarrow> string \<Rightarrow> u32 \<Rightarrow> log_gate \<Rightarrow> response \<times> log_gate" where
  "dispatch parse_level getuid command peer_uid g =
     (case split_whitespace command of
        [] \<Rightarrow> (RespError ''empty command'', g)
      | verb # parts \<Rightarrow>
          if verb = ''SET-LOG-LEVEL'' then
            (case (case parts of [] \<Rightarrow> None | a # _ \<Rightarrow> parse_level a) of
               None \<Rightarrow> (RespError ''invalid level; expected error, warn, info, debug, or trace'', g)
             | Some level \<Rightarrow>
                 (case tl parts of
                    extra # _ \<Rightarrow> (unexpected_argument extra, g)
                  | [] \<Rightarrow>
                      if LvlDebug \<le> level \<and> peer_uid = 0 \<and> (case getuid of Some uid \<Rightarrow> uid \<noteq> 0 | None \<Rightarrow> False)
                      then (RespError ''refusing to raise log level to debug/trace from root on a non-root daemon'', g)
                      else (RespOk (level_name level), set_level level g)))
          else if verb = ''SHUTDOWN'' then
            (case parts of
               extra # _ \<Rightarrow> (unexpected_argument extra, g)
             | [] \<Rightarrow> (RespOk ''shutting down'', g))
          else if verb = ''STATUS'' \<or> verb = ''VERSION'' \<or> verb = ''RELOAD'' then
            (RespError (verb @ '' is not implemented yet''), g)
          else (RespError ''unknown command'', g))"

section \<open>Framing\<close>

definition control_write_frame ::
  "(bytes \<Rightarrow> 'w \<Rightarrow> (io_kind + unit) \<times> 'w) \<Rightarrow> ('w \<Rightarrow> (io_kind + unit) \<times> 'w) \<Rightarrow> string \<Rightarrow> 'w
    \<Rightarrow> (control_error + unit) \<times> 'w" where
  "control_write_frame write_all flush payload w =
     (let bs = str_bytes payload;
          bs1 = take (min (length bs) CONTROL_MAX_PAYLOAD) bs
      in case write_frame write_all flush bs1 w of
           (Inl e, w1) \<Rightarrow> (Inl (control_error_from e), w1)
         | (Inr _, w1) \<Rightarrow> (Inr (), w1))"

definition control_read_frame :: "stream_event list \<Rightarrow> (control_error + string) \<times> stream_event list" where
  "control_read_frame es =
     (case read_payload CONTROL_MAX_PAYLOAD es of
        (Inl e, es1) \<Rightarrow> (Inl (control_error_from e), es1)
      | (Inr payload, es1) \<Rightarrow> (if utf8_ok payload then Inr (bytes_str payload) else Inl CtlInvalidUtf8, es1))"

section \<open>Server\<close>

record daemon_state =
  ds_gate :: log_gate
  ds_shutdown :: bool

definition request_shutdown :: "daemon_state \<Rightarrow> daemon_state" where
  "request_shutdown st = st\<lparr>ds_shutdown := True\<rparr>"

definition control_handle_connection ::
  "(string \<Rightarrow> level_filter option) \<Rightarrow> u32 option
    \<Rightarrow> (bytes \<Rightarrow> 'w \<Rightarrow> (io_kind + unit) \<times> 'w) \<Rightarrow> ('w \<Rightarrow> (io_kind + unit) \<times> 'w)
    \<Rightarrow> u32 \<Rightarrow> stream_event list \<Rightarrow> 'w \<Rightarrow> daemon_state \<Rightarrow> (control_error + unit) \<times> 'w \<times> daemon_state" where
  "control_handle_connection parse_level getuid write_all flush peer_uid es w st =
     (case control_read_frame es of
        (Inl e, _) \<Rightarrow> (Inl e, w, st)
      | (Inr command, _) \<Rightarrow>
          (let (reply, g) = dispatch parse_level getuid command peer_uid (ds_gate st);
               st1 = st\<lparr>ds_gate := g\<rparr>
           in case control_write_frame write_all flush (display_response reply) w of
                (Inl e, w1) \<Rightarrow> (Inl e, w1, st1)
              | (Inr _, w1) \<Rightarrow>
                  (case split_whitespace command of
                     first # _ \<Rightarrow> if first = ''SHUTDOWN'' then (Inr (), w1, request_shutdown st1) else (Inr (), w1, st1)
                   | [] \<Rightarrow> (Inr (), w1, st1))))"

definition serve_connection ::
  "(string \<Rightarrow> level_filter option) \<Rightarrow> u32 option
    \<Rightarrow> (bytes \<Rightarrow> 'w \<Rightarrow> (io_kind + unit) \<times> 'w) \<Rightarrow> ('w \<Rightarrow> (io_kind + unit) \<times> 'w)
    \<Rightarrow> u32 \<Rightarrow> stream_event list \<Rightarrow> 'w \<Rightarrow> daemon_state \<Rightarrow> bool \<times> 'w \<times> daemon_state" where
  "serve_connection parse_level getuid write_all flush peer_uid es w st =
     (case control_handle_connection parse_level getuid write_all flush peer_uid es w st of
        (Inr _, w1, st1) \<Rightarrow> (True, w1, st1)
      | (Inl _, w1, st1) \<Rightarrow> (False, w1, st1))"

section \<open>Client\<close>

text \<open>The bytes written, and the answer, which is read from the script \<open>es\<close>.\<close>

definition exchange ::
  "(bytes \<Rightarrow> 'w \<Rightarrow> (io_kind + unit) \<times> 'w) \<Rightarrow> ('w \<Rightarrow> (io_kind + unit) \<times> 'w)
    \<Rightarrow> string \<Rightarrow> stream_event list \<Rightarrow> 'w \<Rightarrow> (control_error + string) \<times> 'w" where
  "exchange write_all flush command es w =
     (case control_write_frame write_all flush command w of
        (Inl e, w1) \<Rightarrow> (Inl e, w1)
      | (Inr _, w1) \<Rightarrow> (fst (control_read_frame es), w1))"

text \<open>
  The two requests of the CLI. \<open>conn\<close> is the result of connecting: the message of \<open>connect_error\<close>, or
  the stream.
\<close>

definition client_set_log_level ::
  "(bytes \<Rightarrow> 'w \<Rightarrow> (io_kind + unit) \<times> 'w) \<Rightarrow> ('w \<Rightarrow> (io_kind + unit) \<times> 'w)
    \<Rightarrow> string + (stream_event list \<times> 'w) \<Rightarrow> level_filter \<Rightarrow> control_error + string" where
  "client_set_log_level write_all flush conn level =
     (case conn of
        Inl e \<Rightarrow> Inl (CtlConnect e)
      | Inr (es, w) \<Rightarrow> fst (exchange write_all flush (''SET-LOG-LEVEL '' @ level_name level) es w))"

definition client_shutdown ::
  "(bytes \<Rightarrow> 'w \<Rightarrow> (io_kind + unit) \<times> 'w) \<Rightarrow> ('w \<Rightarrow> (io_kind + unit) \<times> 'w)
    \<Rightarrow> string + (stream_event list \<times> 'w) \<Rightarrow> control_error + string" where
  "client_shutdown write_all flush conn =
     (case conn of
        Inl e \<Rightarrow> Inl (CtlConnect e)
      | Inr (es, w) \<Rightarrow> fst (exchange write_all flush ''SHUTDOWN'' es w))"

section \<open>What one side writes the other reads\<close>

text \<open>A socket that takes what it is given.\<close>

definition wire_write :: "bytes \<Rightarrow> bytes \<Rightarrow> (io_kind + unit) \<times> bytes" where
  "wire_write bs w = (Inr (), w @ bs)"

definition wire_flush :: "bytes \<Rightarrow> (io_kind + unit) \<times> bytes" where
  "wire_flush w = (Inr (), w)"

lemma control_write_wire:
  "control_write_frame wire_write wire_flush s w
    = (Inr (), w @ encode (str_bytes (take CONTROL_MAX_PAYLOAD s)))"
  by (simp add: control_write_frame_def write_frame_def wire_write_def wire_flush_def str_bytes_take min_def Let_def)

lemma control_read_written:
  assumes "uninterrupted es" "stream_bytes es = encode (str_bytes (take CONTROL_MAX_PAYLOAD s)) @ rest"
  shows "fst (control_read_frame es) =
    (if is_utf8 (take CONTROL_MAX_PAYLOAD s) then Inr (take CONTROL_MAX_PAYLOAD s) else Inl CtlInvalidUtf8)"
proof -
  have "payload_ok CONTROL_MAX_PAYLOAD (str_bytes (take CONTROL_MAX_PAYLOAD s))"
    by (simp add: payload_ok_def CONTROL_MAX_PAYLOAD_def min_def)
  from read_payload_frame [OF assms(1) this assms(2)] show ?thesis
    by (auto simp: control_read_frame_def is_utf8_def)
qed

text \<open>The daemon's side of one connection.\<close>

lemma control_handle_wire:
  assumes "is_utf8 command" "length command \<le> CONTROL_MAX_PAYLOAD"
    and "uninterrupted es" "stream_bytes es = encode (str_bytes command) @ rest"
  shows "control_handle_connection parse_level getuid wire_write wire_flush peer_uid es [] st =
    (let (reply, g) = dispatch parse_level getuid command peer_uid (ds_gate st)
     in (Inr (), encode (str_bytes (take CONTROL_MAX_PAYLOAD (display_response reply))),
         \<lparr>ds_gate = g, ds_shutdown = ds_shutdown st \<or> take 1 (split_whitespace command) = [''SHUTDOWN'']\<rparr>))"
proof -
  obtain es1 where "control_read_frame es = (Inr command, es1)"
    using control_read_written [OF assms(3), of command] assms by (cases "control_read_frame es") simp
  then show ?thesis
    by (cases st) (auto simp: control_handle_connection_def control_write_wire Let_def request_shutdown_def
        split: prod.split list.split)
qed

lemma exchange_wire:
  assumes "uninterrupted es" "stream_bytes es = encode (str_bytes (take CONTROL_MAX_PAYLOAD reply))"
  shows "fst (exchange wire_write wire_flush command es []) =
    (if is_utf8 (take CONTROL_MAX_PAYLOAD reply) then Inr (take CONTROL_MAX_PAYLOAD reply) else Inl CtlInvalidUtf8)"
  using control_read_written [OF assms(1), of reply "[]"] assms(2) by (simp add: exchange_def control_write_wire)

lemma utf8_ok_append_iff: "utf8_ok bs \<Longrightarrow> utf8_ok (bs @ cs) \<longleftrightarrow> utf8_ok cs"
  by (induction bs rule: utf8_ok.induct)
    (auto simp: in_ranges_append split: option.splits dest: in_ranges_length)

section \<open>The words of the requests\<close>

lemma level_name_plain: "list_all plain_char (level_name level) \<and> level_name level \<noteq> []"
  by (cases level) (simp_all add: level_name_def plain_char_def)

lemma split_set_log_level:
  "split_whitespace (''SET-LOG-LEVEL '' @ level_name level) = [''SET-LOG-LEVEL'', level_name level]"
proof -
  have "split_whitespace (''SET-LOG-LEVEL'' @ CHR '' '' # level_name level)
      = ''SET-LOG-LEVEL'' # split_whitespace (level_name level)"
    by (rule split_whitespace_space) (simp_all add: plain_char_def)
  then show ?thesis using split_whitespace_plain level_name_plain [of level] by simp
qed

text \<open>When the request of a level is refused.\<close>

definition refused :: "u32 option \<Rightarrow> u32 \<Rightarrow> level_filter \<Rightarrow> bool" where
  "refused getuid peer_uid level \<longleftrightarrow>
     LvlDebug \<le> level \<and> peer_uid = 0 \<and> (\<exists>uid. getuid = Some uid \<and> uid \<noteq> 0)"

lemma dispatch_changes_level:
  "dispatch parse_level getuid command peer_uid g = (reply, g') \<Longrightarrow>
     g' = g \<or> (\<exists>a level. split_whitespace command = [''SET-LOG-LEVEL'', a] \<and> parse_level a = Some level
       \<and> \<not> refused getuid peer_uid level \<and> reply = RespOk (level_name level) \<and> g' = set_level level g)"
  by (auto simp: dispatch_def refused_def tl_def split: list.splits option.splits if_splits)

section \<open>Properties\<close>

text \<open>
  C30. Setting the log level works end to end. However the two directions of the socket are cut into reads
  and interrupted, the client gets the reply of the daemon: if the daemon may raise the level for this
  peer, the reply names the level and the daemon's gate admits exactly the records up to it; if not
  (a verbose level, a root peer, a daemon that is not root), the reply is the refusal and the level
  stays. The assumption on the parser of level names is what the library documents.
\<close>
theorem set_log_level_end_to_end:
  assumes "parse_level (level_name level) = Some level"
    and "uninterrupted es"
    and "stream_bytes es = snd (control_write_frame wire_write wire_flush (''SET-LOG-LEVEL '' @ level_name level) [])"
    and "control_handle_connection parse_level getuid wire_write wire_flush peer_uid es [] st = (res, out, st')"
    and "uninterrupted es'" and "stream_bytes es' = out"
  shows "res = Inr () \<and> ds_shutdown st' = ds_shutdown st \<and>
    (if LvlDebug \<le> level \<and> peer_uid = 0 \<and> getuid \<notin> {None, Some 0}
     then client_set_log_level wire_write wire_flush (Inr (es', [])) level
            = Inr ''ERROR refusing to raise log level to debug/trace from root on a non-root daemon''
          \<and> ds_gate st' = ds_gate st
     else client_set_log_level wire_write wire_flush (Inr (es', [])) level = Inr (''OK '' @ level_name level)
          \<and> (\<forall>r. gate_enabled r (ds_gate st') = (r \<le> level)))"
proof -
  define cmd where "cmd = ''SET-LOG-LEVEL '' @ level_name level"
  obtain reply g where d: "dispatch parse_level getuid cmd peer_uid (ds_gate st) = (reply, g)" by force
  have words: "split_whitespace cmd = [''SET-LOG-LEVEL'', level_name level]"
    by (simp add: cmd_def split_set_log_level del: append.simps)
  have d': "(reply, g) = (if refused getuid peer_uid level
      then (RespError ''refusing to raise log level to debug/trace from root on a non-root daemon'', ds_gate st)
      else (RespOk (level_name level), set_level level (ds_gate st)))"
    using assms(1) by (auto simp: d [symmetric] dispatch_def words refused_def split: option.splits if_splits)
  have short: "length cmd \<le> CONTROL_MAX_PAYLOAD" "is_utf8 cmd"
    unfolding cmd_def
    by (cases level; simp add: level_name_def CONTROL_MAX_PAYLOAD_def is_utf8_ascii is_ascii_def)+
  have bytes: "stream_bytes es = encode (str_bytes cmd) @ []"
    using assms(3) short(1) by (simp add: control_write_wire cmd_def [symmetric] del: append.simps)
  have h: "res = Inr ()" "out = encode (str_bytes (take CONTROL_MAX_PAYLOAD (display_response reply)))"
    "ds_gate st' = g" "ds_shutdown st' = ds_shutdown st"
    using assms(4) control_handle_wire [OF short(2,1) assms(2) bytes, of parse_level getuid peer_uid st] d
    by (auto simp: words)
  have r: "take CONTROL_MAX_PAYLOAD (display_response reply) = display_response reply"
    "is_utf8 (display_response reply)"
    using d' by (cases level; auto simp: display_response_def level_name_def CONTROL_MAX_PAYLOAD_def
        is_utf8_ascii is_ascii_def split: if_splits)+
  have "client_set_log_level wire_write wire_flush (Inr (es', [])) level = Inr (display_response reply)"
    using exchange_wire [OF assms(5), of "display_response reply" cmd] assms(6) h(2) r
    by (simp add: client_set_log_level_def cmd_def)
  then show ?thesis
    using d' h by (cases getuid) (auto simp: refused_def display_response_def gate_enabled_def set_level_def split: if_splits)
qed

lemma set_log_level_end_to_end_witness:
  "client_set_log_level wire_write wire_flush
     (Inr ([Chunk [1, 8], Fault Interrupted, Chunk [0, 0, 0, 79, 75], Chunk [32, 100, 101, 98, 117, 103]], [])) LvlDebug
    = Inr ''OK debug''"
proof -
  let ?parse = "\<lambda>s. if s = ''debug'' then Some LvlDebug else None"
  let ?es = "[Chunk (encode (str_bytes ''SET-LOG-LEVEL debug''))]"
  let ?st = "\<lparr>ds_gate = log_gate_start, ds_shutdown = False\<rparr>"
  have p: "?parse (level_name LvlDebug) = Some LvlDebug" by (simp add: level_name_def)
  have es: "stream_bytes ?es = snd (control_write_frame wire_write wire_flush (''SET-LOG-LEVEL '' @ level_name LvlDebug) [])"
    by (simp add: control_write_wire level_name_def CONTROL_MAX_PAYLOAD_def)
  have un: "uninterrupted ?es" by (simp add: uninterrupted_def encode_def)
  obtain res out st' where h:
    "control_handle_connection ?parse (Some 1000) wire_write wire_flush 1000 ?es [] ?st = (res, out, st')"
    by (metis surj_pair)
  have "out = encode (str_bytes ''OK debug'')"
    using h control_handle_wire [of "''SET-LOG-LEVEL debug''" ?es "[]" ?parse "Some 1000" 1000 ?st] un
      split_set_log_level [of LvlDebug]
    by (auto simp: CONTROL_MAX_PAYLOAD_def is_utf8_ascii is_ascii_def level_name_def dispatch_def display_response_def)
  then have "stream_bytes [Chunk [1, 8], Fault Interrupted, Chunk [0, 0, 0, 79, 75], Chunk [32, 100, 101, 98, 117, 103]] = out"
    by (simp add: encode_def to_le_bytes_def str_bytes_def FRAME_VERSION_def)
  from set_log_level_end_to_end [OF p un es h _ this] show ?thesis
    by (simp add: uninterrupted_def level_name_def split: if_splits)
qed

text \<open>
  C31. Root cannot make a daemon that is not root log keystrokes. Whatever the connections of root peers
  send, in whatever pieces, complete or broken off, and whether or not the replies can be written, a
  level below \<open>debug\<close> stays below \<open>debug\<close>.
\<close>
theorem root_peer_never_raises_verbose:
  assumes "getuid = Some uid" and "uid \<noteq> 0" and "current_level (ds_gate st) < LvlDebug"
  shows "current_level (ds_gate (fold (\<lambda>(es, w) st.
      snd (snd (serve_connection parse_level getuid write_all flush 0 es w st))) conns st)) < LvlDebug"
  using assms(3)
proof (induction conns arbitrary: st)
  case (Cons conn conns)
  obtain es w where c: "conn = (es, w)" by force
  let ?st = "snd (snd (serve_connection parse_level getuid write_all flush 0 es w st))"
  have "current_level (ds_gate ?st) < LvlDebug"
  proof (cases "control_read_frame es")
    case (Pair r es1)
    show ?thesis
    proof (cases r)
      case (Inl e)
      with Pair Cons.prems show ?thesis by (simp add: serve_connection_def control_handle_connection_def)
    next
      case (Inr command)
      obtain reply g where d: "dispatch parse_level getuid command 0 (ds_gate st) = (reply, g)" by force
      have "current_level g < LvlDebug"
        using dispatch_changes_level [OF d] Cons.prems assms(1,2) by (auto simp: refused_def not_le)
      moreover have "ds_gate ?st = g"
        using Pair Inr d by (auto simp: serve_connection_def control_handle_connection_def request_shutdown_def
            Let_def split: prod.splits sum.splits list.splits if_splits)
      ultimately show ?thesis by simp
    qed
  qed
  from Cons.IH [OF this] show ?case by (simp add: c)
qed simp

lemma root_peer_never_raises_verbose_witness:
  "current_level (ds_gate (fold (\<lambda>(es, w) st.
      snd (snd (serve_connection (\<lambda>_. Some LvlTrace) (Some 1000) wire_write wire_flush 0 es w st)))
      [([Chunk (encode (str_bytes ''SET-LOG-LEVEL trace''))], [])]
      \<lparr>ds_gate = log_gate_start, ds_shutdown = False\<rparr>)) < LvlDebug"
proof (rule root_peer_never_raises_verbose)
  have "current_level log_gate_start = LvlInfo"
    by (simp add: current_level_def log_gate_start_def DEFAULT_LEVEL_def)
  then show "current_level (ds_gate \<lparr>ds_gate = log_gate_start, ds_shutdown = False\<rparr>) < LvlDebug"
    by (simp add: less_level_filter_def level_to_u8_def)
  show "(1000 :: u32) \<noteq> 0" by simp
qed simp

text \<open>
  A shutdown request that is rejected shuts the daemon down all the same. If the first word of a
  request is \<open>SHUTDOWN\<close> and others follow, the reply is an error that names the unexpected argument,
  and once it is written the daemon is asked to exit.
\<close>
theorem rejected_shutdown_shuts_down:
  assumes "is_utf8 command" and "length command \<le> CONTROL_MAX_PAYLOAD"
    and "split_whitespace command = ''SHUTDOWN'' # extra # more_words"
    and "uninterrupted es" and "stream_bytes es = encode (str_bytes command)"
  shows "control_handle_connection parse_level getuid wire_write wire_flush peer_uid es [] st =
    (Inr (),
     encode (str_bytes (take CONTROL_MAX_PAYLOAD (''ERROR unexpected argument '' @ [CHR 0x27] @ extra @ [CHR 0x27]))),
     st\<lparr>ds_shutdown := True\<rparr>)"
proof -
  have d: "dispatch parse_level getuid command peer_uid (ds_gate st) = (unexpected_argument extra, ds_gate st)"
    using assms(3) by (simp add: dispatch_def)
  show ?thesis
    using control_handle_wire [OF assms(1,2,4), of "[]"] assms(3,5) d
    by (cases st) (simp add: display_response_def unexpected_argument_def)
qed

lemma rejected_shutdown_shuts_down_witness:
  "control_handle_connection (\<lambda>_. None) None wire_write wire_flush 0
     [Chunk (encode (str_bytes ''SHUTDOWN now''))] [] \<lparr>ds_gate = log_gate_start, ds_shutdown = False\<rparr> =
   (Inr (), encode (str_bytes (''ERROR unexpected argument '' @ [CHR 0x27] @ ''now'' @ [CHR 0x27])),
    \<lparr>ds_gate = log_gate_start, ds_shutdown = True\<rparr>)"
proof -
  have "split_whitespace (''SHUTDOWN'' @ CHR '' '' # ''now'') = ''SHUTDOWN'' # split_whitespace ''now''"
    by (rule split_whitespace_space) (simp_all add: plain_char_def)
  then have "split_whitespace ''SHUTDOWN now'' = [''SHUTDOWN'', ''now'']"
    by (simp add: split_whitespace_plain plain_char_def)
  from rejected_shutdown_shuts_down [of "''SHUTDOWN now''", OF _ _ this] show ?thesis
    by (simp add: is_utf8_ascii is_ascii_def CONTROL_MAX_PAYLOAD_def uninterrupted_def encode_def)
qed

text \<open>
  A long reply is cut at 256 bytes, possibly inside a character: the argument here is made of
  two-byte characters, and the client takes the reply for invalid.
\<close>

lemma long_reply_cut_inside_character:
  assumes "115 \<le> k" and "uninterrupted es"
    and "stream_bytes es = encode (str_bytes (take CONTROL_MAX_PAYLOAD
      (display_response (unexpected_argument (concat (replicate k [CHR 0xC3, CHR 0xA9]))))))"
  shows "fst (exchange wire_write wire_flush command es []) = Inl CtlInvalidUtf8"
proof -
  let ?e = "[CHR 0xC3, CHR 0xA9]"
  let ?pre = "''ERROR unexpected argument '' @ [CHR 0x27]"
  define A where "A = concat (replicate 114 ?e)"
  obtain j where k: "k = 114 + Suc j"
    using that [of "k - 115"] assms(1) by simp
  have c: "concat (replicate k ?e) = A @ ?e @ concat (replicate j ?e)"
    unfolding k replicate_add concat_append replicate_Suc concat.simps A_def by (rule refl)
  have "length A = 228" by (simp add: A_def length_concat sum_list_replicate)
  then have "take CONTROL_MAX_PAYLOAD (display_response (unexpected_argument (concat (replicate k ?e))))
      = ?pre @ A @ [CHR 0xC3]"
    by (simp add: display_response_def unexpected_argument_def c CONTROL_MAX_PAYLOAD_def)
  moreover have "is_utf8 (concat (replicate n ?e))" for n
    by (induction n) (simp_all add: is_utf8_def str_bytes_def utf8_tail_def Let_def)
  then have a: "utf8_ok (str_bytes A)" by (simp add: is_utf8_def A_def)
  have p: "utf8_ok (str_bytes ?pre)"
    using is_utf8_ascii [of ?pre] by (simp add: is_utf8_def is_ascii_def)
  have "\<not> is_utf8 (?pre @ A @ [CHR 0xC3])"
    unfolding is_utf8_def str_bytes_append [of ?pre] str_bytes_append [of A]
    by (simp only: utf8_ok_append_iff [OF p] utf8_ok_append_iff [OF a]) (simp add: str_bytes_def utf8_tail_def Let_def)
  ultimately show ?thesis using exchange_wire [OF assms(2,3)] by simp
qed

end
