(* ===== verification/Endpoint_Unix.thy ===== *)
theory Endpoint_Unix
  imports Control Rate_Limit Peer_Creds
begin

text \<open>
  \<open>src/platform/endpoint/unix.rs\<close>: the socket of the control channel. Where it is, the checks of its
  directory, the bind, the accept loop with its checks of a peer, and the checks of the client. The
  environment, the file system and what the calls on a socket return are arguments; the handler that the
  loop runs for a connection is one too, and \<open>Control\<close> provides it.
\<close>

definition APP_NAME :: string where "APP_NAME = ''keymapperd''"
definition SOCKET_NAME :: string where "SOCKET_NAME = ''keymapperd.sock''"
definition RATE_LIMIT_WINDOW :: nat where "RATE_LIMIT_WINDOW = 1000"
definition RATE_LIMIT_THRESHOLD :: nat where "RATE_LIMIT_THRESHOLD = 10"

section \<open>Where the socket is\<close>

text \<open>\<open>Path::is_absolute\<close> and \<open>Path::join\<close> of a relative name, on Unix.\<close>

definition is_absolute :: "string \<Rightarrow> bool" where
  "is_absolute path \<longleftrightarrow> (case path of [] \<Rightarrow> False | c # _ \<Rightarrow> c = CHR ''/'')"

definition path_join :: "string \<Rightarrow> string \<Rightarrow> string" where
  "path_join path name =
     (if path = [] \<or> last path = CHR ''/'' then path @ name else path @ CHR ''/'' # name)"

definition socket_path :: "string option \<Rightarrow> string option \<Rightarrow> string \<Rightarrow> string" where
  "socket_path xdg_runtime_dir cache_dir temp_dir =
     (let fallback = path_join (path_join (case cache_dir of Some d \<Rightarrow> d | None \<Rightarrow> temp_dir) APP_NAME) SOCKET_NAME
      in case xdg_runtime_dir of
           Some rd \<Rightarrow>
             if rd \<noteq> [] \<and> is_absolute rd then path_join (path_join rd APP_NAME) SOCKET_NAME else fallback
         | None \<Rightarrow> fallback)"

section \<open>The directory of the socket\<close>

record dir_meta =
  dm_is_dir :: bool
  dm_mode :: u32
  dm_uid :: u32

datatype dir_error =
  CannotCreate | CannotStat | NotADirectory | WorldWritable | ForeignOwner u32 | CannotSetPermissions

text \<open>
  The metadata of the directory, if there is one; whether it can be created and its metadata then;
  whether its mode can be set. The result is the mode the directory is given
  (\<open>0700\<close>, octal), if any.
\<close>

definition prepare_socket_dir ::
  "dir_meta option \<Rightarrow> bool \<Rightarrow> dir_meta option \<Rightarrow> bool \<Rightarrow> u32 \<Rightarrow> dir_error + u32 option" where
  "prepare_socket_dir found can_create after chmod_ok current_uid =
     (case (case found of
              Some meta \<Rightarrow> Inr (False, meta)
            | None \<Rightarrow>
                if \<not> can_create then Inl CannotCreate
                else (case after of Some meta \<Rightarrow> Inr (True, meta) | None \<Rightarrow> Inl CannotStat)) of
        Inl e \<Rightarrow> Inl e
      | Inr (created, meta) \<Rightarrow>
          if \<not> dm_is_dir meta then Inl NotADirectory
          else if \<not> created \<and> current_uid = 0 \<and> dm_mode meta AND 0x002 \<noteq> 0 then Inl WorldWritable
          else if \<not> created \<and> current_uid \<noteq> 0 \<and> dm_uid meta \<noteq> current_uid then Inl (ForeignOwner (dm_uid meta))
          else if created then (if chmod_ok then Inr (Some 0x1C0) else Inl CannotSetPermissions)
          else Inr None)"

text \<open>
  \<open>bind_at\<close>, for a path with a parent: the mode of the socket, which the kernel makes of \<open>0777\<close> and the
  umask in force (\<open>0177\<close>), and the umask of the process afterwards.
\<close>

definition bind_at ::
  "dir_error + u32 option \<Rightarrow> u32 \<Rightarrow> io_kind option \<Rightarrow> (dir_error + (io_kind + u32)) \<times> u32" where
  "bind_at prepared umask bind_error =
     (case prepared of
        Inl e \<Rightarrow> (Inl e, umask)
      | Inr _ \<Rightarrow>
          (let previous_umask = umask; in_force = 0x7F;
               bound = (case bind_error of Some k \<Rightarrow> Inl k | None \<Rightarrow> Inr (0x1FF AND NOT in_force))
           in (Inr bound, previous_umask)))"

section \<open>Who may talk\<close>

definition admit_peer :: "peer_creds \<Rightarrow> u32 \<Rightarrow> u32 option" where
  "admit_peer creds current_uid =
     (if real_uid creds = 0 \<and> effective_uid creds = 0
         \<or> real_uid creds = current_uid \<and> effective_uid creds = current_uid
      then Some (effective_uid creds) else None)"

datatype peer_error = PeerUnknown creds_error | PeerForeign u32 u32

definition authorize_peer :: "creds_error + peer_creds \<Rightarrow> u32 \<Rightarrow> peer_error + u32" where
  "authorize_peer creds current_uid =
     (case creds of
        Inl e \<Rightarrow> Inl (PeerUnknown e)
      | Inr c \<Rightarrow>
          (case admit_peer c current_uid of
             Some uid \<Rightarrow> Inr uid
           | None \<Rightarrow> Inl (PeerForeign (real_uid c) (effective_uid c))))"

definition endpoint_verify_server_uid :: "creds_error + peer_creds \<Rightarrow> u32 \<Rightarrow> peer_error + unit" where
  "endpoint_verify_server_uid creds current_uid =
     (case creds of
        Inl e \<Rightarrow> Inl (PeerUnknown e)
      | Inr c \<Rightarrow>
          if admit_peer c current_uid \<noteq> None then Inr ()
          else Inl (PeerForeign (real_uid c) (effective_uid c)))"

section \<open>The accept loop\<close>

text \<open>
  What an iteration of \<open>listener.incoming\<close> meets: whether the accept succeeded, the credentials, the
  clock, whether the two timeouts could be set, and the connection, which is the handler's business.
\<close>

record 'c incoming =
  ic_accepted :: bool
  ic_creds :: "creds_error + peer_creds"
  ic_now :: nat
  ic_read_timeout :: bool
  ic_write_timeout :: bool
  ic_conn :: 'c

definition serve_incoming ::
  "(u32 \<Rightarrow> 'c \<Rightarrow> 's \<Rightarrow> 's) \<Rightarrow> u32 \<Rightarrow> 'c incoming \<Rightarrow> rate_limiter \<Rightarrow> 's
    \<Rightarrow> (u32 \<times> nat) list \<times> rate_limiter \<times> 's" where
  "serve_incoming handler current_uid ic limiter s =
     (if \<not> ic_accepted ic then ([], limiter, s)
      else
        (case authorize_peer (ic_creds ic) current_uid of
           Inl _ \<Rightarrow> ([], limiter, s)
         | Inr peer_uid \<Rightarrow>
             (let (allowed, limiter1) = check_and_record peer_uid (ic_now ic) limiter
              in if \<not> allowed then ([], limiter1, s)
                 else if \<not> ic_read_timeout ic \<or> \<not> ic_write_timeout ic then ([], limiter1, s)
                 else ([(peer_uid, ic_now ic)], limiter1, handler peer_uid (ic_conn ic) s))))"

text \<open>The peers served, with the times, and the state of the handler.\<close>

fun serve_all ::
  "(u32 \<Rightarrow> 'c \<Rightarrow> 's \<Rightarrow> 's) \<Rightarrow> u32 \<Rightarrow> 'c incoming list \<Rightarrow> rate_limiter \<Rightarrow> 's \<Rightarrow> (u32 \<times> nat) list \<times> 's" where
  "serve_all handler current_uid [] limiter s = ([], s)"
| "serve_all handler current_uid (ic # ics) limiter s =
     (let (served, limiter1, s1) = serve_incoming handler current_uid ic limiter s;
          (more_served, s2) = serve_all handler current_uid ics limiter1 s1
      in (served @ more_served, s2))"

definition serve_with_timeout ::
  "(u32 \<Rightarrow> 'c \<Rightarrow> 's \<Rightarrow> 's) \<Rightarrow> u32 \<Rightarrow> 'c incoming list \<Rightarrow> 's \<Rightarrow> (u32 \<times> nat) list \<times> 's" where
  "serve_with_timeout handler current_uid ics s =
     serve_all handler current_uid ics (rate_limiter_new RATE_LIMIT_WINDOW RATE_LIMIT_THRESHOLD) s"

section \<open>The client\<close>

datatype connect_failure = ConnectFailed nat | ServerRejected peer_error | TimeoutNotSet

definition endpoint_connect ::
  "nat + 'c \<Rightarrow> creds_error + peer_creds \<Rightarrow> u32 \<Rightarrow> bool \<Rightarrow> bool \<Rightarrow> connect_failure + 'c" where
  "endpoint_connect connected creds current_uid read_timeout write_timeout =
     (case connected of
        Inl k \<Rightarrow> Inl (ConnectFailed k)
      | Inr stream \<Rightarrow>
          (case endpoint_verify_server_uid creds current_uid of
             Inl e \<Rightarrow> Inl (ServerRejected e)
           | Inr _ \<Rightarrow> if \<not> read_timeout \<or> \<not> write_timeout then Inl TimeoutNotSet else Inr stream))"

text \<open>\<open>connect_error\<close>: the kinds of I/O error it tells apart.\<close>

datatype connect_kind = NotFound | ConnectionRefused | OtherKind string

definition connect_error :: "connect_kind \<Rightarrow> string" where
  "connect_error k =
     (case k of
        NotFound \<Rightarrow> ''no daemon is running (or its control socket is not at the expected path)''
      | ConnectionRefused \<Rightarrow> ''no daemon control socket is listening (the daemon may be older than this CLI)''
      | OtherKind text \<Rightarrow> text)"

section \<open>Lemmas\<close>

text \<open>The peers that may use the socket: root or the daemon's user, not across a setuid boundary.\<close>

definition may_control :: "u32 \<Rightarrow> creds_error + peer_creds \<Rightarrow> bool" where
  "may_control current_uid creds \<longleftrightarrow>
     (case creds of
        Inl _ \<Rightarrow> False
      | Inr c \<Rightarrow> real_uid c = effective_uid c \<and> real_uid c \<in> {0, current_uid})"

lemma authorize_peer_iff:
  "authorize_peer creds current_uid = Inr uid \<longleftrightarrow>
     may_control current_uid creds \<and> (\<exists>c. creds = Inr c \<and> uid = real_uid c)"
  by (auto simp: authorize_peer_def admit_peer_def may_control_def split: sum.splits if_splits)

lemma serve_incoming_foreign:
  "\<not> may_control current_uid (ic_creds ic) \<Longrightarrow> serve_incoming handler current_uid ic limiter s = ([], limiter, s)"
  using authorize_peer_iff [of "ic_creds ic" current_uid]
  by (auto simp: serve_incoming_def split: sum.split)

lemma serve_incoming_cases:
  assumes "serve_incoming handler current_uid ic limiter s = (served, limiter1, s1)"
  shows "(served = [] \<and> s1 = s
      \<and> (limiter1 = limiter \<or> (\<exists>uid. limiter1 = snd (check_and_record uid (ic_now ic) limiter)
           \<and> authorize_peer (ic_creds ic) current_uid = Inr uid)))
    \<or> (\<exists>uid. served = [(uid, ic_now ic)] \<and> uid \<in> {0, current_uid} \<and> s1 = handler uid (ic_conn ic) s
         \<and> check_and_record uid (ic_now ic) limiter = (True, limiter1))"
  using assms
  by (auto simp: serve_incoming_def authorize_peer_iff may_control_def Let_def
      split: if_splits sum.splits prod.splits)

lemma serve_all_foreign:
  "serve_all handler current_uid ics limiter s =
     serve_all handler current_uid (filter (\<lambda>ic. may_control current_uid (ic_creds ic)) ics) limiter s"
  by (induction ics arbitrary: limiter s) (simp_all add: serve_incoming_foreign split: prod.split)

lemma serve_all_uids:
  "(uid, t) \<in> set (fst (serve_all handler current_uid ics limiter s)) \<Longrightarrow> uid \<in> {0, current_uid}"
proof (induction ics arbitrary: limiter s)
  case (Cons ic ics)
  obtain served l1 s1 where i: "serve_incoming handler current_uid ic limiter s = (served, l1, s1)" by (metis surj_pair)
  with Cons.prems Cons.IH [of l1 s1] serve_incoming_cases [OF i] show ?case
    by (auto split: prod.splits)
qed simp

text \<open>What was served the limiter admitted, in a run of requests in the order of the connections.\<close>

lemma serve_all_admitted:
  assumes "serve_all handler current_uid ics limiter s = (served, s')" "sorted (map ic_now ics)"
  shows "\<exists>reqs adm l'. limiter_run check_and_record reqs limiter = (adm, l') \<and> sorted (map snd reqs)
    \<and> snd ` set reqs \<subseteq> ic_now ` set ics \<and> (\<forall>P. length (filter P served) \<le> length (filter P adm))"
  using assms
proof (induction ics arbitrary: limiter s served)
  case Nil
  then show ?case by (intro exI [of _ "[]"]) simp
next
  case (Cons ic ics)
  obtain sv l1 s1 where i: "serve_incoming handler current_uid ic limiter s = (sv, l1, s1)" by (metis surj_pair)
  obtain served2 where r: "serve_all handler current_uid ics l1 s1 = (served2, s')" "served = sv @ served2"
    using Cons.prems(1) i by (auto split: prod.splits)
  obtain reqs adm l' where IH: "limiter_run check_and_record reqs l1 = (adm, l')" "sorted (map snd reqs)"
    "snd ` set reqs \<subseteq> ic_now ` set ics" "\<And>P. length (filter P served2) \<le> length (filter P adm)"
    using Cons.IH [OF r(1)] Cons.prems(2) by auto
  have later: "\<forall>(u, t) \<in> set reqs. ic_now ic \<le> t" using IH(3) Cons.prems(2) by fastforce
  from serve_incoming_cases [OF i] consider
      "sv = []" "l1 = limiter"
    | uid where "sv = [] \<or> (sv = [(uid, ic_now ic)] \<and> fst (check_and_record uid (ic_now ic) limiter))"
        "l1 = snd (check_and_record uid (ic_now ic) limiter)"
    by (metis fst_conv snd_conv)
  then show ?case
  proof cases
    case 1
    with IH r(2) show ?thesis by (intro exI [of _ reqs] exI [of _ adm] exI [of _ l']) auto
  next
    case (2 uid)
    let ?r = "(uid, ic_now ic)"
    let ?adm = "(if fst (check_and_record uid (ic_now ic) limiter) then [?r] else []) @ adm"
    have "limiter_run check_and_record (?r # reqs) limiter = (?adm, l')"
      using IH(1) 2(2) by (cases "check_and_record uid (ic_now ic) limiter") (simp add: Let_def)
    moreover have "sorted (map snd (?r # reqs))" using IH(2) later by auto
    moreover have "snd ` set (?r # reqs) \<subseteq> ic_now ` set (ic # ics)" using IH(3) by auto
    moreover have "length (filter P served) \<le> length (filter P ?adm)" for P
      using 2(1) IH(4) [of P] by (auto simp: r(2))
    ultimately show ?thesis by blast
  qed
qed

section \<open>Properties\<close>

text \<open>
  C19. Strangers cannot control the daemon. Whatever connections arrive, and whatever they send, the state of
  the daemon, its log level and whether it was asked to exit, and the peers served are those of the run
  in which only the connections of root and of the daemon's own user arrive, by their real and
  effective uid; and every peer served is one of the two. Connections of others do not even count for
  the rate limit.
\<close>
theorem strangers_cannot_control:
  fixes handler :: "u32 \<Rightarrow> stream_event list \<times> 'w \<Rightarrow> daemon_state \<Rightarrow> daemon_state"
  assumes "handler = (\<lambda>peer_uid (es, w) st.
      snd (snd (serve_connection parse_level (Some current_uid) write_all flush peer_uid es w st)))"
    and "serve_with_timeout handler current_uid ics st = (served, st')"
  shows "serve_with_timeout handler current_uid (filter (\<lambda>ic. may_control current_uid (ic_creds ic)) ics) st
      = (served, st')
    \<and> (\<forall>(uid, t) \<in> set served. uid = 0 \<or> uid = current_uid)"
  using assms(2) serve_all_foreign [of handler current_uid ics]
    serve_all_uids [of _ _ handler current_uid ics "rate_limiter_new RATE_LIMIT_WINDOW RATE_LIMIT_THRESHOLD" st]
  by (auto simp: serve_with_timeout_def)

text \<open>A stranger's shutdown, with its effective uid raised to root's, then the owner's.\<close>

lemma strangers_cannot_control_witness:
  "\<exists>st'. serve_with_timeout (\<lambda>peer_uid (es, w) st.
      snd (snd (serve_connection (\<lambda>_. None) (Some 1000) wire_write wire_flush peer_uid es w st))) 1000
     [\<lparr>ic_accepted = True, ic_creds = Inr \<lparr>real_uid = 1001, effective_uid = 0, peer_pid = None\<rparr>, ic_now = 5,
        ic_read_timeout = True, ic_write_timeout = True, ic_conn = ([Chunk (encode (str_bytes ''SHUTDOWN''))], [])\<rparr>]
     \<lparr>ds_gate = log_gate_start, ds_shutdown = False\<rparr>
   = ([], st') \<and> \<not> ds_shutdown st'"
proof -
  let ?h = "\<lambda>peer_uid (es, w) st.
      snd (snd (serve_connection (\<lambda>_. None) (Some 1000) wire_write wire_flush peer_uid es w st))"
  define ic :: "(stream_event list \<times> bytes) incoming" where "ic = \<lparr>ic_accepted = True, ic_creds = Inr \<lparr>real_uid = 1001, effective_uid = 0, peer_pid = None\<rparr>, ic_now = 5,
        ic_read_timeout = True, ic_write_timeout = True, ic_conn = ([Chunk (encode (str_bytes ''SHUTDOWN''))], [])\<rparr>"
  let ?st = "\<lparr>ds_gate = log_gate_start, ds_shutdown = False\<rparr>"
  obtain served st' where r: "serve_with_timeout ?h 1000 [ic] ?st = (served, st')" by force
  have "filter (\<lambda>ic. may_control 1000 (ic_creds ic)) [ic] = []" by (simp add: may_control_def ic_def)
  then have "serve_with_timeout ?h 1000 [] ?st = (served, st')"
    using conjunct1 [OF strangers_cannot_control [OF refl r]] by (simp only:)
  then show ?thesis using r by (auto simp: serve_with_timeout_def ic_def)
qed

text \<open>
  Nobody can keep the accept loop busy: with a clock that does not go back, the loop serves at most ten
  connections of one uid in any second, whatever is sent and whatever fails in between.
\<close>
theorem control_rate_bounded:
  assumes "sorted (map ic_now ics)" and "serve_with_timeout handler current_uid ics s = (served, s')"
  shows "length (filter (\<lambda>(u, t). u = uid \<and> start \<le> t \<and> t \<le> start + 1000) served) \<le> 10"
proof -
  obtain reqs adm l' where a: "limiter_run check_and_record reqs (rate_limiter_new RATE_LIMIT_WINDOW RATE_LIMIT_THRESHOLD) = (adm, l')"
    "sorted (map snd reqs)" "\<And>P. length (filter P served) \<le> length (filter P adm)"
    using serve_all_admitted [OF assms(2) [unfolded serve_with_timeout_def] assms(1)] by blast
  from peer_limiter.never_above_threshold [OF _ a(2,1), of uid start] a(3)
  show ?thesis
    by (force simp: rate_limiter_new_def admitted_between_def RATE_LIMIT_WINDOW_def RATE_LIMIT_THRESHOLD_def
        intro: order_trans)
qed

lemma control_rate_bounded_witness:
  "length (filter (\<lambda>(u, t). u = 7 \<and> 3 \<le> t \<and> t \<le> 3 + 1000)
     (fst (serve_with_timeout (\<lambda>_ _ n. n + 1) 7 (replicate 12
       \<lparr>ic_accepted = True, ic_creds = Inr \<lparr>real_uid = 7, effective_uid = 7, peer_pid = None\<rparr>, ic_now = 5,
        ic_read_timeout = True, ic_write_timeout = True, ic_conn = ()\<rparr>) (0 :: nat)))) \<le> 10"
  by (rule control_rate_bounded [OF _ prod.collapse [symmetric]]) (simp add: numeral_eq_Suc)

end
