(* ===== verification/Path.thy ===== *)
theory Path
  imports Prelude
begin

text \<open>
  \<open>std::path\<close> on Unix, as far as the sources use it: a path is its components (paths are compared by
  component).
\<close>

datatype path_component = RootDir | CurDir | ParentDir | Normal string

type_synonym path = "path_component list"

text \<open>\<open>components\<close> yields a root or a \<open>.\<close> in the first position only.\<close>

definition wf_path :: "path \<Rightarrow> bool" where
  "wf_path p \<longleftrightarrow> RootDir \<notin> set (tl p) \<and> CurDir \<notin> set (tl p)"

definition file_name :: "path \<Rightarrow> string option" where
  "file_name p = (if p = [] then None else (case last p of Normal s \<Rightarrow> Some s | _ \<Rightarrow> None))"

definition parent :: "path \<Rightarrow> path option" where
  "parent p = (if p = [] \<or> last p = RootDir then None else Some (butlast p))"

text \<open>\<open>ancestors\<close>: the path itself, its parent and so on.\<close>

function ancestors :: "path \<Rightarrow> path list" where
  "ancestors p = p # (case parent p of Some q \<Rightarrow> ancestors q | None \<Rightarrow> [])"
  by pat_completeness auto

termination ancestors
  by (relation "measure length") (auto simp: parent_def split: if_splits)

declare ancestors.simps [simp del]

lemma ancestors_snoc: "c \<noteq> RootDir \<Longrightarrow> ancestors (p @ [c]) = (p @ [c]) # ancestors p"
  by (subst ancestors.simps) (simp add: parent_def)

text \<open>\<open>Path::join\<close> of a relative name.\<close>

definition join_name :: "path \<Rightarrow> string \<Rightarrow> path" where
  "join_name p name = p @ [Normal name]"

lemma file_name_join [simp]: "file_name (join_name p name) = Some name"
  by (simp add: file_name_def join_name_def)

lemma parent_join [simp]: "parent (join_name p name) = Some p"
  by (simp add: parent_def join_name_def)

end
