(* ===== verification/Watcher.thy ===== *)
theory Watcher
  imports Lookup_State Path
begin

text \<open>
  \<open>src/daemon/watcher.rs\<close>: the hot reload of the configuration. Events of the file system become
  requests; a thread collects the requests until none arrives for the debounce interval, then reads,
  compiles and swaps in the configuration. Times are milliseconds. The file system is a function from
  the time to what reading the file gives then (\<open>read_config_content\<close>); the texts of errors, the YAML
  parser and the Unicode case mapping are parameters.
\<close>

definition DEBOUNCE_INTERVAL :: nat where "DEBOUNCE_INTERVAL = 500"
definition ERROR_THROTTLE_LIMIT :: nat where "ERROR_THROTTLE_LIMIT = 5"

section \<open>One reload\<close>

datatype reload_result = ReloadOk | ReloadErr string

definition reload_from_str ::
  "(string \<Rightarrow> string) \<Rightarrow> (string \<Rightarrow> string + app_config) \<Rightarrow> string \<Rightarrow> runtime_state
    \<Rightarrow> reload_result \<times> runtime_state" where
  "reload_from_str uni load_from_str content st =
     (case snd (compile_from_str uni load_from_str content :: _ \<times> ((string, string) compile_error + _)) of
        Inr new_cache \<Rightarrow> (ReloadOk, set_lookup_cache new_cache st)
      | Inl (ReadError e) \<Rightarrow> (ReloadErr e, st)
      | Inl (ParseError e) \<Rightarrow> (ReloadErr e, st))"

definition attempt_reload ::
  "(string \<Rightarrow> string) \<Rightarrow> (string \<Rightarrow> string + app_config) \<Rightarrow> string + string \<Rightarrow> runtime_state
    \<Rightarrow> reload_result \<times> runtime_state" where
  "attempt_reload uni load_from_str read_result st =
     (case read_result of
        Inl err \<Rightarrow> (ReloadErr err, st)
      | Inr content \<Rightarrow> reload_from_str uni load_from_str content st)"

section \<open>The thread\<close>

text \<open>
  The requests in the channel are given by their times of arrival, in order; \<open>closed\<close> is the time at
  which the watcher is dropped, if it is. The debounce loop starts at the time of the last receive; it
  returns the time it ends at and the requests left.
\<close>

fun debounce :: "nat option \<Rightarrow> nat \<Rightarrow> nat list \<Rightarrow> nat \<times> nat list" where
  "debounce closed now [] =
     (case closed of
        Some c \<Rightarrow> (if c \<le> now + DEBOUNCE_INTERVAL then max now c else now + DEBOUNCE_INTERVAL, [])
      | None \<Rightarrow> (now + DEBOUNCE_INTERVAL, []))"
| "debounce closed now (e # es) =
     (if e \<le> now + DEBOUNCE_INTERVAL then debounce closed (max now e) es
      else (now + DEBOUNCE_INTERVAL, e # es))"

text \<open>The counter of failures in a row, and the time of the last message.\<close>

record throttle =
  th_consecutive_errors :: nat
  th_last_log :: "nat option"

definition throttle_new :: throttle where
  "throttle_new = \<lparr>th_consecutive_errors = 0, th_last_log = None\<rparr>"

text \<open>Whether a message is logged for a result, and whether it is followed by the notice of throttling.\<close>

definition note_result :: "reload_result \<Rightarrow> nat \<Rightarrow> throttle \<Rightarrow> (bool \<times> bool) \<times> throttle" where
  "note_result res now th =
     (case res of
        ReloadOk \<Rightarrow> ((False, False), \<lparr>th_consecutive_errors = 0, th_last_log = None\<rparr>)
      | ReloadErr msg \<Rightarrow>
          (let n = th_consecutive_errors th + 1;
               should_log = (if n \<le> ERROR_THROTTLE_LIMIT then True
                 else \<not> (case th_last_log th of Some ts \<Rightarrow> now - ts < 30000 | None \<Rightarrow> False))
           in if should_log
              then ((True, n > ERROR_THROTTLE_LIMIT), \<lparr>th_consecutive_errors = n, th_last_log = Some now\<rparr>)
              else ((False, False), th\<lparr>th_consecutive_errors := n\<rparr>)))"

text \<open>What the thread meets besides the requests: the file, and how long an attempt takes.\<close>

record watch_env =
  we_uni :: "string \<Rightarrow> string"
  we_load :: "string \<Rightarrow> string + app_config"
  we_read :: "nat \<Rightarrow> string + string"
  we_duration :: "nat \<Rightarrow> nat"

record reload_round =
  rr_read_at :: nat
  rr_result :: reload_result
  rr_logged :: "bool \<times> bool"

lemma debounce_length: "length (snd (debounce closed now es)) \<le> length es"
  by (induction closed now es rule: debounce.induct) (auto split: option.split)

function reload_loop ::
  "watch_env \<Rightarrow> nat option \<Rightarrow> nat \<Rightarrow> nat list \<Rightarrow> throttle \<Rightarrow> runtime_state
    \<Rightarrow> reload_round list \<times> runtime_state" where
  "reload_loop env closed now [] th st = ([], st)"
| "reload_loop env closed now (e # es) th st =
     (let (t, rest) = debounce closed (max now e) es;
          (res, st1) = attempt_reload (we_uni env) (we_load env) (we_read env t) st;
          finished = t + we_duration env t;
          (logged, th1) = note_result res finished th;
          (rounds, st2) = reload_loop env closed finished rest th1 st1
      in (\<lparr>rr_read_at = t, rr_result = res, rr_logged = logged\<rparr> # rounds, st2))"
  by pat_completeness auto

termination reload_loop
proof (relation "measure (\<lambda>(env, closed, now, es, th, st). length es)", goal_cases)
  case (2 env closed now e es th st x t rest)
  then have "length rest \<le> length es" using debounce_length [of closed "max now e" es] by (metis snd_conv)
  then show ?case by simp
qed simp

section \<open>Events of the file system\<close>

text \<open>
  The kinds of an event are those the source distinguishes; an access and any other event are \<open>EkOther\<close>.
\<close>

datatype event_kind = EkCreate | EkModifyName | EkModifyOther | EkRemove | EkOther

record fs_event =
  fe_kind :: event_kind
  fe_paths :: "path list"

datatype interest = Reload | ConfigRemoved | WatchDirRemoved | Ignore

fun classify_paths :: "event_kind \<Rightarrow> path \<Rightarrow> string \<Rightarrow> bool \<Rightarrow> path list \<Rightarrow> interest" where
  "classify_paths kind watch_dir config_name gone [] = (if gone then WatchDirRemoved else Ignore)"
| "classify_paths kind watch_dir config_name gone (p # ps) =
     (if p = watch_dir then
        classify_paths kind watch_dir config_name (gone \<or> kind = EkRemove \<or> kind = EkModifyName) ps
      else if file_name p = Some config_name then
        (if kind = EkModifyName \<or> kind = EkModifyOther \<or> kind = EkCreate then Reload
         else if kind = EkRemove then ConfigRemoved
         else Ignore)
      else classify_paths kind watch_dir config_name gone ps)"

definition classify_event :: "fs_event \<Rightarrow> path \<Rightarrow> string \<Rightarrow> interest" where
  "classify_event event watch_dir config_name =
     classify_paths (fe_kind event) watch_dir config_name False (fe_paths event)"

definition watch_dir_of :: "path \<Rightarrow> path" where
  "watch_dir_of config_path =
     (case parent config_path of
        Some dir \<Rightarrow> if dir \<noteq> [] then dir else [CurDir]
      | None \<Rightarrow> [CurDir])"

text \<open>
  \<open>start_config_watcher\<close>: the requests the closure sends for the events that the library delivers (an
  error of the library sends none), and what the thread makes of them. The result is \<open>None\<close> if the path
  has no file name.
\<close>

definition reload_requests :: "path \<Rightarrow> string \<Rightarrow> (nat \<times> (unit + fs_event)) list \<Rightarrow> nat list" where
  "reload_requests watch_dir config_name events =
     map fst (filter (\<lambda>(_, r). case r of
        Inl _ \<Rightarrow> False | Inr event \<Rightarrow> classify_event event watch_dir config_name = Reload) events)"

definition start_config_watcher ::
  "watch_env \<Rightarrow> path \<Rightarrow> (nat \<times> (unit + fs_event)) list \<Rightarrow> nat option \<Rightarrow> runtime_state
    \<Rightarrow> (reload_round list \<times> runtime_state) option" where
  "start_config_watcher env config_path events closed st =
     (case file_name config_path of
        None \<Rightarrow> None
      | Some config_name \<Rightarrow>
          Some (reload_loop env closed 0 (reload_requests (watch_dir_of config_path) config_name events)
                  throttle_new st))"

section \<open>Lemmas\<close>

lemma debounce_spec:
  "debounce None now es = (t, rest) \<Longrightarrow> sorted es \<Longrightarrow>
     \<exists>taken. es = taken @ rest \<and> now + DEBOUNCE_INTERVAL \<le> t
       \<and> (\<forall>e \<in> set taken. e + DEBOUNCE_INTERVAL \<le> t) \<and> (\<forall>e \<in> set rest. t < e)"
proof (induction es arbitrary: now)
  case (Cons e es)
  show ?case
  proof (cases "e \<le> now + DEBOUNCE_INTERVAL")
    case True
    with Cons.prems obtain taken where "es = taken @ rest" "max now e + DEBOUNCE_INTERVAL \<le> t"
      "\<forall>e \<in> set taken. e + DEBOUNCE_INTERVAL \<le> t" "\<forall>e \<in> set rest. t < e"
      using Cons.IH [of "max now e"] by auto
    then show ?thesis by (intro exI [of _ "e # taken"]) auto
  next
    case False
    with Cons.prems show ?thesis by fastforce
  qed
qed simp

text \<open>The loop, one request at a time.\<close>

lemma reload_loop_step:
  assumes "reload_loop env None now (e # es) th st = (rounds, st')" "sorted (e # es)"
  obtains t taken rest res st1 th1 logged rounds1 where
    "e # es = taken @ rest" "taken \<noteq> []" "now + DEBOUNCE_INTERVAL \<le> t"
    "\<And>x. x \<in> set taken \<Longrightarrow> x + DEBOUNCE_INTERVAL \<le> t" "\<And>x. x \<in> set rest \<Longrightarrow> t < x" "sorted rest"
    "attempt_reload (we_uni env) (we_load env) (we_read env t) st = (res, st1)"
    "note_result res (t + we_duration env t) th = (logged, th1)"
    "reload_loop env None (t + we_duration env t) rest th1 st1 = (rounds1, st')"
    "rounds = \<lparr>rr_read_at = t, rr_result = res, rr_logged = logged\<rparr> # rounds1"
proof -
  obtain t rest where d: "debounce None (max now e) es = (t, rest)" by force
  obtain res st1 where a: "attempt_reload (we_uni env) (we_load env) (we_read env t) st = (res, st1)" by (metis surj_pair)
  obtain logged th1 where n: "note_result res (t + we_duration env t) th = (logged, th1)" by (metis surj_pair)
  obtain rounds1 st2 where l: "reload_loop env None (t + we_duration env t) rest th1 st1 = (rounds1, st2)" by (metis surj_pair)
  have r: "rounds = \<lparr>rr_read_at = t, rr_result = res, rr_logged = logged\<rparr> # rounds1" "st2 = st'"
    using assms(1) by (simp_all add: d a n l)
  obtain taken where t: "es = taken @ rest" "max now e + DEBOUNCE_INTERVAL \<le> t"
    "\<forall>x \<in> set taken. x + DEBOUNCE_INTERVAL \<le> t" "\<forall>x \<in> set rest. t < x"
    using debounce_spec [OF d] assms(2) by auto
  show thesis
    by (rule that [of "e # taken" rest t res st1 logged th1 rounds1])
      (use t a n l r assms(2) in \<open>auto simp: sorted_append\<close>)
qed

lemma reload_loop_rounds:
  assumes "reload_loop env None now es th st = (rounds, st')" "sorted es"
  shows "length rounds \<le> length es
    \<and> (\<forall>r \<in> set rounds. now + DEBOUNCE_INTERVAL \<le> rr_read_at r)
    \<and> (\<forall>r \<in> set rounds. \<forall>e \<in> set es. e + DEBOUNCE_INTERVAL \<le> rr_read_at r \<or> rr_read_at r < e)
    \<and> (es \<noteq> [] \<longrightarrow> rounds \<noteq> [] \<and> last es + DEBOUNCE_INTERVAL \<le> rr_read_at (last rounds))"
  using assms
proof (induction es arbitrary: now th st rounds rule: length_induct)
  case (1 es)
  show ?case
  proof (cases es)
    case Nil
    with 1 show ?thesis by simp
  next
    case (Cons e0 es0)
    from reload_loop_step [OF "1.prems" [unfolded Cons]]
    obtain t taken rest res st1 th1 logged rounds1 where s: "es = taken @ rest" "taken \<noteq> []"
      "now + DEBOUNCE_INTERVAL \<le> t" "\<And>x. x \<in> set taken \<Longrightarrow> x + DEBOUNCE_INTERVAL \<le> t"
      "\<And>x. x \<in> set rest \<Longrightarrow> t < x" "sorted rest"
      "reload_loop env None (t + we_duration env t) rest th1 st1 = (rounds1, st')"
      "rounds = \<lparr>rr_read_at = t, rr_result = res, rr_logged = logged\<rparr> # rounds1"
      unfolding Cons by metis
    have "length rest < length es" using s(1,2) by simp
    with "1.IH" s(6,7) have IH: "length rounds1 \<le> length rest"
      "\<And>r. r \<in> set rounds1 \<Longrightarrow> t + we_duration env t + DEBOUNCE_INTERVAL \<le> rr_read_at r"
      "\<And>r e. r \<in> set rounds1 \<Longrightarrow> e \<in> set rest \<Longrightarrow> e + DEBOUNCE_INTERVAL \<le> rr_read_at r \<or> rr_read_at r < e"
      "rest \<noteq> [] \<Longrightarrow> rounds1 \<noteq> [] \<and> last rest + DEBOUNCE_INTERVAL \<le> rr_read_at (last rounds1)"
      by blast+
    have len: "length rounds \<le> length es" using IH(1) s(1,2,8) by (cases taken) auto
    have from_now: "\<forall>r \<in> set rounds. now + DEBOUNCE_INTERVAL \<le> rr_read_at r"
      using IH(2) s(3,8) by (fastforce dest: IH(2))
    have quiet: "\<forall>r \<in> set rounds. \<forall>e \<in> set es. e + DEBOUNCE_INTERVAL \<le> rr_read_at r \<or> rr_read_at r < e"
    proof (intro ballI)
      fix r e assume "r \<in> set rounds" "e \<in> set es"
      then show "e + DEBOUNCE_INTERVAL \<le> rr_read_at r \<or> rr_read_at r < e"
        using s(1,4,5,8) IH(2) [of r] IH(3) [of r e] by fastforce
    qed
    have "rounds \<noteq> [] \<and> last es + DEBOUNCE_INTERVAL \<le> rr_read_at (last rounds)"
    proof (cases rest)
      case Nil
      with s(7,8) have "rounds = [\<lparr>rr_read_at = t, rr_result = res, rr_logged = logged\<rparr>]" by simp
      with s(1,2,4) Nil show ?thesis by simp
    qed (use s(1,8) IH(4) in simp)
    with len from_now quiet show ?thesis by blast
  qed
qed

text \<open>The configuration a read at a time gives.\<close>

definition loaded :: "watch_env \<Rightarrow> nat \<Rightarrow> app_config option" where
  "loaded env t =
     (case we_read env t of
        Inl _ \<Rightarrow> None
      | Inr content \<Rightarrow> (case we_load env content of Inl _ \<Rightarrow> None | Inr cfg \<Rightarrow> Some cfg))"

lemma attempt_reload_loaded:
  "attempt_reload (we_uni env) (we_load env) (we_read env t) st = (res, st1) \<Longrightarrow>
     (case loaded env t of
        Some cfg \<Rightarrow> res = ReloadOk \<and> st1 = set_lookup_cache (compile_from_config (we_uni env) cfg) st
      | None \<Rightarrow> res \<noteq> ReloadOk \<and> st1 = st)"
  by (auto simp: attempt_reload_def reload_from_str_def loaded_def compile_from_str_def split: sum.splits)

lemma set_lookup_cache_twice [simp]: "set_lookup_cache c (set_lookup_cache d st) = set_lookup_cache c st"
  by (simp add: set_lookup_cache_def)

definition good_configs :: "watch_env \<Rightarrow> reload_round list \<Rightarrow> app_config list" where
  "good_configs env rounds = List.map_filter (\<lambda>r. loaded env (rr_read_at r)) rounds"

lemma good_configs_simps [simp]:
  "good_configs env [] = []"
  "good_configs env (r # rs) = (case loaded env (rr_read_at r) of Some cfg \<Rightarrow> [cfg] | None \<Rightarrow> []) @ good_configs env rs"
  by (simp_all add: good_configs_def map_filter_simps split: option.split)

lemma reload_loop_state:
  assumes "reload_loop env None now es th st = (rounds, st')" "sorted es"
  shows "st' = (if good_configs env rounds = [] then st
      else set_lookup_cache (compile_from_config (we_uni env) (last (good_configs env rounds))) st)
    \<and> (\<forall>r \<in> set rounds. rr_result r = ReloadOk \<longleftrightarrow> loaded env (rr_read_at r) \<noteq> None)"
  using assms
proof (induction es arbitrary: now th st rounds rule: length_induct)
  case (1 es)
  show ?case
  proof (cases es)
    case Nil
    with 1 show ?thesis by simp
  next
    case (Cons e0 es0)
    from reload_loop_step [OF "1.prems" [unfolded Cons]]
    obtain t taken rest res st1 th1 logged rounds1 where s: "es = taken @ rest" "taken \<noteq> []" "sorted rest"
      "attempt_reload (we_uni env) (we_load env) (we_read env t) st = (res, st1)"
      "reload_loop env None (t + we_duration env t) rest th1 st1 = (rounds1, st')"
      "rounds = \<lparr>rr_read_at = t, rr_result = res, rr_logged = logged\<rparr> # rounds1"
      unfolding Cons by metis
    have "length rest < length es" using s(1,2) by simp
    with "1.IH" s(3,5) have IH: "st' = (if good_configs env rounds1 = [] then st1
        else set_lookup_cache (compile_from_config (we_uni env) (last (good_configs env rounds1))) st1)"
      "\<forall>r \<in> set rounds1. rr_result r = ReloadOk \<longleftrightarrow> loaded env (rr_read_at r) \<noteq> None"
      by blast+
    from attempt_reload_loaded [OF s(4)] IH s(6) show ?thesis
      by (auto split: option.splits)
  qed
qed

section \<open>The throttle\<close>

text \<open>Failures in a row, with the times they are noted at: which of them are logged.\<close>

fun logged_failures :: "(string \<times> nat) list \<Rightarrow> throttle \<Rightarrow> bool list" where
  "logged_failures [] th = []"
| "logged_failures ((msg, now) # fs) th =
     (let ((logged, _), th1) = note_result (ReloadErr msg) now th in logged # logged_failures fs th1)"

lemma length_logged_failures [simp]: "length (logged_failures fs th) = length fs"
  by (induction fs th rule: logged_failures.induct) (simp_all add: Let_def split: prod.split)

text \<open>The throttle after some failures.\<close>

fun after_failures :: "(string \<times> nat) list \<Rightarrow> throttle \<Rightarrow> throttle" where
  "after_failures [] th = th"
| "after_failures ((msg, now) # fs) th = after_failures fs (snd (note_result (ReloadErr msg) now th))"

lemma logged_failures_append:
  "logged_failures (fs @ gs) th = logged_failures fs th @ logged_failures gs (after_failures fs th)"
  by (induction fs th rule: after_failures.induct) (auto simp: Let_def split: prod.splits)

lemma after_failures_append: "after_failures (fs @ gs) th = after_failures gs (after_failures fs th)"
  by (induction fs th rule: after_failures.induct) simp_all

text \<open>What the throttle remembers of the failures so far.\<close>

definition throttle_inv :: "(string \<times> nat) list \<Rightarrow> bool list \<Rightarrow> throttle \<Rightarrow> bool" where
  "throttle_inv fs ls th \<longleftrightarrow>
     length ls = length fs \<and> th_consecutive_errors th = length fs
     \<and> (\<forall>j < length fs. ls ! j \<longrightarrow> (\<exists>t. th_last_log th = Some t \<and> snd (fs ! j) \<le> t))
     \<and> (\<forall>t. th_last_log th = Some t \<longrightarrow> (\<exists>j < length fs. ls ! j \<and> snd (fs ! j) = t))"

lemma throttle_inv_after:
  "sorted (map snd fs) \<Longrightarrow> throttle_inv fs (logged_failures fs throttle_new) (after_failures fs throttle_new)"
proof (induction fs rule: rev_induct)
  case Nil
  then show ?case by (simp add: throttle_inv_def throttle_new_def)
next
  case (snoc f fs)
  obtain msg now where f: "f = (msg, now)" by force
  let ?th = "after_failures fs throttle_new" and ?ls = "logged_failures fs throttle_new"
  have IH: "throttle_inv fs ?ls ?th" and before: "\<forall>j < length fs. snd (fs ! j) \<le> now"
    using snoc by (auto simp: sorted_append f)
  show ?case
    using IH before
    by (auto simp: throttle_inv_def logged_failures_append after_failures_append f note_result_def Let_def
        nth_append less_Suc_eq split: if_splits option.splits prod.splits)
qed

lemma logged_iff:
  assumes "sorted (map snd (fs @ [(msg, now)]))"
  shows "logged_failures (fs @ [(msg, now)]) throttle_new ! length fs \<longleftrightarrow>
    length fs < ERROR_THROTTLE_LIMIT
    \<or> (\<forall>j < length fs. logged_failures fs throttle_new ! j \<longrightarrow> snd (fs ! j) + 30000 \<le> now)"
proof -
  let ?th = "after_failures fs throttle_new" and ?ls = "logged_failures fs throttle_new"
  have inv: "throttle_inv fs ?ls ?th" using throttle_inv_after assms by (simp add: sorted_append)
  have "logged_failures (fs @ [(msg, now)]) throttle_new ! length fs \<longleftrightarrow>
      length fs < ERROR_THROTTLE_LIMIT \<or> \<not> (case th_last_log ?th of Some ts \<Rightarrow> now - ts < 30000 | None \<Rightarrow> False)"
    using inv by (auto simp: logged_failures_append nth_append note_result_def Let_def throttle_inv_def split: prod.split)
  also have "(case th_last_log ?th of Some ts \<Rightarrow> now - ts < 30000 | None \<Rightarrow> False) \<longleftrightarrow>
      (\<exists>j < length fs. ?ls ! j \<and> now < snd (fs ! j) + 30000)"
  proof (cases "th_last_log ?th")
    case None
    with inv show ?thesis by (auto simp: throttle_inv_def)
  next
    case (Some ts)
    from inv Some obtain j where "j < length fs" "?ls ! j" "snd (fs ! j) = ts" by (auto simp: throttle_inv_def)
    moreover have "snd (fs ! i) \<le> ts" if "i < length fs" "?ls ! i" for i
      using inv Some that by (auto simp: throttle_inv_def)
    moreover have "ts \<le> now"
      using calculation(1,3) assms by (auto simp: sorted_append)
    ultimately show ?thesis using Some by fastforce
  qed
  finally show ?thesis by (auto simp: not_less)
qed

section \<open>Properties\<close>

text \<open>
  C32. Every save is noticed, once things are quiet. As long as the watcher lives, the thread reads the file
  at most once per request; it never reads within the debounce interval after a request has arrived;
  and when there are requests there is a last read, at least the debounce interval after the last of
  them, so the last save is read, in full.
\<close>
theorem reloads_after_quiet:
  assumes "reload_loop env None now requests th st = (rounds, st')" and "sorted requests"
  shows "length rounds \<le> length requests
    \<and> (\<forall>r \<in> set rounds. \<forall>e \<in> set requests. rr_read_at r < e \<or> e + DEBOUNCE_INTERVAL \<le> rr_read_at r)
    \<and> (requests \<noteq> [] \<longrightarrow> rounds \<noteq> [] \<and> last requests + DEBOUNCE_INTERVAL \<le> rr_read_at (last rounds))"
  using reload_loop_rounds [OF assms] by blast

text \<open>An editor that writes twice, and a later save that is no valid configuration: two reads.\<close>

definition empty_config :: app_config where
  "empty_config = \<lparr>ac_keyboards = None, ac_groups = []\<rparr>"

definition sample_watch :: watch_env where
  "sample_watch = \<lparr>we_uni = id, we_load = (\<lambda>c. if c = ''good'' then Inr empty_config else Inl ''no''),
     we_read = (\<lambda>t. Inr (if t < 2000 then ''good'' else ''bad'')), we_duration = (\<lambda>_. 10)\<rparr>"

lemma sample_rounds:
  "reload_loop sample_watch None 0 [1000, 1100, 3000] throttle_new st =
     ([\<lparr>rr_read_at = 1600, rr_result = ReloadOk, rr_logged = (False, False)\<rparr>,
       \<lparr>rr_read_at = 3500, rr_result = ReloadErr ''no'', rr_logged = (True, False)\<rparr>],
      set_lookup_cache (compile_from_config id empty_config) st)"
  by (simp add: sample_watch_def DEBOUNCE_INTERVAL_def attempt_reload_def reload_from_str_def compile_from_str_def
      note_result_def throttle_new_def ERROR_THROTTLE_LIMIT_def Let_def)

lemma reloads_after_quiet_witness:
  "\<forall>st. rr_read_at (last (fst (reload_loop sample_watch None 0 [1000, 1100, 3000] throttle_new st))) \<ge> 3000 + 500"
proof
  fix st
  have "sorted [1000, 1100, 3000 :: nat]" by simp
  from reloads_after_quiet [OF sample_rounds [of st] this]
  show "rr_read_at (last (fst (reload_loop sample_watch None 0 [1000, 1100, 3000] throttle_new st))) \<ge> 3000 + 500"
    unfolding sample_rounds by (simp add: DEBOUNCE_INTERVAL_def)
qed

text \<open>
  C21. A broken configuration never replaces a working one. While the watcher lives, the rules in force are at
  every moment those of the last read that gave a readable file with a valid configuration, or those
  from before if there was none; a round reports success exactly for such a read; and nothing but the
  rules changes: the keyboards known and the focus tracker stay.
\<close>
theorem last_good_config_in_force:
  assumes "reload_loop env None now requests th st = (rounds, st')" and "sorted requests"
  shows "rs_lookup_cache st' =
      (if good_configs env rounds = [] then rs_lookup_cache st
       else compile_from_config (we_uni env) (last (good_configs env rounds)))
    \<and> rs_keyboard_registry st' = rs_keyboard_registry st \<and> rs_focus st' = rs_focus st
    \<and> (\<forall>r \<in> set rounds. (rr_result r = ReloadOk) = (loaded env (rr_read_at r) \<noteq> None))"
  using reload_loop_state [OF assms] by (auto simp: set_lookup_cache_def)

lemma last_good_config_in_force_witness:
  "\<forall>st. rs_lookup_cache (snd (reload_loop sample_watch None 0 [1000, 1100, 3000] throttle_new st))
    = compile_from_config id empty_config"
proof
  fix st
  have "sorted [1000, 1100, 3000 :: nat]" by simp
  from last_good_config_in_force [OF sample_rounds [of st] this]
  show "rs_lookup_cache (snd (reload_loop sample_watch None 0 [1000, 1100, 3000] throttle_new st))
      = compile_from_config id empty_config"
    unfolding sample_rounds by (simp add: loaded_def sample_watch_def)
qed

text \<open>
  The log of failures is throttled, not silenced. Among failures in a row, the first five are logged; a
  later one is logged if and only if no message was logged within the 30 seconds before it. (The
  documentation says that after five failures messages are suppressed until a reload succeeds.)
\<close>
theorem error_log_throttled:
  assumes "sorted (map snd (failures @ [(msg, now)]))"
  shows "last (logged_failures (failures @ [(msg, now)]) throttle_new) =
    (length failures < 5
     \<or> (\<forall>j < length failures. logged_failures failures throttle_new ! j \<longrightarrow> 30000 \<le> now - snd (failures ! j)))"
proof -
  have "snd (failures ! j) + 30000 \<le> now \<longleftrightarrow> 30000 \<le> now - snd (failures ! j)" for j by linarith
  moreover have "last (logged_failures (failures @ [(msg, now)]) throttle_new)
      = logged_failures (failures @ [(msg, now)]) throttle_new ! length failures"
    by (subst last_conv_nth) (simp_all flip: length_0_conv)
  ultimately show ?thesis using logged_iff [OF assms] by (simp add: ERROR_THROTTLE_LIMIT_def)
qed

text \<open>Six failures within six seconds, and one 34 seconds later.\<close>

lemma error_log_throttled_witness:
  "last (logged_failures (map (Pair ''no'') [0, 1000, 2000, 3000, 4000, 5000] @ [(''no'', 34000)]) throttle_new)"
proof -
  let ?fs = "map (Pair ''no'') [0, 1000, 2000, 3000, 4000, 5000 :: nat]"
  have ls: "logged_failures ?fs throttle_new = [True, True, True, True, True, False]"
    by (simp add: note_result_def throttle_new_def ERROR_THROTTLE_LIMIT_def)
  have "30000 \<le> 34000 - snd (?fs ! j)" if "j < length ?fs" "[True, True, True, True, True, False] ! j" for j
  proof -
    have "j \<in> {0, 1, 2, 3, 4, 5}" using that(1) by auto
    with that(2) show ?thesis by (elim insertE) simp_all
  qed
  then have "\<forall>j < length ?fs. logged_failures ?fs throttle_new ! j \<longrightarrow> 30000 \<le> 34000 - snd (?fs ! j)"
    unfolding ls by blast
  moreover have "sorted (map snd (?fs @ [(''no'', 34000)]))" by simp
  ultimately show ?thesis using error_log_throttled by blast
qed

text \<open>
  What a notification asks for: a reload exactly when one of its paths, other than the directory itself,
  has the name of the configuration file and the notification is a creation or any modification. A
  renaming is a modification in either direction, so the file being renamed away asks for a reload as
  well (the documentation of \<open>ConfigRemoved\<close> says otherwise).
\<close>
lemma classify_event_reload:
  "classify_event event watch_dir config_name = Reload \<longleftrightarrow>
     fe_kind event \<in> {EkCreate, EkModifyName, EkModifyOther}
     \<and> (\<exists>p \<in> set (fe_paths event). p \<noteq> watch_dir \<and> file_name p = Some config_name)"
proof -
  have "classify_paths kind watch_dir config_name gone ps = Reload \<longleftrightarrow>
      kind \<in> {EkCreate, EkModifyName, EkModifyOther} \<and> (\<exists>p \<in> set ps. p \<noteq> watch_dir \<and> file_name p = Some config_name)"
    for kind gone ps
    by (induction ps arbitrary: gone) auto
  then show ?thesis by (simp add: classify_event_def)
qed

end
