(* ===== verification/Config_Access.thy ===== *)
theory Config_Access
  imports Utf8 Path
begin

text \<open>
  \<open>src/common/config_io.rs\<close> and \<open>src/platform/config_access/unix.rs\<close>, reading: the configuration file is
  opened directory by directory and every check is made on an open descriptor. The system is a record
  of the calls, each with a count of the calls made before it, so that it may answer differently every
  time: other users change the file system while the checks run. \<open>'h\<close> is an open descriptor.
\<close>

section \<open>The system\<close>

datatype errno = ELOOP | ENOENT | ENOTDIR | EINVAL | ENOSYS | Errno nat

datatype file_kind = KindDir | KindFile | KindOther

record file_meta =
  fm_kind :: file_kind
  fm_mode :: u32
  fm_uid :: u32
  fm_len :: nat

text \<open>
  \<open>openat\<close> with the directory (\<open>None\<close>: the working directory), the name and whether it is opened with
  \<open>O_NOFOLLOW\<close> (else \<open>O_DIRECTORY\<close>); \<open>fstat\<close>; reading a descriptor to its end.
\<close>

record 'h os =
  os_openat :: "nat \<Rightarrow> 'h option \<Rightarrow> string \<Rightarrow> bool \<Rightarrow> errno + 'h"
  os_fstat :: "nat \<Rightarrow> 'h \<Rightarrow> file_meta option"
  os_read :: "nat \<Rightarrow> 'h \<Rightarrow> errno + bytes"

definition S_IWOTH :: u32 where "S_IWOTH = 0x002"
definition S_IROTH :: u32 where "S_IROTH = 0x004"
definition S_ISVTX :: u32 where "S_ISVTX = 0x200"
definition MAX_CONFIG_SIZE :: nat where "MAX_CONFIG_SIZE = 1024 * 1024"

section \<open>Errors\<close>

datatype config_read_error =
    CfgNotFound
  | CfgSymlink
  | CfgMetadata
  | CfgNotRegularFile
  | CfgTooLarge nat nat
  | CfgWrongOwner u32 u32
  | CfgWorldWritable
  | CfgWorldReadable
  | CfgUntrustedParentDir string string
  | CfgIo errno
  | CfgInvalidData

text \<open>
  Reading the content as a string fails on bytes that are not UTF-8 with an I/O error of its own kind,
  \<open>CfgInvalidData\<close>.
\<close>

definition map_open_error :: "string \<Rightarrow> errno \<Rightarrow> bool \<Rightarrow> config_read_error" where
  "map_open_error path err is_last =
     (case err of
        ELOOP \<Rightarrow> CfgSymlink
      | ENOENT \<Rightarrow> if is_last then CfgNotFound else CfgUntrustedParentDir path ''missing''
      | ENOTDIR \<Rightarrow> if is_last then CfgIo err else CfgUntrustedParentDir path ''not a directory''
      | _ \<Rightarrow> CfgIo err)"

section \<open>The directories on the way\<close>

record ancestor_info =
  ai_path :: string
  ai_uid :: u32

definition world_writable_unsticky :: "u32 \<Rightarrow> bool" where
  "world_writable_unsticky mode \<longleftrightarrow> mode AND S_IWOTH \<noteq> 0 \<and> mode AND S_ISVTX = 0"

definition push_name :: "string \<Rightarrow> string \<Rightarrow> string" where
  "push_name prefix name =
     (if prefix = [] \<or> last prefix = CHR ''/'' then prefix @ name else prefix @ CHR ''/'' # name)"

text \<open>
  The loop of \<open>resolve_config_path\<close>: the calls made so far, the descriptor the next \<open>openat\<close> starts
  from, the last descriptor opened in the loop or before it, the prefix, the ancestors. The outcome is
  \<open>None\<close> for the panic of \<open>dir_files.pop().unwrap()\<close> when nothing was opened.
\<close>

type_synonym 'h resolved = "config_read_error + 'h \<times> ancestor_info list"

fun resolve_components ::
  "'h os \<Rightarrow> nat \<Rightarrow> 'h option \<Rightarrow> string \<Rightarrow> ancestor_info list \<Rightarrow> path \<Rightarrow> nat \<times> 'h resolved option" where
  "resolve_components os n dirfd prefix ancs [] =
     (n, case dirfd of Some h \<Rightarrow> Some (Inr (h, ancs)) | None \<Rightarrow> None)"
| "resolve_components os n dirfd prefix ancs (c # comps) =
     (case (case c of Normal s \<Rightarrow> Some s | ParentDir \<Rightarrow> Some ''..'' | _ \<Rightarrow> None) of
        None \<Rightarrow> resolve_components os n dirfd prefix ancs comps
      | Some name \<Rightarrow>
          (let is_last = (comps = []); prefix1 = push_name prefix name
           in if CHR 0x00 \<in> set name then (n, Some (Inl (CfgIo EINVAL)))
              else
                (case os_openat os n dirfd name is_last of
                   Inl err \<Rightarrow> (n + 1, Some (Inl (map_open_error prefix1 err is_last)))
                 | Inr h \<Rightarrow>
                     if is_last then resolve_components os (n + 1) (Some h) prefix1 ancs comps
                     else
                       (case os_fstat os (n + 1) h of
                          None \<Rightarrow> (n + 2, Some (Inl CfgMetadata))
                        | Some meta \<Rightarrow>
                            if fm_kind meta \<noteq> KindDir
                            then (n + 2, Some (Inl (CfgUntrustedParentDir prefix1 ''not a directory'')))
                            else if world_writable_unsticky (fm_mode meta)
                            then (n + 2, Some (Inl (CfgUntrustedParentDir prefix1 ''world-writable without sticky bit'')))
                            else resolve_components os (n + 2) (Some h) prefix1
                                   (ancs @ [\<lparr>ai_path = prefix1, ai_uid = fm_uid meta\<rparr>]) comps))))"

text \<open>\<open>open_directory\<close> is used for the root only.\<close>

definition resolve_config_path :: "'h os \<Rightarrow> nat \<Rightarrow> path \<Rightarrow> nat \<times> 'h resolved option" where
  "resolve_config_path os n path =
     (case path of
        [] \<Rightarrow> (n, Some (Inl (CfgIo ENOENT)))
      | c # rest \<Rightarrow>
          if c = RootDir then
            (case os_openat os n None ''/'' False of
               Inl err \<Rightarrow> (n + 1, Some (Inl (map_open_error ''/'' err False)))
             | Inr h \<Rightarrow>
                 if rest = [] then (n + 1, Some (Inl CfgNotFound))
                 else resolve_components os (n + 1) (Some h) ''/'' [] rest)
          else resolve_components os n None [] [] path)"

section \<open>Opening and checking\<close>

text \<open>The check with \<open>openat2\<close>, on Linux: the error of the call, if it fails.\<close>

definition verify_final_component_with_openat2 :: "errno option \<Rightarrow> config_read_error + unit" where
  "verify_final_component_with_openat2 err =
     (case err of Some ELOOP \<Rightarrow> Inl CfgSymlink | _ \<Rightarrow> Inr ())"

definition check_ancestor_owners :: "u32 \<Rightarrow> ancestor_info list \<Rightarrow> config_read_error + unit" where
  "check_ancestor_owners file_uid ancs =
     (case find (\<lambda>a. ai_uid a \<noteq> file_uid \<and> ai_uid a \<noteq> 0) ancs of
        Some a \<Rightarrow> Inl (CfgUntrustedParentDir (ai_path a) ''ancestor not owned by config owner or root'')
      | None \<Rightarrow> Inr ())"

text \<open>\<open>openat2_err\<close> is \<open>None\<close> where the call succeeds, and on other systems than Linux.\<close>

definition open_config_file ::
  "'h os \<Rightarrow> u32 \<Rightarrow> errno option \<Rightarrow> nat \<Rightarrow> path \<Rightarrow> nat \<times> (config_read_error + 'h) option" where
  "open_config_file os current_uid openat2_err n path =
     (case resolve_config_path os n path of
        (m, None) \<Rightarrow> (m, None)
      | (m, Some (Inl e)) \<Rightarrow> (m, Some (Inl e))
      | (m, Some (Inr (h, ancs))) \<Rightarrow>
          (let finish = (case verify_final_component_with_openat2 openat2_err of Inl e \<Rightarrow> Inl e | Inr _ \<Rightarrow> Inr h)
           in if current_uid = 0 \<and> ancs \<noteq> [] then
                (case os_fstat os m h of
                   None \<Rightarrow> (m + 1, Some (Inl CfgMetadata))
                 | Some meta \<Rightarrow>
                     (case check_ancestor_owners (fm_uid meta) ancs of
                        Inl e \<Rightarrow> (m + 1, Some (Inl e))
                      | Inr _ \<Rightarrow> (m + 1, Some finish)))
              else (m, Some finish)))"

definition check_file_trust :: "u32 \<Rightarrow> file_meta \<Rightarrow> config_read_error + unit" where
  "check_file_trust current_uid meta =
     (if current_uid \<noteq> 0 \<and> fm_uid meta \<noteq> current_uid then Inl (CfgWrongOwner (fm_uid meta) current_uid)
      else if fm_mode meta AND S_IWOTH \<noteq> 0 then Inl CfgWorldWritable
      else if fm_uid meta \<noteq> 0 \<and> fm_mode meta AND S_IROTH \<noteq> 0 then Inl CfgWorldReadable
      else Inr ())"

text \<open>
  \<open>read_config_content\<close>: \<open>lstat\<close> is the result of \<open>symlink_metadata\<close>, whether the path is a symbolic
  link.
\<close>

definition read_config_content ::
  "'h os \<Rightarrow> u32 \<Rightarrow> errno + bool \<Rightarrow> errno option \<Rightarrow> path \<Rightarrow> (config_read_error + string) option" where
  "read_config_content os current_uid lstat openat2_err path =
     (case lstat of
        Inl err \<Rightarrow> Some (Inl (if err = ENOENT then CfgNotFound else CfgIo err))
      | Inr is_symlink \<Rightarrow>
          if is_symlink then Some (Inl CfgSymlink)
          else
            (case open_config_file os current_uid openat2_err 0 path of
               (_, None) \<Rightarrow> None
             | (_, Some (Inl e)) \<Rightarrow> Some (Inl e)
             | (n, Some (Inr h)) \<Rightarrow>
                 (case os_fstat os n h of
                    None \<Rightarrow> Some (Inl CfgMetadata)
                  | Some meta \<Rightarrow>
                      if fm_kind meta \<noteq> KindFile then Some (Inl CfgNotRegularFile)
                      else if fm_len meta > MAX_CONFIG_SIZE then Some (Inl (CfgTooLarge (fm_len meta) MAX_CONFIG_SIZE))
                      else
                        (case check_file_trust current_uid meta of
                           Inl e \<Rightarrow> Some (Inl e)
                         | Inr _ \<Rightarrow>
                             (case os_read os (n + 1) h of
                                Inl err \<Rightarrow> Some (Inl (CfgIo err))
                              | Inr bs \<Rightarrow> Some (if utf8_ok bs then Inr (bytes_str bs) else Inl CfgInvalidData))))))"

section \<open>Routes of trusted directories\<close>

text \<open>
  A descriptor reached from a directory, name by name: every directory on the way was opened from the
  one before it, and \<open>fstat\<close> on the descriptor itself showed a directory that others cannot write to
  (or only under the sticky bit), with an owner that is \<open>ok\<close>.
\<close>

inductive trusted_route :: "'h os \<Rightarrow> (u32 \<Rightarrow> bool) \<Rightarrow> 'h option \<Rightarrow> string list \<Rightarrow> 'h \<Rightarrow> bool"
  for os ok where
  route_file: "os_openat os n dirfd name True = Inr h \<Longrightarrow> trusted_route os ok dirfd [name] h"
| route_dir: "os_openat os n dirfd name False = Inr g \<Longrightarrow> os_fstat os m g = Some meta \<Longrightarrow>
    fm_kind meta = KindDir \<Longrightarrow> \<not> world_writable_unsticky (fm_mode meta) \<Longrightarrow> ok (fm_uid meta) \<Longrightarrow>
    trusted_route os ok (Some g) names h \<Longrightarrow> trusted_route os ok dirfd (name # names) h"

lemma trusted_route_mono:
  "(\<And>uid. ok uid \<Longrightarrow> ok' uid) \<Longrightarrow> trusted_route os ok dirfd names h \<Longrightarrow> trusted_route os ok' dirfd names h"
  by (rotate_tac, induction rule: trusted_route.induct) (auto intro: trusted_route.intros)

definition component_name :: "path_component \<Rightarrow> string option" where
  "component_name c = (case c of Normal s \<Rightarrow> Some s | ParentDir \<Rightarrow> Some ''..'' | _ \<Rightarrow> None)"

definition names_of :: "path \<Rightarrow> string list" where
  "names_of p = List.map_filter component_name p"

lemma names_of_simps [simp]:
  "names_of [] = []"
  "names_of (c # cs) = (case component_name c of Some s \<Rightarrow> [s] | None \<Rightarrow> []) @ names_of cs"
  by (simp_all add: names_of_def map_filter_simps split: option.split)

lemma component_name_None: "component_name c = None \<longleftrightarrow> c \<in> {RootDir, CurDir}"
  by (cases c) (simp_all add: component_name_def)

lemma resolve_components_route:
  assumes "resolve_components os n dirfd prefix ancs comps = (m, Some (Inr (h, ancs')))"
    and "comps \<noteq> []" and "set comps \<inter> {RootDir, CurDir} = {}"
  shows "\<exists>new. ancs' = ancs @ new
    \<and> (\<forall>ok. (\<forall>a \<in> set new. ok (ai_uid a)) \<longrightarrow> trusted_route os ok dirfd (names_of comps) h)"
  using assms
proof (induction comps arbitrary: n dirfd prefix ancs)
  case (Cons c comps)
  obtain name where name: "component_name c = Some name"
    using Cons.prems(3) component_name_None [of c] by auto
  note run = Cons.prems(1) [simplified resolve_components.simps component_name_def [symmetric] name, simplified Let_def]
  have nul: "CHR 0x00 \<notin> set name" using run by (auto split: if_splits)
  show ?case
  proof (cases "comps = []")
    case True
    with run nul obtain h' where "os_openat os n dirfd name True = Inr h'" "h' = h" "ancs' = ancs"
      by (auto split: sum.splits)
    with True name show ?thesis by (auto intro: route_file)
  next
    case False
    from run nul False obtain g meta where g: "os_openat os n dirfd name False = Inr g"
      "os_fstat os (n + 1) g = Some meta" "fm_kind meta = KindDir" "\<not> world_writable_unsticky (fm_mode meta)"
      and next_run: "resolve_components os (n + 2) (Some g) (push_name prefix name)
        (ancs @ [\<lparr>ai_path = push_name prefix name, ai_uid = fm_uid meta\<rparr>]) comps = (m, Some (Inr (h, ancs')))"
      by (auto split: sum.splits option.splits if_splits)
    from Cons.IH [OF next_run False] Cons.prems(3) obtain new where new:
      "ancs' = (ancs @ [\<lparr>ai_path = push_name prefix name, ai_uid = fm_uid meta\<rparr>]) @ new"
      "\<And>ok. (\<forall>a \<in> set new. ok (ai_uid a)) \<Longrightarrow> trusted_route os ok (Some g) (names_of comps) h"
      by auto
    show ?thesis
      by (rule exI [of _ "\<lparr>ai_path = push_name prefix name, ai_uid = fm_uid meta\<rparr> # new"])
        (use new name g in \<open>auto intro: route_dir\<close>)
  qed
qed simp

text \<open>The directory the route starts from: the root, opened as such, or the working directory.\<close>

definition route_start :: "'h os \<Rightarrow> path \<Rightarrow> 'h option \<Rightarrow> bool" where
  "route_start os path start \<longleftrightarrow>
     (if take 1 path = [RootDir] then (\<exists>n h. os_openat os n None ''/'' False = Inr h \<and> start = Some h)
      else start = None)"

lemma resolve_config_path_route:
  assumes "resolve_config_path os n path = (m, Some (Inr (h, ancs)))" and "wf_path path"
  shows "\<exists>start. route_start os path start
    \<and> (\<forall>ok. (\<forall>a \<in> set ancs. ok (ai_uid a)) \<longrightarrow> trusted_route os ok start (names_of path) h)"
proof (cases path)
  case Nil
  with assms show ?thesis by (simp add: resolve_config_path_def)
next
  case (Cons c rest)
  have rest: "set rest \<inter> {RootDir, CurDir} = {}" using assms(2) by (simp add: Cons wf_path_def)
  consider "c = RootDir" | "c = CurDir" | "c \<notin> {RootDir, CurDir}" by blast
  then show ?thesis
  proof cases
    case 1
    from assms(1) obtain g where g: "os_openat os n None ''/'' False = Inr g" "rest \<noteq> []"
      "resolve_components os (n + 1) (Some g) ''/'' [] rest = (m, Some (Inr (h, ancs)))"
      by (auto simp: resolve_config_path_def Cons 1 split: sum.splits if_splits)
    from resolve_components_route [OF g(3,2) rest] g(1) show ?thesis
      by (auto simp: route_start_def Cons 1 component_name_def)
  next
    case 2
    from assms(1) have r: "resolve_components os n None [] [] rest = (m, Some (Inr (h, ancs)))"
      by (simp add: resolve_config_path_def Cons 2)
    then have "rest \<noteq> []" by auto
    from resolve_components_route [OF r this rest] show ?thesis
      by (auto simp: route_start_def Cons 2 component_name_def)
  next
    case 3
    from assms(1) have "resolve_components os n None [] [] path = (m, Some (Inr (h, ancs)))"
      using 3 by (simp add: resolve_config_path_def Cons)
    from resolve_components_route [OF this] 3 rest show ?thesis
      by (auto simp: route_start_def Cons)
  qed
qed

lemma check_ancestor_owners_iff:
  "check_ancestor_owners file_uid ancs = Inr () \<longleftrightarrow> (\<forall>a \<in> set ancs. ai_uid a = file_uid \<or> ai_uid a = 0)"
  by (auto simp: check_ancestor_owners_def find_None_iff find_Some_iff split: option.split)

lemma open_config_file_route:
  assumes run: "open_config_file os current_uid openat2_err n path = (m, Some (Inr h))" and wf: "wf_path path"
  defines "owned owner \<equiv> \<lambda>uid. current_uid = 0 \<longrightarrow> uid = 0 \<or> uid = owner"
  shows "\<exists>start. route_start os path start
    \<and> ((\<forall>owner. trusted_route os (owned owner) start (names_of path) h)
       \<or> (\<exists>k meta. os_fstat os k h = Some meta
            \<and> trusted_route os (owned (fm_uid meta)) start (names_of path) h))"
proof -
  from run obtain m1 ancs where r: "resolve_config_path os n path = (m1, Some (Inr (h, ancs)))"
    and rest: "current_uid = 0 \<and> ancs \<noteq> [] \<longrightarrow>
      (\<exists>meta. os_fstat os m1 h = Some meta \<and> check_ancestor_owners (fm_uid meta) ancs = Inr ())"
    by (auto simp: open_config_file_def Let_def split: prod.splits option.splits sum.splits if_splits)
  from resolve_config_path_route [OF r wf] obtain start where start: "route_start os path start"
    "\<And>ok. (\<forall>a \<in> set ancs. ok (ai_uid a)) \<Longrightarrow> trusted_route os ok start (names_of path) h"
    by blast
  show ?thesis
  proof (cases "current_uid = 0 \<and> ancs \<noteq> []")
    case True
    with rest obtain meta where "os_fstat os m1 h = Some meta" "check_ancestor_owners (fm_uid meta) ancs = Inr ()"
      by blast
    moreover from this have "trusted_route os (owned (fm_uid meta)) start (names_of path) h"
      by (intro start(2)) (auto simp: check_ancestor_owners_iff owned_def)
    ultimately show ?thesis using start(1) by blast
  next
    case False
    then have "trusted_route os (owned owner) start (names_of path) h" for owner
      by (intro start(2)) (auto simp: owned_def)
    with start(1) show ?thesis by blast
  qed
qed

text \<open>What the checks of an open file accept.\<close>

definition trusted_file :: "u32 \<Rightarrow> file_meta \<Rightarrow> bool" where
  "trusted_file current_uid meta \<longleftrightarrow>
     fm_kind meta = KindFile \<and> fm_len meta \<le> MAX_CONFIG_SIZE
     \<and> (current_uid = 0 \<or> fm_uid meta = current_uid)
     \<and> fm_mode meta AND S_IWOTH = 0 \<and> (fm_uid meta = 0 \<or> fm_mode meta AND S_IROTH = 0)"

lemma check_file_trust_iff:
  "check_file_trust current_uid meta = Inr () \<longleftrightarrow>
     (current_uid = 0 \<or> fm_uid meta = current_uid)
     \<and> fm_mode meta AND S_IWOTH = 0 \<and> (fm_uid meta = 0 \<or> fm_mode meta AND S_IROTH = 0)"
  by (auto simp: check_file_trust_def)

section \<open>Properties\<close>

text \<open>
  C20. The configuration is read from where it can be trusted, whatever others do to the file system while
  it is opened. Content is returned only if it was read from a descriptor on which \<open>fstat\<close> showed a
  regular file within the size bound, of the current user (or the reader is root), not writable for
  others and not readable for them unless root's; and that descriptor was opened, without following a
  link, from a chain of directories, each opened from the one before, on each of which \<open>fstat\<close> showed
  a directory that others cannot write to but under the sticky bit, and, for root, one that belongs to
  root or to an owner that \<open>fstat\<close> showed for the file.
\<close>
theorem config_read_is_trusted:
  assumes "read_config_content os current_uid lstat openat2_err path = Some (Inr content)" and "wf_path path"
  shows "lstat = Inr False \<and> is_utf8 content
    \<and> (\<exists>h k n meta start. os_fstat os n h = Some meta \<and> trusted_file current_uid meta
        \<and> os_read os k h = Inr (str_bytes content) \<and> route_start os path start
        \<and> (\<exists>m owner. os_fstat os m h = Some owner
            \<and> trusted_route os (\<lambda>uid. current_uid = 0 \<longrightarrow> uid = 0 \<or> uid = fm_uid owner) start (names_of path) h))"
proof -
  from assms(1) obtain n h meta bs where r: "lstat = Inr False"
    "open_config_file os current_uid openat2_err 0 path = (n, Some (Inr h))"
    "os_fstat os n h = Some meta" "fm_kind meta = KindFile" "\<not> fm_len meta > MAX_CONFIG_SIZE"
    "check_file_trust current_uid meta = Inr ()" "os_read os (n + 1) h = Inr bs" "utf8_ok bs" "content = bytes_str bs"
    by (auto simp: read_config_content_def split: sum.splits if_splits prod.splits option.splits)
  have "trusted_file current_uid meta" using r by (auto simp: trusted_file_def check_file_trust_iff)
  moreover have "is_utf8 content" "os_read os (n + 1) h = Inr (str_bytes content)"
    using r by (simp_all add: is_utf8_def str_bytes_str)
  ultimately show ?thesis
    using open_config_file_route [OF r(2) assms(2)] r(1,3) by blast
qed

text \<open>
  A user's file below a home directory: \<open>/home/u/c\<close>. Descriptors are the lengths of the paths opened,
  and \<open>fstat\<close> shows a directory of root, one of the user, and the file.
\<close>

definition sample_os :: "nat os" where
  "sample_os =
     \<lparr>os_openat = (\<lambda>_ dirfd _ _. Inr (case dirfd of None \<Rightarrow> 0 | Some h \<Rightarrow> h + 1)),
      os_fstat = (\<lambda>_ h. Some \<lparr>fm_kind = (if h = 3 then KindFile else KindDir), fm_mode = 0x1C0,
        fm_uid = (if h \<le> 1 then 0 else 1000), fm_len = 2\<rparr>),
      os_read = (\<lambda>_ _. Inr [91, 93])\<rparr>"

lemma sample_read:
  "read_config_content sample_os uid (Inr False) None [RootDir, Normal ''home'', Normal ''u'', Normal ''c''] =
     (if uid = 0 \<or> uid = 1000 then Some (Inr (bytes_str [91, 93])) else Some (Inl (CfgWrongOwner 1000 uid)))"
  by (simp add: read_config_content_def open_config_file_def resolve_config_path_def sample_os_def push_name_def Let_def
      world_writable_unsticky_def S_IWOTH_def S_ISVTX_def S_IROTH_def check_ancestor_owners_def MAX_CONFIG_SIZE_def
      verify_final_component_with_openat2_def check_file_trust_def utf8_tail_def)

lemma config_read_is_trusted_witness:
  "\<exists>h start. route_start sample_os [RootDir, Normal ''home'', Normal ''u'', Normal ''c''] start
     \<and> trusted_route sample_os (\<lambda>uid. uid = 0 \<or> uid = 1000) start [''home'', ''u'', ''c''] h"
proof -
  let ?p = "[RootDir, Normal ''home'', Normal ''u'', Normal ''c'']"
  have run: "read_config_content sample_os 0 (Inr False) None ?p = Some (Inr (bytes_str [91, 93]))"
    by (simp add: sample_read)
  have "wf_path ?p" by (simp add: wf_path_def)
  from config_read_is_trusted [OF run this] obtain h m owner start where
    "route_start sample_os ?p start" "os_fstat sample_os m h = Some owner"
    and r: "trusted_route sample_os (\<lambda>uid. (0 :: u32) = 0 \<longrightarrow> uid = 0 \<or> uid = fm_uid owner) start (names_of ?p) h"
    by blast
  moreover from this(2) have "fm_uid owner = 0 \<or> fm_uid owner = 1000" by (auto simp: sample_os_def split: if_splits)
  ultimately have "trusted_route sample_os (\<lambda>uid. uid = 0 \<or> uid = 1000) start (names_of ?p) h"
    by (intro trusted_route_mono [OF _ r]) auto
  with \<open>route_start sample_os ?p start\<close> show ?thesis by (auto simp: component_name_def)
qed

text \<open>
  The reader does not come to an end on every path: the path \<open>.\<close> opens nothing, and taking the last
  descriptor of none panics. No other path does, whatever the system answers.
\<close>

lemma resolve_components_panics:
  "snd (resolve_components os n dirfd prefix ancs comps) = None \<longleftrightarrow> dirfd = None \<and> names_of comps = []"
proof (induction comps arbitrary: n dirfd prefix ancs)
  case (Cons c comps)
  show ?case
    by (cases "component_name c")
      (simp_all add: component_name_def [symmetric] Cons.IH Let_def del: not_None_eq split: sum.split option.split)
qed (simp split: option.split)

lemma read_panics_iff_dot:
  assumes "wf_path path"
  shows "snd (resolve_config_path os n path) = None \<longleftrightarrow> path = [CurDir]"
proof (cases path)
  case (Cons c rest)
  have "names_of rest = [] \<longleftrightarrow> rest = []"
    using assms component_name_None by (cases rest) (auto simp: Cons wf_path_def split: option.splits)
  then show ?thesis
    using component_name_None [of c]
    by (auto simp: resolve_config_path_def Cons resolve_components_panics simp del: resolve_components.simps not_None_eq
        split: sum.split option.splits)
qed (simp add: resolve_config_path_def)

end
