(* ===== verification/Config_Write.thy ===== *)
theory Config_Write
  imports Config_Access
begin

text \<open>
  \<open>src/common/config_io.rs\<close> and \<open>src/platform/config_access/unix.rs\<close>, writing; the search for the file
  (\<open>src/common/config_path.rs\<close>); and the check of the directories in which \<open>config create\<close> makes a file.
  A write works on one directory, a map from names to what they name; each step may fail.
\<close>

definition APP_DIR_NAME :: string where "APP_DIR_NAME = ''keymapperd''"
definition CONFIG_FILE_NAME :: string where "CONFIG_FILE_NAME = ''config.yaml''"

section \<open>Writing (config_io.rs)\<close>

text \<open>A regular file with its content and mode, a symbolic link, a directory.\<close>

datatype node = NFile string u32 | NSymlink | NDir

type_synonym directory = "string \<rightharpoonup> node"

datatype config_write_error = WrSymlink | WrIo errno

text \<open>
  What goes wrong: creating the temporary file for another reason than that its name is taken; the
  write, after some characters; the \<open>fsync\<close>; the renaming; the removal of the temporary file.
\<close>

record write_faults =
  wf_create :: "errno option"
  wf_write :: "(nat \<times> errno) option"
  wf_sync :: "errno option"
  wf_rename :: "errno option"
  wf_remove :: bool

definition EEXIST :: errno where "EEXIST = Errno 17"
definition EISDIR :: errno where "EISDIR = Errno 21"

text \<open>
  \<open>open_temp_file_for_write\<close>: \<open>O_EXCL\<close> refuses any name that is taken. The mode is \<open>0600\<close> (octal).
\<close>

definition open_temp_file_for_write ::
  "write_faults \<Rightarrow> string \<Rightarrow> directory \<Rightarrow> config_write_error + directory" where
  "open_temp_file_for_write flt name d =
     (case (case d name of Some _ \<Rightarrow> Some EEXIST | None \<Rightarrow> wf_create flt) of
        Some err \<Rightarrow> Inl (if err = ELOOP then WrSymlink else WrIo err)
      | None \<Rightarrow> Inr (d(name \<mapsto> NFile [] 0x180)))"

definition remove_file :: "write_faults \<Rightarrow> string \<Rightarrow> directory \<Rightarrow> directory" where
  "remove_file flt name d = (if wf_remove flt \<or> d name = Some NDir then d else d(name := None))"

text \<open>What \<open>write_all\<close> and \<open>sync_all\<close> leave in the temporary file, and their error.\<close>

definition write_content :: "write_faults \<Rightarrow> string \<Rightarrow> string \<Rightarrow> directory \<Rightarrow> errno option \<times> directory" where
  "write_content flt name content d =
     (case wf_write flt of
        Some (k, err) \<Rightarrow> (Some err, d(name \<mapsto> NFile (take k content) 0x180))
      | None \<Rightarrow> (wf_sync flt, d(name \<mapsto> NFile content 0x180)))"

definition rename_file :: "write_faults \<Rightarrow> string \<Rightarrow> string \<Rightarrow> directory \<Rightarrow> errno + directory" where
  "rename_file flt from_name to_name d =
     (case (if d to_name = Some NDir then Some EISDIR else wf_rename flt) of
        Some err \<Rightarrow> Inl err
      | None \<Rightarrow> Inr ((d(to_name := d from_name))(from_name := None)))"

text \<open>\<open>write_config_atomic\<close>: the result, and the directory after each of its steps, the first one before.\<close>

definition write_config_atomic ::
  "write_faults \<Rightarrow> string \<Rightarrow> string \<Rightarrow> string \<Rightarrow> directory \<Rightarrow> (config_write_error + unit) \<times> directory list" where
  "write_config_atomic flt temp target content d =
     (if d target = Some NSymlink then (Inl WrSymlink, [d])
      else
        (case open_temp_file_for_write flt temp d of
           Inl e \<Rightarrow> (Inl e, [d, remove_file flt temp d])
         | Inr d1 \<Rightarrow>
             (case write_content flt temp content d1 of
                (Some err, d2) \<Rightarrow> (Inl (WrIo err), [d, d1, d2, remove_file flt temp d2])
              | (None, d2) \<Rightarrow>
                  (case rename_file flt temp target d2 of
                     Inl err \<Rightarrow> (Inl (WrIo err), [d, d1, d2, remove_file flt temp d2])
                   | Inr d3 \<Rightarrow> (Inr (), [d, d1, d2, d3])))))"

text \<open>\<open>{:x}\<close> of an unsigned integer, and \<open>temp_file_name\<close>.\<close>

fun show_hex :: "nat \<Rightarrow> string" where
  "show_hex n =
     (let digit = (\<lambda>k. if k < 10 then char_of (48 + k) else char_of (87 + k))
      in if n < 16 then [digit n] else show_hex (n div 16) @ [digit (n mod 16)])"

declare show_hex.simps [simp del]

definition temp_file_name :: "path \<Rightarrow> nat \<Rightarrow> nat \<Rightarrow> string" where
  "temp_file_name path pid nanos =
     (let base = (case file_name path of Some f \<Rightarrow> f | None \<Rightarrow> ''config'')
      in ''.'' @ base @ ''.'' @ show_hex pid @ ''.'' @ show_hex nanos @ ''.tmp'')"

section \<open>Where the file is (config_path.rs)\<close>

text \<open>The file system as \<open>is_file\<close> (which follows links) and \<open>is_symlink\<close> see it.\<close>

record path_probe =
  pp_is_file :: "path \<Rightarrow> bool"
  pp_is_symlink :: "path \<Rightarrow> bool"

definition ordered_search_dirs :: "path option \<Rightarrow> path option \<Rightarrow> path list" where
  "ordered_search_dirs console_user_dir platform_dir =
     fold (\<lambda>d dirs. if d \<in> set dirs then dirs else dirs @ [d])
       (concat (map (\<lambda>x. case x of Some d \<Rightarrow> [d] | None \<Rightarrow> []) [console_user_dir, platform_dir])) []"

fun find_config_in :: "path_probe \<Rightarrow> path list \<Rightarrow> path option" where
  "find_config_in fs [] = None"
| "find_config_in fs (d # ds) =
     (let p = join_name d CONFIG_FILE_NAME
      in if pp_is_file fs p \<and> \<not> pp_is_symlink fs p then Some p else find_config_in fs ds)"

datatype find_error = FoundSymlink path | FoundNothing

fun find_config_strict_in :: "path_probe \<Rightarrow> path list \<Rightarrow> find_error + path" where
  "find_config_strict_in fs [] = Inl FoundNothing"
| "find_config_strict_in fs (d # ds) =
     (let p = join_name d CONFIG_FILE_NAME
      in if \<not> pp_is_file fs p then find_config_strict_in fs ds
         else if pp_is_symlink fs p then Inl (FoundSymlink p)
         else Inr p)"

text \<open>The base directories are those of the platform: the console user's (macOS, root) and the own one.\<close>

definition search_dirs :: "path option \<Rightarrow> path option \<Rightarrow> path list" where
  "search_dirs console_base platform_base =
     ordered_search_dirs (map_option (\<lambda>d. join_name d APP_DIR_NAME) console_base)
       (map_option (\<lambda>d. join_name d APP_DIR_NAME) platform_base)"

definition find_config_path :: "path_probe \<Rightarrow> path option \<Rightarrow> path option \<Rightarrow> path option" where
  "find_config_path fs console_base platform_base = find_config_in fs (search_dirs console_base platform_base)"

definition find_config_path_strict :: "path_probe \<Rightarrow> path option \<Rightarrow> path option \<Rightarrow> find_error + path" where
  "find_config_path_strict fs console_base platform_base =
     find_config_strict_in fs (search_dirs console_base platform_base)"

definition default_config_path :: "path option \<Rightarrow> path option" where
  "default_config_path platform_base =
     map_option (\<lambda>d. join_name (join_name d APP_DIR_NAME) CONFIG_FILE_NAME) platform_base"

section \<open>Directories for a new file (config_access/unix.rs)\<close>

text \<open>\<open>stat\<close> of a path, links followed.\<close>

fun verify_dirs :: "(path \<Rightarrow> errno + file_meta) \<Rightarrow> path list \<Rightarrow> config_read_error + unit" where
  "verify_dirs stat [] = Inr ()"
| "verify_dirs stat (d # ds) =
     (if d = [] then Inr ()
      else
        (case stat d of
           Inl err \<Rightarrow>
             if err = ENOENT then verify_dirs stat ds else Inl (CfgUntrustedParentDir [] ''cannot be inspected'')
         | Inr meta \<Rightarrow>
             if fm_kind meta \<noteq> KindDir then Inl (CfgUntrustedParentDir [] ''not a directory'')
             else if world_writable_unsticky (fm_mode meta)
             then Inl (CfgUntrustedParentDir [] ''world-writable without sticky bit'')
             else verify_dirs stat ds))"

text \<open>The text of the path in the error is left out.\<close>

definition verify_parent_chain_for_create :: "(path \<Rightarrow> errno + file_meta) \<Rightarrow> path \<Rightarrow> config_read_error + unit" where
  "verify_parent_chain_for_create stat path = verify_dirs stat (tl (ancestors path))"

text \<open>
  \<open>create\<close> of \<open>src/cli/config_cmd.rs\<close>, up to the write: the path of the new file, or why there is none.
  \<open>mkdir\<close> is whether the directories can be made.
\<close>

datatype create_error = CrNoDefault | CrExists path | CrUnsafe config_read_error | CrMkdir

definition create_config_at ::
  "(path \<Rightarrow> errno + file_meta) \<Rightarrow> path_probe \<Rightarrow> bool \<Rightarrow> path option \<Rightarrow> path option \<Rightarrow> create_error + path" where
  "create_config_at stat fs mkdir dir platform_base =
     (case (case dir of Some d \<Rightarrow> Some (join_name d CONFIG_FILE_NAME) | None \<Rightarrow> default_config_path platform_base) of
        None \<Rightarrow> Inl CrNoDefault
      | Some p \<Rightarrow>
          if pp_is_file fs p then Inl (CrExists p)
          else
            (case parent p of
               None \<Rightarrow> Inr p
             | Some par \<Rightarrow>
                 (case verify_parent_chain_for_create stat par of
                    Inl e \<Rightarrow> Inl (CrUnsafe e)
                  | Inr _ \<Rightarrow> if \<not> mkdir then Inl CrMkdir else Inr p)))"

section \<open>Lemmas\<close>

lemma ancestors_shorter: "q \<in> set (tl (ancestors p)) \<Longrightarrow> length q < length p"
proof (induction p rule: ancestors.induct)
  case (1 p)
  show ?case
  proof (cases "parent p")
    case None
    with "1.prems" show ?thesis by (simp add: ancestors.simps [of p])
  next
    case (Some r)
    then have l: "length r < length p" by (auto simp: parent_def split: if_splits)
    have "q \<in> set (ancestors r)" using "1.prems" Some by (simp add: ancestors.simps [of p])
    then have "q = r \<or> q \<in> set (tl (ancestors r))" by (subst (asm) ancestors.simps) (simp add: ancestors.simps [of r])
    with "1.IH" [OF Some] l show ?thesis by auto
  qed
qed

lemma verify_dirs_cong:
  "(\<And>d. d \<in> set ds \<Longrightarrow> stat d = stat' d) \<Longrightarrow> verify_dirs stat ds = verify_dirs stat' ds"
  by (induction ds) (simp_all split: sum.split)

lemma find_strict_agrees:
  "find_config_strict_in fs ds = Inr p \<Longrightarrow> find_config_in fs ds = Some p"
  by (induction ds) (auto simp: Let_def split: if_splits)

section \<open>Properties\<close>

text \<open>
  C22. Writing the configuration is atomic. Whatever step fails, and wherever the process is stopped between
  steps, the file is either what it was before or the new content with mode \<open>0600\<close>, whole; no other
  file is touched but the temporary one; success means the new content is in place and the temporary
  file gone, failure means the old file is; and if nothing fails, the name of the temporary file is
  free and the target is neither a link nor a directory, it succeeds.
\<close>
theorem config_write_is_atomic:
  assumes "temp \<noteq> target" and "write_config_atomic flt temp target content d = (res, states)"
  shows "(\<forall>s \<in> set states. (s target = d target \<or> s target = Some (NFile content 0x180))
        \<and> (\<forall>name. name \<noteq> temp \<and> name \<noteq> target \<longrightarrow> s name = d name))
    \<and> (res = Inr () \<longrightarrow> last states = d(target \<mapsto> NFile content 0x180))
    \<and> (res \<noteq> Inr () \<longrightarrow> last states target = d target)
    \<and> (d temp = None \<and> d target \<notin> {Some NSymlink, Some NDir} \<and> wf_create flt = None \<and> wf_write flt = None
        \<and> wf_sync flt = None \<and> wf_rename flt = None \<longrightarrow> res = Inr ())"
proof (cases "d target = Some NSymlink")
  case True
  with assms(2) show ?thesis by (auto simp: write_config_atomic_def)
next
  case False
  show ?thesis
  proof (cases "open_temp_file_for_write flt temp d")
    case (Inl e)
    with assms False show ?thesis
      by (auto simp: write_config_atomic_def open_temp_file_for_write_def remove_file_def split: option.splits if_splits)
  next
    case (Inr d1)
    then have d1: "d1 = d(temp \<mapsto> NFile [] 0x180)" "d temp = None" "wf_create flt = None"
      by (auto simp: open_temp_file_for_write_def split: option.splits if_splits)
    obtain err d2 where w: "write_content flt temp content d1 = (err, d2)" by force
    then obtain c where d2: "d2 = d(temp \<mapsto> NFile c 0x180)" "err = None \<longrightarrow> c = content \<and> wf_write flt = None \<and> wf_sync flt = None"
      "err \<noteq> None \<longrightarrow> wf_write flt \<noteq> None \<or> wf_sync flt \<noteq> None"
      using d1 by (auto simp: write_content_def split: option.splits)
    show ?thesis
    proof (cases err)
      case (Some e)
      with assms False Inr w d1 d2 show ?thesis
        by (auto simp: write_config_atomic_def remove_file_def)
    next
      case None
      show ?thesis
      proof (cases "rename_file flt temp target d2")
        case (Inl e)
        then have "wf_rename flt \<noteq> None \<or> d target = Some NDir"
          using d2 assms(1) by (auto simp: rename_file_def split: if_splits option.splits)
        with assms False Inr w d1 d2 None Inl show ?thesis
          by (auto simp: write_config_atomic_def remove_file_def)
      next
        case (Inr d3)
        then have "d3 = d(target \<mapsto> NFile content 0x180)"
          using d1 d2 None assms(1) by (auto simp: rename_file_def fun_eq_iff split: if_splits option.splits)
        with assms False \<open>open_temp_file_for_write flt temp d = Inr d1\<close> w d1 d2 None Inr show ?thesis
          by (auto simp: write_config_atomic_def)
      qed
    qed
  qed
qed

text \<open>The disk is full after three characters.\<close>

lemma config_write_is_atomic_witness:
  "last (snd (write_config_atomic \<lparr>wf_create = None, wf_write = Some (3, Errno 28), wf_sync = None, wf_rename = None,
      wf_remove = False\<rparr> ''t'' ''config.yaml'' ''- name: x'' [''config.yaml'' \<mapsto> NFile ''[]'' 0x180])) ''config.yaml''
   = Some (NFile ''[]'' 0x180)"
proof -
  let ?f = "\<lparr>wf_create = None, wf_write = Some (3, Errno 28), wf_sync = None, wf_rename = None, wf_remove = False\<rparr>"
  let ?w = "write_config_atomic ?f ''t'' ''config.yaml'' ''- name: x'' [''config.yaml'' \<mapsto> NFile ''[]'' 0x180]"
  have "fst ?w = Inl (WrIo (Errno 28))"
    by (simp add: write_config_atomic_def open_temp_file_for_write_def write_content_def)
  then show ?thesis
    using config_write_is_atomic [OF _ prod.collapse [symmetric], of "''t''" "''config.yaml''" ?f "''- name: x''"
        "[''config.yaml'' \<mapsto> NFile ''[]'' 0x180]"] by simp
qed

text \<open>
  The clean-up after a failed creation removes a file that the write has not created: if the name of
  the temporary file is taken, the file of that name is deleted, though the documentation says that the
  collision fails rather than clobbers.
\<close>

lemma collision_removes_other_file:
  assumes "d target \<noteq> Some NSymlink" and "d temp = Some (NFile other mode)" and "\<not> wf_remove flt"
  shows "write_config_atomic flt temp target content d = (Inl (WrIo EEXIST), [d, d(temp := None)])"
  using assms by (simp add: write_config_atomic_def open_temp_file_for_write_def remove_file_def EEXIST_def)

text \<open>
  \<open>config create\<close> makes the file in a directory it has not looked at, and that the reader may refuse.
  Whether a file is created in a directory does not depend on what kind of object the directory is, who
  owns it and who can write to it: the check begins at its parent. So a file is created in a directory
  that anybody can write to, and every read of it is then refused.
\<close>
theorem create_ignores_own_directory:
  assumes "os_openat os 0 None ''/'' False = Inr root"
    and "os_openat os 1 (Some root) name False = Inr dir" and "CHR 0x00 \<notin> set name" and "name \<noteq> []"
    and "os_fstat os 2 dir = Some meta" and "fm_kind meta = KindDir" and "world_writable_unsticky (fm_mode meta)"
  shows "(\<forall>d x. create_config_at (stat(d := x)) fs mkdir (Some d) base = create_config_at stat fs mkdir (Some d) base)
    \<and> read_config_content os uid (Inr False) openat2_err [RootDir, Normal name, Normal CONFIG_FILE_NAME]
      = Some (Inl (CfgUntrustedParentDir (CHR ''/'' # name) ''world-writable without sticky bit''))"
proof (intro conjI allI)
  fix d x
  have "verify_parent_chain_for_create (stat(d := x)) d = verify_parent_chain_for_create stat d"
    unfolding verify_parent_chain_for_create_def
    by (rule verify_dirs_cong) (use ancestors_shorter [of d d] in auto)
  then show "create_config_at (stat(d := x)) fs mkdir (Some d) base = create_config_at stat fs mkdir (Some d) base"
    by (simp add: create_config_at_def)
next
  show "read_config_content os uid (Inr False) openat2_err [RootDir, Normal name, Normal CONFIG_FILE_NAME]
      = Some (Inl (CfgUntrustedParentDir (CHR ''/'' # name) ''world-writable without sticky bit''))"
    using assms by (simp add: read_config_content_def open_config_file_def resolve_config_path_def push_name_def Let_def numeral_2_eq_2)
qed

lemma create_ignores_own_directory_witness:
  "create_config_at ((\<lambda>_. Inr \<lparr>fm_kind = KindDir, fm_mode = 0x1ED, fm_uid = 0, fm_len = 0\<rparr>)
      ([RootDir, Normal ''srv''] := Inr \<lparr>fm_kind = KindDir, fm_mode = 0x1FF, fm_uid = 0, fm_len = 0\<rparr>))
      \<lparr>pp_is_file = \<lambda>_. False, pp_is_symlink = \<lambda>_. False\<rparr> True (Some [RootDir, Normal ''srv'']) None
    = Inr [RootDir, Normal ''srv'', Normal ''config.yaml'']"
proof -
  let ?bad = "\<lparr>fm_kind = KindDir, fm_mode = 0x1FF, fm_uid = 0, fm_len = 0\<rparr>"
  let ?ok = "\<lparr>fm_kind = KindDir, fm_mode = 0x1ED, fm_uid = 0, fm_len = 0\<rparr>"
  define os :: "nat os" where
    "os = \<lparr>os_openat = \<lambda>n _ _ _. Inr n, os_fstat = \<lambda>_ _. Some ?bad, os_read = \<lambda>_ _. Inr []\<rparr>"
  let ?fs = "\<lparr>pp_is_file = \<lambda>_. False, pp_is_symlink = \<lambda>_. False\<rparr>"
  let ?d = "[RootDir, Normal ''srv'']"
  have "create_config_at (\<lambda>_. Inr ?ok) ?fs True (Some ?d) None = Inr (?d @ [Normal ''config.yaml''])"
    by (simp add: create_config_at_def verify_parent_chain_for_create_def ancestors.simps parent_def join_name_def
        world_writable_unsticky_def S_IWOTH_def CONFIG_FILE_NAME_def)
  moreover have "create_config_at ((\<lambda>_. Inr ?ok)(?d := Inr ?bad)) ?fs True (Some ?d) None
      = create_config_at (\<lambda>_. Inr ?ok) ?fs True (Some ?d) None"
    by (rule conjunct1 [OF create_ignores_own_directory [of os 0 "''srv''" 1 ?bad], THEN spec, THEN spec])
      (simp_all add: os_def world_writable_unsticky_def S_IWOTH_def S_ISVTX_def)
  ultimately show ?thesis by simp
qed

end
