(* ===== verification/Config_Cmd.thy ===== *)
theory Config_Cmd
  imports Lookup_State Config_Check Config_Write
begin

text \<open>
  \<open>src/cli/config_cmd.rs\<close>: the commands that read and edit the configuration. The edit of \<open>config add\<close> is a
  function on the document; the YAML text is read and written by parameters (\<open>load\<close>, \<open>to_yaml\<close>), the
  file by the functions of \<open>Config_Access\<close> and \<open>Config_Write\<close>.
\<close>

section \<open>Keyboard specifiers on the command line\<close>

text \<open>\<open>str::split_once\<close> at an ASCII character.\<close>

fun split_once :: "char \<Rightarrow> string \<Rightarrow> (string \<times> string) option" where
  "split_once c [] = None"
| "split_once c (x # xs) = (if x = c then Some ([], xs) else map_option (apfst (Cons x)) (split_once c xs))"

datatype spec_error = SpecEmpty | SpecPart string | SpecField string | SpecNoField

definition empty_spec :: keyboard_specifier where
  "empty_spec = \<lparr>ks_name = None, ks_vendor = None, ks_model = None, ks_port = None\<rparr>"

fun parse_spec_parts :: "string list \<Rightarrow> keyboard_specifier \<Rightarrow> spec_error + keyboard_specifier" where
  "parse_spec_parts [] spec = Inr spec"
| "parse_spec_parts (p # ps) spec =
     (let part = trim p
      in if part = [] then parse_spec_parts ps spec
         else
           (case split_once (CHR ''='') part of
              None \<Rightarrow> Inl (SpecPart part)
            | Some (k, v) \<Rightarrow>
                (let key = trim k; val = trim v
                 in if key = ''name'' then parse_spec_parts ps (spec\<lparr>ks_name := Some val\<rparr>)
                    else if key = ''vendor'' then parse_spec_parts ps (spec\<lparr>ks_vendor := Some val\<rparr>)
                    else if key = ''model'' then parse_spec_parts ps (spec\<lparr>ks_model := Some val\<rparr>)
                    else if key = ''port'' then parse_spec_parts ps (spec\<lparr>ks_port := Some val\<rparr>)
                    else Inl (SpecField key))))"

definition parse_keyboard_spec :: "string \<Rightarrow> spec_error + keyboard_specifier" where
  "parse_keyboard_spec s =
     (if s = [] then Inl SpecEmpty
      else
        (case parse_spec_parts (split_on (CHR '','') s) empty_spec of
           Inl e \<Rightarrow> Inl e
         | Inr spec \<Rightarrow> if spec_is_empty spec then Inl SpecNoField else Inr spec))"

definition parse_keyboard_specs :: "string list option \<Rightarrow> spec_error + keyboard_specifier list option" where
  "parse_keyboard_specs args =
     (case args of
        Some as \<Rightarrow>
          if as \<noteq> [] then (case try_map parse_keyboard_spec as of Inl e \<Rightarrow> Inl e | Inr specs \<Rightarrow> Inr (Some specs))
          else Inr None
      | None \<Rightarrow> Inr None)"

section \<open>The edit\<close>

fun update_first :: "('a \<Rightarrow> bool) \<Rightarrow> ('a \<Rightarrow> 'a) \<Rightarrow> 'a list \<Rightarrow> 'a list" where
  "update_first p f [] = []"
| "update_first p f (x # xs) = (if p x then f x # xs else x # update_first p f xs)"

definition edit_group ::
  "key_event \<Rightarrow> key_event \<Rightarrow> string list option \<Rightarrow> keyboard_specifier list option \<Rightarrow> rule_group \<Rightarrow> rule_group" where
  "edit_group trigger output apps kbs g =
     (let g1 = (case apps of Some as \<Rightarrow> if rg_apps g = [] then g\<lparr>rg_apps := as\<rparr> else g | None \<Rightarrow> g);
          g2 = (case kbs of Some ks \<Rightarrow> if rg_keyboards g1 = [] then g1\<lparr>rg_keyboards := ks\<rparr> else g1 | None \<Rightarrow> g1)
      in g2\<lparr>rg_mappings := mt_insert trigger [output] (rg_mappings g2)\<rparr>)"

definition apply_add ::
  "app_config \<Rightarrow> key_event \<Rightarrow> key_event \<Rightarrow> string \<Rightarrow> string list option \<Rightarrow> keyboard_specifier list option
    \<Rightarrow> keyboard_specifier list option \<Rightarrow> app_config" where
  "apply_add config trigger output group_name apps group_kbs global_kbs =
     (let config1 = (case global_kbs of Some gk \<Rightarrow> config\<lparr>ac_keyboards := Some gk\<rparr> | None \<Rightarrow> config);
          named = (\<lambda>g. rg_name g = Some group_name);
          groups1 = (if find named (ac_groups config1) = None
            then ac_groups config1 @
              [\<lparr>rg_name = Some group_name, rg_apps = (case apps of Some as \<Rightarrow> as | None \<Rightarrow> []),
                rg_keyboards = (case group_kbs of Some ks \<Rightarrow> ks | None \<Rightarrow> []), rg_mappings = []\<rparr>]
            else ac_groups config1)
      in config1\<lparr>ac_groups := update_first named (edit_group trigger output apps group_kbs) groups1\<rparr>)"

section \<open>The commands\<close>

text \<open>\<open>load_config_at\<close>: what \<open>is_file\<close> and \<open>is_dir\<close> say of the paths, and the reader.\<close>

datatype cmd_error =
    CmdNotFound path
  | CmdRead path config_read_error
  | CmdTrigger key_event_parse_error
  | CmdOutput key_event_parse_error
  | CmdKeyboard spec_error
  | CmdGlobalKeyboard spec_error
  | CmdNoConfig
  | CmdParse path string
  | CmdFind find_error

definition load_config_at ::
  "path_probe \<Rightarrow> (path \<Rightarrow> bool) \<Rightarrow> (path \<Rightarrow> config_read_error + string) \<Rightarrow> path \<Rightarrow> cmd_error + path \<times> string" where
  "load_config_at fs is_dir read target =
     (case (if pp_is_file fs target then Some target
            else if is_dir target then Some (join_name target CONFIG_FILE_NAME) else None) of
        None \<Rightarrow> Inl (CmdNotFound target)
      | Some p \<Rightarrow>
          if \<not> pp_is_file fs p then Inl (CmdNotFound p)
          else (case read p of Inl e \<Rightarrow> Inl (CmdRead p e) | Inr contents \<Rightarrow> Inr (p, contents)))"

text \<open>\<open>load_config\<close>; where it does not find the file the process exits.\<close>

definition load_config ::
  "(find_error + path) \<Rightarrow> (path \<Rightarrow> config_read_error + string) \<Rightarrow> cmd_error + path \<times> string" where
  "load_config found read =
     (case found of
        Inl e \<Rightarrow> Inl (CmdFind e)
      | Inr p \<Rightarrow> (case read p of Inl e \<Rightarrow> Inl (CmdRead p e) | Inr contents \<Rightarrow> Inr (p, contents)))"

text \<open>\<open>check\<close>: the diagnostics it prints.\<close>

definition check_command ::
  "(string \<Rightarrow> string + app_config) \<Rightarrow> cmd_error + path \<times> string \<Rightarrow> cmd_error + path \<times> config_diagnostic list" where
  "check_command load loaded_file =
     (case loaded_file of
        Inl e \<Rightarrow> Inl e
      | Inr (p, contents) \<Rightarrow>
          (case load contents of Inl e \<Rightarrow> Inl (CmdParse p e) | Inr config \<Rightarrow> Inr (p, config_check config)))"

text \<open>
  \<open>add\<close>, up to the write: the path and the document to write there. \<open>loaded_file\<close> is the result of
  \<open>load_config_at\<close> or, without a target, of \<open>find_config_path\<close> and the reader.
\<close>

definition add_command ::
  "(string \<Rightarrow> string + app_config) \<Rightarrow> string \<Rightarrow> string \<Rightarrow> string \<Rightarrow> string list option \<Rightarrow> string list option
    \<Rightarrow> string list option \<Rightarrow> cmd_error + path \<times> string \<Rightarrow> cmd_error + path \<times> app_config" where
  "add_command load trigger_str output_str group_name apps kb_args gkb_args loaded_file =
     (case ke_parse trigger_str of
        Inl e \<Rightarrow> Inl (CmdTrigger e)
      | Inr trigger \<Rightarrow>
     (case ke_parse output_str of
        Inl e \<Rightarrow> Inl (CmdOutput e)
      | Inr output \<Rightarrow>
     (case parse_keyboard_specs kb_args of
        Inl e \<Rightarrow> Inl (CmdKeyboard e)
      | Inr group_kbs \<Rightarrow>
     (case parse_keyboard_specs gkb_args of
        Inl e \<Rightarrow> Inl (CmdGlobalKeyboard e)
      | Inr global_kbs \<Rightarrow>
     (case loaded_file of
        Inl e \<Rightarrow> Inl e
      | Inr (p, contents) \<Rightarrow>
     (case load contents of
        Inl e \<Rightarrow> Inl (CmdParse p e)
      | Inr config \<Rightarrow>
          Inr (p, apply_add config trigger output group_name apps group_kbs global_kbs)))))))"

section \<open>Lemmas\<close>

definition target_group :: "string \<Rightarrow> app_config \<Rightarrow> rule_group option" where
  "target_group name c = find (\<lambda>g. rg_name g = Some name) (ac_groups c)"

definition group_answer ::
  "(rule_group \<Rightarrow> bool) \<Rightarrow> (keyboard_specifier list option \<Rightarrow> bool) \<Rightarrow> hid_usage \<Rightarrow> u8 \<Rightarrow> rule_group
    \<Rightarrow> native_key list option" where
  "group_answer in_scope check usage m g =
     (if in_scope g \<and> check (group_keyboards g)
      then find_map (\<lambda>(t, os). if trigger_accepts t usage m then Some (compile_outputs os) else None) (rg_mappings g)
      else None)"

lemma config_lookup_answers:
  "config_lookup c in_scope check usage m = find_map (group_answer in_scope check usage m) (ac_groups c)"
  by (simp add: config_lookup_def group_answer_def [abs_def])

text \<open>The groups of the edited configuration: the edited one, and before and after it those of the old one.\<close>

lemma update_first_split:
  "find p xs = Some x \<Longrightarrow> \<exists>ys zs. xs = ys @ x # zs \<and> p x \<and> (\<forall>y \<in> set ys. \<not> p y)
     \<and> update_first p f xs = ys @ f x # zs"
proof (induction xs)
  case (Cons a xs)
  show ?case
  proof (cases "p a")
    case True
    with Cons.prems show ?thesis by (intro exI [of _ "[]"] exI [of _ xs]) auto
  next
    case False
    with Cons obtain ys zs where "xs = ys @ x # zs" "p x" "\<forall>y \<in> set ys. \<not> p y" "update_first p f xs = ys @ f x # zs"
      by auto
    with False show ?thesis by (intro exI [of _ "a # ys"] exI [of _ zs]) auto
  qed
qed simp

lemma find_append_None: "find p xs = None \<Longrightarrow> p x \<Longrightarrow> find p (xs @ [x]) = Some x"
  by (induction xs) (auto split: if_splits)

lemma edit_group_fields:
  "rg_name (edit_group trigger output apps kbs g) = rg_name g"
  "rg_mappings (edit_group trigger output apps kbs g) = im_insert trigger [output] (rg_mappings g)"
  "(apps \<in> {None, Some []} \<or> rg_apps g \<noteq> []) \<Longrightarrow> rg_apps (edit_group trigger output apps kbs g) = rg_apps g"
  "(kbs \<in> {None, Some []} \<or> rg_keyboards g \<noteq> []) \<Longrightarrow>
     rg_keyboards (edit_group trigger output apps kbs g) = rg_keyboards g"
  by (auto simp: edit_group_def Let_def mt_insert_def split: option.split)

text \<open>The group the edit works on: the first of the name, or a new one at the end, without mappings.\<close>

definition edited_group ::
  "app_config \<Rightarrow> string \<Rightarrow> string list option \<Rightarrow> keyboard_specifier list option \<Rightarrow> rule_group" where
  "edited_group c name apps kbs =
     (case target_group name c of
        Some g \<Rightarrow> g
      | None \<Rightarrow> \<lparr>rg_name = Some name, rg_apps = (case apps of Some as \<Rightarrow> as | None \<Rightarrow> []),
          rg_keyboards = (case kbs of Some ks \<Rightarrow> ks | None \<Rightarrow> []), rg_mappings = []\<rparr>)"

text \<open>The groups before the one of the name; all of them, if there is none.\<close>

definition groups_before :: "string \<Rightarrow> app_config \<Rightarrow> rule_group list" where
  "groups_before name c = takeWhile (\<lambda>g. rg_name g \<noteq> Some name) (ac_groups c)"

lemma apply_add_groups:
  assumes c'_def: "c' = apply_add c trigger output name apps kbs gkbs"
    and g_def: "g = edited_group c name apps kbs"
  shows "\<exists>ys zs. ac_groups c = ys @ (if target_group name c = None then [] else [g]) @ zs
      \<and> (target_group name c = None \<longrightarrow> zs = [])
      \<and> ys = groups_before name c
      \<and> ac_groups c' = ys @ edit_group trigger output apps kbs g # zs
      \<and> target_group name c' = Some (edit_group trigger output apps kbs g)"
proof -
  let ?named = "\<lambda>g. rg_name g = Some name"
  let ?e = "edit_group trigger output apps kbs"
  define groups1 where "groups1 = ac_groups c @ (if target_group name c = None then [g] else [])"
  have g1: "find ?named groups1 = Some g"
    by (cases "target_group name c")
      (auto simp: groups1_def g_def edited_group_def target_group_def intro: find_append_None)
  have c': "ac_groups c' = update_first ?named ?e groups1"
    by (cases "target_group name c")
      (auto simp: c'_def apply_add_def groups1_def g_def edited_group_def target_group_def Let_def split: option.split)
  obtain ys zs where s: "groups1 = ys @ g # zs" "\<forall>y \<in> set ys. \<not> ?named y" "?named g"
    "update_first ?named ?e groups1 = ys @ ?e g # zs"
    using update_first_split [OF g1] by blast
  have "find ?named (ys @ ?e g # zs) = Some (?e g)"
    using s(2,3) by (induction ys) (auto simp: edit_group_fields)
  then have t: "target_group name c' = Some (?e g)" by (simp add: target_group_def c' s(4))
  show ?thesis
  proof (cases "target_group name c")
    case None
    then have "ac_groups c @ [g] = ys @ g # zs" "\<forall>y \<in> set (ac_groups c). \<not> ?named y"
      using s(1) by (auto simp: groups1_def target_group_def find_None_iff)
    moreover have "zs = []"
    proof (cases zs rule: rev_cases)
      case (snoc zs' y)
      then have "g \<in> set (ac_groups c)" using calculation(1) by simp
      with calculation(2) s(3) show ?thesis by blast
    qed simp
    ultimately have "zs = [] \<and> ac_groups c = ys" by simp
    moreover have "groups_before name c = ac_groups c"
      using None by (simp add: groups_before_def target_group_def find_None_iff)
    ultimately show ?thesis using None c' s(4) t by (intro exI [of _ ys] exI [of _ "[]"]) auto
  next
    case (Some g0)
    then have "groups_before name c = ys"
      using s by (simp add: groups_before_def groups1_def takeWhile_tail takeWhile_append2)
    then show ?thesis using Some s(1) c' s(4) t by (intro exI [of _ ys] exI [of _ zs]) (simp add: groups1_def)
  qed
qed

lemma find_map_insert_first:
  "\<forall>(t, os) \<in> set (takeWhile (\<lambda>(t, _). t \<noteq> k) ms). \<not> acc t \<Longrightarrow> acc k \<Longrightarrow>
     find_map (\<lambda>(t, os). if acc t then Some (f os) else None) (im_insert k v ms) = Some (f v)"
  by (induction k v ms rule: im_insert.induct) auto

lemma find_map_insert_other:
  "\<not> acc k \<Longrightarrow> find_map (\<lambda>(t, os). if acc t then Some (f os) else None) (im_insert k v ms)
     = find_map (\<lambda>(t, os). if acc t then Some (f os) else None) ms"
  by (induction k v ms rule: im_insert.induct) auto

lemma find_map_none: "(\<And>x. x \<in> set xs \<Longrightarrow> f x = None) \<Longrightarrow> find_map f xs = None"
  by (simp add: find_map_None_iff)

section \<open>What answers an event\<close>

text \<open>
  Whether a group applies to an event: the application with the focus is one of its own, or it is global;
  and it does not block the keyboard of the event.
\<close>

definition group_applies ::
  "(string \<Rightarrow> string) \<Rightarrow> keyboard_info list \<Rightarrow> string \<Rightarrow> string option \<Rightarrow> rule_group \<Rightarrow> bool" where
  "group_applies uni kbs app d g \<longleftrightarrow>
     (group_in_app uni app g \<or> group_is_global g) \<and> \<not> keyboard_blocked kbs (group_keyboards g) d"

text \<open>
  Whether something else answers an event before a mapping of the group of the name, which is as \<open>g\<close>: a group for
  the application, before it or, if it is global, anywhere; a global group before it, if it is global; or an
  earlier mapping of the group itself.
\<close>

definition shadowed ::
  "(string \<Rightarrow> string) \<Rightarrow> keyboard_info list \<Rightarrow> string \<Rightarrow> string option \<Rightarrow> hid_usage \<Rightarrow> u8 \<Rightarrow> app_config \<Rightarrow> string
    \<Rightarrow> key_event \<Rightarrow> rule_group \<Rightarrow> bool" where
  "shadowed uni kbs app d usage m c name trigger g \<longleftrightarrow>
     (let answers = (\<lambda>in_scope h. group_answer in_scope (\<lambda>flt. \<not> keyboard_blocked kbs flt d) usage m h \<noteq> None)
      in (\<exists>h \<in> set (if group_is_global g then ac_groups c else groups_before name c). answers (group_in_app uni app) h)
         \<or> (group_is_global g \<and> (\<exists>h \<in> set (groups_before name c). answers group_is_global h))
         \<or> (\<exists>(t, os) \<in> set (takeWhile (\<lambda>(t, _). t \<noteq> trigger) (rg_mappings g)). trigger_accepts t usage m))"

text \<open>Whether the group keeps its applications and keyboards: it is new, or what is given for it is not used.\<close>

definition scope_kept ::
  "app_config \<Rightarrow> string \<Rightarrow> string list option \<Rightarrow> keyboard_specifier list option \<Rightarrow> bool" where
  "scope_kept c name apps kbs \<longleftrightarrow>
     (\<forall>g. target_group name c = Some g \<longrightarrow>
        (apps \<in> {None, Some []} \<or> rg_apps g \<noteq> []) \<and> (kbs \<in> {None, Some []} \<or> rg_keyboards g \<noteq> []))"

lemma edit_group_new_scope:
  "rg_apps (edit_group trigger output apps kbs (edited_group c name apps kbs)) = rg_apps (edited_group c name apps kbs)
   \<and> rg_keyboards (edit_group trigger output apps kbs (edited_group c name apps kbs))
     = rg_keyboards (edited_group c name apps kbs)"
  if "scope_kept c name apps kbs"
  using that by (cases "target_group name c") (auto simp: scope_kept_def edited_group_def edit_group_def Let_def split: option.splits)

lemma group_answer_other:
  assumes "scope_kept c name apps kbs" "g = edited_group c name apps kbs" "g' = edit_group trigger output apps kbs g"
    and "in_scope \<in> {group_in_app uni app, group_is_global}"
    and "\<not> trigger_accepts trigger usage m \<or> \<not> (in_scope g' \<and> check (group_keyboards g'))"
  shows "group_answer in_scope check usage m g' =
      (if target_group name c = None then None else group_answer in_scope check usage m g)"
proof -
  have sc: "rg_apps g' = rg_apps g" "rg_keyboards g' = rg_keyboards g"
    using edit_group_new_scope [OF assms(1), of trigger "output"] assms(2,3) by simp_all
  then have "in_scope g' = in_scope g" "group_keyboards g' = group_keyboards g"
    using assms(4) by (auto simp: group_keyboards_def group_in_app_def group_is_global_def)
  then show ?thesis
    using assms(5) find_map_insert_other [of "\<lambda>t. trigger_accepts t usage m" trigger compile_outputs "[output]" "rg_mappings g"]
    by (cases "target_group name c")
      (auto simp: assms(2,3) group_answer_def edit_group_fields edited_group_def)
qed

lemma apply_add_filter:
  "ac_keyboards (apply_add c trigger output name apps kbs gkbs) = (case gkbs of Some gk \<Rightarrow> Some gk | None \<Rightarrow> ac_keyboards c)"
  by (simp add: apply_add_def Let_def split: option.split)

text \<open>An event for which the new mapping is not asked is answered as before.\<close>

lemma added_rule_elsewhere:
  assumes "c' = apply_add c trigger output name apps kbs gkbs" "target_group name c' = Some g'"
    and "scope_kept c name apps kbs" "in_scope \<in> {group_in_app uni app, group_is_global}"
    and "\<not> trigger_accepts trigger usage m \<or> \<not> (in_scope g' \<and> check (group_keyboards g'))"
  shows "config_lookup c' in_scope check usage m = config_lookup c in_scope check usage m"
proof -
  let ?g = "edited_group c name apps kbs"
  obtain ys zs where s: "ac_groups c = ys @ (if target_group name c = None then [] else [?g]) @ zs"
      "target_group name c = None \<longrightarrow> zs = []" "ac_groups c' = ys @ g' # zs" "g' = edit_group trigger output apps kbs ?g"
    using apply_add_groups [OF assms(1) refl] assms(2) by auto
  have "group_answer in_scope check usage m g' =
      (if target_group name c = None then None else group_answer in_scope check usage m ?g)"
    by (rule group_answer_other [where in_scope = in_scope and check = check, OF assms(3) refl s(4) assms(4,5)])
  then show ?thesis
    using s(1-3)
    by (cases "target_group name c") (simp_all add: config_lookup_answers find_map_append split: option.split)
qed

text \<open>An event for which it is asked, and that nothing answers before, is answered by it.\<close>

lemma added_rule_answers:
  assumes "c' = apply_add c trigger output name apps kbs gkbs" "target_group name c' = Some g'"
    and "trigger_accepts trigger usage m" "group_applies uni keyboards app d g'"
    and "\<not> shadowed uni keyboards app d usage m c name trigger g'"
  defines "check \<equiv> \<lambda>flt. \<not> keyboard_blocked keyboards flt d"
  shows "(case config_lookup c' (group_in_app uni app) check usage m of
      Some outputs \<Rightarrow> Some outputs | None \<Rightarrow> config_lookup c' group_is_global check usage m)
    = Some (compile_outputs [output])"
proof -
  let ?g = "edited_group c name apps kbs"
  obtain zs where s: "ac_groups c = groups_before name c @ (if target_group name c = None then [] else [?g]) @ zs"
      "ac_groups c' = groups_before name c @ g' # zs" "g' = edit_group trigger output apps kbs ?g"
    using apply_add_groups [OF assms(1) refl] assms(2) by auto
  have tw: "\<forall>(t, os) \<in> set (takeWhile (\<lambda>(t, _). t \<noteq> trigger) (rg_mappings ?g)). \<not> trigger_accepts t usage m"
  proof -
    have "takeWhile (\<lambda>(t, _). t \<noteq> k) (im_insert k v ms) = takeWhile (\<lambda>(t, _). t \<noteq> k) ms"
      for k :: key_event and v :: "key_event list" and ms
      by (induction k v ms rule: im_insert.induct) auto
    then show ?thesis using assms(5) s(3) by (auto simp: shadowed_def Let_def edit_group_fields)
  qed
  have new: "group_answer in_scope check usage m g' = Some (compile_outputs [output])" if "in_scope g'" for in_scope
    using find_map_insert_first [of trigger "rg_mappings ?g" "\<lambda>t. trigger_accepts t usage m" compile_outputs "[output]"]
      tw assms(3,4) that s(3)
    by (simp add: group_answer_def edit_group_fields group_applies_def check_def)
  show ?thesis
  proof (cases "group_is_global g'")
    case False
    then have "\<forall>h \<in> set (groups_before name c). group_answer (group_in_app uni app) check usage m h = None"
      "group_in_app uni app g'"
      using assms(4,5) by (auto simp: shadowed_def Let_def group_applies_def check_def)
    then show ?thesis using s(2) new by (simp add: config_lookup_answers find_map_append find_map_none)
  next
    case True
    then have none: "\<forall>h \<in> set (ac_groups c). group_answer (group_in_app uni app) check usage m h = None"
      "\<forall>h \<in> set (groups_before name c). group_answer group_is_global check usage m h = None"
      using assms(5) by (auto simp: shadowed_def Let_def check_def)
    have "\<not> group_in_app uni app g'" using True by (simp add: group_is_global_def group_in_app_def)
    then have "group_answer (group_in_app uni app) check usage m g' = None" by (simp add: group_answer_def)
    then have "config_lookup c' (group_in_app uni app) check usage m = None"
      using none(1) s(1,2) by (auto simp: config_lookup_answers find_map_append find_map_none split: if_splits)
    then show ?thesis using s(2) new [of group_is_global, OF True] none(2)
      by (simp add: config_lookup_answers find_map_append find_map_none)
  qed
qed

section \<open>Properties\<close>

text \<open>
  C33. \<open>config add\<close> does what it says and nothing else. Afterwards the group of the given name maps the
  trigger to the output, whatever it mapped it to before, and every other trigger as it did. An event that the
  trigger accepts is answered by the output, if the group applies to it, nothing else answers it first
  (\<open>shadowed\<close>) and the global keyboard filter, the given one or else the old one, lets its keyboard through. And if the
  group keeps its applications and keyboards, every event that the trigger does not accept or that the group
  does not apply to is answered as before, but for the global filter. By C9 the answers are those the daemon
  gives for the configuration.
\<close>
theorem added_rule_in_force:
  assumes "c' = apply_add c trigger output name apps kbs gkbs"
    and "new_filter = (case gkbs of Some gk \<Rightarrow> Some gk | None \<Rightarrow> ac_keyboards c)"
  shows "\<exists>g'. target_group name c' = Some g' \<and> mt_get (rg_mappings g') trigger = Some [output]
    \<and> (\<forall>t. t \<noteq> trigger \<longrightarrow> mt_get (rg_mappings g') t = mt_get (rg_mappings (edited_group c name apps kbs)) t)
    \<and> (trigger_accepts trigger usage m \<and> group_applies uni keyboards app d g'
        \<and> \<not> shadowed uni keyboards app d usage m c name trigger g' \<longrightarrow>
        config_answer uni c' keyboards app usage m d =
          (if new_filter \<noteq> Some [] \<and> keyboard_blocked keyboards new_filter d then None
           else Some (compile_outputs [output])))
    \<and> (scope_kept c name apps kbs \<and> (\<not> trigger_accepts trigger usage m \<or> \<not> group_applies uni keyboards app d g') \<longrightarrow>
        config_answer uni c' keyboards app usage m d =
          config_answer uni (c\<lparr>ac_keyboards := new_filter\<rparr>) keyboards app usage m d)"
proof -
  let ?g' = "edit_group trigger output apps kbs (edited_group c name apps kbs)"
  let ?check = "\<lambda>flt. \<not> keyboard_blocked keyboards flt d"
  have t: "target_group name c' = Some ?g'" using apply_add_groups [OF assms(1) refl] by blast
  have flt: "ac_keyboards c' = new_filter" using assms apply_add_filter by simp
  have same: "config_lookup (c\<lparr>ac_keyboards := flt\<rparr>) in_scope check usage m = config_lookup c in_scope check usage m"
    for flt in_scope check by (simp add: config_lookup_def)
  have "config_answer uni c' keyboards app usage m d = config_answer uni (c\<lparr>ac_keyboards := new_filter\<rparr>) keyboards app usage m d"
    if "scope_kept c name apps kbs" "\<not> trigger_accepts trigger usage m \<or> \<not> group_applies uni keyboards app d ?g'"
  proof -
    have "config_lookup c' in_scope ?check usage m = config_lookup c in_scope ?check usage m"
      if "in_scope \<in> {group_in_app uni app, group_is_global}" for in_scope
      using added_rule_elsewhere [OF assms(1) t \<open>scope_kept c name apps kbs\<close> that, where check = ?check] that
        \<open>\<not> trigger_accepts trigger usage m \<or> \<not> group_applies uni keyboards app d ?g'\<close>
      by (auto simp: group_applies_def)
    then show ?thesis by (simp add: config_answer_def flt same split: option.split)
  qed
  moreover have "config_answer uni c' keyboards app usage m d =
      (if new_filter \<noteq> Some [] \<and> keyboard_blocked keyboards new_filter d then None else Some (compile_outputs [output]))"
    if "trigger_accepts trigger usage m" "group_applies uni keyboards app d ?g'"
      "\<not> shadowed uni keyboards app d usage m c name trigger ?g'"
    using added_rule_answers [OF assms(1) t that] by (simp add: config_answer_def flt)
  ultimately show ?thesis
    using t by (auto simp: edit_group_fields mt_get_def im_get_insert)
qed

text \<open>F1 is mapped to F2, in the first group of the sample; it is now mapped to F6.\<close>

lemma added_rule_in_force_witness:
  "config_answer id (apply_add sample_config (KeyEvent [] F1) (KeyEvent [] F6) ''one'' None None None) [] ''app'' F1 0 None
     = Some (compile_outputs [KeyEvent [] F6])
   \<and> config_answer id (apply_add sample_config (KeyEvent [] F1) (KeyEvent [] F6) ''one'' None None None) [] ''app'' F2 0 None
     = config_answer id sample_config [] ''app'' F2 0 None"
proof -
  have e: "expand_modifier_bits [] = [0]" by code_simp
  let ?c = "apply_add sample_config (KeyEvent [] F1) (KeyEvent [] F6) ''one'' None None None"
  let ?g = "\<lparr>rg_name = Some ''one'', rg_apps = [], rg_keyboards = [],
        rg_mappings = [(KeyEvent [] F1, [KeyEvent [] F6]), (KeyEvent [] F2, [KeyEvent [] F1])]\<rparr>"
  have g: "target_group ''one'' ?c = Some ?g"
    by (simp add: apply_add_def sample_config_def edit_group_def mt_insert_def target_group_def)
  note t = added_rule_in_force [where c = sample_config and trigger = "KeyEvent [] F1" and ?output = "KeyEvent [] F6"
      and name = "''one''" and apps = None and kbs = None and gkbs = None and m = 0 and uni = id and keyboards = "[]"
      and app = "''app''" and d = None, OF refl refl]
  have ap: "group_applies id [] ''app'' None ?g" "scope_kept sample_config ''one'' None None"
    by (simp_all add: group_applies_def group_is_global_def keyboard_blocked_def group_keyboards_def scope_kept_def)
  have sh: "\<not> shadowed id [] ''app'' None F1 0 sample_config ''one'' (KeyEvent [] F1) ?g"
    by (simp add: shadowed_def group_is_global_def sample_config_def groups_before_def group_answer_def group_in_app_def)
  have f: "ac_keyboards sample_config = None" "sample_config\<lparr>ac_keyboards := None\<rparr> = sample_config"
    by (simp_all add: sample_config_def)
  show ?thesis
    using t [where usage = F1] t [where usage = F2] g ap sh f by (simp add: trigger_accepts_def e keyboard_blocked_def)
qed

end
