(* ===== verification/Config_Doc.thy ===== *)
theory Config_Doc
  imports Config_Cmd
begin

text \<open>
  The configuration document of \<open>src/common/config.rs\<close> between the text and \<open>AppConfig\<close>: what \<open>Deserialize\<close> reads
  from the parsed YAML, rule groups with their defaults included, and what \<open>Serialize\<close> writes. The step from the text
  to the parsed YAML is a parameter.
\<close>

section \<open>Reading\<close>

text \<open>
  The entries of a group in the order of the document. As derived, an unknown field is skipped, a field given twice is
  an error, and a missing one has its default.
\<close>

datatype group_entry =
    GroupName "string option"
  | GroupApps "string list"
  | GroupKeyboards "keyboard_specifier list"
  | GroupMappings "(string \<times> yaml_outputs) list"
  | GroupOther string

datatype doc_error = DuplicateField string | BadEvent key_event_parse_error | UnknownRootField string

record group_fields =
  gf_name :: "string option option"
  gf_apps :: "string list option"
  gf_keyboards :: "keyboard_specifier list option"
  gf_mappings :: "mapping_table option"

definition no_fields :: group_fields where
  "no_fields = \<lparr>gf_name = None, gf_apps = None, gf_keyboards = None, gf_mappings = None\<rparr>"

fun read_field :: "group_entry \<Rightarrow> group_fields \<Rightarrow> doc_error + group_fields" where
  "read_field (GroupName n) f = (if gf_name f \<noteq> None then Inl (DuplicateField ''name'') else Inr (f\<lparr>gf_name := Some n\<rparr>))"
| "read_field (GroupApps as) f = (if gf_apps f \<noteq> None then Inl (DuplicateField ''apps'') else Inr (f\<lparr>gf_apps := Some as\<rparr>))"
| "read_field (GroupKeyboards ks) f =
     (if gf_keyboards f \<noteq> None then Inl (DuplicateField ''keyboards'') else Inr (f\<lparr>gf_keyboards := Some ks\<rparr>))"
| "read_field (GroupMappings es) f =
     (if gf_mappings f \<noteq> None then Inl (DuplicateField ''mappings'')
      else (case mt_visit_map es of Inl e \<Rightarrow> Inl (BadEvent e) | Inr m \<Rightarrow> Inr (f\<lparr>gf_mappings := Some m\<rparr>)))"
| "read_field (GroupOther k) f = Inr f"

fun read_fields :: "group_entry list \<Rightarrow> group_fields \<Rightarrow> doc_error + group_fields" where
  "read_fields [] f = Inr f"
| "read_fields (e # es) f = (case read_field e f of Inl x \<Rightarrow> Inl x | Inr f' \<Rightarrow> read_fields es f')"

definition group_of_fields :: "group_fields \<Rightarrow> rule_group" where
  "group_of_fields f =
     \<lparr>rg_name = (case gf_name f of Some n \<Rightarrow> n | None \<Rightarrow> None), rg_apps = (case gf_apps f of Some as \<Rightarrow> as | None \<Rightarrow> []),
      rg_keyboards = (case gf_keyboards f of Some ks \<Rightarrow> ks | None \<Rightarrow> []),
      rg_mappings = (case gf_mappings f of Some m \<Rightarrow> m | None \<Rightarrow> [])\<rparr>"

definition read_group :: "group_entry list \<Rightarrow> doc_error + rule_group" where
  "read_group es = (case read_fields es no_fields of Inl e \<Rightarrow> Inl e | Inr f \<Rightarrow> Inr (group_of_fields f))"

text \<open>The root: a sequence of groups, or a mapping.\<close>

datatype doc_entry =
    DocGroups "group_entry list list"
  | DocKeyboards "keyboard_specifier list option"
  | DocOther string

datatype doc = DocSeq "group_entry list list" | DocMap "doc_entry list"

fun read_entry :: "doc_entry \<Rightarrow> doc_error + root_entry" where
  "read_entry (DocGroups gs) = (case try_map read_group gs of Inl e \<Rightarrow> Inl e | Inr groups \<Rightarrow> Inr (RootGroups groups))"
| "read_entry (DocKeyboards ks) = Inr (RootKeyboards ks)"
| "read_entry (DocOther k) = Inr (RootOther k)"

fun read_entries :: "doc_entry list \<Rightarrow> app_config \<Rightarrow> doc_error + app_config" where
  "read_entries [] c = Inr c"
| "read_entries (e # es) c =
     (case read_entry e of
        Inl x \<Rightarrow> Inl x
      | Inr r \<Rightarrow>
          (case ac_visit_entries [r] c of
             Inl (UnknownField k) \<Rightarrow> Inl (UnknownRootField k)
           | Inr c' \<Rightarrow> read_entries es c'))"

definition read_doc :: "doc \<Rightarrow> doc_error + app_config" where
  "read_doc d =
     (case d of
        DocSeq gs \<Rightarrow> (case try_map read_group gs of Inl e \<Rightarrow> Inl e | Inr groups \<Rightarrow> Inr (ac_visit_seq groups))
      | DocMap es \<Rightarrow> read_entries es \<lparr>ac_keyboards = None, ac_groups = []\<rparr>)"

definition load_from_str :: "(string \<Rightarrow> string + doc) \<Rightarrow> (doc_error \<Rightarrow> string) \<Rightarrow> string \<Rightarrow> string + app_config" where
  "load_from_str yaml show_error contents =
     (case yaml contents of
        Inl e \<Rightarrow> Inl e
      | Inr d \<Rightarrow> (case read_doc d of Inl e \<Rightarrow> Inl (show_error e) | Inr c \<Rightarrow> Inr c))"

section \<open>Writing\<close>

definition write_group :: "rule_group \<Rightarrow> group_entry list" where
  "write_group g =
     (if rg_name g = None then [] else [GroupName (rg_name g)])
     @ (if rg_apps g = [] then [] else [GroupApps (rg_apps g)])
     @ (if rg_keyboards g = [] then [] else [GroupKeyboards (rg_keyboards g)])
     @ (if mt_is_empty (rg_mappings g) then [] else [GroupMappings (mt_serialize (rg_mappings g))])"

fun write_entry :: "root_entry \<Rightarrow> doc_entry" where
  "write_entry (RootGroups gs) = DocGroups (map write_group gs)"
| "write_entry (RootKeyboards ks) = DocKeyboards ks"
| "write_entry (RootOther k) = DocOther k"

definition write_doc :: "app_config \<Rightarrow> doc" where
  "write_doc c = DocMap (map write_entry (ac_serialize c))"

section \<open>Well-formed configurations\<close>

text \<open>The triggers of a group are distinct, and no event has more than the eight modifiers that can be written.\<close>

definition group_wf :: "rule_group \<Rightarrow> bool" where
  "group_wf g \<longleftrightarrow> mt_printable (rg_mappings g)"

definition doc_wf :: "app_config \<Rightarrow> bool" where
  "doc_wf c \<longleftrightarrow> list_all group_wf (ac_groups c)"

lemma doc_wf_config_wf: "doc_wf c \<Longrightarrow> config_wf c"
  by (auto simp: doc_wf_def config_wf_def group_wf_def mt_printable_def list_all_iff)

lemma im_insert_mem: "(k', v') \<in> set (im_insert k v m) \<Longrightarrow> k' = k \<and> v' = v \<or> (k', v') \<in> set m"
  by (induction k v m rule: im_insert.induct) (auto split: if_splits)

lemma mt_printable_insert:
  "mt_printable m \<Longrightarrow> short_event t \<Longrightarrow> list_all short_event os \<Longrightarrow> mt_printable (im_insert t os m)"
  by (auto simp: mt_printable_def im.distinct_keys_insert list_all_iff dest!: im_insert_mem)

lemma short_event_parsed: "ke_parse s = Inr e \<Longrightarrow> short_event e"
  by (simp add: short_event_def ke_parse_InrD)

lemma output_events_short: "output_events v = Inr os \<Longrightarrow> list_all short_event os"
  by (auto simp: output_events_def try_map_Inr_iff list_all2_conv_all_nth list_all_length
      split: yaml_outputs.splits sum.splits dest: short_event_parsed)

lemma mt_visit_entries_printable: "mt_visit_entries es m = Inr m' \<Longrightarrow> mt_printable m \<Longrightarrow> mt_printable m'"
  by (induction es m rule: mt_visit_entries.induct)
    (auto split: sum.splits intro: mt_printable_insert dest: output_events_short short_event_parsed)

lemma mt_printable_Nil: "mt_printable []"
  by (simp add: mt_printable_def im_keys_def)

lemma mt_visit_map_printable: "mt_visit_map es = Inr m \<Longrightarrow> mt_printable m"
  using mt_visit_entries_printable mt_printable_Nil by (auto simp: mt_visit_map_def)

lemma read_field_wf:
  "read_field e f = Inr f' \<Longrightarrow> group_wf (group_of_fields f) \<Longrightarrow> group_wf (group_of_fields f')"
  by (cases "(e, f)" rule: read_field.cases)
    (auto simp: group_wf_def group_of_fields_def mt_visit_map_printable split: if_splits sum.splits)

lemma read_fields_wf:
  "read_fields es f = Inr f' \<Longrightarrow> group_wf (group_of_fields f) \<Longrightarrow> group_wf (group_of_fields f')"
  by (induction es arbitrary: f) (auto split: sum.splits intro: read_field_wf)

lemma read_group_wf: "read_group es = Inr g \<Longrightarrow> group_wf g"
  by (auto simp: read_group_def group_wf_def group_of_fields_def no_fields_def mt_printable_Nil
      split: sum.splits dest!: read_fields_wf)

lemma read_groups_wf: "try_map read_group gs = Inr groups \<Longrightarrow> list_all group_wf groups"
  by (auto simp: try_map_Inr_iff list_all2_conv_all_nth list_all_length intro: read_group_wf)

lemma read_entries_wf: "read_entries es c = Inr c' \<Longrightarrow> doc_wf c \<Longrightarrow> doc_wf c'"
proof (induction es c rule: read_entries.induct)
  case (2 e es c)
  then show ?case
    by (cases e) (auto simp: doc_wf_def read_groups_wf split: sum.splits root_error.splits)
qed simp

lemma read_doc_wf: "read_doc d = Inr c \<Longrightarrow> doc_wf c"
  by (cases d) (auto simp: read_doc_def ac_visit_seq_def doc_wf_def read_groups_wf split: sum.splits
      dest: read_entries_wf)

section \<open>Round trips\<close>

lemma read_written_group: "group_wf g \<Longrightarrow> read_group (write_group g) = Inr g"
  by (cases g) (auto simp: read_group_def write_group_def group_of_fields_def no_fields_def group_wf_def mt_is_empty_def
      mapping_table_round_trip)

lemma read_written_doc:
  assumes "doc_wf c"
  shows "read_doc (write_doc c) = Inr (c\<lparr>ac_keyboards := (if ac_keyboards c = Some [] then None else ac_keyboards c)\<rparr>)"
proof -
  have "try_map read_group (map write_group (ac_groups c)) = Inr (map (\<lambda>g. g) (ac_groups c))"
    using assms by (intro try_map_map_Inr) (simp add: doc_wf_def list_all_iff read_written_group)
  then show ?thesis
    by (cases c) (auto simp: read_doc_def write_doc_def ac_serialize_def split: option.splits)
qed

lemma apply_add_wf:
  assumes "doc_wf c" "short_event trigger" "short_event out"
  shows "doc_wf (apply_add c trigger out name apps kbs gkbs)"
proof -
  have e: "group_wf g \<Longrightarrow> group_wf (edit_group trigger out apps kbs g)" for g
    using assms(2,3) by (simp add: group_wf_def edit_group_fields mt_printable_insert)
  have "list_all group_wf gs \<Longrightarrow> list_all group_wf (update_first p (edit_group trigger out apps kbs) gs)" for p gs
    by (induction gs) (auto simp: e)
  with assms(1) show ?thesis
    by (auto simp: doc_wf_def apply_add_def Let_def group_wf_def [of "\<lparr>rg_name = _, rg_apps = _, rg_keyboards = _, rg_mappings = []\<rparr>"]
        mt_printable_Nil split: option.splits)
qed

section \<open>Properties\<close>

text \<open>
  C38. Every configuration the commands and the daemon handle is well-formed: one that is read from a document has
  distinct triggers in each group and at most eight modifiers per event, \<open>config add\<close> keeps it so, and what it writes
  is read back as the very configuration it made, an empty global filter apart, which is left out.
\<close>
theorem edited_config_reads_back:
  assumes "add_command (load_from_str yaml show_error) trigger_str output_str group_name apps kbs gkbs loaded_file = Inr (p, c')"
  shows "doc_wf c' \<and>
    read_doc (write_doc c') = Inr (c'\<lparr>ac_keyboards := (if ac_keyboards c' = Some [] then None else ac_keyboards c')\<rparr>)"
proof -
  obtain trigger out ks gks contents c where
    t: "ke_parse trigger_str = Inr trigger" and o: "ke_parse output_str = Inr out"
    and l: "load_from_str yaml show_error contents = Inr c"
    and c': "c' = apply_add c trigger out group_name apps ks gks"
    using assms by (auto simp: add_command_def split: sum.splits)
  have "doc_wf c" using l by (auto simp: load_from_str_def read_doc_wf split: sum.splits)
  then have "doc_wf c'"
    using t o by (simp add: c' apply_add_wf short_event_parsed)
  then show ?thesis by (simp add: read_written_doc)
qed

definition sample_doc_config :: app_config where
  "sample_doc_config = ac_visit_seq
     [\<lparr>rg_name = Some ''nav'', rg_apps = [''firefox''], rg_keyboards = [], rg_mappings = [(KeyEvent [LeftControl] F1, [KeyEvent [] F2])]\<rparr>]"

lemma edited_config_reads_back_witness:
  "let c' = apply_add sample_doc_config (KeyEvent [] F5) (KeyEvent [LeftShift] F6) ''nav'' None None None
   in doc_wf c' \<and> read_doc (write_doc c') = Inr c'"
proof -
  let ?load = "load_from_str (\<lambda>_. Inr (write_doc sample_doc_config)) (\<lambda>_. ''error'')"
  have wf: "doc_wf sample_doc_config"
    by (simp add: sample_doc_config_def doc_wf_def ac_visit_seq_def group_wf_def mt_printable_def im_keys_def short_event_def)
  have k: "ac_keyboards sample_doc_config = None" by (simp add: sample_doc_config_def ac_visit_seq_def)
  have l: "?load contents = Inr sample_doc_config" for contents
    by (simp add: load_from_str_def read_written_doc [OF wf] k)
  have s: "short_event (KeyEvent [] F5)" "short_event (KeyEvent [LeftShift] F6)" by (simp_all add: short_event_def)
  have "add_command ?load (ke_display (KeyEvent [] F5)) (ke_display (KeyEvent [LeftShift] F6)) ''nav'' None None None
      (Inr ([RootDir, Normal ''keymapper.yaml''], ''groups'')) =
    Inr ([RootDir, Normal ''keymapper.yaml''], apply_add sample_doc_config (KeyEvent [] F5) (KeyEvent [LeftShift] F6) ''nav'' None None None)"
    by (simp add: add_command_def ke_parse_display s parse_keyboard_specs_def l)
  moreover have "ac_keyboards (apply_add sample_doc_config t out name None None None) = None" for t out name
    by (simp add: apply_add_def Let_def k)
  ultimately show ?thesis
    by (auto simp: Let_def intro!: app_config.equality dest!: edited_config_reads_back)
qed

end
