(* ===== verification/App_Desktop.thy ===== *)
theory App_Desktop
  imports Utf8 Rust_Str "HOL-Library.Char_ord" "HOL-Library.List_Lexorder"
begin

text \<open>
  \<open>src/platform/app_identity/linux/desktop.rs\<close> and \<open>apps.rs\<close>: the names of applications on Linux, which the
  \<open>apps\<close> of a rule are compared with: \<open>.desktop\<close> files, the two tables built from them, and what a process
  resolves to. Directories and \<open>/proc\<close> are given by what they hold. Strings are their UTF-8 bytes.
\<close>

section \<open>File names as text\<close>

text \<open>The components of a path: empty ones and \<open>.\<close> are skipped.\<close>

definition segments :: "string \<Rightarrow> string list" where
  "segments s = filter (\<lambda>x. x \<noteq> [] \<and> x \<noteq> ''.'') (split_on (CHR ''/'') s)"

definition text_file_name :: "string \<Rightarrow> string option" where
  "text_file_name s =
     (case rev (segments s) of [] \<Rightarrow> None | x # _ \<Rightarrow> if x = ''..'' then None else Some x)"

text \<open>A file name at its last dot, unless that is its first character: the stem and the extension.\<close>

definition split_at_dot :: "string \<Rightarrow> string \<times> string option" where
  "split_at_dot name =
     (let after = takeWhile (\<lambda>c. c \<noteq> CHR ''.'') (rev name); before = dropWhile (\<lambda>c. c \<noteq> CHR ''.'') (rev name)
      in if before = [] \<or> tl before = [] then (name, None) else (rev (tl before), Some (rev after)))"

definition file_stem :: "string \<Rightarrow> string option" where
  "file_stem s = map_option (fst \<circ> split_at_dot) (text_file_name s)"

definition extension :: "string \<Rightarrow> string option" where
  "extension s = Option.bind (text_file_name s) (snd \<circ> split_at_dot)"

text \<open>
  \<open>Path::parent\<close> of an absolute path as text: the last component is cut off, and with it the separators
  before it.
\<close>

definition skipped :: "string \<Rightarrow> bool" where "skipped x \<longleftrightarrow> x = [] \<or> x = ''.''"

definition abs_parent :: "string \<Rightarrow> string option" where
  "abs_parent s =
     (case dropWhile skipped (rev (tl (split_on (CHR ''/'') s))) of
        [] \<Rightarrow> None
      | _ # xs \<Rightarrow> Some (CHR ''/'' # join ''/'' (rev (dropWhile skipped xs))))"

section \<open>Desktop files (desktop.rs)\<close>

definition split_key_value :: "string \<Rightarrow> (string \<times> string) option" where
  "split_key_value line =
     (case position (\<lambda>c. c = CHR ''='') line of Some pos \<Rightarrow> Some (take pos line, drop (pos + 1) line) | None \<Rightarrow> None)"

fun tokenize_chars :: "string \<Rightarrow> string list \<Rightarrow> string \<Rightarrow> bool \<Rightarrow> string list" where
  "tokenize_chars [] tokens current in_quotes = (if current \<noteq> [] then tokens @ [current] else tokens)"
| "tokenize_chars (ch # chs) tokens current in_quotes =
     (if ch = CHR 0x22 then tokenize_chars chs tokens current (\<not> in_quotes)
      else if (ch = CHR '' '' \<or> ch = CHR 0x09 \<or> ch = CHR 0x5C) \<and> \<not> in_quotes then
        (if current \<noteq> [] then tokenize_chars chs (tokens @ [current]) [] in_quotes
         else tokenize_chars chs tokens current in_quotes)
      else tokenize_chars chs tokens (current @ [ch]) in_quotes)"

definition tokenize_exec :: "string \<Rightarrow> string list" where
  "tokenize_exec value = tokenize_chars value [] [] False"

text \<open>The first token that is neither a flag nor a specifier, without quotes around it.\<close>

definition trim_quotes :: "string \<Rightarrow> string" where
  "trim_quotes s = rev (dropWhile (\<lambda>c. c = CHR 0x22) (rev (dropWhile (\<lambda>c. c = CHR 0x22) s)))"

definition exe_token :: "string \<Rightarrow> string option" where
  "exe_token value =
     map_option trim_quotes
       (find (\<lambda>t. \<not> (t \<noteq> [] \<and> hd t = CHR ''-'') \<and> \<not> (t \<noteq> [] \<and> hd t = CHR ''%'')) (tokenize_exec value))"

definition parse_exec_value :: "string \<Rightarrow> string option" where
  "parse_exec_value value = Option.bind (exe_token (trim value)) file_stem"

text \<open>What the loop over the lines collects; \<open>exec_of\<close> is what is made of the value of \<open>Exec\<close>.\<close>

record desktop_entry =
  de_main :: bool
  de_exec :: "string option"
  de_application :: bool
  de_hidden :: bool
  de_no_display :: bool

definition desktop_entry_new :: desktop_entry where
  "desktop_entry_new = \<lparr>de_main = False, de_exec = None, de_application = True, de_hidden = False, de_no_display = False\<rparr>"

definition entry_key ::
  "(string \<Rightarrow> string) \<Rightarrow> (string \<Rightarrow> string option) \<Rightarrow> string \<Rightarrow> string \<Rightarrow> desktop_entry \<Rightarrow> desktop_entry" where
  "entry_key uni exec_of key val e =
     (if key = ''Type'' then e\<lparr>de_application := (trim val = ''Application'')\<rparr>
      else if key = ''Hidden'' then e\<lparr>de_hidden := (str_to_lowercase uni (trim val) = ''true'')\<rparr>
      else if key = ''NoDisplay'' then e\<lparr>de_no_display := (str_to_lowercase uni (trim val) = ''true'')\<rparr>
      else if key = ''Exec'' then e\<lparr>de_exec := exec_of val\<rparr>
      else e)"

fun entry_lines ::
  "(string \<Rightarrow> string) \<Rightarrow> (string \<Rightarrow> string option) \<Rightarrow> string list \<Rightarrow> desktop_entry \<Rightarrow> desktop_entry" where
  "entry_lines uni exec_of [] e = e"
| "entry_lines uni exec_of (l # ls) e =
     (let line = trim l
      in if line = [] \<or> hd line = CHR ''#'' then entry_lines uni exec_of ls e
         else if hd line = CHR ''['' then entry_lines uni exec_of ls (e\<lparr>de_main := (line = ''[Desktop Entry]'')\<rparr>)
         else if \<not> de_main e then e
         else
           (case split_key_value line of
              None \<Rightarrow> entry_lines uni exec_of ls e
            | Some (key, val) \<Rightarrow> entry_lines uni exec_of ls (entry_key uni exec_of key val e)))"

definition entry_visible :: "desktop_entry \<Rightarrow> bool" where
  "entry_visible e \<longleftrightarrow> de_application e \<and> \<not> de_hidden e \<and> \<not> de_no_display e"

text \<open>A directory entry: its name, and its content where it can be read as text.\<close>

type_synonym dir_entry = "string \<times> string option"

definition parse_desktop_file :: "(string \<Rightarrow> string) \<Rightarrow> dir_entry \<Rightarrow> (string \<times> string) option" where
  "parse_desktop_file uni f =
     (case file_stem (fst f) of
        None \<Rightarrow> None
      | Some app_id \<Rightarrow>
          if app_id = [] then None
          else
            (case snd f of
               None \<Rightarrow> None
             | Some content \<Rightarrow>
                 (let e = entry_lines uni parse_exec_value (str_lines content) desktop_entry_new
                  in if \<not> entry_visible e then None else map_option (\<lambda>exe. (exe, app_id)) (de_exec e))))"

text \<open>The directory an application is installed in.\<close>

definition extract_app_root :: "string \<Rightarrow> string option" where
  "extract_app_root exe_path =
     (case abs_parent exe_path of
        None \<Rightarrow> None
      | Some par \<Rightarrow>
          (case text_file_name par of
             None \<Rightarrow> None
           | Some parent_name \<Rightarrow>
               if parent_name \<in> {''bin'', ''sbin'', ''bin64'', ''sbin64''} then
                 (if segments par \<noteq> [] \<and> hd (segments par) = ''usr'' then None
                  else map_option (\<lambda>root. root @ ''/'') (abs_parent par))
               else Some (par @ ''/'')))"

definition parse_desktop_file_app_root :: "(string \<Rightarrow> string) \<Rightarrow> dir_entry \<Rightarrow> (string \<times> string) option" where
  "parse_desktop_file_app_root uni f =
     (case file_stem (fst f) of
        None \<Rightarrow> None
      | Some app_id \<Rightarrow>
          if app_id = [] then None
          else
            (case snd f of
               None \<Rightarrow> None
             | Some content \<Rightarrow>
                 (let e = entry_lines uni (\<lambda>v. Some (trim v)) (str_lines content) desktop_entry_new
                  in if \<not> entry_visible e then None
                     else
                       (case Option.bind (de_exec e) exe_token of
                          None \<Rightarrow> None
                        | Some exe \<Rightarrow>
                            if exe = [] \<or> hd exe \<noteq> CHR ''/'' then None
                            else map_option (\<lambda>root. (root, app_id)) (extract_app_root exe)))))"

section \<open>The tables\<close>

text \<open>\<open>expanded_dirs\<close>: the user's directory, then the system's; those that exist.\<close>

definition expanded_dirs :: "string option \<Rightarrow> (string \<Rightarrow> bool) \<Rightarrow> string list" where
  "expanded_dirs home is_dir =
     filter is_dir
       [(case home of Some h \<Rightarrow> h | None \<Rightarrow> ''/'') @ ''/.local/share/applications'', ''/usr/share/applications'']"

text \<open>\<open>read_dir\<close> gives the entries of a directory in some order, or fails.\<close>

definition desktop_files :: "(string \<Rightarrow> dir_entry list option) \<Rightarrow> string list \<Rightarrow> dir_entry list" where
  "desktop_files read_dir dirs =
     concat (map (\<lambda>dir. case read_dir dir of
         None \<Rightarrow> [] | Some es \<Rightarrow> filter (\<lambda>f. extension (fst f) = Some ''desktop'') es) dirs)"

definition build_cache ::
  "(string \<Rightarrow> string) \<Rightarrow> (string \<Rightarrow> dir_entry list option) \<Rightarrow> string list \<Rightarrow> string \<rightharpoonup> string" where
  "build_cache uni read_dir dirs =
     fold (\<lambda>f cache. case parse_desktop_file uni f of Some (exe, app_id) \<Rightarrow> cache(exe \<mapsto> app_id) | None \<Rightarrow> cache)
       (desktop_files read_dir dirs) Map.empty"

definition build_app_root_cache ::
  "(string \<Rightarrow> string) \<Rightarrow> (string \<Rightarrow> dir_entry list option) \<Rightarrow> string list \<Rightarrow> (string \<times> string) list" where
  "build_app_root_cache uni read_dir dirs =
     List.map_filter (parse_desktop_file_app_root uni) (desktop_files read_dir dirs)"

text \<open>Both tables.\<close>

record desktop_tables =
  dk_cache :: "string \<rightharpoonup> string"
  dk_roots :: "(string \<times> string) list"

definition resolve_app_id :: "desktop_tables \<Rightarrow> string \<Rightarrow> string option" where
  "resolve_app_id dk exe = dk_cache dk exe"

fun split_zero :: "bytes \<Rightarrow> bytes list" where
  "split_zero [] = [[]]"
| "split_zero (b # bs) = (if b = 0 then [] # split_zero bs else (b # hd (split_zero bs)) # tl (split_zero bs))"

definition resolve_app_id_from_cmdline :: "desktop_tables \<Rightarrow> bytes \<Rightarrow> string option" where
  "resolve_app_id_from_cmdline dk cmdline =
     (let tokens = map bytes_str (filter utf8_ok (filter (\<lambda>t. t \<noteq> []) (split_zero cmdline)))
      in find_map (\<lambda>token.
           if token = [] \<or> hd token \<noteq> CHR ''/'' then None
           else find_map (\<lambda>(root, app_id). if take (length root) token = root then Some app_id else None) (dk_roots dk))
         tokens)"

section \<open>Processes (apps.rs)\<close>

text \<open>
  What \<open>/proc\<close> shows of a process: where \<open>exe\<close> leads, \<open>cmdline\<close>, \<open>environ\<close>, and the owner. Bytes that are
  no UTF-8 are replaced by \<open>lossy\<close>, a parameter.
\<close>

record proc_info =
  pi_exe :: "string option"
  pi_cmdline :: "bytes option"
  pi_environ :: "bytes option"
  pi_owner :: "nat option"

definition has_window :: "bytes \<Rightarrow> bytes \<Rightarrow> bool" where
  "has_window w data = list_ex (\<lambda>i. take (length w) (drop i data) = w) [0..<length data + 1 - length w]"

definition is_gui_process :: "proc_info \<Rightarrow> bool" where
  "is_gui_process p =
     (case pi_environ p of
        None \<Rightarrow> False
      | Some data \<Rightarrow> has_window (str_bytes ''WAYLAND_DISPLAY='') data \<or> has_window (str_bytes ''DISPLAY='') data)"

definition last_segment :: "string \<Rightarrow> string" where
  "last_segment s = last (split_on (CHR ''/'') s)"

definition resolve_exe_name :: "(bytes \<Rightarrow> string) \<Rightarrow> proc_info \<Rightarrow> string option" where
  "resolve_exe_name lossy p =
     (case Option.bind (pi_exe p) file_stem of
        Some stem \<Rightarrow> Some stem
      | None \<Rightarrow>
          (case pi_cmdline p of
             None \<Rightarrow> None
           | Some cmdline \<Rightarrow>
               (case position (\<lambda>b. b = 0) cmdline of
                  Some null_pos \<Rightarrow> Some (last_segment (lossy (take null_pos cmdline)))
                | None \<Rightarrow> if lossy cmdline \<noteq> [] then Some (last_segment (lossy cmdline)) else None)))"

definition proc_owner_is_self :: "nat \<Rightarrow> proc_info \<Rightarrow> bool" where
  "proc_owner_is_self uid p = (pi_owner p = Some uid)"

definition resolve_process_app_id :: "(bytes \<Rightarrow> string) \<Rightarrow> desktop_tables \<Rightarrow> proc_info \<Rightarrow> string option" where
  "resolve_process_app_id lossy dk p =
     (case resolve_exe_name lossy p of
        None \<Rightarrow> None
      | Some exe \<Rightarrow>
          (case resolve_app_id dk exe of
             Some app_id \<Rightarrow> Some app_id
           | None \<Rightarrow> Option.bind (pi_cmdline p) (resolve_app_id_from_cmdline dk)))"

text \<open>\<open>sort\<close> and \<open>dedup\<close> of strings by their bytes.\<close>

definition linux_app_names :: "(bytes \<Rightarrow> string) \<Rightarrow> desktop_tables \<Rightarrow> proc_info list \<Rightarrow> string list" where
  "linux_app_names lossy dk ps =
     remdups_adj (sort (List.map_filter (resolve_process_app_id lossy dk) (filter is_gui_process ps)))"

section \<open>What the tables hold\<close>

lemma fold_update_map_of:
  "fold (\<lambda>f m. case g f of Some (k, v) \<Rightarrow> m(k \<mapsto> v) | None \<Rightarrow> m) fs m = m ++ map_of (rev (List.map_filter g fs))"
  by (induction fs arbitrary: m) (auto simp: List.map_filter_simps map_add_upd_left split: option.splits prod.splits)

lemma build_cache_map_of:
  "build_cache uni read_dir dirs = map_of (rev (List.map_filter (parse_desktop_file uni) (desktop_files read_dir dirs)))"
  unfolding build_cache_def by (subst fold_update_map_of) simp

lemma map_filter_append: "List.map_filter f (xs @ ys) = List.map_filter f xs @ List.map_filter f ys"
  by (simp add: List.map_filter_def)

lemma set_map_filter: "set (List.map_filter f xs) = {y. \<exists>x \<in> set xs. f x = Some y}"
  by (force simp: List.map_filter_def)

lemma desktop_files_append: "desktop_files read_dir (ds @ es) = desktop_files read_dir ds @ desktop_files read_dir es"
  by (simp add: desktop_files_def)

text \<open>
  Of two directories the later one decides: an entry of the system's directory replaces the user's entry for
  the same executable. In the table of the roots the earlier one decides.
\<close>

lemma build_cache_append:
  "build_cache uni read_dir (ds @ es) = build_cache uni read_dir ds ++ build_cache uni read_dir es"
  by (simp add: build_cache_map_of desktop_files_append map_filter_append map_add_def)

lemma system_entry_wins:
  "build_cache uni read_dir [sys_dir] exe = Some app_id \<Longrightarrow>
     build_cache uni read_dir [user_dir, sys_dir] exe = Some app_id"
  using build_cache_append [of uni read_dir "[user_dir]" "[sys_dir]"] by simp

lemma app_roots_append:
  "build_app_root_cache uni read_dir (ds @ es) = build_app_root_cache uni read_dir ds @ build_app_root_cache uni read_dir es"
  by (simp add: build_app_root_cache_def desktop_files_append map_filter_append)

text \<open>Every root ends in a separator, so a match ends at the end of a component.\<close>

lemma extract_app_root_slash: "extract_app_root exe = Some root \<Longrightarrow> \<exists>d. root = d @ ''/''"
  by (auto simp: extract_app_root_def split: option.splits if_splits)

lemma parse_root_slash: "parse_desktop_file_app_root uni f = Some (root, app_id) \<Longrightarrow> \<exists>d. root = d @ ''/''"
  unfolding parse_desktop_file_app_root_def Let_def
  by (clarsimp split: option.splits if_splits simp del: not_None_eq) (erule extract_app_root_slash)

lemma app_roots_slash:
  "(root, app_id) \<in> set (build_app_root_cache uni read_dir dirs) \<Longrightarrow> \<exists>d. root = d @ ''/''"
  by (auto simp: build_app_root_cache_def set_map_filter dest: parse_root_slash)

text \<open>A directory next to the root has nothing to do with it; everything below a common directory has.\<close>

lemma zero_in_str_bytes: "0 \<in> set (str_bytes s) \<longleftrightarrow> CHR 0x00 \<in> set s"
proof -
  have "(0 :: u8) = word_of_nat (of_char c) \<longleftrightarrow> c = CHR 0x00" for c :: char
  proof -
    have "(0 :: u8) = word_of_nat (of_char c) \<longleftrightarrow> (of_char c :: nat) = of_char (CHR 0x00)"
      by (simp add: word_unat_eq_iff unat_char_byte)
    then show ?thesis by (simp only: of_char_eq_iff)
  qed
  then show ?thesis by (auto simp: str_bytes_def image_iff)
qed

lemma split_zero_none: "0 \<notin> set bs \<Longrightarrow> split_zero bs = [bs]"
  by (induction bs) auto

lemma resolve_one_token:
  assumes "is_ascii s" "CHR 0x00 \<notin> set s"
  shows "resolve_app_id_from_cmdline dk (str_bytes s) =
           (if s = [] \<or> hd s \<noteq> CHR ''/'' then None
            else find_map (\<lambda>(root, app_id). if take (length root) s = root then Some app_id else None) (dk_roots dk))"
proof -
  have ok: "utf8_ok (str_bytes s)" using is_utf8_ascii [OF assms(1)] by (simp add: is_utf8_def)
  have z: "split_zero (str_bytes s) = [str_bytes s]"
    by (rule split_zero_none) (simp add: zero_in_str_bytes assms(2))
  have "str_bytes s = [] \<longleftrightarrow> s = []" by (simp add: str_bytes_def)
  with ok z show ?thesis by (simp add: resolve_app_id_from_cmdline_def Let_def split: option.splits)
qed

lemma sibling_directory:
  "resolve_app_id_from_cmdline \<lparr>dk_cache = Map.empty, dk_roots = [(''/opt/app/'', ''app'')]\<rparr> (str_bytes ''/opt/app2/tool'') = None"
  by (subst resolve_one_token) (simp_all add: is_ascii_def)

lemma root_of_snap: "extract_app_root ''/snap/bin/firefox'' = Some ''/snap/''"
  by (simp add: extract_app_root_def abs_parent_def text_file_name_def segments_def skipped_def)

lemma snap_root_takes_all:
  "resolve_app_id_from_cmdline \<lparr>dk_cache = Map.empty, dk_roots = [(''/snap/'', ''firefox'')]\<rparr>
     (str_bytes ''/snap/spotify/current/usr/share/spotify/spotify'') = Some ''firefox''"
  by (subst resolve_one_token) (simp_all add: is_ascii_def)

text \<open>A key with a blank before the \<open>=\<close> is not seen, whatever is said of \<open>split_key_value\<close>.\<close>

lemma blank_before_equals:
  "parse_desktop_file (\<lambda>s. s) (''a.desktop'', Some (''[Desktop Entry]'' @ [CHR 0x0A] @ ''Exec=firefox'')) = Some (''firefox'', ''a'')"
  "parse_desktop_file (\<lambda>s. s) (''a.desktop'', Some (''[Desktop Entry]'' @ [CHR 0x0A] @ ''Exec = firefox'')) = None"
  by code_simp+

section \<open>Processes with a display\<close>

lemma has_window_iff: "has_window w data \<longleftrightarrow> (\<exists>a b. data = a @ w @ b)"
proof
  assume "has_window w data"
  then obtain i where "take (length w) (drop i data) = w"
    by (auto simp: has_window_def list_ex_iff)
  then have "data = take i data @ w @ drop (length w) (drop i data)"
    by (metis append_take_drop_id)
  then show "\<exists>a b. data = a @ w @ b" by blast
next
  assume "\<exists>a b. data = a @ w @ b"
  then obtain a b where "data = a @ w @ b" by blast
  then show "has_window w data"
    by (auto simp: has_window_def list_ex_iff intro!: bexI [of _ "length a"])
qed

text \<open>The second of the two tests alone decides: the first name ends in the second.\<close>

lemma is_gui_process_display:
  "is_gui_process p \<longleftrightarrow> (\<exists>data. pi_environ p = Some data \<and> has_window (str_bytes ''DISPLAY='') data)"
proof -
  have "has_window (str_bytes ''DISPLAY='') data" if "has_window (str_bytes ''WAYLAND_DISPLAY='') data" for data
  proof -
    have "str_bytes ''WAYLAND_DISPLAY='' = str_bytes ''WAYLAND_'' @ str_bytes ''DISPLAY=''"
      by (simp add: str_bytes_append [symmetric])
    then show ?thesis using that by (auto simp: has_window_iff) (metis append.assoc)
  qed
  then show ?thesis by (auto simp: is_gui_process_def split: option.splits)
qed

lemma set_linux_app_names:
  "set (linux_app_names lossy dk ps) =
     {app_id. \<exists>p \<in> set ps. is_gui_process p \<and> resolve_process_app_id lossy dk p = Some app_id}"
  by (auto simp: linux_app_names_def set_map_filter)

lemma sorted_linux_app_names: "sorted (linux_app_names lossy dk ps)"
  by (simp add: linux_app_names_def)

lemma distinct_remdups_adj: "sorted xs \<Longrightarrow> distinct (remdups_adj (xs :: 'a :: linorder list))"
  by (induction xs rule: remdups_adj.induct) (auto simp: antisym)

lemma distinct_linux_app_names: "distinct (linux_app_names lossy dk ps)"
  by (simp add: linux_app_names_def distinct_remdups_adj)

end
