(* ===== verification/App_Active.thy ===== *)
theory App_Active
  imports App_Desktop
begin

text \<open>
  The application in the foreground on Linux: \<open>src/platform/app_identity/linux/mod.rs\<close>, \<open>x11.rs\<close> and
  \<open>wayland/\<close> (\<open>mod.rs\<close>, \<open>wlroots.rs\<close>, \<open>hyprland.rs\<close>, \<open>gnome.rs\<close>, \<open>kde.rs\<close>). The answers of the window
  systems, the environment and the JSON parser are parameters.
\<close>

definition unknown_app :: string where "unknown_app = ''unknown''"

section \<open>JSON (wayland/mod.rs)\<close>

text \<open>A value of \<open>serde_json\<close>; an object has its entries in the order they are visited.\<close>

datatype json =
    JNull
  | JBool bool
  | JNumber string
  | JString string
  | JArray "json list"
  | JObject "(string \<times> json) list"

fun json_as_str :: "json \<Rightarrow> string option" where
  "json_as_str (JString s) = Some s"
| "json_as_str _ = None"

fun find_json_string :: "string \<Rightarrow> json \<Rightarrow> string option"
  and find_json_entries :: "string \<Rightarrow> (string \<times> json) list \<Rightarrow> string option"
  and find_json_items :: "string \<Rightarrow> json list \<Rightarrow> string option" where
  "find_json_string key (JObject entries) = find_json_entries key entries"
| "find_json_string key (JArray items) = find_json_items key items"
| "find_json_string key JNull = None"
| "find_json_string key (JBool b) = None"
| "find_json_string key (JNumber n) = None"
| "find_json_string key (JString s) = None"
| "find_json_entries key [] = None"
| "find_json_entries key ((k, v) # entries) =
     (case (if k = key then json_as_str v else None) of
        Some s \<Rightarrow> Some s
      | None \<Rightarrow>
          (case find_json_string key v of Some s \<Rightarrow> Some s | None \<Rightarrow> find_json_entries key entries))"
| "find_json_items key [] = None"
| "find_json_items key (v # items) =
     (case find_json_string key v of Some s \<Rightarrow> Some s | None \<Rightarrow> find_json_items key items)"

definition extract_json_field :: "(string \<Rightarrow> json option) \<Rightarrow> string \<Rightarrow> string \<Rightarrow> string" where
  "extract_json_field from_str text key =
     (case from_str text of
        None \<Rightarrow> []
      | Some v \<Rightarrow> (case find_json_string key v of Some s \<Rightarrow> s | None \<Rightarrow> []))"

section \<open>Which backend is asked\<close>

datatype compositor = CompKde | CompGnome | CompCosmic | CompWlroots | CompHyprland | CompXfce

definition compositor_named :: "string \<Rightarrow> compositor option" where
  "compositor_named name =
     (if name = ''kde'' then Some CompKde
      else if name = ''gnome'' then Some CompGnome
      else if name = ''cosmic'' then Some CompCosmic
      else if name = ''sway'' \<or> name = ''niri'' then Some CompWlroots
      else if name = ''hyprland'' then Some CompHyprland
      else if name = ''xfce'' then Some CompXfce
      else None)"

definition compositor_for_desktop :: "string \<Rightarrow> compositor option" where
  "compositor_for_desktop desktop =
     find_map (\<lambda>name. compositor_named (trim name)) (split_on (CHR '':'') (map ascii_lower desktop))"

definition answers :: "string \<Rightarrow> bool" where "answers result \<longleftrightarrow> result \<noteq> [] \<and> result \<noteq> unknown_app"

definition wayland_active_app :: "string option \<Rightarrow> (compositor \<Rightarrow> string) \<Rightarrow> string" where
  "wayland_active_app current_desktop query =
     (case Option.bind current_desktop compositor_for_desktop of
        Some c \<Rightarrow> if answers (query c) then query c else unknown_app
      | None \<Rightarrow>
          (case find (\<lambda>c. answers (query c)) [CompKde, CompGnome, CompCosmic, CompWlroots, CompHyprland, CompXfce] of
             Some c \<Rightarrow> query c
           | None \<Rightarrow> unknown_app))"

definition linux_active_app :: "string \<Rightarrow> string \<Rightarrow> string \<Rightarrow> string" where
  "linux_active_app session_type x11 wayland =
     (if session_type = ''x11'' then x11
      else if session_type = ''wayland'' then wayland
      else if x11 \<noteq> unknown_app then x11
      else wayland)"

section \<open>The socket of the compositor\<close>

text \<open>\<open>str::parse::<u32>\<close>: digits, with a sign \<open>+\<close> or without, that fit.\<close>

definition parse_u32 :: "string \<Rightarrow> nat option" where
  "parse_u32 s =
     (let digits = (if s \<noteq> [] \<and> hd s = CHR ''+'' then tl s else s);
          n = foldl (\<lambda>n c. 10 * n + (of_char c - 48)) (0 :: nat) digits
      in if digits \<noteq> [] \<and> list_all (\<lambda>c. 48 \<le> (of_char c :: nat) \<and> (of_char c :: nat) \<le> 57) digits \<and> n < 2 ^ 32
         then Some n else None)"

definition display_number :: "string \<Rightarrow> nat option" where
  "display_number name =
     (if take 8 name = ''wayland-'' then parse_u32 (drop 8 name) else None)"

fun find_wayland_socket :: "string list \<Rightarrow> (nat \<times> string) option \<Rightarrow> string option" where
  "find_wayland_socket [] best = map_option snd best"
| "find_wayland_socket (name # names) best =
     (case display_number name of
        None \<Rightarrow> find_wayland_socket names best
      | Some display \<Rightarrow>
          if (case best of None \<Rightarrow> True | Some (lowest, _) \<Rightarrow> display < lowest)
          then find_wayland_socket names (Some (display, name))
          else find_wayland_socket names best)"

section \<open>X11\<close>

text \<open>
  What the display says: whether it can be reached, the two atoms, the active window, and the process a
  window claims to belong to. Zero stands for no atom, window or process.
\<close>

record x11_display =
  xd_connected :: bool
  xd_active_atom :: "u32 option"
  xd_active_window :: "u32 option"
  xd_pid_atom :: "u32 option"
  xd_window_pid :: "u32 \<Rightarrow> u32 option"

definition nonzero :: "u32 option \<Rightarrow> u32 option" where
  "nonzero x = (case x of Some n \<Rightarrow> if n = 0 then None else Some n | None \<Rightarrow> None)"

definition x11_active_app ::
  "(bytes \<Rightarrow> string) \<Rightarrow> desktop_tables \<Rightarrow> nat \<Rightarrow> (u32 \<Rightarrow> proc_info) \<Rightarrow> x11_display \<Rightarrow> string" where
  "x11_active_app lossy dk uid procs xd =
     (if \<not> xd_connected xd then unknown_app
      else
        (case nonzero (xd_active_atom xd) of
           None \<Rightarrow> unknown_app
         | Some _ \<Rightarrow>
             (case nonzero (xd_active_window xd) of
                None \<Rightarrow> unknown_app
              | Some window \<Rightarrow>
                  (case nonzero (xd_pid_atom xd) of
                     None \<Rightarrow> unknown_app
                   | Some _ \<Rightarrow>
                       (case nonzero (xd_window_pid xd window) of
                          None \<Rightarrow> unknown_app
                        | Some pid \<Rightarrow>
                            if \<not> proc_owner_is_self uid (procs pid) then unknown_app
                            else
                              (case resolve_process_app_id lossy dk (procs pid) of
                                 Some app_id \<Rightarrow> app_id
                               | None \<Rightarrow> unknown_app))))))"

section \<open>Sway and Hyprland\<close>

definition u32_le_bytes :: "u32 \<Rightarrow> bytes" where
  "u32_le_bytes n = map (\<lambda>i. ucast (drop_bit (8 * i) n)) [0..<4]"

definition of_le_bytes :: "bytes \<Rightarrow> nat" where
  "of_le_bytes bs = foldr (\<lambda>b n. unat b + 256 * n) bs 0"

definition tree_request_payload :: string where
  "tree_request_payload = ''{'' @ [CHR 0x22] @ ''payload'' @ [CHR 0x22] @ '':'' @ [CHR 0x22, CHR 0x22] @ '', '' @ [CHR 0x22]
     @ ''cmd'' @ [CHR 0x22] @ '':'' @ [CHR 0x22] @ ''get_tree'' @ [CHR 0x22] @ ''}''"

definition tree_request :: bytes where
  "tree_request =
     (let payload = str_bytes tree_request_payload
      in str_bytes ''sway'' @ u32_le_bytes 4 @ u32_le_bytes (of_nat (length payload)) @ payload)"

text \<open>\<open>checked_add\<close> never fails here: the length is a 32-bit number and \<open>usize\<close> has 64 bits.\<close>

definition parse_wlroots_response :: "(string \<Rightarrow> json option) \<Rightarrow> bytes \<Rightarrow> string \<Rightarrow> string" where
  "parse_wlroots_response from_str response key =
     (if length response < 12 then []
      else if take 4 response \<noteq> str_bytes ''sway'' then []
      else
        (let payload_len = of_le_bytes (take 4 (drop 8 response)); json_end = 12 + payload_len
         in if length response < json_end then []
            else
              (let text = take payload_len (drop 12 response)
               in if \<not> utf8_ok text then [] else extract_json_field from_str (bytes_str text) key)))"

text \<open>A request over a socket: connecting, writing, and what reading to the end gives.\<close>

record ipc_socket =
  ip_exists :: bool
  ip_connects :: bool
  ip_reply :: "bytes \<Rightarrow> bytes option"

definition query_wlroots :: "(string \<Rightarrow> json option) \<Rightarrow> string option \<Rightarrow> (string \<Rightarrow> ipc_socket) \<Rightarrow> string" where
  "query_wlroots from_str swaysock sockets =
     (case swaysock of
        None \<Rightarrow> []
      | Some s \<Rightarrow>
          if s = [] then []
          else if \<not> ip_exists (sockets s) \<or> \<not> ip_connects (sockets s) then []
          else
            (case ip_reply (sockets s) tree_request of
               None \<Rightarrow> []
             | Some response \<Rightarrow> parse_wlroots_response from_str response ''app_id''))"

definition query_hyprland ::
  "(string \<Rightarrow> json option) \<Rightarrow> string option \<Rightarrow> string option \<Rightarrow> (string \<Rightarrow> ipc_socket) \<Rightarrow> string" where
  "query_hyprland from_str signature runtime_dir sockets =
     (case signature of
        None \<Rightarrow> []
      | Some sg \<Rightarrow>
          (case runtime_dir of
             None \<Rightarrow> []
           | Some d \<Rightarrow>
               if d = [] \<or> hd d \<noteq> CHR ''/'' then []
               else
                 (let socket = sockets (d @ ''/hypr/'' @ sg @ ''/.socket.sock'')
                  in if \<not> ip_exists socket \<or> \<not> ip_connects socket then []
                     else
                       (case ip_reply socket (str_bytes ''j/activewindow'') of
                          None \<Rightarrow> []
                        | Some response \<Rightarrow>
                            if \<not> utf8_ok response then []
                            else extract_json_field from_str (bytes_str response) ''class''))))"

section \<open>GNOME\<close>

definition strip_suffix :: "string \<Rightarrow> string \<Rightarrow> string option" where
  "strip_suffix suffix s =
     (let n = length s - length suffix
      in if length suffix \<le> length s \<and> drop n s = suffix then Some (take n s) else None)"

definition parse_app_id :: "(string \<Rightarrow> json option) \<Rightarrow> string \<Rightarrow> string" where
  "parse_app_id from_str text =
     (let app_id = extract_json_field from_str text ''app_id''
      in if app_id = [] \<or> app_id = unknown_app then []
         else (case strip_suffix ''.desktop'' app_id of Some s \<Rightarrow> s | None \<Rightarrow> app_id))"

record gnome_state =
  gs_loaded :: bool
  gs_warmup_done :: bool

text \<open>A reply that is no string counts as loaded and gives the empty name.\<close>

definition gnome_reply :: "(string \<Rightarrow> json option) \<Rightarrow> string option \<Rightarrow> gnome_state \<Rightarrow> string \<times> gnome_state" where
  "gnome_reply from_str body gs =
     (case body of None \<Rightarrow> [] | Some text \<Rightarrow> parse_app_id from_str text, gs\<lparr>gs_loaded := True\<rparr>)"

text \<open>
  The one wait for the extension: the calls, each with its reply if there is one, and whether the
  deadline has passed after it. A list that is used up stands for the deadline.
\<close>

fun gnome_warmup ::
  "(string \<Rightarrow> json option) \<Rightarrow> (string option option \<times> bool) list \<Rightarrow> gnome_state \<Rightarrow> string \<times> gnome_state" where
  "gnome_warmup from_str [] gs = ([], gs)"
| "gnome_warmup from_str ((reply, expired) # calls) gs =
     (case reply of
        Some body \<Rightarrow> gnome_reply from_str body gs
      | None \<Rightarrow> if expired then ([], gs) else gnome_warmup from_str calls gs)"

definition query_gnome ::
  "(string \<Rightarrow> json option) \<Rightarrow> bool \<Rightarrow> string option option \<Rightarrow> bool \<Rightarrow> (string option option \<times> bool) list
    \<Rightarrow> gnome_state \<Rightarrow> string \<times> gnome_state" where
  "query_gnome from_str connected first running calls gs =
     (if \<not> connected then ([], gs)
      else
        (case first of
           Some body \<Rightarrow> gnome_reply from_str body gs
         | None \<Rightarrow>
             if gs_loaded gs then ([], gs)
             else if gs_warmup_done gs then ([], gs)
             else if \<not> running then ([], gs\<lparr>gs_warmup_done := True\<rparr>)
             else gnome_warmup from_str calls (gs\<lparr>gs_warmup_done := True\<rparr>)))"

section \<open>KDE\<close>

definition REPLY_DEST_PLACEHOLDER :: string where "REPLY_DEST_PLACEHOLDER = ''@REPLY_DEST@''"

text \<open>\<open>str::contains\<close> and \<open>str::replace\<close>, of a text that is not empty.\<close>

fun str_contains :: "string \<Rightarrow> string \<Rightarrow> bool" where
  "str_contains pat [] \<longleftrightarrow> pat = []"
| "str_contains pat (c # s) \<longleftrightarrow> take (length pat) (c # s) = pat \<or> str_contains pat s"

function replace_all :: "string \<Rightarrow> string \<Rightarrow> string \<Rightarrow> string" where
  "replace_all pat rep s =
     (if s = [] then []
      else if pat \<noteq> [] \<and> take (length pat) s = pat then rep @ replace_all pat rep (drop (length pat) s)
      else hd s # replace_all pat rep (tl s))"
  by pat_completeness auto

termination replace_all
  by (relation "measure (\<lambda>(_, _, s). length s)") auto

declare replace_all.simps [simp del]

definition choose_template :: "string \<Rightarrow> string option \<Rightarrow> string" where
  "choose_template embedded installed =
     (case installed of
        Some template \<Rightarrow> if str_contains REPLY_DEST_PLACEHOLDER template then template else embedded
      | None \<Rightarrow> embedded)"

definition build_script :: "string \<Rightarrow> string option \<Rightarrow> string \<Rightarrow> string" where
  "build_script embedded installed dest = replace_all REPLY_DEST_PLACEHOLDER dest (choose_template embedded installed)"

text \<open>
  Staging: for each directory, whether it can be made, whether the name is taken, and whether the file can be created and written. The
  result is the directory the script is in, and the directories in which a file was left behind or removed.
\<close>

record staging_dir =
  sd_name :: string
  sd_made :: bool
  sd_created :: bool
  sd_written :: bool

fun stage_script :: "staging_dir list \<Rightarrow> string option \<times> string list" where
  "stage_script [] = (None, [])"
| "stage_script (d # ds) =
     (if \<not> sd_made d \<or> \<not> sd_created d then stage_script ds
      else if sd_written d then (Some (sd_name d), [])
      else (let (r, removed) = stage_script ds in (r, sd_name d # removed)))"

definition script_dir_candidates :: "string option \<Rightarrow> string option \<Rightarrow> string \<Rightarrow> string list" where
  "script_dir_candidates runtime_dir cache_dir temp_dir =
     (case runtime_dir of
        Some rd \<Rightarrow> if rd \<noteq> [] \<and> hd rd = CHR ''/'' then [rd @ ''/keymapperd''] else []
      | None \<Rightarrow> [])
     @ [(case cache_dir of Some c \<Rightarrow> c | None \<Rightarrow> temp_dir) @ ''/keymapperd'', temp_dir]"

text \<open>The slot of the reply: the first delivery stays; the waiting thread takes it.\<close>

definition deliver :: "string + string \<Rightarrow> (string + string) option \<Rightarrow> (string + string) option" where
  "deliver reply slot = (case slot of None \<Rightarrow> Some reply | Some r \<Rightarrow> Some r)"

text \<open>The deliveries with their times; the result of \<open>wait\<close> that begins at a time, with its timeout.\<close>

definition wait_reply :: "((string + string) \<times> nat) list \<Rightarrow> nat \<Rightarrow> nat \<Rightarrow> string option" where
  "wait_reply deliveries start timeout =
     (case fold (\<lambda>(r, t) slot. if t \<le> start + timeout then deliver r slot else slot) deliveries None of
        Some (Inr text) \<Rightarrow> Some text
      | _ \<Rightarrow> None)"

text \<open>Loading and running the script: what KWin answers, and the calls that are made.\<close>

datatype kwin_call = LoadScript | RunScript int | StopScript int | UnloadScript

record kwin_answers =
  kw_load :: "int option"
  kw_ran :: bool
  kw_deliveries :: "((string + string) \<times> nat) list"

definition run_active_window_script :: "kwin_answers \<Rightarrow> nat \<Rightarrow> string option \<times> kwin_call list" where
  "run_active_window_script kw start =
     (case kw_load kw of
        None \<Rightarrow> (None, [LoadScript])
      | Some script_id \<Rightarrow>
          if script_id < 0 then (None, [LoadScript])
          else
            (if kw_ran kw then wait_reply (kw_deliveries kw) start 2000 else None,
             [LoadScript, RunScript script_id, StopScript script_id, UnloadScript]))"

definition query_kde ::
  "(string \<Rightarrow> json option) \<Rightarrow> string option \<Rightarrow> string option \<Rightarrow> staging_dir list \<Rightarrow> kwin_answers \<Rightarrow> nat \<Rightarrow> string" where
  "query_kde from_str session_version dest dirs kw start =
     (if session_version \<noteq> Some ''6'' then []
      else
        (case dest of
           None \<Rightarrow> []
         | Some _ \<Rightarrow>
             (case fst (stage_script dirs) of
                None \<Rightarrow> []
              | Some _ \<Rightarrow>
                  (case fst (run_active_window_script kw start) of
                     None \<Rightarrow> []
                   | Some text \<Rightarrow> extract_json_field from_str text ''class_name''))))"

section \<open>COSMIC and XFCE\<close>

text \<open>
  What the compositor sends: for a handle, its name, its state (32-bit values in the byte order of the machine), or
  that it is closed; that a window exists; that the list is finished. \<open>activated_value\<close> is the number the
  protocol gives the state \<open>activated\<close>. On COSMIC there is no \<open>TlClosed\<close>.
\<close>

datatype toplevel_event =
    TlNew nat
  | TlAppId nat string
  | TlState nat bytes
  | TlClosed nat
  | TlFinished

record wl_toplevel =
  tl_handle :: nat
  tl_app_id :: "string option"
  tl_activated :: bool
  tl_closed :: bool

record toplevel_query =
  tq_toplevels :: "wl_toplevel list"
  tq_done :: bool

definition toplevel_query_new :: toplevel_query where
  "toplevel_query_new = \<lparr>tq_toplevels = [], tq_done = False\<rparr>"

function chunks4 :: "bytes \<Rightarrow> nat list" where
  "chunks4 bs = (if length bs < 4 then [] else of_le_bytes (take 4 bs) # chunks4 (drop 4 bs))"
  by pat_completeness auto

termination chunks4
  by (relation "measure length") auto

declare chunks4.simps [simp del]

fun on_handle :: "nat \<Rightarrow> (wl_toplevel \<Rightarrow> wl_toplevel) \<Rightarrow> wl_toplevel list \<Rightarrow> wl_toplevel list" where
  "on_handle h f [] = []"
| "on_handle h f (t # ts) = (if tl_handle t = h then f t # ts else t # on_handle h f ts)"

definition on_toplevel_event :: "nat \<Rightarrow> toplevel_event \<Rightarrow> toplevel_query \<Rightarrow> toplevel_query" where
  "on_toplevel_event activated_value ev tq =
     (case ev of
        TlNew h \<Rightarrow>
          tq\<lparr>tq_toplevels := tq_toplevels tq @ [\<lparr>tl_handle = h, tl_app_id = None, tl_activated = False, tl_closed = False\<rparr>]\<rparr>
      | TlAppId h app_id \<Rightarrow>
          tq\<lparr>tq_toplevels := on_handle h (\<lambda>t. if tl_app_id t = None then t\<lparr>tl_app_id := Some app_id\<rparr> else t) (tq_toplevels tq)\<rparr>
      | TlState h states \<Rightarrow>
          tq\<lparr>tq_toplevels := on_handle h (\<lambda>t. t\<lparr>tl_activated := activated_value \<in> set (chunks4 states)\<rparr>) (tq_toplevels tq)\<rparr>
      | TlClosed h \<Rightarrow> tq\<lparr>tq_toplevels := on_handle h (\<lambda>t. t\<lparr>tl_closed := True\<rparr>) (tq_toplevels tq)\<rparr>
      | TlFinished \<Rightarrow> tq\<lparr>tq_done := True\<rparr>)"

text \<open>A roundtrip gives events or fails; at most so many are made until the list is finished.\<close>

fun collect_toplevels ::
  "nat \<Rightarrow> nat \<Rightarrow> (nat \<Rightarrow> toplevel_event list option) \<Rightarrow> toplevel_query \<Rightarrow> toplevel_query option" where
  "collect_toplevels activated_value 0 roundtrip tq = Some tq"
| "collect_toplevels activated_value (Suc n) roundtrip tq =
     (if tq_done tq then Some tq
      else
        (case roundtrip n of
           None \<Rightarrow> None
         | Some evs \<Rightarrow> collect_toplevels activated_value n roundtrip (fold (on_toplevel_event activated_value) evs tq)))"

definition active_toplevel :: "toplevel_query \<Rightarrow> string" where
  "active_toplevel tq =
     (case Option.bind (find (\<lambda>t. tl_activated t \<and> \<not> tl_closed t) (tq_toplevels tq)) tl_app_id of
        Some app_id \<Rightarrow> app_id | None \<Rightarrow> [])"

text \<open>The connection, and whether the first roundtrip showed the global that lists the windows.\<close>

definition query_toplevels ::
  "nat \<Rightarrow> bool \<Rightarrow> bool option \<Rightarrow> (nat \<Rightarrow> toplevel_event list option) \<Rightarrow> string" where
  "query_toplevels activated_value connected globals roundtrip =
     (if \<not> connected then []
      else
        (case globals of
           None \<Rightarrow> []
         | Some advertised \<Rightarrow>
             if \<not> advertised then []
             else
               (case collect_toplevels activated_value 5 roundtrip toplevel_query_new of
                  None \<Rightarrow> [] | Some tq \<Rightarrow> active_toplevel tq)))"

section \<open>What the answers mean\<close>

text \<open>All strings under a key, depth first; the search gives the first of them.\<close>

fun json_strings :: "string \<Rightarrow> json \<Rightarrow> string list"
  and entry_strings :: "string \<Rightarrow> (string \<times> json) list \<Rightarrow> string list"
  and item_strings :: "string \<Rightarrow> json list \<Rightarrow> string list" where
  "json_strings key (JObject entries) = entry_strings key entries"
| "json_strings key (JArray items) = item_strings key items"
| "json_strings key JNull = []"
| "json_strings key (JBool b) = []"
| "json_strings key (JNumber n) = []"
| "json_strings key (JString s) = []"
| "entry_strings key [] = []"
| "entry_strings key ((k, v) # entries) =
     (if k = key then case json_as_str v of Some s \<Rightarrow> [s] | None \<Rightarrow> [] else [])
     @ json_strings key v @ entry_strings key entries"
| "item_strings key [] = []"
| "item_strings key (v # items) = json_strings key v @ item_strings key items"

definition first_of :: "'a list \<Rightarrow> 'a option" where
  "first_of xs = (case xs of [] \<Rightarrow> None | x # _ \<Rightarrow> Some x)"

lemma first_of_simps [simp]: "first_of [] = None" "first_of (x # xs) = Some x"
  by (simp_all add: first_of_def)

lemma first_of_append: "first_of (xs @ ys) = (case first_of xs of Some x \<Rightarrow> Some x | None \<Rightarrow> first_of ys)"
  by (cases xs) simp_all

lemma find_json_string_first:
  "find_json_string key v = first_of (json_strings key v)"
  "find_json_entries key es = first_of (entry_strings key es)"
  "find_json_items key is = first_of (item_strings key is)"
  by (induction key v and key es and key "is" rule: find_json_string_find_json_entries_find_json_items.induct)
    (auto simp: first_of_append split: option.splits)

lemma le_sum_bytes:
  assumes "(a :: nat) < 2 ^ 32"
  shows "a mod 256 + 256 * (a div 2 ^ 8 mod 256 + 256 * (a div 2 ^ 16 mod 256 + 256 * (a div 2 ^ 24 mod 256))) = a"
proof -
  have split: "x = x mod 256 + 256 * (x div 256)" for x :: nat by simp
  have "a div 2 ^ 16 = a div 256 div 256" "a div 2 ^ 24 = a div 256 div 256 div 256" "a div 2 ^ 8 = a div 256"
    by (simp_all add: div_mult2_eq [symmetric])
  moreover have "a div 2 ^ 24 < 256" using assms by (simp add: less_mult_imp_div_less)
  ultimately show ?thesis
    using split [of a] split [of "a div 256"] split [of "a div 256 div 256"] by simp
qed

lemma of_le_bytes_le_bytes: "of_le_bytes (u32_le_bytes n) = unat n"
proof -
  let ?b = "\<lambda>i. ucast (drop_bit (8 * i) n) :: u8"
  have b: "unat (?b i) = unat n div 2 ^ (8 * i) mod 2 ^ 8" for i
    by (simp only: unsigned_ucast_eq unat_drop_bit_eq) (simp add: take_bit_eq_mod drop_bit_eq_div)
  have "unat n mod 256 + 256 * (unat n div 2 ^ 8 mod 256 + 256 * (unat n div 2 ^ 16 mod 256
    + 256 * (unat n div 2 ^ 24 mod 256))) = unat n"
    using unsigned_less [of n] by (intro le_sum_bytes) simp
  moreover have "of_le_bytes (u32_le_bytes n) = unat (?b 0) + 256 * (unat (?b 1) + 256 * (unat (?b 2) + 256 * unat (?b 3)))"
    by (simp add: u32_le_bytes_def of_le_bytes_def upt_rec)
  ultimately show ?thesis by (simp only: b) simp
qed

lemma length_u32_le_bytes [simp]: "length (u32_le_bytes n) = 4"
  by (simp add: u32_le_bytes_def)

definition wlroots_reply :: "u32 \<Rightarrow> bytes \<Rightarrow> bytes" where
  "wlroots_reply version payload = str_bytes ''sway'' @ u32_le_bytes version @ u32_le_bytes (of_nat (length payload)) @ payload"

text \<open>
  A reply in the form of the request: the first string under the key is the answer, whatever window has the focus.
\<close>

lemma parse_wlroots_reply:
  assumes "length payload < 2 ^ 32" "utf8_ok payload" "from_str (bytes_str payload) = Some v"
  shows "parse_wlroots_response from_str (wlroots_reply version payload @ rest) key =
           (case first_of (json_strings key v) of Some s \<Rightarrow> s | None \<Rightarrow> [])"
proof -
  let ?r = "wlroots_reply version payload @ rest"
  have l: "length (str_bytes ''sway'') = 4" by simp
  have "take 4 (drop 8 ?r) = u32_le_bytes (of_nat (length payload))"
    by (simp add: wlroots_reply_def l)
  then have n: "of_le_bytes (take 4 (drop 8 ?r)) = length payload"
    using assms(1) by (simp add: of_le_bytes_le_bytes unat_of_nat)
  have "take 4 ?r = str_bytes ''sway''" "take (length payload) (drop 12 ?r) = payload" "12 + length payload \<le> length ?r"
    by (simp_all add: wlroots_reply_def l)
  with n assms(2,3) show ?thesis
    by (simp add: parse_wlroots_response_def extract_json_field_def find_json_string_first Let_def)
qed

definition two_windows :: json where
  "two_windows =
     JObject [(''nodes'', JArray
       [JObject [(''app_id'', JString ''editor''), (''focused'', JBool False)],
        JObject [(''app_id'', JString ''terminal''), (''focused'', JBool True)]])]"

lemma first_window_not_the_focused: "find_json_string ''app_id'' two_windows = Some ''editor''"
  by (simp add: two_windows_def)

text \<open>The choice of the backend.\<close>

lemma wayland_active_app_unknown_or_answers:
  "wayland_active_app current_desktop query = unknown_app \<or>
     (\<exists>c. wayland_active_app current_desktop query = query c \<and> answers (query c))"
  by (auto simp: wayland_active_app_def find_Some_iff split: option.splits)

lemma wayland_active_app_nonempty: "wayland_active_app current_desktop query \<noteq> []"
  using wayland_active_app_unknown_or_answers [of current_desktop query] by (auto simp: unknown_app_def answers_def)

lemma known_desktop_not_probed:
  "Option.bind current_desktop compositor_for_desktop = Some c \<Longrightarrow> query c = query' c \<Longrightarrow>
     wayland_active_app current_desktop query = wayland_active_app current_desktop query'"
  by (simp add: wayland_active_app_def)

text \<open>The lowest display number wins.\<close>

text \<open>What is found so far is the lowest of it and of the names that have been seen.\<close>

definition lowest_of :: "string set \<Rightarrow> (nat \<times> string) option \<Rightarrow> nat \<times> string \<Rightarrow> bool" where
  "lowest_of names best found \<longleftrightarrow>
     (best = Some found \<or> snd found \<in> names \<and> display_number (snd found) = Some (fst found)) \<and>
     (\<forall>x e. x \<in> names \<and> display_number x = Some e \<or> best = Some (e, x) \<longrightarrow> fst found \<le> e)"

lemma find_wayland_socket_lowest:
  "find_wayland_socket names best = Some name \<Longrightarrow> \<exists>d. lowest_of (set names) best (d, name)"
proof (induction names arbitrary: best)
  case Nil
  then show ?case by (auto simp: lowest_of_def)
next
  case (Cons x names)
  consider (skip) "display_number x = None"
    | (lower) e where "display_number x = Some e" "\<And>l y. best = Some (l, y) \<Longrightarrow> e < l"
    | (keep) e l y where "display_number x = Some e" "best = Some (l, y)" "\<not> e < l"
  proof (cases "display_number x")
    case (Some e)
    show ?thesis
    proof (cases "\<exists>l y. best = Some (l, y) \<and> \<not> e < l")
      case True
      with Some keep show ?thesis by blast
    next
      case False
      with Some lower show ?thesis by blast
    qed
  qed (rule skip)
  then show ?case
  proof cases
    case skip
    with Cons obtain d where "lowest_of (set names) best (d, name)" by fastforce
    with skip have "lowest_of (set (x # names)) best (d, name)" by (auto simp: lowest_of_def)
    then show ?thesis ..
  next
    case lower
    then have "find_wayland_socket names (Some (e, x)) = Some name"
      using Cons.prems by (cases best) (auto split: if_splits)
    from Cons.IH [OF this] obtain d where d: "lowest_of (set names) (Some (e, x)) (d, name)" ..
    have "d \<le> e" using d by (simp add: lowest_of_def)
    have "lowest_of (set (x # names)) best (d, name)"
      unfolding lowest_of_def
    proof (intro conjI allI impI)
      show "best = Some (d, name) \<or> snd (d, name) \<in> set (x # names) \<and> display_number (snd (d, name)) = Some (fst (d, name))"
        using d lower(1) by (auto simp: lowest_of_def)
      show "fst (d, name) \<le> e'" if "z \<in> set (x # names) \<and> display_number z = Some e' \<or> best = Some (e', z)" for z e'
        using that d lower \<open>d \<le> e\<close> by (fastforce simp: lowest_of_def)
    qed
    then show ?thesis ..
  next
    case keep
    then have "find_wayland_socket names best = Some name" using Cons.prems by simp
    from Cons.IH [OF this] obtain d where d: "lowest_of (set names) best (d, name)" ..
    with keep(2) have "d \<le> l" by (auto simp: lowest_of_def)
    with keep d have "lowest_of (set (x # names)) best (d, name)" by (auto simp: lowest_of_def)
    then show ?thesis ..
  qed
qed

text \<open>One wait in the life of the process: a second query without the extension makes one call.\<close>

lemma gnome_waits_once:
  "gs_warmup_done gs \<or> gs_loaded gs \<Longrightarrow> query_gnome from_str True None running calls gs = ([], gs)"
  by (auto simp: query_gnome_def)

lemma gnome_warmup_flag: "gs_warmup_done (snd (gnome_warmup from_str calls gs)) = gs_warmup_done gs"
  by (induction from_str calls gs rule: gnome_warmup.induct) (auto simp: gnome_reply_def split: option.splits)

lemma gnome_unanswered:
  "gs_warmup_done (snd (query_gnome from_str True None running calls gs)) \<or> gs_loaded gs"
  by (auto simp: query_gnome_def gnome_warmup_flag)

text \<open>A script that KWin has loaded is unloaded again; a rendered script has no placeholder of the template left alone.\<close>

lemma kwin_unloads: "kw_load kw = Some n \<Longrightarrow> 0 \<le> n \<Longrightarrow> last (snd (run_active_window_script kw start)) = UnloadScript"
  by (simp add: run_active_window_script_def)

lemma first_delivery_stays:
  "fold (\<lambda>(r, t) slot. if t \<le> limit then deliver r slot else slot) ds (Some r) = Some r"
  by (induction ds) (auto simp: deliver_def)

lemma error_first: "t \<le> start + timeout \<Longrightarrow> wait_reply ((Inl message, t) # deliveries) start timeout = None"
  by (simp add: wait_reply_def deliver_def first_delivery_stays)

text \<open>A window that is reported as active was announced, has the state, and was not closed.\<close>

lemma active_toplevel_sound:
  assumes "active_toplevel tq \<noteq> []"
  shows "\<exists>t \<in> set (tq_toplevels tq). tl_activated t \<and> \<not> tl_closed t \<and> tl_app_id t = Some (active_toplevel tq)"
proof -
  from assms obtain t where "find (\<lambda>t. tl_activated t \<and> \<not> tl_closed t) (tq_toplevels tq) = Some t"
    "tl_app_id t = Some (active_toplevel tq)"
    by (auto simp: active_toplevel_def split: option.splits bind_splits)
  then show ?thesis by (auto simp: find_Some_iff)
qed

end
