(* ===== verification/App_Native.thy ===== *)
theory App_Native
  imports App_Active
begin

text \<open>
  Application identity on macOS and Windows (\<open>src/platform/app_identity/macos.rs\<close>, \<open>windows.rs\<close>) and the entry
  points of \<open>mod.rs\<close>. What the window systems answer is a parameter, as is \<open>String::from_utf16_lossy\<close>. The
  theorems state that the name of the active application is one of the names that are listed.
\<close>

record app_name =
  an_name :: string
  an_display :: string

definition plain_app_names :: "string list \<Rightarrow> app_name list" where
  "plain_app_names names = map (\<lambda>name. \<lparr>an_name = name, an_display = name\<rparr>) names"

section \<open>macOS\<close>

text \<open>
  An entry of the window list that is a dictionary: what \<open>get_number\<close> makes of the owner's process id, and the
  string there is for the owner's name.
\<close>

record window_dict =
  wd_pid :: "64 word option"
  wd_name :: "string option"

definition get_string :: "string option \<Rightarrow> string option" where
  "get_string v = (case v of None \<Rightarrow> None | Some s \<Rightarrow> if s = [] then None else Some s)"

fun window_owners :: "window_dict option list \<Rightarrow> (64 word \<times> string) list" where
  "window_owners [] = []"
| "window_owners (w # ws) =
     (case w of
        None \<Rightarrow> window_owners ws
      | Some dict \<Rightarrow>
          (case wd_pid dict of
             None \<Rightarrow> window_owners ws
           | Some pid \<Rightarrow>
               if pid = 0 then window_owners ws
               else
                 (case get_string (wd_name dict) of
                    None \<Rightarrow> window_owners ws
                  | Some name \<Rightarrow> (pid, name) # window_owners ws)))"

text \<open>The frontmost application's process id has 32 bits and a sign.\<close>

definition mac_active_app :: "u32 option \<Rightarrow> window_dict option list option \<Rightarrow> string" where
  "mac_active_app frontmost windows =
     (case frontmost of
        None \<Rightarrow> unknown_app
      | Some app_pid \<Rightarrow>
          (let pid = signed_take_bit 31 (ucast app_pid) :: 64 word
           in if pid = 0 then unknown_app
              else
                (case windows of
                   None \<Rightarrow> unknown_app
                 | Some ws \<Rightarrow>
                     (case map_option snd (find (\<lambda>w. fst w = pid) (window_owners ws)) of
                        Some name \<Rightarrow> name
                      | None \<Rightarrow> unknown_app))))"

definition mac_app_names :: "window_dict option list option \<Rightarrow> string list" where
  "mac_app_names windows =
     (case windows of None \<Rightarrow> [] | Some ws \<Rightarrow> remdups_adj (sort (map snd (window_owners ws))))"

lemma set_mac_app_names:
  "set (mac_app_names windows) = (case windows of None \<Rightarrow> {} | Some ws \<Rightarrow> snd ` set (window_owners ws))"
  by (simp add: mac_app_names_def split: option.splits)

lemma window_owners_named: "(pid, name) \<in> set (window_owners ws) \<Longrightarrow> pid \<noteq> 0 \<and> name \<noteq> []"
  by (induction ws) (auto simp: get_string_def split: option.splits if_splits)

section \<open>Windows\<close>

type_synonym utf16 = "u16 list"

definition utf16_to_string :: "(utf16 \<Rightarrow> string) \<Rightarrow> utf16 \<Rightarrow> string" where
  "utf16_to_string lossy data =
     lossy (take (case position (\<lambda>c. c = 0) data of Some i \<Rightarrow> i | None \<Rightarrow> length data) data)"

text \<open>
  The version resource of a file: for a sub-block, what is in the buffer from the returned pointer on, as
  16-bit units, and the returned length.
\<close>

type_synonym version_info = "string \<Rightarrow> (utf16 \<times> nat) option"

definition ver_query_u16_count :: "nat \<Rightarrow> bool \<Rightarrow> nat" where
  "ver_query_u16_count byte_len binary = (if binary then byte_len div 2 else byte_len)"

definition ver_query_value :: "version_info \<Rightarrow> string \<Rightarrow> bool \<Rightarrow> utf16 option" where
  "ver_query_value buffer sub_block binary =
     (case buffer sub_block of
        None \<Rightarrow> None
      | Some (mem, pu_len) \<Rightarrow> if pu_len = 0 then None else Some (take (ver_query_u16_count pu_len binary) mem))"

definition hex4 :: "u16 \<Rightarrow> string" where
  "hex4 w = map (\<lambda>i. hex_digit (unat (drop_bit (4 * i) w AND 0xF))) [3, 2, 1, 0]"

definition BACKSLASH :: string where "BACKSLASH = [CHR 0x5C]"

definition resolve_file_description_path :: "version_info \<Rightarrow> string option" where
  "resolve_file_description_path buffer =
     (case ver_query_value buffer (BACKSLASH @ ''VarFileInfo'' @ BACKSLASH @ ''Translation'') True of
        None \<Rightarrow> None
      | Some lang_data \<Rightarrow>
          if length lang_data < 2 then None
          else Some (BACKSLASH @ ''StringFileInfo'' @ BACKSLASH @ hex4 (lang_data ! 0) @ hex4 (lang_data ! 1)
                     @ BACKSLASH @ ''FileDescription''))"

definition described :: "(utf16 \<Rightarrow> string) \<Rightarrow> version_info \<Rightarrow> string \<Rightarrow> string option" where
  "described lossy buffer sub_block =
     (case ver_query_value buffer sub_block False of
        None \<Rightarrow> None
      | Some desc \<Rightarrow> (let s = utf16_to_string lossy desc in if s = [] then None else Some s))"

definition get_file_description :: "(utf16 \<Rightarrow> string) \<Rightarrow> version_info option \<Rightarrow> string option" where
  "get_file_description lossy info =
     (case info of
        None \<Rightarrow> None
      | Some buffer \<Rightarrow>
          (case described lossy buffer
                  (BACKSLASH @ ''StringFileInfo'' @ BACKSLASH @ ''040904b0'' @ BACKSLASH @ ''FileDescription'') of
             Some s \<Rightarrow> Some s
           | None \<Rightarrow> Option.bind (resolve_file_description_path buffer) (described lossy buffer)))"

text \<open>
  The last component of a path with a drive letter; both separators count. Other prefixes (shares, devices)
  are not told apart.
\<close>

definition without_drive :: "string \<Rightarrow> string" where
  "without_drive s = (if length s \<ge> 2 \<and> s ! 1 = CHR '':'' then drop 2 s else s)"

definition win_file_name :: "string \<Rightarrow> string" where
  "win_file_name path =
     (case text_file_name (map (\<lambda>c. if c = CHR 0x5C then CHR ''/'' else c) (without_drive path)) of
        Some name \<Rightarrow> name | None \<Rightarrow> [])"

text \<open>
  A process that can be opened: what \<open>QueryFullProcessImageNameW\<close> leaves in a buffer of the given size, and the
  version resource of a file.
\<close>

type_synonym process_image = "nat \<Rightarrow> utf16 option"

definition get_process_image_path :: "(utf16 \<Rightarrow> string) \<Rightarrow> process_image option \<Rightarrow> string option" where
  "get_process_image_path lossy process =
     (case process of
        None \<Rightarrow> None
      | Some full_image \<Rightarrow>
          find_map (\<lambda>capacity. case full_image capacity of
              None \<Rightarrow> None
            | Some buffer \<Rightarrow>
                (let path = utf16_to_string lossy buffer in if path = [] then None else Some path))
            [1024, 32768])"

record win_apps =
  wa_lossy :: "utf16 \<Rightarrow> string"
  wa_process :: "u32 \<Rightarrow> process_image option"
  wa_version :: "string \<Rightarrow> version_info option"

definition app_identity_for_pid :: "win_apps \<Rightarrow> u32 \<Rightarrow> app_name option" where
  "app_identity_for_pid wa pid =
     (case get_process_image_path (wa_lossy wa) (wa_process wa pid) of
        None \<Rightarrow> None
      | Some image_path \<Rightarrow>
          (let name = win_file_name image_path
           in if name = [] then None
              else Some \<lparr>an_name = name,
                         an_display = (case get_file_description (wa_lossy wa) (wa_version wa image_path) of
                                         Some d \<Rightarrow> d | None \<Rightarrow> name)\<rparr>))"

text \<open>The foreground window, if it is valid, is given by the process id that is found for it.\<close>

definition win_active_app :: "win_apps \<Rightarrow> u32 option \<Rightarrow> string" where
  "win_active_app wa foreground =
     (case foreground of
        None \<Rightarrow> unknown_app
      | Some pid \<Rightarrow>
          if pid = 0 then unknown_app
          else (case app_identity_for_pid wa pid of Some entry \<Rightarrow> an_name entry | None \<Rightarrow> unknown_app))"

text \<open>A window that is enumerated; the rectangle, where it can be read, as left, top, right, bottom.\<close>

record top_window =
  tw_visible :: bool
  tw_rect :: "(u32 \<times> u32 \<times> u32 \<times> u32) option"
  tw_pid :: u32

definition has_area :: "top_window \<Rightarrow> bool" where
  "has_area w =
     (case tw_rect w of
        None \<Rightarrow> False
      | Some (x0, y0, x1, y1) \<Rightarrow> x1 - x0 \<noteq> 0 \<and> y1 - y0 \<noteq> 0)"

definition enum_windows_proc :: "top_window \<Rightarrow> u32 set \<Rightarrow> u32 set" where
  "enum_windows_proc w pids =
     (if tw_visible w \<and> has_area w \<and> tw_pid w \<noteq> 0 then insert (tw_pid w) pids else pids)"

text \<open>\<open>dedup_by\<close>: of neighbours with the same name the first stays.\<close>

fun dedup_names :: "app_name list \<Rightarrow> app_name list" where
  "dedup_names [] = []"
| "dedup_names [a] = [a]"
| "dedup_names (a # b # as) = (if an_name a = an_name b then dedup_names (a # as) else a # dedup_names (b # as))"

text \<open>\<open>order\<close> is the order in which the set of process ids is gone through.\<close>

definition win_app_names :: "win_apps \<Rightarrow> (u32 set \<Rightarrow> u32 list) \<Rightarrow> top_window list \<Rightarrow> app_name list" where
  "win_app_names wa order ws =
     dedup_names (sort_key an_name (List.map_filter (app_identity_for_pid wa) (order (fold enum_windows_proc ws {}))))"

lemma names_dedup_names: "map an_name (dedup_names as) = remdups_adj (map an_name as)"
  by (induction as rule: dedup_names.induct) auto

lemma set_fold_windows:
  "fold enum_windows_proc ws pids = pids \<union> {tw_pid w | w. w \<in> set ws \<and> tw_visible w \<and> has_area w \<and> tw_pid w \<noteq> 0}"
  by (induction ws arbitrary: pids) (auto simp: enum_windows_proc_def)

lemma names_win_app_names:
  assumes "\<And>S. finite S \<Longrightarrow> set (order S) = S"
  shows "an_name ` set (win_app_names wa order ws) =
           {an_name a | w a. w \<in> set ws \<and> tw_visible w \<and> has_area w \<and> tw_pid w \<noteq> 0 \<and>
                             app_identity_for_pid wa (tw_pid w) = Some a}"
proof -
  let ?pids = "fold enum_windows_proc ws {}"
  have "?pids \<subseteq> tw_pid ` set ws" by (auto simp: set_fold_windows)
  then have "set (order ?pids) = ?pids" by (intro assms) (rule finite_subset, auto)
  moreover have "an_name ` set (win_app_names wa order ws) =
    an_name ` set (List.map_filter (app_identity_for_pid wa) (order ?pids))"
    unfolding win_app_names_def set_map [symmetric] names_dedup_names by simp
  ultimately show ?thesis by (auto simp: set_map_filter set_fold_windows image_iff)
qed

lemma sorted_win_app_names: "sorted (map an_name (win_app_names wa order ws))"
  by (simp add: win_app_names_def names_dedup_names)

lemma distinct_win_app_names: "distinct (map an_name (win_app_names wa order ws))"
  by (simp add: win_app_names_def names_dedup_names distinct_remdups_adj)

text \<open>The length of a binary block is halved, so reading it stays inside a buffer of that many bytes.\<close>

lemma binary_block_in_bounds: "2 * ver_query_u16_count byte_len True \<le> byte_len"
  by (simp add: ver_query_u16_count_def)

lemma binary_block_read:
  assumes "buffer sub_block = Some (mem, byte_len)" "ver_query_value buffer sub_block True = Some vs"
  shows "2 * length vs \<le> byte_len"
  using assms by (auto simp: ver_query_value_def ver_query_u16_count_def split: if_splits)

lemma long_image_path:
  "get_process_image_path lossy (Some full_image) = Some path \<Longrightarrow>
     \<exists>capacity buffer. capacity \<in> {1024, 32768} \<and> full_image capacity = Some buffer \<and> path = utf16_to_string lossy buffer"
  by (auto simp: get_process_image_path_def Let_def split: option.splits if_splits)

section \<open>Active and listed names agree\<close>

text \<open>
  On macOS a window of the process \<open>p\<close> with the name \<open>n\<close> is on the screen. The system gives every window of a
  process the name of its application, and its process ids have 32 bits.
\<close>

definition mac_window :: "window_dict option list \<Rightarrow> u32 \<Rightarrow> string \<Rightarrow> bool" where
  "mac_window ws p n \<longleftrightarrow>
     (let pid = signed_take_bit 31 (ucast p) :: 64 word
      in pid \<noteq> 0 \<and> n \<noteq> [] \<and> (\<exists>d. Some d \<in> set ws \<and> wd_pid d = Some pid \<and> wd_name d = Some n))"

definition mac_screen :: "window_dict option list \<Rightarrow> bool" where
  "mac_screen ws \<longleftrightarrow>
     (\<forall>p n n'. mac_window ws p n \<and> mac_window ws p n' \<longrightarrow> n = n')
     \<and> (\<forall>d pid. Some d \<in> set ws \<and> wd_pid d = Some pid \<longrightarrow> (\<exists>p :: u32. pid = signed_take_bit 31 (ucast p)))"

text \<open>On Windows a window of the process is visible and has an area.\<close>

definition win_window :: "top_window list \<Rightarrow> u32 \<Rightarrow> bool" where
  "win_window ws pid \<longleftrightarrow> pid \<noteq> 0 \<and> (\<exists>w \<in> set ws. tw_visible w \<and> has_area w \<and> tw_pid w = pid)"

text \<open>On X11 the display can be asked, and the process of the active window is \<open>p\<close>.\<close>

definition x11_shows :: "x11_display \<Rightarrow> u32 \<Rightarrow> bool" where
  "x11_shows xd p \<longleftrightarrow> xd_connected xd \<and> nonzero (xd_active_atom xd) \<noteq> None \<and> nonzero (xd_pid_atom xd) \<noteq> None
     \<and> (\<exists>window. nonzero (xd_active_window xd) = Some window \<and> nonzero (xd_window_pid xd window) = Some p)"

lemma window_owners_iff:
  "(pid, n) \<in> set (window_owners ws) \<longleftrightarrow>
     pid \<noteq> 0 \<and> n \<noteq> [] \<and> (\<exists>d. Some d \<in> set ws \<and> wd_pid d = Some pid \<and> wd_name d = Some n)"
proof (induction ws)
  case (Cons w ws)
  show ?case
  proof (cases w)
    case (Some d)
    have "(pid, n) \<in> set (window_owners (w # ws)) \<longleftrightarrow>
        (pid \<noteq> 0 \<and> n \<noteq> [] \<and> wd_pid d = Some pid \<and> wd_name d = Some n) \<or> (pid, n) \<in> set (window_owners ws)"
      using Some by (auto simp: get_string_def split: option.split)
    then show ?thesis using Cons Some by auto
  qed (use Cons in simp)
qed simp

lemma mac_window_owner:
  "mac_window ws p n \<longleftrightarrow> (signed_take_bit 31 (ucast p), n) \<in> set (window_owners ws)"
  by (simp add: mac_window_def window_owners_iff Let_def)

lemma find_some: "x \<in> set xs \<Longrightarrow> P x \<Longrightarrow> \<exists>y. find P xs = Some y \<and> y \<in> set xs \<and> P y"
  by (induction xs) auto

lemma mac_active_window:
  assumes "mac_screen ws" "mac_window ws p n" shows "mac_active_app (Some p) (Some ws) = n"
proof -
  let ?pid = "signed_take_bit 31 (ucast p) :: 64 word"
  obtain n' where f: "find (\<lambda>w. fst w = ?pid) (window_owners ws) = Some (?pid, n')" "(?pid, n') \<in> set (window_owners ws)"
    using find_some [of "(?pid, n)" "window_owners ws" "\<lambda>w. fst w = ?pid"] assms(2) by (auto simp: mac_window_owner)
  then have "n' = n" using assms by (auto simp: mac_screen_def mac_window_owner)
  moreover have "?pid \<noteq> 0" using assms(2) by (simp add: mac_window_def Let_def)
  ultimately show ?thesis using f(1) by (simp add: mac_active_app_def Let_def)
qed

lemma mac_active_none:
  assumes "\<nexists>n. mac_window ws p n" shows "mac_active_app (Some p) (Some ws) = unknown_app"
proof -
  have "find (\<lambda>w. fst w = signed_take_bit 31 (ucast p)) (window_owners ws) = None"
    using assms by (auto simp: mac_window_owner find_None_iff)
  then show ?thesis by (simp add: mac_active_app_def Let_def)
qed

lemma mac_listed:
  assumes "mac_screen ws" shows "set (mac_app_names (Some ws)) = {n. \<exists>p. mac_window ws p n}"
proof -
  have "\<exists>p. mac_window ws p n" if o: "(pid, n) \<in> set (window_owners ws)" for pid n
  proof -
    obtain p :: u32 where "pid = signed_take_bit 31 (ucast p)"
      using assms o unfolding mac_screen_def window_owners_iff by metis
    with o show ?thesis by (auto simp: mac_window_owner)
  qed
  then show ?thesis by (force simp: set_mac_app_names mac_window_owner)
qed

lemma win_active_window:
  "win_window ws pid \<Longrightarrow> win_active_app wa (Some pid) =
     (case app_identity_for_pid wa pid of Some a \<Rightarrow> an_name a | None \<Rightarrow> unknown_app)"
  by (simp add: win_window_def win_active_app_def)

lemma win_listed:
  assumes "\<And>S. finite S \<Longrightarrow> set (order S) = S"
  shows "an_name ` set (win_app_names wa order ws) =
    {win_active_app wa (Some pid) | pid. win_window ws pid \<and> app_identity_for_pid wa pid \<noteq> None}"
proof -
  have "an_name ` set (win_app_names wa order ws) =
      {an_name a | w a. w \<in> set ws \<and> tw_visible w \<and> has_area w \<and> tw_pid w \<noteq> 0 \<and>
        app_identity_for_pid wa (tw_pid w) = Some a}"
    by (rule names_win_app_names) (rule assms)
  also have "\<dots> = {win_active_app wa (Some pid) | pid. win_window ws pid \<and> app_identity_for_pid wa pid \<noteq> None}"
    by (force simp: win_window_def win_active_app_def)
  finally show ?thesis .
qed

lemma x11_active_process:
  "x11_shows xd p \<Longrightarrow> proc_owner_is_self uid (procs p) \<Longrightarrow> x11_active_app lossy dk uid procs xd =
     (case resolve_process_app_id lossy dk (procs p) of Some i \<Rightarrow> i | None \<Rightarrow> unknown_app)"
  by (auto simp: x11_shows_def x11_active_app_def)

text \<open>
  C35. A rule can be scoped to every application that can become active, and what is listed are these applications.
  On macOS, where a process has a window on the screen with a name, the daemon reports just this name when the
  process is in front, \<open>unknown\<close> if it has none, and the listed names are just these names. On Windows the listed names
  are just those reported for the processes of the visible windows with an area whose image can be found. On X11 a
  process of the user that the active window names is reported by the name that is listed for it, if it has
  a display in its environment, and every listed name of such a process is so reported.
\<close>
theorem active_app_name_is_listed:
  assumes "mac_screen mac_ws" and "\<And>S. finite S \<Longrightarrow> set (order S) = S"
    and "\<forall>q \<in> set ps. is_gui_process q \<longrightarrow> proc_owner_is_self uid q \<and> (\<exists>p. procs p = q \<and> x11_shows (display p) p)"
  shows "(\<forall>p n. mac_window mac_ws p n \<longrightarrow> mac_active_app (Some p) (Some mac_ws) = n)
    \<and> (\<forall>p. (\<nexists>n. mac_window mac_ws p n) \<longrightarrow> mac_active_app (Some p) (Some mac_ws) = unknown_app)
    \<and> set (mac_app_names (Some mac_ws)) = {n. \<exists>p. mac_window mac_ws p n}
    \<and> an_name ` set (win_app_names wa order win_ws) =
        {win_active_app wa (Some pid) | pid. win_window win_ws pid \<and> app_identity_for_pid wa pid \<noteq> None}
    \<and> set (linux_app_names lossy dk ps) =
        {x11_active_app lossy dk uid procs (display p) | p. x11_shows (display p) p \<and> procs p \<in> set ps
           \<and> is_gui_process (procs p) \<and> resolve_process_app_id lossy dk (procs p) \<noteq> None}"
proof -
  have "set (linux_app_names lossy dk ps) = {i. \<exists>q \<in> set ps. is_gui_process q \<and> resolve_process_app_id lossy dk q = Some i}"
    by (auto simp: set_linux_app_names)
  also have "\<dots> = {x11_active_app lossy dk uid procs (display p) | p. x11_shows (display p) p \<and> procs p \<in> set ps
           \<and> is_gui_process (procs p) \<and> resolve_process_app_id lossy dk (procs p) \<noteq> None}" (is "?L = ?R")
  proof (rule set_eqI, rule iffI)
    fix i assume "i \<in> ?L"
    then obtain q where q: "q \<in> set ps" "is_gui_process q" "resolve_process_app_id lossy dk q = Some i" by blast
    then obtain p where p: "procs p = q" "x11_shows (display p) p" "proc_owner_is_self uid q" using assms(3) by blast
    then have "x11_active_app lossy dk uid procs (display p) = i"
      using x11_active_process [of "display p" p uid procs lossy dk] q(3) by simp
    then show "i \<in> ?R" using p q by blast
  next
    fix i assume "i \<in> ?R"
    then obtain p j where p: "i = x11_active_app lossy dk uid procs (display p)" "x11_shows (display p) p" "procs p \<in> set ps"
      "is_gui_process (procs p)" "resolve_process_app_id lossy dk (procs p) = Some j" by blast
    then have "i = j" using x11_active_process [of "display p" p uid procs lossy dk] assms(3) by simp
    then show "i \<in> ?L" using p by blast
  qed
  finally have x11: "set (linux_app_names lossy dk ps) = \<dots>" .
  have win: "an_name ` set (win_app_names wa order win_ws) =
      {win_active_app wa (Some pid) | pid. win_window win_ws pid \<and> app_identity_for_pid wa pid \<noteq> None}"
    by (rule win_listed) (rule assms(2))
  show ?thesis
    by (intro conjI allI impI mac_active_window [OF assms(1)] mac_active_none mac_listed [OF assms(1)] win x11)
qed

text \<open>A Windows process 7 running \<open>a.exe\<close>, and a Linux process 9 with a display running \<open>b\<close>.\<close>

definition demo_apps :: win_apps where
  "demo_apps = \<lparr>wa_lossy = (\<lambda>u. if u = [67, 58, 92, 97, 46, 101, 120, 101] then ''C:'' @ [CHR 0x5C] @ ''a.exe'' else []),
     wa_process = (\<lambda>pid. if pid = 7 then Some (\<lambda>capacity. Some [67, 58, 92, 97, 46, 101, 120, 101, 0]) else None),
     wa_version = (\<lambda>path. None)\<rparr>"

definition demo_window :: top_window where
  "demo_window = \<lparr>tw_visible = True, tw_rect = Some (0, 0, 640, 480), tw_pid = 7\<rparr>"

definition demo_process :: proc_info where
  "demo_process = \<lparr>pi_exe = Some ''/usr/bin/b'', pi_cmdline = None, pi_environ = Some (str_bytes ''DISPLAY=:0''), pi_owner = Some 1000\<rparr>"

definition demo_display :: x11_display where
  "demo_display = \<lparr>xd_connected = True, xd_active_atom = Some 1, xd_active_window = Some 2, xd_pid_atom = Some 3,
     xd_window_pid = (\<lambda>window. Some 9)\<rparr>"

definition demo_tables :: desktop_tables where
  "demo_tables = \<lparr>dk_cache = [''b'' \<mapsto> ''org.b''], dk_roots = []\<rparr>"

definition demo_dict :: window_dict where
  "demo_dict = \<lparr>wd_pid = Some 5, wd_name = Some ''Finder''\<rparr>"

lemma demo_pid: "signed_take_bit 31 (ucast (5 :: u32)) = (5 :: 64 word)"
  by code_simp

lemma demo_mac: "mac_active_app (Some 5) (Some [Some demo_dict]) = ''Finder''"
  by (simp only: mac_active_app_def demo_pid Let_def option.case) (simp add: demo_dict_def get_string_def)

lemma demo_image: "get_process_image_path (wa_lossy demo_apps) (wa_process demo_apps 7) = Some (''C:'' @ BACKSLASH @ ''a.exe'')"
  by (simp add: get_process_image_path_def demo_apps_def utf16_to_string_def BACKSLASH_def)

lemma demo_name: "win_file_name (''C:'' @ BACKSLASH @ ''a.exe'') = ''a.exe''"
  by (simp add: win_file_name_def without_drive_def text_file_name_def segments_def BACKSLASH_def)

lemma demo_win: "win_active_app demo_apps (Some 7) = ''a.exe''"
  by (simp add: win_active_app_def app_identity_for_pid_def demo_image demo_name Let_def del: append.simps)

lemma demo_gui: "is_gui_process demo_process"
  by (simp add: is_gui_process_display demo_process_def has_window_iff)
    (metis append_Nil str_bytes_append append_Cons)

lemma demo_x11: "x11_active_app bytes_str demo_tables 1000 (\<lambda>pid. demo_process) demo_display = ''org.b''"
  by (simp add: x11_active_app_def demo_display_def demo_process_def demo_tables_def nonzero_def proc_owner_is_self_def
      resolve_process_app_id_def resolve_exe_name_def resolve_app_id_def file_stem_def text_file_name_def segments_def
      split_at_dot_def)

lemma demo_screen: "mac_screen [Some demo_dict]"
  by (auto simp: mac_screen_def mac_window_def demo_dict_def Let_def intro: exI [of _ 5] demo_pid [symmetric])

lemma demo_shows: "x11_shows demo_display p \<longleftrightarrow> p = 9"
  by (auto simp: x11_shows_def demo_display_def nonzero_def)

theorem active_app_name_is_listed_witness:
  "mac_active_app (Some 5) (Some [Some demo_dict]) = ''Finder''
   \<and> ''a.exe'' \<in> an_name ` set (win_app_names demo_apps sorted_list_of_set [demo_window])
   \<and> ''org.b'' \<in> set (linux_app_names bytes_str demo_tables [demo_process])"
proof -
  note t = active_app_name_is_listed [OF demo_screen, of sorted_list_of_set "[demo_process]" 1000 "\<lambda>_. demo_process"
      "\<lambda>_. demo_display" demo_apps "[demo_window]" bytes_str demo_tables]
  have own: "proc_owner_is_self 1000 demo_process" by (simp add: proc_owner_is_self_def demo_process_def)
  have mac: "mac_window [Some demo_dict] 5 ''Finder''"
    using demo_pid by (simp add: mac_window_def demo_dict_def Let_def)
  have win: "win_window [demo_window] 7" "app_identity_for_pid demo_apps 7 \<noteq> None"
    by (simp_all add: win_window_def demo_window_def has_area_def app_identity_for_pid_def demo_image demo_name Let_def
        del: append.simps)
  have x11: "resolve_process_app_id bytes_str demo_tables demo_process \<noteq> None"
    by (simp add: demo_process_def demo_tables_def resolve_process_app_id_def resolve_exe_name_def resolve_app_id_def
        file_stem_def text_file_name_def segments_def split_at_dot_def)
  show ?thesis
    using t mac win x11 own demo_win demo_x11 demo_gui demo_shows by (simp; metis)
qed

end
