(* ===== verification/Endpoint_Windows.thy ===== *)
theory Endpoint_Windows
  imports Rate_Limit Utf8
begin

text \<open>
  The control endpoint of Windows, \<open>src/platform/endpoint/windows.rs\<close>: the name of the pipe and the file that
  publishes it, the creation of the pipe, reads and writes with a bounded wait, the serve loop, and the
  client. What each system call answers is a parameter; a file is given by what others may see of it.
\<close>

section \<open>Constants\<close>

definition PIPE_PREFIX :: string where
  "PIPE_PREFIX = [CHR 0x5C, CHR 0x5C] @ ''.'' @ [CHR 0x5C] @ ''pipe'' @ [CHR 0x5C] @ ''keymapperd-''"

definition NONCE_BYTES :: nat where "NONCE_BYTES = 16"
definition NONCE_HEX_LEN :: nat where "NONCE_HEX_LEN = 2 * NONCE_BYTES"
definition CLIENT_CLOSE_TIMEOUT :: nat where "CLIENT_CLOSE_TIMEOUT = 30000"
definition IO_TIMEOUT :: nat where "IO_TIMEOUT = 10000"
definition BUSY_RETRY_ATTEMPTS :: nat where "BUSY_RETRY_ATTEMPTS = 20"
definition PIPE_RATE_WINDOW :: nat where "PIPE_RATE_WINDOW = 1000"
definition PIPE_RATE_THRESHOLD :: nat where "PIPE_RATE_THRESHOLD = 10"

text \<open>Error codes of Windows.\<close>

definition ERROR_FILE_NOT_FOUND :: nat where "ERROR_FILE_NOT_FOUND = 2"
definition ERROR_ACCESS_DENIED :: nat where "ERROR_ACCESS_DENIED = 5"
definition ERROR_BROKEN_PIPE :: nat where "ERROR_BROKEN_PIPE = 109"
definition ERROR_PIPE_BUSY :: nat where "ERROR_PIPE_BUSY = 231"
definition ERROR_PIPE_CONNECTED :: nat where "ERROR_PIPE_CONNECTED = 535"
definition ERROR_IO_PENDING :: nat where "ERROR_IO_PENDING = 997"

section \<open>The name of the pipe\<close>

definition contains_control_chars :: "string \<Rightarrow> bool" where
  "contains_control_chars s \<longleftrightarrow> list_ex (\<lambda>c. (of_char c :: nat) < 0x20 \<or> (of_char c :: nat) = 0x7F) s"

definition is_valid_pipe_name :: "string \<Rightarrow> bool" where
  "is_valid_pipe_name name \<longleftrightarrow>
     (if take (length PIPE_PREFIX) name = PIPE_PREFIX then
        (let nonce = drop (length PIPE_PREFIX) name
         in \<not> contains_control_chars nonce \<and> length nonce = NONCE_HEX_LEN \<and> list_all is_ascii_hexdigit nonce)
      else False)"

definition hex2 :: "u8 \<Rightarrow> string" where
  "hex2 b = [hex_digit (unat b div 16), hex_digit (unat b mod 16)]"

text \<open>\<open>None\<close> stands for a random generator that fails.\<close>

definition pipe_name :: "bytes option \<Rightarrow> string option" where
  "pipe_name prng = (case prng of None \<Rightarrow> None | Some nonce \<Rightarrow> Some (PIPE_PREFIX @ concat (map hex2 nonce)))"

section \<open>The file that publishes it\<close>

text \<open>What is at the path: nothing, or a file with its content that only the owner can open or that others can, too.\<close>

record pub_file =
  pf_owner_only :: bool
  pf_content :: string

type_synonym pub_path = "pub_file option"

definition is_reparse_point :: "u32 \<Rightarrow> bool" where
  "is_reparse_point attrs = (if attrs = 0xFFFFFFFF then False else attrs AND 0x400 \<noteq> 0)"

text \<open>
  What the calls of one publication meet: the user's SID, the directory, the attributes of the path, the
  removal, what another process puts at the path in between, the creation, the code of the access list, the
  write (\<open>Some n\<close> for a failure after \<open>n\<close> bytes), and the removal after a failure.
\<close>

record publish_env =
  pe_sid :: bool
  pe_dir :: bool
  pe_attrs :: u32
  pe_remove :: bool
  pe_planted :: pub_path
  pe_create :: bool
  pe_dacl :: u32
  pe_write :: "nat option"
  pe_remove_again :: bool

datatype publish_error = PubNoSid | PubNoDir | PubReparse | PubCannotCreate | PubDacl u32 | PubCannotWrite

text \<open>The result, and what is at the path after each step.\<close>

definition publish_name :: "publish_env \<Rightarrow> string \<Rightarrow> pub_path \<Rightarrow> (publish_error + unit) \<times> pub_path list" where
  "publish_name env name found =
     (if \<not> pe_sid env then (Inl PubNoSid, [found])
      else if \<not> pe_dir env then (Inl PubNoDir, [found])
      else if is_reparse_point (pe_attrs env) then (Inl PubReparse, [found])
      else
        (let removed = (if pe_remove env then None else found);
             at_open = (case pe_planted env of Some f \<Rightarrow> Some f | None \<Rightarrow> removed)
         in if at_open \<noteq> None \<or> \<not> pe_create env then (Inl PubCannotCreate, [found, removed, at_open])
            else
              (let fresh = Some \<lparr>pf_owner_only = False, pf_content = []\<rparr>;
                   hardened = Some \<lparr>pf_owner_only = True, pf_content = []\<rparr>
               in if pe_dacl env \<noteq> 0
                  then (Inl (PubDacl (pe_dacl env)),
                        [found, removed, fresh, if pe_remove_again env then None else fresh])
                  else
                    (case pe_write env of
                       Some n \<Rightarrow>
                         (Inl PubCannotWrite,
                          [found, removed, fresh, hardened, Some \<lparr>pf_owner_only = True, pf_content = take n name\<rparr>])
                     | None \<Rightarrow>
                         (Inr (),
                          [found, removed, fresh, hardened, Some \<lparr>pf_owner_only = True, pf_content = name\<rparr>])))))"

definition resolve_published_name :: "string option \<Rightarrow> string option" where
  "resolve_published_name content =
     (case content of
        None \<Rightarrow> None
      | Some text \<Rightarrow>
          (let name = trim text
           in if name = [] \<or> contains_control_chars name then None
              else if is_valid_pipe_name name then Some name else None))"

text \<open>The handler of the console: \<open>registered\<close> says whether a path was registered; 2 is \<open>CTRL_CLOSE_EVENT\<close>.\<close>

definition cleanup_publish_file :: "nat \<Rightarrow> bool \<Rightarrow> bool \<Rightarrow> pub_path \<Rightarrow> pub_path" where
  "cleanup_publish_file ctrl_type registered remove_ok found =
     (if ctrl_type = 2 \<and> registered \<and> remove_ok then None else found)"

section \<open>Creating the pipe\<close>

text \<open>Each attempt gives a handle that is valid or not, and the last error. The result has the number of attempts.\<close>

function create_pipe :: "(nat \<Rightarrow> bool \<times> nat) \<Rightarrow> nat \<Rightarrow> bool \<times> nat \<times> nat" where
  "create_pipe tries attempts =
     (let (valid, code) = tries attempts
      in if valid \<or> (code \<noteq> ERROR_PIPE_BUSY \<and> code \<noteq> ERROR_ACCESS_DENIED) \<or> attempts + 1 \<ge> BUSY_RETRY_ATTEMPTS
         then (valid, code, attempts + 1)
         else create_pipe tries (attempts + 1))"
  by pat_completeness auto

termination create_pipe
  by (relation "measure (\<lambda>(_, attempts). BUSY_RETRY_ATTEMPTS - attempts)") auto

declare create_pipe.simps [simp del]

text \<open>The pipe afterwards: none, closed again, or open with the owner's access list, served or not.\<close>

datatype pipe_state = PipeNone | PipeClosed | PipeOpen bool

record start_env =
  se_sid :: bool
  se_tries :: "nat \<Rightarrow> bool \<times> nat"
  se_dacl :: u32
  se_spawned :: bool

definition start_with_name :: "start_env \<Rightarrow> bool \<times> pipe_state" where
  "start_with_name env =
     (if \<not> se_sid env then (False, PipeNone)
      else
        (let (valid, code, attempts) = create_pipe (se_tries env) 0
         in if \<not> valid then (False, PipeNone)
            else if se_dacl env \<noteq> 0 then (False, PipeClosed)
            else (se_spawned env, PipeOpen (se_spawned env))))"

text \<open>\<open>Endpoint::start\<close>: the pipe, and what is at the publish path, if there is one, at each step.\<close>

definition windows_start ::
  "bytes option \<Rightarrow> start_env \<Rightarrow> publish_env option \<Rightarrow> pub_path \<Rightarrow> pipe_state \<times> pub_path list" where
  "windows_start prng env publish found =
     (case pipe_name prng of
        None \<Rightarrow> (PipeNone, [found])
      | Some name \<Rightarrow>
          (case start_with_name env of
             (live, pipe) \<Rightarrow>
               if \<not> live then (pipe, [found])
               else
                 (case publish of
                    None \<Rightarrow> (pipe, [found])
                  | Some penv \<Rightarrow> (pipe, snd (publish_name penv name found)))))"

section \<open>Reading and writing\<close>

datatype win_error = OsErr nat | TimedOutErr

text \<open>
  A wait ends with the request's result (an error code or the bytes transferred), at the time limit, or with a failure;
  in the last two cases the request is cancelled and the last error is given.
\<close>

datatype wait_outcome = Signalled "nat + nat" | WaitTimedOut nat | WaitFailed nat

text \<open>The result, and the last error where it failed.\<close>

definition wait_overlapped :: "wait_outcome \<Rightarrow> win_error \<times> nat + nat" where
  "wait_overlapped w =
     (case w of
        Signalled (Inr transferred) \<Rightarrow> Inr transferred
      | Signalled (Inl code) \<Rightarrow> Inl (OsErr code, code)
      | WaitTimedOut last_error \<Rightarrow> Inl (TimedOutErr, last_error)
      | WaitFailed last_error \<Rightarrow> Inl (OsErr last_error, last_error))"

datatype issue = Issued | IssueFailed nat

definition pipe_read :: "nat \<Rightarrow> issue \<Rightarrow> wait_outcome \<Rightarrow> win_error + nat" where
  "pipe_read buf_len issue w =
     (let await = (case wait_overlapped w of
                     Inr n \<Rightarrow> Inr n
                   | Inl (e, last_error) \<Rightarrow> if last_error = ERROR_BROKEN_PIPE then Inr 0 else Inl e)
      in if buf_len = 0 then Inr 0
         else
           (case issue of
              Issued \<Rightarrow> await
            | IssueFailed code \<Rightarrow>
                if code = ERROR_IO_PENDING then await
                else if code = ERROR_BROKEN_PIPE then Inr 0
                else Inl (OsErr code)))"

definition pipe_write :: "nat \<Rightarrow> issue \<Rightarrow> wait_outcome \<Rightarrow> win_error + nat" where
  "pipe_write buf_len issue w =
     (let await = (case wait_overlapped w of Inr n \<Rightarrow> Inr n | Inl (e, _) \<Rightarrow> Inl e)
      in if buf_len = 0 then Inr 0
         else
           (case issue of
              Issued \<Rightarrow> await
            | IssueFailed code \<Rightarrow> if code = ERROR_IO_PENDING then await else Inl (OsErr code)))"

text \<open>The client's end has no overlapped requests.\<close>

definition client_read :: "nat \<Rightarrow> nat + nat \<Rightarrow> win_error + nat" where
  "client_read buf_len result =
     (if buf_len = 0 then Inr 0
      else
        (case result of
           Inr n \<Rightarrow> Inr n
         | Inl code \<Rightarrow> if code = ERROR_BROKEN_PIPE then Inr 0 else Inl (OsErr code)))"

definition client_write :: "nat \<Rightarrow> nat + nat \<Rightarrow> win_error + nat" where
  "client_write buf_len result =
     (if buf_len = 0 then Inr 0 else (case result of Inr n \<Rightarrow> Inr n | Inl code \<Rightarrow> Inl (OsErr code)))"

section \<open>Serving\<close>

definition accept_client :: "issue \<Rightarrow> wait_outcome \<Rightarrow> bool" where
  "accept_client issue w =
     (case issue of
        Issued \<Rightarrow> True
      | IssueFailed code \<Rightarrow>
          code = ERROR_PIPE_CONNECTED \<or>
          code = ERROR_IO_PENDING \<and> (case wait_overlapped w of Inr _ \<Rightarrow> True | Inl _ \<Rightarrow> False))"

definition client_pid :: "u32 option \<Rightarrow> u32 option" where
  "client_pid lookup = (case lookup of Some pid \<Rightarrow> if pid \<noteq> 0 then Some pid else None | None \<Rightarrow> None)"

text \<open>
  Waiting for the client to close: the reads with the times at which they end. The result is the time at
  which the wait ends. A list that is used up stands for a read that is still pending.
\<close>

fun close_wait :: "nat \<Rightarrow> ((win_error + nat) \<times> nat) list \<Rightarrow> nat \<Rightarrow> nat" where
  "close_wait deadline [] now = now"
| "close_wait deadline ((result, t) # reads) now =
     (case result of
        Inr (Suc _) \<Rightarrow> if t \<ge> deadline then t else close_wait deadline reads t
      | _ \<Rightarrow> t)"

definition wait_for_client_close :: "((win_error + nat) \<times> nat) list \<Rightarrow> nat \<Rightarrow> nat" where
  "wait_for_client_close reads now = close_wait (now + CLIENT_CLOSE_TIMEOUT) reads now"

text \<open>
  One round of the loop: the accept, the lookup of the client's process, the time, and the connection as
  the handler sees it. What happens to the connection is listed.
\<close>

record 'c pipe_round =
  pr_issue :: issue
  pr_wait :: wait_outcome
  pr_pid :: "u32 option"
  pr_now :: nat
  pr_conn :: 'c

datatype pipe_act = ActHandled u32 nat | ActRejected u32 nat | ActAwaitClose | ActDisconnect

definition serve_pipe_round ::
  "('c \<Rightarrow> 's \<Rightarrow> bool \<times> 's) \<Rightarrow> 'c pipe_round \<Rightarrow> rate_limiter \<times> 's \<Rightarrow> pipe_act list \<times> rate_limiter \<times> 's" where
  "serve_pipe_round handler r = (\<lambda>(limiter, s).
     if \<not> accept_client (pr_issue r) (pr_wait r) then ([ActDisconnect], limiter, s)
     else
       (let bucket = (case client_pid (pr_pid r) of Some pid \<Rightarrow> pid | None \<Rightarrow> 0);
            (ok, limiter1) = check_and_record bucket (pr_now r) limiter
        in if \<not> ok then ([ActRejected bucket (pr_now r), ActDisconnect], limiter1, s)
           else
             (let (completed, s1) = handler (pr_conn r) s
              in (ActHandled bucket (pr_now r) # (if completed then [ActAwaitClose] else []) @ [ActDisconnect], limiter1, s1))))"

fun serve_pipe ::
  "('c \<Rightarrow> 's \<Rightarrow> bool \<times> 's) \<Rightarrow> 'c pipe_round list \<Rightarrow> rate_limiter \<times> 's \<Rightarrow> pipe_act list \<times> rate_limiter \<times> 's" where
  "serve_pipe handler [] st = ([], st)"
| "serve_pipe handler (r # rs) st =
     (let (acts, st1) = serve_pipe_round handler r st; (acts', st2) = serve_pipe handler rs st1 in (acts @ acts', st2))"

text \<open>The loop runs only if its event can be created.\<close>

definition serve_windows :: "bool \<Rightarrow> ('c \<Rightarrow> 's \<Rightarrow> bool \<times> 's) \<Rightarrow> 'c pipe_round list \<Rightarrow> 's \<Rightarrow> pipe_act list \<times> 's" where
  "serve_windows event_created handler rs s =
     (if \<not> event_created then ([], s)
      else (case serve_pipe handler rs (rate_limiter_new PIPE_RATE_WINDOW PIPE_RATE_THRESHOLD, s) of
              (acts, _, s1) \<Rightarrow> (acts, s1)))"

section \<open>The client\<close>

text \<open>Opening the pipe: each attempt gives a handle or an error code.\<close>

fun connect_attempts :: "(nat + 'h) list \<Rightarrow> nat option \<Rightarrow> nat + 'h" where
  "connect_attempts [] last_busy = Inl (the last_busy)"
| "connect_attempts (opened # rest) last_busy =
     (case opened of
        Inr h \<Rightarrow> Inr h
      | Inl code \<Rightarrow> if code = ERROR_PIPE_BUSY then connect_attempts rest (Some code) else Inl code)"

definition connect_to :: "(nat \<Rightarrow> nat + 'h) \<Rightarrow> nat + 'h" where
  "connect_to opens = connect_attempts (map opens [0..<BUSY_RETRY_ATTEMPTS]) None"

datatype pipe_connect_error = NoEndpoint | ConnectOs nat

definition windows_connect ::
  "bool \<Rightarrow> string option \<Rightarrow> (string \<Rightarrow> nat \<Rightarrow> nat + 'h) \<Rightarrow> pipe_connect_error + 'h" where
  "windows_connect has_dir content opens =
     (if \<not> has_dir then Inl NoEndpoint
      else
        (case resolve_published_name content of
           None \<Rightarrow> Inl NoEndpoint
         | Some name \<Rightarrow> (case connect_to (opens name) of Inl code \<Rightarrow> Inl (ConnectOs code) | Inr h \<Rightarrow> Inr h)))"

text \<open>\<open>not_found\<close> says which codes Rust gives the kind \<open>NotFound\<close>, \<open>message\<close> the text of the others.\<close>

definition windows_connect_error :: "(nat \<Rightarrow> bool) \<Rightarrow> (nat \<Rightarrow> string) \<Rightarrow> pipe_connect_error \<Rightarrow> string" where
  "windows_connect_error not_found message e =
     (case e of
        NoEndpoint \<Rightarrow> ''no daemon is running (it published no control endpoint)''
      | ConnectOs code \<Rightarrow>
          if code = ERROR_FILE_NOT_FOUND then ''no daemon is running (or it published no control endpoint)''
          else if code = ERROR_PIPE_BUSY then ''the daemon control pipe is busy; try again''
          else if not_found code then ''no daemon is running (it published no control endpoint)''
          else message code)"

section \<open>Names\<close>

lemma of_char_hex_digit: "n < 16 \<Longrightarrow> (of_char (hex_digit n) :: nat) = (if n < 10 then 48 + n else 87 + n)"
  by (simp add: hex_digit_def)

lemma hex_digit_hexdigit: "n < 16 \<Longrightarrow> is_ascii_hexdigit (hex_digit n)"
  by (auto simp: is_ascii_hexdigit_def of_char_hex_digit)

lemma hexdigit_plain: "is_ascii_hexdigit c \<Longrightarrow> plain_char c"
  by (auto simp: is_ascii_hexdigit_def plain_char_def Let_def)

lemma plain_no_control: "list_all plain_char s \<Longrightarrow> \<not> contains_control_chars s"
  by (auto simp: contains_control_chars_def list_ex_iff list_all_iff plain_char_def)

lemma trim_Nil: "trim [] = []"
proof -
  have "strip_prefixes encs [] = []" for encs
    using prefix_len_le [of encs "[]"] by (subst strip_prefixes.simps) simp
  then show ?thesis by (simp add: trim_def trim_start_def trim_end_def)
qed

lemma trim_all_plain: "list_all plain_char s \<Longrightarrow> trim s = s"
proof (cases "s = []")
  case False
  then show "list_all plain_char s \<Longrightarrow> trim s = s"
    by (intro trim_plain) (auto simp: list_all_iff)
qed (simp add: trim_Nil)

lemma unat_u8: "unat (b :: u8) < 256"
  by (rule order_less_le_trans [OF unsigned_less]) simp

lemma hex2_hexdigits: "list_all is_ascii_hexdigit (hex2 b)"
  using unat_u8 [of b] by (simp add: hex2_def hex_digit_hexdigit less_mult_imp_div_less)

lemma hex_bytes_hexdigits: "list_all is_ascii_hexdigit (concat (map hex2 bs))"
  by (induction bs) (simp_all add: hex2_hexdigits)

lemma length_hex_bytes: "length (concat (map hex2 bs)) = 2 * length bs"
  by (induction bs) (simp_all add: hex2_def)

lemma hex_digit_inj: "m < 16 \<Longrightarrow> n < 16 \<Longrightarrow> hex_digit m = hex_digit n \<Longrightarrow> m = n"
proof -
  assume "m < 16" "n < 16" "hex_digit m = hex_digit n"
  then have "(if m < 10 then 48 + m else 87 + m) = (if n < 10 then 48 + n else 87 + n)"
    by (metis of_char_hex_digit)
  with \<open>m < 16\<close> \<open>n < 16\<close> show "m = n" by (cases "m < 10"; cases "n < 10") simp_all
qed

lemma hex2_inj: "hex2 a = hex2 b \<Longrightarrow> a = b"
proof -
  assume "hex2 a = hex2 b"
  then have "unat a div 16 = unat b div 16" "unat a mod 16 = unat b mod 16"
    using unat_u8 [of a] unat_u8 [of b]
    by (auto simp: hex2_def less_mult_imp_div_less intro: hex_digit_inj)
  then have "unat a = unat b" by (metis mult_div_mod_eq)
  then show "a = b" by (simp add: word_unat_eq_iff)
qed

lemma hex_bytes_inj: "concat (map hex2 as) = concat (map hex2 bs) \<Longrightarrow> as = bs"
proof (induction as arbitrary: bs)
  case Nil
  then show ?case by (cases bs) (simp_all add: hex2_def)
next
  case (Cons a as)
  then show ?case by (cases bs) (auto simp: hex2_def intro: hex2_inj [unfolded hex2_def])
qed

lemma pipe_prefix_plain: "list_all plain_char PIPE_PREFIX"
  unfolding PIPE_PREFIX_def plain_char_def by code_simp

text \<open>A name that passes the check is the prefix with 32 hexadecimal digits, and nothing else passes.\<close>

lemma is_valid_pipe_name_iff:
  "is_valid_pipe_name name \<longleftrightarrow>
     (\<exists>nonce. name = PIPE_PREFIX @ nonce \<and> length nonce = NONCE_HEX_LEN \<and> list_all is_ascii_hexdigit nonce)"
proof
  assume v: "is_valid_pipe_name name"
  then have "name = PIPE_PREFIX @ drop (length PIPE_PREFIX) name"
    by (metis append_take_drop_id is_valid_pipe_name_def)
  with v show "\<exists>nonce. name = PIPE_PREFIX @ nonce \<and> length nonce = NONCE_HEX_LEN \<and> list_all is_ascii_hexdigit nonce"
    by (auto simp: is_valid_pipe_name_def Let_def split: if_splits)
next
  assume "\<exists>nonce. name = PIPE_PREFIX @ nonce \<and> length nonce = NONCE_HEX_LEN \<and> list_all is_ascii_hexdigit nonce"
  then obtain nonce where "name = PIPE_PREFIX @ nonce" "length nonce = NONCE_HEX_LEN" and h: "list_all is_ascii_hexdigit nonce"
    by blast
  moreover have "\<not> contains_control_chars nonce"
    using h by (intro plain_no_control) (auto simp: list_all_iff hexdigit_plain)
  ultimately show "is_valid_pipe_name name" by (simp add: is_valid_pipe_name_def)
qed

lemma valid_pipe_name_plain: "is_valid_pipe_name name \<Longrightarrow> list_all plain_char name"
  unfolding is_valid_pipe_name_iff using pipe_prefix_plain by (auto simp: list_all_iff hexdigit_plain)

lemma generated_name_valid: "length nonce = NONCE_BYTES \<Longrightarrow> is_valid_pipe_name (PIPE_PREFIX @ concat (map hex2 nonce))"
  by (auto simp: is_valid_pipe_name_iff length_hex_bytes NONCE_HEX_LEN_def hex_bytes_hexdigits)

lemma resolve_plain:
  "list_all plain_char text \<Longrightarrow>
     resolve_published_name (Some text) = (if is_valid_pipe_name text then Some text else None)"
  by (auto simp: resolve_published_name_def trim_all_plain Let_def plain_no_control is_valid_pipe_name_iff PIPE_PREFIX_def)

lemma resolve_valid: "resolve_published_name content = Some name \<Longrightarrow> is_valid_pipe_name name"
  by (auto simp: resolve_published_name_def Let_def split: option.splits if_splits)

text \<open>The client opens no pipe whose name does not have the form of the daemon's.\<close>

lemma client_opens_valid_names_only:
  assumes "\<And>name. is_valid_pipe_name name \<Longrightarrow> opens name = opens' name"
  shows "windows_connect has_dir content opens = windows_connect has_dir content opens'"
  using assms by (auto simp: windows_connect_def dest: resolve_valid split: option.splits)

section \<open>Publishing\<close>

text \<open>
  At every step what is at the path is what was found there or put there by another process, or nothing, or
  empty, or open to the owner only.
\<close>

lemma publish_states:
  assumes "state \<in> set (snd (publish_name env name found))"
  shows "state = found \<or> state = pe_planted env \<or> (\<forall>f. state = Some f \<longrightarrow> pf_content f = [] \<or> pf_owner_only f)"
  using assms by (auto simp: publish_name_def Let_def split: if_splits option.splits)

text \<open>What the daemon leaves at the path is found there, planted, empty, or the owner's file with a part of the name.\<close>

lemma publish_last:
  assumes "last (snd (publish_name env name found)) = Some f"
  shows "found = Some f \<or> pe_planted env = Some f \<or> pf_content f = [] \<or>
         pf_owner_only f \<and> (\<exists>n. pf_content f = take n name)"
  using assms by (auto simp: publish_name_def Let_def intro: exI [of _ "length name"] split: if_splits option.splits)

lemma publish_ok:
  "fst (publish_name env name found) = Inr () \<Longrightarrow>
     last (snd (publish_name env name found)) = Some \<lparr>pf_owner_only = True, pf_content = name\<rparr>"
  by (auto simp: publish_name_def Let_def split: if_splits option.splits)

lemma take_valid_name: "is_valid_pipe_name name \<Longrightarrow> is_valid_pipe_name (take n name) \<Longrightarrow> take n name = name"
proof -
  assume "is_valid_pipe_name name" "is_valid_pipe_name (take n name)"
  then have "length (take n name) = length name"
    unfolding is_valid_pipe_name_iff by (metis length_append)
  then show ?thesis by simp
qed

text \<open>A stale file: the removal fails, and the file of an earlier run stays.\<close>

lemma stale_file_stays:
  "pe_sid env \<Longrightarrow> pe_dir env \<Longrightarrow> \<not> is_reparse_point (pe_attrs env) \<Longrightarrow> \<not> pe_remove env \<Longrightarrow> pe_planted env = None \<Longrightarrow>
     found = Some f \<Longrightarrow> last (snd (publish_name env name found)) = Some f"
  by (simp add: publish_name_def Let_def)

section \<open>Creation, waiting, serving\<close>

lemma create_pipe_attempts:
  "attempts < BUSY_RETRY_ATTEMPTS \<Longrightarrow> create_pipe tries attempts = (valid, code, n) \<Longrightarrow>
     attempts < n \<and> n \<le> BUSY_RETRY_ATTEMPTS \<and> tries (n - 1) = (valid, code)"
proof (induction tries attempts rule: create_pipe.induct)
  case (1 tries attempts)
  show ?case
  proof (cases "tries attempts")
    case (Pair v c)
    show ?thesis
    proof (cases "v \<or> (c \<noteq> ERROR_PIPE_BUSY \<and> c \<noteq> ERROR_ACCESS_DENIED) \<or> attempts + 1 \<ge> BUSY_RETRY_ATTEMPTS")
      case True
      with 1(2,3) Pair show ?thesis by (auto simp: create_pipe.simps [of tries attempts])
    next
      case False
      then have "create_pipe tries (attempts + 1) = (valid, code, n)"
        using 1(3) Pair by (subst (asm) create_pipe.simps) auto
      from 1(1) [OF Pair [symmetric] refl False _ this] False show ?thesis by simp
    qed
  qed
qed

lemma start_live_iff:
  "fst (start_with_name env) \<longleftrightarrow> snd (start_with_name env) = PipeOpen True"
  by (auto simp: start_with_name_def Let_def split: prod.splits)

text \<open>A pipe is open only with the owner's access list; a thread that cannot be started leaves it open unserved.\<close>

lemma open_pipe_hardened: "snd (start_with_name env) = PipeOpen served \<Longrightarrow> se_sid env \<and> se_dacl env = 0"
  by (auto simp: start_with_name_def Let_def split: prod.splits if_splits)

lemma connect_attempts_Inl:
  "connect_attempts opened last_busy = Inl code \<Longrightarrow> opened \<noteq> [] \<or> last_busy \<noteq> None \<Longrightarrow>
     Inl code \<in> set opened \<or> last_busy = Some code"
  by (induction opened last_busy rule: connect_attempts.induct) (auto split: sum.splits if_splits)

text \<open>The client gives up with an error of one of its attempts: \<open>expect\<close> never panics.\<close>

lemma connect_to_error: "connect_to opens = Inl code \<Longrightarrow> \<exists>i < BUSY_RETRY_ATTEMPTS. opens i = Inl code"
  using connect_attempts_Inl [of "map opens [0..<BUSY_RETRY_ATTEMPTS]" None code]
  by (auto simp: connect_to_def BUSY_RETRY_ATTEMPTS_def)

text \<open>
  A client that keeps writing is waited for at most the close timeout and one more read, if every read ends within
  the bound of one wait.
\<close>

fun timely :: "nat \<Rightarrow> ((win_error + nat) \<times> nat) list \<Rightarrow> bool" where
  "timely now [] \<longleftrightarrow> True"
| "timely now ((_, t) # reads) \<longleftrightarrow> now \<le> t \<and> t \<le> now + IO_TIMEOUT \<and> timely t reads"

lemma close_wait_bound:
  "timely now reads \<Longrightarrow> now \<le> deadline + IO_TIMEOUT \<Longrightarrow> now < deadline \<or> reads = [] \<Longrightarrow>
     close_wait deadline reads now \<le> deadline + IO_TIMEOUT"
proof (induction deadline reads now rule: close_wait.induct)
  case (2 deadline result t reads now)
  then show ?case by (auto split: sum.splits nat.splits)
qed simp

lemma client_close_bound:
  "timely now reads \<Longrightarrow> wait_for_client_close reads now \<le> now + CLIENT_CLOSE_TIMEOUT + IO_TIMEOUT"
  unfolding wait_for_client_close_def by (rule close_wait_bound) (simp_all add: CLIENT_CLOSE_TIMEOUT_def)

text \<open>The bound is met: the deadline is only looked at between two reads.\<close>

lemma client_close_after_deadline:
  "wait_for_client_close [(Inr 1, 9900), (Inr 1, 19800), (Inr 1, 29700), (Inr 1, 39600)] 0 = 39600"
  by (simp add: wait_for_client_close_def CLIENT_CLOSE_TIMEOUT_def)

text \<open>The connections that are handled are those the limiter admits.\<close>

definition round_bucket :: "'c pipe_round \<Rightarrow> u32" where
  "round_bucket r = (case client_pid (pr_pid r) of Some pid \<Rightarrow> pid | None \<Rightarrow> 0)"

definition handled :: "pipe_act list \<Rightarrow> (u32 \<times> nat) list" where
  "handled acts = List.map_filter (\<lambda>a. case a of ActHandled b t \<Rightarrow> Some (b, t) | _ \<Rightarrow> None) acts"

lemma handled_append [simp]: "handled (as @ bs) = handled as @ handled bs"
  by (simp add: handled_def List.map_filter_def)

lemma handled_Cons [simp]:
  "handled [] = []" "handled (ActHandled b t # as) = (b, t) # handled as" "handled (ActRejected b t # as) = handled as"
  "handled (ActAwaitClose # as) = handled as" "handled (ActDisconnect # as) = handled as"
  by (simp_all add: handled_def List.map_filter_def)

lemma serve_pipe_admitted:
  "handled (fst (serve_pipe handler rs (limiter, s))) =
     fst (limiter_run check_and_record
       (map (\<lambda>r. (round_bucket r, pr_now r)) (filter (\<lambda>r. accept_client (pr_issue r) (pr_wait r)) rs)) limiter)"
  by (induction rs arbitrary: limiter s)
    (auto simp: serve_pipe_round_def round_bucket_def [symmetric] Let_def case_prod_beta)

section \<open>Properties\<close>

text \<open>
  C36. What the daemon publishes names its own live pipe, and only the owner can read it. Whatever the system
  calls of a start answer: at no step can others open a file at the publish path that this run has put
  something into, and if the client resolves a name from the file this run has left there, then it is the
  name with this run's nonce, the pipe of that name is open with the owner's access list, and its serve
  thread runs.
\<close>
theorem published_endpoint_is_live:
  assumes "length nonce = NONCE_BYTES" "windows_start (Some nonce) env (Some penv) found = (pipe, states)"
  shows "(\<forall>state \<in> set states. state = found \<or> state = pe_planted penv \<or>
           (\<forall>f. state = Some f \<longrightarrow> pf_content f = [] \<or> pf_owner_only f)) \<and>
         (\<forall>f name. last states = Some f \<and> found \<noteq> Some f \<and> pe_planted penv \<noteq> Some f \<and>
                    resolve_published_name (Some (pf_content f)) = Some name \<longrightarrow>
           pipe_name (Some nonce) = Some name \<and> pf_owner_only f \<and> pipe = PipeOpen True \<and> se_dacl env = 0)"
proof -
  define own where "own = PIPE_PREFIX @ concat (map hex2 nonce)"
  have name: "pipe_name (Some nonce) = Some own" by (simp add: pipe_name_def own_def)
  have valid: "is_valid_pipe_name own" using generated_name_valid [OF assms(1)] by (simp add: own_def)
  note plain = valid_pipe_name_plain [OF valid]
  show ?thesis
  proof (cases "fst (start_with_name env)")
    case False
    then have "states = [found]"
      using assms(2) by (auto simp: windows_start_def name split: prod.splits)
    then show ?thesis by auto
  next
    case True
    then have states: "states = snd (publish_name penv own found)" and pipe: "pipe = PipeOpen True"
      using assms(2) start_live_iff [of env] by (auto simp: windows_start_def name split: prod.splits)
    have "pipe_name (Some nonce) = Some n \<and> pf_owner_only f \<and> pipe = PipeOpen True \<and> se_dacl env = 0"
      if f: "last states = Some f" "found \<noteq> Some f" "pe_planted penv \<noteq> Some f"
        and r: "resolve_published_name (Some (pf_content f)) = Some n" for f n
    proof -
      have "pf_content f \<noteq> []" using r resolve_plain [of "[]"] by (auto simp: is_valid_pipe_name_iff PIPE_PREFIX_def)
      then obtain k where k: "pf_owner_only f" "pf_content f = take k own"
        using publish_last [of penv own found f] f states by auto
      have "list_all plain_char (take k own)" using plain by (auto simp: list_all_iff dest: in_set_takeD)
      from resolve_plain [OF this] r k have "is_valid_pipe_name (take k own)" "n = take k own"
        by (auto split: if_splits)
      with take_valid_name [OF valid] have "n = own" by simp
      with k name pipe open_pipe_hardened [of env True] start_live_iff [of env] True show ?thesis by simp
    qed
    then show ?thesis using publish_states states by blast
  qed
qed

text \<open>A first start that meets no obstacle: the name is published and resolved.\<close>

definition calm_start :: start_env where
  "calm_start = \<lparr>se_sid = True, se_tries = (\<lambda>i. (True, 0)), se_dacl = 0, se_spawned = True\<rparr>"

definition calm_publish :: publish_env where
  "calm_publish = \<lparr>pe_sid = True, pe_dir = True, pe_attrs = 0xFFFFFFFF, pe_remove = False, pe_planted = None,
     pe_create = True, pe_dacl = 0, pe_write = None, pe_remove_again = True\<rparr>"

definition calm_nonce :: bytes where "calm_nonce = replicate NONCE_BYTES 0xAB"

lemma calm_run:
  "windows_start (Some calm_nonce) calm_start (Some calm_publish) None =
     (PipeOpen True, [None, None, Some \<lparr>pf_owner_only = False, pf_content = []\<rparr>, Some \<lparr>pf_owner_only = True, pf_content = []\<rparr>,
        Some \<lparr>pf_owner_only = True, pf_content = PIPE_PREFIX @ concat (map hex2 calm_nonce)\<rparr>])"
  by (simp add: windows_start_def pipe_name_def start_with_name_def create_pipe.simps publish_name_def is_reparse_point_def
      calm_start_def calm_publish_def)

theorem published_endpoint_is_live_witness:
  "length calm_nonce = NONCE_BYTES \<and>
   pipe_name (Some calm_nonce) = Some (PIPE_PREFIX @ concat (map hex2 calm_nonce)) \<and>
   fst (windows_start (Some calm_nonce) calm_start (Some calm_publish) None) = PipeOpen True"
proof -
  have l: "length calm_nonce = NONCE_BYTES" by (simp add: calm_nonce_def)
  have v: "is_valid_pipe_name (PIPE_PREFIX @ concat (map hex2 calm_nonce))" by (rule generated_name_valid [OF l])
  have "pe_planted calm_publish = None" by (simp add: calm_publish_def)
  moreover have "resolve_published_name (Some (PIPE_PREFIX @ concat (map hex2 calm_nonce))) =
    Some (PIPE_PREFIX @ concat (map hex2 calm_nonce))"
    using resolve_plain [OF valid_pipe_name_plain [OF v]] v by (simp only: if_True)
  ultimately show ?thesis
    using published_endpoint_is_live [OF l calm_run] by (simp add: l calm_run)
qed

end
