(* ===== verification/Windows_Keyboard.thy ===== *)
theory Windows_Keyboard
  imports Keyboard Utf8
begin

text \<open>
  \<open>src/platform/windows/keyboard.rs\<close>: the enumeration of keyboards. What SetupAPI and the HID API answer is a
  parameter, as are \<open>String::from_utf16_lossy\<close> (\<open>lossy\<close>) and the case mapping of strings that are not
  ASCII (\<open>uni\<close>).
\<close>

section \<open>Strings\<close>

definition wstring :: "(u16 list \<Rightarrow> string) \<Rightarrow> u16 list \<Rightarrow> string" where
  "wstring lossy buf = lossy (take (case position (\<lambda>c. c = 0) buf of Some i \<Rightarrow> i | None \<Rightarrow> length buf) buf)"

text \<open>Pairs of bytes, the low one first; an odd byte at the end is dropped.\<close>

fun u16_chunks :: "bytes \<Rightarrow> u16 list" where
  "u16_chunks (a # b # bs) = (ucast a OR push_bit 8 (ucast b)) # u16_chunks bs"
| "u16_chunks _ = []"

definition contains_str :: "string \<Rightarrow> string \<Rightarrow> bool" where
  "contains_str s pat \<longleftrightarrow> str_find pat s \<noteq> None"

definition starts_with :: "string \<Rightarrow> string \<Rightarrow> bool" where
  "starts_with s pat \<longleftrightarrow> take (length pat) s = pat"

definition ends_with :: "string \<Rightarrow> string \<Rightarrow> bool" where
  "ends_with s pat \<longleftrightarrow> length pat \<le> length s \<and> drop (length s - length pat) s = pat"

text \<open>\<open>u16::from_str_radix(_, 16)\<close> of hexadecimal digits, and the format \<open>{:04X}\<close>.\<close>

definition hex_value :: "char \<Rightarrow> nat" where
  "hex_value c = (let n = of_char c in if n \<le> 57 then n - 48 else if n \<le> 70 then n - 55 else n - 87)"

definition parse_hex :: "string \<Rightarrow> nat" where
  "parse_hex s = foldl (\<lambda>n c. 16 * n + hex_value c) 0 s"

definition hex_upper :: "nat \<Rightarrow> char" where
  "hex_upper n = char_of (if n < 10 then 48 + n else 55 + n)"

definition show_hex4 :: "nat \<Rightarrow> string" where
  "show_hex4 n = map (\<lambda>i. hex_upper (n div 16 ^ i mod 16)) [3, 2, 1, 0]"

section \<open>Vendor, product and port from a path\<close>

definition KNOWN_VENDORS :: "(nat \<times> string) list" where
  "KNOWN_VENDORS =
     [(0x045E, ''Microsoft''), (0x046D, ''Logitech''), (0x04F2, ''Chicony''), (0x05AC, ''Apple''), (0x06A3, ''Fujitsu''),
      (0x0842, ''HannSpree''), (0x0B05, ''ASUS''), (0x047F, ''Plantronics'')]"

text \<open>The four digits after a key of four bytes.\<close>

definition hex_field :: "string \<Rightarrow> string \<Rightarrow> nat option" where
  "hex_field key lower =
     (case str_find key lower of
        None \<Rightarrow> None
      | Some i \<Rightarrow>
          (let digits = take 4 (drop (i + 4) lower)
           in if length digits < 4 \<or> \<not> list_all is_ascii_hexdigit digits then None else Some (parse_hex digits)))"

definition parse_vid_pid :: "(string \<Rightarrow> string) \<Rightarrow> string \<Rightarrow> (nat \<times> nat) option" where
  "parse_vid_pid uni path =
     (let lower = str_to_lowercase uni path
      in case hex_field ''vid_'' lower of
           None \<Rightarrow> None
         | Some vid \<Rightarrow> (case hex_field ''pid_'' lower of None \<Rightarrow> None | Some pid \<Rightarrow> Some (vid, pid)))"

definition parse_vendor_from_path :: "(string \<Rightarrow> string) \<Rightarrow> string \<Rightarrow> string option" where
  "parse_vendor_from_path uni path =
     (case parse_vid_pid uni path of
        None \<Rightarrow> None
      | Some (vid, _) \<Rightarrow>
          (case find (\<lambda>(v, _). v = vid) KNOWN_VENDORS of
             Some (_, name) \<Rightarrow> Some name
           | None \<Rightarrow> Some (''Unknown (0x'' @ show_hex4 vid @ '')'')))"

definition derive_port :: "(string \<Rightarrow> string) \<Rightarrow> string \<Rightarrow> string \<Rightarrow> string option" where
  "derive_port uni hardware_id interface_path =
     (let lower = str_to_lowercase uni (hd (split_on (CHR 0x0A) hardware_id));
          path_lower = str_to_lowercase uni interface_path
      in if hardware_id \<noteq> [] \<and> starts_with lower ''usb'' then Some ''USB''
         else if hardware_id \<noteq> [] \<and> (starts_with lower ''bthenum'' \<or> starts_with lower ''bthledev'') then Some ''Bluetooth''
         else if hardware_id \<noteq> [] \<and> starts_with lower ''acpi'' then Some ''Internal''
         else if contains_str path_lower ''bth_'' \<or> contains_str path_lower ''bthenum'' then Some ''Bluetooth''
         else if contains_str path_lower ''acpi'' then Some ''Internal''
         else if contains_str path_lower ''hid#'' \<or> contains_str path_lower (''hid'' @ [CHR 0x5C]) then Some ''USB''
         else None)"

section \<open>Is it a keyboard?\<close>

definition HID_USAGE_PAGE_GENERIC :: u16 where "HID_USAGE_PAGE_GENERIC = 0x01"
definition HID_USAGE_KEYBOARD :: u16 where "HID_USAGE_KEYBOARD = 0x06"
definition MAX_LINK_COLLECTION_NODES :: nat where "MAX_LINK_COLLECTION_NODES = 256"

record link_node =
  ln_parent :: u16
  ln_usage_page :: u16
  ln_usage :: u16

text \<open>
  What the HID API says of an open device: whether there are preparsed data, the usage page and usage of the
  capabilities, the number of link collection nodes, and, for a buffer of a given size, its content and the
  number reported with it.
\<close>

record hid_answers =
  ha_preparsed :: bool
  ha_caps :: "(u16 \<times> u16) option"
  ha_count :: "nat option"
  ha_nodes :: "nat \<Rightarrow> (link_node list \<times> nat) option"

definition check_keyboard_via_hid :: "hid_answers \<Rightarrow> bool option" where
  "check_keyboard_via_hid ha =
     (if \<not> ha_preparsed ha then None
      else if ha_caps ha = Some (HID_USAGE_PAGE_GENERIC, HID_USAGE_KEYBOARD) then Some True
      else
        (case ha_count ha of
           None \<Rightarrow> None
         | Some node_count \<Rightarrow>
             if node_count = 0 then None
             else
               (case ha_nodes ha (min node_count MAX_LINK_COLLECTION_NODES) of
                  None \<Rightarrow> None
                | Some (nodes, n) \<Rightarrow>
                    Some (list_ex (\<lambda>node. ln_parent node = 0xFFFF \<and> ln_usage_page node = HID_USAGE_PAGE_GENERIC
                                          \<and> ln_usage node = HID_USAGE_KEYBOARD)
                            (take (min n (length nodes)) nodes)))))"

definition looks_like_keyboard :: "(string \<Rightarrow> string) \<Rightarrow> string \<Rightarrow> string \<Rightarrow> string \<Rightarrow> bool" where
  "looks_like_keyboard uni name hardware_id interface_path =
     (let name_lower = str_to_lowercase uni name; hw_lower = str_to_lowercase uni hardware_id;
          path_lower = str_to_lowercase uni interface_path
      in if contains_str name_lower ''keyboard'' \<or> contains_str name_lower ''kbd'' then True
         else if ends_with path_lower ([CHR 0x5C] @ ''kbd'') \<or> ends_with path_lower ''{kbd}'' then True
         else if contains_str hw_lower (''hidbth'' @ [CHR 0x5C]) \<or> contains_str hw_lower ''kbd'' \<or> contains_str hw_lower ''bthenum''
         then True
         else False)"

section \<open>Enumeration\<close>

definition SPDRP_DEVICEDESC :: nat where "SPDRP_DEVICEDESC = 1"
definition SPDRP_HARDWAREID :: nat where "SPDRP_HARDWAREID = 3"
definition SPDRP_MFG :: nat where "SPDRP_MFG = 13"
definition SPDRP_FRIENDLYNAME :: nat where "SPDRP_FRIENDLYNAME = 14"

text \<open>A device of the set: whether it has an interface of the class, and its properties as bytes.\<close>

record setup_device =
  su_interface :: bool
  su_property :: "nat \<Rightarrow> bytes option"

definition get_device_property :: "(u16 list \<Rightarrow> string) \<Rightarrow> setup_device \<Rightarrow> nat \<Rightarrow> string option" where
  "get_device_property lossy d prop = map_option (\<lambda>buf. wstring lossy (u16_chunks buf)) (su_property d prop)"

text \<open>
  An interface: its path, if its detail can be read; the answers of the device, if it can be opened; and the
  buffers of product, manufacturer and serial number, if it can be opened the second time.
\<close>

record hid_interface =
  hi_path :: "u16 list option"
  hi_check :: "hid_answers option"
  hi_strings :: "(u16 list option \<times> u16 list option \<times> u16 list option) option"

definition read_hid_strings ::
  "(u16 list \<Rightarrow> string) \<Rightarrow> u16 list option \<times> u16 list option \<times> u16 list option \<Rightarrow> string \<times> string \<times> string" where
  "read_hid_strings lossy = (\<lambda>(product, vendor, serial).
     (let text = (\<lambda>b. case b of Some buf \<Rightarrow> wstring lossy buf | None \<Rightarrow> []) in (text product, text vendor, text serial)))"

text \<open>The device whose properties are read: the first of the set that has an interface of the class.\<close>

definition found_device :: "setup_device list \<Rightarrow> setup_device option" where
  "found_device devices = find su_interface devices"

definition device_text :: "(u16 list \<Rightarrow> string) \<Rightarrow> setup_device option \<Rightarrow> nat \<Rightarrow> string" where
  "device_text lossy dev prop =
     (case Option.bind dev (\<lambda>d. get_device_property lossy d prop) of Some s \<Rightarrow> s | None \<Rightarrow> [])"

definition is_keyboard_interface ::
  "(u16 list \<Rightarrow> string) \<Rightarrow> (string \<Rightarrow> string) \<Rightarrow> setup_device option \<Rightarrow> string \<Rightarrow> hid_interface \<Rightarrow> bool" where
  "is_keyboard_interface lossy uni dev path hi =
     (let looks = looks_like_keyboard uni (device_text lossy dev SPDRP_DEVICEDESC) (device_text lossy dev SPDRP_HARDWAREID) path
      in case hi_check hi of
           Some ha \<Rightarrow> (case check_keyboard_via_hid ha of Some result \<Rightarrow> result | None \<Rightarrow> looks)
         | None \<Rightarrow> looks)"

definition backslashed :: "string \<Rightarrow> bool" where "backslashed s \<longleftrightarrow> contains_str s [CHR 0x5C]"

definition interface_name :: "(string \<Rightarrow> string) \<Rightarrow> string \<Rightarrow> string \<Rightarrow> string \<Rightarrow> string \<Rightarrow> string" where
  "interface_name uni hid_product dev_name dev_desc path =
     (if hid_product \<noteq> [] then hid_product
      else if dev_name \<noteq> [] \<and> \<not> backslashed dev_desc then dev_name
      else if dev_desc \<noteq> [] \<and> \<not> backslashed dev_desc then dev_desc
      else
        (case parse_vid_pid uni path of
           Some (v, p) \<Rightarrow> ''USB Keyboard ('' @ show_hex4 v @ '':'' @ show_hex4 p @ '')''
         | None \<Rightarrow> ''HID Keyboard''))"

definition interface_vendor :: "(string \<Rightarrow> string) \<Rightarrow> string \<Rightarrow> string option \<Rightarrow> string \<Rightarrow> string" where
  "interface_vendor uni hid_vendor manufacturer path =
     (if hid_vendor = [] then
        (case manufacturer of
           Some s \<Rightarrow> s
         | None \<Rightarrow> (case parse_vendor_from_path uni path of Some s \<Rightarrow> s | None \<Rightarrow> ''<unknown>''))
      else hid_vendor)"

definition interface_model :: "(string \<Rightarrow> string) \<Rightarrow> string \<Rightarrow> string \<Rightarrow> string \<Rightarrow> string \<Rightarrow> string" where
  "interface_model uni hw_id hid_serial hid_product path =
     (if hw_id \<noteq> [] then hw_id
      else if hid_serial \<noteq> [] then hid_serial
      else if hid_product \<noteq> [] then hid_product
      else
        (case parse_vid_pid uni path of
           Some (v, p) \<Rightarrow> show_hex4 v @ '':'' @ show_hex4 p
         | None \<Rightarrow> ''<unknown>''))"

text \<open>What is listed for an interface, and how many of the handles opened for it stay open.\<close>

definition keyboard_of_interface ::
  "(u16 list \<Rightarrow> string) \<Rightarrow> (string \<Rightarrow> string) \<Rightarrow> setup_device list \<Rightarrow> hid_interface \<Rightarrow> keyboard_info option \<times> nat" where
  "keyboard_of_interface lossy uni devices hi =
     (case hi_path hi of
        None \<Rightarrow> (None, 0)
      | Some buf \<Rightarrow>
          (let path = wstring lossy buf;
               dev = found_device devices;
               dev_desc = device_text lossy dev SPDRP_DEVICEDESC;
               hw_id = device_text lossy dev SPDRP_HARDWAREID;
               left_open = (if hi_check hi = None then 0 else 1)
           in if \<not> is_keyboard_interface lossy uni dev path hi then (None, left_open)
              else
                (let dev_name = device_text lossy dev SPDRP_FRIENDLYNAME;
                     manufacturer = Option.bind dev (\<lambda>d. get_device_property lossy d SPDRP_MFG);
                     (product, vendor, serial) =
                       (case hi_strings hi of Some bufs \<Rightarrow> read_hid_strings lossy bufs | None \<Rightarrow> ([], [], []))
                 in (Some \<lparr>ki_name = interface_name uni product dev_name dev_desc path,
                           ki_vendor = interface_vendor uni vendor manufacturer path,
                           ki_model = interface_model uni hw_id serial product path,
                           ki_device = path,
                           ki_port = derive_port uni hw_id path\<rparr>,
                     left_open))))"

text \<open>\<open>devices\<close> and \<open>interfaces\<close> are those of the set, or the error that there is none.\<close>

definition windows_list_keyboards ::
  "(u16 list \<Rightarrow> string) \<Rightarrow> (string \<Rightarrow> string) \<Rightarrow> 'e + setup_device list \<times> hid_interface list
    \<Rightarrow> 'e + keyboard_info list \<times> nat" where
  "windows_list_keyboards lossy uni class_devs =
     (case class_devs of
        Inl e \<Rightarrow> Inl e
      | Inr (devices, interfaces) \<Rightarrow>
          (let found = map (keyboard_of_interface lossy uni devices) interfaces
           in Inr (List.map_filter fst found, sum_list (map snd found))))"

section \<open>Facts\<close>

lemma hex_value_bound: "is_ascii_hexdigit c \<Longrightarrow> hex_value c < 16"
  by (auto simp: is_ascii_hexdigit_def hex_value_def Let_def)

lemma parse_hex_bound: "list_all is_ascii_hexdigit s \<Longrightarrow> parse_hex s < 16 ^ length s"
proof (induction s rule: rev_induct)
  case Nil
  then show ?case by (simp add: parse_hex_def)
next
  case (snoc c s)
  then have "parse_hex s < 16 ^ length s" "hex_value c < 16" by (simp_all add: hex_value_bound)
  then have "16 * parse_hex s + hex_value c < 16 * 16 ^ length s" by linarith
  then show ?case by (simp add: parse_hex_def)
qed

text \<open>The numbers fit 16 bits, so \<open>from_str_radix\<close> does not fail and a vendor is written with four digits.\<close>

lemma hex_field_bound: "hex_field key lower = Some n \<Longrightarrow> n < 2 ^ 16"
proof -
  assume "hex_field key lower = Some n"
  then obtain i where "list_all is_ascii_hexdigit (take 4 (drop (i + 4) lower))" "length (take 4 (drop (i + 4) lower)) = 4"
    "n = parse_hex (take 4 (drop (i + 4) lower))"
    by (auto simp: hex_field_def Let_def split: option.splits if_splits)
  with parse_hex_bound [of "take 4 (drop (i + 4) lower)"] show ?thesis by simp
qed

lemma parse_show_hex4: "n < 2 ^ 16 \<Longrightarrow> parse_hex (show_hex4 n) = n"
proof -
  assume n: "n < 2 ^ 16"
  have d: "hex_value (hex_upper d) = d" if "d < 16" for d
    using that by (simp add: hex_value_def hex_upper_def Let_def)
  have "n div 16 ^ 3 < 16" using n by (simp add: less_mult_imp_div_less)
  then have "parse_hex (show_hex4 n) =
    16 * (16 * (16 * (n div 16 ^ 3) + n div 16 ^ 2 mod 16) + n div 16 mod 16) + n mod 16"
    by (simp add: parse_hex_def show_hex4_def d)
  also have "\<dots> = n"
  proof -
    define a b c where "a = n div 16" and "b = a div 16" and "c = b div 16"
    have "16 * a + n mod 16 = n" "16 * b + a mod 16 = a" "16 * c + b mod 16 = b"
      by (simp_all only: a_def b_def c_def mult_div_mod_eq)
    then have "16 * (16 * (16 * c + b mod 16) + a mod 16) + n mod 16 = n" by (simp only:)
    moreover have "n div 16 ^ 2 = b" "n div 16 ^ 3 = c"
      by (simp_all add: a_def b_def c_def div_mult2_eq [symmetric])
    ultimately show ?thesis by (simp only: a_def)
  qed
  finally show ?thesis .
qed

lemma known_vendor:
  "parse_vid_pid uni path = Some (0x046D, pid) \<Longrightarrow> parse_vendor_from_path uni path = Some ''Logitech''"
  by (simp add: parse_vendor_from_path_def KNOWN_VENDORS_def)

text \<open>A device that reports more nodes than asked for is read within the buffer.\<close>

lemma nodes_read_in_bounds: "length (take (min n (length nodes)) nodes) \<le> length nodes"
  by simp

text \<open>
  The handle that is opened for the check is not closed, whatever the result: every enumeration leaves one
  open for each interface with a path whose device can be opened.
\<close>

lemma handle_left_open:
  "snd (keyboard_of_interface lossy uni devices hi) = (if hi_path hi \<noteq> None \<and> hi_check hi \<noteq> None then 1 else 0)"
  by (auto simp: keyboard_of_interface_def Let_def split: option.splits prod.splits)

lemma handles_left_open:
  assumes "windows_list_keyboards lossy uni (Inr (devices, interfaces)) = Inr (kbs, n)"
  shows "n = length (filter (\<lambda>hi. hi_path hi \<noteq> None \<and> hi_check hi \<noteq> None) interfaces)"
proof -
  have "sum_list (map (\<lambda>hi. if P hi then 1 else 0) xs) = length (filter P xs)" for P :: "hid_interface \<Rightarrow> bool" and xs
    by (induction xs) simp_all
  then show ?thesis
    using assms by (auto simp: windows_list_keyboards_def Let_def comp_def handle_left_open)
qed

lemma listed_keyboard:
  assumes "windows_list_keyboards lossy uni (Inr (devices, interfaces)) = Inr (kbs, n)" "kb \<in> set kbs"
  obtains hi where "hi \<in> set interfaces" "fst (keyboard_of_interface lossy uni devices hi) = Some kb"
  using assms by (auto simp: windows_list_keyboards_def Let_def List.map_filter_def)

lemma keyboard_model_of_first:
  assumes "fst (keyboard_of_interface lossy uni devices hi) = Some kb" "device_text lossy (found_device devices) SPDRP_HARDWAREID \<noteq> []"
  shows "ki_model kb = device_text lossy (found_device devices) SPDRP_HARDWAREID"
  using assms by (auto simp: keyboard_of_interface_def interface_model_def Let_def split: option.splits prod.splits if_splits)

section \<open>Properties\<close>

text \<open>
  All keyboards get the model of one device. The loop that looks for the device of an interface takes the
  first device that has any interface of the class, so if that device has a hardware ID, every keyboard that is listed
  has it as its model, whichever interface it is, and a filter by model keeps all keyboards or none.
\<close>
theorem windows_keyboards_share_model:
  assumes "windows_list_keyboards lossy uni (Inr (devices, interfaces)) = Inr (kbs, n)"
    and "find su_interface devices = Some d" "get_device_property lossy d SPDRP_HARDWAREID = Some hw" "hw \<noteq> []"
  shows "(\<forall>kb \<in> set kbs. ki_model kb = hw) \<and>
         filter_keyboards_by_specifiers kbs
           (Some [\<lparr>ks_name = None, ks_vendor = None, ks_model = Some model, ks_port = None\<rparr>]) =
         (if eq_ignore_ascii_case model hw then kbs else [])"
proof -
  have "device_text lossy (found_device devices) SPDRP_HARDWAREID = hw"
    using assms(2,3) by (simp add: device_text_def found_device_def)
  then have models: "ki_model kb = hw" if "kb \<in> set kbs" for kb
    using listed_keyboard [OF assms(1) that] keyboard_model_of_first assms(4) by metis
  then show ?thesis
    by (auto simp: filter_keyboards_iff spec_matches_iff intro: filter_True filter_False)
qed

text \<open>Two keyboards of different makers.\<close>

definition demo_lossy :: "u16 list \<Rightarrow> string" where "demo_lossy = map (\<lambda>c. char_of (unat c))"

definition demo_hid :: hid_answers where
  "demo_hid = \<lparr>ha_preparsed = True, ha_caps = Some (1, 6), ha_count = None, ha_nodes = (\<lambda>n. None)\<rparr>"

definition demo_interface :: "u16 \<Rightarrow> hid_interface" where
  "demo_interface c = \<lparr>hi_path = Some [c], hi_check = Some demo_hid, hi_strings = None\<rparr>"

definition demo_device :: "u8 \<Rightarrow> setup_device" where
  "demo_device c = \<lparr>su_interface = True, su_property = (\<lambda>p. if p = SPDRP_HARDWAREID then Some [c, 0] else None)\<rparr>"

lemma demo_hardware: "get_device_property demo_lossy (demo_device 72) SPDRP_HARDWAREID = Some ''H''"
  by (simp add: get_device_property_def demo_device_def wstring_def demo_lossy_def char_of_eq_iff)

definition demo_set :: "string + setup_device list \<times> hid_interface list" where
  "demo_set = Inr ([demo_device 72, demo_device 73], [demo_interface 97, demo_interface 98])"

lemma demo_listed:
  "\<exists>k1 k2. windows_list_keyboards demo_lossy id demo_set = Inr ([k1, k2], 2) \<and> ki_device k1 = ''a'' \<and> ki_device k2 = ''b''"
  by (simp add: demo_set_def windows_list_keyboards_def keyboard_of_interface_def demo_interface_def is_keyboard_interface_def
      check_keyboard_via_hid_def demo_hid_def HID_USAGE_PAGE_GENERIC_def HID_USAGE_KEYBOARD_def Let_def List.map_filter_simps
      wstring_def demo_lossy_def char_of_eq_iff)

theorem windows_keyboards_share_model_witness:
  "\<exists>k1 k2. windows_list_keyboards demo_lossy id demo_set = Inr ([k1, k2], 2) \<and> ki_device k1 = ''a'' \<and> ki_device k2 = ''b'' \<and> ki_model k1 = ''H'' \<and> ki_model k2 = ''H''"
proof -
  obtain k1 k2 where k: "windows_list_keyboards demo_lossy id demo_set = Inr ([k1, k2], 2)"
    "ki_device k1 = ''a''" "ki_device k2 = ''b''"
    using demo_listed by blast
  have "find su_interface [demo_device 72, demo_device 73] = Some (demo_device 72)" by (simp add: demo_device_def)
  from windows_keyboards_share_model [OF k(1) [unfolded demo_set_def] this demo_hardware] have "ki_model k1 = ''H''" "ki_model k2 = ''H''"
    by simp_all
  with k show ?thesis by blast
qed

end
