(* ===== verification/Mac_Keyboard.thy ===== *)
theory Mac_Keyboard
  imports Keyboard Utf8
begin

text \<open>
  \<open>src/platform/macos/keyboard.rs\<close>: the keyboards of macOS, read from the output of \<open>ioreg\<close>. What the command
  answers is a parameter, as is the lower case of letters outside ASCII (\<open>uni\<close>).
\<close>

section \<open>Numbers\<close>

text \<open>The formats \<open>{:04x}\<close> and \<open>{:08x}\<close>: at least that many digits.\<close>

fun lower_hex :: "nat \<Rightarrow> string" where
  "lower_hex n = (if n < 16 then [hex_digit n] else lower_hex (n div 16) @ [hex_digit (n mod 16)])"

declare lower_hex.simps [simp del]

definition show_hex_at_least :: "nat \<Rightarrow> u32 \<Rightarrow> string" where
  "show_hex_at_least w n = (let ds = lower_hex (unat n) in replicate (w - length ds) (CHR ''0'') @ ds)"

text \<open>\<open>u32::from_str_radix\<close>; with radix 10 also \<open>str::parse\<close>. One leading plus sign is allowed.\<close>

definition digit_of :: "nat \<Rightarrow> char \<Rightarrow> nat option" where
  "digit_of radix c =
     (let n = of_char c :: nat;
          v = (if 48 \<le> n \<and> n \<le> 57 then n - 48 else if 97 \<le> n \<and> n \<le> 122 then n - 87
               else if 65 \<le> n \<and> n \<le> 90 then n - 55 else radix)
      in if v < radix then Some v else None)"

definition from_str_radix :: "nat \<Rightarrow> string \<Rightarrow> u32 option" where
  "from_str_radix radix s =
     (let ds = (if length s > 1 \<and> hd s = CHR ''+'' then tl s else s)
      in if ds = [] then None
         else
           (case those (map (digit_of radix) ds) of
              None \<Rightarrow> None
            | Some vs \<Rightarrow> (let n = foldl (\<lambda>a v. a * radix + v) 0 vs in if n < 2 ^ 32 then Some (word_of_nat n) else None)))"

definition parse_hex_u32 :: "string \<Rightarrow> u32 option" where
  "parse_hex_u32 s = (if take 2 s = ''0x'' then from_str_radix 16 (drop 2 s) else from_str_radix 10 s)"

section \<open>Lines\<close>

definition vendor_id_to_name :: "u32 \<Rightarrow> string" where
  "vendor_id_to_name vendor_id =
     (case map_of
        [(0x05ac, ''Apple''), (0x046d, ''Logitech''), (0x045e, ''Microsoft''), (0x0c45, ''Kensington''), (0x04b3, ''IBM''),
         (0x0842, ''HP''), (0x06e0, ''Genius''), (0x1131, ''Filco''), (0x04d9, ''Holtek''), (0x1532, ''Razer''),
         (0x0b05, ''Aspect''), (0x1a89, ''XIAOMI'')] vendor_id of
        Some name \<Rightarrow> name
      | None \<Rightarrow> ''0x'' @ show_hex_at_least 4 vendor_id)"

text \<open>\<open>trim_matches\<close> of the quotation mark.\<close>

definition trim_quote_marks :: "string \<Rightarrow> string" where
  "trim_quote_marks s = rev (dropWhile (\<lambda>c. c = CHR 0x22) (rev (dropWhile (\<lambda>c. c = CHR 0x22) s)))"

definition parse_property_line :: "string \<Rightarrow> (string \<times> string) option" where
  "parse_property_line line0 =
     (case trim_start line0 of
        [] \<Rightarrow> None
      | c # rest \<Rightarrow>
          if c \<noteq> CHR ''|'' then None
          else
            (let line = trim_start rest
             in case str_find '' = '' line of
                  None \<Rightarrow> None
                | Some i \<Rightarrow> Some (trim_quote_marks (trim (take i line)), trim_quote_marks (trim (drop (i + 3) line)))))"

text \<open>The text after the mark of a device entry, if the line is one.\<close>

definition device_entry :: "string \<Rightarrow> string option" where
  "device_entry trimmed =
     (if take 8 trimmed = ''|   +-o '' then Some (drop 8 trimmed)
      else if take 4 trimmed = ''+-o '' then Some (drop 4 trimmed) else None)"

definition new_device :: "string \<Rightarrow> keyboard_info" where
  "new_device name_part =
     \<lparr>ki_name = trim (takeWhile (\<lambda>c. c \<noteq> CHR ''<'') name_part), ki_vendor = ''<unknown>'', ki_model = ''<unknown>'',
      ki_device = ''system'', ki_port = None\<rparr>"

definition apply_property :: "(string \<Rightarrow> string) \<Rightarrow> string \<Rightarrow> string \<Rightarrow> keyboard_info \<Rightarrow> keyboard_info" where
  "apply_property uni key value kb =
     (if key = ''Product'' then (if value \<noteq> [] then kb\<lparr>ki_name := value\<rparr> else kb)
      else if key = ''Vendor ID'' then
        (case parse_hex_u32 value of
           Some vid \<Rightarrow> kb\<lparr>ki_vendor := vendor_id_to_name vid, ki_model := ''0x'' @ show_hex_at_least 4 vid\<rparr>
         | None \<Rightarrow> kb)
      else if key = ''Product ID'' then
        (case parse_hex_u32 value of
           Some pid \<Rightarrow> kb\<lparr>ki_model := ki_model kb @ '':0x'' @ show_hex_at_least 4 pid\<rparr>
         | None \<Rightarrow> kb)
      else if key = ''Location ID'' then
        (case parse_hex_u32 value of Some loc \<Rightarrow> kb\<lparr>ki_device := ''0x'' @ show_hex_at_least 8 loc\<rparr> | None \<Rightarrow> kb)
      else if key = ''Transport'' then
        (let kb1 = kb\<lparr>ki_port := Some value\<rparr>
         in if ki_device kb1 = ''system'' then kb1\<lparr>ki_device := str_to_lowercase uni value @ '':'' @ ki_device kb1\<rparr> else kb1)
      else kb)"

text \<open>One line, over the keyboards finished so far and the current one.\<close>

definition ioreg_line ::
  "(string \<Rightarrow> string) \<Rightarrow> string \<Rightarrow> keyboard_info list \<times> keyboard_info option \<Rightarrow> keyboard_info list \<times> keyboard_info option" where
  "ioreg_line uni line st =
     (case st of (kbs, current) \<Rightarrow>
        let trimmed = trim_start line
        in case device_entry trimmed of
             Some name_part \<Rightarrow>
               (kbs @ (case current of Some kb \<Rightarrow> [kb] | None \<Rightarrow> []), Some (new_device name_part))
           | None \<Rightarrow>
               (kbs, (case current of
                        None \<Rightarrow> None
                      | Some kb \<Rightarrow>
                          Some (case parse_property_line trimmed of
                                  Some (key, value) \<Rightarrow> apply_property uni key value kb
                                | None \<Rightarrow> kb))))"

definition parse_ioreg_output :: "(string \<Rightarrow> string) \<Rightarrow> string \<Rightarrow> keyboard_info list" where
  "parse_ioreg_output uni out =
     (case fold (ioreg_line uni) (str_lines out) ([], None) of
        (kbs, current) \<Rightarrow> kbs @ (case current of Some kb \<Rightarrow> [kb] | None \<Rightarrow> []))"

section \<open>The command\<close>

datatype ioreg_error = IoregNotRun | IoregFailed | IoregNotUtf8

text \<open>\<open>None\<close> if the command could not be run, otherwise whether it succeeded and its output.\<close>

definition run_ioreg :: "(bool \<times> bytes) option \<Rightarrow> ioreg_error + string" where
  "run_ioreg answer =
     (case answer of
        None \<Rightarrow> Inl IoregNotRun
      | Some (success, out) \<Rightarrow>
          if \<not> success then Inl IoregFailed
          else if utf8_ok out then Inr (bytes_str out) else Inl IoregNotUtf8)"

definition mac_list_keyboards :: "(string \<Rightarrow> string) \<Rightarrow> (bool \<times> bytes) option \<Rightarrow> ioreg_error + keyboard_info list" where
  "mac_list_keyboards uni answer =
     (case run_ioreg answer of Inl e \<Rightarrow> Inl e | Inr out \<Rightarrow> Inr (parse_ioreg_output uni out))"

section \<open>Facts\<close>

text \<open>A keyboard is listed for every device entry, in order; lines before the first entry are ignored.\<close>

definition is_entry :: "string \<Rightarrow> bool" where
  "is_entry line \<longleftrightarrow> device_entry (trim_start line) \<noteq> None"

lemma ioreg_line_counts:
  "(case ioreg_line uni line st of (kbs, c) \<Rightarrow> length kbs + (if c = None then 0 else 1)) =
     (case st of (kbs, c) \<Rightarrow> length kbs + (if c = None then 0 else 1)) + (if is_entry line then 1 else 0)"
  by (cases st) (auto simp: ioreg_line_def is_entry_def Let_def split: option.splits)

lemma ioreg_fold_counts:
  "(case fold (ioreg_line uni) ls st of (kbs, c) \<Rightarrow> length kbs + (if c = None then 0 else 1)) =
     (case st of (kbs, c) \<Rightarrow> length kbs + (if c = None then 0 else 1)) + length (filter is_entry ls)"
  by (induction ls arbitrary: st) (simp_all add: ioreg_line_counts)

lemma one_keyboard_per_entry: "length (parse_ioreg_output uni out) = length (filter is_entry (str_lines out))"
  using ioreg_fold_counts [of uni "str_lines out" "([], None)"]
  by (auto simp: parse_ioreg_output_def split: prod.splits option.splits)

lemma lines_before_first_entry:
  "\<forall>l \<in> set ls. \<not> is_entry l \<Longrightarrow> fold (ioreg_line uni) ls ([], None) = ([], None)"
proof (induction ls)
  case (Cons l ls)
  then have "ioreg_line uni l ([], None) = ([], None)" by (simp add: ioreg_line_def is_entry_def Let_def)
  with Cons show ?case by simp
qed simp

text \<open>
  The product follows the vendor in the model only if the output names the vendor first; the other way round the
  product is lost.
\<close>

lemma vendor_then_product:
  assumes "parse_hex_u32 v = Some vid" "parse_hex_u32 p = Some pid"
  shows "ki_model (apply_property uni ''Product ID'' p (apply_property uni ''Vendor ID'' v kb)) =
      ''0x'' @ show_hex_at_least 4 vid @ '':0x'' @ show_hex_at_least 4 pid"
    and "ki_model (apply_property uni ''Vendor ID'' v (apply_property uni ''Product ID'' p kb)) = ''0x'' @ show_hex_at_least 4 vid"
  using assms by (simp_all add: apply_property_def)

text \<open>A device without a location keeps the word \<open>system\<close>, after its transport if that is known.\<close>

lemma transport_before_location:
  assumes "parse_hex_u32 l = Some loc"
  shows "ki_device (apply_property uni ''Location ID'' l (apply_property uni ''Transport'' t kb)) = ''0x'' @ show_hex_at_least 8 loc"
  using assms by (simp add: apply_property_def)

lemma failed_enumeration_is_error:
  "mac_list_keyboards uni answer = Inl e \<longleftrightarrow> run_ioreg answer = Inl e"
  by (auto simp: mac_list_keyboards_def split: sum.splits)

lemma lower_hex_length: "n < 16 ^ Suc k \<Longrightarrow> length (lower_hex n) \<le> Suc k"
proof (induction k arbitrary: n)
  case 0
  then show ?case by (simp add: lower_hex.simps [of n])
next
  case (Suc k)
  then have "n div 16 < 16 ^ Suc k" by (simp add: less_mult_imp_div_less mult.commute)
  with Suc.IH show ?case by (simp add: lower_hex.simps [of n])
qed

text \<open>The location of a device always has eight digits.\<close>

lemma location_digits: "length (show_hex_at_least 8 loc) = 8"
proof -
  have "unat loc < 2 ^ 32" using unsigned_less [of loc, where ?'a = nat] by simp
  then have "unat loc < 16 ^ Suc 7" by simp
  from lower_hex_length [OF this] show ?thesis by (simp add: show_hex_at_least_def Let_def)
qed

end
