(* ===== verification/Cli.thy ===== *)
theory Cli
  imports App_Native Backend Keyboard Hid_Usage Utf8 Logging
begin

text \<open>
  The commands of the client that print and that manage the daemon: \<open>src/cli/keys_cmd/mod.rs\<close>,
  \<open>keyboard_cmd/mod.rs\<close> and \<open>daemon_cmd/\<close> (\<open>mod.rs\<close>, \<open>linux.rs\<close>, \<open>macos.rs\<close>, \<open>windows.rs\<close>). What the service
  managers and the process table answer is a parameter; what is printed is a list of lines.
\<close>

section \<open>keys list\<close>

datatype list_category = CatModifiers | CatEditor | CatNavigation | CatNumpad | CatSymbols | CatMedia | CatDisplay | CatRange

definition list_category_of :: "hid_usage \<Rightarrow> list_category" where
  "list_category_of usage =
     (case usage of
        ModifierUsage _ \<Rightarrow> CatModifiers
      | CapsUsage _ \<Rightarrow> CatModifiers
      | EditorUsage _ \<Rightarrow> CatEditor
      | ClusterUsage c \<Rightarrow> if c = U_Insert then CatNavigation else CatEditor
      | MenuUsage _ \<Rightarrow> CatEditor
      | NavigationUsage _ \<Rightarrow> CatNavigation
      | FunctionUsage _ \<Rightarrow> CatRange
      | LetterUsage _ \<Rightarrow> CatRange
      | NumberUsage _ \<Rightarrow> CatRange
      | NumpadUsage n \<Rightarrow>
          if n \<in> {U_NumpadDecimal, U_NumpadMultiply, U_NumpadPlus, U_NumpadDivide, U_NumpadEnter, U_NumpadMinus, U_NumLock,
                  U_NumpadEqual}
          then CatNumpad else CatRange
      | PunctuationUsage _ \<Rightarrow> CatSymbols
      | MediaUsage _ \<Rightarrow> CatMedia
      | DisplayUsage _ \<Rightarrow> CatDisplay)"

definition category_keys :: "list_category \<Rightarrow> hid_usage list" where
  "category_keys c = filter (\<lambda>usage. list_category_of usage = c) hid_all"

text \<open>The format \<open>{:02X}\<close> of an id below 256, which those of the Consumer page in the table are.\<close>

definition show_hex2 :: "nat \<Rightarrow> string" where
  "show_hex2 n = map (\<lambda>d. char_of (if d < 10 then 48 + d else 55 + d :: nat)) [n div 16, n mod 16]"

definition key_line :: "hid_usage \<Rightarrow> string" where
  "key_line k =
     (if hid_page k = PAGE_CONSUMER then ''    '' @ as_str k @ ''  (consumer 0x'' @ show_hex2 (unat (hid_id k)) @ '')''
      else ''    '' @ as_str k)"

definition print_group :: "string \<Rightarrow> hid_usage list \<Rightarrow> string list" where
  "print_group name keys = (''  '' @ name @ '':'') # map key_line keys"

definition keys_list :: "string list" where
  "keys_list =
     print_group ''Modifiers'' (category_keys CatModifiers)
     @ print_group ''Editor/misc'' (category_keys CatEditor)
     @ print_group ''Navigation'' (category_keys CatNavigation)
     @ [''  Function keys:'', ''    F1 .. F12'', ''  Letters:'', ''    A .. Z'', ''  Numbers:'', ''    0 .. 9'']
     @ print_group ''Numpad'' (category_keys CatNumpad)
     @ [''    Numpad0 .. Numpad9'']
     @ print_group ''Symbols'' (category_keys CatSymbols)
     @ print_group ''Media'' (category_keys CatMedia)
     @ print_group ''Display'' (category_keys CatDisplay)
     @ [[], ''Total: '' @ show_nat (length hid_all) @ '' keys'']"

text \<open>The keys that are printed one by one, in the order of the listing.\<close>

definition listed_keys :: "hid_usage list" where
  "listed_keys = concat (map category_keys
     [CatModifiers, CatEditor, CatNavigation, CatNumpad, CatSymbols, CatMedia, CatDisplay])"

lemma key_line_in_list: "u \<in> set listed_keys \<Longrightarrow> key_line u \<in> set keys_list"
  by (auto simp: listed_keys_def keys_list_def print_group_def)

lemma listed_or_range: "u \<in> set listed_keys \<longleftrightarrow> list_category_of u \<noteq> CatRange"
  by (cases "list_category_of u") (auto simp: listed_keys_def category_keys_def)

lemma distinct_listed_keys: "distinct listed_keys"
  by (simp add: listed_keys_def category_keys_def distinct_hid_all) (auto simp: disjoint_iff)

text \<open>The keys that are not listed are those of the four ranges.\<close>

lemma range_keys:
  "list_category_of u = CatRange \<longleftrightarrow>
     (\<exists>f. u = FunctionUsage f) \<or> (\<exists>l. u = LetterUsage l) \<or> (\<exists>n. u = NumberUsage n) \<or>
     (\<exists>n. u = NumpadUsage n \<and>
        n \<in> {U_Numpad0, U_Numpad1, U_Numpad2, U_Numpad3, U_Numpad4, U_Numpad5, U_Numpad6, U_Numpad7, U_Numpad8, U_Numpad9})"
proof (cases u)
  case (NumpadUsage n)
  then show ?thesis by (cases n) (simp_all add: list_category_of_def)
qed (auto simp: list_category_of_def)

section \<open>keys probe\<close>

text \<open>
  A decoded key as it is printed: its name and the id of its usage, or the native code. The lines for a sequence of
  keys, of which \<open>observe\<close> delivers one at a time.
\<close>

definition probe_line :: "captured_key \<Rightarrow> string" where
  "probe_line key =
     (case ck_usage key of
        Some u \<Rightarrow> as_str u @ '': 0x'' @ show_hex2 (unat (hid_id u))
      | None \<Rightarrow> ''Unknown('' @ show_nat (unat (ck_native key)) @ ''): '' @ show_nat (unat (ck_native key)))"

definition print_captured :: "captured_key \<Rightarrow> string list" where
  "print_captured key = (if ck_direction key \<noteq> DirDown then [] else [probe_line key])"

definition linux_print :: "captured_key \<Rightarrow> string list" where
  "linux_print key = (if ck_value key \<noteq> 1 then [] else [probe_line key])"

definition probe_header :: "keyboard_info \<Rightarrow> string list" where
  "probe_header kb =
     [''Probing '' @ ki_name kb @ '' ('' @ ki_device kb @ '')'', [], ''Press keys to see their names and codes.'',
      ''Press Control+C to exit.'', []]"

text \<open>
  The probe of Linux, which needs a keyboard, and that of macOS and Windows, whose tap or hook sees every keyboard.
  \<open>observed\<close> is the error of opening, or the keys delivered. The first component says whether the process exits
  with code 1.
\<close>

definition linux_probe :: "string + keyboard_info list \<Rightarrow> (keyboard_info \<Rightarrow> string + captured_key list) \<Rightarrow> bool \<times> string list" where
  "linux_probe listed observed =
     (case listed of
        Inl e \<Rightarrow> (True, [''Failed to discover keyboards: '' @ e])
      | Inr [] \<Rightarrow> (True, [''No keyboard devices found.''])
      | Inr (kb # _) \<Rightarrow>
          (case observed kb of
             Inl e \<Rightarrow> (True, probe_header kb @ [''Failed to open keyboard device: '' @ e])
           | Inr keys \<Rightarrow> (False, probe_header kb @ concat (map linux_print keys))))"

definition session_keyboard :: keyboard_info where
  "session_keyboard =
     \<lparr>ki_name = ''Keyboard'', ki_vendor = [], ki_model = [], ki_device = ''session'', ki_port = None\<rparr>"

definition session_probe ::
  "string \<Rightarrow> string + keyboard_info list \<Rightarrow> (keyboard_info \<Rightarrow> string + captured_key list) \<Rightarrow> bool \<times> string list" where
  "session_probe failure listed observed =
     (let kb = (case listed of Inr (k # _) \<Rightarrow> k | _ \<Rightarrow> session_keyboard)
      in case observed kb of
           Inl e \<Rightarrow> (True, probe_header kb @ [failure @ e])
         | Inr keys \<Rightarrow> (False, probe_header kb @ concat (map print_captured keys)))"

text \<open>The two ways to tell a press agree.\<close>

lemma linux_print_captured: "linux_print key = print_captured key"
  by (auto simp: linux_print_def print_captured_def ck_direction_def)

text \<open>The probe does not depend on the enumeration where the capture does not.\<close>

lemma session_probe_without_keyboards:
  "session_probe failure (Inl e) observed = session_probe failure (Inr []) observed"
  by (simp add: session_probe_def)

section \<open>appnames\<close>

text \<open>The width is one of bytes, that of the format one of characters.\<close>

definition marked_active :: "string \<Rightarrow> app_name \<Rightarrow> bool" where
  "marked_active active app \<longleftrightarrow>
     active \<noteq> [] \<and> active \<noteq> ''unknown'' \<and> eq_ignore_ascii_case (an_name app) active"

definition app_line :: "nat \<Rightarrow> string \<Rightarrow> app_name \<Rightarrow> string" where
  "app_line width active app =
     (let marker = (if marked_active active app then ''*'' else '' '')
      in if an_display app = an_name app then marker @ '' '' @ an_name app
         else marker @ '' '' @ an_name app @ replicate (width - length (utf8_chars (an_name app))) (CHR '' '') @ ''  '' @ an_display app)"

definition appnames_run :: "app_name list \<Rightarrow> string \<Rightarrow> string list" where
  "appnames_run apps active =
     (if apps = [] then [''No visible applications found.'']
      else map (app_line (Max (insert 0 (set (map (\<lambda>app. length (an_name app)) apps)))) active) apps)"

text \<open>
  The mark is set by comparing without regard to the case of ASCII letters, the rules of an application are found by
  its lower case. For ASCII names that is the same; otherwise it need not be, as nothing is assumed of \<open>uni\<close>.
\<close>

lemma marked_as_matched:
  assumes "is_ascii (an_name app)" "is_ascii active" "active \<notin> {[], ''unknown''}"
  shows "marked_active active app \<longleftrightarrow> str_to_lowercase uni (an_name app) = str_to_lowercase uni active"
  using assms by (simp add: marked_active_def str_to_lowercase_ascii)

lemma upper_umlaut_not_marked:
  "\<not> marked_active [CHR 0xC3, CHR 0x84] \<lparr>an_name = [CHR 0xC3, CHR 0xA4], an_display = d\<rparr>"
  by (simp add: marked_active_def eq_ignore_ascii_case_def ascii_lower_def)

section \<open>keyboard list\<close>

text \<open>The ellipsis is one character of three bytes.\<close>

definition ellipsis :: string where "ellipsis = [CHR 0xE2, CHR 0x80, CHR 0xA6]"

definition char_count :: "string \<Rightarrow> nat" where "char_count s = length (utf8_chars s)"

definition pad :: "string \<Rightarrow> nat \<Rightarrow> string" where
  "pad s width =
     (if char_count s \<le> width then s @ replicate (width - char_count s) (CHR '' '')
      else if width \<le> 3 then concat (take width (utf8_chars s))
      else concat (take (width - 1) (utf8_chars s)) @ ellipsis)"

definition width_for_column :: "string \<Rightarrow> string list \<Rightarrow> nat" where
  "width_for_column header values = min (max (char_count header) (Max (insert 0 (set (map char_count values))))) 40"

definition keyboard_row :: "nat \<Rightarrow> nat \<Rightarrow> nat \<Rightarrow> nat \<Rightarrow> string \<Rightarrow> string \<Rightarrow> string \<Rightarrow> string \<Rightarrow> string \<Rightarrow> string" where
  "keyboard_row n v m p name vendor model port device =
     pad name n @ ''  '' @ pad vendor v @ ''  '' @ pad model m @ ''  '' @ pad port p @ ''  '' @ device"

definition rule_char :: string where "rule_char = [CHR 0xE2, CHR 0x94, CHR 0x80]"

definition rule_line :: "nat list \<Rightarrow> string" where
  "rule_line widths = join ''  '' (map (\<lambda>w. concat (replicate w rule_char)) widths)"

definition port_text :: "keyboard_info \<Rightarrow> string" where
  "port_text kb = (case ki_port kb of Some p \<Rightarrow> p | None \<Rightarrow> [])"

definition keyboard_list :: "string + keyboard_info list \<Rightarrow> string list" where
  "keyboard_list result =
     (case result of
        Inl e \<Rightarrow> [''Warning: '' @ e]
      | Inr kbs \<Rightarrow>
          if kbs = [] then [''No keyboard devices found.'']
          else
            (let n = width_for_column ''NAME'' (map ki_name kbs); v = width_for_column ''VENDOR'' (map ki_vendor kbs);
                 m = width_for_column ''MODEL'' (map ki_model kbs); p = width_for_column ''PORT'' (map port_text kbs);
                 d = width_for_column ''DEVICE'' (map ki_device kbs)
             in [keyboard_row n v m p ''NAME'' ''VENDOR'' ''MODEL'' ''PORT'' ''DEVICE'', rule_line [n, v, m, p, max d 10]]
                @ map (\<lambda>kb. keyboard_row n v m p (ki_name kb) (ki_vendor kb) (ki_model kb) (port_text kb) (ki_device kb)) kbs
                @ [[], ''Total: '' @ show_nat (length kbs) @ '' keyboard(s)'']))"

lemma char_count_append_spaces: "char_count (s @ replicate n (CHR '' '')) = char_count s + n"
proof -
  let ?sp = "replicate n [CHR '' '']"
  have sp: "char_list ?sp" by (induction n) (auto simp: continuation_def hd_replicate)
  have "char_list (utf8_chars s @ ?sp)"
    by (rule char_list_append [OF char_list_utf8_chars sp]) (cases n; simp add: continuation_def)
  from utf8_chars_concat [OF this] show ?thesis
    by (simp add: char_count_def concat_utf8_chars concat_replicate_single)
qed

lemma char_count_concat_take: "char_count (concat (take n (utf8_chars s))) = min (char_count s) n"
  using utf8_chars_concat [OF char_list_take [OF char_list_utf8_chars]] by (simp add: char_count_def)

text \<open>A cell has the width of its column in characters, whatever bytes its text has.\<close>

lemma pad_width: "char_count (pad s width) = width"
proof -
  have e: "char_list [ellipsis]" by (simp add: ellipsis_def continuation_def)
  have "char_list (take (width - 1) (utf8_chars s) @ [ellipsis])"
    by (rule char_list_append [OF char_list_take [OF char_list_utf8_chars] e]) (simp add: ellipsis_def continuation_def)
  from utf8_chars_concat [OF this] show ?thesis
    by (auto simp: pad_def char_count_append_spaces char_count_concat_take) (simp add: char_count_def)
qed

section \<open>daemon: the commands\<close>

text \<open>
  The second service: its name, whether it runs, and what the operation on it answers. \<open>None\<close> on platforms
  without one.
\<close>

type_synonym secondary = "(string \<times> bool \<times> (string + unit)) option"

definition daemon_status :: "bool \<Rightarrow> secondary \<Rightarrow> string list" where
  "daemon_status running sec =
     (if running then ''keymapperd is running'' else ''keymapperd is not running'') #
     (case sec of
        Some (name, sec_running, _) \<Rightarrow> [name @ '' is '' @ (if sec_running then [] else ''not '') @ ''running'']
      | None \<Rightarrow> [])"

definition secondary_part :: "bool \<Rightarrow> string \<Rightarrow> secondary \<Rightarrow> (string + unit) \<times> string list" where
  "secondary_part wanted verb sec =
     (case sec of
        Some (name, sec_running, answer) \<Rightarrow>
          if sec_running = wanted then
            (case answer of Inl e \<Rightarrow> (Inl e, []) | Inr _ \<Rightarrow> (Inr (), [name @ '' '' @ verb]))
          else (Inr (), [])
      | None \<Rightarrow> (Inr (), []))"

definition daemon_start :: "bool \<Rightarrow> string + unit \<Rightarrow> secondary \<Rightarrow> (string + unit) \<times> string list" where
  "daemon_start running start_service sec =
     (case (if running then Inr [''keymapperd is already running'']
            else (case start_service of Inl e \<Rightarrow> Inl e | Inr _ \<Rightarrow> Inr [''keymapperd started''])) of
        Inl e \<Rightarrow> (Inl e, [])
      | Inr ls \<Rightarrow> (case secondary_part False ''started'' sec of (r, ls') \<Rightarrow> (r, ls @ ls')))"

text \<open>The polls of \<open>is_running\<close>, each with the time at which the deadline is looked at before it.\<close>

fun wait_for_exit :: "nat \<Rightarrow> (nat \<times> bool) list \<Rightarrow> bool" where
  "wait_for_exit deadline [] = False"
| "wait_for_exit deadline ((now, running) # polls) =
     (if now < deadline then (if \<not> running then True else wait_for_exit deadline polls) else False)"

text \<open>The last component says whether the service manager was asked.\<close>

definition daemon_stop ::
  "bool \<Rightarrow> 'e + string \<Rightarrow> nat \<Rightarrow> (nat \<times> bool) list \<Rightarrow> string + unit \<Rightarrow> secondary \<Rightarrow> (string + unit) \<times> string list \<times> bool" where
  "daemon_stop running shutdown now polls stop_service sec =
     (let gracefully = (case shutdown of Inr _ \<Rightarrow> wait_for_exit (now + 5000) polls | Inl _ \<Rightarrow> False);
          asked = (running \<and> \<not> gracefully)
      in case (if \<not> running then Inr [''keymapperd is not running'']
               else if gracefully then Inr [''keymapperd stopped'']
               else (case stop_service of Inl e \<Rightarrow> Inl e | Inr _ \<Rightarrow> Inr [''keymapperd stopped''])) of
           Inl e \<Rightarrow> (Inl e, [], asked)
         | Inr ls \<Rightarrow> (case secondary_part True ''stopped'' sec of (r, ls') \<Rightarrow> (r, ls @ ls', asked)))"

definition daemon_restart :: "string + unit \<Rightarrow> (string \<times> (string + unit)) option \<Rightarrow> (string + unit) \<times> string list" where
  "daemon_restart restart_service sec =
     (case restart_service of
        Inl e \<Rightarrow> (Inl e, [])
      | Inr _ \<Rightarrow>
          (case sec of
             None \<Rightarrow> (Inr (), [''keymapperd restarted''])
           | Some (name, Inl e) \<Rightarrow> (Inl e, [''keymapperd restarted''])
           | Some (name, Inr _) \<Rightarrow> (Inr (), [''keymapperd restarted'', name @ '' restarted''])))"

text \<open>
  \<open>log\<close>: the answer of the control channel is an error, with its text and whether the connection failed, or the
  daemon's reply. The last component says whether the warning is printed.
\<close>

definition daemon_log :: "(bool \<times> string) + string \<Rightarrow> level_filter \<Rightarrow> (string + unit) \<times> string list \<times> bool" where
  "daemon_log answer level =
     (case answer of
        Inl (connecting, text) \<Rightarrow>
          (Inl (if connecting then text @ ''. Is keymapperd running, and at least as new as this CLI?'' else text), [], False)
      | Inr reply \<Rightarrow>
          if take 6 reply = ''ERROR '' then (Inl (drop 6 reply), [], False)
          else (Inr (), [reply], LvlDebug \<le> level))"

lemma wait_for_exit_gone: "wait_for_exit deadline polls \<Longrightarrow> \<exists>now. (now, False) \<in> set polls \<and> now < deadline"
  by (induction deadline polls rule: wait_for_exit.induct) (auto split: if_splits)

text \<open>The manager is asked whenever the daemon has not been seen to go.\<close>

lemma stop_falls_back:
  "snd (snd (daemon_stop True shutdown now polls stop_service sec)) \<longleftrightarrow>
     \<not> (\<exists>reply. shutdown = Inr reply \<and> wait_for_exit (now + 5000) polls)"
  by (auto simp: daemon_stop_def Let_def split: sum.splits prod.splits)

lemma warned_iff_confirmed:
  "snd (snd (daemon_log answer level)) \<longleftrightarrow> fst (daemon_log answer level) = Inr () \<and> LvlDebug \<le> level"
  by (auto simp: daemon_log_def split: sum.splits prod.splits)

section \<open>daemon: the service managers\<close>

text \<open>A command that ran: whether it succeeded, and what it wrote to its error output; \<open>None\<close> if it could not be run.\<close>

type_synonym command_output = "(bool \<times> string) option"

definition first_line :: "string \<Rightarrow> string" where
  "first_line stderr = (case str_lines (trim stderr) of [] \<Rightarrow> ''unknown error'' | l # _ \<Rightarrow> l)"

definition command_result :: "string \<Rightarrow> string \<Rightarrow> command_output \<Rightarrow> string + unit" where
  "command_result invoke_error failed out =
     (case out of
        None \<Rightarrow> Inl invoke_error
      | Some (True, _) \<Rightarrow> Inr ()
      | Some (False, stderr) \<Rightarrow> Inl (failed @ first_line stderr))"

definition exit_ok :: "command_output \<Rightarrow> bool" where
  "exit_ok out = (case out of Some (ok, _) \<Rightarrow> ok | None \<Rightarrow> False)"

text \<open>Linux: \<open>systemctl --user\<close>.\<close>

definition linux_service_start :: "bool \<Rightarrow> command_output \<Rightarrow> string + unit" where
  "linux_service_start unit_exists out =
     (if \<not> unit_exists then Inl ''systemd unit not found''
      else command_result ''failed to invoke systemctl'' ''systemctl start failed: '' out)"

definition linux_service_stop :: "command_output \<Rightarrow> string + unit" where
  "linux_service_stop out = command_result ''failed to invoke systemctl'' ''systemctl stop failed: '' out"

definition linux_service_restart :: "command_output \<Rightarrow> string + unit" where
  "linux_service_restart out = command_result ''failed to invoke systemctl'' ''systemctl restart failed: '' out"

text \<open>macOS: \<open>launchctl\<close>. \<open>is_loaded\<close> is asked after a failure only.\<close>

definition contains_sudo :: "string \<Rightarrow> bool" where "contains_sudo s \<longleftrightarrow> str_find ''sudo:'' s \<noteq> None"

definition bootout :: "bool \<Rightarrow> command_output \<Rightarrow> bool \<Rightarrow> string + unit" where
  "bootout sudo out is_loaded =
     (case out of
        None \<Rightarrow> Inl ''failed to invoke launchctl''
      | Some (True, _) \<Rightarrow> Inr ()
      | Some (False, stderr) \<Rightarrow>
          if sudo \<and> contains_sudo stderr then Inl (''launchctl bootout failed: '' @ first_line stderr)
          else if \<not> is_loaded then Inr ()
          else Inl (''launchctl bootout failed: '' @ first_line stderr))"

definition verify_daemon_started :: "(nat \<times> bool) list \<Rightarrow> nat \<Rightarrow> bool \<Rightarrow> string + unit" where
  "verify_daemon_started polls now still_running =
     (if \<not> wait_for_exit (now + 3000) (map (\<lambda>(t, running). (t, \<not> running)) polls) then Inl ''keymapperd did not start''
      else if \<not> still_running then Inl ''keymapperd started but exited immediately''
      else Inr ())"

text \<open>The answer of the \<open>bootout\<close> before the start is ignored.\<close>

definition mac_service_start :: "bool \<Rightarrow> command_output \<Rightarrow> string + unit \<Rightarrow> string + unit" where
  "mac_service_start plist_exists bootstrap verified =
     (if \<not> plist_exists then Inl ''launchd plist not found''
      else
        (case command_result ''failed to invoke launchctl'' ''launchctl bootstrap failed: '' bootstrap of
           Inl e \<Rightarrow> Inl e | Inr _ \<Rightarrow> verified))"

definition mac_service_restart :: "string + unit \<Rightarrow> command_output \<Rightarrow> string + unit \<Rightarrow> string + unit" where
  "mac_service_restart stopped bootstrap verified =
     (case stopped of
        Inl e \<Rightarrow> Inl e
      | Inr _ \<Rightarrow>
          (case command_result ''failed to invoke launchctl'' ''launchctl bootstrap failed: '' bootstrap of
             Inl e \<Rightarrow> Inl e | Inr _ \<Rightarrow> verified))"

text \<open>The second service is not looked at after its start.\<close>

definition virtkbdd_start :: "bool \<Rightarrow> command_output \<Rightarrow> string + unit" where
  "virtkbdd_start plist_exists bootstrap =
     (if \<not> plist_exists then Inl ''launchd plist not found''
      else command_result ''failed to invoke sudo launchctl'' ''launchctl bootstrap failed: '' bootstrap)"

definition virtkbdd_restart :: "string + unit \<Rightarrow> command_output \<Rightarrow> string + unit" where
  "virtkbdd_restart stopped bootstrap =
     (case stopped of
        Inl e \<Rightarrow> Inl e
      | Inr _ \<Rightarrow> command_result ''failed to invoke sudo launchctl'' ''launchctl bootstrap failed: '' bootstrap)"

lemma bootout_ok_means_unloaded:
  "bootout sudo (Some (False, stderr)) is_loaded = Inr () \<Longrightarrow> \<not> is_loaded \<and> \<not> (sudo \<and> contains_sudo stderr)"
  by (auto simp: bootout_def split: if_splits)

text \<open>
  Windows: the processes, each with its id, the name of its image, and whether it can be opened and terminated. The
  name searched for is given with its encoding.
\<close>

record win_process =
  wp_pid :: u32
  wp_image :: "u16 list"
  wp_opens :: bool
  wp_terminates :: bool

definition until_null :: "u16 list \<Rightarrow> u16 list" where
  "until_null w = take (case position (\<lambda>c. c = 0) w of Some i \<Rightarrow> i | None \<Rightarrow> length w) w"

definition wide_eq :: "u16 list \<Rightarrow> u16 list \<Rightarrow> bool" where
  "wide_eq a b \<longleftrightarrow> length (until_null a) = length (until_null b) \<and> until_null a = until_null b"

definition target_image :: "(string \<Rightarrow> u16 list) \<Rightarrow> string \<Rightarrow> u16 list" where
  "target_image enc name =
     enc (if length name \<ge> 4 \<and> drop (length name - 4) name = ''.exe'' then name else name @ ''.exe'') @ [0]"

text \<open>\<open>None\<close> stands for a snapshot that cannot be taken.\<close>

definition find_pids :: "(string \<Rightarrow> u16 list) \<Rightarrow> string \<Rightarrow> win_process list option \<Rightarrow> win_process list" where
  "find_pids enc name procs =
     (case procs of None \<Rightarrow> [] | Some ps \<Rightarrow> filter (\<lambda>p. wide_eq (wp_image p) (target_image enc name)) ps)"

definition win_is_running :: "(string \<Rightarrow> u16 list) \<Rightarrow> win_process list option \<Rightarrow> bool" where
  "win_is_running enc procs \<longleftrightarrow> find_pids enc ''keymapperd'' procs \<noteq> []"

text \<open>The result, and the processes terminated.\<close>

fun terminate_all :: "win_process list \<Rightarrow> (u32 + unit) \<times> u32 list" where
  "terminate_all [] = (Inr (), [])"
| "terminate_all (p # ps) =
     (if \<not> wp_opens p then terminate_all ps
      else if \<not> wp_terminates p then (Inl (wp_pid p), [])
      else (case terminate_all ps of (r, killed) \<Rightarrow> (r, wp_pid p # killed)))"

definition win_stop :: "(string \<Rightarrow> u16 list) \<Rightarrow> win_process list option \<Rightarrow> (u32 + unit) \<times> u32 list" where
  "win_stop enc procs = terminate_all (find_pids enc ''keymapperd'' procs)"

definition verify_start :: "string + unit \<Rightarrow> bool \<Rightarrow> string + unit" where
  "verify_start spawned running_after =
     (case spawned of
        Inl e \<Rightarrow> Inl e
      | Inr _ \<Rightarrow> if \<not> running_after then Inl ''daemon started but exited immediately'' else Inr ())"

definition win_restart :: "u32 + unit \<Rightarrow> string + unit \<Rightarrow> (u32 + string) + unit" where
  "win_restart stopped started =
     (case stopped of Inl pid \<Rightarrow> Inl (Inl pid) | Inr _ \<Rightarrow> (case started of Inl e \<Rightarrow> Inl (Inr e) | Inr _ \<Rightarrow> Inr ()))"

lemma wide_eq_iff: "wide_eq a b \<longleftrightarrow> until_null a = until_null b"
  by (auto simp: wide_eq_def)

lemma terminate_all_ok: "terminate_all ps = (Inr (), killed) \<Longrightarrow> killed = map wp_pid (filter wp_opens ps)"
  by (induction ps arbitrary: killed) (auto split: if_splits prod.splits)

text \<open>
  A stop that succeeds has terminated the processes it could open; one it could not open, such as that of another user,
  still runs, and success is reported.
\<close>

lemma win_stop_skips_unopened:
  "win_stop enc procs = (Inr (), killed) \<Longrightarrow> killed = map wp_pid (filter wp_opens (find_pids enc ''keymapperd'' procs))"
  by (simp add: win_stop_def terminate_all_ok)

lemma terminate_all_unopened: "\<forall>p \<in> set ps. \<not> wp_opens p \<Longrightarrow> terminate_all ps = (Inr (), [])"
  by (induction ps) auto

lemma win_stop_of_unopened:
  "\<forall>p \<in> set (find_pids enc ''keymapperd'' procs). \<not> wp_opens p \<Longrightarrow> win_stop enc procs = (Inr (), [])"
  by (simp add: win_stop_def terminate_all_unopened)

end
