(* ===== verification/Logfmt.thy ===== *)
theory Logfmt
  imports Backend Logging Utf8
begin

text \<open>
  The grammar of the debug log: \<open>src/keymap_core/logfmt.rs\<close>, which writes it, and \<open>tests/log_verify.rs\<close> (in
  \<open>src/tests\<close> of the repository), which reads it back to verify an end-to-end test.
\<close>

section \<open>Writing (logfmt.rs)\<close>

text \<open>\<open>Direction\<close> is the type \<open>direction\<close> of \<open>Backend\<close>, whose captured keys have one.\<close>

definition direction_from_is_down :: "bool \<Rightarrow> direction" where
  "direction_from_is_down down = (if down then DirDown else DirUp)"

fun direction_str :: "direction \<Rightarrow> string" where
  "direction_str DirDown = ''down''"
| "direction_str DirUp = ''up''"
| "direction_str DirRepeat = ''repeat''"

fun direction_level :: "direction \<Rightarrow> level_filter" where
  "direction_level DirUp = LvlTrace"
| "direction_level DirDown = LvlDebug"
| "direction_level DirRepeat = LvlDebug"

definition modifier_names :: "u8 \<Rightarrow> string list" where
  "modifier_names mods =
     List.map_filter
       (\<lambda>bit. case try_from_bit bit of
           None \<Rightarrow> None
         | Some role \<Rightarrow> map_option as_str (hid_keyboard (role_hid_id role)))
       (filter (\<lambda>bit. drop_bit (unat bit) mods AND 1 = 1) (map word_of_nat [0..<8]))"

definition fmt_modifiers_and_key :: "u8 \<Rightarrow> hid_usage \<Rightarrow> string" where
  "fmt_modifiers_and_key mods key = join ''+'' (modifier_names mods @ [as_str key])"

definition fmt_native_key :: "native_key \<Rightarrow> string" where
  "fmt_native_key key = fmt_modifiers_and_key (nk_modifiers key) (nk_usage key)"

definition fmt_native_keys :: "native_key list \<Rightarrow> string" where
  "fmt_native_keys keys = join '', '' (map fmt_native_key keys)"

definition fmt_key_event :: "key_event \<Rightarrow> string" where
  "fmt_key_event event =
     fmt_native_key \<lparr>nk_modifiers = compile_modifier_bits (ke_modifiers event), nk_usage = ke_base event\<rparr>"

definition ARROW :: string where "ARROW = '' -> ''"

definition fmt_recv :: "string \<Rightarrow> direction \<Rightarrow> hid_usage \<Rightarrow> string" where
  "fmt_recv native dir usage = ''recv '' @ native @ '' '' @ direction_str dir @ ARROW @ as_str usage"

definition fmt_pass :: "string \<Rightarrow> direction \<Rightarrow> hid_usage \<Rightarrow> string" where
  "fmt_pass native dir usage = ''pass '' @ native @ '' '' @ direction_str dir @ ARROW @ as_str usage"

definition fmt_swal :: "string \<Rightarrow> direction \<Rightarrow> hid_usage \<Rightarrow> string" where
  "fmt_swal native dir usage = ''swal '' @ native @ '' '' @ direction_str dir @ ARROW @ as_str usage"

definition fmt_emit :: "native_key \<Rightarrow> string" where
  "fmt_emit out = ''emit '' @ fmt_native_key out"

text \<open>What each function hands to the logger: the level and the text.\<close>

definition log_recv :: "string \<Rightarrow> direction \<Rightarrow> hid_usage \<Rightarrow> level_filter \<times> string" where
  "log_recv native dir usage =
     (if direction_level dir = LvlTrace then LvlTrace else LvlDebug,
      ''recv '' @ native @ '' '' @ direction_str dir @ ARROW @ as_str usage)"

definition log_pass :: "string \<Rightarrow> direction \<Rightarrow> hid_usage \<Rightarrow> level_filter \<times> string" where
  "log_pass native dir usage =
     (if direction_level dir = LvlTrace then LvlTrace else LvlDebug,
      ''pass '' @ native @ '' '' @ direction_str dir @ ARROW @ as_str usage)"

definition log_swal :: "string \<Rightarrow> direction \<Rightarrow> hid_usage \<Rightarrow> level_filter \<times> string" where
  "log_swal native dir usage =
     (LvlTrace, ''swal '' @ native @ '' '' @ direction_str dir @ ARROW @ as_str usage)"

definition log_emit :: "native_key \<Rightarrow> level_filter \<times> string" where
  "log_emit out = (LvlDebug, ''emit '' @ fmt_native_key out)"

definition log_map :: "u8 \<Rightarrow> hid_usage \<Rightarrow> native_key list \<Rightarrow> level_filter \<times> string" where
  "log_map lookup_modifiers usage outs =
     (LvlDebug,
      ''map '' @ fmt_modifiers_and_key lookup_modifiers usage @ '' -> ['' @ fmt_native_keys outs @ '']'')"

section \<open>Reading (log_verify.rs)\<close>

datatype log_kind = KindRecv | KindPass | KindSwal

record log_key_event =
  le_kind :: log_kind
  le_usage :: hid_usage
  le_action :: direction

datatype log_message = MsgKey log_key_event | MsgEmit string

definition split_line :: "string \<Rightarrow> (bool \<times> string) option" where
  "split_line line =
     (case str_find '': '' line of
        None \<Rightarrow> None
      | Some sep \<Rightarrow> Some (list_ex (\<lambda>token. token = ''ERROR'') (split_whitespace (take sep line)), drop (sep + 2) line))"

definition parse_action :: "string \<Rightarrow> direction option" where
  "parse_action s =
     (if s = ''down'' then Some DirDown else if s = ''up'' then Some DirUp
      else if s = ''repeat'' then Some DirRepeat else None)"

definition parse_key_line :: "log_kind \<Rightarrow> string \<Rightarrow> log_message option" where
  "parse_key_line kind rest =
     (case str_rfind ARROW rest of
        None \<Rightarrow> None
      | Some arrow \<Rightarrow>
          (let left = take arrow rest; usage_str = drop (arrow + length ARROW) rest
           in case parse_action (last (split_on (CHR '' '') left)) of
                None \<Rightarrow> None
              | Some action \<Rightarrow>
                  (case try_from_str usage_str of
                     Inl _ \<Rightarrow> None
                   | Inr usage \<Rightarrow> Some (MsgKey \<lparr>le_kind = kind, le_usage = usage, le_action = action\<rparr>))))"

definition strip_word :: "string \<Rightarrow> string \<Rightarrow> string option" where
  "strip_word word s = (if take (length word) s = word then Some (drop (length word) s) else None)"

definition parse_message :: "string \<Rightarrow> log_message option" where
  "parse_message message =
     (case strip_word ''recv '' message of
        Some rest \<Rightarrow> parse_key_line KindRecv rest
      | None \<Rightarrow>
          (case strip_word ''pass '' message of
             Some rest \<Rightarrow> parse_key_line KindPass rest
           | None \<Rightarrow>
               (case strip_word ''swal '' message of
                  Some rest \<Rightarrow> parse_key_line KindSwal rest
                | None \<Rightarrow> map_option MsgEmit (strip_word ''emit '' message))))"

record parsed_phase =
  pp_emits :: "string list"
  pp_key_events :: "log_key_event list"
  pp_error_lines :: "string list"
  pp_window :: "string list"

definition parsed_phase_new :: parsed_phase where
  "parsed_phase_new = \<lparr>pp_emits = [], pp_key_events = [], pp_error_lines = [], pp_window = []\<rparr>"

definition parse_line :: "string \<Rightarrow> parsed_phase \<Rightarrow> parsed_phase" where
  "parse_line line p =
     (let p1 = p\<lparr>pp_window := pp_window p @ [line]\<rparr>
      in case split_line line of
           None \<Rightarrow> p1
         | Some (is_error, message) \<Rightarrow>
             if is_error then p1\<lparr>pp_error_lines := pp_error_lines p1 @ [line]\<rparr>
             else
               (case parse_message message of
                  Some (MsgKey event) \<Rightarrow> p1\<lparr>pp_key_events := pp_key_events p1 @ [event]\<rparr>
                | Some (MsgEmit key) \<Rightarrow> p1\<lparr>pp_emits := pp_emits p1 @ [key]\<rparr>
                | None \<Rightarrow> p1))"

definition parse_lines :: "string list \<Rightarrow> parsed_phase" where
  "parse_lines ls = fold parse_line ls parsed_phase_new"

text \<open>What an end-to-end test expects, and the problems that are found.\<close>

record expected_phase =
  ep_emits :: "string list"
  ep_passthrough :: "hid_usage list"
  ep_injected :: "hid_usage list"

datatype phase_problem = EmitMismatch | NoRecv hid_usage | NoPassDown hid_usage | ErrorLines nat

definition verify_phase :: "expected_phase \<Rightarrow> parsed_phase \<Rightarrow> phase_problem list" where
  "verify_phase expected parsed =
     (if pp_emits parsed \<noteq> ep_emits expected then [EmitMismatch] else []) @
     concat (map (\<lambda>key.
       (if list_ex (\<lambda>e. le_kind e = KindRecv \<and> le_usage e = key) (pp_key_events parsed) then [] else [NoRecv key]) @
       (if list_ex (\<lambda>e. le_kind e = KindPass \<and> le_usage e = key \<and> le_action e = DirDown) (pp_key_events parsed)
        then [] else [NoPassDown key])) (ep_passthrough expected)) @
     (if pp_error_lines parsed \<noteq> [] then [ErrorLines (length (pp_error_lines parsed))] else [])"

section \<open>Facts\<close>

lemma direction_levels: "fst (log_recv native dir usage) = direction_level dir" "fst (log_pass native dir usage) = direction_level dir"
  by (cases dir; simp add: log_recv_def log_pass_def)+

lemma log_texts:
  "snd (log_recv native dir usage) = fmt_recv native dir usage" "snd (log_pass native dir usage) = fmt_pass native dir usage"
  "snd (log_swal native dir usage) = fmt_swal native dir usage" "snd (log_emit out) = fmt_emit out"
  by (simp_all add: log_recv_def log_pass_def log_swal_def log_emit_def fmt_recv_def fmt_pass_def fmt_swal_def fmt_emit_def)

lemma parse_action_str [simp]: "parse_action (direction_str dir) = Some dir"
  by (cases dir) (simp_all add: parse_action_def)

lemma direction_str_no_space: "CHR '' '' \<notin> set (direction_str dir)"
  by (cases dir) simp_all

lemma as_str_no_space: "CHR '' '' \<notin> set (as_str u)"
  using plain_name_as_str [of u] by (auto simp: plain_name_def list_all_iff plain_char_def)

lemma as_str_no_plus: "CHR ''+'' \<notin> set (as_str u)"
  using plain_name_as_str [of u] by (simp add: plain_name_def)

lemma split_on_concat: "split_on c (p @ c # q) = split_on c p @ split_on c q"
proof (induction p)
  case (Cons x p)
  then show ?case by (cases "split_on c p") auto
qed simp

lemma last_split_on: "c \<notin> set q \<Longrightarrow> last (split_on c (p @ c # q)) = q"
  by (simp add: split_on_concat split_on_no_sep)

text \<open>The name of a key has no blank, so the last arrow is the one that was written.\<close>

lemma parse_key_line_written:
  "parse_key_line kind (native @ '' '' @ direction_str dir @ ARROW @ as_str usage) =
     Some (MsgKey \<lparr>le_kind = kind, le_usage = usage, le_action = dir\<rparr>)"
proof -
  let ?l = "native @ '' '' @ direction_str dir"
  have "str_rfind ARROW (?l @ ARROW @ as_str usage) = Some (length ?l)"
    by (rule str_rfind_last) (simp_all add: ARROW_def as_str_no_space)
  moreover have "last (split_on (CHR '' '') ?l) = direction_str dir"
    using last_split_on [OF direction_str_no_space, of native dir] by simp
  ultimately show ?thesis by (simp add: parse_key_line_def Let_def)
qed

lemma strip_word_same: "strip_word word (word @ rest) = Some rest"
  by (simp add: strip_word_def)

lemma parse_written_key:
  "parse_message (fmt_recv native dir usage) = Some (MsgKey \<lparr>le_kind = KindRecv, le_usage = usage, le_action = dir\<rparr>)"
  "parse_message (fmt_pass native dir usage) = Some (MsgKey \<lparr>le_kind = KindPass, le_usage = usage, le_action = dir\<rparr>)"
  "parse_message (fmt_swal native dir usage) = Some (MsgKey \<lparr>le_kind = KindSwal, le_usage = usage, le_action = dir\<rparr>)"
  using parse_key_line_written [of _ native dir usage]
  by (simp_all add: parse_message_def strip_word_def fmt_recv_def fmt_pass_def fmt_swal_def)

lemma parse_written_emit: "parse_message (fmt_emit out) = Some (MsgEmit (fmt_native_key out))"
  by (simp add: parse_message_def strip_word_def fmt_emit_def)

text \<open>A \<open>map\<close> line is not part of what is verified.\<close>

lemma map_line_ignored: "parse_message (snd (log_map lookup_modifiers usage outs)) = None"
  by (simp add: parse_message_def strip_word_def log_map_def)

section \<open>Rendered keys\<close>

definition bit_name :: "u8 \<Rightarrow> string option" where
  "bit_name b =
     (case try_from_bit b of None \<Rightarrow> None | Some role \<Rightarrow> map_option as_str (hid_keyboard (role_hid_id role)))"

lemma bit_name_usage:
  assumes "b < (8 :: u8)"
  obtains u where "bit_name b = Some (as_str u)" "hid_usage_to_modifier_bit u = Some b"
proof -
  obtain r where r: "role_bit r = b" using assms role_of_bit by blast
  obtain m where m: "mod_role m = r"
    by (cases r) (use mod_role.simps in blast)+
  let ?u = "ModifierUsage m"
  have bit: "hid_usage_to_modifier_bit ?u = Some b" by (simp add: m r)
  then have "hid_page ?u = PAGE_KEYBOARD" "hid_id ?u = role_hid_id r"
    using modifier_bit_layout [of ?u b] by (simp_all add: role_hid_id_def r)
  then have "hid_keyboard (role_hid_id r) = Some ?u"
    using hid_code_round_trip [of _ ?u] by simp
  moreover have "try_from_bit b = Some r" using r try_from_bit_role_bit [of r] by simp
  ultimately show thesis using bit by (intro that [of ?u]) (simp_all add: bit_name_def)
qed

lemma bit_name_inject: "b < 8 \<Longrightarrow> b' < 8 \<Longrightarrow> bit_name b = bit_name b' \<Longrightarrow> b = b'"
  by (metis as_str_inject bit_name_usage option.inject)

lemma word_of_small: "i < 8 \<Longrightarrow> (word_of_nat i :: u8) < 8 \<and> unat (word_of_nat i :: u8) = i"
  by (simp add: unsigned_of_nat take_bit_nat_eq_self word_less_nat_alt)

lemma set_modifier_names:
  "set (modifier_names mods) = {name. \<exists>i < 8. bit mods i \<and> bit_name (word_of_nat i) = Some name}"
proof -
  have "drop_bit n mods AND 1 = 1 \<longleftrightarrow> bit mods n" for n
    by (simp add: and_one_eq bit_iff_odd_drop_bit odd_iff_mod_2_eq_one)
  then show ?thesis
    unfolding modifier_names_def bit_name_def [symmetric]
    by (auto simp: List.map_filter_def word_of_small) (force simp: word_of_small)+
qed

lemma modifier_names_inject: "modifier_names m = modifier_names m' \<Longrightarrow> m = m'"
proof (rule bit_eqI)
  fix i
  assume eq: "modifier_names m = modifier_names m'" and "possible_bit TYPE(u8) i"
  then have i: "i < 8" by simp
  then obtain name where name: "bit_name (word_of_nat i) = Some name"
    using bit_name_usage word_of_small by metis
  have "bit k i \<longleftrightarrow> name \<in> set (modifier_names k)" for k
  proof
    assume "name \<in> set (modifier_names k)"
    then obtain j where "j < 8" "bit k j" "bit_name (word_of_nat j) = Some name" by (auto simp: set_modifier_names)
    moreover then have "(word_of_nat j :: u8) = word_of_nat i"
      using i name word_of_small by (intro bit_name_inject) simp_all
    ultimately show "bit k i" using i word_of_small by metis
  qed (use i name in \<open>auto simp: set_modifier_names\<close>)
  with eq show "bit m i \<longleftrightarrow> bit m' i" by simp
qed

lemma modifier_names_no_plus: "name \<in> set (modifier_names mods) \<Longrightarrow> CHR ''+'' \<notin> set name"
  unfolding set_modifier_names using bit_name_usage word_of_small as_str_no_plus by clarsimp (metis option.inject)

lemma fmt_native_key_inject: "fmt_native_key a = fmt_native_key b \<longleftrightarrow> a = b"
proof
  assume eq: "fmt_native_key a = fmt_native_key b"
  have parts: "split_on (CHR ''+'') (fmt_native_key k) = modifier_names (nk_modifiers k) @ [as_str (nk_usage k)]" for k
    unfolding fmt_native_key_def fmt_modifiers_and_key_def
    by (rule split_on_join) (auto dest: modifier_names_no_plus simp: as_str_no_plus)
  from eq parts have "modifier_names (nk_modifiers a) @ [as_str (nk_usage a)] = modifier_names (nk_modifiers b) @ [as_str (nk_usage b)]"
    by metis
  then show "a = b" by (cases a; cases b) (auto dest: modifier_names_inject)
qed simp

section \<open>Properties\<close>

text \<open>
  C37. What the daemon logs is what the tests read. A line with a head in which no colon is followed by a blank and
  the level \<open>ERROR\<close> does not occur is read back as the event that was logged, whatever the native part is, and an
  \<open>emit\<close> line as the rendered output; two outputs are rendered alike only if they are the same, so the comparison
  of the \<open>emit\<close> lines as texts is exact.
\<close>
theorem log_round_trip:
  assumes "str_find '': '' head = None" "''ERROR'' \<notin> set (split_whitespace head)"
  shows "pp_key_events (parse_lines [head @ '': '' @ fmt_recv native dir usage]) =
           [\<lparr>le_kind = KindRecv, le_usage = usage, le_action = dir\<rparr>] \<and>
         pp_key_events (parse_lines [head @ '': '' @ fmt_pass native dir usage]) =
           [\<lparr>le_kind = KindPass, le_usage = usage, le_action = dir\<rparr>] \<and>
         pp_key_events (parse_lines [head @ '': '' @ fmt_swal native dir usage]) =
           [\<lparr>le_kind = KindSwal, le_usage = usage, le_action = dir\<rparr>] \<and>
         pp_emits (parse_lines [head @ '': '' @ fmt_emit out]) = [fmt_native_key out] \<and>
         (fmt_native_key out = fmt_native_key out') = (out = out')"
proof -
  have "split_line (head @ '': '' @ msg) = Some (False, msg)" for msg
    using str_find_pair [OF assms(1), of msg] assms(2) by (auto simp: split_line_def list_ex_iff)
  then have "parse_lines [head @ '': '' @ msg] =
      (let p = \<lparr>pp_emits = [], pp_key_events = [], pp_error_lines = [], pp_window = [head @ '': '' @ msg]\<rparr>
       in case parse_message msg of
            Some (MsgKey event) \<Rightarrow> p\<lparr>pp_key_events := [event]\<rparr>
          | Some (MsgEmit key) \<Rightarrow> p\<lparr>pp_emits := [key]\<rparr>
          | None \<Rightarrow> p)" for msg
    by (simp add: parse_lines_def parse_line_def parsed_phase_new_def Let_def split: option.splits log_message.splits)
  then show ?thesis by (simp add: parse_written_key parse_written_emit fmt_native_key_inject)
qed

theorem log_round_trip_witness:
  "pp_key_events (parse_lines [''DEBUG keymapper::capture'' @ '': '' @ fmt_recv ''/dev/input/event3 -> 30'' DirDown (LetterUsage U_A_key)]) =
     [\<lparr>le_kind = KindRecv, le_usage = LetterUsage U_A_key, le_action = DirDown\<rparr>]"
proof -
  have h: "str_find '': '' ''DEBUG keymapper::capture'' = None" by simp
  have "split_whitespace ''DEBUG keymapper::capture'' = [''DEBUG'', ''keymapper::capture'']"
    using split_whitespace_space [of "''DEBUG''" "''keymapper::capture''"] split_whitespace_plain [of "''keymapper::capture''"]
    by (simp add: plain_char_def)
  then have "''ERROR'' \<notin> set (split_whitespace ''DEBUG keymapper::capture'')" by simp
  from log_round_trip [OF h this] show ?thesis by blast
qed

end
