(* ===== verification/Daemon.thy ===== *)
theory Daemon
  imports Config_Doc Watcher Lookup_State Logging Logfmt
begin

text \<open>
  The start of the daemon: \<open>main\<close> of \<open>src/keymapperd.rs\<close>, the base directories of macOS
  (\<open>platform/macos/config_dir.rs\<close>), and the choice of the log sink with its files and lines (\<open>daemon/logging.rs\<close>,
  \<open>platform/logging/file.rs\<close>). What the system answers is a parameter.
\<close>

section \<open>Base directories on macOS\<close>

text \<open>
  \<open>open\<close> and \<open>fstat\<close> of the console, \<open>home_dir\<close> of the process, and the home directory of a user in the password
  database.
\<close>

definition mac_config_dir :: "path option \<Rightarrow> path option" where
  "mac_config_dir home = map_option (\<lambda>h. join_name (join_name h ''Library'') ''Application Support'') home"

definition console_uid :: "int \<Rightarrow> int \<times> u32 \<Rightarrow> u32 option" where
  "console_uid fd stat = (if fd < 0 then None else if fst stat \<noteq> 0 then None else Some (snd stat))"

definition console_user_home :: "u32 option \<Rightarrow> (u32 \<Rightarrow> path option) \<Rightarrow> path option" where
  "console_user_home uid passwd = (case uid of None \<Rightarrow> None | Some u \<Rightarrow> if u = 0 then None else passwd u)"

definition console_user_config_dir :: "u32 \<Rightarrow> u32 option \<Rightarrow> (u32 \<Rightarrow> path option) \<Rightarrow> path option" where
  "console_user_config_dir euid uid passwd =
     (if euid \<noteq> 0 then None
      else map_option (\<lambda>h. join_name (join_name h ''Library'') ''Application Support'') (console_user_home uid passwd))"

definition current_user_home :: "u32 \<Rightarrow> u32 \<Rightarrow> (u32 \<Rightarrow> path option) \<Rightarrow> path option \<Rightarrow> path option" where
  "current_user_home ruid euid passwd home = (if euid \<noteq> ruid then passwd ruid else home)"

text \<open>
  Run as root with a user at the console, that user's directory is searched before root's own; otherwise only the
  own one is.
\<close>

lemma console_directory_first:
  assumes "uid \<noteq> 0" "passwd uid = Some h"
  shows "hd (search_dirs (console_user_config_dir 0 (Some uid) passwd) base) =
    join_name (join_name (join_name h ''Library'') ''Application Support'') APP_DIR_NAME"
  using assms
  by (cases base) (simp_all add: search_dirs_def ordered_search_dirs_def console_user_config_dir_def console_user_home_def)

lemma own_directory_only:
  "euid \<noteq> 0 \<or> uid \<in> {None, Some 0} \<Longrightarrow>
     search_dirs (console_user_config_dir euid uid passwd) (Some base) = [join_name base APP_DIR_NAME]"
  by (auto simp: search_dirs_def ordered_search_dirs_def console_user_config_dir_def console_user_home_def)

text \<open>An elevated process does not take the home directory from its environment.\<close>

lemma elevated_home: "euid \<noteq> ruid \<Longrightarrow> current_user_home ruid euid passwd home = current_user_home ruid euid passwd home'"
  by (simp add: current_user_home_def)

section \<open>The log sink\<close>

text \<open>The log files of macOS and Windows. The base directory is the home directory, or that of the local data.\<close>

definition log_dir :: "bool \<Rightarrow> path option \<Rightarrow> string + path" where
  "log_dir windows base =
     (if windows
      then (case base of Some d \<Rightarrow> Inr (join_name d ''logs'') | None \<Rightarrow> Inl ''no local data directory (LOCALAPPDATA) available'')
      else
        (case base of
           Some h \<Rightarrow> Inr (join_name (join_name (join_name h ''Library'') ''Logs'') APP_DIR_NAME)
         | None \<Rightarrow> Inl ''no home directory available''))"

definition log_file_path :: "bool \<Rightarrow> path option \<Rightarrow> string option \<Rightarrow> string + path" where
  "log_file_path windows base exe_stem =
     (case log_dir windows base of
        Inl e \<Rightarrow> Inl e
      | Inr dir \<Rightarrow> Inr (join_name dir (case exe_stem of Some stem \<Rightarrow> stem @ ''.log'' | None \<Rightarrow> ''keymapperd.log'')))"

text \<open>The sink of the two platforms: the path, once its directory has been made.\<close>

definition file_log_sink :: "string + path \<Rightarrow> (path \<Rightarrow> string + unit) \<Rightarrow> string + path" where
  "file_log_sink file create_dir_all =
     (case file of
        Inl e \<Rightarrow> Inl e
      | Inr p \<Rightarrow>
          (case parent p of
             Some d \<Rightarrow> (case create_dir_all d of Inl e \<Rightarrow> Inl e | Inr _ \<Rightarrow> Inr p)
           | None \<Rightarrow> Inr p))"

text \<open>\<open>install_sink\<close>: the sink of the platform, or the one for the error output with a notice.\<close>

datatype 's installed_sink = PlatformSink 's | StderrSink string

definition install_ftlog :: "string + 's \<Rightarrow> ('s \<Rightarrow> string + 'l) \<Rightarrow> string + 'l" where
  "install_ftlog sink build = (case sink of Inl e \<Rightarrow> Inl e | Inr s \<Rightarrow> build s)"

definition install_sink :: "string + 's \<Rightarrow> ('s \<Rightarrow> string + 'l) \<Rightarrow> 'l installed_sink" where
  "install_sink sink build =
     (case install_ftlog sink build of Inl reason \<Rightarrow> StderrSink reason | Inr logger \<Rightarrow> PlatformSink logger)"

text \<open>A level as it is printed in a line.\<close>

definition level_display :: "level_filter \<Rightarrow> string" where
  "level_display level =
     (case level of LvlOff \<Rightarrow> ''OFF'' | LvlError \<Rightarrow> ''ERROR'' | LvlWarn \<Rightarrow> ''WARN'' | LvlInfo \<Rightarrow> ''INFO''
      | LvlDebug \<Rightarrow> ''DEBUG'' | LvlTrace \<Rightarrow> ''TRACE'')"

definition ft_log_message :: "level_filter \<Rightarrow> string option \<Rightarrow> string \<Rightarrow> string \<Rightarrow> string" where
  "ft_log_message level module_path target args =
     level_display level @ '' '' @ (case module_path of Some m \<Rightarrow> m | None \<Rightarrow> target) @ '': '' @ args"

definition stderr_line :: "level_filter \<Rightarrow> string \<Rightarrow> string" where
  "stderr_line level args = ''['' @ level_display level @ ''] '' @ args"

text \<open>
  A line is read back with the whole message, whatever the message is, by the reader of the end-to-end tests: the
  path of a module has no blank.
\<close>

lemma str_find_colon_blank_none: "CHR '':'' \<notin> set a \<Longrightarrow> CHR '' '' \<notin> set b \<Longrightarrow> str_find '': '' (a @ '' '' @ b) = None"
proof (induction a)
  case Nil
  have "CHR '' '' \<notin> set b \<Longrightarrow> str_find '': '' b = None" for b
  proof (induction b)
    case (Cons x b)
    then show ?case by (cases b) auto
  qed simp
  with Nil show ?case by auto
qed auto

lemma logged_line_split:
  assumes "CHR '' '' \<notin> set path"
  shows "map_option snd (split_line (ft_log_message level (Some path) target args)) = Some args"
proof -
  define h where "h = level_display level @ '' '' @ path"
  have "CHR '':'' \<notin> set (level_display level)" by (cases level) (simp_all add: level_display_def)
  from str_find_colon_blank_none [OF this assms] have "str_find '': '' h = None" by (simp add: h_def)
  from str_find_pair [OF this, of args] have "str_find '': '' (h @ '': '' @ args) = Some (length h)" by simp
  moreover have "ft_log_message level (Some path) target args = h @ '': '' @ args"
    by (simp add: ft_log_message_def h_def)
  ultimately show ?thesis by (simp add: split_line_def)
qed

section \<open>main\<close>

text \<open>
  What \<open>main\<close> finds, in the order it asks. The control endpoint is started first and runs beside the rest; its
  failure is not fatal, and it shares the log gate only (\<open>Control\<close>).
\<close>

record daemon_env =
  de_log_level :: "string option"
  de_probe :: path_probe
  de_console_base :: "path option"
  de_platform_base :: "path option"
  de_canonicalize :: "path \<Rightarrow> path option"
  de_read :: "path \<Rightarrow> config_read_error + string"
  de_keyboards :: "string + keyboard_info list"
  de_clock :: nat
  de_watch_ok :: bool

text \<open>
  How it ends: with exit code 1, with an error, or in \<open>start_mapping\<close>, with the state it has built, the filter it
  hands on and what \<open>start_mapping\<close> returns.
\<close>

datatype 'm daemon_end =
    ExitOne find_error
  | CompileFailed "(config_read_error, string) compile_error"
  | WatcherFailed
  | Mapping path runtime_state "keyboard_specifier list option" 'm

definition all_keyboards :: "string + keyboard_info list \<Rightarrow> keyboard_info list" where
  "all_keyboards listed = (case listed of Inr keyboards \<Rightarrow> keyboards | Inl _ \<Rightarrow> [])"

text \<open>The keyboards that are named in the log; the mapping selects its own.\<close>

definition keyboards_to_grab :: "daemon_env \<Rightarrow> runtime_lookup_cache \<Rightarrow> keyboard_info list" where
  "keyboards_to_grab env cache =
     filter_keyboards_by_specifiers (all_keyboards (de_keyboards env)) (rlc_global_keyboards cache)"

definition daemon_main ::
  "(string \<Rightarrow> level_filter option) \<Rightarrow> (string \<Rightarrow> string) \<Rightarrow> (string \<Rightarrow> string + app_config)
    \<Rightarrow> (runtime_state \<Rightarrow> keyboard_specifier list option \<Rightarrow> 'm) \<Rightarrow> daemon_env \<Rightarrow> log_gate \<times> 'm daemon_end" where
  "daemon_main parse_level uni load start_mapping env =
     (log_init parse_level (de_log_level env) log_gate_start,
      case find_config_path_strict (de_probe env) (de_console_base env) (de_platform_base env) of
        Inl e \<Rightarrow> ExitOne e
      | Inr found \<Rightarrow>
          (let config_path = (case de_canonicalize env found of Some p \<Rightarrow> p | None \<Rightarrow> found)
           in case snd (compile_from_path uni (de_read env) load config_path) of
                Inl e \<Rightarrow> CompileFailed e
              | Inr initial_cache \<Rightarrow>
                  (let global_filter = rlc_global_keyboards initial_cache;
                       state = rs_new (de_clock env) initial_cache (all_keyboards (de_keyboards env))
                   in if file_name config_path = None \<or> \<not> de_watch_ok env then WatcherFailed
                      else Mapping config_path state global_filter (start_mapping state global_filter))))"

section \<open>start of the emitter daemon\<close>

text \<open>
  \<open>start_virtkbd\<close> (\<open>platform/macos/virtkbd.rs\<close>): the wait for the virtual keyboard, over the polls with what each
  finds (whether the client is ready, whether a shutdown signal has come, and the time), and the server.
\<close>

definition READY_TIMEOUT :: nat where "READY_TIMEOUT = 25000"

datatype ready_wait = WaitReady | WaitShutdown | WaitTimeout

fun wait_ready :: "nat \<Rightarrow> (bool \<times> bool \<times> nat) list \<Rightarrow> ready_wait option" where
  "wait_ready deadline [] = None"
| "wait_ready deadline ((ready, shutdown, now) # polls) =
     (if ready then Some WaitReady
      else if shutdown then Some WaitShutdown
      else if now \<ge> deadline then Some WaitTimeout
      else wait_ready deadline polls)"

datatype 'r virtkbd_end = ClientFailed | Interrupted | Served 'r

definition start_virtkbd :: "bool \<Rightarrow> nat \<Rightarrow> (bool \<times> bool \<times> nat) list \<Rightarrow> 'r \<Rightarrow> 'r virtkbd_end option" where
  "start_virtkbd connected now polls served =
     (if \<not> connected then Some ClientFailed
      else map_option (\<lambda>w. case w of WaitShutdown \<Rightarrow> Interrupted | _ \<Rightarrow> Served served) (wait_ready (now + READY_TIMEOUT) polls))"

text \<open>The wait ends with the first poll at or after the deadline, if not before.\<close>

lemma wait_ready_ends:
  "(ready, shutdown, now) \<in> set polls \<Longrightarrow> now \<ge> deadline \<Longrightarrow> wait_ready deadline polls \<noteq> None"
  by (induction deadline polls rule: wait_ready.induct) auto

lemma served_unless_interrupted:
  assumes "start_virtkbd True now polls served = Some Interrupted"
  shows "\<exists>t. (False, True, t) \<in> set polls"
proof -
  have "wait_ready deadline polls = Some WaitShutdown \<Longrightarrow> \<exists>t. (False, True, t) \<in> set polls" for deadline
    by (induction deadline polls rule: wait_ready.induct) (auto split: if_splits)
  moreover have "wait_ready (now + READY_TIMEOUT) polls = Some WaitShutdown"
  proof (cases "wait_ready (now + READY_TIMEOUT) polls")
    case (Some w)
    with assms show ?thesis by (cases w) (simp_all add: start_virtkbd_def)
  qed (use assms in \<open>simp add: start_virtkbd_def\<close>)
  ultimately show ?thesis by blast
qed

section \<open>Facts\<close>

lemma find_strict_regular:
  "find_config_strict_in fs ds = Inr p \<Longrightarrow> pp_is_file fs p \<and> \<not> pp_is_symlink fs p \<and> (\<exists>d \<in> set ds. p = join_name d CONFIG_FILE_NAME)"
  by (induction ds) (auto simp: Let_def split: if_splits)

lemma compile_from_path_Inr:
  "snd (compile_from_path uni read load p :: _ \<times> (('r, 'p) compile_error + _)) = Inr cache \<longleftrightarrow>
     (\<exists>content c. read p = Inr content \<and> load content = Inr c \<and> cache = compile_from_config uni c)"
  by (auto simp: compile_from_path_def compile_from_str_def split: sum.splits)

lemma global_filter_compiled:
  "rlc_global_keyboards (compile_from_config uni c) = Option.bind (ac_keyboards c) (\<lambda>kbs. if kbs = [] then None else Some kbs)"
  by (simp add: compile_from_config_def Let_def split: option.split prod.split)

text \<open>A failing enumeration of the keyboards is like one that finds none.\<close>

lemma enumeration_not_fatal:
  "daemon_main parse_level uni load start env = daemon_main parse_level uni load start (env\<lparr>de_keyboards := Inr (all_keyboards (de_keyboards env))\<rparr>)"
  by (cases env) (auto simp: daemon_main_def Let_def all_keyboards_def split: sum.splits)

lemma initial_level:
  "current_level (fst (daemon_main parse_level uni load start env)) = parse_log_level parse_level (de_log_level env)"
  by (simp add: daemon_main_def log_init_def log_gate_start_def current_level_def)

text \<open>The places of the configuration file: in the directory of the user at the console, if there is one, and in the own one.\<close>

definition config_candidates :: "daemon_env \<Rightarrow> path list" where
  "config_candidates env =
     map (\<lambda>base. join_name (join_name base APP_DIR_NAME) CONFIG_FILE_NAME)
       (List.map_filter id [de_console_base env, de_platform_base env])"

lemma find_strict_first:
  "find_config_path_strict (de_probe env) (de_console_base env) (de_platform_base env) =
     (case find (pp_is_file (de_probe env)) (config_candidates env) of
        None \<Rightarrow> Inl FoundNothing
      | Some p \<Rightarrow> if pp_is_symlink (de_probe env) p then Inl (FoundSymlink p) else Inr p)"
  by (cases "de_console_base env"; cases "de_platform_base env")
    (auto simp: find_config_path_strict_def search_dirs_def ordered_search_dirs_def config_candidates_def
      map_filter_simps Let_def)

lemma rs_new_runtime: "rs_new now (compile_from_config uni c) kbs = runtime_of uni c kbs (focus_new now) 0"
  by (simp add: runtime_of_def rs_new_def)

lemma daemon_mapping:
  "snd (daemon_main parse_level uni (load_from_str yaml show_error) start env) = Mapping p st flt r \<longleftrightarrow>
     (\<exists>found content c.
        find_config_path_strict (de_probe env) (de_console_base env) (de_platform_base env) = Inr found \<and>
        p = (case de_canonicalize env found of Some q \<Rightarrow> q | None \<Rightarrow> found) \<and>
        de_read env p = Inr content \<and> load_from_str yaml show_error content = Inr c \<and>
        file_name p \<noteq> None \<and> de_watch_ok env \<and>
        st = rs_new (de_clock env) (compile_from_config uni c) (all_keyboards (de_keyboards env)) \<and>
        flt = Option.bind (ac_keyboards c) (\<lambda>kbs. if kbs = [] then None else Some kbs) \<and>
        r = start st flt)"
proof (cases "find_config_path_strict (de_probe env) (de_console_base env) (de_platform_base env)")
  case found: (Inr found)
  let ?p = "case de_canonicalize env found of Some q \<Rightarrow> q | None \<Rightarrow> found"
  define res :: "(config_read_error, string) compile_error + runtime_lookup_cache"
    where "res = snd (compile_from_path uni (de_read env) (load_from_str yaml show_error) ?p)"
  have res: "res = Inr cache \<longleftrightarrow> (\<exists>content c. de_read env ?p = Inr content \<and>
      load_from_str yaml show_error content = Inr c \<and> cache = compile_from_config uni c)" for cache
    unfolding res_def by (rule compile_from_path_Inr)
  have main: "snd (daemon_main parse_level uni (load_from_str yaml show_error) start env) =
      (case res of
         Inl e \<Rightarrow> CompileFailed e
       | Inr cache \<Rightarrow>
           if file_name ?p = None \<or> \<not> de_watch_ok env then WatcherFailed
           else (let st = rs_new (de_clock env) cache (all_keyboards (de_keyboards env))
                 in Mapping ?p st (rlc_global_keyboards cache) (start st (rlc_global_keyboards cache))))"
    unfolding daemon_main_def Let_def found res_def by simp
  show ?thesis
  proof (cases res)
    case (Inl e)
    then have "\<not> (\<exists>content c. de_read env ?p = Inr content \<and> load_from_str yaml show_error content = Inr c)"
      using res by (metis Inl_Inr_False)
    with found Inl main show ?thesis by auto
  next
    case (Inr cache)
    then obtain content c where "de_read env ?p = Inr content" "load_from_str yaml show_error content = Inr c"
        "cache = compile_from_config uni c"
      using res by blast
    then show ?thesis unfolding main by (auto simp: Inr found Let_def global_filter_compiled)
  qed
qed (simp add: daemon_main_def)

section \<open>Properties\<close>

text \<open>
  C39. What the daemon maps by. Of the places of the configuration file, the one of the user at the console before the own
  one, it takes the first at which there is a file. It maps keys exactly if this is no link, can be read
  (through the path with its links resolved, if that succeeds), is a valid document and can be watched, whatever the
  enumeration of the keyboards answers; if the first file is a link it ends with exit code 1, though another
  file may follow. Once it maps keys, every event is answered as the configuration that was read says, for the application
  with the focus and the keyboards found, and the filter handed to the mapping is that of the configuration.
\<close>
theorem daemon_maps_its_config:
  fixes env :: daemon_env
  assumes "ended = snd (daemon_main parse_level uni (load_from_str yaml show_error) start env)"
  shows "((\<exists>p st flt r. ended = Mapping p st flt r) \<longleftrightarrow>
      (\<exists>found q content c. find (pp_is_file (de_probe env)) (config_candidates env) = Some found
         \<and> \<not> pp_is_symlink (de_probe env) found
         \<and> q = (case de_canonicalize env found of Some q \<Rightarrow> q | None \<Rightarrow> found)
         \<and> de_read env q = Inr content \<and> load_from_str yaml show_error content = Inr c
         \<and> file_name q \<noteq> None \<and> de_watch_ok env))
    \<and> (\<forall>e. ended = ExitOne e \<longleftrightarrow>
        (case find (pp_is_file (de_probe env)) (config_candidates env) of
           None \<Rightarrow> e = FoundNothing
         | Some found \<Rightarrow> pp_is_symlink (de_probe env) found \<and> e = FoundSymlink found))
    \<and> (\<forall>p st flt r. ended = Mapping p st flt r \<longrightarrow>
        (\<exists>content c kbs. de_read env p = Inr content \<and> load_from_str yaml show_error content = Inr c \<and> doc_wf c
           \<and> kbs = (case de_keyboards env of Inr kbs \<Rightarrow> kbs | Inl _ \<Rightarrow> [])
           \<and> flt = (if ac_keyboards c = Some [] then None else ac_keyboards c) \<and> r = start st flt
           \<and> (\<forall>fe usage m d. fst (resolve (runtime_lookup uni fe) st usage m d) =
                config_answer uni c kbs (fst (rs_active_app fe st)) usage m d)))"
proof (intro conjI)
  show "(\<exists>p st flt r. ended = Mapping p st flt r) \<longleftrightarrow>
      (\<exists>found q content c. find (pp_is_file (de_probe env)) (config_candidates env) = Some found
         \<and> \<not> pp_is_symlink (de_probe env) found
         \<and> q = (case de_canonicalize env found of Some q \<Rightarrow> q | None \<Rightarrow> found)
         \<and> de_read env q = Inr content \<and> load_from_str yaml show_error content = Inr c
         \<and> file_name q \<noteq> None \<and> de_watch_ok env)"
    unfolding assms daemon_mapping find_strict_first
    by (cases "find (pp_is_file (de_probe env)) (config_candidates env)") auto
  show "\<forall>e. ended = ExitOne e \<longleftrightarrow>
        (case find (pp_is_file (de_probe env)) (config_candidates env) of
           None \<Rightarrow> e = FoundNothing
         | Some found \<Rightarrow> pp_is_symlink (de_probe env) found \<and> e = FoundSymlink found)"
    unfolding assms daemon_main_def find_strict_first
    by (auto simp: Let_def split: option.split sum.split)
  show "\<forall>p st flt r. ended = Mapping p st flt r \<longrightarrow>
        (\<exists>content c kbs. de_read env p = Inr content \<and> load_from_str yaml show_error content = Inr c \<and> doc_wf c
           \<and> kbs = (case de_keyboards env of Inr kbs \<Rightarrow> kbs | Inl _ \<Rightarrow> [])
           \<and> flt = (if ac_keyboards c = Some [] then None else ac_keyboards c) \<and> r = start st flt
           \<and> (\<forall>fe usage m d. fst (resolve (runtime_lookup uni fe) st usage m d) =
                config_answer uni c kbs (fst (rs_active_app fe st)) usage m d))"
  proof (intro allI impI)
    fix p st flt r assume "ended = Mapping p st flt r"
    then obtain content c where c: "de_read env p = Inr content" "load_from_str yaml show_error content = Inr c"
      "st = rs_new (de_clock env) (compile_from_config uni c) (all_keyboards (de_keyboards env))"
      "flt = Option.bind (ac_keyboards c) (\<lambda>kbs. if kbs = [] then None else Some kbs)" "r = start st flt"
      unfolding assms daemon_mapping by blast
    have "doc_wf c" using c(2) by (auto simp: load_from_str_def read_doc_wf split: sum.splits)
    moreover have "fst (resolve (runtime_lookup uni fe) st usage m d) =
        config_answer uni c (all_keyboards (de_keyboards env)) (fst (rs_active_app fe st)) usage m d" for fe usage m d
      using runtime_resolve [of uni c "all_keyboards (de_keyboards env)" "focus_new (de_clock env)" 0 fe usage m d]
      by (simp add: c(3) rs_new_runtime Let_def case_prod_beta)
    moreover have "flt = (if ac_keyboards c = Some [] then None else ac_keyboards c)"
      using c(4) by (cases "ac_keyboards c") auto
    ultimately show "\<exists>content c kbs. de_read env p = Inr content \<and> load_from_str yaml show_error content = Inr c \<and> doc_wf c
           \<and> kbs = (case de_keyboards env of Inr kbs \<Rightarrow> kbs | Inl _ \<Rightarrow> [])
           \<and> flt = (if ac_keyboards c = Some [] then None else ac_keyboards c) \<and> r = start st flt
           \<and> (\<forall>fe usage m d. fst (resolve (runtime_lookup uni fe) st usage m d) =
                config_answer uni c kbs (fst (rs_active_app fe st)) usage m d)"
      using c(1,2,5) unfolding all_keyboards_def by blast
  qed
qed

text \<open>Root, with a user at the console who has no file; the own one is read. If the user's file is a link, it is not.\<close>

definition demo_env :: "bool \<Rightarrow> daemon_env" where
  "demo_env linked =
     (let user_file = [RootDir, Normal ''u'', Normal APP_DIR_NAME, Normal CONFIG_FILE_NAME];
          own_file = [RootDir, Normal ''r'', Normal APP_DIR_NAME, Normal CONFIG_FILE_NAME]
      in \<lparr>de_log_level = None,
          de_probe = \<lparr>pp_is_file = (\<lambda>p. p = own_file \<or> linked \<and> p = user_file), pp_is_symlink = (\<lambda>p. p = user_file)\<rparr>,
          de_console_base = Some [RootDir, Normal ''u''], de_platform_base = Some [RootDir, Normal ''r''],
          de_canonicalize = Some, de_read = (\<lambda>_. Inr ''groups''), de_keyboards = Inl ''none'', de_clock = 0,
          de_watch_ok = True\<rparr>)"

lemma daemon_maps_its_config_witness:
  "(\<exists>p st flt r. snd (daemon_main (\<lambda>_. None) id (load_from_str (\<lambda>_. Inr (DocSeq [])) (\<lambda>_. [])) (\<lambda>_ _. ()) (demo_env False))
      = Mapping p st flt r)
   \<and> (\<exists>q. snd (daemon_main (\<lambda>_. None) id (load_from_str (\<lambda>_. Inr (DocSeq [])) (\<lambda>_. [])) (\<lambda>_ _. ()) (demo_env True))
      = ExitOne (FoundSymlink q))"
proof -
  have l: "load_from_str (\<lambda>_. Inr (DocSeq [])) (\<lambda>_. []) content = Inr (ac_visit_seq [])" for content
    by (simp add: load_from_str_def read_doc_def)
  have f: "find (pp_is_file (de_probe (demo_env b))) (config_candidates (demo_env b)) =
      Some (if b then [RootDir, Normal ''u'', Normal APP_DIR_NAME, Normal CONFIG_FILE_NAME]
        else [RootDir, Normal ''r'', Normal APP_DIR_NAME, Normal CONFIG_FILE_NAME])" for b
    by (simp add: demo_env_def config_candidates_def map_filter_simps join_name_def Let_def)
  have s: "pp_is_symlink (de_probe (demo_env b)) (if b then [RootDir, Normal ''u'', Normal APP_DIR_NAME, Normal CONFIG_FILE_NAME]
        else [RootDir, Normal ''r'', Normal APP_DIR_NAME, Normal CONFIG_FILE_NAME]) = b" for b
    by (simp add: demo_env_def Let_def)
  have e: "de_canonicalize (demo_env b) p = Some p" "de_read (demo_env b) p = Inr ''groups''" "de_watch_ok (demo_env b)" for b p
    by (simp_all add: demo_env_def Let_def)
  note t = daemon_maps_its_config [where parse_level = "\<lambda>_. None" and uni = id and start = "\<lambda>_ _. ()"
      and yaml = "\<lambda>_. Inr (DocSeq [])" and show_error = "\<lambda>_. []", OF refl]
  show ?thesis
    using t [of "demo_env False"] t [of "demo_env True"] f s [of False] s [of True] by (simp add: l e file_name_def)
qed

end
