(* ===== verification/Config_Windows.thy ===== *)
theory Config_Windows
  imports Config_Write
begin

text \<open>
  Access to the configuration on Windows (\<open>src/platform/config_access/windows.rs\<close>, which drops the checks of Unix) with
  the reader of \<open>src/common/config_io.rs\<close> over it, and the base directories of Linux and Windows
  (\<open>platform/linux/config_dir.rs\<close>, \<open>platform/windows/config_dir.rs\<close>).
\<close>

section \<open>Reading and writing\<close>

definition windows_open_config_file :: "errno + 'h \<Rightarrow> config_read_error + 'h" where
  "windows_open_config_file opened =
     (case opened of Inl err \<Rightarrow> Inl (if err = ENOENT then CfgNotFound else CfgIo err) | Inr h \<Rightarrow> Inr h)"

definition windows_check_file_trust :: "file_meta \<Rightarrow> config_read_error + unit" where
  "windows_check_file_trust meta = Inr ()"

text \<open>The errors of creating the temporary file are kept as they are.\<close>

definition windows_open_temp_file :: "write_faults \<Rightarrow> string \<Rightarrow> directory \<Rightarrow> config_write_error + directory" where
  "windows_open_temp_file flt name d =
     (case (case d name of Some _ \<Rightarrow> Some EEXIST | None \<Rightarrow> wf_create flt) of
        Some err \<Rightarrow> Inl (WrIo err)
      | None \<Rightarrow> Inr (d(name \<mapsto> NFile [] 0x180)))"

definition windows_verify_parent_chain :: "path \<Rightarrow> config_read_error + unit" where
  "windows_verify_parent_chain path = Inr ()"

text \<open>
  \<open>read_config_content\<close> on Windows: the path as \<open>symlink_metadata\<close> sees it, what opening it gives, and what the
  descriptor then answers.
\<close>

definition windows_read_config_content ::
  "errno + bool \<Rightarrow> errno + 'h \<Rightarrow> ('h \<Rightarrow> file_meta option) \<Rightarrow> ('h \<Rightarrow> errno + bytes) \<Rightarrow> config_read_error + string" where
  "windows_read_config_content lstat opened fstat read =
     (case lstat of
        Inl err \<Rightarrow> Inl (if err = ENOENT then CfgNotFound else CfgIo err)
      | Inr is_symlink \<Rightarrow>
          if is_symlink then Inl CfgSymlink
          else
            (case windows_open_config_file opened of
               Inl e \<Rightarrow> Inl e
             | Inr h \<Rightarrow>
                 (case fstat h of
                    None \<Rightarrow> Inl CfgMetadata
                  | Some meta \<Rightarrow>
                      if fm_kind meta \<noteq> KindFile then Inl CfgNotRegularFile
                      else if fm_len meta > MAX_CONFIG_SIZE then Inl (CfgTooLarge (fm_len meta) MAX_CONFIG_SIZE)
                      else
                        (case windows_check_file_trust meta of
                           Inl e \<Rightarrow> Inl e
                         | Inr _ \<Rightarrow>
                             (case read h of
                                Inl err \<Rightarrow> Inl (CfgIo err)
                              | Inr bs \<Rightarrow> if utf8_ok bs then Inr (bytes_str bs) else Inl CfgInvalidData)))))"

text \<open>What is read is the whole text of a regular file within the bound, all seen through one descriptor.\<close>

lemma windows_read_is_bounded:
  "windows_read_config_content lstat opened fstat read = Inr s \<Longrightarrow>
     lstat = Inr False \<and> (\<exists>h meta bs. opened = Inr h \<and> fstat h = Some meta \<and> fm_kind meta = KindFile \<and>
       fm_len meta \<le> MAX_CONFIG_SIZE \<and> read h = Inr bs \<and> utf8_ok bs \<and> s = bytes_str bs)"
  by (auto simp: windows_read_config_content_def windows_open_config_file_def windows_check_file_trust_def
      split: sum.splits if_splits option.splits)

text \<open>
  The owner and the mode of the file make no difference; on Unix a file that others can write to is refused.
\<close>

lemma windows_trust_ignores_mode:
  "windows_check_file_trust (meta\<lparr>fm_mode := mode, fm_uid := uid\<rparr>) = windows_check_file_trust meta"
  by (simp add: windows_check_file_trust_def)

section \<open>Base directories\<close>

text \<open>
  \<open>xdg\<close> is the value of the environment variable as text, with the path it is, and whether that is absolute.
\<close>

definition linux_config_dir :: "(string \<times> path \<times> bool) option \<Rightarrow> path option \<Rightarrow> path option" where
  "linux_config_dir xdg home =
     (case xdg of
        Some (v, p, absolute) \<Rightarrow>
          if v \<noteq> [] \<and> absolute then Some p else map_option (\<lambda>h. join_name h ''.config'') home
      | None \<Rightarrow> map_option (\<lambda>h. join_name h ''.config'') home)"

definition windows_config_dir :: "path option \<Rightarrow> path option" where
  "windows_config_dir config = config"

definition local_app_data_dir :: "path option \<Rightarrow> path option" where
  "local_app_data_dir data_local = map_option (\<lambda>d. join_name d APP_DIR_NAME) data_local"

text \<open>A relative value of the variable never becomes the base directory.\<close>

definition rooted :: "path \<Rightarrow> bool" where "rooted p \<longleftrightarrow> (\<exists>rest. p = RootDir # rest)"

lemma linux_config_dir_rooted:
  assumes "linux_config_dir xdg home = Some p" "\<And>v q. xdg = Some (v, q, True) \<Longrightarrow> rooted q"
    and "\<And>h. home = Some h \<Longrightarrow> rooted h"
  shows "rooted p"
proof (cases "\<exists>v q. xdg = Some (v, q, True) \<and> v \<noteq> []")
  case True
  then show ?thesis using assms(1,2) by (auto simp: linux_config_dir_def)
next
  case False
  then obtain h where "home = Some h" "p = join_name h ''.config''"
    using assms(1) by (auto simp: linux_config_dir_def split: option.splits if_splits)
  with assms(3) show ?thesis by (auto simp: rooted_def join_name_def)
qed

end
