(* ===== verification/Spec2Isabelle.thy ===== *)
theory Spec2Isabelle
  imports Config_Check Emission Ipc_Frame Linux_Loop Karabiner Windows_Loop Mac_World Endpoint_Unix Watcher Config_Doc App_Native Endpoint_Windows
    Windows_Keyboard Mac_Keyboard Cli Daemon Config_Windows
begin

text \<open>
  A model of \<^emph>\<open>keymapper\<close>, a keyboard remapping daemon written in Rust, and the theorems that make
  its core correct. Paths are relative to the crate (\<open>src/\<close> of the repository).

  \<^bold>\<open>The program.\<close> A configuration file lists rule groups: trigger chords and the outputs they
  produce, for all applications or for some, for all keyboards or for some. The daemon compiles it
  into rule lists (\<open>keymap_core/mapping_cache.rs\<close>), looks a pressed key up under the modifiers
  held and the application in focus (\<open>daemon/state.rs\<close>, \<open>keymap_core/lookup.rs\<close>,
  \<open>common/ttl_value.rs\<close>), decides what becomes of every key event (\<open>keymap_core/engine.rs\<close>), turns
  the decision into a plan (\<open>keymap_core/emission.rs\<close>), and a platform backend carries the plan out
  on an output device: a uinput keyboard on Linux, a second process reached over framed messages
  on macOS (\<open>common/frame.rs\<close>, \<open>platform/macos/ipc_frame.rs\<close>), injected input on Windows.

  \<^bold>\<open>The theories.\<close>
  \<^item> \<open>Prelude\<close>, \<open>Rust_Str\<close>: machine integers, modifier masks as sets of bits, the operations of
    Rust's strings and iterators that the sources use.
  \<^item> \<open>Hid_Usage\<close> (\<open>common/modifier.rs\<close>, \<open>common/hid_usage.rs\<close>): the table of keys with codes,
    names and aliases. Codes and names are inverses of their parsers; which keys are modifiers.
  \<^item> \<open>Keyboard\<close> (\<open>common/keyboard.rs\<close>): keyboard specifiers and filters.
  \<^item> \<open>Index_Map\<close>: the ordered tables (\<open>IndexMap\<close>, \<open>Vec\<close> of pairs) with their contracts as
    locales, interpreted on the list operations the code performs.
  \<^item> \<open>Config\<close>, \<open>Config_Check\<close> (\<open>common/config.rs\<close>): key events and their text, mapping tables,
    the document and the diagnostics of the configuration check.
  \<^item> \<open>Mapping_Cache\<close> (\<open>keymap_core/mapping_cache.rs\<close>): compilation into rule lists, which refines
    a first-match search of the configuration.
  \<^item> \<open>Ttl_Cache\<close> (\<open>common/ttl_value.rs\<close>, \<open>daemon/focus.rs\<close>): the short-lived value cache, for one
    caller as a function and for any number as a step relation cut at the lock operations.
  \<^item> \<open>Lookup_State\<close> (\<open>keymap_core/lookup.rs\<close>, \<open>daemon/state.rs\<close>, \<open>keymap_core/test_lookup.rs\<close>):
    the \<open>Lookup\<close> trait as a record of operations with its contract as a locale, and its two
    implementations.
  \<^item> \<open>Engine\<close> (\<open>keymap_core/engine.rs\<close>): the key tracker and every decision; the invariant that ties
    its masks to the keys down.
  \<^item> \<open>Emission\<close> (\<open>keymap_core/emission.rs\<close>): the plan of a decision, and the modifiers a client
    sees pressed on a device that carries the plans out.
  \<^item> \<open>Frame\<close> (\<open>common/frame.rs\<close>), \<open>Ipc_Frame\<close> (\<open>platform/macos/ipc_frame.rs\<close>): the framed
    messages, the resumable stream reader over a script of reads, and the batches of keys.
  \<^item> \<open>Backend\<close> (\<open>platform/backend.rs\<close>): the captured keys and output actions the backends share.
  \<^item> \<open>Linux_Keycode\<close>, \<open>Linux_Capture\<close> (\<open>platform/linux/keycode.rs\<close>, \<open>capture.rs\<close>): the evdev table
    and the scanner that identifies keys.
  \<^item> \<open>Linux_Emit\<close>, \<open>Linux_Device\<close> (\<open>platform/linux/mapping/device.rs\<close>, \<open>mod.rs\<close>): emission on a
    virtual keyboard whose writes may fail; a grabbed device from its adoption to its last event.
  \<^item> \<open>Linux_Hotplug\<close>, \<open>Linux_Loop\<close> (\<open>platform/linux/keyboard.rs\<close>, \<open>mapping/hotplug.rs\<close>, \<open>mod.rs\<close>): which
    keyboards are grabbed, the monitor that adds and removes them, and the event loop beside it as a
    step relation cut at the lock of the table; what any number of keyboards leaves pressed.
  \<^item> \<open>Karabiner\<close> (\<open>platform/macos/karabiner_client.rs\<close>, \<open>emit.rs\<close>): the client of the virtual
    keyboard daemon of macOS: frames and reports, the bounded command channel, a connection as a
    sequence of loop iterations, the checks before anything is sent.
  \<^item> \<open>Windows_Keycode\<close>, \<open>Windows_Raw\<close> (\<open>platform/windows/keycode.rs\<close>, \<open>raw_input.rs\<close>,
    \<open>device_match.rs\<close>, \<open>raw_worker.rs\<close>): virtual-key codes, raw input events and the buffer that names
    the device of a key.
  \<^item> \<open>Windows_Emit\<close>, \<open>Windows_Hook\<close> (\<open>platform/windows/mapping.rs\<close>, \<open>capture.rs\<close>): injected events,
    the ledger that recognizes them, the sleep budget of a callback, the elevation check, and the
    keyboard hook from an event to its fate; what a client sees pressed after a run of the hook.
  \<^item> \<open>Windows_Loop\<close> (\<open>platform/windows/mapping.rs\<close>): the message loop of the hook's thread with the
    self-test that reinstalls the hook, and what becomes of a shutdown request.
  \<^item> \<open>Mac_Capture\<close>, \<open>Mac_Mapping\<close> (\<open>platform/macos/keycode.rs\<close>, \<open>capture.rs\<close>, \<open>mapping.rs\<close>): key codes,
    the scanner that reads directions from flags, the tracker that recognizes the echoes of emitted
    keys, and the tap callback; \<open>Mac_World\<close>: the tap among the user's keyboard, the virtual keyboard that types
    what it sent and the system that posts the events of both, so that its properties speak of physical keys.
  \<^item> \<open>Rate_Limit\<close>, \<open>Peer_Creds\<close> (\<open>platform/endpoint/\<close>): the limiter of connections, whose contract is a
    locale, and the credentials of a peer on Linux and macOS.
  \<^item> \<open>Mac_Ipc\<close> (\<open>platform/macos/ipc_client.rs\<close>, \<open>ipc_server.rs\<close>): the channel that carries batches of keys
    from the tap to the process that emits them, and whom each side trusts.
  \<^item> \<open>Logging\<close> (\<open>daemon/logging.rs\<close>): the level gate and the writer that strips a field; \<open>Utf8\<close>: strings
    and their bytes.
  \<^item> \<open>Control\<close> (\<open>daemon/control/mod.rs\<close>), \<open>Endpoint_Unix\<close> (\<open>platform/endpoint/unix.rs\<close>): requests, their
    replies and effects, both ends of a connection; the socket, the peers admitted, the accept loop.
  \<^item> \<open>Path\<close>, \<open>Watcher\<close> (\<open>daemon/watcher.rs\<close>): paths, and the thread that reloads the configuration, as a
    function of the times of the notifications and of what each read finds.
  \<^item> \<open>Config_Access\<close>, \<open>Config_Write\<close> (\<open>common/config_io.rs\<close>, \<open>config_path.rs\<close>,
    \<open>platform/config_access/unix.rs\<close>): the hardened reader over a system whose every call may answer
    differently, the atomic writer with a fault at any step, the search of the file; \<open>Config_Windows\<close>
    (\<open>platform/config_access/windows.rs\<close>): the reader without those checks, and the base directories.
  \<^item> \<open>Config_Cmd\<close> (\<open>cli/config_cmd.rs\<close>): the commands that check and edit a configuration; \<open>Config_Doc\<close>
    (\<open>common/config.rs\<close>): the document they read and write, its well-formedness and its round trip.
  \<^item> \<open>App_Desktop\<close>, \<open>App_Active\<close>, \<open>App_Native\<close> (\<open>platform/app_identity/\<close>): the names of applications on
    Linux (desktop entries, processes, the compositors), macOS and Windows, and which of them is active.
  \<^item> \<open>Endpoint_Windows\<close> (\<open>platform/endpoint/windows.rs\<close>): the named pipe, from its name and the file that
    publishes it to the accept loop and the client.
  \<^item> \<open>Windows_Keyboard\<close>, \<open>Mac_Keyboard\<close> (\<open>platform/windows/keyboard.rs\<close>, \<open>platform/macos/keyboard.rs\<close>): the
    enumeration of keyboards from the answers of SetupAPI and from the output of \<open>ioreg\<close>.
  \<^item> \<open>Logfmt\<close> (\<open>keymap_core/logfmt.rs\<close>, \<open>tests/log_verify.rs\<close>): the grammar of the debug log, written and read.
  \<^item> \<open>Cli\<close> (\<open>cli/keys_cmd/\<close>, \<open>cli/keyboard_cmd/\<close>, \<open>cli/appnames_cmd.rs\<close>, \<open>cli/daemon_cmd/\<close>): the listings, the
    probe, and the commands that start, stop and query the daemon through each service manager.
  \<^item> \<open>Daemon\<close> (\<open>keymapperd.rs\<close>, \<open>daemon/logging.rs\<close>, \<open>platform/logging/\<close>, \<open>platform/macos/config_dir.rs\<close>):
    the start of the daemon, which puts the parts together, with the log sink and the base directories, and that
    of the emitter process (\<open>platform/macos/virtkbd.rs\<close>).

  \<^bold>\<open>State and operations.\<close> A Rust struct is a record with the fields of the struct, an enum a
  datatype, a method a function from the state to its result and the new state; \<open>Result\<close> is a sum
  with the error on the left. What lies outside the sources is a parameter or a script: the focused
  application and the clock of the cache, the reads of a stream and of an event device, the writes
  of the virtual keyboard that fail, the \<open>ioctl\<close> that reads the key bitmap, what each round of the
  virtual keyboard client meets (file system, socket, peer, timers, commands), and what each call of
  the Windows hook meets (time, raw events, foreground process, system calls). The world around the tap of
  macOS and the answers of a configuration (\<open>config_answer\<close>), to which the code is compared, are
  specifications and have no counterpart in the sources.

  \<^bold>\<open>Conditions.\<close> That nothing stays pressed is stated under the conditions that it needs, and
  lemmas show what happens without them: on Linux (C3) no write fails (\<open>failed_tap_leaves_keys_pressed\<close>) and a
  scan code names the modifier that its key code is (\<open>remapped_modifier_sticks\<close>); on Windows (C4) no modifier repeats
  (\<open>consumed_modifier_repeat_sticks\<close>), the foreground process is not elevated
  (C27) and nothing injected is blocked; on macOS (C5, C16) the flag a released modifier shares is not held by its twin
  (\<open>twin_release_sticks\<close>) and no typed event is late.

  \<^bold>\<open>Bounds and fuel.\<close> A trigger expands to at most 256 masks. A read loop over a script is bounded
  by the length of the script, the reader's retry loop by the number of events still in the stream,
  which each attempt shortens. A caller of the cache takes at most five steps. The native release
  window takes the readings of its deadline as a list and ends with it, as the deadline does pass. The
  device match of the Windows hook takes its rounds as a list; four are enough (\<open>Windows_Hook\<close>).

  \<^bold>\<open>Not modelled.\<close> YAML parsing (a document is the sequence of entries its visitors see); Unicode case
  mapping (a parameter); the rotation of the log files, which is that of a library; the parsing of
  command lines; the calls that create windows, taps,
  threads and sockets, of which the answers are parameters; the key injection of the end-to-end tests.
  The manifest lists every such part.
\<close>

end
